(* ===== verification/Prelude.thy ===== *)
theory Prelude
  imports Main "HOL-Library.Word" "HOL-Library.AList"
begin

text \<open>
  What every component shares: names for the machine integers, the model of
  \<open>std::unordered_map\<close>, and the interface of a deterministic component
  (a state, a step, an invariant) with the lemmas on its runs.
\<close>

subsection \<open>Machine integers\<close>

type_synonym u8 = "8 word"
type_synonym u16 = "16 word"
type_synonym u32 = "32 word"
type_synonym u64 = "64 word"
type_synonym i64 = "64 word" \<comment> \<open>\<open>int64_t\<close>: the same 64 bits, read with \<open>sint\<close>\<close>

lemma unat_inc: "unat w + 1 < 2 ^ LENGTH('a) \<Longrightarrow> unat (w + 1) = unat w + 1" for w :: "'a::len word"
  by (simp add: unat_word_ariths)

lemma unat_dec: "w \<noteq> 0 \<Longrightarrow> unat (w - 1) = unat w - 1" for w :: "'a::len word"
  by (simp add: unat_minus_one)

lemma dec_le: "w \<noteq> 0 \<Longrightarrow> w - 1 \<le> w" for w :: "'a::len word"
  by (simp add: word_le_nat_alt unat_dec)

lemma unat_inc_less: "unat (w + 1) = unat w + 1" if "w < v" for w v :: "'a::len word"
proof (rule unat_inc)
  have "unat w < unat v" using that by (simp add: word_less_nat_alt)
  moreover have "unat v < 2 ^ LENGTH('a)" by (rule unsigned_less)
  ultimately show "unat w + 1 < 2 ^ LENGTH('a)" by linarith
qed

lemma unat_inc_dec [simp]: "(w + 1) - 1 = w" "(w - 1) + 1 = w" for w :: "'a::len word"
  by simp_all

lemma of_nat_dec: "n \<noteq> 0 \<Longrightarrow> (of_nat n :: 'a::len word) - 1 = of_nat (n - 1)"
  by (cases n) simp_all

lemma of_nat_inj_bound:
  assumes "m < 2 ^ LENGTH('a)" "n < 2 ^ LENGTH('a)" "(of_nat m :: 'a::len word) = of_nat n"
  shows "m = n"
proof -
  have "unat (of_nat m :: 'a word) = m" using unat_of_nat mod_less [OF assms(1)] by (rule trans)
  moreover have "unat (of_nat n :: 'a word) = n" using unat_of_nat mod_less [OF assms(2)] by (rule trans)
  ultimately show ?thesis using assms(3) by metis
qed

subsection \<open>Hash maps\<close>

text \<open>
  A \<open>std::unordered_map\<close> is an association list without duplicate keys: the list order
  stands for the iteration order, which C++ leaves unspecified. \<open>operator[]\<close> and
  \<open>emplace\<close> of a new key append it, an existing key keeps its place. Lookup is \<open>map_of\<close>,
  assignment \<open>AList.update\<close>, \<open>erase\<close> is \<open>AList.delete\<close>.
\<close>

type_synonym ('k, 'v) umap = "('k \<times> 'v) list"

definition um_wf :: "('k, 'v) umap \<Rightarrow> bool" where
  "um_wf m \<longleftrightarrow> distinct (map fst m)"

definition um_count :: "('v \<Rightarrow> bool) \<Rightarrow> ('k, 'v) umap \<Rightarrow> nat" where
  "um_count P m = length (filter (\<lambda>kv. P (snd kv)) m)"

lemma um_wf_Nil [simp]: "um_wf []"
  by (simp add: um_wf_def)

lemma um_wf_update [simp]: "um_wf m \<Longrightarrow> um_wf (AList.update k v m)"
  by (simp add: um_wf_def distinct_update)

lemma um_wf_delete [simp]: "um_wf m \<Longrightarrow> um_wf (AList.delete k m)"
  by (simp add: um_wf_def distinct_delete)

lemma um_wf_Cons: "um_wf ((k, v) # m) \<longleftrightarrow> map_of m k = None \<and> um_wf m"
  by (auto simp: um_wf_def map_of_eq_None_iff)

lemma map_of_um_update [simp]: "map_of (AList.update k v m) = (map_of m)(k \<mapsto> v)"
  by (rule update_conv')

lemma map_of_um_delete [simp]: "map_of (AList.delete k m) = (map_of m)(k := None)"
  by (rule delete_conv')

lemma um_count_Nil [simp]: "um_count P [] = 0"
  by (simp add: um_count_def)

lemma um_count_Cons [simp]: "um_count P ((k, v) # m) = um_count P m + (if P v then 1 else 0)"
  by (simp add: um_count_def)

lemma um_count_delete:
  "um_wf m \<Longrightarrow> um_count P (AList.delete k m)
     = um_count P m - (case map_of m k of Some v \<Rightarrow> if P v then 1 else 0 | None \<Rightarrow> 0)"
proof (induction m)
  case (Cons kv m)
  obtain k' v where kv: "kv = (k', v)" by (cases kv)
  have id: "AList.delete k' m = m" if "map_of m k' = None"
    using that by (simp add: map_of_eq_None_iff delete_id)
  have pos: "0 < um_count P m" if "map_of m k = Some w" "P w" for w
    using map_of_SomeD [OF that(1)] that(2) by (force simp: um_count_def filter_empty_conv)
  show ?case using Cons kv id pos by (auto simp: um_wf_Cons split: option.splits)
qed simp

lemma um_count_update:
  "um_wf m \<Longrightarrow> um_count P (AList.update k v m)
     = um_count P (AList.delete k m) + (if P v then 1 else 0)"
proof (induction m)
  case (Cons kv m)
  obtain k' v' where kv: "kv = (k', v')" by (cases kv)
  have "AList.delete k' m = m" if "map_of m k' = None"
    using that by (simp add: map_of_eq_None_iff delete_id)
  then show ?case using Cons kv by (auto simp: um_wf_Cons)
qed simp

lemma um_count_le_length: "um_count P m \<le> length m"
  by (simp add: um_count_def)

subsection \<open>Deterministic components\<close>

text \<open>
  A component that is driven by a sequence of calls: \<open>step e s\<close> is the state after the
  call \<open>e\<close>. An invariant of each call is an invariant of every run.
\<close>

locale component =
  fixes step :: "'e \<Rightarrow> 's \<Rightarrow> 's"
    and inv :: "'s \<Rightarrow> bool"
  assumes step_inv: "inv s \<Longrightarrow> inv (step e s)"
begin

lemma run_inv: "inv s \<Longrightarrow> inv (fold step es s)"
  by (induction es arbitrary: s) (auto intro: step_inv)

lemma run_prefix_inv: "inv s \<Longrightarrow> inv (fold step (take n es) s)"
  by (rule run_inv)

end

text \<open>A component with a latch: once set, no call clears it.\<close>

locale latched_component = component +
  fixes latched :: "'s \<Rightarrow> bool"
  assumes step_latched: "inv s \<Longrightarrow> latched s \<Longrightarrow> latched (step e s)"
begin

lemma run_latched: "inv s \<Longrightarrow> latched s \<Longrightarrow> latched (fold step es s)"
  by (induction es arbitrary: s) (auto intro: step_inv step_latched)

lemma run_latched_mono:
  "inv s \<Longrightarrow> latched (fold step (take n es) s) \<Longrightarrow> latched (fold step es s)"
proof -
  assume s: "inv s" and l: "latched (fold step (take n es) s)"
  have "fold step es s = fold step (drop n es) (fold step (take n es) s)"
    by (metis append_take_drop_id comp_apply fold_append)
  then show ?thesis using run_latched [OF run_inv [OF s] l] by simp
qed

end

end
