(* ===== verification/Messages.thy ===== *)
theory Messages
  imports Main
begin

text \<open>
  The SBE enumerations of \<open>messages/schema/bpt-protocol.xml\<close> that the services exchange.
  The generated headers add \<open>NULL_VALUE\<close> (255) to each, here the constructors ending in
  \<open>NULL\<close>.
\<close>

datatype exchange_id = EX_ALL | EX_BINANCE | EX_OKX | EX_HYPERLIQUID | EX_DERIBIT | EX_NULL

datatype order_side = BUY | SELL | SIDE_NULL

datatype order_type = OT_MARKET | OT_LIMIT | OT_NULL

datatype time_in_force = GTC | IOC | FOK | TIF_NULL

datatype exec_status = ES_ACKED | ES_FILLED | ES_PARTIAL | ES_REJECTED | ES_CANCELLED | ES_NULL

datatype reject_reason = RR_OK | RR_INVALID_PRICE | RR_INVALID_QTY | RR_INSUFFICIENT_BALANCE
  | RR_RATE_LIMITED | RR_EXCHANGE_ERROR | RR_RISK_REJECTED | RR_DUPLICATE_ORDER_ID | RR_NULL

datatype ack_status = ACK_OK | ACK_REJECTED | ACK_NOT_FOUND | ACK_NULL

text \<open>The value an \<open>ExchangeId\<close> has on the wire, and as the index of an array.\<close>

fun exchange_value :: "exchange_id \<Rightarrow> nat" where
  "exchange_value EX_ALL = 0"
| "exchange_value EX_BINANCE = 1"
| "exchange_value EX_OKX = 2"
| "exchange_value EX_HYPERLIQUID = 3"
| "exchange_value EX_DERIBIT = 4"
| "exchange_value EX_NULL = 255"

lemma exchange_value_inj [simp]: "exchange_value x = exchange_value y \<longleftrightarrow> x = y"
  by (cases x; cases y) simp_all

lemma exchange_value_le: "exchange_value x \<le> 255"
  by (cases x) simp_all

instantiation exchange_id :: linorder
begin
definition less_exchange_id :: "exchange_id \<Rightarrow> exchange_id \<Rightarrow> bool" where
  "x < y \<longleftrightarrow> exchange_value x < exchange_value y"
definition less_eq_exchange_id :: "exchange_id \<Rightarrow> exchange_id \<Rightarrow> bool" where
  "x \<le> y \<longleftrightarrow> exchange_value x \<le> exchange_value y"
instance
  by standard (auto simp: less_exchange_id_def less_eq_exchange_id_def intro: antisym)
end

end
