(* ===== verification/Order_Events.thy ===== *)
theory Order_Events
  imports Prelude Messages
begin

text \<open>
  The data the parts of the order gateway hand to each other: the execution event an adapter
  fires (\<open>ExecEvent\<close>), the report published to the strategy (\<open>ExecReport\<close>), the order the
  gateway tracks (\<open>OrderState\<close>), the requests of the strategy (\<open>NewOrderEvent\<close> and its
  siblings) and the work items queued for an adapter's send executor.
\<close>

record exec_report =
  xr_order_id :: u64
  xr_exchange_order_id :: u64
  xr_exchange_id :: exchange_id
  xr_instrument_id :: u64
  xr_status :: exec_status
  xr_side :: order_side
  xr_order_type :: order_type
  xr_price :: i64
  xr_filled_qty :: u64
  xr_remaining_qty :: u64
  xr_reject_reason :: reject_reason
  xr_fee :: i64
  xr_fee_currency :: string
  xr_exchange_ts_ns :: u64
  xr_local_ts_ns :: u64

record exec_event =
  ev_order_id :: u64
  ev_exchange_order_id :: u64
  ev_exchange_id :: exchange_id
  ev_instrument_id :: u64
  ev_status :: exec_status
  ev_side :: order_side
  ev_order_type :: order_type
  ev_price :: i64
  ev_filled_qty :: u64
  ev_remaining_qty :: u64
  ev_reject_reason :: reject_reason
  ev_fee :: i64
  ev_fee_currency :: string
  ev_exchange_ts_ns :: u64
  ev_local_ts_ns :: u64

definition to_report :: "exec_event \<Rightarrow> exec_report" where
  "to_report e =
     \<lparr>xr_order_id = ev_order_id e, xr_exchange_order_id = ev_exchange_order_id e,
      xr_exchange_id = ev_exchange_id e, xr_instrument_id = ev_instrument_id e,
      xr_status = ev_status e, xr_side = ev_side e, xr_order_type = ev_order_type e,
      xr_price = ev_price e, xr_filled_qty = ev_filled_qty e,
      xr_remaining_qty = ev_remaining_qty e, xr_reject_reason = ev_reject_reason e,
      xr_fee = ev_fee e, xr_fee_currency = ev_fee_currency e,
      xr_exchange_ts_ns = ev_exchange_ts_ns e, xr_local_ts_ns = ev_local_ts_ns e\<rparr>"

subsection \<open>The order the gateway tracks\<close>

datatype order_lifecycle =
  OL_PENDING | OL_ACKED | OL_PARTIALLY_FILLED | OL_FILLED | OL_CANCELLED | OL_REJECTED

record order_state =
  os_order_id :: u64
  os_exchange_order_id :: u64
  os_exchange_id :: exchange_id
  os_instrument_id :: u64
  os_exchange_symbol :: string
  os_side :: order_side
  os_order_type :: order_type
  os_price :: i64
  os_quantity :: u64
  os_filled_qty :: u64
  os_remaining_qty :: u64
  os_lifecycle :: order_lifecycle
  os_created_ns :: u64
  os_last_update_ns :: u64

definition to_cancel_report :: "order_state \<Rightarrow> u64 \<Rightarrow> exec_report" where
  "to_cancel_report s ts =
     \<lparr>xr_order_id = os_order_id s, xr_exchange_order_id = os_exchange_order_id s,
      xr_exchange_id = os_exchange_id s, xr_instrument_id = os_instrument_id s,
      xr_status = ES_CANCELLED, xr_side = os_side s, xr_order_type = os_order_type s,
      xr_price = os_price s, xr_filled_qty = os_filled_qty s,
      xr_remaining_qty = os_remaining_qty s, xr_reject_reason = RR_OK,
      xr_fee = 0, xr_fee_currency = ''USDT'', xr_exchange_ts_ns = ts, xr_local_ts_ns = ts\<rparr>"

subsection \<open>The requests of the strategy\<close>

record new_order_event =
  no_order_id :: u64
  no_instrument_id :: u64
  no_exchange_id :: exchange_id
  no_side :: order_side
  no_order_type :: order_type
  no_tif :: time_in_force
  no_price :: i64
  no_quantity :: u64
  no_exec_inst :: u8
  no_exchange_symbol :: string

definition to_order_state :: "new_order_event \<Rightarrow> u64 \<Rightarrow> order_state" where
  "to_order_state e ts =
     \<lparr>os_order_id = no_order_id e, os_exchange_order_id = 0, os_exchange_id = no_exchange_id e,
      os_instrument_id = no_instrument_id e, os_exchange_symbol = no_exchange_symbol e,
      os_side = no_side e, os_order_type = no_order_type e, os_price = no_price e,
      os_quantity = no_quantity e, os_filled_qty = 0, os_remaining_qty = no_quantity e,
      os_lifecycle = OL_PENDING, os_created_ns = ts, os_last_update_ns = ts\<rparr>"

definition to_reject_report :: "new_order_event \<Rightarrow> reject_reason \<Rightarrow> u64 \<Rightarrow> exec_report" where
  "to_reject_report e reason ts =
     \<lparr>xr_order_id = no_order_id e, xr_exchange_order_id = 0, xr_exchange_id = no_exchange_id e,
      xr_instrument_id = no_instrument_id e, xr_status = ES_REJECTED, xr_side = no_side e,
      xr_order_type = no_order_type e, xr_price = no_price e, xr_filled_qty = 0,
      xr_remaining_qty = no_quantity e, xr_reject_reason = reason, xr_fee = 0,
      xr_fee_currency = ''USDT'', xr_exchange_ts_ns = ts, xr_local_ts_ns = ts\<rparr>"

record cancel_order_event =
  co_order_id :: u64
  co_exchange_id :: exchange_id

record modify_order_event =
  mo_order_id :: u64
  mo_exchange_id :: exchange_id
  mo_new_price :: i64
  mo_new_quantity :: u64

record cancel_all_event =
  ca_exchange_id :: exchange_id
  ca_instrument_id :: u64

subsection \<open>Work items of the send executor\<close>

record new_order_request =
  nr_order_id :: u64
  nr_instrument_id :: u64
  nr_price :: i64
  nr_quantity :: u64
  nr_side :: order_side
  nr_order_type :: order_type
  nr_tif :: time_in_force
  nr_exec_inst :: u8
  nr_exchange_symbol :: string

record cancel_request =
  cr_order_id :: u64
  cr_native_symbol :: string

record cancel_all_request =
  car_instrument_id :: u64

record modify_request =
  mr_order_id :: u64
  mr_new_price :: i64
  mr_new_quantity :: u64
  mr_native_symbol :: string

datatype send_work_item =
    NewOrderRequest new_order_request
  | CancelRequest cancel_request
  | CancelAllRequest cancel_all_request
  | ModifyRequest modify_request

end
