(* ===== verification/Order_State.thy ===== *)
theory Order_State
  imports Prelude Order_Events
begin

text \<open>
  \<open>OrderStateManager\<close> of the order gateway
  (\<open>src/bpt-order-gateway/src/order/order_state_manager.cpp\<close>): the orders by id and the
  running count of the open ones. Its promise is an abstract one: a finite map from order ids
  to orders, of which \<open>total_open_orders\<close> counts the open ones without a scan.
\<close>

record order_state_manager =
  sm_orders :: "(u64, order_state) umap"
  sm_total_open :: u32

definition sm_init :: order_state_manager where
  "sm_init = \<lparr>sm_orders = [], sm_total_open = 0\<rparr>"

definition is_open :: "order_lifecycle \<Rightarrow> bool" where
  "is_open lc \<longleftrightarrow> lc = OL_PENDING \<or> lc = OL_ACKED \<or> lc = OL_PARTIALLY_FILLED"

definition sm_get :: "u64 \<Rightarrow> order_state_manager \<Rightarrow> order_state option" where
  "sm_get order_id m = map_of (sm_orders m) order_id"

definition sm_insert :: "order_state \<Rightarrow> order_state_manager \<Rightarrow> bool \<times> order_state_manager" where
  "sm_insert st m =
     (case map_of (sm_orders m) (os_order_id st) of
        Some _ \<Rightarrow> (False, m)
      | None \<Rightarrow> (True, m\<lparr>sm_orders := AList.update (os_order_id st) st (sm_orders m),
          sm_total_open := (if is_open (os_lifecycle st) then sm_total_open m + 1 else sm_total_open m)\<rparr>))"

definition sm_update ::
  "u64 \<Rightarrow> order_lifecycle \<Rightarrow> u64 \<Rightarrow> u64 \<Rightarrow> u64 \<Rightarrow> u64 \<Rightarrow> order_state_manager \<Rightarrow> bool \<times> order_state_manager" where
  "sm_update order_id new_lifecycle exchange_order_id filled_qty remaining_qty timestamp_ns m =
     (case map_of (sm_orders m) order_id of
        None \<Rightarrow> (False, m)
      | Some st \<Rightarrow>
          let was_open = is_open (os_lifecycle st);
              now_open = is_open new_lifecycle;
              total = (if was_open \<and> \<not> now_open then sm_total_open m - 1
                       else if \<not> was_open \<and> now_open then sm_total_open m + 1 else sm_total_open m);
              st = st\<lparr>os_lifecycle := new_lifecycle,
                 os_exchange_order_id := (if exchange_order_id \<noteq> 0 then exchange_order_id else os_exchange_order_id st),
                 os_filled_qty := filled_qty, os_remaining_qty := remaining_qty,
                 os_last_update_ns := timestamp_ns\<rparr>
          in (True, m\<lparr>sm_orders := AList.update order_id st (sm_orders m), sm_total_open := total\<rparr>))"

definition sm_remove :: "u64 \<Rightarrow> order_state_manager \<Rightarrow> order_state_manager" where
  "sm_remove order_id m =
     (case map_of (sm_orders m) order_id of
        None \<Rightarrow> m
      | Some st \<Rightarrow> m\<lparr>sm_orders := AList.delete order_id (sm_orders m),
          sm_total_open := (if is_open (os_lifecycle st) then sm_total_open m - 1 else sm_total_open m)\<rparr>)"

definition sm_open_order_count :: "exchange_id \<Rightarrow> order_state_manager \<Rightarrow> u32" where
  "sm_open_order_count exchange m =
     fold (\<lambda>(id, st) count. if os_exchange_id st = exchange \<and> is_open (os_lifecycle st) then count + 1 else count)
       (sm_orders m) 0"

text \<open>The two scans, as the lists of orders their callbacks are called with.\<close>

definition sm_for_each_open :: "order_state_manager \<Rightarrow> order_state list" where
  "sm_for_each_open m = filter (\<lambda>st. is_open (os_lifecycle st)) (map snd (sm_orders m))"

definition sm_check_stale :: "u64 \<Rightarrow> u64 \<Rightarrow> order_state_manager \<Rightarrow> order_state list" where
  "sm_check_stale now_ns timeout_ns m =
     filter (\<lambda>st. os_lifecycle st = OL_ACKED \<and> now_ns - os_last_update_ns st > timeout_ns)
       (map snd (sm_orders m))"

subsection \<open>The abstract store\<close>

text \<open>
  The specification: a map from ids to orders. The counter is a function of the map. The
  invariant relates the two, and each operation is the corresponding map operation.
\<close>

definition sm_abs :: "order_state_manager \<Rightarrow> (u64 \<rightharpoonup> order_state)" where
  "sm_abs m = map_of (sm_orders m)"

definition sm_open :: "order_state_manager \<Rightarrow> nat" where
  "sm_open m = um_count (\<lambda>st. is_open (os_lifecycle st)) (sm_orders m)"

definition sm_inv :: "order_state_manager \<Rightarrow> bool" where
  "sm_inv m \<longleftrightarrow> um_wf (sm_orders m) \<and> sm_total_open m = of_nat (sm_open m) \<and>
     (\<forall>(k, st) \<in> set (sm_orders m). os_order_id st = k)"

lemma sm_inv_init: "sm_inv sm_init"
  by (simp add: sm_inv_def sm_init_def sm_open_def)

lemma sm_open_update:
  "um_wf (sm_orders m) \<Longrightarrow>
   um_count P (AList.update k st (sm_orders m))
     = um_count P (sm_orders m)
       - (case map_of (sm_orders m) k of Some v \<Rightarrow> if P v then 1 else 0 | None \<Rightarrow> 0) + (if P st then 1 else 0)"
  by (simp add: um_count_update um_count_delete)

lemma um_count_pos: "map_of m k = Some v \<Longrightarrow> P v \<Longrightarrow> 0 < um_count P m"
  by (force simp: um_count_def filter_empty_conv dest!: map_of_SomeD)

lemma set_um_update: "set (AList.update k v m) \<subseteq> insert (k, v) (set m)"
  by (induction m) auto

lemma set_um_delete: "set (AList.delete k m) \<subseteq> set m"
  by (induction m) auto

lemma sm_insert_spec:
  assumes "sm_inv m"
  shows "sm_inv (snd (sm_insert st m))"
    and "fst (sm_insert st m) \<longleftrightarrow> os_order_id st \<notin> dom (sm_abs m)"
    and "sm_abs (snd (sm_insert st m))
      = (if os_order_id st \<in> dom (sm_abs m) then sm_abs m else (sm_abs m)(os_order_id st \<mapsto> st))"
  using assms set_um_update [of "os_order_id st" st "sm_orders m"]
  by (auto simp: sm_insert_def sm_inv_def sm_open_def sm_abs_def sm_open_update split: option.splits)

lemma sm_update_spec:
  assumes "sm_inv m"
  shows "sm_inv (snd (sm_update i lc x f r t m))"
    and "fst (sm_update i lc x f r t m) \<longleftrightarrow> i \<in> dom (sm_abs m)"
proof -
  have id: "os_order_id st = i" if "map_of (sm_orders m) i = Some st" for st
    using assms map_of_SomeD [OF that] by (auto simp: sm_inv_def)
  show "sm_inv (snd (sm_update i lc x f r t m))"
    using assms id um_count_pos [of "sm_orders m" i _ "\<lambda>st. is_open (os_lifecycle st)"]
    by (auto simp: sm_update_def Let_def sm_inv_def sm_open_def sm_open_update of_nat_diff
        dest!: subsetD [OF set_um_update] split: option.splits)
  show "fst (sm_update i lc x f r t m) \<longleftrightarrow> i \<in> dom (sm_abs m)"
    by (auto simp: sm_update_def Let_def sm_abs_def split: option.splits)
qed

lemma sm_abs_update:
  "sm_abs (snd (sm_update i lc x f r t m)) = (sm_abs m)(i := map_option
     (\<lambda>st. st\<lparr>os_lifecycle := lc, os_exchange_order_id := (if x \<noteq> 0 then x else os_exchange_order_id st),
       os_filled_qty := f, os_remaining_qty := r, os_last_update_ns := t\<rparr>) (sm_abs m i))"
  by (auto simp: sm_update_def Let_def sm_abs_def fun_eq_iff split: option.splits)

lemma sm_remove_spec:
  assumes "sm_inv m"
  shows "sm_inv (sm_remove i m)" and "sm_abs (sm_remove i m) = (sm_abs m)(i := None)"
proof -
  show "sm_inv (sm_remove i m)"
    using assms um_count_pos [of "sm_orders m" i _ "\<lambda>st. is_open (os_lifecycle st)"]
    by (auto simp: sm_remove_def sm_inv_def sm_open_def um_count_delete of_nat_diff
        dest!: subsetD [OF set_um_delete] split: option.splits)
  show "sm_abs (sm_remove i m) = (sm_abs m)(i := None)"
    by (auto simp: sm_remove_def sm_abs_def fun_eq_iff split: option.splits)
qed

lemma sm_open_order_count_eq:
  "sm_open_order_count e m = of_nat (um_count (\<lambda>st. os_exchange_id st = e \<and> is_open (os_lifecycle st)) (sm_orders m))"
proof -
  have "fold (\<lambda>(id, st) count. if os_exchange_id st = e \<and> is_open (os_lifecycle st) then count + 1 else count) xs c
    = c + of_nat (um_count (\<lambda>st. os_exchange_id st = e \<and> is_open (os_lifecycle st)) xs)"
    for xs :: "(u64 \<times> order_state) list" and c :: u32
    by (induction xs arbitrary: c) (auto simp: ac_simps)
  then show ?thesis by (simp add: sm_open_order_count_def)
qed

subsection \<open>Calls and runs\<close>

datatype sm_call =
    SM_Insert order_state
  | SM_Update u64 order_lifecycle u64 u64 u64 u64
  | SM_Remove u64

fun sm_step :: "sm_call \<Rightarrow> order_state_manager \<Rightarrow> order_state_manager" where
  "sm_step (SM_Insert st) m = snd (sm_insert st m)"
| "sm_step (SM_Update i lc x f r t) m = snd (sm_update i lc x f r t m)"
| "sm_step (SM_Remove i) m = sm_remove i m"

fun sm_spec_step :: "sm_call \<Rightarrow> (u64 \<rightharpoonup> order_state) \<Rightarrow> (u64 \<rightharpoonup> order_state)" where
  "sm_spec_step (SM_Insert st) a = (if os_order_id st \<in> dom a then a else a(os_order_id st \<mapsto> st))"
| "sm_spec_step (SM_Update i lc x f r t) a = a(i := map_option
     (\<lambda>st. st\<lparr>os_lifecycle := lc, os_exchange_order_id := (if x \<noteq> 0 then x else os_exchange_order_id st),
       os_filled_qty := f, os_remaining_qty := r, os_last_update_ns := t\<rparr>) (a i))"
| "sm_spec_step (SM_Remove i) a = a(i := None)"

lemma sm_inv_step: "sm_inv m \<Longrightarrow> sm_inv (sm_step c m)"
  by (cases c) (auto intro: sm_insert_spec(1) sm_update_spec(1) sm_remove_spec(1))

interpretation sm: component sm_step sm_inv
  by unfold_locales (rule sm_inv_step)

lemma sm_refines_step: "sm_inv m \<Longrightarrow> sm_abs (sm_step c m) = sm_spec_step c (sm_abs m)"
  by (cases c) (simp_all add: sm_insert_spec(3) sm_abs_update sm_remove_spec(2))

lemma sm_refines_run: "sm_inv m \<Longrightarrow> sm_abs (fold sm_step cs m) = fold sm_spec_step cs (sm_abs m)"
  by (induction cs arbitrary: m) (simp_all add: sm_refines_step sm_inv_step)

lemma sm_open_card:
  assumes "um_wf (sm_orders m)"
  shows "sm_open m = card {k. \<exists>st. sm_abs m k = Some st \<and> is_open (os_lifecycle st)}"
proof -
  let ?P = "\<lambda>kv. is_open (os_lifecycle (snd kv))"
  let ?f = "filter ?P (sm_orders m)"
  have d: "distinct (map fst ?f)" using assms by (simp add: um_wf_def distinct_map_filter)
  have "sm_open m = card (fst ` set ?f)"
    using distinct_card [OF d] by (simp add: sm_open_def um_count_def)
  also have "fst ` set ?f = {k. \<exists>st. sm_abs m k = Some st \<and> is_open (os_lifecycle st)}"
    using assms by (force simp: sm_abs_def um_wf_def image_iff)
  finally show ?thesis .
qed

text \<open>
  The order state manager is its specification. After any sequence of
  inserts, updates and removals the stored orders are those of the abstract map that the same
  calls build, and \<open>total_open_orders\<close>, kept incrementally, is the number of open orders in that
  map (modulo the width of the counter).
\<close>
theorem sm_refines_map:
  "sm_abs (fold sm_step cs sm_init) = fold sm_spec_step cs Map.empty \<and>
   sm_total_open (fold sm_step cs sm_init)
     = of_nat (card {k. \<exists>st. fold sm_spec_step cs Map.empty k = Some st \<and> is_open (os_lifecycle st)})"
proof -
  have inv: "sm_inv (fold sm_step cs sm_init)" by (rule sm.run_inv [OF sm_inv_init])
  have abs: "sm_abs (fold sm_step cs sm_init) = fold sm_spec_step cs Map.empty"
    using sm_refines_run [OF sm_inv_init, of cs] by (simp add: sm_abs_def sm_init_def)
  have "sm_total_open (fold sm_step cs sm_init) = of_nat (sm_open (fold sm_step cs sm_init))"
    and "um_wf (sm_orders (fold sm_step cs sm_init))"
    using inv by (simp_all add: sm_inv_def)
  then show ?thesis using abs sm_open_card [of "fold sm_step cs sm_init"] by simp
qed

end
