(* ===== verification/Binary64.thy ===== *)
theory Binary64
  imports Complex_Main "HOL-Library.Log_Nat"
begin

text \<open>
  The C++ type \<open>double\<close> (IEEE-754 binary64) with round-to-nearest, ties-to-even, the
  arithmetic every component of the repository computes prices, quantities and P\&L with.
  A finite double is its exact rational value; an operation computes the exact result and
  rounds it (\<open>to_double\<close>), so rounding errors, overflow to infinity and NaN are those of
  the machine. The two zeros are one value here: no modelled operation divides by a zero
  that may be negative or reads the sign bit of a zero. Everything is executable.
\<close>

subsection \<open>Powers of two and the binary exponent\<close>

definition pow2 :: "int \<Rightarrow> rat" where
  "pow2 e = (if 0 \<le> e then 2 ^ nat e else 1 / 2 ^ nat (- e))"

definition ilog2 :: "rat \<Rightarrow> int" where
  "ilog2 x = (let (n, d) = quotient_of x; e = bitlen n - bitlen d
              in if pow2 e \<le> x then e else e - 1)"

lemma pow2_powi: "pow2 e = 2 powi e"
  by (simp add: pow2_def power_int_def field_simps)

lemma pow2_pos [simp]: "0 < pow2 e"
  by (simp add: pow2_powi)

lemma pow2_nonneg [simp]: "0 \<le> pow2 e"
  by (simp add: less_imp_le)

lemma pow2_nonzero [simp]: "pow2 e \<noteq> 0"
  by (simp add: pow2_powi)

lemma pow2_add: "pow2 (a + b) = pow2 a * pow2 b"
  by (simp add: pow2_powi power_int_add)

lemma pow2_mono: "a \<le> b \<Longrightarrow> pow2 a \<le> pow2 b"
  by (simp add: pow2_powi power_int_increasing)

lemma pow2_less: "pow2 a < pow2 b \<longleftrightarrow> a < b"
  by (metis linorder_not_less order_less_le pow2_mono pow2_powi power_int_strict_increasing
      one_less_numeral_iff semiring_norm(76))

lemma pow2_nat: "0 \<le> e \<Longrightarrow> pow2 e = of_int (2 ^ nat e)"
  by (simp add: pow2_def)

lemma pow2_diff_int: "b \<le> a \<Longrightarrow> pow2 a / pow2 b = of_int (2 ^ nat (a - b))"
proof -
  assume "b \<le> a"
  then have "pow2 a = pow2 (a - b) * pow2 b" by (simp flip: pow2_add)
  then show ?thesis using \<open>b \<le> a\<close> by (simp add: pow2_nat)
qed

lemma ilog2_bounds:
  assumes "0 < x"
  shows "pow2 (ilog2 x) \<le> x \<and> x < pow2 (ilog2 x + 1)"
proof -
  obtain n d where q: "quotient_of x = (n, d)" by (cases "quotient_of x")
  then have x: "x = of_int n / of_int d" and d: "0 < d"
    by (auto dest: quotient_of_div quotient_of_denom_pos)
  with assms have n: "0 < n" by (simp add: zero_less_divide_iff)
  have bn: "2 ^ nat (bitlen n - 1) \<le> n" "n < 2 ^ nat (bitlen n)"
    using bitlen_bounds [OF n] by auto
  have bd: "2 ^ nat (bitlen d - 1) \<le> d" "d < 2 ^ nat (bitlen d)"
    using bitlen_bounds [OF d] by auto
  have bitlen_pos: "0 < bitlen k" if "0 < k" for k :: int
  proof (rule ccontr)
    assume "\<not> 0 < bitlen k"
    then show False using bitlen_bounds [OF that] that by simp
  qed
  have pos: "0 \<le> bitlen n - 1" "0 \<le> bitlen d - 1" "0 \<le> bitlen n" "0 \<le> bitlen d"
    using bitlen_pos [OF n] bitlen_pos [OF d] by simp_all
  let ?e = "bitlen n - bitlen d"
  have n1: "pow2 (bitlen n - 1) \<le> of_int n" and n2: "of_int n < pow2 (bitlen n)"
    using bn pos by (simp_all only: pow2_nat of_int_le_iff of_int_less_iff)
  have d1: "pow2 (bitlen d - 1) \<le> of_int d" and d2: "of_int d < pow2 (bitlen d)"
    using bd pos by (simp_all only: pow2_nat of_int_le_iff of_int_less_iff)
  have hi: "x < pow2 (?e + 1)"
  proof -
    have "of_int n < pow2 (?e + 1) * pow2 (bitlen d - 1)"
      using n2 by (simp flip: pow2_add)
    also have "\<dots> \<le> pow2 (?e + 1) * of_int d" using d1 by simp
    finally show ?thesis using d x by (simp add: divide_less_eq)
  qed
  have lo: "pow2 (?e - 1) \<le> x"
  proof -
    have "pow2 (?e - 1) * of_int d \<le> pow2 (?e - 1) * pow2 (bitlen d)" using d2 by simp
    also have "\<dots> \<le> of_int n" using n1 by (simp flip: pow2_add)
    finally show ?thesis using d x by (simp add: le_divide_eq)
  qed
  show ?thesis using hi lo q by (simp add: ilog2_def Let_def)
qed

lemma ilog2_unique: "pow2 e \<le> x \<Longrightarrow> x < pow2 (e + 1) \<Longrightarrow> ilog2 x = e"
  using ilog2_bounds [of x] pow2_less [of "ilog2 x" "e + 1"] pow2_less [of e "ilog2 x + 1"]
    pow2_pos [of e] by fastforce

lemma ilog2_ge_iff: "0 < x \<Longrightarrow> e \<le> ilog2 x \<longleftrightarrow> pow2 e \<le> x"
  using ilog2_bounds [of x] pow2_mono [of e "ilog2 x"] pow2_mono [of "ilog2 x + 1" e] by force

lemma ilog2_mono: "0 < x \<Longrightarrow> x \<le> y \<Longrightarrow> ilog2 x \<le> ilog2 y"
  by (metis ilog2_bounds ilog2_ge_iff order_less_le_trans order_trans)

subsection \<open>Rounding to nearest, ties to even\<close>

definition round_half_even :: "rat \<Rightarrow> int" where
  "round_half_even x =
     (let f = floor x; r = x - of_int f
      in if r < 1 / 2 then f else if 1 / 2 < r then f + 1 else if even f then f else f + 1)"

lemma round_half_even_of_int [simp]: "round_half_even (of_int z) = z"
  by (simp add: round_half_even_def)

lemma round_half_even_bounds: "floor x \<le> round_half_even x \<and> round_half_even x \<le> floor x + 1"
  by (simp add: round_half_even_def Let_def)

lemma round_half_even_mono:
  assumes "x \<le> y" shows "round_half_even x \<le> round_half_even y"
proof (cases "floor x = floor y")
  case True
  then show ?thesis using assms by (simp add: round_half_even_def Let_def)
next
  case False
  then have "floor x + 1 \<le> floor y" using floor_mono [OF assms] by linarith
  then show ?thesis
    using round_half_even_bounds [of x] round_half_even_bounds [of y] by linarith
qed

lemma floor_minus_frac: "x \<notin> \<int> \<Longrightarrow> floor (- x) = - floor x - 1" for x :: rat
proof -
  assume "x \<notin> \<int>"
  then have "of_int (floor x) \<noteq> x" by (metis Ints_of_int)
  then have "of_int (floor x) < x" using of_int_floor_le [of x] by linarith
  then show ?thesis by (intro floor_unique) (simp_all, linarith+)
qed

lemma round_half_even_minus: "round_half_even (- x) = - round_half_even x"
proof (cases "x \<in> \<int>")
  case True
  then obtain z where "x = of_int z" by (auto elim: Ints_cases)
  moreover have "round_half_even (of_int (- z)) = - z" by (rule round_half_even_of_int)
  ultimately show ?thesis by simp
next
  case False
  then show ?thesis
    by (simp add: round_half_even_def Let_def floor_minus_frac)
qed

definition ulp_exp :: "rat \<Rightarrow> int" where
  "ulp_exp x = max (ilog2 \<bar>x\<bar> - 52) (- 1074)"

definition round64 :: "rat \<Rightarrow> rat" where
  "round64 x = (if x = 0 then 0
     else of_int (round_half_even (x / pow2 (ulp_exp x))) * pow2 (ulp_exp x))"

definition representable :: "rat \<Rightarrow> bool" where
  "representable x \<longleftrightarrow> (\<exists>m e. x = of_int m * pow2 e \<and> \<bar>m\<bar> \<le> 2 ^ 53 \<and> - 1074 \<le> e)"

lemma round64_0 [simp]: "round64 0 = 0"
  by (simp add: round64_def)

lemma round64_minus: "round64 (- x) = - round64 x"
  by (simp add: round64_def ulp_exp_def round_half_even_minus)

lemma round64_exact:
  assumes "x = of_int m * pow2 (ulp_exp x)" shows "round64 x = x"
proof -
  have "x / pow2 (ulp_exp x) = of_int m" using assms by (simp add: field_simps)
  then have "x \<noteq> 0 \<Longrightarrow> round64 x = of_int m * pow2 (ulp_exp x)" by (simp add: round64_def)
  with assms show ?thesis by (cases "x = 0") auto
qed

lemma representable_round64: "representable (round64 x)"
proof (cases "x = 0")
  case True
  then show ?thesis by (auto simp: representable_def intro!: exI [of _ 0])
next
  case False
  let ?q = "ulp_exp x"
  let ?m = "round_half_even (x / pow2 ?q)"
  have "\<bar>x\<bar> < pow2 (ilog2 \<bar>x\<bar> + 1)" using ilog2_bounds [of "\<bar>x\<bar>"] False by simp
  also have "\<dots> \<le> pow2 (53 + ?q)" by (rule pow2_mono) (simp add: ulp_exp_def)
  finally have "\<bar>x\<bar> < pow2 53 * pow2 ?q" by (simp add: pow2_add)
  then have "x < pow2 53 * pow2 ?q" and "- (pow2 53 * pow2 ?q) < x" by linarith+
  then have "x / pow2 ?q \<le> of_int (2 ^ 53)" and "of_int (- (2 ^ 53)) \<le> x / pow2 ?q"
    by (simp_all add: field_simps pow2_nat)
  then have "?m \<le> 2 ^ 53" and "- (2 ^ 53) \<le> ?m"
    by (metis round_half_even_mono round_half_even_of_int)+
  then have "\<bar>?m\<bar> \<le> 2 ^ 53" by linarith
  moreover have "- 1074 \<le> ?q" by (simp add: ulp_exp_def)
  ultimately show ?thesis using False by (auto simp: representable_def round64_def)
qed

lemma round64_representable:
  assumes "representable x" shows "round64 x = x"
proof (cases "x = 0")
  case False
  obtain m k where x: "x = of_int m * pow2 k" and m: "\<bar>m\<bar> \<le> 2 ^ 53" and k: "- 1074 \<le> k"
    using assms by (auto simp: representable_def)
  let ?q = "ulp_exp x"
  show ?thesis
  proof (cases "?q \<le> k")
    case True
    then have "pow2 k = pow2 (k - ?q) * pow2 ?q" by (simp flip: pow2_add)
    then have "x = of_int (m * 2 ^ nat (k - ?q)) * pow2 ?q" using x True by (simp add: pow2_nat)
    then show ?thesis by (rule round64_exact)
  next
    case False
    then have q: "?q = ilog2 \<bar>x\<bar> - 52" and kq: "k + 1 \<le> ?q" using k by (auto simp: ulp_exp_def)
    have "pow2 (?q + 52) \<le> \<bar>x\<bar>" using ilog2_bounds [of "\<bar>x\<bar>"] \<open>x \<noteq> 0\<close> q by simp
    also have "\<bar>x\<bar> = of_int \<bar>m\<bar> * pow2 k" using x by (simp add: abs_mult)
    finally have lower: "pow2 (?q + 52) \<le> of_int \<bar>m\<bar> * pow2 k" .
    have "pow2 (?q + 52) \<le> pow2 53 * pow2 k"
    proof -
      have "(of_int \<bar>m\<bar> :: rat) \<le> of_int (2 ^ 53)" using m by (simp only: of_int_le_iff)
      then have "of_int \<bar>m\<bar> * pow2 k \<le> pow2 53 * pow2 k" by (simp add: pow2_nat)
      with lower show ?thesis by linarith
    qed
    then have "\<not> pow2 (53 + k) < pow2 (?q + 52)" by (simp add: pow2_add)
    then have qk: "?q = k + 1" using kq by (simp add: pow2_less)
    then have "pow2 53 * pow2 k \<le> of_int \<bar>m\<bar> * pow2 k"
      using lower by (simp add: algebra_simps flip: pow2_add)
    then have "(of_int (2 ^ 53) :: rat) \<le> of_int \<bar>m\<bar>" by (simp add: pow2_nat)
    then have "2 ^ 53 \<le> \<bar>m\<bar>" by (simp only: of_int_le_iff)
    with m have "m = 2 ^ 53 \<or> m = - (2 ^ 53)" by linarith
    then obtain m' where "m = 2 * m'"
      by (metis mult_minus_right power_Suc eval_nat_numeral(3) numeral_eq_Suc)
    moreover have "pow2 ?q = 2 * pow2 k" using qk by (simp add: pow2_add) (simp add: pow2_def)
    ultimately have "x = of_int m' * pow2 ?q" using x by simp
    then show ?thesis by (rule round64_exact)
  qed
qed simp
lemma round64_le_int:
  assumes "0 < x" and "x \<le> of_int m * pow2 (ulp_exp x)"
  shows "round64 x \<le> of_int m * pow2 (ulp_exp x)"
proof -
  have "x / pow2 (ulp_exp x) \<le> of_int m" using assms by (simp add: field_simps)
  then have "round_half_even (x / pow2 (ulp_exp x)) \<le> m"
    by (metis round_half_even_mono round_half_even_of_int)
  then show ?thesis using assms by (simp add: round64_def)
qed

lemma round64_nonneg: "0 \<le> x \<Longrightarrow> 0 \<le> round64 x"
  using round_half_even_mono [of 0 "x / pow2 (ulp_exp x)"] round_half_even_of_int [of 0]
  by (simp add: round64_def)

lemma round64_mono_pos:
  assumes x: "0 < x" and xy: "x \<le> y"
  shows "round64 x \<le> round64 y"
proof -
  have y: "0 < y" using assms by linarith
  have e: "ilog2 x \<le> ilog2 y" using x xy by (rule ilog2_mono)
  let ?p = "ulp_exp x" and ?q = "ulp_exp y"
  have pq: "?p \<le> ?q" using e x y by (simp add: ulp_exp_def)
  show ?thesis
  proof (cases "?p = ?q")
    case True
    have "x / pow2 ?p \<le> y / pow2 ?p" using xy by (simp add: divide_right_mono)
    then show ?thesis
      using x y True by (simp add: round64_def round_half_even_mono)
  next
    case False
    then have q: "?q = ilog2 y - 52" and lt: "ilog2 x < ilog2 y" and pe: "?p \<le> ilog2 y"
      using pq x y by (auto simp: ulp_exp_def max_def split: if_splits)
    let ?E = "pow2 (ilog2 y)"
    have Ep: "?E = of_int (2 ^ nat (ilog2 y - ?p)) * pow2 ?p"
      using pow2_diff_int [OF pe] by (simp add: field_simps)
    have "x \<le> ?E"
      using ilog2_bounds [OF x] lt pow2_mono [of "ilog2 x + 1" "ilog2 y"] by linarith
    then have "round64 x \<le> ?E" using round64_le_int [OF x, of "2 ^ nat (ilog2 y - ?p)"] Ep by simp
    also have "?E \<le> round64 y"
    proof -
      have "pow2 (52 + ?q) = pow2 52 * pow2 ?q" by (rule pow2_add)
      then have Eq: "?E = of_int (2 ^ 52) * pow2 ?q" using q by (simp add: pow2_nat)
      have "?E \<le> y" using ilog2_bounds [OF y] by simp
      then have "of_int (2 ^ 52) \<le> y / pow2 ?q" using Eq by (simp add: field_simps)
      then have "2 ^ 52 \<le> round_half_even (y / pow2 ?q)"
        by (metis round_half_even_mono round_half_even_of_int)
      then have "(of_int (2 ^ 52) :: rat) \<le> of_int (round_half_even (y / pow2 ?q))"
        by (simp only: of_int_le_iff)
      then show ?thesis using y Eq by (simp add: round64_def)
    qed
    finally show ?thesis .
  qed
qed

lemma round64_mono: "x \<le> y \<Longrightarrow> round64 x \<le> round64 y"
proof -
  assume xy: "x \<le> y"
  consider "0 < x" | "x \<le> 0" "0 \<le> y" | "y < 0" by linarith
  then show ?thesis
  proof cases
    case 2
    then have "0 \<le> - round64 x" and "0 \<le> round64 y"
      using round64_nonneg [of "- x"] round64_nonneg [of y] by (simp_all add: round64_minus)
    then show ?thesis by linarith
  next
    case 3
    then have "round64 (- y) \<le> round64 (- x)" using xy by (intro round64_mono_pos) auto
    then show ?thesis by (simp add: round64_minus)
  qed (use xy round64_mono_pos in blast)
qed

lemma representable_of_int: "\<bar>n\<bar> \<le> 2 ^ 53 \<Longrightarrow> representable (of_int n)"
  unfolding representable_def by (rule exI [of _ n], rule exI [of _ 0]) (simp add: pow2_def)

lemma representable_pow2: "- 1074 \<le> e \<Longrightarrow> representable (pow2 e)"
  unfolding representable_def by (rule exI [of _ 1], rule exI [of _ e]) simp


subsection \<open>Doubles\<close>

datatype double = NaN | PInf | NInf | Fin rat

definition to_double :: "rat \<Rightarrow> double" where
  "to_double x = (let y = round64 x in
     if y \<noteq> 0 \<and> 1024 \<le> ilog2 \<bar>y\<bar> then (if 0 < y then PInf else NInf) else Fin y)"

fun wf_double :: "double \<Rightarrow> bool" where
  "wf_double (Fin x) \<longleftrightarrow> round64 x = x \<and> (x = 0 \<or> ilog2 \<bar>x\<bar> < 1024)"
| "wf_double _ \<longleftrightarrow> True"

fun d_sgn :: "double \<Rightarrow> rat" where
  "d_sgn PInf = 1"
| "d_sgn NInf = - 1"
| "d_sgn (Fin x) = sgn x"
| "d_sgn NaN = 0"

definition d_inf :: "rat \<Rightarrow> double" where
  "d_inf s = (if 0 < s then PInf else if s < 0 then NInf else NaN)"

fun d_add :: "double \<Rightarrow> double \<Rightarrow> double" where
  "d_add (Fin x) (Fin y) = to_double (x + y)"
| "d_add NaN y = NaN"
| "d_add x NaN = NaN"
| "d_add PInf NInf = NaN"
| "d_add NInf PInf = NaN"
| "d_add PInf y = PInf"
| "d_add NInf y = NInf"
| "d_add x PInf = PInf"
| "d_add x NInf = NInf"

fun d_neg :: "double \<Rightarrow> double" where
  "d_neg (Fin x) = Fin (- x)"
| "d_neg PInf = NInf"
| "d_neg NInf = PInf"
| "d_neg NaN = NaN"

fun d_mul :: "double \<Rightarrow> double \<Rightarrow> double" where
  "d_mul (Fin x) (Fin y) = to_double (x * y)"
| "d_mul x y = d_inf (d_sgn x * d_sgn y)"

fun d_div :: "double \<Rightarrow> double \<Rightarrow> double" where
  "d_div NaN y = NaN"
| "d_div x NaN = NaN"
| "d_div (Fin x) (Fin y) = (if y = 0 then d_inf x else to_double (x / y))"
| "d_div (Fin x) y = Fin 0"
| "d_div x (Fin y) = (if y = 0 then x else d_inf (d_sgn x * sgn y))"
| "d_div x y = NaN"

fun d_less :: "double \<Rightarrow> double \<Rightarrow> bool" where
  "d_less (Fin x) (Fin y) \<longleftrightarrow> x < y"
| "d_less NaN y \<longleftrightarrow> False"
| "d_less x NaN \<longleftrightarrow> False"
| "d_less NInf NInf \<longleftrightarrow> False"
| "d_less NInf y \<longleftrightarrow> True"
| "d_less PInf y \<longleftrightarrow> False"
| "d_less x PInf \<longleftrightarrow> True"
| "d_less x NInf \<longleftrightarrow> False"

definition d_eq :: "double \<Rightarrow> double \<Rightarrow> bool" where
  \<comment> \<open>\<open>==\<close> of C++: NaN differs from everything, itself included\<close>
  "d_eq x y \<longleftrightarrow> x \<noteq> NaN \<and> x = y"

text \<open>
  The operators of the language on \<open>double\<close>: \<open><\<close>, \<open>\<le>\<close>, \<open>+\<close>, \<open>-\<close>, \<open>*\<close>,
  \<open>div\<close> and \<open>abs\<close> below are the C++ ones (no law of an ordered field is assumed of them).
\<close>

instantiation double :: "{zero, ord, plus, minus, uminus, times, divide, abs}"
begin
definition zero_double :: double where "0 = Fin 0"
definition less_double :: "double \<Rightarrow> double \<Rightarrow> bool" where "x < y \<longleftrightarrow> d_less x y"
definition less_eq_double :: "double \<Rightarrow> double \<Rightarrow> bool" where "x \<le> y \<longleftrightarrow> d_less x y \<or> d_eq x y"
definition plus_double :: "double \<Rightarrow> double \<Rightarrow> double" where "x + y = d_add x y"
definition uminus_double :: "double \<Rightarrow> double" where "- x = d_neg x"
definition minus_double :: "double \<Rightarrow> double \<Rightarrow> double" where "x - y = d_add x (d_neg y)"
definition times_double :: "double \<Rightarrow> double \<Rightarrow> double" where "x * y = d_mul x y"
definition divide_double :: "double \<Rightarrow> double \<Rightarrow> double" where "x div y = d_div x y"
definition abs_double :: "double \<Rightarrow> double" where "\<bar>x\<bar> = (if d_less x (Fin 0) then d_neg x else x)"
instance ..
end

abbreviation dlit :: "rat \<Rightarrow> double" where "dlit \<equiv> to_double"

definition d_of_int :: "int \<Rightarrow> double" where
  "d_of_int n = to_double (of_int n)"

definition std_min :: "double \<Rightarrow> double \<Rightarrow> double" where
  "std_min a b = (if b < a then b else a)"

definition std_max :: "double \<Rightarrow> double \<Rightarrow> double" where
  "std_max a b = (if a < b then b else a)"

fun std_floor :: "double \<Rightarrow> double" where
  "std_floor (Fin x) = Fin (of_int (floor x))"
| "std_floor d = d"

fun std_ceil :: "double \<Rightarrow> double" where
  "std_ceil (Fin x) = Fin (of_int (ceiling x))"
| "std_ceil d = d"

definition round_half_away :: "rat \<Rightarrow> int" where
  "round_half_away x = (if x < 0 then - floor (1 / 2 - x) else floor (x + 1 / 2))"

fun std_round :: "double \<Rightarrow> double" where
  "std_round (Fin x) = Fin (of_int (round_half_away x))"
| "std_round d = d"

definition d_trunc :: "rat \<Rightarrow> int" where
  "d_trunc x = (if x < 0 then ceiling x else floor x)"

text \<open>A conversion to an integer type is undefined out of its range: \<open>None\<close>.\<close>

fun d_to_int :: "int \<Rightarrow> int \<Rightarrow> double \<Rightarrow> int option" where
  "d_to_int lo hi (Fin x) = (let t = d_trunc x in if lo \<le> t \<and> t < hi then Some t else None)"
| "d_to_int lo hi d = None"

subsection \<open>Laws of the operators\<close>

lemma d_ord_simps [simp]:
  "Fin x < Fin y \<longleftrightarrow> x < y" "Fin x \<le> Fin y \<longleftrightarrow> x \<le> y"
  "NaN < d \<longleftrightarrow> False" "d < NaN \<longleftrightarrow> False" "NaN \<le> d \<longleftrightarrow> False" "d \<le> NaN \<longleftrightarrow> False"
  "Fin x < PInf" "Fin x \<le> PInf" "NInf < Fin x" "NInf \<le> Fin x" "NInf < PInf" "NInf \<le> PInf"
  "PInf < d \<longleftrightarrow> False" "d < NInf \<longleftrightarrow> False" "PInf \<le> Fin x \<longleftrightarrow> False" "Fin x \<le> NInf \<longleftrightarrow> False"
  "PInf \<le> PInf" "NInf \<le> NInf" "PInf \<le> NInf \<longleftrightarrow> False"
  by (cases d; auto simp: less_double_def less_eq_double_def d_eq_def)+

lemma d_zero_simps [simp]: "(0::double) = Fin 0"
  by (rule zero_double_def)

lemma d_less_le_trans: "x < y \<Longrightarrow> y \<le> z \<Longrightarrow> x < z" for x :: double
  by (cases x; cases y; cases z) auto

lemma d_le_less_trans: "x \<le> y \<Longrightarrow> y < z \<Longrightarrow> x < z" for x :: double
  by (cases x; cases y; cases z) auto

lemma d_le_trans: "x \<le> y \<Longrightarrow> y \<le> z \<Longrightarrow> x \<le> z" for x :: double
  by (cases x; cases y; cases z) auto

lemma d_less_imp_le: "x < y \<Longrightarrow> x \<le> y" for x :: double
  by (cases x; cases y) auto

lemma d_less_trans: "x < y \<Longrightarrow> y < z \<Longrightarrow> x < z" for x :: double
  by (blast intro: d_less_le_trans d_less_imp_le)

lemma d_less_irrefl [simp]: "\<not> x < x" for x :: double
  by (cases x) auto

lemma d_not_less: "x \<noteq> NaN \<Longrightarrow> y \<noteq> NaN \<Longrightarrow> \<not> x < y \<longleftrightarrow> y \<le> x" for x :: double
  by (cases x; cases y) auto

lemma d_le_refl: "x \<le> x \<longleftrightarrow> x \<noteq> NaN" for x :: double
  by (cases x) auto

lemma d_le_antisym: "x \<le> y \<Longrightarrow> y \<le> x \<Longrightarrow> x = y" for x :: double
  by (cases x; cases y) auto

lemma d_less_asym: "x < y \<Longrightarrow> \<not> y < x" for x :: double
  by (cases x; cases y) auto

lemma d_linear: "x \<noteq> NaN \<Longrightarrow> y \<noteq> NaN \<Longrightarrow> x < y \<or> x = y \<or> y < x" for x :: double
  by (cases x; cases y) auto

lemma d_eq_simps [simp]: "d_eq (Fin x) d \<longleftrightarrow> d = Fin x" "d_eq NaN d \<longleftrightarrow> False" "d_eq d NaN \<longleftrightarrow> False"
  by (auto simp: d_eq_def)

lemma to_double_alt: "to_double x = (if pow2 1024 \<le> round64 x then PInf
      else if round64 x \<le> - pow2 1024 then NInf else Fin (round64 x))"
proof -
  have p: "0 < pow2 1024" by simp
  have "round64 x \<noteq> 0 \<and> 1024 \<le> ilog2 \<bar>round64 x\<bar> \<longleftrightarrow> pow2 1024 \<le> \<bar>round64 x\<bar>"
    using ilog2_ge_iff [of "\<bar>round64 x\<bar>" 1024] p by (cases "round64 x = 0") (auto simp: not_le)
  also have "\<dots> \<longleftrightarrow> pow2 1024 \<le> round64 x \<or> round64 x \<le> - pow2 1024"
    using p by linarith
  finally have eq: "round64 x \<noteq> 0 \<and> 1024 \<le> ilog2 \<bar>round64 x\<bar>
      \<longleftrightarrow> pow2 1024 \<le> round64 x \<or> round64 x \<le> - pow2 1024" .
  have "0 < round64 x" if "pow2 1024 \<le> round64 x" using that p by linarith
  moreover have "\<not> 0 < round64 x" if "round64 x \<le> - pow2 1024" using that p by linarith
  ultimately show ?thesis unfolding to_double_def Let_def eq by auto
qed

lemma to_double_mono: "x \<le> y \<Longrightarrow> to_double x \<le> to_double y"
proof -
  assume "x \<le> y"
  then have "round64 x \<le> round64 y" by (rule round64_mono)
  moreover have "0 < pow2 1024" by simp
  ultimately show ?thesis unfolding to_double_alt by (auto simp del: pow2_pos)
qed

lemma to_double_neq_NaN [simp]: "to_double x \<noteq> NaN"
  by (simp add: to_double_def Let_def)

lemma ilog2_less_1024: "x \<noteq> 0 \<Longrightarrow> \<bar>x\<bar> < pow2 1024 \<Longrightarrow> ilog2 \<bar>x\<bar> < 1024"
  using ilog2_ge_iff [of "\<bar>x\<bar>" 1024] by (simp add: not_le [symmetric])

lemma to_double_exact: "representable x \<Longrightarrow> \<bar>x\<bar> < pow2 1024 \<Longrightarrow> to_double x = Fin x"
  using ilog2_less_1024 [of x] by (auto simp: to_double_def round64_representable)

lemma wf_to_double: "wf_double (to_double x)"
  using round64_representable [OF representable_round64 [of x]] by (simp add: to_double_def Let_def)

lemma to_double_wf: "wf_double (Fin x) \<Longrightarrow> to_double x = Fin x"
  by (auto simp: to_double_def)

lemma to_double_0 [simp]: "to_double 0 = Fin 0"
  by (simp add: to_double_def)

lemma to_double_nonneg: "0 \<le> x \<Longrightarrow> Fin 0 \<le> to_double x"
  using to_double_mono [of 0 x] by simp

lemma to_double_nonpos: "x \<le> 0 \<Longrightarrow> to_double x \<le> Fin 0"
  using to_double_mono [of x 0] by simp

lemma d_of_int_exact:
  assumes "\<bar>n\<bar> \<le> 2 ^ 53" shows "d_of_int n = Fin (of_int n)"
proof -
  have "(of_int \<bar>n\<bar> :: rat) \<le> of_int (2 ^ 53)" using assms by (simp only: of_int_le_iff)
  also have "\<dots> < pow2 1024" using pow2_less [of 53 1024] by (simp add: pow2_nat)
  finally show ?thesis using assms by (simp add: d_of_int_def to_double_exact representable_of_int)
qed

lemma d_of_int_mono: "m \<le> n \<Longrightarrow> d_of_int m \<le> d_of_int n"
  by (simp add: d_of_int_def to_double_mono)

lemma d_of_int_neq_NaN [simp]: "d_of_int n \<noteq> NaN"
  by (simp add: d_of_int_def)

lemma wf_d_of_int: "wf_double (d_of_int n)"
  by (simp add: d_of_int_def wf_to_double)

lemma std_min_le: "a \<noteq> NaN \<Longrightarrow> b \<noteq> NaN \<Longrightarrow> std_min a b \<le> a \<and> std_min a b \<le> b"
  by (cases a; cases b) (auto simp: std_min_def)

lemma d_mul_Fin [simp]: "Fin x * Fin y = to_double (x * y)"
  by (simp add: times_double_def)

lemma d_add_Fin [simp]: "Fin x + Fin y = to_double (x + y)"
  by (simp add: plus_double_def)

lemma d_sub_Fin [simp]: "Fin x - Fin y = to_double (x - y)"
  by (simp add: minus_double_def)

lemma d_div_Fin: "y \<noteq> 0 \<Longrightarrow> Fin x div Fin y = to_double (x / y)"
  by (simp add: divide_double_def)

lemma d_neg_Fin [simp]: "- Fin x = Fin (- x)"
  by (simp add: uminus_double_def)

lemma d_abs_Fin [simp]: "\<bar>Fin x\<bar> = Fin \<bar>x\<bar>"
  by (simp add: abs_double_def)

lemma d_NaN_ops [simp]:
  "NaN + d = NaN" "d + NaN = NaN" "NaN - d = NaN" "d - NaN = NaN" "NaN * d = NaN" "d * NaN = NaN"
  "NaN div d = NaN" "d div NaN = NaN" "- NaN = NaN" "\<bar>NaN\<bar> = NaN"
  by (cases d; simp add: plus_double_def minus_double_def times_double_def divide_double_def
      uminus_double_def abs_double_def d_inf_def)+

end
