(* ===== verification/Risk_Checker.thy ===== *)
theory Risk_Checker
  imports Prelude Binary64 Messages
begin

text \<open>
  \<open>RiskChecker\<close> of the order gateway (\<open>src/bpt-order-gateway/src/risk/risk_checker.cpp\<close>): the
  kill switch, the ring of recently accepted order ids, the open-order counter of each venue,
  the orders-per-second limiter and the size limits. The atomics are read and written by one
  thread (the poll loop), so each call is one step of the state; the wall clock's second is an
  argument. The two USD limits, stored as the bits of a double, are the doubles themselves.
\<close>

definition kMaxVenues :: nat where "kMaxVenues = 4"
definition kDupRingSize :: nat where "kDupRingSize = 1024"
definition kScale :: double where "kScale = dlit (10 ^ 8)"

record risk_checker =
  rc_trading_enabled :: bool
  rc_max_order_size_usd :: double
  rc_max_notional :: double
  rc_max_open_orders_per_venue :: u32
  rc_max_orders_per_second :: u32
  rc_open_orders :: "u32 list"
  rc_rate_window_s :: u64
  rc_orders_this_window :: u32
  rc_dup_ring :: "u64 list"
  rc_dup_head :: u64

definition rc_init :: "double \<Rightarrow> double \<Rightarrow> u32 \<Rightarrow> u32 \<Rightarrow> risk_checker" where
  "rc_init max_order_size_usd max_notional_per_order_usd max_open max_rate =
     \<lparr>rc_trading_enabled = True, rc_max_order_size_usd = max_order_size_usd,
      rc_max_notional = max_notional_per_order_usd, rc_max_open_orders_per_venue = max_open,
      rc_max_orders_per_second = max_rate, rc_open_orders = replicate kMaxVenues 0,
      rc_rate_window_s = 0, rc_orders_this_window = 0,
      rc_dup_ring = replicate kDupRingSize 0, rc_dup_head = 0\<rparr>"

definition venue_idx :: "exchange_id \<Rightarrow> nat" where
  "venue_idx e = (if exchange_value e < kMaxVenues then exchange_value e else 0)"

text \<open>Step 4 of \<open>check\<close>: a new second resets the window.\<close>

definition rc_roll_window :: "u64 \<Rightarrow> risk_checker \<Rightarrow> risk_checker" where
  "rc_roll_window now_s s =
     (if rc_rate_window_s s \<noteq> now_s then s\<lparr>rc_rate_window_s := now_s, rc_orders_this_window := 0\<rparr> else s)"

text \<open>
  Step 5: the USD size of the order (\<open>None\<close>: a MARKET order, which is not checked) against a
  limit.
\<close>

definition rc_order_size :: "i64 \<Rightarrow> u64 \<Rightarrow> double option" where
  "rc_order_size price quantity =
     (if sint price \<le> 0 \<and> quantity > 0 then None
      else Some ((d_of_int (sint price) div kScale) * (d_of_int (uint quantity) div kScale)))"

definition rc_exceeds :: "double \<Rightarrow> i64 \<Rightarrow> u64 \<Rightarrow> bool" where
  "rc_exceeds limit price quantity =
     (case rc_order_size price quantity of None \<Rightarrow> False | Some order_size \<Rightarrow> limit < order_size)"

definition rc_check ::
  "exchange_id \<Rightarrow> i64 \<Rightarrow> u64 \<Rightarrow> u64 \<Rightarrow> u64 \<Rightarrow> risk_checker \<Rightarrow> reject_reason option \<times> risk_checker" where
  "rc_check exchange price quantity order_id now_s s =
     (if \<not> rc_trading_enabled s then (Some RR_RISK_REJECTED, s)
      else if order_id \<in> set (rc_dup_ring s) then (Some RR_DUPLICATE_ORDER_ID, s)
      else
        let idx = venue_idx exchange;
            cur_open = rc_open_orders s ! idx
        in if cur_open \<ge> rc_max_open_orders_per_venue s then (Some RR_RISK_REJECTED, s)
        else
          let s = rc_roll_window now_s s;
              count = rc_orders_this_window s;
              s = s\<lparr>rc_orders_this_window := count + 1\<rparr>
          in if count \<ge> rc_max_orders_per_second s
             then (Some RR_RATE_LIMITED, s\<lparr>rc_orders_this_window := rc_orders_this_window s - 1\<rparr>)
          else if rc_exceeds (rc_max_order_size_usd s) price quantity
             then (Some RR_RISK_REJECTED, s\<lparr>rc_orders_this_window := rc_orders_this_window s - 1\<rparr>)
          else if rc_exceeds (rc_max_notional s) price quantity
             then (Some RR_RISK_REJECTED, s\<lparr>rc_orders_this_window := rc_orders_this_window s - 1\<rparr>)
          else
            let head = unat (rc_dup_head s) mod kDupRingSize
            in (None, s\<lparr>rc_dup_head := rc_dup_head s + 1,
                        rc_dup_ring := (rc_dup_ring s)[head := order_id],
                        rc_open_orders := (rc_open_orders s)[idx := cur_open + 1]\<rparr>))"

definition rc_on_order_closed :: "exchange_id \<Rightarrow> risk_checker \<Rightarrow> risk_checker" where
  "rc_on_order_closed exchange s =
     (let idx = venue_idx exchange; prev = rc_open_orders s ! idx
      in if prev > 0 then s\<lparr>rc_open_orders := (rc_open_orders s)[idx := prev - 1]\<rparr> else s)"

definition rc_set_trading_enabled :: "bool \<Rightarrow> risk_checker \<Rightarrow> risk_checker" where
  "rc_set_trading_enabled enabled s = s\<lparr>rc_trading_enabled := enabled\<rparr>"

definition rc_set_max_order_size_usd :: "double \<Rightarrow> risk_checker \<Rightarrow> risk_checker" where
  "rc_set_max_order_size_usd v s = s\<lparr>rc_max_order_size_usd := v\<rparr>"

definition rc_set_max_notional_per_order_usd :: "double \<Rightarrow> risk_checker \<Rightarrow> risk_checker" where
  "rc_set_max_notional_per_order_usd v s = s\<lparr>rc_max_notional := v\<rparr>"

definition rc_set_max_open_orders_per_venue :: "u32 \<Rightarrow> risk_checker \<Rightarrow> risk_checker" where
  "rc_set_max_open_orders_per_venue v s = s\<lparr>rc_max_open_orders_per_venue := v\<rparr>"

definition rc_set_max_orders_per_second :: "u32 \<Rightarrow> risk_checker \<Rightarrow> risk_checker" where
  "rc_set_max_orders_per_second v s = s\<lparr>rc_max_orders_per_second := v\<rparr>"

definition rc_total_open_orders :: "risk_checker \<Rightarrow> u32" where
  "rc_total_open_orders s = foldl (+) 0 (rc_open_orders s)"

subsection \<open>Calls, runs and the orders a run accepts\<close>

datatype rc_call =
    RC_Check (rc_exchange: exchange_id) (rc_price: i64) (rc_qty: u64) (rc_order_id: u64) (rc_now_s: u64)
  | RC_Closed exchange_id
  | RC_Trading bool
  | RC_Max_Size double
  | RC_Max_Notional double

fun rc_step :: "rc_call \<Rightarrow> risk_checker \<Rightarrow> risk_checker" where
  "rc_step (RC_Check e p q i t) s = snd (rc_check e p q i t s)"
| "rc_step (RC_Closed e) s = rc_on_order_closed e s"
| "rc_step (RC_Trading b) s = rc_set_trading_enabled b s"
| "rc_step (RC_Max_Size v) s = rc_set_max_order_size_usd v s"
| "rc_step (RC_Max_Notional v) s = rc_set_max_notional_per_order_usd v s"

fun rc_accepts :: "rc_call \<Rightarrow> risk_checker \<Rightarrow> bool" where
  "rc_accepts (RC_Check e p q i t) s \<longleftrightarrow> fst (rc_check e p q i t s) = None"
| "rc_accepts _ s \<longleftrightarrow> False"

fun rc_accepted :: "rc_call list \<Rightarrow> risk_checker \<Rightarrow> rc_call list" where
  "rc_accepted [] s = []"
| "rc_accepted (c # cs) s =
     (if rc_accepts c s then [c] else []) @ rc_accepted cs (rc_step c s)"

text \<open>The shape every operation keeps, and the counters' bounds.\<close>

definition rc_inv :: "risk_checker \<Rightarrow> bool" where
  "rc_inv s \<longleftrightarrow> length (rc_open_orders s) = kMaxVenues \<and> length (rc_dup_ring s) = kDupRingSize \<and>
     (\<forall>n \<in> set (rc_open_orders s). n \<le> rc_max_open_orders_per_venue s) \<and>
     rc_orders_this_window s \<le> rc_max_orders_per_second s"

lemma venue_idx_less [simp]: "venue_idx e < kMaxVenues"
  by (simp add: venue_idx_def kMaxVenues_def)

lemma rc_inv_init: "rc_inv (rc_init a b c d)"
  by (simp add: rc_inv_def rc_init_def)

lemma rc_roll_window_frame [simp]:
  "rc_trading_enabled (rc_roll_window t s) = rc_trading_enabled s"
  "rc_open_orders (rc_roll_window t s) = rc_open_orders s"
  "rc_dup_ring (rc_roll_window t s) = rc_dup_ring s"
  "rc_dup_head (rc_roll_window t s) = rc_dup_head s"
  "rc_max_open_orders_per_venue (rc_roll_window t s) = rc_max_open_orders_per_venue s"
  "rc_max_orders_per_second (rc_roll_window t s) = rc_max_orders_per_second s"
  "rc_rate_window_s (rc_roll_window t s) = t"
  by (simp_all add: rc_roll_window_def)

lemma rc_same_count [simp]: "s\<lparr>rc_orders_this_window := rc_orders_this_window s\<rparr> = s"
  by (cases s) simp

text \<open>What an accepted check does, and that a refused one moves only the rate window.\<close>

lemma rc_check_accept:
  assumes "fst (rc_check e p q i t s) = None"
  shows "rc_trading_enabled s" "i \<notin> set (rc_dup_ring s)"
    and "rc_open_orders s ! venue_idx e < rc_max_open_orders_per_venue s"
    and "rc_orders_this_window (rc_roll_window t s) < rc_max_orders_per_second s"
    and "snd (rc_check e p q i t s) = (rc_roll_window t s)
      \<lparr>rc_orders_this_window := rc_orders_this_window (rc_roll_window t s) + 1,
       rc_dup_head := rc_dup_head s + 1,
       rc_dup_ring := (rc_dup_ring s)[unat (rc_dup_head s) mod kDupRingSize := i],
       rc_open_orders := (rc_open_orders s)[venue_idx e := rc_open_orders s ! venue_idx e + 1]\<rparr>"
  using assms unfolding rc_check_def Let_def by (simp_all add: not_le split: if_splits)

lemma rc_check_refuse:
  assumes "fst (rc_check e p q i t s) = Some r"
  shows "snd (rc_check e p q i t s) = s \<or> snd (rc_check e p q i t s) = rc_roll_window t s"
  using assms unfolding rc_check_def Let_def by (simp split: if_splits)

lemma word_less_inc: "x < y \<Longrightarrow> x + 1 \<le> y" for x y :: "'a::len word"
  by (rule inc_le)

lemma rc_inv_check: "rc_inv s \<Longrightarrow> rc_inv (snd (rc_check e p q i t s))"
proof (cases "fst (rc_check e p q i t s)")
  case None
  assume "rc_inv s"
  then show ?thesis
    using rc_check_accept(3-5) [OF None]
    by (auto simp: rc_inv_def word_less_inc dest!: subsetD [OF set_update_subset_insert])
next
  case (Some r)
  assume "rc_inv s"
  then show ?thesis using rc_check_refuse [OF Some] by (auto simp: rc_inv_def rc_roll_window_def)
qed

lemma rc_inv_closed: "rc_inv s \<Longrightarrow> rc_inv (rc_on_order_closed e s)"
proof -
  assume s: "rc_inv s"
  let ?prev = "rc_open_orders s ! venue_idx e"
  have "?prev \<in> set (rc_open_orders s)" using s by (simp add: rc_inv_def)
  then have "?prev \<le> rc_max_open_orders_per_venue s" using s by (simp add: rc_inv_def)
  then have "0 < ?prev \<Longrightarrow> ?prev - 1 \<le> rc_max_open_orders_per_venue s"
    using dec_le [of ?prev] by (simp add: word_gt_0 order_trans [of "?prev - 1" ?prev])
  then show ?thesis
    using s by (auto simp: rc_inv_def rc_on_order_closed_def Let_def dest!: subsetD [OF set_update_subset_insert])
qed

lemma rc_inv_step: "rc_inv s \<Longrightarrow> rc_inv (rc_step c s)"
proof (cases c)
  case (RC_Check e p q i t)
  assume "rc_inv s" then show ?thesis using RC_Check by (simp add: rc_inv_check)
next
  case (RC_Closed e)
  assume "rc_inv s" then show ?thesis using RC_Closed by (simp add: rc_inv_closed)
qed (simp_all add: rc_inv_def rc_set_trading_enabled_def rc_set_max_order_size_usd_def
      rc_set_max_notional_per_order_usd_def)

interpretation rc: component rc_step rc_inv
  by unfold_locales (rule rc_inv_step)

lemma rc_check_limits:
  "rc_max_open_orders_per_venue (snd (rc_check e p q i t s)) = rc_max_open_orders_per_venue s \<and>
   rc_max_orders_per_second (snd (rc_check e p q i t s)) = rc_max_orders_per_second s"
proof (cases "fst (rc_check e p q i t s)")
  case None
  then show ?thesis by (simp add: rc_check_accept(5))
next
  case (Some r)
  then show ?thesis using rc_check_refuse [OF Some] by auto
qed

lemma rc_step_limits [simp]:
  "rc_max_open_orders_per_venue (rc_step c s) = rc_max_open_orders_per_venue s"
  "rc_max_orders_per_second (rc_step c s) = rc_max_orders_per_second s"
  by (cases c; simp add: rc_check_limits rc_on_order_closed_def Let_def
      rc_set_trading_enabled_def rc_set_max_order_size_usd_def rc_set_max_notional_per_order_usd_def)+

subsection \<open>The open-order limit\<close>

definition rc_on_slot :: "nat \<Rightarrow> rc_call \<Rightarrow> bool" where
  "rc_on_slot v c \<longleftrightarrow> (case c of RC_Check e p q i t \<Rightarrow> venue_idx e = v | _ \<Rightarrow> False)"

definition rc_closes_slot :: "nat \<Rightarrow> rc_call \<Rightarrow> bool" where
  "rc_closes_slot v c \<longleftrightarrow> (case c of RC_Closed e \<Rightarrow> venue_idx e = v | _ \<Rightarrow> False)"

lemma rc_step_slot:
  assumes "rc_inv s" "v < kMaxVenues"
  shows "unat (rc_open_orders s ! v) + (if rc_accepts c s \<and> rc_on_slot v c then 1 else 0)
    \<le> unat (rc_open_orders (rc_step c s) ! v) + (if rc_closes_slot v c then 1 else 0)"
proof (cases c)
  case (RC_Check e p q i t)
  show ?thesis
  proof (cases "fst (rc_check e p q i t s)")
    case None
    then show ?thesis
      using rc_check_accept [OF None] RC_Check assms
      by (auto simp: rc_on_slot_def rc_closes_slot_def rc_inv_def nth_list_update unat_inc_less)
  next
    case (Some r)
    then show ?thesis using rc_check_refuse [OF Some] RC_Check by auto
  qed
next
  case (RC_Closed e)
  then show ?thesis
    using assms by (auto simp: rc_on_slot_def rc_closes_slot_def rc_on_order_closed_def Let_def
        rc_inv_def nth_list_update unat_dec)
qed (simp_all add: rc_set_trading_enabled_def rc_set_max_order_size_usd_def
      rc_set_max_notional_per_order_usd_def)

lemma rc_run_slot:
  assumes "rc_inv s" "v < kMaxVenues"
  shows "length (filter (rc_on_slot v) (rc_accepted cs s)) + unat (rc_open_orders s ! v)
    \<le> unat (rc_max_open_orders_per_venue s) + length (filter (rc_closes_slot v) cs)"
  using assms(1)
proof (induction cs arbitrary: s)
  case Nil
  then show ?case using assms(2) by (auto simp: rc_inv_def simp flip: word_le_nat_alt)
next
  case (Cons c cs)
  then show ?case
    using rc_step_slot [OF Cons.prems assms(2), of c] Cons.IH [OF rc_inv_step [OF Cons.prems, of c]]
    by (auto split: if_splits)
qed

subsection \<open>The rate limit\<close>

definition rc_times :: "rc_call list \<Rightarrow> u64 list" where
  "rc_times cs = concat (map (\<lambda>c. case c of RC_Check e p q i t \<Rightarrow> [t] | _ \<Rightarrow> []) cs)"

definition rc_at :: "u64 \<Rightarrow> rc_call \<Rightarrow> bool" where
  "rc_at now c \<longleftrightarrow> (case c of RC_Check e p q i t \<Rightarrow> t = now | _ \<Rightarrow> False)"

lemma rc_times_Cons: "rc_times (c # cs) = (case c of RC_Check e p q i t \<Rightarrow> [t] | _ \<Rightarrow> []) @ rc_times cs"
  by (simp add: rc_times_def)

lemma rc_step_window_other:
  "\<not> is_RC_Check c \<Longrightarrow>
   rc_rate_window_s (rc_step c s) = rc_rate_window_s s \<and>
   rc_orders_this_window (rc_step c s) = rc_orders_this_window s \<and> \<not> rc_accepts c s"
  by (cases c) (auto simp: rc_on_order_closed_def Let_def rc_set_trading_enabled_def
      rc_set_max_order_size_usd_def rc_set_max_notional_per_order_usd_def)

lemma rc_run_rate:
  assumes "rc_inv s" "sorted (rc_rate_window_s s # rc_times cs)"
  shows "(now < rc_rate_window_s s \<longrightarrow> filter (rc_at now) (rc_accepted cs s) = []) \<and>
    (now = rc_rate_window_s s \<longrightarrow> length (filter (rc_at now) (rc_accepted cs s)) + unat (rc_orders_this_window s)
        \<le> unat (rc_max_orders_per_second s)) \<and>
    length (filter (rc_at now) (rc_accepted cs s)) \<le> unat (rc_max_orders_per_second s)"
  using assms
proof (induction cs arbitrary: s)
  case Nil
  then show ?case by (simp add: rc_inv_def word_le_nat_alt)
next
  case (Cons c cs)
  let ?s = "rc_step c s"
  have inv: "rc_inv ?s" using Cons.prems(1) by (rule rc_inv_step)
  have bound: "unat (rc_orders_this_window s) \<le> unat (rc_max_orders_per_second s)"
    using Cons.prems(1) by (simp add: rc_inv_def word_le_nat_alt)
  show ?case
  proof (cases "is_RC_Check c")
    case False
    have "rc_times (c # cs) = rc_times cs" using False by (cases c) (simp_all add: rc_times_Cons)
    then show ?thesis
      using Cons.IH [OF inv] Cons.prems(2) rc_step_window_other [OF False, of s] by simp
  next
    case True
    then obtain e p q i t where c: "c = RC_Check e p q i t" by (cases c) auto
    have le: "rc_rate_window_s s \<le> t" and sort: "sorted (t # rc_times cs)"
      using Cons.prems(2) by (simp_all add: c rc_times_Cons)
    show ?thesis
    proof (cases "fst (rc_check e p q i t s)")
      case None
      note acc = rc_check_accept [OF None]
      have w: "rc_rate_window_s ?s = t" using acc(5) c by simp
      have n: "unat (rc_orders_this_window ?s) = unat (rc_orders_this_window (rc_roll_window t s)) + 1"
        using acc(4,5) c by (simp add: unat_inc_less)
      have same: "rc_rate_window_s s = t \<Longrightarrow> rc_orders_this_window (rc_roll_window t s) = rc_orders_this_window s"
        by (simp add: rc_roll_window_def)
      have acc: "rc_accepted (c # cs) s = c # rc_accepted cs ?s" and at: "rc_at now c \<longleftrightarrow> t = now"
        using None by (simp_all add: c rc_at_def)
      have ih: "sorted (rc_rate_window_s ?s # rc_times cs)" using w sort by simp
      show ?thesis
        unfolding acc using Cons.IH [OF inv ih] w n le same at bound by (auto simp del: rc_step.simps)
    next
      case (Some r)
      then consider "?s = s" | "?s = rc_roll_window t s" using rc_check_refuse [OF Some] c by auto
      then show ?thesis
      proof cases
        case 1
        have "sorted (rc_rate_window_s s # rc_times cs)" using le sort by auto
        then show ?thesis using Cons.IH [OF inv] 1 Some c by simp
      next
        case 2
        have "rc_rate_window_s s = t \<Longrightarrow> ?s = s" using 2 by (simp add: rc_roll_window_def)
        then show ?thesis using Cons.IH [OF inv] 2 Some c sort le bound by auto
      qed
    qed
  qed
qed

subsection \<open>Duplicate order ids\<close>

definition rc_ids :: "rc_call list \<Rightarrow> u64 list" where
  "rc_ids cs = map rc_order_id cs"

text \<open>The ring holds the last \<open>kDupRingSize\<close> accepted ids, zeros where nothing was written yet.\<close>

definition dup_ring_rep :: "risk_checker \<Rightarrow> u64 list \<Rightarrow> bool" where
  "dup_ring_rep s xs \<longleftrightarrow> rc_dup_head s = of_nat (length xs) \<and> length (rc_dup_ring s) = kDupRingSize \<and>
     (\<forall>j < length xs. length xs \<le> j + kDupRingSize \<longrightarrow> rc_dup_ring s ! (j mod kDupRingSize) = xs ! j) \<and>
     (\<forall>j < kDupRingSize. length xs \<le> j \<longrightarrow> rc_dup_ring s ! j = 0)"

definition no_recent_dup :: "u64 list \<Rightarrow> bool" where
  "no_recent_dup xs \<longleftrightarrow> (\<forall>k < length xs. \<forall>j < k. k \<le> j + kDupRingSize \<longrightarrow> xs ! j \<noteq> xs ! k) \<and>
     (\<forall>k < length xs. k < kDupRingSize \<longrightarrow> xs ! k \<noteq> 0)"

lemma head_mod: "unat (of_nat n :: u64) mod kDupRingSize = n mod kDupRingSize"
proof -
  have "(n mod 2 ^ 64) mod 1024 = n mod 1024" by (rule mod_mod_cancel) simp
  then show ?thesis by (simp add: kDupRingSize_def unat_of_nat)
qed

lemma kDupRingSize_pos [simp]: "0 < kDupRingSize"
  by (simp add: kDupRingSize_def)

lemma mod_window_inj: "j mod n = k mod n \<Longrightarrow> j < k \<Longrightarrow> k < j + n \<Longrightarrow> False" for j k n :: nat
  by (metis add.commute add_diff_cancel_left' less_imp_add_positive mod_eq_dvd_iff_nat
      nat_add_left_cancel_less nat_dvd_not_less order_less_imp_le)

lemma dup_ring_push:
  assumes "dup_ring_rep s xs"
  shows "dup_ring_rep (s\<lparr>rc_dup_head := rc_dup_head s + 1,
    rc_dup_ring := (rc_dup_ring s)[unat (rc_dup_head s) mod kDupRingSize := i]\<rparr>) (xs @ [i])"
proof -
  let ?h = "length xs mod kDupRingSize"
  have h: "unat (rc_dup_head s) mod kDupRingSize = ?h" using assms by (simp add: dup_ring_rep_def head_mod)
  have len: "length (rc_dup_ring s) = kDupRingSize" using assms by (simp add: dup_ring_rep_def)
  have "(rc_dup_ring s)[?h := i] ! (j mod kDupRingSize) = (xs @ [i]) ! j"
    if j: "j < Suc (length xs)" "Suc (length xs) \<le> j + kDupRingSize" for j
  proof (cases "j = length xs")
    case True
    then show ?thesis using len by simp
  next
    case False
    then have "j mod kDupRingSize \<noteq> ?h" using mod_window_inj [of j kDupRingSize "length xs"] j by fastforce
    then show ?thesis using False j assms by (simp add: dup_ring_rep_def nth_append)
  qed
  moreover have "(rc_dup_ring s)[?h := i] ! j = 0" if "j < kDupRingSize" "Suc (length xs) \<le> j" for j
  proof -
    have "?h \<noteq> j" using that by simp
    then show ?thesis using that assms by (simp add: dup_ring_rep_def)
  qed
  ultimately show ?thesis using assms h len by (auto simp: dup_ring_rep_def ac_simps)
qed

lemma dup_ring_fresh:
  assumes "dup_ring_rep s xs" "no_recent_dup xs" "i \<notin> set (rc_dup_ring s)"
  shows "no_recent_dup (xs @ [i])"
proof -
  have len: "length (rc_dup_ring s) = kDupRingSize" using assms by (simp add: dup_ring_rep_def)
  have "xs ! j \<noteq> i" if "j < length xs" "length xs \<le> j + kDupRingSize" for j
    using assms(1,3) that len nth_mem [of "j mod kDupRingSize" "rc_dup_ring s"] by (auto simp: dup_ring_rep_def)
  moreover have "i \<noteq> 0" if "length xs < kDupRingSize"
    using assms(1,3) that len nth_mem [of "length xs" "rc_dup_ring s"] by (auto simp: dup_ring_rep_def)
  ultimately show ?thesis
    using assms(2) by (auto simp: no_recent_dup_def nth_append less_Suc_eq)
qed

lemma dup_ring_cong:
  "rc_dup_head s = rc_dup_head s' \<Longrightarrow> rc_dup_ring s = rc_dup_ring s' \<Longrightarrow> dup_ring_rep s xs = dup_ring_rep s' xs"
  by (simp add: dup_ring_rep_def)

lemma rc_run_ids:
  "dup_ring_rep s xs \<Longrightarrow> no_recent_dup xs \<Longrightarrow> no_recent_dup (xs @ rc_ids (rc_accepted cs s))"
proof (induction cs arbitrary: s xs)
  case (Cons c cs)
  show ?case
  proof (cases "rc_accepts c s")
    case True
    then obtain e p q i t where c: "c = RC_Check e p q i t" by (cases c) auto
    have None: "fst (rc_check e p q i t s) = None" using True c by simp
    have "dup_ring_rep (rc_step c s) (xs @ [i])"
      using dup_ring_push [OF Cons.prems(1), of i] rc_check_accept(5) [OF None] c
      by (auto simp: dup_ring_rep_def)
    moreover have "no_recent_dup (xs @ [i])"
      using Cons.prems rc_check_accept(2) [OF None] by (rule dup_ring_fresh)
    ultimately show ?thesis using Cons.IH [of "rc_step c s" "xs @ [i]"] True c by (simp add: rc_ids_def)
  next
    case False
    have "dup_ring_rep (rc_step c s) xs"
    proof (cases c)
      case (RC_Check e p q i t)
      then show ?thesis
        using rc_check_refuse [of e p q i t s] False Cons.prems(1)
        by (cases "fst (rc_check e p q i t s)") (auto simp: dup_ring_rep_def)
    qed (use Cons.prems(1) in \<open>auto simp: dup_ring_rep_def rc_on_order_closed_def Let_def
        rc_set_trading_enabled_def rc_set_max_order_size_usd_def rc_set_max_notional_per_order_usd_def\<close>)
    then show ?thesis using Cons False by simp
  qed
qed (simp add: rc_ids_def)

lemma dup_ring_rep_init: "dup_ring_rep (rc_init a b c d) []"
  by (simp add: dup_ring_rep_def rc_init_def)

subsection \<open>Properties\<close>

text \<open>
  The open-order limit. In any run from start-up (checks, closes, kill switch and size-limit
  changes in any order), the orders accepted on a venue slot never exceed the limit by more
  than the number of closes reported on that slot, so at most \<open>max_open\<close> are ever
  unaccounted for; and each venue counter stays at or below the limit.
\<close>
theorem rc_open_limit:
  assumes "v < kMaxVenues"
  shows "length (filter (rc_on_slot v) (rc_accepted cs (rc_init a b max_open max_rate)))
      \<le> unat max_open + length (filter (rc_closes_slot v) cs) \<and>
    rc_open_orders (fold rc_step cs (rc_init a b max_open max_rate)) ! v \<le> max_open"
proof
  show "length (filter (rc_on_slot v) (rc_accepted cs (rc_init a b max_open max_rate)))
      \<le> unat max_open + length (filter (rc_closes_slot v) cs)"
    using rc_run_slot [OF rc_inv_init assms, of cs a b max_open max_rate] assms
    by (simp add: rc_init_def)
  have lim: "rc_max_open_orders_per_venue (fold rc_step cs s) = rc_max_open_orders_per_venue s" for s
    by (induction cs arbitrary: s) auto
  show "rc_open_orders (fold rc_step cs (rc_init a b max_open max_rate)) ! v \<le> max_open"
    using rc.run_inv [OF rc_inv_init, of cs a b max_open max_rate] assms
      lim [of "rc_init a b max_open max_rate"]
    by (simp add: rc_inv_def rc_init_def)
qed

text \<open>
  The rate limit. If the wall-clock second never goes backwards over the
  checks of a run, at most \<open>max_orders_per_second\<close> of them are accepted in any one second.
\<close>
theorem rc_rate_limit:
  assumes "sorted (rc_times cs)"
  shows "length (filter (rc_at now) (rc_accepted cs (rc_init a b max_open max_rate))) \<le> unat max_rate"
proof -
  have "sorted (rc_rate_window_s (rc_init a b max_open max_rate) # rc_times cs)"
    using assms by (simp add: rc_init_def)
  then show ?thesis using rc_run_rate [OF rc_inv_init] by (simp add: rc_init_def)
qed

text \<open>
  Duplicate detection. In any run from start-up, an accepted order id
  differs from each of the 1024 ids accepted before it; and none of the first 1024 accepted
  ids is 0 (the ring starts filled with zeros, so order id 0 counts as already seen).
\<close>
theorem rc_no_recent_dup:
  "no_recent_dup (rc_ids (rc_accepted cs (rc_init a b max_open max_rate)))"
  using rc_run_ids [OF dup_ring_rep_init, of cs a b max_open max_rate] by (simp add: no_recent_dup_def)

lemma rc_open_limit_witness:
  "rc_open_orders (fold rc_step [RC_Closed EX_OKX] (rc_init (Fin 5) (Fin 5) 3 1)) ! 2 \<le> 3"
  using rc_open_limit [of 2 "[RC_Closed EX_OKX]" "Fin 5" "Fin 5" 3 1] by (simp add: kMaxVenues_def)

lemma rc_rate_limit_witness:
  "length (filter (rc_at 7) (rc_accepted [RC_Check EX_OKX 5 5 1 7, RC_Check EX_OKX 5 5 2 7]
     (rc_init (Fin 5) (Fin 5) 3 1))) \<le> 1"
  using rc_rate_limit [of "[RC_Check EX_OKX 5 5 1 7, RC_Check EX_OKX 5 5 2 7]" 7 "Fin 5" "Fin 5" 3 1]
  by (simp add: rc_times_def)

end
