(* ===== verification/Rate_Breakers.thy ===== *)
theory Rate_Breakers
  imports Prelude Binary64
begin

text \<open>
  The three circuit breakers: \<open>RejectRateBreaker\<close> and \<open>DisconnectRateBreaker\<close> of the order
  gateway (\<open>src/bpt-order-gateway/.../risk\<close>), \<open>ValidationDropBreaker\<close> of the market-data
  gateway (\<open>src/bpt-md-gateway/.../md\<close>). Each keeps a deque of the events of a rolling window
  and latches. The ratio breakers are written twice in the code; the locale
  \<open>ratio_breaker\<close> states what their callers rely on and both are interpreted in it.
\<close>

subsection \<open>RejectRateBreaker\<close>

record rrb_config =
  rrb_window_ns :: u64
  rrb_threshold_pct :: double
  rrb_min_events :: u32
  rrb_enabled :: bool

definition rrb_default_config :: rrb_config where
  "rrb_default_config = \<lparr>rrb_window_ns = 60 * 1000000000, rrb_threshold_pct = dlit 20,
     rrb_min_events = 10, rrb_enabled = False\<rparr>"

record reject_rate_breaker =
  rrb_cfg :: rrb_config
  rrb_events :: "(u64 \<times> bool) list"
  rrb_total :: u32
  rrb_rejects :: u32
  rrb_tripped :: bool

definition rrb_init :: "rrb_config \<Rightarrow> reject_rate_breaker" where
  "rrb_init cfg = \<lparr>rrb_cfg = cfg, rrb_events = [], rrb_total = 0, rrb_rejects = 0, rrb_tripped = False\<rparr>"

fun rrb_evict :: "u64 \<Rightarrow> reject_rate_breaker \<Rightarrow> (u64 \<times> bool) list \<Rightarrow> reject_rate_breaker" where
  "rrb_evict cutoff b [] = b\<lparr>rrb_events := []\<rparr>"
| "rrb_evict cutoff b ((ts, old_reject) # es) =
     (if ts < cutoff
      then rrb_evict cutoff
             (b\<lparr>rrb_total := rrb_total b - 1,
                rrb_rejects := (if old_reject then rrb_rejects b - 1 else rrb_rejects b)\<rparr>) es
      else b\<lparr>rrb_events := (ts, old_reject) # es\<rparr>)"

definition rrb_record :: "bool \<Rightarrow> u64 \<Rightarrow> reject_rate_breaker \<Rightarrow> reject_rate_breaker" where
  "rrb_record is_reject now_ns b =
     (if \<not> rrb_enabled (rrb_cfg b) then b
      else
        let window = rrb_window_ns (rrb_cfg b);
            cutoff = (if now_ns > window then now_ns - window else 0);
            b = rrb_evict cutoff b (rrb_events b);
            b = b\<lparr>rrb_events := rrb_events b @ [(now_ns, is_reject)], rrb_total := rrb_total b + 1,
                  rrb_rejects := (if is_reject then rrb_rejects b + 1 else rrb_rejects b)\<rparr>
        in if rrb_tripped b then b
           else if rrb_total b < rrb_min_events (rrb_cfg b) then b
           else
             let rate_pct = dlit 100 * d_of_int (uint (rrb_rejects b)) div d_of_int (uint (rrb_total b))
             in if rrb_threshold_pct (rrb_cfg b) < rate_pct then b\<lparr>rrb_tripped := True\<rparr> else b)"

subsection \<open>ValidationDropBreaker\<close>

record vdb_config =
  vdb_window_ns :: u64
  vdb_threshold_pct :: double
  vdb_min_events :: u32
  vdb_enabled :: bool

definition vdb_default_config :: vdb_config where
  "vdb_default_config = \<lparr>vdb_window_ns = 60 * 1000000000, vdb_threshold_pct = dlit 30,
     vdb_min_events = 50, vdb_enabled = False\<rparr>"

record validation_drop_breaker =
  vdb_cfg :: vdb_config
  vdb_events :: "(u64 \<times> bool) list"
  vdb_total :: u32
  vdb_drops :: u32
  vdb_tripped :: bool

definition vdb_init :: "vdb_config \<Rightarrow> validation_drop_breaker" where
  "vdb_init cfg = \<lparr>vdb_cfg = cfg, vdb_events = [], vdb_total = 0, vdb_drops = 0, vdb_tripped = False\<rparr>"

fun vdb_evict :: "u64 \<Rightarrow> validation_drop_breaker \<Rightarrow> (u64 \<times> bool) list \<Rightarrow> validation_drop_breaker" where
  "vdb_evict cutoff b [] = b\<lparr>vdb_events := []\<rparr>"
| "vdb_evict cutoff b ((ts, old_drop) # es) =
     (if ts < cutoff
      then vdb_evict cutoff
             (b\<lparr>vdb_total := vdb_total b - 1,
                vdb_drops := (if old_drop then vdb_drops b - 1 else vdb_drops b)\<rparr>) es
      else b\<lparr>vdb_events := (ts, old_drop) # es\<rparr>)"

definition vdb_record :: "bool \<Rightarrow> u64 \<Rightarrow> validation_drop_breaker \<Rightarrow> validation_drop_breaker" where
  "vdb_record is_drop now_ns b =
     (if \<not> vdb_enabled (vdb_cfg b) then b
      else
        let window = vdb_window_ns (vdb_cfg b);
            cutoff = (if now_ns > window then now_ns - window else 0);
            b = vdb_evict cutoff b (vdb_events b);
            b = b\<lparr>vdb_events := vdb_events b @ [(now_ns, is_drop)], vdb_total := vdb_total b + 1,
                  vdb_drops := (if is_drop then vdb_drops b + 1 else vdb_drops b)\<rparr>
        in if vdb_tripped b then b
           else if vdb_total b < vdb_min_events (vdb_cfg b) then b
           else
             let rate_pct = dlit 100 * d_of_int (uint (vdb_drops b)) div d_of_int (uint (vdb_total b))
             in if vdb_threshold_pct (vdb_cfg b) < rate_pct then b\<lparr>vdb_tripped := True\<rparr> else b)"

subsection \<open>DisconnectRateBreaker\<close>

record drb_config =
  drb_window_ns :: u64
  drb_threshold :: u32
  drb_enabled :: bool

definition drb_default_config :: drb_config where
  "drb_default_config = \<lparr>drb_window_ns = 60 * 1000000000, drb_threshold = 5, drb_enabled = False\<rparr>"

record disconnect_rate_breaker =
  drb_cfg :: drb_config
  drb_events :: "u64 list"
  drb_tripped :: bool

definition drb_init :: "drb_config \<Rightarrow> disconnect_rate_breaker" where
  "drb_init cfg = \<lparr>drb_cfg = cfg, drb_events = [], drb_tripped = False\<rparr>"

definition drb_reset :: "drb_config \<Rightarrow> disconnect_rate_breaker \<Rightarrow> disconnect_rate_breaker" where
  "drb_reset cfg b = b\<lparr>drb_cfg := cfg, drb_events := [], drb_tripped := False\<rparr>"

fun drb_evict :: "u64 \<Rightarrow> u64 list \<Rightarrow> u64 list" where
  "drb_evict cutoff [] = []"
| "drb_evict cutoff (ts # es) = (if ts < cutoff then drb_evict cutoff es else ts # es)"

definition drb_record :: "u64 \<Rightarrow> disconnect_rate_breaker \<Rightarrow> disconnect_rate_breaker" where
  "drb_record now_ns b =
     (if \<not> drb_enabled (drb_cfg b) then b
      else
        let window = drb_window_ns (drb_cfg b);
            cutoff = (if now_ns > window then now_ns - window else 0);
            b = b\<lparr>drb_events := drb_evict cutoff (drb_events b) @ [now_ns]\<rparr>
        in if drb_tripped b then b
           else if unat (drb_threshold (drb_cfg b)) \<le> length (drb_events b)
             then b\<lparr>drb_tripped := True\<rparr> else b)"

definition drb_count_in_window :: "disconnect_rate_breaker \<Rightarrow> u32" where
  "drb_count_in_window b = of_nat (length (drb_events b))"

subsection \<open>What the ratio breakers promise\<close>

definition window_cutoff :: "u64 \<Rightarrow> u64 \<Rightarrow> u64" where
  "window_cutoff window now = (if window < now then now - window else 0)"

definition in_window :: "u64 \<Rightarrow> u64 \<Rightarrow> (u64 \<times> bool) list \<Rightarrow> (u64 \<times> bool) list" where
  "in_window window now es = dropWhile (\<lambda>e. fst e < window_cutoff window now) es"

definition bad_count :: "(u64 \<times> bool) list \<Rightarrow> nat" where
  "bad_count es = length (filter snd es)"

lemma bad_count_simps [simp]:
  "bad_count [] = 0" "bad_count (e # es) = (if snd e then Suc (bad_count es) else bad_count es)"
  "bad_count (es @ fs) = bad_count es + bad_count fs"
  by (simp_all add: bad_count_def)

lemma bad_count_le: "bad_count es \<le> length es"
  by (simp add: bad_count_def)

text \<open>The verdict on a window: the share of bad events, as the code computes it.\<close>

definition over_threshold :: "u32 \<Rightarrow> double \<Rightarrow> nat \<Rightarrow> nat \<Rightarrow> bool" where
  "over_threshold min_events pct bad tot \<longleftrightarrow>
     \<not> (of_nat tot :: u32) < min_events \<and>
     pct < dlit 100 * d_of_int (uint (of_nat bad :: u32)) div d_of_int (uint (of_nat tot :: u32))"

definition counts_agree :: "(u64 \<times> bool) list \<Rightarrow> u32 \<Rightarrow> u32 \<Rightarrow> bool" where
  "counts_agree es tot bad \<longleftrightarrow> tot = of_nat (length es) \<and> bad = of_nat (bad_count es)"

definition window_after :: "u64 \<Rightarrow> (bool \<times> u64) list \<Rightarrow> (u64 \<times> bool) list \<Rightarrow> (u64 \<times> bool) list" where
  "window_after window es w = fold (\<lambda>(x, t) w. in_window window t w @ [(t, x)]) es w"

lemma window_after_simps [simp]:
  "window_after win [] w = w"
  "window_after win [(x, t)] w = in_window win t w @ [(t, x)]"
  by (simp_all add: window_after_def)

lemma window_after_Cons: "window_after win (e # es) w = window_after win es (window_after win [e] w)"
  by (simp add: window_after_def)

lemma window_after_take: "window_after win (take (Suc n) (e # es)) w
    = window_after win (take n es) (window_after win [e] w)"
  by (simp add: window_after_def)

lemma length_window_after: "length (window_after win es w) \<le> length es + length w"
proof (induction es arbitrary: w)
  case (Cons e es)
  obtain x t where e: "e = (x, t)" by (cases e)
  have "length (in_window win t w) \<le> length w" by (simp add: in_window_def length_dropWhile_le)
  then show ?case
    using Cons [of "window_after win [e] w"] e by (simp add: window_after_Cons [of win "(x, t)" es])
qed simp

lemma window_after_nonempty: "es \<noteq> [] \<Longrightarrow> window_after win es w \<noteq> []"
  by (cases es rule: rev_cases) (auto simp: window_after_def)

lemma Ex_less_Suc2: "(\<exists>n < Suc m. P n) \<longleftrightarrow> P 0 \<or> (\<exists>n < m. P (Suc n))"
  using less_Suc_eq_0_disj by auto

lemma not_over_threshold:
  assumes "wf_double (Fin p)" "0 \<le> p" "n < 2 ^ 32" "0 < n" "k \<le> n"
    and "100 * of_nat k \<le> p * of_nat n"
  shows "\<not> over_threshold m (Fin p) k n"
proof -
  have u: "uint (of_nat k :: u32) = int k" "uint (of_nat n :: u32) = int n"
    using assms(3,5) by (simp_all add: uint_nat unat_of_nat)
  have lit: "dlit 100 = Fin 100"
    using d_of_int_exact [of 100] by (simp add: d_of_int_def)
  have dk: "d_of_int (int k) = Fin (of_nat k)" "d_of_int (int n) = Fin (of_nat n)"
    using assms(3,5) d_of_int_exact [of "int k"] d_of_int_exact [of "int n"] by simp_all
  have m100: "to_double (100 * of_nat k) = Fin (100 * of_nat k)"
    using assms(3,5) d_of_int_exact [of "100 * int k"] by (simp add: d_of_int_def)
  have "100 * of_nat k / of_nat n \<le> p" using assms(4,6) by (simp add: field_simps)
  then have "to_double (100 * of_nat k / of_nat n) \<le> to_double p" by (rule to_double_mono)
  also have "to_double p = Fin p" using assms(1) by (rule to_double_wf)
  finally have "\<not> Fin p < to_double (100 * of_nat k / of_nat n)"
    using d_le_less_trans d_less_irrefl by blast
  then show ?thesis
    using assms(4) by (simp add: over_threshold_def u lit dk m100 d_div_Fin)
qed

locale ratio_breaker =
  fixes rec :: "bool \<Rightarrow> u64 \<Rightarrow> 'b \<Rightarrow> 'b"
    and enabled :: "'b \<Rightarrow> bool" and window :: "'b \<Rightarrow> u64" and pct :: "'b \<Rightarrow> double"
    and minev :: "'b \<Rightarrow> u32" and events :: "'b \<Rightarrow> (u64 \<times> bool) list"
    and tot :: "'b \<Rightarrow> u32" and bad :: "'b \<Rightarrow> u32" and tripped :: "'b \<Rightarrow> bool"
  assumes rec_disabled: "\<not> enabled b \<Longrightarrow> rec x t b = b"
    and rec_config: "enabled (rec x t b) = enabled b" "window (rec x t b) = window b"
      "pct (rec x t b) = pct b" "minev (rec x t b) = minev b"
    and rec_events: "enabled b \<Longrightarrow> events (rec x t b) = in_window (window b) t (events b) @ [(t, x)]"
    and rec_counts: "enabled b \<Longrightarrow> counts_agree (events b) (tot b) (bad b) \<Longrightarrow>
      counts_agree (events (rec x t b)) (tot (rec x t b)) (bad (rec x t b))"
    and rec_tripped: "enabled b \<Longrightarrow> counts_agree (events b) (tot b) (bad b) \<Longrightarrow>
      tripped (rec x t b) \<longleftrightarrow> tripped b \<or>
        over_threshold (minev b) (pct b) (bad_count (events (rec x t b))) (length (events (rec x t b)))"
begin

lemma counts_rec: "counts_agree (events b) (tot b) (bad b) \<Longrightarrow>
    counts_agree (events (rec x t b)) (tot (rec x t b)) (bad (rec x t b))"
  using rec_counts rec_disabled by (cases "enabled b") auto

lemma tripped_rec: "counts_agree (events b) (tot b) (bad b) \<Longrightarrow> tripped b \<Longrightarrow> tripped (rec x t b)"
  using rec_tripped rec_disabled by (cases "enabled b") auto

sublocale latched_component "\<lambda>(x, t). rec x t" "\<lambda>b. counts_agree (events b) (tot b) (bad b)" tripped
  by unfold_locales (auto intro: counts_rec tripped_rec)

lemma tripped_only_over:
  assumes "counts_agree (events b) (tot b) (bad b)" "\<not> tripped b" "tripped (rec x t b)"
  shows "over_threshold (minev b) (pct b) (bad_count (in_window (window b) t (events b) @ [(t, x)]))
    (length (in_window (window b) t (events b) @ [(t, x)]))"
  using assms rec_tripped [of b x t] rec_disabled [of b x t] rec_events [of b x t]
  by (cases "enabled b") auto

lemma run_trip:
  assumes "enabled b" "counts_agree (events b) (tot b) (bad b)"
  shows "tripped (fold (\<lambda>(x, t). rec x t) es b) \<longleftrightarrow> tripped b \<or>
    (\<exists>n < length es. let w = window_after (window b) (take (Suc n) es) (events b)
       in over_threshold (minev b) (pct b) (bad_count w) (length w))"
  using assms
proof (induction es arbitrary: b)
  case (Cons e es)
  obtain x t where e: "e = (x, t)" by (cases e)
  let ?b = "rec x t b"
  have b: "enabled ?b" "counts_agree (events ?b) (tot ?b) (bad ?b)" "window ?b = window b"
    "minev ?b = minev b" "pct ?b = pct b"
    using Cons.prems rec_config counts_rec by auto
  have ev: "events ?b = window_after (window b) [e] (events b)"
    using rec_events Cons.prems e by simp
  have "tripped (fold (\<lambda>(x, t). rec x t) (e # es) b) \<longleftrightarrow> tripped ?b \<or>
      (\<exists>n < length es. let w = window_after (window b) (take (Suc n) es) (events ?b)
         in over_threshold (minev b) (pct b) (bad_count w) (length w))"
    using Cons.IH [OF b(1,2)] b e by simp
  also have "tripped ?b \<longleftrightarrow> tripped b \<or> (let w = window_after (window b) (take (Suc 0) (e # es)) (events b)
      in over_threshold (minev b) (pct b) (bad_count w) (length w))"
    using rec_tripped [OF Cons.prems] ev by (simp add: Let_def)
  also have "(\<exists>n < length es. let w = window_after (window b) (take (Suc n) es) (events ?b)
         in over_threshold (minev b) (pct b) (bad_count w) (length w))
    \<longleftrightarrow> (\<exists>n < length es. let w = window_after (window b) (take (Suc (Suc n)) (e # es)) (events b)
         in over_threshold (minev b) (pct b) (bad_count w) (length w))"
    by (simp only: ev window_after_take)
  finally show ?case by (auto simp: Ex_less_Suc2)
qed simp

lemma run_no_trip:
  assumes "enabled b" "counts_agree (events b) (tot b) (bad b)" "\<not> tripped b"
    and "pct b = Fin p" "wf_double (Fin p)" "0 \<le> p" "length es + length (events b) < 2 ^ 32"
    and "\<And>n. n < length es \<Longrightarrow> let w = window_after (window b) (take (Suc n) es) (events b)
       in 100 * of_nat (bad_count w) \<le> p * of_nat (length w)"
  shows "\<not> tripped (fold (\<lambda>(x, t). rec x t) es b)"
proof
  assume "tripped (fold (\<lambda>(x, t). rec x t) es b)"
  then obtain n where n: "n < length es" and
    over: "over_threshold (minev b) (Fin p) (bad_count (window_after (window b) (take (Suc n) es) (events b)))
       (length (window_after (window b) (take (Suc n) es) (events b)))"
    using assms(3,4) by (auto simp: run_trip [OF assms(1,2)] Let_def)
  let ?w = "window_after (window b) (take (Suc n) es) (events b)"
  have "length ?w < 2 ^ 32"
    using length_window_after [of "window b" "take (Suc n) es" "events b"] assms(7) n by simp
  moreover have "?w \<noteq> []" using n by (cases es) (auto simp: window_after_nonempty)
  ultimately have "\<not> over_threshold (minev b) (Fin p) (bad_count ?w) (length ?w)"
    using assms(8) [OF n] assms(5,6) by (intro not_over_threshold) (auto simp: Let_def bad_count_le)
  with over show False by simp
qed

end

subsection \<open>Both ratio breakers keep the promise\<close>

lemma rrb_evict_spec:
  "counts_agree es (rrb_total b) (rrb_rejects b) \<Longrightarrow>
   rrb_events (rrb_evict c b es) = dropWhile (\<lambda>e. fst e < c) es \<and>
   counts_agree (dropWhile (\<lambda>e. fst e < c) es) (rrb_total (rrb_evict c b es)) (rrb_rejects (rrb_evict c b es)) \<and>
   rrb_cfg (rrb_evict c b es) = rrb_cfg b \<and> rrb_tripped (rrb_evict c b es) = rrb_tripped b"
  by (induction c b es rule: rrb_evict.induct) (auto simp: counts_agree_def)

lemma rrb_evict_frame:
  "rrb_events (rrb_evict c b es) = dropWhile (\<lambda>e. fst e < c) es \<and>
   rrb_cfg (rrb_evict c b es) = rrb_cfg b \<and> rrb_tripped (rrb_evict c b es) = rrb_tripped b"
  by (induction c b es rule: rrb_evict.induct) auto

lemma vdb_evict_spec:
  "counts_agree es (vdb_total b) (vdb_drops b) \<Longrightarrow>
   vdb_events (vdb_evict c b es) = dropWhile (\<lambda>e. fst e < c) es \<and>
   counts_agree (dropWhile (\<lambda>e. fst e < c) es) (vdb_total (vdb_evict c b es)) (vdb_drops (vdb_evict c b es)) \<and>
   vdb_cfg (vdb_evict c b es) = vdb_cfg b \<and> vdb_tripped (vdb_evict c b es) = vdb_tripped b"
  by (induction c b es rule: vdb_evict.induct) (auto simp: counts_agree_def)

lemma vdb_evict_frame:
  "vdb_events (vdb_evict c b es) = dropWhile (\<lambda>e. fst e < c) es \<and>
   vdb_cfg (vdb_evict c b es) = vdb_cfg b \<and> vdb_tripped (vdb_evict c b es) = vdb_tripped b"
  by (induction c b es rule: vdb_evict.induct) auto

interpretation rrb: ratio_breaker rrb_record "\<lambda>b. rrb_enabled (rrb_cfg b)" "\<lambda>b. rrb_window_ns (rrb_cfg b)"
  "\<lambda>b. rrb_threshold_pct (rrb_cfg b)" "\<lambda>b. rrb_min_events (rrb_cfg b)" rrb_events rrb_total rrb_rejects
  rrb_tripped
proof (unfold_locales, goal_cases)
  case (7 b x t)
  then show ?case
    using rrb_evict_spec [of "rrb_events b" b "window_cutoff (rrb_window_ns (rrb_cfg b)) t"]
    by (auto simp: rrb_record_def Let_def counts_agree_def window_cutoff_def ac_simps)
next
  case (8 b x t)
  then show ?case
    using rrb_evict_spec [of "rrb_events b" b "window_cutoff (rrb_window_ns (rrb_cfg b)) t"]
    by (auto simp: rrb_record_def Let_def counts_agree_def window_cutoff_def over_threshold_def ac_simps)
qed (simp_all add: rrb_record_def Let_def rrb_evict_frame in_window_def window_cutoff_def)

interpretation vdb: ratio_breaker vdb_record "\<lambda>b. vdb_enabled (vdb_cfg b)" "\<lambda>b. vdb_window_ns (vdb_cfg b)"
  "\<lambda>b. vdb_threshold_pct (vdb_cfg b)" "\<lambda>b. vdb_min_events (vdb_cfg b)" vdb_events vdb_total vdb_drops
  vdb_tripped
proof (unfold_locales, goal_cases)
  case (7 b x t)
  then show ?case
    using vdb_evict_spec [of "vdb_events b" b "window_cutoff (vdb_window_ns (vdb_cfg b)) t"]
    by (auto simp: vdb_record_def Let_def counts_agree_def window_cutoff_def ac_simps)
next
  case (8 b x t)
  then show ?case
    using vdb_evict_spec [of "vdb_events b" b "window_cutoff (vdb_window_ns (vdb_cfg b)) t"]
    by (auto simp: vdb_record_def Let_def counts_agree_def window_cutoff_def over_threshold_def ac_simps)
qed (simp_all add: vdb_record_def Let_def vdb_evict_frame in_window_def window_cutoff_def)

subsection \<open>The disconnect breaker\<close>

definition disconnects_after :: "u64 \<Rightarrow> u64 list \<Rightarrow> u64 list \<Rightarrow> u64 list" where
  "disconnects_after window ts w = fold (\<lambda>t w. dropWhile (\<lambda>e. e < window_cutoff window t) w @ [t]) ts w"

lemma disconnects_after_simps [simp]:
  "disconnects_after win [] w = w"
  "disconnects_after win (t # ts) w
     = disconnects_after win ts (dropWhile (\<lambda>e. e < window_cutoff win t) w @ [t])"
  by (simp_all add: disconnects_after_def)

lemma drb_evict_dropWhile: "drb_evict c es = dropWhile (\<lambda>e. e < c) es"
  by (induction es) auto

lemma drb_record_fields:
  assumes "drb_enabled (drb_cfg b)"
  shows "drb_cfg (drb_record t b) = drb_cfg b"
    and "drb_events (drb_record t b)
      = dropWhile (\<lambda>e. e < window_cutoff (drb_window_ns (drb_cfg b)) t) (drb_events b) @ [t]"
    and "drb_tripped (drb_record t b) \<longleftrightarrow> drb_tripped b
      \<or> unat (drb_threshold (drb_cfg b)) \<le> length (drb_events (drb_record t b))"
  using assms by (auto simp: drb_record_def Let_def drb_evict_dropWhile window_cutoff_def)

lemma drb_run_trip:
  "drb_enabled (drb_cfg b) \<Longrightarrow> drb_tripped (fold drb_record ts b) \<longleftrightarrow> drb_tripped b \<or>
     (\<exists>n < length ts. unat (drb_threshold (drb_cfg b))
        \<le> length (disconnects_after (drb_window_ns (drb_cfg b)) (take (Suc n) ts) (drb_events b)))"
proof (induction ts arbitrary: b)
  case (Cons t ts)
  show ?case
    using Cons.IH [of "drb_record t b"] Cons.prems drb_record_fields [OF Cons.prems, of t]
    by (auto simp: Ex_less_Suc2)
qed simp

interpretation drb: latched_component drb_record "\<lambda>_. True" drb_tripped
  by unfold_locales (auto simp: drb_record_def Let_def)

lemma dropWhile_eq_filter: "sorted xs \<Longrightarrow> dropWhile (\<lambda>x. x < c) xs = filter (\<lambda>x. c \<le> x) xs"
  for xs :: "'a::linorder list"
proof (induction xs)
  case (Cons x xs)
  then show ?case by (auto simp: not_less intro: filter_True [symmetric] order_trans)
qed simp

lemma window_cutoff_mono: "s \<le> t \<Longrightarrow> window_cutoff win s \<le> window_cutoff win t"
  by (auto simp: window_cutoff_def not_less word_le_nat_alt word_less_nat_alt unat_sub split: if_splits)

lemma disconnects_after_sorted:
  assumes "sorted (w @ ts)" "ts \<noteq> []"
  shows "disconnects_after win ts w
    = filter (\<lambda>x. window_cutoff win (last ts) \<le> x) (w @ butlast ts) @ [last ts]"
  using assms
proof (induction ts arbitrary: w)
  case (Cons t ts)
  let ?c = "window_cutoff win t"
  have w: "dropWhile (\<lambda>e. e < ?c) w = filter (\<lambda>x. ?c \<le> x) w"
    using Cons.prems(1) by (intro dropWhile_eq_filter) (simp add: sorted_append)
  show ?case
  proof (cases "ts = []")
    case False
    have s: "sorted ((filter (\<lambda>x. ?c \<le> x) w @ [t]) @ ts)"
      using Cons.prems(1) by (auto simp: sorted_append sorted_filter sorted_wrt_filter)
    have tl: "t \<le> last ts" using Cons.prems(1) False by (auto simp: sorted_append)
    have "window_cutoff win (last ts) \<le> x \<longleftrightarrow> ?c \<le> x \<and> window_cutoff win (last ts) \<le> x" for x
      using window_cutoff_mono [OF tl, of win] order_trans by blast
    then have "filter (\<lambda>x. window_cutoff win (last ts) \<le> x) (filter (\<lambda>x. ?c \<le> x) w)
        = filter (\<lambda>x. window_cutoff win (last ts) \<le> x) w"
      unfolding filter_filter by (intro filter_cong) auto
    then show ?thesis using Cons.IH [OF s False] False by (simp add: w)
  qed (simp add: w)
qed simp

subsection \<open>Properties\<close>

text \<open>
  A fresh enabled reject-rate breaker fed any sequence of exec outcomes has
  tripped exactly when, after some event, the window then held at least \<open>min_events\<close> events
  and the share of rejects in it (in the machine's double arithmetic) exceeded
  \<open>threshold_pct\<close>. So it trips at that event, never earlier, and never un-trips.
\<close>
theorem rrb_trips_iff:
  assumes "rrb_enabled cfg"
  shows "rrb_tripped (fold (\<lambda>(x, t). rrb_record x t) es (rrb_init cfg)) \<longleftrightarrow>
    (\<exists>n < length es. let w = window_after (rrb_window_ns cfg) (take (Suc n) es) [] in
       over_threshold (rrb_min_events cfg) (rrb_threshold_pct cfg) (bad_count w) (length w))"
  using rrb.run_trip [of "rrb_init cfg" es] assms by (simp add: rrb_init_def counts_agree_def)

text \<open>
  No false trip from rounding. If the threshold is a finite
  non-negative double and at no moment do the rejects in the window exceed that percentage of
  the events in it, in exact arithmetic, the breaker never trips, whatever \<open>min_events\<close> is:
  the double computation of the rate never rounds a permitted share up past the threshold.
\<close>
theorem rrb_no_false_trip:
  assumes "rrb_enabled cfg" "rrb_threshold_pct cfg = Fin p" "wf_double (Fin p)" "0 \<le> p"
    and "length es < 2 ^ 32"
    and "\<And>n. n < length es \<Longrightarrow> let w = window_after (rrb_window_ns cfg) (take (Suc n) es) []
       in 100 * of_nat (bad_count w) \<le> p * of_nat (length w)"
  shows "\<not> rrb_tripped (fold (\<lambda>(x, t). rrb_record x t) es (rrb_init cfg))"
  using rrb.run_no_trip [of "rrb_init cfg" p es] assms by (simp add: rrb_init_def counts_agree_def)

text \<open>
  With a clock that never runs backwards, a fresh enabled disconnect breaker
  has tripped exactly when at some disconnect the number of disconnects no older than
  \<open>window_ns\<close>, that one included, reached \<open>threshold\<close>.
\<close>
theorem drb_trips_iff:
  assumes "drb_enabled cfg" "sorted ts"
  shows "drb_tripped (fold drb_record ts (drb_init cfg)) \<longleftrightarrow>
    (\<exists>n < length ts. unat (drb_threshold cfg)
       \<le> length (filter (\<lambda>x. window_cutoff (drb_window_ns cfg) (ts ! n) \<le> x) (take n ts)) + 1)"
proof -
  have "length (disconnects_after (drb_window_ns cfg) (take (Suc n) ts) [])
      = length (filter (\<lambda>x. window_cutoff (drb_window_ns cfg) (ts ! n) \<le> x) (take n ts)) + 1"
    if "n < length ts" for n
  proof -
    have "take (Suc n) ts = take n ts @ [ts ! n]" using that by (rule take_Suc_conv_app_nth)
    then show ?thesis
      using disconnects_after_sorted [of "[]" "take (Suc n) ts" "drb_window_ns cfg"]
        sorted_wrt_take [OF assms(2), of "Suc n"] by simp
  qed
  then show ?thesis
    using drb_run_trip [of "drb_init cfg" ts] assms(1) by (auto simp: drb_init_def)
qed

lemma rrb_trips_iff_witness:
  "rrb_tripped (fold (\<lambda>(x, t). rrb_record x t) [(True, 5), (True, 6)]
     (rrb_init \<lparr>rrb_window_ns = 10, rrb_threshold_pct = Fin 20, rrb_min_events = 2, rrb_enabled = True\<rparr>))"
  unfolding rrb_trips_iff [where cfg = "\<lparr>rrb_window_ns = 10, rrb_threshold_pct = Fin 20,
      rrb_min_events = 2, rrb_enabled = True\<rparr>", simplified]
  by code_simp

lemma rrb_no_false_trip_witness:
  "\<not> rrb_tripped (fold (\<lambda>(x, t). rrb_record x t) [(True, 5), (False, 6)]
     (rrb_init \<lparr>rrb_window_ns = 10, rrb_threshold_pct = Fin 100, rrb_min_events = 2, rrb_enabled = True\<rparr>))"
proof (rule rrb_no_false_trip [where p = 100], goal_cases)
  case 3
  show ?case by code_simp
next
  case (6 n)
  then have "n = 0 \<or> n = 1" by auto
  then show ?case
    by (auto simp: window_after_def in_window_def window_cutoff_def)
qed simp_all

lemma drb_trips_iff_witness:
  "drb_tripped (fold drb_record [5, 6, 6] (drb_init \<lparr>drb_window_ns = 10, drb_threshold = 3, drb_enabled = True\<rparr>))"
  by (subst drb_trips_iff) (simp_all add: Ex_less_Suc2 window_cutoff_def)

end
