(* ===== verification/Pnl_Tracker.thy ===== *)
theory Pnl_Tracker
  imports Prelude Binary64 Messages
begin

text \<open>
  \<open>PnlTracker\<close> of the order gateway (\<open>src/bpt-order-gateway/src/risk/pnl_tracker.cpp\<close>): net
  position and average entry price of every instrument, realised profit of the day and of the
  session. Quantities are 64-bit integers scaled by \<open>10 ^ 8\<close>, prices and profits doubles.
\<close>

record position =
  pp_net_qty_e8 :: i64
  pp_avg_price_usd :: double

record pnl_tracker =
  pt_positions :: "(u64, position) umap"
  pt_current_utc_day :: u64
  pt_daily_pnl_usd :: double
  pt_session_pnl_usd :: double

definition pt_scale :: double where "pt_scale = dlit (10 ^ 8)"

definition pt_init :: pnl_tracker where
  "pt_init = \<lparr>pt_positions = [], pt_current_utc_day = 0, pt_daily_pnl_usd = 0, pt_session_pnl_usd = 0\<rparr>"

unbundle bit_operations_syntax

definition make_key :: "exchange_id \<Rightarrow> u64 \<Rightarrow> u64" where
  "make_key exchange instrument_id =
     push_bit 56 (of_nat (exchange_value exchange)) OR (instrument_id AND 0x00ffffffffffffff)"

definition utc_day_of :: "u64 \<Rightarrow> u64" where
  "utc_day_of ns = ns div (86400 * 1000000000)"

definition pt_roll_day :: "u64 \<Rightarrow> pnl_tracker \<Rightarrow> pnl_tracker" where
  "pt_roll_day now_ns t =
     (let day = utc_day_of now_ns
      in if day \<noteq> pt_current_utc_day t then t\<lparr>pt_current_utc_day := day, pt_daily_pnl_usd := 0\<rparr> else t)"

text \<open>
  One fill against the position of its instrument: the new position and, where the fill closes
  all or part of it, the profit realised.
\<close>

definition fill_buy :: "position \<Rightarrow> double \<Rightarrow> double \<Rightarrow> u64 \<Rightarrow> position \<times> double option" where
  "fill_buy pos price qty filled_qty_e8 =
     (let net = pp_net_qty_e8 pos; avg = pp_avg_price_usd pos;
          (avg, pnl) =
            (if sint net \<ge> 0 then
               let prev_qty = d_of_int (sint net) div pt_scale;
                   new_qty = prev_qty + qty
               in (if 0 < new_qty then (avg * prev_qty + price * qty) div new_qty else 0, None)
             else
               let short_qty = - d_of_int (sint net) div pt_scale;
                   closed = std_min qty short_qty;
                   pnl = closed * (avg - price)
               in (if short_qty < qty then price else avg, Some pnl))
      in (\<lparr>pp_net_qty_e8 = net + filled_qty_e8, pp_avg_price_usd = avg\<rparr>, pnl))"

definition fill_sell :: "position \<Rightarrow> double \<Rightarrow> double \<Rightarrow> u64 \<Rightarrow> position \<times> double option" where
  "fill_sell pos price qty filled_qty_e8 =
     (let net = pp_net_qty_e8 pos; avg = pp_avg_price_usd pos;
          (avg, pnl) =
            (if sint net \<le> 0 then
               let prev_qty = - d_of_int (sint net) div pt_scale;
                   new_qty = prev_qty + qty
               in (if 0 < new_qty then (avg * prev_qty + price * qty) div new_qty else 0, None)
             else
               let long_qty = d_of_int (sint net) div pt_scale;
                   closed = std_min qty long_qty;
                   pnl = closed * (price - avg)
               in (if long_qty < qty then price else avg, Some pnl))
      in (\<lparr>pp_net_qty_e8 = net - filled_qty_e8, pp_avg_price_usd = avg\<rparr>, pnl))"

definition pt_on_fill ::
  "exchange_id \<Rightarrow> u64 \<Rightarrow> order_side \<Rightarrow> i64 \<Rightarrow> u64 \<Rightarrow> u64 \<Rightarrow> pnl_tracker \<Rightarrow> pnl_tracker" where
  "pt_on_fill exchange instrument_id side price_e8 filled_qty_e8 fill_ts_ns t =
     (let t = pt_roll_day fill_ts_ns t;
          price = d_of_int (sint price_e8) div pt_scale;
          qty = d_of_int (uint filled_qty_e8) div pt_scale;
          key = make_key exchange instrument_id;
          pos = (case map_of (pt_positions t) key of Some pos \<Rightarrow> pos | None \<Rightarrow> \<lparr>pp_net_qty_e8 = 0, pp_avg_price_usd = 0\<rparr>);
          (pos, pnl) = (if side = BUY then fill_buy pos price qty filled_qty_e8
                        else fill_sell pos price qty filled_qty_e8);
          t = (case pnl of None \<Rightarrow> t
               | Some p \<Rightarrow> t\<lparr>pt_daily_pnl_usd := pt_daily_pnl_usd t + p,
                             pt_session_pnl_usd := pt_session_pnl_usd t + p\<rparr>);
          t = t\<lparr>pt_positions := AList.update key pos (pt_positions t)\<rparr>
      in if pp_net_qty_e8 pos = 0 then t\<lparr>pt_positions := AList.delete key (pt_positions t)\<rparr> else t)"

definition pt_daily_realized_pnl_usd :: "u64 \<Rightarrow> pnl_tracker \<Rightarrow> double \<times> pnl_tracker" where
  "pt_daily_realized_pnl_usd now_ns t =
     (let t = pt_roll_day now_ns t in (pt_daily_pnl_usd t, t))"

definition pt_net_qty_e8 :: "exchange_id \<Rightarrow> u64 \<Rightarrow> pnl_tracker \<Rightarrow> i64" where
  "pt_net_qty_e8 exchange instrument_id t =
     (case map_of (pt_positions t) (make_key exchange instrument_id) of
        None \<Rightarrow> 0 | Some pos \<Rightarrow> pp_net_qty_e8 pos)"

subsection \<open>Runs\<close>

record fill_call =
  fc_exchange :: exchange_id
  fc_instrument :: u64
  fc_side :: order_side
  fc_price_e8 :: i64
  fc_qty_e8 :: u64
  fc_ts_ns :: u64

definition pt_step :: "fill_call \<Rightarrow> pnl_tracker \<Rightarrow> pnl_tracker" where
  "pt_step f t = pt_on_fill (fc_exchange f) (fc_instrument f) (fc_side f) (fc_price_e8 f)
     (fc_qty_e8 f) (fc_ts_ns f) t"

definition fc_key :: "fill_call \<Rightarrow> u64" where
  "fc_key f = make_key (fc_exchange f) (fc_instrument f)"

definition fc_signed_qty :: "fill_call \<Rightarrow> i64" where
  "fc_signed_qty f = (if fc_side f = BUY then fc_qty_e8 f else - fc_qty_e8 f)"

text \<open>Only open positions are stored.\<close>

definition pt_inv :: "pnl_tracker \<Rightarrow> bool" where
  "pt_inv t \<longleftrightarrow> um_wf (pt_positions t) \<and> (\<forall>(k, p) \<in> set (pt_positions t). pp_net_qty_e8 p \<noteq> 0)"

definition pt_net :: "pnl_tracker \<Rightarrow> u64 \<Rightarrow> i64" where
  "pt_net t k = (case map_of (pt_positions t) k of None \<Rightarrow> 0 | Some pos \<Rightarrow> pp_net_qty_e8 pos)"

lemma pt_roll_positions [simp]: "pt_positions (pt_roll_day n t) = pt_positions t"
  by (simp add: pt_roll_day_def Let_def)

lemma fill_net:
  "pp_net_qty_e8 (fst (fill_buy pos p q f)) = pp_net_qty_e8 pos + f"
  "pp_net_qty_e8 (fst (fill_sell pos p q f)) = pp_net_qty_e8 pos - f"
  by (simp_all add: fill_buy_def fill_sell_def Let_def)

definition pt_fill_result :: "fill_call \<Rightarrow> pnl_tracker \<Rightarrow> position \<times> double option" where
  "pt_fill_result f t =
     (let price = d_of_int (sint (fc_price_e8 f)) div pt_scale;
          qty = d_of_int (uint (fc_qty_e8 f)) div pt_scale;
          pos = (case map_of (pt_positions t) (fc_key f) of Some pos \<Rightarrow> pos
                 | None \<Rightarrow> \<lparr>pp_net_qty_e8 = 0, pp_avg_price_usd = 0\<rparr>)
      in if fc_side f = BUY then fill_buy pos price qty (fc_qty_e8 f) else fill_sell pos price qty (fc_qty_e8 f))"

lemma pt_fill_result_net:
  "pp_net_qty_e8 (fst (pt_fill_result f t)) = pt_net t (fc_key f) + fc_signed_qty f"
  by (simp add: pt_fill_result_def Let_def fill_net pt_net_def fc_signed_qty_def split: option.splits)

lemma pt_step_positions:
  "pt_positions (pt_step f t) =
     (if pp_net_qty_e8 (fst (pt_fill_result f t)) = 0 then AList.delete (fc_key f) (pt_positions t)
      else AList.update (fc_key f) (fst (pt_fill_result f t)) (pt_positions t))"
proof -
  have del: "AList.delete k (AList.update k v m) = AList.delete k m" for k :: u64 and v :: position and m
    by (induction m) auto
  show ?thesis
    by (simp add: pt_step_def pt_on_fill_def pt_fill_result_def fc_key_def Let_def del
        split: prod.splits option.splits)
qed

lemma pt_step_totals:
  "pt_session_pnl_usd (pt_step f t) = (case snd (pt_fill_result f t) of None \<Rightarrow> pt_session_pnl_usd t
     | Some p \<Rightarrow> pt_session_pnl_usd t + p)"
  "pt_daily_pnl_usd (pt_step f t) = (case snd (pt_fill_result f t) of
       None \<Rightarrow> pt_daily_pnl_usd (pt_roll_day (fc_ts_ns f) t)
     | Some p \<Rightarrow> pt_daily_pnl_usd (pt_roll_day (fc_ts_ns f) t) + p)"
  "pt_current_utc_day (pt_step f t) = utc_day_of (fc_ts_ns f)"
  by (auto simp: pt_step_def pt_on_fill_def pt_fill_result_def fc_key_def Let_def pt_roll_day_def
      split: prod.splits option.splits)

lemma pt_inv_step: "pt_inv t \<Longrightarrow> pt_inv (pt_step f t)"
proof -
  have del: "set (AList.delete k m) \<subseteq> set m" for k :: u64 and m :: "(u64, position) umap"
    by (induction m) auto
  have upd: "set (AList.update k v m) \<subseteq> insert (k, v) (set m)" for k :: u64 and v :: position and m
    by (induction m) auto
  assume "pt_inv t"
  then show ?thesis
    by (auto simp: pt_inv_def pt_step_positions dest!: subsetD [OF del] subsetD [OF upd])
qed

interpretation pt: component pt_step pt_inv
  by unfold_locales (rule pt_inv_step)

lemma pt_net_step:
  "pt_net (pt_step f t) k = pt_net t k + (if k = fc_key f then fc_signed_qty f else 0)"
proof -
  have "pt_net (pt_step f t) k
    = (if k = fc_key f then pp_net_qty_e8 (fst (pt_fill_result f t)) else pt_net t k)"
    by (auto simp: pt_net_def pt_step_positions)
  then show ?thesis by (simp add: pt_fill_result_net)
qed

lemma pt_net_run:
  "pt_net (fold pt_step fs t) k = pt_net t k + (\<Sum>f \<leftarrow> filter (\<lambda>f. fc_key f = k) fs. fc_signed_qty f)"
  by (induction fs arbitrary: t) (auto simp: pt_net_step ac_simps)

text \<open>Two instruments share a position only if their ids agree in the low 56 bits.\<close>

lemma make_key_parts:
  "drop_bit 56 (make_key e i) = of_nat (exchange_value e)"
  "take_bit 56 (make_key e i) = take_bit 56 i"
proof -
  have m: "(0x00ffffffffffffff :: u64) = mask 56" by (simp add: mask_eq_exp_minus_1)
  have e: "(of_nat (exchange_value e) :: u64) = take_bit 8 (of_nat (exchange_value e))"
    by (cases e) simp_all
  show "drop_bit 56 (make_key e i) = of_nat (exchange_value e)"
    unfolding make_key_def m by (subst (1 2) e, rule bit_word_eqI) (auto simp: bit_simps)
  show "take_bit 56 (make_key e i) = take_bit 56 i"
    unfolding make_key_def m by (rule bit_word_eqI) (auto simp: bit_simps)
qed

lemma make_key_inj:
  assumes "i < 2 ^ 56" "i' < 2 ^ 56"
  shows "make_key e i = make_key e' i' \<longleftrightarrow> e = e' \<and> i = i'"
proof
  assume eq: "make_key e i = make_key e' i'"
  have bound: "exchange_value x < 2 ^ LENGTH(64)" for x using exchange_value_le [of x] by simp
  have "(of_nat (exchange_value e) :: u64) = of_nat (exchange_value e')"
    using make_key_parts(1) [of e i] make_key_parts(1) [of e' i'] eq by simp
  then have ev: "exchange_value e = exchange_value e'" by (rule of_nat_inj_bound [OF bound bound])
  have self: "take_bit 56 j = j" if "j < 2 ^ 56" for j :: u64
    by (rule word_uint_eqI) (use that in \<open>simp add: unsigned_take_bit_eq take_bit_int_eq_self word_less_def\<close>)
  have "i = i'" using make_key_parts(2) [of e i] make_key_parts(2) [of e' i'] eq assms
    by (simp add: self)
  then show "e = e' \<and> i = i'" using ev by simp
qed simp

text \<open>
  Positions are exact and never leak. After any sequence of fills on
  instruments with 56-bit ids, the net quantity of an instrument is the signed sum (modulo
  \<open>2 ^ 64\<close>) of the fills of that venue and instrument, untouched by all others; and the table
  holds only entries whose net is not 0, so it does not grow with instruments traded to flat.
\<close>
theorem pt_position_exact:
  assumes "\<forall>f \<in> set fs. fc_instrument f < 2 ^ 56" "i < 2 ^ 56"
  shows "pt_net_qty_e8 e i (fold pt_step fs pt_init)
      = (\<Sum>f \<leftarrow> filter (\<lambda>f. fc_exchange f = e \<and> fc_instrument f = i) fs. fc_signed_qty f) \<and>
    (\<forall>k. k \<in> dom (map_of (pt_positions (fold pt_step fs pt_init)))
       \<longleftrightarrow> pt_net (fold pt_step fs pt_init) k \<noteq> 0)"
proof
  let ?t = "fold pt_step fs pt_init"
  have "pt_net_qty_e8 e i ?t = pt_net ?t (make_key e i)" by (simp add: pt_net_qty_e8_def pt_net_def)
  also have "\<dots> = (\<Sum>f \<leftarrow> filter (\<lambda>f. fc_key f = make_key e i) fs. fc_signed_qty f)"
    using pt_net_run [of fs pt_init "make_key e i"] by (simp add: pt_net_def pt_init_def)
  also have "filter (\<lambda>f. fc_key f = make_key e i) fs
      = filter (\<lambda>f. fc_exchange f = e \<and> fc_instrument f = i) fs"
    using assms by (intro filter_cong) (auto simp: fc_key_def make_key_inj)
  finally show "pt_net_qty_e8 e i ?t
      = (\<Sum>f \<leftarrow> filter (\<lambda>f. fc_exchange f = e \<and> fc_instrument f = i) fs. fc_signed_qty f)" .
  have "pt_inv ?t" by (rule pt.run_inv) (simp add: pt_inv_def pt_init_def)
  then show "\<forall>k. k \<in> dom (map_of (pt_positions ?t)) \<longleftrightarrow> pt_net ?t k \<noteq> 0"
    by (auto simp: pt_net_def pt_inv_def dest: map_of_SomeD split: option.splits)
qed

lemma pt_position_exact_witness:
  "pt_net_qty_e8 EX_OKX 7 (fold pt_step
     [\<lparr>fc_exchange = EX_OKX, fc_instrument = 7, fc_side = BUY, fc_price_e8 = 3, fc_qty_e8 = 5, fc_ts_ns = 1\<rparr>,
      \<lparr>fc_exchange = EX_BINANCE, fc_instrument = 7, fc_side = BUY, fc_price_e8 = 3, fc_qty_e8 = 9, fc_ts_ns = 2\<rparr>] pt_init) = 5"
  using pt_position_exact [of
     "[\<lparr>fc_exchange = EX_OKX, fc_instrument = 7, fc_side = BUY, fc_price_e8 = 3, fc_qty_e8 = 5, fc_ts_ns = 1\<rparr>,
      \<lparr>fc_exchange = EX_BINANCE, fc_instrument = 7, fc_side = BUY, fc_price_e8 = 3, fc_qty_e8 = 9, fc_ts_ns = 2\<rparr>]"
     7 EX_OKX]
  by (simp add: fc_signed_qty_def)

subsection \<open>Profit accounting\<close>

text \<open>The profits realised by the fills of a run, in order, with the time of the fill.\<close>

fun pt_realised :: "fill_call list \<Rightarrow> pnl_tracker \<Rightarrow> (u64 \<times> double) list" where
  "pt_realised [] t = []"
| "pt_realised (f # fs) t =
     (case snd (pt_fill_result f t) of None \<Rightarrow> [] | Some p \<Rightarrow> [(fc_ts_ns f, p)]) @ pt_realised fs (pt_step f t)"

definition pt_day :: "fill_call \<Rightarrow> u64" where
  "pt_day f = utc_day_of (fc_ts_ns f)"

lemma pt_session_run:
  "pt_session_pnl_usd (fold pt_step fs t) = foldl (+) (pt_session_pnl_usd t) (map snd (pt_realised fs t))"
  by (induction fs arbitrary: t) (auto simp: pt_step_totals split: option.splits)

lemma pt_daily_run:
  assumes "sorted (pt_current_utc_day t # map pt_day fs @ [utc_day_of now])"
  shows "fst (pt_daily_realized_pnl_usd now (fold pt_step fs t))
    = foldl (+) (if pt_current_utc_day t = utc_day_of now then pt_daily_pnl_usd t else 0)
        (map snd (filter (\<lambda>(ts, p). utc_day_of ts = utc_day_of now) (pt_realised fs t)))"
  using assms
proof (induction fs arbitrary: t)
  case Nil
  then show ?case by (simp add: pt_daily_realized_pnl_usd_def pt_roll_day_def Let_def)
next
  case (Cons f fs)
  have "pt_current_utc_day (pt_step f t) = pt_day f" by (simp add: pt_step_totals pt_day_def)
  then have "sorted (pt_current_utc_day (pt_step f t) # map pt_day fs @ [utc_day_of now])"
    using Cons.prems by simp
  note ih = Cons.IH [OF this]
  have "pt_current_utc_day t \<le> pt_day f" "pt_day f \<le> utc_day_of now" using Cons.prems by simp_all
  then have "pt_day f \<noteq> utc_day_of now \<Longrightarrow> pt_current_utc_day t \<noteq> utc_day_of now" by auto
  then show ?case
    using ih by (auto simp: pt_step_totals pt_roll_day_def Let_def pt_day_def split: option.splits)
qed

text \<open>
  The figure the daily-loss kill switch reads. If the UTC day never goes
  backwards over the fills, the daily profit reported at \<open>now\<close> is the sum, in the order of the
  fills, of exactly the profits realised on the UTC day of \<open>now\<close> (0 after midnight), and the
  session profit is the sum of all of them.
\<close>
theorem pt_daily_pnl:
  assumes "sorted (map pt_day fs @ [utc_day_of now])"
  shows "fst (pt_daily_realized_pnl_usd now (fold pt_step fs pt_init))
      = foldl (+) 0 (map snd (filter (\<lambda>(ts, p). utc_day_of ts = utc_day_of now) (pt_realised fs pt_init))) \<and>
    pt_session_pnl_usd (fold pt_step fs pt_init) = foldl (+) 0 (map snd (pt_realised fs pt_init))"
proof -
  have "sorted (pt_current_utc_day pt_init # map pt_day fs @ [utc_day_of now])"
    using assms by (simp add: pt_init_def)
  then show ?thesis
    using pt_daily_run [of pt_init fs now] pt_session_run [of fs pt_init] by (simp add: pt_init_def)
qed

definition pt_round_trip :: "fill_call list" where
  "pt_round_trip =
     [\<lparr>fc_exchange = EX_OKX, fc_instrument = 7, fc_side = SELL, fc_price_e8 = 10000000000, fc_qty_e8 = 200000000, fc_ts_ns = 1\<rparr>,
      \<lparr>fc_exchange = EX_OKX, fc_instrument = 7, fc_side = BUY, fc_price_e8 = 9000000000, fc_qty_e8 = 200000000, fc_ts_ns = 2\<rparr>]"

text \<open>A short of 2 at 100 bought back at 90 realises 20 on the day, nothing on the next.\<close>

lemma pt_round_trip_realised: "pt_realised pt_round_trip pt_init = [(2, dlit 20)]"
  by code_simp

lemma pt_daily_pnl_witness:
  "fst (pt_daily_realized_pnl_usd 3 (fold pt_step pt_round_trip pt_init)) = dlit 20 \<and>
   fst (pt_daily_realized_pnl_usd 86400000000003 (fold pt_step pt_round_trip pt_init)) = 0"
proof -
  have days: "sorted (map pt_day pt_round_trip @ [utc_day_of 3])"
    "sorted (map pt_day pt_round_trip @ [utc_day_of 86400000000003])"
    by code_simp+
  have "foldl (+) 0 (map snd (filter (\<lambda>(ts, p). utc_day_of ts = utc_day_of 3) [(2, dlit 20)])) = dlit 20"
    "foldl (+) 0 (map snd (filter (\<lambda>(ts, p). utc_day_of ts = utc_day_of 86400000000003) [(2, dlit 20)])) = 0"
    by code_simp+
  then show ?thesis
    using pt_daily_pnl [OF days(1)] pt_daily_pnl [OF days(2)] by (simp add: pt_round_trip_realised)
qed

end
