(* ===== verification/Risk_Gate.thy ===== *)
theory Risk_Gate
  imports Risk_Checker Rate_Breakers Pnl_Tracker Order_Events
begin

text \<open>
  \<open>PreTradeRiskGate\<close> of the order gateway
  (\<open>src/bpt-order-gateway/src/risk/pre_trade_risk_gate.cpp\<close>): the check of a new order (the
  risk checker, then the position cap) and the bookkeeping of every execution event (reject
  rate, realised loss, release of the order's slot). The checker and the tracker, which the
  C++ holds by reference and nothing else writes, are fields of the state.
\<close>

record risk_gate =
  rg_checker :: risk_checker
  rg_pnl :: pnl_tracker
  rg_max_position_usd :: double
  rg_max_daily_loss_usd :: double
  rg_daily_loss_latched :: bool
  rg_breaker :: reject_rate_breaker

definition rg_init :: "risk_checker \<Rightarrow> pnl_tracker \<Rightarrow> double \<Rightarrow> double \<Rightarrow> rrb_config \<Rightarrow> risk_gate" where
  "rg_init checker pnl max_position_usd max_daily_loss_usd breaker_cfg =
     \<lparr>rg_checker = checker, rg_pnl = pnl, rg_max_position_usd = max_position_usd,
      rg_max_daily_loss_usd = max_daily_loss_usd, rg_daily_loss_latched = False,
      rg_breaker = rrb_init breaker_cfg\<rparr>"

text \<open>The USD exposure the position would have if the order filled completely.\<close>

definition rg_projected_usd :: "new_order_event \<Rightarrow> pnl_tracker \<Rightarrow> double" where
  "rg_projected_usd order pnl =
     (let cur_qty_e8 = pt_net_qty_e8 (no_exchange_id order) (no_instrument_id order) pnl;
          delta_e8 = (if no_side order = BUY then no_quantity order else - no_quantity order);
          projected_qty = d_of_int (sint (cur_qty_e8 + delta_e8)) div dlit (10 ^ 8);
          price = d_of_int (sint (no_price order)) div dlit (10 ^ 8)
      in projected_qty * price)"

definition rg_over_position_cap :: "new_order_event \<Rightarrow> risk_gate \<Rightarrow> bool" where
  "rg_over_position_cap order g \<longleftrightarrow>
     0 < rg_max_position_usd g \<and> 0 < sint (no_price order) \<and>
     rg_max_position_usd g < \<bar>rg_projected_usd order (rg_pnl g)\<bar>"

definition rg_evaluate :: "new_order_event \<Rightarrow> u64 \<Rightarrow> risk_gate \<Rightarrow> reject_reason option \<times> risk_gate" where
  "rg_evaluate order now_s g =
     (case rc_check (no_exchange_id order) (no_price order) (no_quantity order) (no_order_id order)
             now_s (rg_checker g) of
        (Some reason, c) \<Rightarrow> (Some reason, g\<lparr>rg_checker := c\<rparr>)
      | (None, c) \<Rightarrow>
          if rg_over_position_cap order g
          then (Some RR_RISK_REJECTED, g\<lparr>rg_checker := rc_on_order_closed (no_exchange_id order) c\<rparr>)
          else (None, g\<lparr>rg_checker := c\<rparr>))"

definition rg_release_slot :: "exchange_id \<Rightarrow> risk_gate \<Rightarrow> risk_gate" where
  "rg_release_slot e g = g\<lparr>rg_checker := rc_on_order_closed e (rg_checker g)\<rparr>"

definition rg_disable_trading :: "risk_gate \<Rightarrow> risk_gate" where
  "rg_disable_trading g = g\<lparr>rg_checker := rc_set_trading_enabled False (rg_checker g)\<rparr>"

definition rg_reject_rate_breaker_tripped :: "risk_gate \<Rightarrow> bool" where
  "rg_reject_rate_breaker_tripped g = rrb_tripped (rg_breaker g)"

text \<open>The three steps of \<open>on_exec_event\<close>: the breaker, the fill, the slot.\<close>

definition rg_record_outcome :: "exec_event \<Rightarrow> risk_gate \<Rightarrow> risk_gate" where
  "rg_record_outcome event g =
     (let was_reject = (ev_status event = ES_REJECTED);
          breaker_was_tripped = rrb_tripped (rg_breaker g);
          g = g\<lparr>rg_breaker := rrb_record was_reject (ev_local_ts_ns event) (rg_breaker g)\<rparr>
      in if \<not> breaker_was_tripped \<and> rrb_tripped (rg_breaker g)
         then g\<lparr>rg_checker := rc_set_trading_enabled False (rg_checker g)\<rparr> else g)"

definition rg_check_daily_loss :: "u64 \<Rightarrow> risk_gate \<Rightarrow> risk_gate" where
  "rg_check_daily_loss now_ns g =
     (if \<not> rg_daily_loss_latched g \<and> 0 < rg_max_daily_loss_usd g then
        let (daily, pnl) = pt_daily_realized_pnl_usd now_ns (rg_pnl g);
            g = g\<lparr>rg_pnl := pnl\<rparr>
        in if daily < - rg_max_daily_loss_usd g
           then g\<lparr>rg_daily_loss_latched := True,
                  rg_checker := rc_set_trading_enabled False (rg_checker g)\<rparr>
           else g
      else g)"

definition rg_book_fill :: "exec_event \<Rightarrow> risk_gate \<Rightarrow> risk_gate" where
  "rg_book_fill event g =
     (if (ev_status event = ES_FILLED \<or> ev_status event = ES_PARTIAL) \<and> ev_filled_qty event > 0
      then rg_check_daily_loss (ev_local_ts_ns event)
        (g\<lparr>rg_pnl := pt_on_fill (ev_exchange_id event) (ev_instrument_id event) (ev_side event)
             (ev_price event) (ev_filled_qty event) (ev_local_ts_ns event) (rg_pnl g)\<rparr>)
      else g)"

definition is_terminal :: "exec_status \<Rightarrow> bool" where
  "is_terminal st \<longleftrightarrow> st = ES_FILLED \<or> st = ES_CANCELLED \<or> st = ES_REJECTED"

definition rg_on_exec_event :: "exec_event \<Rightarrow> risk_gate \<Rightarrow> risk_gate" where
  "rg_on_exec_event event g =
     (let g = rg_book_fill event (rg_record_outcome event g)
      in if is_terminal (ev_status event) then rg_release_slot (ev_exchange_id event) g else g)"

subsection \<open>Evaluation and slots\<close>

text \<open>An order is admitted or refused; only an admission keeps the slot it claimed.\<close>

lemma rc_accept_slots:
  assumes "rc_inv c" "fst (rc_check e p q i t c) = None"
  shows "rc_open_orders (snd (rc_check e p q i t c)) = (rc_open_orders c)[venue_idx e := rc_open_orders c ! venue_idx e + 1]"
    and "rc_open_orders (rc_on_order_closed e (snd (rc_check e p q i t c))) = rc_open_orders c"
proof -
  note acc = rc_check_accept [OF assms(2)]
  show s: "rc_open_orders (snd (rc_check e p q i t c)) = (rc_open_orders c)[venue_idx e := rc_open_orders c ! venue_idx e + 1]"
    using acc(5) by simp
  have "unat (rc_open_orders c ! venue_idx e + 1) = unat (rc_open_orders c ! venue_idx e) + 1"
    using acc(3) by (rule unat_inc_less)
  then have "0 < rc_open_orders c ! venue_idx e + 1" by (simp add: word_less_nat_alt)
  then show "rc_open_orders (rc_on_order_closed e (snd (rc_check e p q i t c))) = rc_open_orders c"
    using s assms(1) by (simp add: rc_on_order_closed_def Let_def rc_inv_def)
qed

lemma rc_check_sizes:
  assumes "fst (rc_check e p q i t c) = None"
  shows "\<not> rc_exceeds (rc_max_order_size_usd c) p q" "\<not> rc_exceeds (rc_max_notional c) p q"
  using assms unfolding rc_check_def Let_def
  by (simp_all add: rc_roll_window_def split: if_splits)

lemma rc_refuse_slots:
  "fst (rc_check e p q i t c) = Some r \<Longrightarrow> rc_open_orders (snd (rc_check e p q i t c)) = rc_open_orders c"
  using rc_check_refuse by fastforce

definition rg_inv :: "risk_gate \<Rightarrow> bool" where
  "rg_inv g \<longleftrightarrow> rc_inv (rg_checker g) \<and> pt_inv (rg_pnl g)"

lemma rg_evaluate_cases:
  obtains (refused) r where "fst (rc_check (no_exchange_id order) (no_price order) (no_quantity order) (no_order_id order)
       now_s (rg_checker g)) = Some r"
     "rg_evaluate order now_s g = (Some r, g\<lparr>rg_checker := snd (rc_check (no_exchange_id order)
        (no_price order) (no_quantity order) (no_order_id order) now_s (rg_checker g))\<rparr>)"
  | (capped) "fst (rc_check (no_exchange_id order) (no_price order) (no_quantity order) (no_order_id order)
       now_s (rg_checker g)) = None" "rg_over_position_cap order g"
     "rg_evaluate order now_s g = (Some RR_RISK_REJECTED, g\<lparr>rg_checker := rc_on_order_closed (no_exchange_id order)
        (snd (rc_check (no_exchange_id order) (no_price order) (no_quantity order) (no_order_id order) now_s (rg_checker g)))\<rparr>)"
  | (admitted) "fst (rc_check (no_exchange_id order) (no_price order) (no_quantity order) (no_order_id order)
       now_s (rg_checker g)) = None" "\<not> rg_over_position_cap order g"
     "rg_evaluate order now_s g = (None, g\<lparr>rg_checker := snd (rc_check (no_exchange_id order)
        (no_price order) (no_quantity order) (no_order_id order) now_s (rg_checker g))\<rparr>)"
  by (cases "rc_check (no_exchange_id order) (no_price order) (no_quantity order) (no_order_id order)
       now_s (rg_checker g)"; cases "fst (rc_check (no_exchange_id order) (no_price order)
       (no_quantity order) (no_order_id order) now_s (rg_checker g))"; cases "rg_over_position_cap order g")
    (auto simp: rg_evaluate_def)

lemma rg_evaluate_slots:
  assumes "rg_inv g"
  shows "rc_open_orders (rg_checker (snd (rg_evaluate order now_s g))) =
    (if fst (rg_evaluate order now_s g) = None
     then (rc_open_orders (rg_checker g))[venue_idx (no_exchange_id order) :=
            rc_open_orders (rg_checker g) ! venue_idx (no_exchange_id order) + 1]
     else rc_open_orders (rg_checker g))"
  using assms
  by (cases rule: rg_evaluate_cases [of order now_s g])
    (auto simp: rg_inv_def rc_accept_slots rc_refuse_slots)

lemma rg_evaluate_inv: "rg_inv g \<Longrightarrow> rg_inv (snd (rg_evaluate order now_s g))"
  by (cases rule: rg_evaluate_cases [of order now_s g])
    (auto simp: rg_inv_def intro: rc_inv_check rc_inv_closed)

lemma rc_check_enabled:
  "rc_trading_enabled (snd (rc_check e p q i t c)) = rc_trading_enabled c"
proof (cases "fst (rc_check e p q i t c)")
  case None
  then show ?thesis by (simp add: rc_check_accept(5))
next
  case (Some r)
  then show ?thesis using rc_check_refuse [OF Some] by auto
qed

lemma rc_closed_enabled [simp]: "rc_trading_enabled (rc_on_order_closed e c) = rc_trading_enabled c"
  by (simp add: rc_on_order_closed_def Let_def)

lemma rg_evaluate_enabled [simp]:
  "rc_trading_enabled (rg_checker (snd (rg_evaluate order now_s g))) = rc_trading_enabled (rg_checker g)"
  "rg_daily_loss_latched (snd (rg_evaluate order now_s g)) = rg_daily_loss_latched g"
  "rg_breaker (snd (rg_evaluate order now_s g)) = rg_breaker g"
  "rg_pnl (snd (rg_evaluate order now_s g)) = rg_pnl g"
  "rg_max_position_usd (snd (rg_evaluate order now_s g)) = rg_max_position_usd g"
  by (cases rule: rg_evaluate_cases [of order now_s g]; simp add: rc_check_enabled)+

lemma rg_evaluate_disabled:
  "\<not> rc_trading_enabled (rg_checker g) \<Longrightarrow> rg_evaluate order now_s g = (Some RR_RISK_REJECTED, g)"
  by (simp add: rg_evaluate_def rc_check_def)

subsection \<open>Execution events\<close>

lemma rg_release_slot_frame [simp]:
  "rc_trading_enabled (rg_checker (rg_release_slot e g)) = rc_trading_enabled (rg_checker g)"
  "rg_daily_loss_latched (rg_release_slot e g) = rg_daily_loss_latched g"
  "rg_breaker (rg_release_slot e g) = rg_breaker g" "rg_pnl (rg_release_slot e g) = rg_pnl g"
  "rg_max_daily_loss_usd (rg_release_slot e g) = rg_max_daily_loss_usd g"
  by (simp_all add: rg_release_slot_def)

lemma rg_record_outcome_frame:
  "rc_trading_enabled (rg_checker (rg_record_outcome event g)) \<longleftrightarrow> rc_trading_enabled (rg_checker g) \<and>
     (rrb_tripped (rg_breaker g) \<or> \<not> rrb_tripped (rg_breaker (rg_record_outcome event g)))"
  "rg_breaker (rg_record_outcome event g) = rrb_record (ev_status event = ES_REJECTED) (ev_local_ts_ns event) (rg_breaker g)"
  "rg_pnl (rg_record_outcome event g) = rg_pnl g"
  "rg_daily_loss_latched (rg_record_outcome event g) = rg_daily_loss_latched g"
  "rg_max_daily_loss_usd (rg_record_outcome event g) = rg_max_daily_loss_usd g"
  "rc_open_orders (rg_checker (rg_record_outcome event g)) = rc_open_orders (rg_checker g)"
  by (simp_all add: rg_record_outcome_def Let_def rc_set_trading_enabled_def)

lemma rg_book_fill_frame:
  "rg_breaker (rg_book_fill event g) = rg_breaker g"
  "rg_max_daily_loss_usd (rg_book_fill event g) = rg_max_daily_loss_usd g"
  "rc_open_orders (rg_checker (rg_book_fill event g)) = rc_open_orders (rg_checker g)"
  "rc_trading_enabled (rg_checker (rg_book_fill event g)) \<longrightarrow> rc_trading_enabled (rg_checker g)"
  "rg_daily_loss_latched g \<longrightarrow> rg_daily_loss_latched (rg_book_fill event g)"
  "rg_daily_loss_latched (rg_book_fill event g) \<longrightarrow>
     rg_daily_loss_latched g \<or> \<not> rc_trading_enabled (rg_checker (rg_book_fill event g))"
  by (simp_all add: rg_book_fill_def rg_check_daily_loss_def Let_def rc_set_trading_enabled_def split: prod.splits)

text \<open>Both latches imply that trading is off; it is never switched back on.\<close>

definition rg_latches_halt :: "risk_gate \<Rightarrow> bool" where
  "rg_latches_halt g \<longleftrightarrow>
     counts_agree (rrb_events (rg_breaker g)) (rrb_total (rg_breaker g)) (rrb_rejects (rg_breaker g)) \<and>
     (rrb_tripped (rg_breaker g) \<or> rg_daily_loss_latched g \<longrightarrow> \<not> rc_trading_enabled (rg_checker g))"

datatype rg_call =
    RG_Evaluate new_order_event u64
  | RG_Release exchange_id
  | RG_Exec exec_event
  | RG_Disable

fun rg_step :: "rg_call \<Rightarrow> risk_gate \<Rightarrow> risk_gate" where
  "rg_step (RG_Evaluate order now_s) g = snd (rg_evaluate order now_s g)"
| "rg_step (RG_Release e) g = rg_release_slot e g"
| "rg_step (RG_Exec event) g = rg_on_exec_event event g"
| "rg_step RG_Disable g = rg_disable_trading g"

lemma rg_on_exec_event_frame:
  "rg_breaker (rg_on_exec_event event g) = rrb_record (ev_status event = ES_REJECTED) (ev_local_ts_ns event) (rg_breaker g)"
  "rc_trading_enabled (rg_checker (rg_on_exec_event event g)) \<longrightarrow> rc_trading_enabled (rg_checker g) \<and>
     (rrb_tripped (rg_breaker g) \<or> \<not> rrb_tripped (rg_breaker (rg_on_exec_event event g)))"
  "rg_daily_loss_latched g \<longrightarrow> rg_daily_loss_latched (rg_on_exec_event event g)"
  "rg_daily_loss_latched (rg_on_exec_event event g) \<longrightarrow>
     rg_daily_loss_latched g \<or> \<not> rc_trading_enabled (rg_checker (rg_on_exec_event event g))"
  using rg_book_fill_frame [where event = event and g = "rg_record_outcome event g"]
  by (auto simp: rg_on_exec_event_def Let_def rg_record_outcome_frame)

lemma rg_latches_step: "rg_latches_halt g \<Longrightarrow> rg_latches_halt (rg_step c g)"
proof (cases c)
  case (RG_Exec event)
  assume g: "rg_latches_halt g"
  then show ?thesis
    using rg_on_exec_event_frame [where event = event and g = g] RG_Exec
      rrb.counts_rec [of "rg_breaker g" "ev_status event = ES_REJECTED" "ev_local_ts_ns event"]
    by (auto simp: rg_latches_halt_def)
qed (auto simp: rg_latches_halt_def rg_disable_trading_def rc_set_trading_enabled_def)

lemma rg_disabled_step:
  "\<not> rc_trading_enabled (rg_checker g) \<Longrightarrow> \<not> rc_trading_enabled (rg_checker (rg_step c g))"
  using rg_on_exec_event_frame(2) [where g = g]
  by (cases c) (auto simp: rg_disable_trading_def rc_set_trading_enabled_def)

interpretation rg: latched_component rg_step rg_latches_halt "\<lambda>g. \<not> rc_trading_enabled (rg_checker g)"
  by unfold_locales (simp_all add: rg_latches_step rg_disabled_step)

lemma rg_latches_halt_init: "rg_latches_halt (rg_init c p a b cfg)"
  by (simp add: rg_latches_halt_def rg_init_def rrb_init_def counts_agree_def)

subsection \<open>Properties\<close>

text \<open>
  A halt is final. Whatever the gate is asked to do, in any order, once
  the kill switch is pulled, the reject-rate breaker trips or the daily loss latches, every
  later order is refused with \<open>RISK_REJECTED\<close> and leaves the gate as it was.
\<close>
theorem rg_halt_is_final:
  assumes g1: "g1 = fold rg_step cs1 (rg_init c p a b cfg)"
    and "\<not> rc_trading_enabled (rg_checker g1) \<or> rrb_tripped (rg_breaker g1) \<or> rg_daily_loss_latched g1"
  shows "rg_evaluate order now_s (fold rg_step cs2 g1) = (Some RR_RISK_REJECTED, fold rg_step cs2 g1)"
proof -
  have inv: "rg_latches_halt g1" unfolding g1 by (rule rg.run_inv [OF rg_latches_halt_init])
  then have "\<not> rc_trading_enabled (rg_checker g1)" using assms(2) by (auto simp: rg_latches_halt_def)
  then have "\<not> rc_trading_enabled (rg_checker (fold rg_step cs2 g1))" by (rule rg.run_latched [OF inv])
  then show ?thesis by (rule rg_evaluate_disabled)
qed


definition rg_demo_order :: "u64 \<Rightarrow> new_order_event" where
  "rg_demo_order i =
     \<lparr>no_order_id = i, no_instrument_id = 7, no_exchange_id = EX_OKX, no_side = BUY,
      no_order_type = OT_LIMIT, no_tif = GTC, no_price = 10000000000, no_quantity = 200000000,
      no_exec_inst = 0, no_exchange_symbol = ''BTC-USDT''\<rparr>"

definition rg_demo :: "double \<Rightarrow> risk_gate" where
  "rg_demo cap = rg_init (rc_init (dlit 1000) (dlit 1000) 3 10) pt_init cap (dlit 50) rrb_default_config"

lemma rg_halt_is_final_witness:
  "fst (rg_evaluate (rg_demo_order 1) 5 (fold rg_step [RG_Release EX_OKX]
     (fold rg_step [RG_Evaluate (rg_demo_order 2) 4, RG_Disable] (rg_demo (dlit 500))))) = Some RR_RISK_REJECTED"
proof -
  have "\<not> rc_trading_enabled (rg_checker (fold rg_step [RG_Evaluate (rg_demo_order 2) 4, RG_Disable] (rg_demo (dlit 500))))"
    by (simp add: rg_disable_trading_def rc_set_trading_enabled_def)
  then show ?thesis
    using rg_halt_is_final [OF refl, of "[RG_Evaluate (rg_demo_order 2) 4, RG_Disable]" _ _ _ _ _
        "rg_demo_order 1" 5 "[RG_Release EX_OKX]"]
    by (simp add: rg_demo_def)
qed

text \<open>An order of 200 USD is admitted under a position cap of 500 and refused under one of 100.\<close>

lemma rg_demo_results:
  "fst (rg_evaluate (rg_demo_order 1) 4 (rg_demo (dlit 500))) = None"
  "fst (rg_evaluate (rg_demo_order 1) 4 (rg_demo (dlit 100))) = Some RR_RISK_REJECTED"
  by code_simp+


end
