(* ===== verification/Ring_Queue.thy ===== *)
theory Ring_Queue
  imports Prelude
begin

text \<open>
  The queues between threads: \<open>ExecEventQueue\<close> and its mutex-guarded variant
  (\<open>src/bpt-order-gateway/include/order_gateway/util/exec_event_queue.h\<close>), the byte-frame queue
  \<open>SpscQueue\<close> (\<open>src/bpt-common/include/bpt_common/util/spsc_queue.h\<close>) and \<open>SendWorkQueue\<close>
  (\<open>.../util/send_work_queue.h\<close>). They share the contract \<open>fifo_queue\<close>. The lock-free ring is also
  modelled at the grain of its atomic loads and stores, as a step relation of a producer and a
  consumer thread.
\<close>

unbundle bit_operations_syntax

subsection \<open>The contract of a queue\<close>

datatype 'a queue_op = Enq 'a | Deq

locale fifo_queue =
  fixes enq :: "'a \<Rightarrow> 'q \<Rightarrow> bool \<times> 'q"
    and deq :: "'q \<Rightarrow> 'a option \<times> 'q"
    and qinv :: "'q \<Rightarrow> bool"
    and contents :: "'q \<Rightarrow> 'a list"
    and room :: "'a \<Rightarrow> 'q \<Rightarrow> bool"
  assumes enq_inv: "qinv q \<Longrightarrow> qinv (snd (enq x q))"
    and deq_inv: "qinv q \<Longrightarrow> qinv (snd (deq q))"
    and enq_result: "qinv q \<Longrightarrow> fst (enq x q) \<longleftrightarrow> room x q"
    and enq_contents: "qinv q \<Longrightarrow> contents (snd (enq x q)) = contents q @ (if room x q then [x] else [])"
    and deq_result: "qinv q \<Longrightarrow> fst (deq q) = (case contents q of [] \<Rightarrow> None | x # xs \<Rightarrow> Some x)"
    and deq_contents: "qinv q \<Longrightarrow> contents (snd (deq q)) = tl (contents q)"
begin

text \<open>A run: the items accepted, the items handed out, the final queue.\<close>

primrec run :: "'a queue_op list \<Rightarrow> 'q \<Rightarrow> 'a list \<times> 'a list \<times> 'q" where
  "run [] q = ([], [], q)"
| "run (c # cs) q =
     (case c of
        Enq x \<Rightarrow> (let (ins, outs, q') = run cs (snd (enq x q))
                  in ((if fst (enq x q) then [x] else []) @ ins, outs, q'))
      | Deq \<Rightarrow> (let (ins, outs, q') = run cs (snd (deq q))
                in (ins, (case fst (deq q) of None \<Rightarrow> [] | Some x \<Rightarrow> [x]) @ outs, q')))"

lemma run_inv: "qinv q \<Longrightarrow> qinv (snd (snd (run cs q)))"
proof (induction cs arbitrary: q)
  case (Cons c cs)
  then show ?case
    by (cases c) (simp_all add: Let_def split_beta enq_inv deq_inv)
qed simp

text \<open>First in, first out, nothing lost, nothing twice.\<close>

lemma run_fifo:
  "qinv q \<Longrightarrow> run cs q = (ins, outs, q') \<Longrightarrow> contents q @ ins = outs @ contents q'"
proof (induction cs arbitrary: q ins outs q')
  case (Cons c cs)
  show ?case
  proof (cases c)
    case (Enq x)
    obtain ins' where r: "run cs (snd (enq x q)) = (ins', outs, q')"
      and ins: "ins = (if room x q then [x] else []) @ ins'"
      using Cons.prems Enq by (auto simp: Let_def enq_result split: prod.splits)
    show ?thesis using Cons.IH [OF enq_inv [OF Cons.prems(1)] r] Cons.prems(1) ins
      by (simp add: enq_contents split: if_splits)
  next
    case Deq
    obtain outs' where r: "run cs (snd (deq q)) = (ins, outs', q')"
      and outs: "outs = (case fst (deq q) of None \<Rightarrow> [] | Some x \<Rightarrow> [x]) @ outs'"
      using Cons.prems Deq by (auto simp: Let_def split: prod.splits)
    show ?thesis using Cons.IH [OF deq_inv [OF Cons.prems(1)] r] Cons.prems(1) outs
      by (simp add: deq_contents deq_result split: list.splits)
  qed
qed simp

end

subsection \<open>Index arithmetic\<close>

lemma unat_and_mask: "unat (w AND mask k) = unat w mod 2 ^ k" for w :: "'a::len word"
proof -
  have "unat (take_bit k w) = take_bit k (unat w)" by (rule unsigned_take_bit_eq)
  then show ?thesis by (simp add: take_bit_eq_mask [symmetric] take_bit_eq_mod [of k "unat w"])
qed

lemma unat_of_nat_mod:
  assumes "k \<le> LENGTH('a)"
  shows "unat (of_nat n :: 'a::len word) mod 2 ^ k = n mod 2 ^ k"
proof -
  have "(n mod 2 ^ LENGTH('a)) mod 2 ^ k = n mod 2 ^ k"
    using assms by (intro mod_mod_cancel le_imp_power_dvd)
  then show ?thesis by (simp add: unat_of_nat)
qed

lemma nat_pow2_less: "k < 64 \<Longrightarrow> (2::nat) ^ k < 2 ^ 64"
  by (rule power_strict_increasing) simp_all

lemma unat_pow2: "k < LENGTH('a) \<Longrightarrow> unat (2 ^ k :: 'a::len word) = 2 ^ k"
proof -
  assume "k < LENGTH('a)"
  then have "(2::nat) ^ k < 2 ^ LENGTH('a)" by (intro power_strict_increasing) simp_all
  moreover have "(2 ^ k :: 'a word) = of_nat (2 ^ k)" by simp
  ultimately show ?thesis using unat_of_nat [of "2 ^ k", where 'a = 'a] by (simp only: mod_less)
qed

lemma unat_mask_less: "k < LENGTH('a) \<Longrightarrow> unat (mask k :: 'a::len word) = 2 ^ k - 1"
proof -
  assume k: "k < LENGTH('a)"
  then have "unat (2 ^ k :: 'a word) \<noteq> 0" by (simp add: unat_pow2)
  then have "(2 ^ k :: 'a word) \<noteq> 0" by (metis unat_0)
  then show ?thesis using k by (simp add: mask_eq_exp_minus_1 unat_dec unat_pow2)
qed

lemma mod_distinct: "j < i \<Longrightarrow> i < j + n \<Longrightarrow> j mod n \<noteq> i mod n" for i j n :: nat
  by (metis add_diff_cancel_left' less_imp_add_positive mod_eq_dvd_iff_nat nat_add_left_cancel_less
      nat_dvd_not_less order_less_imp_le)

text \<open>\<open>c & (c - 1)\<close> is 0 exactly for powers of two (and 0).\<close>

lemma pow2_test:
  fixes c :: "'a::len word"
  assumes "c \<noteq> 0" "c AND (c - 1) = 0"
  shows "\<exists>k < LENGTH('a). c = 2 ^ k \<and> unat c = 2 ^ k"
proof -
  obtain k where k: "2 ^ k \<le> unat c" "unat c < 2 ^ (k + 1)"
    using ex_power_ivl1 [of 2 "unat c"] assms(1) by (auto simp: unat_gt_0 Suc_le_eq)
  have len: "k < LENGTH('a)"
    using k(1) unsigned_less [of c, where ?'a = nat] by (meson le_less_trans one_less_numeral_iff power_less_imp_less_exp semiring_norm(76))
  have bitk: "bit w k" if "2 ^ k \<le> unat w" "unat w < 2 ^ (k + 1)" for w :: "'a word"
  proof -
    have "unat w div 2 ^ k = 1" using that by (intro div_nat_eqI) auto
    then have "bit (unat w) k" by (simp add: bit_iff_odd)
    then show ?thesis by (simp add: bit_unsigned_iff)
  qed
  have "unat c = 2 ^ k"
  proof (rule ccontr)
    assume "unat c \<noteq> 2 ^ k"
    then have "2 ^ k \<le> unat (c - 1)" "unat (c - 1) < 2 ^ (k + 1)"
      using k assms(1) by (simp_all add: unat_dec)
    then have "bit (c AND (c - 1)) k" using bitk k by (simp add: bit_and_iff)
    then show False using assms(2) by simp
  qed
  moreover have "unat (2 ^ k :: 'a word) = 2 ^ k" using len by (rule unat_pow2)
  ultimately show ?thesis using len by (metis word_unat_eq_iff)
qed

subsection \<open>The ring of execution events\<close>

record 'a ring =
  rq_head :: u64
  rq_tail :: u64
  rq_mask :: u64
  rq_slots :: "'a list"

text \<open>The constructor, which throws when the capacity is not a power of two; \<open>d\<close> is a default slot.\<close>

definition rq_make :: "u64 \<Rightarrow> 'a \<Rightarrow> 'a ring option" where
  "rq_make capacity d =
     (if capacity = 0 \<or> capacity AND (capacity - 1) \<noteq> 0 then None
      else Some \<lparr>rq_head = 0, rq_tail = 0, rq_mask = capacity - 1, rq_slots = replicate (unat capacity) d\<rparr>)"

definition rq_capacity :: "'a ring \<Rightarrow> u64" where
  "rq_capacity q = rq_mask q + 1"

definition rq_try_push :: "'a \<Rightarrow> 'a ring \<Rightarrow> bool \<times> 'a ring" where
  "rq_try_push ev q =
     (let h = rq_head q
      in if h - rq_tail q > rq_mask q then (False, q)
         else (True, q\<lparr>rq_slots := (rq_slots q)[unat (h AND rq_mask q) := ev], rq_head := h + 1\<rparr>))"

definition rq_try_pop :: "'a ring \<Rightarrow> 'a option \<times> 'a ring" where
  "rq_try_pop q =
     (let t = rq_tail q
      in if rq_head q = t then (None, q)
         else (Some (rq_slots q ! unat (t AND rq_mask q)), q\<lparr>rq_tail := t + 1\<rparr>))"

definition rq_used :: "'a ring \<Rightarrow> nat" where
  "rq_used q = unat (rq_head q - rq_tail q)"

definition rq_contents :: "'a ring \<Rightarrow> 'a list" where
  "rq_contents q = map (\<lambda>i. rq_slots q ! unat ((rq_tail q + of_nat i) AND rq_mask q)) [0..<rq_used q]"

definition rq_shape :: "'a ring \<Rightarrow> nat \<Rightarrow> bool" where
  "rq_shape q k \<longleftrightarrow> k < 64 \<and> rq_mask q = mask k \<and> length (rq_slots q) = 2 ^ k"

definition rq_inv :: "'a ring \<Rightarrow> bool" where
  "rq_inv q \<longleftrightarrow> (\<exists>k. rq_shape q k) \<and> rq_used q \<le> length (rq_slots q)"

lemma rq_idx:
  "rq_shape q k \<Longrightarrow> unat ((w + of_nat i) AND rq_mask q) = (unat w + i) mod 2 ^ k"
proof -
  assume q: "rq_shape q k"
  have "w + of_nat i = of_nat (unat w + i)" by simp
  then show ?thesis
    using q unat_of_nat_mod [of k "unat w + i", where 'a = 64] by (simp add: rq_shape_def unat_and_mask del: of_nat_add)
qed

lemma rq_make_inv:
  assumes "rq_make c d = Some q"
  shows "rq_inv q" "rq_contents q = []" "rq_capacity q = c" "length (rq_slots q) = unat c"
proof -
  have "c \<noteq> 0" "c AND (c - 1) = 0" using assms by (simp_all add: rq_make_def split: if_splits)
  then obtain k where k: "k < 64" "c = 2 ^ k" "unat c = 2 ^ k" using pow2_test [of c] by auto
  have "q = \<lparr>rq_head = 0, rq_tail = 0, rq_mask = c - 1, rq_slots = replicate (unat c) d\<rparr>"
    using assms by (simp add: rq_make_def split: if_splits)
  then show "rq_inv q" "rq_contents q = []" "rq_capacity q = c" "length (rq_slots q) = unat c"
    using k by (auto simp: rq_inv_def rq_shape_def rq_used_def rq_contents_def rq_capacity_def mask_eq_exp_minus_1)
qed

lemma rq_full_iff: "rq_shape q k \<Longrightarrow> h - t > rq_mask q \<longleftrightarrow> 2 ^ k \<le> unat (h - t)"
  by (cases "(2::nat) ^ k") (auto simp: rq_shape_def word_less_nat_alt unat_mask_less)

lemma rq_push_spec:
  assumes "rq_inv q"
  shows "rq_inv (snd (rq_try_push x q))"
    and "fst (rq_try_push x q) \<longleftrightarrow> length (rq_contents q) < length (rq_slots q)"
    and "rq_contents (snd (rq_try_push x q))
      = rq_contents q @ (if length (rq_contents q) < length (rq_slots q) then [x] else [])"
proof -
  obtain k where k: "rq_shape q k" and u: "rq_used q \<le> 2 ^ k" using assms by (auto simp: rq_inv_def rq_shape_def)
  have cap: "length (rq_slots q) = 2 ^ k" and k64: "k < 64" using k by (simp_all add: rq_shape_def)
  have len: "length (rq_contents q) = rq_used q" by (simp add: rq_contents_def)
  have full: "rq_head q - rq_tail q > rq_mask q \<longleftrightarrow> \<not> rq_used q < 2 ^ k"
    using rq_full_iff [OF k] by (auto simp: rq_used_def)
  show "fst (rq_try_push x q) \<longleftrightarrow> length (rq_contents q) < length (rq_slots q)"
    by (simp add: rq_try_push_def Let_def full len cap)
  have "rq_inv (snd (rq_try_push x q)) \<and> rq_contents (snd (rq_try_push x q)) = rq_contents q @ [x]"
    if room: "rq_used q < 2 ^ k"
  proof -
    let ?q = "snd (rq_try_push x q)"
    have q': "?q = q\<lparr>rq_slots := (rq_slots q)[unat (rq_head q AND rq_mask q) := x], rq_head := rq_head q + 1\<rparr>"
      using room by (simp add: rq_try_push_def Let_def full)
    have "rq_used ?q = unat ((rq_head q - rq_tail q) + 1)"
      unfolding rq_used_def q' by (simp add: diff_add_eq)
    also have "\<dots> = rq_used q + 1"
      unfolding rq_used_def using room nat_pow2_less [OF k64] by (intro unat_inc) (simp add: rq_used_def)
    finally have used: "rq_used ?q = rq_used q + 1" .
    have shape: "rq_shape ?q k" using k by (simp add: q' rq_shape_def)
    have head: "rq_head q = rq_tail q + of_nat (rq_used q)" by (simp add: rq_used_def)
    have hidx: "unat (rq_head q AND rq_mask q) = (unat (rq_tail q) + rq_used q) mod 2 ^ k"
      unfolding head by (rule rq_idx [OF k])
    have slot: "rq_slots ?q ! unat ((rq_tail ?q + of_nat i) AND rq_mask ?q)
        = (if i = rq_used q then x else rq_slots q ! unat ((rq_tail q + of_nat i) AND rq_mask q))"
      if "i < rq_used q + 1" for i
    proof -
      have "(unat (rq_tail q) + i) mod 2 ^ k \<noteq> (unat (rq_tail q) + rq_used q) mod 2 ^ k" if "i < rq_used q"
        using that room by (intro mod_distinct) auto
      then show ?thesis
        using that cap unfolding rq_idx [OF shape] rq_idx [OF k] by (auto simp: q' hidx)
    qed
    have "rq_contents ?q = rq_contents q @ [x]"
      unfolding rq_contents_def used using slot by (simp add: upt_add_eq_append)
    moreover have "rq_inv ?q" using shape used room by (auto simp: rq_inv_def rq_shape_def)
    ultimately show ?thesis by simp
  qed
  moreover have "snd (rq_try_push x q) = q" if "\<not> rq_used q < 2 ^ k"
    using that by (simp add: rq_try_push_def Let_def full)
  ultimately show "rq_inv (snd (rq_try_push x q))"
    and "rq_contents (snd (rq_try_push x q))
      = rq_contents q @ (if length (rq_contents q) < length (rq_slots q) then [x] else [])"
    using assms by (cases "rq_used q < 2 ^ k"; simp add: len cap)+
qed

lemma rq_pop_spec:
  assumes "rq_inv q"
  shows "rq_inv (snd (rq_try_pop q))"
    and "fst (rq_try_pop q) = (case rq_contents q of [] \<Rightarrow> None | x # xs \<Rightarrow> Some x)"
    and "rq_contents (snd (rq_try_pop q)) = tl (rq_contents q)"
proof -
  obtain k where k: "rq_shape q k" and u: "rq_used q \<le> 2 ^ k" using assms by (auto simp: rq_inv_def rq_shape_def)
  have empty: "rq_head q = rq_tail q \<longleftrightarrow> rq_used q = 0"
    by (simp add: rq_used_def unat_eq_0)
  have none: "rq_try_pop q = (None, q)" "rq_contents q = []" if "rq_used q = 0"
    using that empty by (simp_all add: rq_try_pop_def Let_def rq_contents_def)
  let ?q = "q\<lparr>rq_tail := rq_tail q + 1\<rparr>"
  have some: "rq_try_pop q = (Some (rq_slots q ! unat (rq_tail q AND rq_mask q)), ?q)"
    "rq_used ?q = rq_used q - 1"
    "rq_contents q = rq_slots q ! unat (rq_tail q AND rq_mask q) # rq_contents ?q"
    if "rq_used q \<noteq> 0"
  proof -
    show "rq_try_pop q = (Some (rq_slots q ! unat (rq_tail q AND rq_mask q)), ?q)"
      using that empty by (simp add: rq_try_pop_def Let_def)
    have "rq_head q - rq_tail q \<noteq> 0" using that empty by simp
    then have "unat (rq_head q - rq_tail q - 1) = unat (rq_head q - rq_tail q) - 1" by (rule unat_dec)
    then show used: "rq_used ?q = rq_used q - 1" by (simp add: rq_used_def diff_diff_eq)
    have up: "[0..<rq_used q] = 0 # map Suc [0..<rq_used q - 1]"
      using that by (simp add: upt_conv_Cons map_Suc_upt)
    show "rq_contents q = rq_slots q ! unat (rq_tail q AND rq_mask q) # rq_contents ?q"
      unfolding rq_contents_def used up by (simp add: algebra_simps)
  qed
  show "rq_inv (snd (rq_try_pop q))"
    using assms none some by (cases "rq_used q = 0") (auto simp: rq_inv_def rq_shape_def)
  show "fst (rq_try_pop q) = (case rq_contents q of [] \<Rightarrow> None | x # xs \<Rightarrow> Some x)"
    "rq_contents (snd (rq_try_pop q)) = tl (rq_contents q)"
    using none some by (cases "rq_used q = 0"; auto)+
qed

interpretation rq: fifo_queue rq_try_push rq_try_pop rq_inv rq_contents
    "\<lambda>x q. length (rq_contents q) < length (rq_slots q)"
  by unfold_locales (simp_all add: rq_push_spec rq_pop_spec)

subsection \<open>The ring of byte frames\<close>

record spsc_slot =
  sl_recv_ns :: u64
  sl_len :: u64
  sl_data :: string

record spsc_queue =
  sq_head :: u64
  sq_tail :: u64
  sq_slots :: "spsc_slot list"

text \<open>The template parameters \<open>CAPACITY\<close> and \<open>MAX_PAYLOAD_BYTES\<close> are arguments.\<close>

definition sq_init :: "u64 \<Rightarrow> nat \<Rightarrow> spsc_queue" where
  "sq_init CAPACITY MAX_BYTES = \<lparr>sq_head = 0, sq_tail = 0,
     sq_slots = replicate (unat CAPACITY) \<lparr>sl_recv_ns = 0, sl_len = 0, sl_data = replicate MAX_BYTES (CHR 0x00)\<rparr>\<rparr>"

text \<open>\<open>memcpy\<close> overwrites a prefix of the slot's bytes and leaves the rest of the last frame.\<close>

definition sl_write :: "u64 \<Rightarrow> string \<Rightarrow> spsc_slot \<Rightarrow> spsc_slot" where
  "sl_write recv_ns payload s =
     s\<lparr>sl_recv_ns := recv_ns, sl_len := of_nat (length payload),
       sl_data := payload @ drop (length payload) (sl_data s)\<rparr>"

definition sl_frame :: "spsc_slot \<Rightarrow> u64 \<times> string" where
  "sl_frame s = (sl_recv_ns s, take (unat (sl_len s)) (sl_data s))"

definition sq_try_push :: "u64 \<Rightarrow> nat \<Rightarrow> u64 \<Rightarrow> string \<Rightarrow> spsc_queue \<Rightarrow> bool \<times> spsc_queue" where
  "sq_try_push CAPACITY MAX_BYTES recv_ns payload q =
     (if length payload > MAX_BYTES then (False, q)
      else
        let h = sq_head q
        in if h - sq_tail q \<ge> CAPACITY then (False, q)
           else
             let i = unat (h AND (CAPACITY - 1))
             in (True, q\<lparr>sq_slots := (sq_slots q)[i := sl_write recv_ns payload (sq_slots q ! i)],
                         sq_head := h + 1\<rparr>))"

definition sq_try_pop :: "u64 \<Rightarrow> spsc_queue \<Rightarrow> (u64 \<times> string) option \<times> spsc_queue" where
  "sq_try_pop CAPACITY q =
     (let t = sq_tail q
      in if sq_head q = t then (None, q)
         else (Some (sl_frame (sq_slots q ! unat (t AND (CAPACITY - 1)))), q\<lparr>sq_tail := t + 1\<rparr>))"

text \<open>The same ring, with frames for events.\<close>

definition sq_ring :: "u64 \<Rightarrow> spsc_queue \<Rightarrow> spsc_slot ring" where
  "sq_ring CAPACITY q =
     \<lparr>rq_head = sq_head q, rq_tail = sq_tail q, rq_mask = CAPACITY - 1, rq_slots = sq_slots q\<rparr>"

definition sq_inv :: "u64 \<Rightarrow> nat \<Rightarrow> spsc_queue \<Rightarrow> bool" where
  "sq_inv CAPACITY MAX_BYTES q \<longleftrightarrow>
     rq_inv (sq_ring CAPACITY q) \<and> CAPACITY \<noteq> 0 \<and> unat CAPACITY = length (sq_slots q) \<and> MAX_BYTES < 2 ^ 64"

definition sq_frames :: "u64 \<Rightarrow> spsc_queue \<Rightarrow> (u64 \<times> string) list" where
  "sq_frames CAPACITY q = map sl_frame (rq_contents (sq_ring CAPACITY q))"

lemma sl_frame_write:
  assumes "length payload < 2 ^ 64"
  shows "sl_frame (sl_write recv_ns payload s) = (recv_ns, payload)"
proof -
  have "unat (of_nat (length payload) :: u64) = length payload mod 2 ^ 64"
    using unat_of_nat [of "length payload", where 'a = 64] by simp
  then show ?thesis using assms by (simp add: sl_frame_def sl_write_def)
qed

lemma word_gt_dec: "c \<noteq> 0 \<Longrightarrow> c - 1 < w \<longleftrightarrow> c \<le> w" for c w :: "'a::len word"
  using unat_dec [of c] unat_gt_0 [of c] by (auto simp: word_less_nat_alt word_le_nat_alt)

lemma sq_push_ring:
  assumes "length payload \<le> MAX_BYTES" "CAPACITY \<noteq> 0"
  shows "fst (sq_try_push CAPACITY MAX_BYTES r payload q) = fst (rq_try_push
      (sl_write r payload (sq_slots q ! unat (sq_head q AND (CAPACITY - 1)))) (sq_ring CAPACITY q))"
    and "sq_ring CAPACITY (snd (sq_try_push CAPACITY MAX_BYTES r payload q)) = snd (rq_try_push
      (sl_write r payload (sq_slots q ! unat (sq_head q AND (CAPACITY - 1)))) (sq_ring CAPACITY q))"
  using assms by (simp_all add: sq_try_push_def rq_try_push_def sq_ring_def Let_def word_gt_dec not_less)

lemma sq_push_slots: "length (sq_slots (snd (sq_try_push C M r p q))) = length (sq_slots q)"
  by (simp add: sq_try_push_def Let_def)

lemma sq_pop_ring:
  "fst (sq_try_pop C q) = map_option sl_frame (fst (rq_try_pop (sq_ring C q)))"
  "sq_ring C (snd (sq_try_pop C q)) = snd (rq_try_pop (sq_ring C q))"
  "length (sq_slots (snd (sq_try_pop C q))) = length (sq_slots q)"
  by (simp_all add: sq_try_pop_def rq_try_pop_def sq_ring_def Let_def)

lemma sq_push_spec:
  assumes "sq_inv C M q"
  shows "sq_inv C M (snd (sq_try_push C M r p q))"
    and "fst (sq_try_push C M r p q) \<longleftrightarrow> length p \<le> M \<and> length (sq_frames C q) < unat C"
    and "sq_frames C (snd (sq_try_push C M r p q))
      = sq_frames C q @ (if length p \<le> M \<and> length (sq_frames C q) < unat C then [(r, p)] else [])"
proof -
  have inv: "rq_inv (sq_ring C q)" and c: "C \<noteq> 0" "unat C = length (sq_slots q)" "M < 2 ^ 64"
    using assms by (simp_all add: sq_inv_def)
  have cap: "length (rq_slots (sq_ring C q)) = unat C" using c by (simp add: sq_ring_def)
  have big: "sq_try_push C M r p q = (False, q)" if "M < length p" using that by (simp add: sq_try_push_def)
  show "sq_inv C M (snd (sq_try_push C M r p q))"
    using assms rq_push_spec(1) [OF inv] sq_push_ring(2) [of p M C r q] big
    by (cases "length p \<le> M") (simp_all add: sq_inv_def sq_push_slots)
  show "fst (sq_try_push C M r p q) \<longleftrightarrow> length p \<le> M \<and> length (sq_frames C q) < unat C"
    using c rq_push_spec(2) [OF inv] sq_push_ring(1) [of p M C r q] big cap
    by (cases "length p \<le> M") (simp_all add: sq_frames_def)
  show "sq_frames C (snd (sq_try_push C M r p q))
      = sq_frames C q @ (if length p \<le> M \<and> length (sq_frames C q) < unat C then [(r, p)] else [])"
    using c rq_push_spec(3) [OF inv] sq_push_ring(2) [of p M C r q] big cap
    by (cases "length p \<le> M") (simp_all add: sq_frames_def sl_frame_write)
qed

lemma sq_pop_spec:
  assumes "sq_inv C M q"
  shows "sq_inv C M (snd (sq_try_pop C q))"
    and "fst (sq_try_pop C q) = (case sq_frames C q of [] \<Rightarrow> None | x # xs \<Rightarrow> Some x)"
    and "sq_frames C (snd (sq_try_pop C q)) = tl (sq_frames C q)"
proof -
  have inv: "rq_inv (sq_ring C q)" using assms by (simp add: sq_inv_def)
  show "sq_inv C M (snd (sq_try_pop C q))"
    using assms rq_pop_spec(1) [OF inv] by (simp add: sq_inv_def sq_pop_ring)
  show "fst (sq_try_pop C q) = (case sq_frames C q of [] \<Rightarrow> None | x # xs \<Rightarrow> Some x)"
    using rq_pop_spec(2) [OF inv] by (simp add: sq_frames_def sq_pop_ring split: list.splits)
  show "sq_frames C (snd (sq_try_pop C q)) = tl (sq_frames C q)"
    using rq_pop_spec(3) [OF inv] by (simp add: sq_frames_def sq_pop_ring map_tl)
qed

interpretation sq: fifo_queue "\<lambda>(r, p). sq_try_push C M r p" "sq_try_pop C" "sq_inv C M" "sq_frames C"
    "\<lambda>(r, p) q. length p \<le> M \<and> length (sq_frames C q) < unat C" for C :: u64 and M :: nat
  by unfold_locales (simp_all add: sq_push_spec sq_pop_spec split_beta)

subsection \<open>The send-work queue\<close>

text \<open>
  A mutex makes each call one step. \<open>pop_blocking\<close> is \<open>None\<close> while it would wait for an item,
  \<open>Some (None, _)\<close> when the queue is closed and drained.
\<close>

record 'a work_queue =
  wq_items :: "'a list"
  wq_closed :: bool

definition wq_init :: "'a work_queue" where
  "wq_init = \<lparr>wq_items = [], wq_closed = False\<rparr>"

definition wq_push :: "'a \<Rightarrow> 'a work_queue \<Rightarrow> 'a work_queue" where
  "wq_push item q = q\<lparr>wq_items := wq_items q @ [item]\<rparr>"

definition wq_pop_blocking :: "'a work_queue \<Rightarrow> ('a option \<times> 'a work_queue) option" where
  "wq_pop_blocking q =
     (if \<not> (wq_closed q \<or> wq_items q \<noteq> []) then None
      else case wq_items q of
             [] \<Rightarrow> Some (None, q)
           | out # rest \<Rightarrow> Some (Some out, q\<lparr>wq_items := rest\<rparr>))"

definition wq_close :: "'a work_queue \<Rightarrow> 'a work_queue" where
  "wq_close q = q\<lparr>wq_closed := True\<rparr>"

definition wq_deq :: "'a work_queue \<Rightarrow> 'a option \<times> 'a work_queue" where
  "wq_deq q = (case wq_pop_blocking q of None \<Rightarrow> (None, q) | Some r \<Rightarrow> r)"

interpretation wq: fifo_queue "\<lambda>x q. (True, wq_push x q)" wq_deq "\<lambda>_. True" wq_items "\<lambda>_ _. True"
  by unfold_locales (auto simp: wq_push_def wq_deq_def wq_pop_blocking_def split: list.splits)

subsection \<open>Two threads on the ring\<close>

text \<open>
  \<open>try_push\<close> and \<open>try_pop\<close> cut at their atomic accesses. The producer loads both indices, writes
  the slot, publishes \<open>head_\<close>; the consumer loads both indices, reads the slot, releases
  \<open>tail_\<close>. Each thread sees its own index exactly, and of the other's any value stored so far
  that is not older than the one it saw last (coherence of one atomic location). A \<open>release\<close>
  store makes the slot accesses before it visible to the thread that loads it, so a slot has one
  value. The lists of items pushed and popped so far are ghosts.
\<close>

datatype 'a producer = P_Idle | P_Loaded u64 'a | P_Stored u64 'a
datatype 'a consumer = C_Idle | C_Loaded u64 | C_Read u64 'a

record 'a ring_threads =
  th_ring :: "'a ring"
  th_prod :: "'a producer"
  th_cons :: "'a consumer"
  th_tail_seen :: nat
  th_head_seen :: nat
  th_pushed :: "'a list"
  th_popped :: "'a list"

definition th_init :: "'a ring \<Rightarrow> 'a ring_threads" where
  "th_init q = \<lparr>th_ring = q, th_prod = P_Idle, th_cons = C_Idle, th_tail_seen = 0, th_head_seen = 0,
     th_pushed = [], th_popped = []\<rparr>"

inductive th_step :: "'a ring_threads \<Rightarrow> 'a ring_threads \<Rightarrow> bool" where
  push_full: "th_step s (s\<lparr>th_tail_seen := j\<rparr>)"
    if "th_prod s = P_Idle" "th_tail_seen s \<le> j" "j \<le> length (th_popped s)"
       "rq_head (th_ring s) - of_nat j > rq_mask (th_ring s)"
| push_load: "th_step s (s\<lparr>th_tail_seen := j, th_prod := P_Loaded (rq_head (th_ring s)) x\<rparr>)"
    if "th_prod s = P_Idle" "th_tail_seen s \<le> j" "j \<le> length (th_popped s)"
       "\<not> rq_head (th_ring s) - of_nat j > rq_mask (th_ring s)"
| push_write: "th_step s (s\<lparr>th_prod := P_Stored h x, th_ring := (th_ring s)\<lparr>rq_slots :=
      (rq_slots (th_ring s))[unat (h AND rq_mask (th_ring s)) := x]\<rparr>\<rparr>)"
    if "th_prod s = P_Loaded h x"
| push_publish: "th_step s (s\<lparr>th_prod := P_Idle, th_ring := (th_ring s)\<lparr>rq_head := h + 1\<rparr>,
      th_pushed := th_pushed s @ [x]\<rparr>)"
    if "th_prod s = P_Stored h x"
| pop_empty: "th_step s (s\<lparr>th_head_seen := j\<rparr>)"
    if "th_cons s = C_Idle" "th_head_seen s \<le> j" "j \<le> length (th_pushed s)"
       "of_nat j = rq_tail (th_ring s)"
| pop_load: "th_step s (s\<lparr>th_head_seen := j, th_cons := C_Loaded (rq_tail (th_ring s))\<rparr>)"
    if "th_cons s = C_Idle" "th_head_seen s \<le> j" "j \<le> length (th_pushed s)"
       "of_nat j \<noteq> rq_tail (th_ring s)"
| pop_read: "th_step s (s\<lparr>th_cons := C_Read t (rq_slots (th_ring s) ! unat (t AND rq_mask (th_ring s)))\<rparr>)"
    if "th_cons s = C_Loaded t"
| pop_release: "th_step s (s\<lparr>th_cons := C_Idle, th_ring := (th_ring s)\<lparr>rq_tail := t + 1\<rparr>,
      th_popped := th_popped s @ [v]\<rparr>)"
    if "th_cons s = C_Read t v"

text \<open>The invariant, over the two ghost lengths.\<close>

definition th_inv :: "nat \<Rightarrow> 'a ring_threads \<Rightarrow> bool" where
  "th_inv k s \<longleftrightarrow>
     (let q = th_ring s; H = length (th_pushed s); T = length (th_popped s) in
      rq_shape q k \<and> rq_head q = of_nat H \<and> rq_tail q = of_nat T \<and>
      T \<le> th_head_seen s \<and> th_head_seen s \<le> H \<and>
      th_tail_seen s \<le> T \<and> H \<le> th_tail_seen s + 2 ^ k \<and>
      th_popped s = take T (th_pushed s) \<and>
      (\<forall>j. T \<le> j \<and> j < H \<longrightarrow> rq_slots q ! (j mod 2 ^ k) = th_pushed s ! j) \<and>
      (\<forall>h x. th_prod s = P_Loaded h x \<longrightarrow> h = of_nat H \<and> H < th_tail_seen s + 2 ^ k) \<and>
      (\<forall>h x. th_prod s = P_Stored h x \<longrightarrow> h = of_nat H \<and> H < th_tail_seen s + 2 ^ k \<and>
         rq_slots q ! (H mod 2 ^ k) = x) \<and>
      (\<forall>t. th_cons s = C_Loaded t \<longrightarrow> t = of_nat T \<and> T < th_head_seen s) \<and>
      (\<forall>t v. th_cons s = C_Read t v \<longrightarrow> t = of_nat T \<and> T < th_head_seen s \<and> v = th_pushed s ! T))"

lemma th_idx: "rq_shape q k \<Longrightarrow> unat (of_nat j AND rq_mask q) = j mod 2 ^ k"
  using unat_of_nat_mod [of k j, where 'a = 64] by (simp add: rq_shape_def unat_and_mask)

lemma th_full:
  assumes "rq_shape q k" "j \<le> h" "h \<le> j + 2 ^ k"
  shows "(of_nat h :: u64) - of_nat j > rq_mask q \<longleftrightarrow> h = j + 2 ^ k"
proof -
  have k: "k < 64" using assms(1) by (simp add: rq_shape_def)
  have "unat (of_nat (h - j) :: u64) = (h - j) mod 2 ^ 64"
    using unat_of_nat [of "h - j", where 'a = 64] by simp
  also have "\<dots> = h - j" using nat_pow2_less [OF k] assms by (intro mod_less) linarith
  finally have "unat ((of_nat h :: u64) - of_nat j) = h - j" using assms(2) by (simp add: of_nat_diff)
  then show ?thesis using assms unfolding rq_full_iff [OF assms(1)] by auto
qed

lemmas th_inv_defs = th_inv_def Let_def rq_shape_def

lemma th_slot_write:
  assumes "rq_shape q k" "T \<le> j" "j < H" "H < T + 2 ^ k"
  shows "(rq_slots q)[H mod 2 ^ k := x] ! (j mod 2 ^ k) = rq_slots q ! (j mod 2 ^ k)"
  using mod_distinct [of j H "2 ^ k"] assms by simp

lemma th_inv_step:
  assumes "th_step s s'" "th_inv k s"
  shows "th_inv k s'"
  using assms
proof (cases rule: th_step.cases)
  case (push_full j)
  then show ?thesis using assms(2) by (auto simp: th_inv_def Let_def)
next
  case (push_load j x)
  have "length (th_pushed s) \<noteq> j + 2 ^ k"
    using push_load(5) assms(2) th_full [of "th_ring s" k j "length (th_pushed s)"] push_load(3,4)
    by (auto simp: th_inv_def Let_def)
  then show ?thesis using push_load assms(2) by (auto simp: th_inv_def Let_def)
next
  case (push_write h x)
  let ?T = "length (th_popped s)" and ?H = "length (th_pushed s)"
  have q: "rq_shape (th_ring s) k" and h: "h = of_nat ?H" and room: "?H < th_tail_seen s + 2 ^ k"
    and seen: "th_tail_seen s \<le> ?T"
    using assms(2) push_write by (auto simp: th_inv_def Let_def)
  have i: "unat (h AND rq_mask (th_ring s)) = ?H mod 2 ^ k" unfolding h by (rule th_idx [OF q])
  have other: "(rq_slots (th_ring s))[?H mod 2 ^ k := x] ! (j mod 2 ^ k) = rq_slots (th_ring s) ! (j mod 2 ^ k)"
    if "?T \<le> j" "j < ?H" for j
    using th_slot_write [OF q that] room seen by simp
  have here: "(rq_slots (th_ring s))[?H mod 2 ^ k := x] ! (?H mod 2 ^ k) = x"
    using q by (simp add: rq_shape_def)
  have shape: "rq_shape ((th_ring s)\<lparr>rq_slots := (rq_slots (th_ring s))[?H mod 2 ^ k := x]\<rparr>) k"
    using q by (simp add: rq_shape_def)
  show ?thesis using assms(2) push_write h room other here shape unfolding push_write i
    by (auto simp: th_inv_def Let_def)
next
  case (push_publish h x)
  then show ?thesis using assms(2)
    by (auto simp: th_inv_def Let_def rq_shape_def nth_append less_Suc_eq ac_simps)
next
  case (pop_empty j)
  then show ?thesis using assms(2) by (auto simp: th_inv_def Let_def)
next
  case (pop_load j)
  have "length (th_popped s) \<noteq> j" using pop_load(5) assms(2) by (auto simp: th_inv_def Let_def)
  then show ?thesis using pop_load assms(2) by (auto simp: th_inv_def Let_def)
next
  case (pop_read t)
  have q: "rq_shape (th_ring s) k" and t: "t = of_nat (length (th_popped s))"
    using assms(2) pop_read by (auto simp: th_inv_def Let_def)
  have "unat (t AND rq_mask (th_ring s)) = length (th_popped s) mod 2 ^ k" unfolding t by (rule th_idx [OF q])
  then show ?thesis using pop_read assms(2) by (auto simp: th_inv_def Let_def)
next
  case (pop_release t v)
  then show ?thesis using assms(2)
    by (auto simp: th_inv_def Let_def rq_shape_def take_Suc_conv_app_nth ac_simps)
qed

lemma th_inv_reachable: "th_step\<^sup>*\<^sup>* s s' \<Longrightarrow> th_inv k s \<Longrightarrow> th_inv k s'"
  by (induction rule: rtranclp_induct) (auto intro: th_inv_step)

lemma th_inv_init:
  assumes "rq_make c d = Some q"
  obtains k where "unat c = 2 ^ k" "th_inv k (th_init q)"
proof -
  have "c \<noteq> 0" "c AND (c - 1) = 0" using assms by (simp_all add: rq_make_def split: if_splits)
  then obtain k where k: "k < 64" "c = 2 ^ k" "unat c = 2 ^ k" using pow2_test [of c] by auto
  have "q = \<lparr>rq_head = 0, rq_tail = 0, rq_mask = c - 1, rq_slots = replicate (unat c) d\<rparr>"
    using assms by (simp add: rq_make_def split: if_splits)
  then have "th_inv k (th_init q)" using k by (simp add: th_inv_def th_init_def rq_shape_def mask_eq_exp_minus_1)
  with k(3) show thesis by (rule that)
qed

text \<open>The slot the producer is about to write is never the one the consumer is about to read.\<close>

lemma th_no_race:
  assumes "th_inv k s" "th_prod s = P_Loaded h x" "th_cons s = C_Loaded t"
  shows "unat (h AND rq_mask (th_ring s)) \<noteq> unat (t AND rq_mask (th_ring s))"
proof -
  let ?T = "length (th_popped s)" and ?H = "length (th_pushed s)"
  have q: "rq_shape (th_ring s) k" and "h = of_nat ?H" "t = of_nat ?T"
    and "?H < th_tail_seen s + 2 ^ k" "th_tail_seen s \<le> ?T" "?T < ?H"
    using assms by (auto simp: th_inv_def Let_def)
  then show ?thesis using mod_distinct [of ?T ?H "2 ^ k"] by (simp add: th_idx [OF q])
qed

subsection \<open>Properties\<close>

lemma six_steps:
  "R a b \<Longrightarrow> R b c \<Longrightarrow> R c d \<Longrightarrow> R d e \<Longrightarrow> R e f \<Longrightarrow> R f g \<Longrightarrow> R\<^sup>*\<^sup>* a g"
  by (erule converse_rtranclp_into_rtranclp)+ (rule rtranclp.rtrancl_refl)

lemma replicate_two: "replicate 2 x = [x, x]"
  by (simp add: numeral_2_eq_2)

text \<open>
  C5: the lock-free ring is a correct bounded queue of one producer and one
  consumer. From a ring of any accepted capacity, under every interleaving of the two threads'
  loads and stores and with stale reads of the other thread's index, the items popped so far are
  a prefix of the items pushed, in order, none lost, repeated or torn; the items in between
  never exceed the capacity; and the producer never writes a slot the consumer is about to read.
\<close>
theorem ring_spsc_correct:
  assumes "rq_make c d = Some q" "th_step\<^sup>*\<^sup>* (th_init q) s"
  shows "th_popped s = take (length (th_popped s)) (th_pushed s) \<and>
    length (th_popped s) \<le> length (th_pushed s) \<and>
    length (th_pushed s) \<le> length (th_popped s) + unat c \<and>
    (\<forall>h x t. th_prod s = P_Loaded h x \<and> th_cons s = C_Loaded t \<longrightarrow>
       unat (h AND rq_mask (th_ring s)) \<noteq> unat (t AND rq_mask (th_ring s)))"
proof -
  obtain k where k: "unat c = 2 ^ k" "th_inv k (th_init q)" using th_inv_init [OF assms(1)] .
  have inv: "th_inv k s" by (rule th_inv_reachable [OF assms(2) k(2)])
  then have "th_popped s = take (length (th_popped s)) (th_pushed s)"
    "length (th_popped s) \<le> length (th_pushed s)"
    "length (th_pushed s) \<le> length (th_popped s) + unat c"
    by (auto simp: th_inv_def Let_def k(1))
  then show ?thesis using th_no_race [OF inv] by blast
qed

text \<open>A run of the two threads that pushes one item and pops it.\<close>

lemma ring_spsc_correct_witness:
  "\<exists>q s. rq_make 2 (0::nat) = Some q \<and> th_step\<^sup>*\<^sup>* (th_init q) s \<and>
     th_pushed s = [7] \<and> th_popped s = [7] \<and> th_popped s = take (length (th_popped s)) (th_pushed s)"
proof -
  define q :: "nat ring" where "q = \<lparr>rq_head = 0, rq_tail = 0, rq_mask = 1, rq_slots = [0, 0]\<rparr>"
  have make: "rq_make 2 (0::nat) = Some q" by (simp add: rq_make_def q_def replicate_two)
  let ?s0 = "th_init q"
  let ?s1 = "?s0\<lparr>th_tail_seen := 0, th_prod := P_Loaded 0 7\<rparr>"
  let ?q2 = "q\<lparr>rq_slots := [7, 0]\<rparr>"
  let ?s2 = "?s1\<lparr>th_prod := P_Stored 0 7, th_ring := ?q2\<rparr>"
  let ?q3 = "?q2\<lparr>rq_head := 1\<rparr>"
  let ?s3 = "?s2\<lparr>th_prod := P_Idle, th_ring := ?q3, th_pushed := [7]\<rparr>"
  let ?s4 = "?s3\<lparr>th_head_seen := 1, th_cons := C_Loaded 0\<rparr>"
  let ?s5 = "?s4\<lparr>th_cons := C_Read 0 7\<rparr>"
  let ?s6 = "?s5\<lparr>th_cons := C_Idle, th_ring := ?q3\<lparr>rq_tail := 1\<rparr>, th_popped := [7]\<rparr>"
  have "th_step ?s0 ?s1" using push_load [of ?s0 0 7] by (simp add: th_init_def q_def)
  moreover have "th_step ?s1 ?s2" using push_write [of ?s1 0 7] by (simp add: th_init_def q_def)
  moreover have "th_step ?s2 ?s3" using push_publish [of ?s2 0 7] by (simp add: th_init_def q_def)
  moreover have "th_step ?s3 ?s4" using pop_load [of ?s3 1] by (simp add: th_init_def q_def)
  moreover have "th_step ?s4 ?s5" using pop_read [of ?s4 0] by (simp add: th_init_def q_def)
  moreover have "th_step ?s5 ?s6" using pop_release [of ?s5 0 7] by (simp add: th_init_def q_def)
  ultimately have run: "th_step\<^sup>*\<^sup>* ?s0 ?s6" by (rule six_steps)
  have "th_pushed ?s6 = [7]" "th_popped ?s6 = [7]" by simp_all
  with ring_spsc_correct [OF make run] make run show ?thesis by blast
qed

text \<open>
  The byte-frame ring keeps frames intact. In any sequence of calls on a
  ring of \<open>C\<close> slots, the frames popped, followed by those still queued, are exactly the frames
  accepted, each with its timestamp and bytes, in order; a frame is accepted exactly when it is
  not longer than \<open>M\<close> and fewer than \<open>C\<close> frames are queued.
\<close>
theorem sq_frames_intact:
  assumes "sq_inv C M q" "sq.run C M calls q = (accepted, popped, q')"
  shows "sq_frames C q @ accepted = popped @ sq_frames C q' \<and>
    (fst (sq_try_push C M r p q') \<longleftrightarrow> length p \<le> M \<and> length (sq_frames C q') < unat C)"
proof
  show "sq_frames C q @ accepted = popped @ sq_frames C q'" using assms by (rule sq.run_fifo)
  have "sq_inv C M q'" using sq.run_inv [OF assms(1), of calls] assms(2) by simp
  then show "fst (sq_try_push C M r p q') \<longleftrightarrow> length p \<le> M \<and> length (sq_frames C q') < unat C"
    by (rule sq_push_spec(2))
qed

lemma sq_frames_intact_witness:
  "sq_frames 2 (sq_init 2 4) @ [(5, ''ab''), (6, ''cd'')] = [(5, ''ab''), (6, ''cd'')]
     @ sq_frames 2 (snd (snd (sq.run 2 4 [Enq (5, ''ab''), Enq (9, ''abcde''), Deq, Enq (6, ''cd''), Deq, Deq] (sq_init 2 4))))"
proof -
  have "sq_inv 2 4 (sq_init 2 4)"
    by (auto simp: sq_inv_def sq_ring_def sq_init_def rq_inv_def rq_used_def rq_shape_def
        mask_eq_exp_minus_1 intro!: exI [of _ 1])
  moreover have "sq.run 2 4 [Enq (5, ''ab''), Enq (9, ''abcde''), Deq, Enq (6, ''cd''), Deq, Deq] (sq_init 2 4)
      = ([(5, ''ab''), (6, ''cd'')], [(5, ''ab''), (6, ''cd'')],
         snd (snd (sq.run 2 4 [Enq (5, ''ab''), Enq (9, ''abcde''), Deq, Enq (6, ''cd''), Deq, Deq] (sq_init 2 4))))"
    by (simp add: sq_init_def sq_try_push_def sq_try_pop_def sl_write_def sl_frame_def Let_def
        replicate_two split_beta)
  ultimately show ?thesis by (rule sq_frames_intact [THEN conjunct1])
qed

end
