(* ===== verification/Order_Adapter.thy ===== *)
theory Order_Adapter
  imports Ring_Queue Rate_Breakers Order_Events
begin

text \<open>
  \<open>OrderAdapterBase\<close> of the order gateway
  (\<open>src/bpt-order-gateway/src/adapter/common/order_adapter_base.cpp\<close>): the non-blocking order
  entry, the send executor, the reconnect loop and the drain of the two event queues. The
  venue's \<open>connect_and_run\<close> is known by its outcome only, and its four blocking send hooks are
  parameters.
\<close>

record order_adapter =
  oa_exchange_id :: exchange_id
  oa_stop_flag :: bool
  oa_connected :: bool
  oa_disconnect_breaker :: disconnect_rate_breaker
  oa_exec_queue :: "exec_event ring"
  oa_rest_exec_queue :: "exec_event ring"
  oa_send_work_queue :: "send_work_item work_queue"

definition blank_exec_event :: exec_event where
  "blank_exec_event =
     \<lparr>ev_order_id = 0, ev_exchange_order_id = 0, ev_exchange_id = EX_ALL, ev_instrument_id = 0,
      ev_status = ES_ACKED, ev_side = BUY, ev_order_type = OT_MARKET, ev_price = 0,
      ev_filled_qty = 0, ev_remaining_qty = 0, ev_reject_reason = RR_OK, ev_fee = 0,
      ev_fee_currency = [], ev_exchange_ts_ns = 0, ev_local_ts_ns = 0\<rparr>"

text \<open>The constructor: the queues throw when the configured capacity is not a power of two.\<close>

definition oa_make :: "exchange_id \<Rightarrow> u64 \<Rightarrow> order_adapter option" where
  "oa_make e exec_queue_capacity =
     (case rq_make exec_queue_capacity blank_exec_event of
        None \<Rightarrow> None
      | Some q \<Rightarrow> Some \<lparr>oa_exchange_id = e, oa_stop_flag = False, oa_connected = False,
          oa_disconnect_breaker = drb_init drb_default_config, oa_exec_queue = q,
          oa_rest_exec_queue = q, oa_send_work_queue = wq_init\<rparr>)"

definition oa_is_halted :: "order_adapter \<Rightarrow> bool" where
  "oa_is_halted a = drb_tripped (oa_disconnect_breaker a)"

definition oa_set_disconnect_breaker_config :: "drb_config \<Rightarrow> order_adapter \<Rightarrow> order_adapter" where
  "oa_set_disconnect_breaker_config cfg a =
     a\<lparr>oa_disconnect_breaker := drb_reset cfg (oa_disconnect_breaker a)\<rparr>"

definition oa_stop :: "order_adapter \<Rightarrow> order_adapter" where
  "oa_stop a = a\<lparr>oa_stop_flag := True, oa_send_work_queue := wq_close (oa_send_work_queue a)\<rparr>"

subsection \<open>Order entry\<close>

definition oa_send_new_order :: "new_order_event \<Rightarrow> order_adapter \<Rightarrow> order_adapter" where
  "oa_send_new_order order a =
     (let req = \<lparr>nr_order_id = no_order_id order, nr_instrument_id = no_instrument_id order,
            nr_price = no_price order, nr_quantity = no_quantity order, nr_side = no_side order,
            nr_order_type = no_order_type order, nr_tif = no_tif order,
            nr_exec_inst = no_exec_inst order, nr_exchange_symbol = no_exchange_symbol order\<rparr>
      in a\<lparr>oa_send_work_queue := wq_push (NewOrderRequest req) (oa_send_work_queue a)\<rparr>)"

definition oa_send_cancel :: "cancel_order_event \<Rightarrow> string \<Rightarrow> order_adapter \<Rightarrow> order_adapter" where
  "oa_send_cancel cancel native_symbol a =
     (let req = \<lparr>cr_order_id = co_order_id cancel, cr_native_symbol = native_symbol\<rparr>
      in a\<lparr>oa_send_work_queue := wq_push (CancelRequest req) (oa_send_work_queue a)\<rparr>)"

definition oa_send_cancel_all :: "u64 \<Rightarrow> order_adapter \<Rightarrow> order_adapter" where
  "oa_send_cancel_all instrument_id a =
     (let req = \<lparr>car_instrument_id = instrument_id\<rparr>
      in a\<lparr>oa_send_work_queue := wq_push (CancelAllRequest req) (oa_send_work_queue a)\<rparr>)"

definition oa_send_modify :: "modify_order_event \<Rightarrow> string \<Rightarrow> order_adapter \<Rightarrow> order_adapter" where
  "oa_send_modify modify native_symbol a =
     (let req = \<lparr>mr_order_id = mo_order_id modify, mr_new_price = mo_new_price modify,
            mr_new_quantity = mo_new_quantity modify, mr_native_symbol = native_symbol\<rparr>
      in a\<lparr>oa_send_work_queue := wq_push (ModifyRequest req) (oa_send_work_queue a)\<rparr>)"

subsection \<open>The send executor\<close>

text \<open>
  The hooks, each as its effect on the adapter; an exception one throws is logged, so it
  ends the item like a return.
\<close>

record send_hooks =
  do_send_new_order_blocking :: "new_order_request \<Rightarrow> order_adapter \<Rightarrow> order_adapter"
  do_send_cancel_blocking :: "cancel_request \<Rightarrow> order_adapter \<Rightarrow> order_adapter"
  do_send_cancel_all_blocking :: "cancel_all_request \<Rightarrow> order_adapter \<Rightarrow> order_adapter"
  do_send_modify_blocking :: "modify_request \<Rightarrow> order_adapter \<Rightarrow> order_adapter"

fun dispatch_item :: "send_hooks \<Rightarrow> send_work_item \<Rightarrow> order_adapter \<Rightarrow> order_adapter" where
  "dispatch_item h (NewOrderRequest req) a = do_send_new_order_blocking h req a"
| "dispatch_item h (CancelRequest req) a = do_send_cancel_blocking h req a"
| "dispatch_item h (CancelAllRequest req) a = do_send_cancel_all_blocking h req a"
| "dispatch_item h (ModifyRequest req) a = do_send_modify_blocking h req a"

text \<open>One turn of the executor loop: it waits, it returns, or it handles one item.\<close>

datatype executor_turn = Waits | Returns | Handled send_work_item order_adapter

definition oa_run_send_executor :: "send_hooks \<Rightarrow> order_adapter \<Rightarrow> executor_turn" where
  "oa_run_send_executor h a =
     (case wq_pop_blocking (oa_send_work_queue a) of
        None \<Rightarrow> Waits
      | Some (None, _) \<Rightarrow> Returns
      | Some (Some item, q) \<Rightarrow> Handled item (dispatch_item h item (a\<lparr>oa_send_work_queue := q\<rparr>)))"

subsection \<open>The reconnect loop\<close>

datatype session_outcome = Session_Returned | Session_Threw

definition reconnect_delay_ms :: nat where "reconnect_delay_ms = 2000"

text \<open>One turn of \<open>run\<close>: the adapter after it and the milliseconds slept, \<open>None\<close> once the loop has ended.\<close>

definition oa_run :: "session_outcome \<Rightarrow> u64 \<Rightarrow> order_adapter \<Rightarrow> (order_adapter \<times> nat) option" where
  "oa_run outcome now_ns a =
     (if oa_stop_flag a then None
      else
        let (a, slept) =
          (case outcome of
             Session_Returned \<Rightarrow> (a, 0)
           | Session_Threw \<Rightarrow>
               if \<not> oa_stop_flag a
               then (a\<lparr>oa_disconnect_breaker := drb_record now_ns (oa_disconnect_breaker a)\<rparr>, reconnect_delay_ms)
               else (a, 0))
        in Some (a\<lparr>oa_connected := False\<rparr>, slept))"

subsection \<open>Draining the event queues\<close>

lemma rq_pop_less: "rq_try_pop q = (Some x, r) \<Longrightarrow> rq_used r < rq_used q"
proof -
  assume "rq_try_pop q = (Some x, r)"
  then have "rq_head q - rq_tail q \<noteq> 0" "r = q\<lparr>rq_tail := rq_tail q + 1\<rparr>"
    by (auto simp: rq_try_pop_def Let_def split: if_splits)
  then show ?thesis
    using unat_dec [of "rq_head q - rq_tail q"] unat_gt_0 [of "rq_head q - rq_tail q"]
    by (simp add: rq_used_def diff_diff_eq)
qed

function drain_ring :: "'a ring \<Rightarrow> 'a list \<times> 'a ring" where
  "drain_ring q =
     (case rq_try_pop q of
        (None, q') \<Rightarrow> ([], q')
      | (Some x, q') \<Rightarrow> (let (xs, q'') = drain_ring q' in (x # xs, q'')))"
  by auto
termination
  by (relation "measure rq_used") (auto intro: rq_pop_less simp: eq_commute [of "(Some _, _)"])

declare drain_ring.simps [simp del]

lemma drain_ring_spec:
  "rq_inv q \<Longrightarrow> fst (drain_ring q) = rq_contents q \<and> rq_contents (snd (drain_ring q)) = [] \<and>
     rq_inv (snd (drain_ring q))"
proof (induction q rule: drain_ring.induct)
  case (1 q)
  obtain r q' where pop: "rq_try_pop q = (r, q')" by (cases "rq_try_pop q")
  have inv': "rq_inv q'" using rq.deq_inv [OF 1(2)] pop by simp
  have r: "r = (case rq_contents q of [] \<Rightarrow> None | x # xs \<Rightarrow> Some x)" "rq_contents q' = tl (rq_contents q)"
    using rq.deq_result [OF 1(2)] rq.deq_contents [OF 1(2)] pop by simp_all
  show ?case
  proof (cases r)
    case None
    then have "rq_contents q = []" using r by (cases "rq_contents q") auto
    then show ?thesis using None pop r inv' by (simp add: drain_ring.simps [of q])
  next
    case (Some x)
    then have "rq_contents q = x # rq_contents q'" using r by (cases "rq_contents q") auto
    then show ?thesis using 1(1) [OF pop [symmetric] _ inv'] Some pop
      by (simp add: drain_ring.simps [of q] split_beta)
  qed
qed

definition oa_drain_exec_events :: "order_adapter \<Rightarrow> exec_event list \<times> order_adapter" where
  "oa_drain_exec_events a =
     (let (ws, q) = drain_ring (oa_exec_queue a);
          (rest, r) = drain_ring (oa_rest_exec_queue a)
      in (ws @ rest, a\<lparr>oa_exec_queue := q, oa_rest_exec_queue := r\<rparr>))"

lemma oa_drain_all:
  assumes "rq_inv (oa_exec_queue a)" "rq_inv (oa_rest_exec_queue a)"
  shows "fst (oa_drain_exec_events a) = rq_contents (oa_exec_queue a) @ rq_contents (oa_rest_exec_queue a)"
    and "rq_contents (oa_exec_queue (snd (oa_drain_exec_events a))) = []"
    and "rq_contents (oa_rest_exec_queue (snd (oa_drain_exec_events a))) = []"
  using drain_ring_spec [OF assms(1)] drain_ring_spec [OF assms(2)]
  by (simp_all add: oa_drain_exec_events_def split_beta)

subsection \<open>Order entry reaches the executor in order\<close>

datatype entry_call =
    SendNew new_order_event
  | SendCancel cancel_order_event string
  | SendCancelAll u64
  | SendModify modify_order_event string

fun oa_entry :: "entry_call \<Rightarrow> order_adapter \<Rightarrow> order_adapter" where
  "oa_entry (SendNew e) a = oa_send_new_order e a"
| "oa_entry (SendCancel e native) a = oa_send_cancel e native a"
| "oa_entry (SendCancelAll i) a = oa_send_cancel_all i a"
| "oa_entry (SendModify e native) a = oa_send_modify e native a"

fun entry_item :: "entry_call \<Rightarrow> send_work_item" where
  "entry_item (SendNew e) = NewOrderRequest
     \<lparr>nr_order_id = no_order_id e, nr_instrument_id = no_instrument_id e, nr_price = no_price e,
      nr_quantity = no_quantity e, nr_side = no_side e, nr_order_type = no_order_type e,
      nr_tif = no_tif e, nr_exec_inst = no_exec_inst e, nr_exchange_symbol = no_exchange_symbol e\<rparr>"
| "entry_item (SendCancel e native) = CancelRequest \<lparr>cr_order_id = co_order_id e, cr_native_symbol = native\<rparr>"
| "entry_item (SendCancelAll i) = CancelAllRequest \<lparr>car_instrument_id = i\<rparr>"
| "entry_item (SendModify e native) = ModifyRequest \<lparr>mr_order_id = mo_order_id e,
     mr_new_price = mo_new_price e, mr_new_quantity = mo_new_quantity e, mr_native_symbol = native\<rparr>"

text \<open>A schedule of the two threads: the poll loop sends, the executor takes a turn.\<close>

datatype adapter_step = Entry entry_call | Executor | Stop

fun oa_trace :: "send_hooks \<Rightarrow> adapter_step list \<Rightarrow> order_adapter \<Rightarrow> send_work_item list \<times> order_adapter" where
  "oa_trace h [] a = ([], a)"
| "oa_trace h (Entry c # ss) a = oa_trace h ss (oa_entry c a)"
| "oa_trace h (Stop # ss) a = oa_trace h ss (oa_stop a)"
| "oa_trace h (Executor # ss) a =
     (case oa_run_send_executor h a of
        Handled item a' \<Rightarrow> (let (xs, a'') = oa_trace h ss a' in (item # xs, a''))
      | _ \<Rightarrow> oa_trace h ss a)"

definition hooks_keep_queue :: "send_hooks \<Rightarrow> bool" where
  "hooks_keep_queue h \<longleftrightarrow>
     (\<forall>item a. oa_send_work_queue (dispatch_item h item a) = oa_send_work_queue a)"

lemma oa_entry_items:
  "wq_items (oa_send_work_queue (oa_entry c a)) = wq_items (oa_send_work_queue a) @ [entry_item c]"
  by (cases c) (simp_all add: oa_send_new_order_def oa_send_cancel_def oa_send_cancel_all_def
      oa_send_modify_def wq_push_def)

lemma oa_turn_cases:
  obtains (waits) "oa_run_send_executor h a = Waits" "wq_items (oa_send_work_queue a) = []"
      "\<not> wq_closed (oa_send_work_queue a)"
  | (returns) "oa_run_send_executor h a = Returns" "wq_items (oa_send_work_queue a) = []"
      "wq_closed (oa_send_work_queue a)"
  | (handled) item rest where "wq_items (oa_send_work_queue a) = item # rest"
      "oa_run_send_executor h a = Handled item (dispatch_item h item
         (a\<lparr>oa_send_work_queue := (oa_send_work_queue a)\<lparr>wq_items := rest\<rparr>\<rparr>))"
  by (cases "wq_items (oa_send_work_queue a)"; cases "wq_closed (oa_send_work_queue a)")
    (auto simp: oa_run_send_executor_def wq_pop_blocking_def)

lemma oa_trace_fifo:
  assumes "hooks_keep_queue h"
  shows "wq_items (oa_send_work_queue a) @ [entry_item c. Entry c \<leftarrow> ss]
    = fst (oa_trace h ss a) @ wq_items (oa_send_work_queue (snd (oa_trace h ss a)))"
proof (induction ss arbitrary: a)
  case (Cons s ss)
  show ?case
  proof (cases s)
    case (Entry c)
    then show ?thesis using Cons.IH [of "oa_entry c a"] by (simp add: oa_entry_items)
  next
    case Stop
    then show ?thesis using Cons.IH [of "oa_stop a"] by (simp add: oa_stop_def wq_close_def)
  next
    case Executor
    show ?thesis
    proof (cases rule: oa_turn_cases [of h a])
      case (handled item rest)
      let ?a = "dispatch_item h item (a\<lparr>oa_send_work_queue := (oa_send_work_queue a)\<lparr>wq_items := rest\<rparr>\<rparr>)"
      have "wq_items (oa_send_work_queue ?a) = rest" using assms by (simp add: hooks_keep_queue_def)
      then show ?thesis using Cons.IH [of ?a] handled Executor by (simp add: split_beta)
    qed (use Cons.IH [of a] Executor in simp_all)
  qed
qed simp

subsection \<open>Properties\<close>

text \<open>
  Requests reach the venue in the order they were made. Whatever the
  interleaving of the poll thread's sends, the executor's turns and a stop, if the venue hooks do
  not touch the work queue then the items handled so far followed by those still queued are the
  requests made, field by field, in order; and a stopped executor returns only after it has
  handled all of them.
\<close>
theorem oa_sends_in_order:
  assumes "hooks_keep_queue h" "wq_items (oa_send_work_queue a) = []" "oa_trace h ss a = (handled, a')"
  shows "[entry_item c. Entry c \<leftarrow> ss] = handled @ wq_items (oa_send_work_queue a') \<and>
    (oa_run_send_executor h a' = Returns \<longrightarrow> [entry_item c. Entry c \<leftarrow> ss] = handled)"
proof -
  have fifo: "[entry_item c. Entry c \<leftarrow> ss] = handled @ wq_items (oa_send_work_queue a')"
    using oa_trace_fifo [OF assms(1), of a ss] assms(2,3) by simp
  moreover have "wq_items (oa_send_work_queue a') = []" if "oa_run_send_executor h a' = Returns"
    using that by (cases rule: oa_turn_cases [of h a']) auto
  ultimately show ?thesis by auto
qed

definition idle_hooks :: send_hooks where
  "idle_hooks = \<lparr>do_send_new_order_blocking = (\<lambda>_ a. a), do_send_cancel_blocking = (\<lambda>_ a. a),
     do_send_cancel_all_blocking = (\<lambda>_ a. a), do_send_modify_blocking = (\<lambda>_ a. a)\<rparr>"

lemma idle_hooks_keep: "hooks_keep_queue idle_hooks"
  unfolding hooks_keep_queue_def
proof (intro allI)
  fix item a
  show "oa_send_work_queue (dispatch_item idle_hooks item a) = oa_send_work_queue a"
    by (cases item) (simp_all add: idle_hooks_def)
qed

lemma oa_sends_in_order_witness:
  "\<exists>a handled a'. oa_make EX_OKX 4 = Some a \<and>
     oa_trace idle_hooks [Entry (SendCancelAll 7), Executor, Entry (SendCancelAll 8)] a = (handled, a') \<and>
     [CancelAllRequest \<lparr>car_instrument_id = 7\<rparr>, CancelAllRequest \<lparr>car_instrument_id = 8\<rparr>]
       = handled @ wq_items (oa_send_work_queue a')"
proof -
  obtain a where a: "oa_make EX_OKX 4 = Some a" "wq_items (oa_send_work_queue a) = []"
    by (simp add: oa_make_def rq_make_def wq_init_def)
  obtain handled a' where t: "oa_trace idle_hooks [Entry (SendCancelAll 7), Executor, Entry (SendCancelAll 8)] a = (handled, a')"
    by (cases "oa_trace idle_hooks [Entry (SendCancelAll 7), Executor, Entry (SendCancelAll 8)] a")
  from oa_sends_in_order [OF idle_hooks_keep a(2) t] a(1) t show ?thesis by auto
qed

end
