(* ===== verification/Order_Processor.thy ===== *)
theory Order_Processor
  imports Order_State Risk_Gate Order_Adapter "HOL-Library.Sublist"
begin

text \<open>
  \<open>OrderProcessor\<close> of the order gateway
  (\<open>src/bpt-order-gateway/src/order/order_processor.cpp\<close>): the one place where requests of the
  strategy, execution events of the venues, the order state and the risk gate meet. Its
  references are fields of the state; the reports published and the metrics are part of it.
  Each call takes the clock readings it makes: \<open>now\<close> for \<open>TscClock::now_epoch_ns\<close>, \<open>now_s\<close> for the
  wall-clock second the rate limiter reads.
\<close>

record gateway_metrics =
  gm_orders_received :: "(string, nat) umap"
  gm_risk_reject :: "(string, nat) umap"
  gm_exec_report :: "(string \<times> string, nat) umap"
  gm_order_ack_rtt :: "(string \<times> double) list"
  gm_stale_orders_total :: nat

definition gm_init :: gateway_metrics where
  "gm_init = \<lparr>gm_orders_received = [], gm_risk_reject = [], gm_exec_report = [],
     gm_order_ack_rtt = [], gm_stale_orders_total = 0\<rparr>"

definition counter_inc :: "'k \<Rightarrow> ('k, nat) umap \<Rightarrow> ('k, nat) umap" where
  "counter_inc k m = AList.update k ((case map_of m k of None \<Rightarrow> 0 | Some n \<Rightarrow> n) + 1) m"

record order_processor =
  op_state_mgr :: order_state_manager
  op_risk_gate :: risk_gate
  op_adapters :: "order_adapter list"
  op_adapter_by_id :: "nat option list"
  op_published :: "exec_report list"
  op_metrics :: gateway_metrics

text \<open>The constructor's loop over the adapters: a later one replaces an earlier one of its venue.\<close>

definition adapter_index :: "order_adapter list \<Rightarrow> nat option list" where
  "adapter_index adapters =
     fold (\<lambda>(i, a) m. let idx = exchange_value (oa_exchange_id a)
                      in if idx < length m then m[idx := Some i] else m)
       (zip [0..<length adapters] adapters) (replicate 5 None)"

definition op_init :: "risk_gate \<Rightarrow> order_adapter list \<Rightarrow> order_processor" where
  "op_init gate adapters =
     \<lparr>op_state_mgr = sm_init, op_risk_gate = gate, op_adapters = adapters,
      op_adapter_by_id = adapter_index adapters, op_published = [], op_metrics = gm_init\<rparr>"

definition find_adapter :: "exchange_id \<Rightarrow> order_processor \<Rightarrow> nat option" where
  "find_adapter e p =
     (let idx = exchange_value e
      in if idx \<ge> length (op_adapter_by_id p) then None else op_adapter_by_id p ! idx)"

fun exec_status_to_lifecycle :: "exec_status \<Rightarrow> order_lifecycle" where
  "exec_status_to_lifecycle ES_ACKED = OL_ACKED"
| "exec_status_to_lifecycle ES_PARTIAL = OL_PARTIALLY_FILLED"
| "exec_status_to_lifecycle ES_FILLED = OL_FILLED"
| "exec_status_to_lifecycle ES_CANCELLED = OL_CANCELLED"
| "exec_status_to_lifecycle ES_REJECTED = OL_REJECTED"
| "exec_status_to_lifecycle ES_NULL = OL_ACKED"

fun lifecycle_str :: "order_lifecycle \<Rightarrow> string" where
  "lifecycle_str OL_ACKED = ''ACKED''"
| "lifecycle_str OL_PARTIALLY_FILLED = ''PARTIAL''"
| "lifecycle_str OL_FILLED = ''FILLED''"
| "lifecycle_str OL_CANCELLED = ''CANCELLED''"
| "lifecycle_str OL_REJECTED = ''REJECTED''"
| "lifecycle_str OL_PENDING = ''UNKNOWN''"

fun exchange_str :: "exchange_id \<Rightarrow> string" where
  "exchange_str EX_BINANCE = ''BINANCE''"
| "exchange_str EX_OKX = ''OKX''"
| "exchange_str EX_HYPERLIQUID = ''HYPERLIQUID''"
| "exchange_str EX_DERIBIT = ''DERIBIT''"
| "exchange_str _ = ''UNKNOWN''"

definition publish :: "exec_report \<Rightarrow> order_processor \<Rightarrow> order_processor" where
  "publish r p = p\<lparr>op_published := op_published p @ [r]\<rparr>"

definition with_adapter :: "nat \<Rightarrow> (order_adapter \<Rightarrow> order_adapter) \<Rightarrow> order_processor \<Rightarrow> order_processor" where
  "with_adapter i f p = p\<lparr>op_adapters := (op_adapters p)[i := f (op_adapters p ! i)]\<rparr>"

subsection \<open>The calls\<close>

text \<open>The round-trip time observed on an ack.\<close>

definition observe_ack :: "exec_event \<Rightarrow> order_lifecycle \<Rightarrow> order_processor \<Rightarrow> order_processor" where
  "observe_ack event new_lc p =
     (if new_lc = OL_ACKED then
        case sm_get (ev_order_id event) (op_state_mgr p) of
          None \<Rightarrow> p
        | Some st \<Rightarrow>
            if os_created_ns st < ev_local_ts_ns event
            then p\<lparr>op_metrics := (op_metrics p)\<lparr>gm_order_ack_rtt := gm_order_ack_rtt (op_metrics p) @
                   [(exchange_str (ev_exchange_id event),
                     d_of_int (uint (ev_local_ts_ns event - os_created_ns st)))]\<rparr>\<rparr>
            else p
      else p)"

definition op_on_exec_event :: "exec_event \<Rightarrow> u64 \<Rightarrow> order_processor \<Rightarrow> order_processor" where
  "op_on_exec_event event now p =
     (let new_lc = exec_status_to_lifecycle (ev_status event);
          p = p\<lparr>op_state_mgr := snd (sm_update (ev_order_id event) new_lc (ev_exchange_order_id event)
                  (ev_filled_qty event) (ev_remaining_qty event) now (op_state_mgr p))\<rparr>;
          p = p\<lparr>op_risk_gate := rg_on_exec_event event (op_risk_gate p)\<rparr>;
          p = publish (to_report event) p;
          exch = exchange_str (ev_exchange_id event);
          p = p\<lparr>op_metrics := (op_metrics p)\<lparr>gm_exec_report :=
                  counter_inc (exch, lifecycle_str new_lc) (gm_exec_report (op_metrics p))\<rparr>\<rparr>;
          p = observe_ack event new_lc p;
          terminal = (new_lc = OL_FILLED \<or> new_lc = OL_CANCELLED \<or> new_lc = OL_REJECTED)
      in if terminal then p\<lparr>op_state_mgr := sm_remove (ev_order_id event) (op_state_mgr p)\<rparr> else p)"

definition op_on_new_order :: "new_order_event \<Rightarrow> u64 \<Rightarrow> u64 \<Rightarrow> order_processor \<Rightarrow> order_processor" where
  "op_on_new_order order now_s now p =
     (let exch = exchange_str (no_exchange_id order);
          p = p\<lparr>op_metrics := (op_metrics p)\<lparr>gm_orders_received :=
                  counter_inc exch (gm_orders_received (op_metrics p))\<rparr>\<rparr>;
          (verdict, gate) = rg_evaluate order now_s (op_risk_gate p);
          p = p\<lparr>op_risk_gate := gate\<rparr>
      in case verdict of
           Some reason \<Rightarrow>
             let p = publish (to_reject_report order reason now) p
             in p\<lparr>op_metrics := (op_metrics p)\<lparr>gm_risk_reject := counter_inc exch (gm_risk_reject (op_metrics p))\<rparr>\<rparr>
         | None \<Rightarrow>
             let unavailable = publish (to_reject_report order RR_EXCHANGE_ERROR now) p
             in case find_adapter (no_exchange_id order) p of
                  None \<Rightarrow> unavailable\<lparr>op_risk_gate := rg_release_slot (no_exchange_id order) (op_risk_gate p)\<rparr>
                | Some i \<Rightarrow>
                    if \<not> oa_connected (op_adapters p ! i) \<or> oa_is_halted (op_adapters p ! i)
                    then unavailable\<lparr>op_risk_gate := rg_release_slot (no_exchange_id order) (op_risk_gate p)\<rparr>
                    else
                      let p = p\<lparr>op_state_mgr := snd (sm_insert (to_order_state order now) (op_state_mgr p))\<rparr>
                      in with_adapter i (oa_send_new_order order) p)"

definition op_on_cancel :: "cancel_order_event \<Rightarrow> order_processor \<Rightarrow> order_processor" where
  "op_on_cancel cancel p =
     (case find_adapter (co_exchange_id cancel) p of
        None \<Rightarrow> p
      | Some i \<Rightarrow>
          case sm_get (co_order_id cancel) (op_state_mgr p) of
            None \<Rightarrow> p
          | Some st \<Rightarrow> with_adapter i (oa_send_cancel cancel (os_exchange_symbol st)) p)"

definition op_kill_one :: "order_state \<Rightarrow> order_processor \<Rightarrow> order_processor" where
  "op_kill_one st p =
     (case find_adapter (os_exchange_id st) p of
        None \<Rightarrow> p
      | Some i \<Rightarrow> with_adapter i (oa_send_cancel_all (os_instrument_id st)) p)"

definition op_on_cancel_all :: "cancel_all_event \<Rightarrow> order_processor \<Rightarrow> order_processor" where
  "op_on_cancel_all cancel_all p =
     (if ca_exchange_id cancel_all = EX_ALL then
        let p = p\<lparr>op_risk_gate := rg_disable_trading (op_risk_gate p)\<rparr>
        in fold op_kill_one (sm_for_each_open (op_state_mgr p)) p
      else
        case find_adapter (ca_exchange_id cancel_all) p of
          None \<Rightarrow> p
        | Some i \<Rightarrow> with_adapter i (oa_send_cancel_all (ca_instrument_id cancel_all)) p)"

definition op_on_modify :: "modify_order_event \<Rightarrow> order_processor \<Rightarrow> order_processor" where
  "op_on_modify modify p =
     (case find_adapter (mo_exchange_id modify) p of
        None \<Rightarrow> p
      | Some i \<Rightarrow>
          case sm_get (mo_order_id modify) (op_state_mgr p) of
            None \<Rightarrow> p
          | Some st \<Rightarrow> with_adapter i (oa_send_modify modify (os_exchange_symbol st)) p)"

definition op_cancel_stale :: "u64 \<Rightarrow> order_state \<Rightarrow> order_processor \<Rightarrow> order_processor" where
  "op_cancel_stale cur_ns st p =
     publish (to_cancel_report st cur_ns)
       (p\<lparr>op_metrics := (op_metrics p)\<lparr>gm_stale_orders_total := gm_stale_orders_total (op_metrics p) + 1\<rparr>,
          op_risk_gate := rg_release_slot (os_exchange_id st) (op_risk_gate p)\<rparr>)"

definition op_check_stale_orders :: "u64 \<Rightarrow> u64 \<Rightarrow> order_processor \<Rightarrow> order_processor" where
  "op_check_stale_orders stale_timeout_ns cur_ns p =
     (let stale = sm_check_stale cur_ns stale_timeout_ns (op_state_mgr p);
          p = fold (op_cancel_stale cur_ns) stale p
      in p\<lparr>op_state_mgr := fold sm_remove (map os_order_id stale) (op_state_mgr p)\<rparr>)"

subsection \<open>Runs\<close>

text \<open>
  The calls of the poll loop, and \<open>OP_Adapter\<close>: anything the other threads do to one adapter
  (connect, disconnect, trip its breaker, take work items, queue events).
\<close>

datatype op_call =
    OP_Exec exec_event u64
  | OP_New new_order_event u64 u64
  | OP_Cancel cancel_order_event
  | OP_CancelAll cancel_all_event
  | OP_Modify modify_order_event
  | OP_Stale u64 u64
  | OP_Adapter nat "order_adapter \<Rightarrow> order_adapter"

fun op_step :: "op_call \<Rightarrow> order_processor \<Rightarrow> order_processor" where
  "op_step (OP_Exec event now) p = op_on_exec_event event now p"
| "op_step (OP_New order now_s now) p = op_on_new_order order now_s now p"
| "op_step (OP_Cancel cancel) p = op_on_cancel cancel p"
| "op_step (OP_CancelAll cancel_all) p = op_on_cancel_all cancel_all p"
| "op_step (OP_Modify modify) p = op_on_modify modify p"
| "op_step (OP_Stale timeout now) p = op_check_stale_orders timeout now p"
| "op_step (OP_Adapter i f) p = with_adapter i f p"

lemma with_adapter_frame [simp]:
  "op_state_mgr (with_adapter i f p) = op_state_mgr p"
  "op_risk_gate (with_adapter i f p) = op_risk_gate p"
  "op_published (with_adapter i f p) = op_published p"
  "op_adapter_by_id (with_adapter i f p) = op_adapter_by_id p"
  "op_metrics (with_adapter i f p) = op_metrics p"
  by (simp_all add: with_adapter_def)

lemma publish_frame [simp]:
  "op_state_mgr (publish r p) = op_state_mgr p" "op_risk_gate (publish r p) = op_risk_gate p"
  "op_adapters (publish r p) = op_adapters p" "op_adapter_by_id (publish r p) = op_adapter_by_id p"
  "op_published (publish r p) = op_published p @ [r]"
  by (simp_all add: publish_def)

lemma observe_ack_frame [simp]:
  "op_state_mgr (observe_ack e lc p) = op_state_mgr p" "op_risk_gate (observe_ack e lc p) = op_risk_gate p"
  "op_adapters (observe_ack e lc p) = op_adapters p" "op_published (observe_ack e lc p) = op_published p"
  by (simp_all add: observe_ack_def split: option.splits)

lemma find_adapter_cong: "op_adapter_by_id p = op_adapter_by_id p' \<Longrightarrow> find_adapter e p = find_adapter e p'"
  by (simp add: find_adapter_def Let_def)

text \<open>The fold of the kill switch, of which only the adapters change.\<close>

lemma cancel_fold_frame:
  "op_state_mgr (fold op_kill_one sts p) = op_state_mgr p" "op_risk_gate (fold op_kill_one sts p) = op_risk_gate p"
  "op_published (fold op_kill_one sts p) = op_published p" "op_adapter_by_id (fold op_kill_one sts p) = op_adapter_by_id p"
  by (induction sts arbitrary: p) (simp_all add: op_kill_one_def split: option.splits)

lemma stale_fold_frame:
  "op_state_mgr (fold (op_cancel_stale now) sts p) = op_state_mgr p"
  "op_risk_gate (fold (op_cancel_stale now) sts p) = fold (\<lambda>st g. rg_release_slot (os_exchange_id st) g) sts (op_risk_gate p)"
  "op_published (fold (op_cancel_stale now) sts p) = op_published p @ map (\<lambda>st. to_cancel_report st now) sts"
  "op_adapters (fold (op_cancel_stale now) sts p) = op_adapters p"
  "op_adapter_by_id (fold (op_cancel_stale now) sts p) = op_adapter_by_id p"
  by (induction sts arbitrary: p) (simp_all add: op_cancel_stale_def)

subsection \<open>Every call acts on the gate through its interface\<close>

lemma op_step_gate: "\<exists>cs. op_risk_gate (op_step c p) = fold rg_step cs (op_risk_gate p)"
proof (cases c)
  case (OP_Exec event now)
  then have "op_risk_gate (op_step c p) = fold rg_step [RG_Exec event] (op_risk_gate p)"
    by (simp add: op_on_exec_event_def Let_def)
  then show ?thesis ..
next
  case (OP_New order now_s now)
  show ?thesis
  proof (cases "op_risk_gate (op_step c p) = snd (rg_evaluate order now_s (op_risk_gate p))")
    case True
    then have "op_risk_gate (op_step c p) = fold rg_step [RG_Evaluate order now_s] (op_risk_gate p)" by simp
    then show ?thesis ..
  next
    case False
    then have "op_risk_gate (op_step c p)
      = fold rg_step [RG_Evaluate order now_s, RG_Release (no_exchange_id order)] (op_risk_gate p)"
      using OP_New by (simp add: op_on_new_order_def Let_def split_beta split: option.splits if_splits)
    then show ?thesis ..
  qed
next
  case (OP_CancelAll cancel_all)
  show ?thesis
  proof (cases "ca_exchange_id cancel_all = EX_ALL")
    case True
    then have "op_risk_gate (op_step c p) = fold rg_step [RG_Disable] (op_risk_gate p)"
      using OP_CancelAll by (simp add: op_on_cancel_all_def Let_def cancel_fold_frame)
    then show ?thesis ..
  next
    case False
    then have "op_risk_gate (op_step c p) = fold rg_step [] (op_risk_gate p)"
      using OP_CancelAll by (simp add: op_on_cancel_all_def split: option.splits)
    then show ?thesis ..
  qed
next
  case (OP_Stale timeout now)
  let ?stale = "sm_check_stale now timeout (op_state_mgr p)"
  have "fold rg_step (map (\<lambda>st. RG_Release (os_exchange_id st)) sts) g
    = fold (\<lambda>st. rg_release_slot (os_exchange_id st)) sts g" for sts :: "order_state list" and g
    by (induction sts arbitrary: g) simp_all
  then have "op_risk_gate (op_step c p)
    = fold rg_step (map (\<lambda>st. RG_Release (os_exchange_id st)) ?stale) (op_risk_gate p)"
    using OP_Stale by (simp add: op_check_stale_orders_def Let_def stale_fold_frame)
  then show ?thesis ..
qed (auto simp: op_on_cancel_def op_on_modify_def intro!: exI [of _ "[]"] split: option.splits)

lemma op_run_gate: "\<exists>cs'. op_risk_gate (fold op_step cs p) = fold rg_step cs' (op_risk_gate p)"
proof (induction cs arbitrary: p)
  case Nil
  show ?case by (intro exI [of _ "[]"]) simp
next
  case (Cons c cs)
  obtain cs1 where 1: "op_risk_gate (op_step c p) = fold rg_step cs1 (op_risk_gate p)" using op_step_gate by blast
  obtain cs2 where 2: "op_risk_gate (fold op_step cs (op_step c p)) = fold rg_step cs2 (op_risk_gate (op_step c p))"
    using Cons.IH by blast
  have "op_risk_gate (fold op_step (c # cs) p) = fold rg_step (cs1 @ cs2) (op_risk_gate p)"
    using 1 2 by simp
  then show ?case ..
qed

text \<open>The gate's own invariant.\<close>

lemma pt_inv_on_fill: "pt_inv t \<Longrightarrow> pt_inv (pt_on_fill e i sd pr q ts t)"
  using pt_inv_step [of t "\<lparr>fc_exchange = e, fc_instrument = i, fc_side = sd, fc_price_e8 = pr,
    fc_qty_e8 = q, fc_ts_ns = ts\<rparr>"] by (simp add: pt_step_def)

lemma rc_inv_trading: "rc_inv s \<Longrightarrow> rc_inv (rc_set_trading_enabled b s)"
  by (simp add: rc_inv_def rc_set_trading_enabled_def)

lemma rg_inv_record: "rg_inv g \<Longrightarrow> rg_inv (rg_record_outcome e g)"
  by (simp add: rg_inv_def rg_record_outcome_def Let_def rc_inv_trading)

lemma rg_inv_book: "rg_inv g \<Longrightarrow> rg_inv (rg_book_fill e g)"
proof -
  have roll: "pt_inv t \<Longrightarrow> pt_inv (pt_roll_day n t)" for n t by (simp add: pt_inv_def)
  have "rg_inv g' \<Longrightarrow> rg_inv (rg_check_daily_loss n g')" for n g'
    by (simp add: rg_check_daily_loss_def pt_daily_realized_pnl_usd_def Let_def rg_inv_def roll rc_inv_trading)
  then show "rg_inv g \<Longrightarrow> rg_inv (rg_book_fill e g)"
    by (simp add: rg_book_fill_def rg_inv_def pt_inv_on_fill)
qed

lemma rg_inv_step: "rg_inv g \<Longrightarrow> rg_inv (rg_step c g)"
proof (cases c)
  case (RG_Exec event)
  assume "rg_inv g"
  then have "rg_inv (rg_book_fill event (rg_record_outcome event g))" by (intro rg_inv_book rg_inv_record)
  then show ?thesis using RG_Exec
    by (simp add: rg_on_exec_event_def Let_def rg_release_slot_def rg_inv_def rc_inv_closed)
next
  case (RG_Evaluate order now_s)
  assume "rg_inv g" then show ?thesis using RG_Evaluate by (simp add: rg_evaluate_inv)
qed (simp_all add: rg_release_slot_def rg_disable_trading_def rc_inv_closed rc_inv_trading rg_inv_def)

interpretation rgc: component rg_step rg_inv
  by unfold_locales (rule rg_inv_step)

subsection \<open>The processor's invariant\<close>

definition op_inv :: "order_processor \<Rightarrow> bool" where
  "op_inv p \<longleftrightarrow> sm_inv (op_state_mgr p) \<and> rg_inv (op_risk_gate p) \<and>
     (\<forall>i st. sm_get i (op_state_mgr p) = Some st \<longrightarrow> is_open (os_lifecycle st))"

lemma op_inv_gate: "rg_inv (op_risk_gate p) \<Longrightarrow> rg_inv (op_risk_gate (op_step c p))"
  using op_step_gate [of c p] rgc.run_inv by metis

definition all_open :: "order_state_manager \<Rightarrow> bool" where
  "all_open m \<longleftrightarrow> sm_inv m \<and> (\<forall>i st. sm_get i m = Some st \<longrightarrow> is_open (os_lifecycle st))"

lemma sm_get_abs: "sm_get i m = sm_abs m i"
  by (simp add: sm_get_def sm_abs_def)

lemma all_open_insert: "all_open m \<Longrightarrow> is_open (os_lifecycle st) \<Longrightarrow> all_open (snd (sm_insert st m))"
  by (auto simp: all_open_def sm_get_abs sm_insert_spec split: if_splits)

lemma all_open_update: "all_open m \<Longrightarrow> is_open lc \<Longrightarrow> all_open (snd (sm_update i lc x f r t m))"
  by (auto simp: all_open_def sm_get_abs sm_update_spec sm_abs_update split: if_splits)

lemma all_open_update_remove: "all_open m \<Longrightarrow> all_open (sm_remove i (snd (sm_update i lc x f r t m)))"
  by (auto simp: all_open_def sm_get_abs sm_update_spec sm_abs_update sm_remove_spec split: if_splits)

lemma all_open_remove: "all_open m \<Longrightarrow> all_open (sm_remove i m)"
  by (auto simp: all_open_def sm_get_abs sm_remove_spec split: if_splits)

lemma lifecycle_open:
  "is_open (exec_status_to_lifecycle st) \<longleftrightarrow> \<not> is_terminal st"
  "exec_status_to_lifecycle st = OL_FILLED \<or> exec_status_to_lifecycle st = OL_CANCELLED
     \<or> exec_status_to_lifecycle st = OL_REJECTED \<longleftrightarrow> is_terminal st"
  by (cases st; simp add: is_open_def is_terminal_def)+

lemma op_state_step: "all_open (op_state_mgr p) \<Longrightarrow> all_open (op_state_mgr (op_step c p))"
proof (cases c)
  case (OP_Exec event now)
  assume "all_open (op_state_mgr p)"
  then show ?thesis using OP_Exec
    by (simp add: op_on_exec_event_def Let_def lifecycle_open all_open_update all_open_update_remove)
next
  case (OP_New order now_s now)
  assume "all_open (op_state_mgr p)"
  moreover have "is_open (os_lifecycle (to_order_state order now))"
    by (simp add: to_order_state_def is_open_def)
  ultimately show ?thesis using OP_New
    by (simp add: op_on_new_order_def Let_def split_beta all_open_insert split: option.splits)
next
  case (OP_Stale timeout now)
  assume "all_open (op_state_mgr p)"
  moreover have "all_open m \<Longrightarrow> all_open (fold sm_remove is m)" for m "is"
    by (induction "is" arbitrary: m) (simp_all add: all_open_remove)
  ultimately show ?thesis using OP_Stale
    by (simp add: op_check_stale_orders_def Let_def stale_fold_frame)
qed (simp_all add: op_on_cancel_def op_on_modify_def op_on_cancel_all_def Let_def cancel_fold_frame
    split: option.splits)

lemma op_inv_step: "op_inv p \<Longrightarrow> op_inv (op_step c p)"
  using op_state_step [of p c] op_inv_gate [of p c] by (simp add: op_inv_def all_open_def)

interpretation op: component op_step op_inv
  by unfold_locales (rule op_inv_step)

lemma op_inv_init: "rg_inv g \<Longrightarrow> op_inv (op_init g adapters)"
  by (simp add: op_inv_def op_init_def sm_inv_init sm_get_def) (simp add: sm_init_def)

subsection \<open>Reports\<close>

definition op_reports :: "op_call \<Rightarrow> order_processor \<Rightarrow> exec_report list" where
  "op_reports c p = (case c of OP_Exec event now \<Rightarrow> [to_report event] | _ \<Rightarrow> [])"

lemma op_published_step: "\<exists>more. op_published (op_step c p) = op_published p @ op_reports c p @ more"
  by (cases c) (auto simp: op_reports_def op_on_exec_event_def op_on_new_order_def op_on_cancel_def
      op_on_cancel_all_def op_on_modify_def op_check_stale_orders_def cancel_fold_frame stale_fold_frame
      Let_def split_beta split: option.splits)

subsection \<open>Properties\<close>

text \<open>A fresh gateway: its limits, its adapters.\<close>

definition fresh_gate :: "double \<Rightarrow> double \<Rightarrow> u32 \<Rightarrow> u32 \<Rightarrow> double \<Rightarrow> double \<Rightarrow> rrb_config \<Rightarrow> risk_gate" where
  "fresh_gate max_size max_notional max_open max_rate max_pos max_loss breaker =
     rg_init (rc_init max_size max_notional max_open max_rate) pt_init max_pos max_loss breaker"

lemma fresh_gate_inv: "rg_inv (fresh_gate a b c d e f g)"
  by (simp add: fresh_gate_def rg_inv_def rg_init_def rc_inv_init pt_inv_def pt_init_def)

lemma op_init_gate: "op_risk_gate (op_init g adapters) = g"
  by (simp add: op_init_def)

lemma op_reached_inv: "op_inv (fold op_step cs (op_init (fresh_gate a b c d e f g) adapters))"
  by (rule op.run_inv [OF op_inv_init [OF fresh_gate_inv]])

text \<open>
  C1: every new order gets exactly one answer. In any state the gateway
  can reach, either the order is handed, once and as it was requested, to the connected,
  un-halted adapter of its venue, is in the state manager, and holds one risk slot; or exactly
  one REJECTED report with its id is published and no adapter, no tracked order and no slot
  counter has changed.
\<close>
theorem op_new_order_answered:
  assumes "p = fold op_step cs (op_init (fresh_gate a b c d e f g) adapters)"
    and "p' = op_on_new_order order now_s now p"
  shows "(\<exists>i. find_adapter (no_exchange_id order) p = Some i \<and>
        oa_connected (op_adapters p ! i) \<and> \<not> oa_is_halted (op_adapters p ! i) \<and>
        op_adapters p' = (op_adapters p)[i := oa_send_new_order order (op_adapters p ! i)] \<and>
        op_published p' = op_published p \<and>
        no_order_id order \<in> dom (sm_abs (op_state_mgr p')) \<and>
        rc_open_orders (rg_checker (op_risk_gate p'))
          = (rc_open_orders (rg_checker (op_risk_gate p)))[venue_idx (no_exchange_id order) :=
              rc_open_orders (rg_checker (op_risk_gate p)) ! venue_idx (no_exchange_id order) + 1])
   \<or> (\<exists>reason. op_published p' = op_published p @ [to_reject_report order reason now] \<and>
        op_adapters p' = op_adapters p \<and> op_state_mgr p' = op_state_mgr p \<and>
        rc_open_orders (rg_checker (op_risk_gate p')) = rc_open_orders (rg_checker (op_risk_gate p)))"
proof -
  have inv: "op_inv p" unfolding assms(1) by (rule op_reached_inv)
  then have g: "rg_inv (op_risk_gate p)" and m: "sm_inv (op_state_mgr p)" by (simp_all add: op_inv_def)
  let ?e = "no_exchange_id order"
  let ?p0 = "p\<lparr>op_metrics := (op_metrics p)\<lparr>gm_orders_received :=
    counter_inc (exchange_str ?e) (gm_orders_received (op_metrics p))\<rparr>\<rparr>"
  obtain verdict gate where ev: "rg_evaluate order now_s (op_risk_gate p) = (verdict, gate)"
    by (cases "rg_evaluate order now_s (op_risk_gate p)")
  note slots = rg_evaluate_slots [OF g, of order now_s]
  have find: "find_adapter ?e (p\<lparr>op_metrics := mm, op_risk_gate := gg\<rparr>) = find_adapter ?e p" for mm gg
    by (rule find_adapter_cong) simp
  show ?thesis
  proof (cases verdict)
    case (Some reason)
    then show ?thesis using ev slots assms(2) by (auto simp: op_on_new_order_def Let_def)
  next
    case None
    note adm = ev None
    have rel: "rc_open_orders (rg_checker (rg_release_slot ?e gate)) = rc_open_orders (rg_checker (op_risk_gate p))"
      using g adm by (cases rule: rg_evaluate_cases [of order now_s "op_risk_gate p"])
        (auto simp: rg_release_slot_def rg_inv_def rc_accept_slots)
    show ?thesis
    proof (cases "find_adapter ?e p")
      case None
      then show ?thesis using adm rel assms(2) by (auto simp: op_on_new_order_def Let_def find)
    next
      case (Some i)
      show ?thesis
      proof (cases "\<not> oa_connected (op_adapters p ! i) \<or> oa_is_halted (op_adapters p ! i)")
        case True
        then show ?thesis using adm rel Some assms(2) by (auto simp: op_on_new_order_def Let_def find)
      next
        case False
        have "os_order_id (to_order_state order now) = no_order_id order" by (simp add: to_order_state_def)
        then have dom: "no_order_id order \<in> dom (sm_abs (snd (sm_insert (to_order_state order now) (op_state_mgr p))))"
          using sm_insert_spec(3) [OF m, of "to_order_state order now"] by auto
        show ?thesis
          using adm slots Some False assms(2) dom
          by (intro disjI1 exI [of _ i]) (simp add: op_on_new_order_def Let_def find with_adapter_def)
      qed
    qed
  qed
qed


text \<open>
  C6: the gateway tracks live orders and nothing else. In any state it can
  reach, every tracked order is open (pending, acked or partially filled), terminal orders are
  gone, and \<open>total_open_orders\<close> is the number of tracked orders (modulo the counter's width).
\<close>
theorem op_tracks_open_orders:
  assumes "p = fold op_step cs (op_init (fresh_gate a b c d e f g) adapters)"
  shows "(\<forall>i st. sm_get i (op_state_mgr p) = Some st \<longrightarrow> is_open (os_lifecycle st)) \<and>
    sm_total_open (op_state_mgr p) = of_nat (card (dom (sm_abs (op_state_mgr p))))"
proof -
  have inv: "op_inv p" unfolding assms by (rule op_reached_inv)
  then have open_all: "\<forall>i st. sm_get i (op_state_mgr p) = Some st \<longrightarrow> is_open (os_lifecycle st)"
    and m: "sm_inv (op_state_mgr p)" by (simp_all add: op_inv_def)
  have "{k. \<exists>st. sm_abs (op_state_mgr p) k = Some st \<and> is_open (os_lifecycle st)} = dom (sm_abs (op_state_mgr p))"
    using open_all by (auto simp: sm_get_abs)
  then show ?thesis using open_all m sm_open_card [of "op_state_mgr p"] by (simp add: sm_inv_def)
qed

text \<open>
  Every execution event reaches the strategy. In any run, the reports
  published contain, unchanged and in their order, the reports of all execution events handled.
\<close>
theorem op_events_forwarded:
  "subseq [to_report event. OP_Exec event now \<leftarrow> cs] (op_published (fold op_step cs (op_init g adapters)))"
proof -
  have "\<exists>more. op_published (fold op_step cs p) = op_published p @ more \<and>
    subseq [to_report event. OP_Exec event now \<leftarrow> cs] more" for p
  proof (induction cs arbitrary: p)
    case (Cons c cs)
    obtain m1 where 1: "op_published (op_step c p) = op_published p @ op_reports c p @ m1"
      using op_published_step by blast
    obtain m2 where 2: "op_published (fold op_step cs (op_step c p)) = op_published (op_step c p) @ m2"
      and sub: "subseq [to_report event. OP_Exec event now \<leftarrow> cs] m2" using Cons.IH by blast
    have "subseq [to_report event. OP_Exec event now \<leftarrow> c # cs] ((op_reports c p @ m1) @ m2)"
      using sub by (cases c) (auto simp: op_reports_def intro: list_emb_append2)
    then show ?case using 1 2 by (intro exI [of _ "(op_reports c p @ m1) @ m2"]) simp
  qed simp
  from this [of "op_init g adapters"] show ?thesis by (auto simp: op_init_def)
qed

text \<open>
  The kill switch. A CancelAll for \<open>ALL\<close> disables trading at once and, for
  every order that is open then and whose venue has an adapter, leaves a CancelAll request for
  the order's instrument in the work queue of that adapter; nothing queued before is lost.
\<close>
theorem op_kill_switch:
  assumes "ca_exchange_id cancel_all = EX_ALL" "p' = op_on_cancel_all cancel_all p"
    and "st \<in> set (sm_for_each_open (op_state_mgr p))"
    and "find_adapter (os_exchange_id st) p = Some i" "i < length (op_adapters p)"
  shows "\<not> rc_trading_enabled (rg_checker (op_risk_gate p')) \<and>
    CancelAllRequest \<lparr>car_instrument_id = os_instrument_id st\<rparr>
      \<in> set (wq_items (oa_send_work_queue (op_adapters p' ! i))) \<and>
    set (wq_items (oa_send_work_queue (op_adapters p ! i)))
      \<subseteq> set (wq_items (oa_send_work_queue (op_adapters p' ! i)))"
proof -
  let ?items = "\<lambda>q. set (wq_items (oa_send_work_queue (op_adapters q ! i)))"
  have len: "length (op_adapters (op_kill_one s q)) = length (op_adapters q)" for s q
    by (simp add: op_kill_one_def with_adapter_def split: option.splits)
  have keep: "?items q \<subseteq> ?items (op_kill_one s q)" if "i < length (op_adapters q)" for s q
  proof (cases "find_adapter (os_exchange_id s) q")
    case (Some j)
    have "op_adapters (op_kill_one s q) ! i = (if j = i
        then oa_send_cancel_all (os_instrument_id s) (op_adapters q ! i) else op_adapters q ! i)"
      using Some that by (simp add: op_kill_one_def with_adapter_def)
    then show ?thesis by (simp add: oa_send_cancel_all_def wq_push_def) blast
  qed (simp add: op_kill_one_def)
  have mono: "i < length (op_adapters q) \<Longrightarrow> ?items q \<subseteq> ?items (fold op_kill_one sts q)" for sts q
  proof (induction sts arbitrary: q)
    case (Cons s sts)
    have "?items (op_kill_one s q) \<subseteq> ?items (fold op_kill_one sts (op_kill_one s q))"
      using Cons.prems by (intro Cons.IH) (simp add: len)
    with keep [OF Cons.prems] have "?items q \<subseteq> ?items (fold op_kill_one sts (op_kill_one s q))"
      by (rule subset_trans)
    then show ?case by simp
  qed simp
  have hit: "CancelAllRequest \<lparr>car_instrument_id = os_instrument_id st\<rparr> \<in> ?items (fold op_kill_one sts q)"
    if "st \<in> set sts" "i < length (op_adapters q)" "find_adapter (os_exchange_id st) q = Some i" for sts q
    using that
  proof (induction sts arbitrary: q)
    case (Cons s sts)
    have find: "find_adapter (os_exchange_id st) (op_kill_one s q) = Some i"
      using find_adapter_cong [of "op_kill_one s q" q] Cons.prems(3) cancel_fold_frame(4) [of "[s]" q] by simp
    show ?case
    proof (cases "st = s")
      case True
      have "CancelAllRequest \<lparr>car_instrument_id = os_instrument_id st\<rparr> \<in> ?items (op_kill_one s q)"
        using Cons.prems True by (simp add: op_kill_one_def with_adapter_def oa_send_cancel_all_def wq_push_def)
      then show ?thesis using mono [of "op_kill_one s q" sts] Cons.prems(2) by (auto simp: len)
    next
      case False
      then show ?thesis using Cons find by (simp add: len)
    qed
  qed simp
  let ?p = "p\<lparr>op_risk_gate := rg_disable_trading (op_risk_gate p)\<rparr>"
  have p': "p' = fold op_kill_one (sm_for_each_open (op_state_mgr p)) ?p"
    using assms(1,2) by (simp add: op_on_cancel_all_def Let_def)
  have "find_adapter (os_exchange_id st) ?p = Some i" using find_adapter_cong [of ?p p] assms(4) by simp
  moreover have "op_risk_gate p' = rg_disable_trading (op_risk_gate p)" by (simp add: p' cancel_fold_frame)
  ultimately show ?thesis
    using hit [OF assms(3), of ?p] mono [of ?p "sm_for_each_open (op_state_mgr p)"] assms(5)
    by (simp add: p' rg_disable_trading_def rc_set_trading_enabled_def)
qed

subsection \<open>A concrete gateway\<close>

definition demo_adapter :: order_adapter where
  "demo_adapter = \<lparr>oa_exchange_id = EX_OKX, oa_stop_flag = False, oa_connected = True,
     oa_disconnect_breaker = drb_init drb_default_config,
     oa_exec_queue = \<lparr>rq_head = 0, rq_tail = 0, rq_mask = 0, rq_slots = [blank_exec_event]\<rparr>,
     oa_rest_exec_queue = \<lparr>rq_head = 0, rq_tail = 0, rq_mask = 0, rq_slots = [blank_exec_event]\<rparr>,
     oa_send_work_queue = wq_init\<rparr>"

definition demo_gateway :: "u32 \<Rightarrow> order_adapter list \<Rightarrow> order_processor" where
  "demo_gateway max_open adapters =
     op_init (fresh_gate (dlit 1000) (dlit 1000) max_open 10 0 0 rrb_default_config) adapters"

definition demo_event :: "u64 \<Rightarrow> exec_status \<Rightarrow> u64 \<Rightarrow> exec_event" where
  "demo_event i st filled = blank_exec_event\<lparr>ev_order_id := i, ev_exchange_id := EX_OKX,
     ev_instrument_id := 7, ev_status := st, ev_price := 10000000000, ev_filled_qty := filled\<rparr>"

lemma op_new_order_answered_witness:
  "\<exists>reason. op_published (op_on_new_order (rg_demo_order 1) 4 9 (demo_gateway 3 [])) = [to_reject_report (rg_demo_order 1) reason 9]"
proof -
  have start: "demo_gateway 3 [] = fold op_step [] (op_init (fresh_gate (dlit 1000) (dlit 1000) 3 10 0 0 rrb_default_config) [])"
    by (simp add: demo_gateway_def)
  have "find_adapter EX_OKX (demo_gateway 3 []) = None" by code_simp
  moreover have "no_exchange_id (rg_demo_order 1) = EX_OKX" by (simp add: rg_demo_order_def)
  moreover have "op_published (demo_gateway 3 []) = []" by (simp add: demo_gateway_def op_init_def)
  moreover note op_new_order_answered [OF start refl, where order = "rg_demo_order 1" and now_s = 4 and now = 9]
  ultimately show ?thesis by simp
qed


lemma op_tracks_open_orders_witness:
  "sm_total_open (op_state_mgr (fold op_step [OP_New (rg_demo_order 1) 4 9] (demo_gateway 3 [demo_adapter])))
     = of_nat (card (dom (sm_abs (op_state_mgr (fold op_step [OP_New (rg_demo_order 1) 4 9] (demo_gateway 3 [demo_adapter]))))))"
  unfolding demo_gateway_def by (rule op_tracks_open_orders [OF refl, THEN conjunct2])

lemma op_kill_switch_witness:
  "CancelAllRequest \<lparr>car_instrument_id = 7\<rparr> \<in> set (wq_items (oa_send_work_queue (op_adapters
     (op_on_cancel_all \<lparr>ca_exchange_id = EX_ALL, ca_instrument_id = 0\<rparr>
       (fold op_step [OP_New (rg_demo_order 1) 4 9] (demo_gateway 3 [demo_adapter]))) ! 0)))"
proof -
  let ?p = "fold op_step [OP_New (rg_demo_order 1) 4 9] (demo_gateway 3 [demo_adapter])"
  have "sm_for_each_open (op_state_mgr ?p) = [to_order_state (rg_demo_order 1) 9]" by code_simp
  then have "to_order_state (rg_demo_order 1) 9 \<in> set (sm_for_each_open (op_state_mgr ?p))" by simp
  moreover have "find_adapter EX_OKX ?p = Some 0" "length (op_adapters ?p) = 1" by code_simp+
  moreover have "os_exchange_id (to_order_state (rg_demo_order 1) 9) = EX_OKX"
    "os_instrument_id (to_order_state (rg_demo_order 1) 9) = 7"
    by (simp_all add: to_order_state_def rg_demo_order_def)
  ultimately show ?thesis
    using op_kill_switch [OF _ refl, of "\<lparr>ca_exchange_id = EX_ALL, ca_instrument_id = 0\<rparr>"
        "to_order_state (rg_demo_order 1) 9" ?p 0] by simp
qed

text \<open>What matters of a gateway with one adapter: limit, counter of the slot, tracked orders, requests queued.\<close>

record gateway_summary =
  sum_limit :: u32
  sum_open_counter :: u32
  sum_tracked :: "u64 list"
  sum_requests :: nat

definition gateway_summary :: "order_processor \<Rightarrow> gateway_summary" where
  "gateway_summary p =
     \<lparr>sum_limit = rc_max_open_orders_per_venue (rg_checker (op_risk_gate p)),
      sum_open_counter = rc_open_orders (rg_checker (op_risk_gate p)) ! venue_idx EX_OKX,
      sum_tracked = map fst (sm_orders (op_state_mgr p)),
      sum_requests = length (wq_items (oa_send_work_queue (op_adapters p ! 0)))\<rparr>"

text \<open>
  What a late event does to the open-order limit. An acked
  order that goes stale has its slot released and is forgotten; when its real terminal event
  arrives after all, the slot is released a second time, at the expense of an order that is still
  open. Here, with a limit of one open order, the gateway hands a second order to the venue while
  another one is live.
\<close>
theorem op_late_event_frees_slot_twice:
  "gateway_summary (fold op_step
       [OP_New (rg_demo_order 1) 4 9, OP_Exec (demo_event 1 ES_ACKED 0) 10, OP_Stale 5 100,
        OP_New (rg_demo_order 2) 5 101, OP_Exec (demo_event 1 ES_CANCELLED 0) 102,
        OP_New (rg_demo_order 3) 6 103] (demo_gateway 1 [demo_adapter]))
   = \<lparr>sum_limit = 1, sum_open_counter = 1, sum_tracked = [2, 3], sum_requests = 3\<rparr>"
  by code_simp

end
