(* ===== verification/Sorted_Ladder.thy ===== *)
theory Sorted_Ladder
  imports Prelude Binary64
begin

text \<open>
  The two sorted price ladders of the system: \<open>SortedLadder\<close> of the market-data gateway
  (\<open>src/bpt-md-gateway/include/md_gateway/md/sorted_ladder.h\<close>), a sorted vector searched by
  \<open>std::lower_bound\<close>, and the \<open>std::map<double, double, Compare>\<close> that it replaces and that
  \<open>OrderBookState\<close> still uses. Both are lists of (price, quantity) in the order of the comparator:
  \<open><\<close> for asks, \<open>>\<close> for bids.
\<close>

type_synonym level = "double \<times> double"

subsection \<open>\<open>std::lower_bound\<close>\<close>

fun lower_bound_loop :: "('e \<Rightarrow> 'v \<Rightarrow> bool) \<Rightarrow> 'e list \<Rightarrow> 'v \<Rightarrow> nat \<Rightarrow> nat \<Rightarrow> nat" where
  "lower_bound_loop cmp xs v first len =
     (if len = 0 then first
      else let half = len div 2; mid = first + half
           in if cmp (xs ! mid) v then lower_bound_loop cmp xs v (mid + 1) (len - half - 1)
              else lower_bound_loop cmp xs v first half)"

declare lower_bound_loop.simps [simp del]

definition lower_bound :: "('e \<Rightarrow> 'v \<Rightarrow> bool) \<Rightarrow> 'e list \<Rightarrow> 'v \<Rightarrow> nat" where
  "lower_bound cmp xs v = lower_bound_loop cmp xs v 0 (length xs)"

text \<open>On a range that the comparison partitions, the search finds the partition point.\<close>

definition partitioned :: "('e \<Rightarrow> 'v \<Rightarrow> bool) \<Rightarrow> 'e list \<Rightarrow> 'v \<Rightarrow> nat \<Rightarrow> bool" where
  "partitioned cmp xs v n \<longleftrightarrow> n \<le> length xs \<and> (\<forall>i < n. cmp (xs ! i) v) \<and>
     (\<forall>i. n \<le> i \<and> i < length xs \<longrightarrow> \<not> cmp (xs ! i) v)"

lemma lower_bound_loop_spec:
  assumes "partitioned cmp xs v n"
  shows "first \<le> n \<Longrightarrow> n \<le> first + len \<Longrightarrow> first + len \<le> length xs \<Longrightarrow>
    lower_bound_loop cmp xs v first len = n"
proof (induction len arbitrary: first rule: less_induct)
  case (less len)
  show ?case
  proof (cases "len = 0")
    case True
    then show ?thesis using less.prems by (simp add: lower_bound_loop.simps)
  next
    case False
    let ?half = "len div 2"
    have half: "?half < len" "len - ?half - 1 < len" "?half + 1 + (len - ?half - 1) = len" using False by auto
    show ?thesis
    proof (cases "cmp (xs ! (first + ?half)) v")
      case True
      then have "first + ?half < n"
        using assms less.prems half by (auto simp: partitioned_def not_le [symmetric])
      then have "lower_bound_loop cmp xs v (first + ?half + 1) (len - ?half - 1) = n"
        using less.prems half by (intro less.IH) auto
      then show ?thesis using True False by (simp add: lower_bound_loop.simps [of cmp xs v first] Let_def)
    next
      case no: False
      then have "n \<le> first + ?half" using assms by (auto simp: partitioned_def not_le [symmetric])
      then have "lower_bound_loop cmp xs v first ?half = n"
        using less.prems half by (intro less.IH) auto
      then show ?thesis using no False by (simp add: lower_bound_loop.simps [of cmp xs v first] Let_def)
    qed
  qed
qed

lemma lower_bound_spec: "partitioned cmp xs v n \<Longrightarrow> lower_bound cmp xs v = n"
  by (simp add: lower_bound_def lower_bound_loop_spec partitioned_def)

subsection \<open>The operations\<close>

text \<open>\<open>SortedLadder::apply\<close>; \<open>lt\<close> is \<open>Compare\<close>.\<close>

definition lad_apply :: "(double \<Rightarrow> double \<Rightarrow> bool) \<Rightarrow> double \<Rightarrow> double \<Rightarrow> level list \<Rightarrow> level list" where
  "lad_apply lt price qty data =
     (let it = lower_bound (\<lambda>lvl px. lt (fst lvl) px) data price;
          found = (it < length data \<and> d_eq (fst (data ! it)) price)
      in if d_eq qty 0 then (if found then take it data @ drop (it + 1) data else data)
         else if found then data[it := (fst (data ! it), qty)]
         else take it data @ (price, qty) # drop it data)"

definition lad_front :: "level list \<Rightarrow> level option" where
  "lad_front data = (case data of [] \<Rightarrow> None | l # _ \<Rightarrow> Some l)"

text \<open>
  The map: two keys are the same when neither is before the other. \<open>operator[]\<close> with
  assignment, \<open>erase\<close> and \<open>find\<close>.
\<close>

fun map_assign :: "(double \<Rightarrow> double \<Rightarrow> bool) \<Rightarrow> double \<Rightarrow> double \<Rightarrow> level list \<Rightarrow> level list" where
  "map_assign lt k v [] = [(k, v)]"
| "map_assign lt k v ((a, b) # m) =
     (if lt k a then (k, v) # (a, b) # m
      else if lt a k then (a, b) # map_assign lt k v m
      else (a, v) # m)"

fun map_erase :: "(double \<Rightarrow> double \<Rightarrow> bool) \<Rightarrow> double \<Rightarrow> level list \<Rightarrow> level list" where
  "map_erase lt k [] = []"
| "map_erase lt k ((a, b) # m) =
     (if \<not> lt k a \<and> \<not> lt a k then m else (a, b) # map_erase lt k m)"

fun map_find :: "(double \<Rightarrow> double \<Rightarrow> bool) \<Rightarrow> double \<Rightarrow> level list \<Rightarrow> double option" where
  "map_find lt k [] = None"
| "map_find lt k ((a, b) # m) = (if \<not> lt k a \<and> \<not> lt a k then Some b else map_find lt k m)"

subsection \<open>What both promise\<close>

definition ladder_sorted :: "(double \<Rightarrow> double \<Rightarrow> bool) \<Rightarrow> level list \<Rightarrow> bool" where
  "ladder_sorted lt m \<longleftrightarrow> sorted_wrt (\<lambda>a b. lt (fst a) (fst b)) m \<and> (\<forall>l \<in> set m. fst l \<noteq> NaN)"

text \<open>The abstract ladder is the map from prices to quantities.\<close>

definition ladder_set :: "double \<Rightarrow> double \<Rightarrow> (double \<rightharpoonup> double) \<Rightarrow> (double \<rightharpoonup> double)" where
  "ladder_set price qty m = m(price := if d_eq qty 0 then None else Some qty)"

locale ladder_order =
  fixes lt :: "double \<Rightarrow> double \<Rightarrow> bool"
  assumes lt_irrefl: "\<not> lt x x"
    and lt_trans: "lt x y \<Longrightarrow> lt y z \<Longrightarrow> lt x z"
    and lt_total: "x \<noteq> NaN \<Longrightarrow> y \<noteq> NaN \<Longrightarrow> lt x y \<or> x = y \<or> lt y x"
begin

lemma lt_asym: "lt x y \<Longrightarrow> \<not> lt y x"
  using lt_trans lt_irrefl by blast

lemma sorted_Cons: "ladder_sorted lt (l # m) \<longleftrightarrow> (\<forall>l' \<in> set m. lt (fst l) (fst l')) \<and> fst l \<noteq> NaN \<and> ladder_sorted lt m"
  by (auto simp: ladder_sorted_def)

text \<open>The three parts of a sorted ladder around a price.\<close>

definition put :: "double \<Rightarrow> double \<Rightarrow> level list \<Rightarrow> level list" where
  "put p q m = filter (\<lambda>l. lt (fst l) p) m @ (p, q) # filter (\<lambda>l. lt p (fst l)) m"

definition del :: "double \<Rightarrow> level list \<Rightarrow> level list" where
  "del p m = filter (\<lambda>l. lt (fst l) p) m @ filter (\<lambda>l. lt p (fst l)) m"

lemma filter_lt_none: "\<forall>l \<in> set m. lt p (fst l) \<Longrightarrow> filter (\<lambda>l. lt (fst l) p) m = []"
  using lt_asym by (auto simp: filter_empty_conv)

lemma filter_lt_all: "\<forall>l \<in> set m. lt p (fst l) \<Longrightarrow> filter (\<lambda>l. lt p (fst l)) m = m"
  by (simp add: filter_True)

lemma map_assign_put: "ladder_sorted lt m \<Longrightarrow> k \<noteq> NaN \<Longrightarrow> map_assign lt k v m = put k v m"
proof (induction m)
  case Nil
  show ?case by (simp add: put_def)
next
  case (Cons l m)
  obtain a b where l: "l = (a, b)" by (cases l)
  have s: "ladder_sorted lt m" "\<forall>l \<in> set m. lt a (fst l)" "a \<noteq> NaN" using Cons.prems(1) by (auto simp: sorted_Cons l)
  consider "lt k a" | "lt a k" | "a = k" using lt_total [OF Cons.prems(2) s(3)] by auto
  then show ?case
  proof cases
    case 1
    then have "\<forall>l \<in> set m. lt k (fst l)" using s(2) lt_trans by blast
    then show ?thesis using 1 lt_asym [OF 1] by (simp add: l put_def filter_lt_none filter_lt_all)
  next
    case 2
    then show ?thesis using lt_asym [OF 2] Cons.IH [OF s(1) Cons.prems(2)] by (simp add: l put_def)
  next
    case 3
    then show ?thesis using s(2) by (simp add: l put_def lt_irrefl filter_lt_none filter_lt_all)
  qed
qed

lemma map_erase_del: "ladder_sorted lt m \<Longrightarrow> k \<noteq> NaN \<Longrightarrow> map_erase lt k m = del k m"
proof (induction m)
  case Nil
  show ?case by (simp add: del_def)
next
  case (Cons l m)
  obtain a b where l: "l = (a, b)" by (cases l)
  have s: "ladder_sorted lt m" "\<forall>l \<in> set m. lt a (fst l)" "a \<noteq> NaN" using Cons.prems(1) by (auto simp: sorted_Cons l)
  consider "lt k a" | "lt a k" | "a = k" using lt_total [OF Cons.prems(2) s(3)] by auto
  then show ?case
  proof cases
    case 1
    then have "\<forall>l \<in> set m. lt k (fst l)" using s(2) lt_trans by blast
    then show ?thesis using 1 lt_asym [OF 1] Cons.IH [OF s(1) Cons.prems(2)]
      by (simp add: l del_def filter_lt_none filter_lt_all)
  next
    case 2
    then show ?thesis using lt_asym [OF 2] Cons.IH [OF s(1) Cons.prems(2)] by (simp add: l del_def)
  next
    case 3
    then show ?thesis using s(2) by (simp add: l del_def lt_irrefl filter_lt_none filter_lt_all)
  qed
qed

lemma sorted_filter: "ladder_sorted lt m \<Longrightarrow> ladder_sorted lt (filter P m)"
  by (auto simp: ladder_sorted_def intro: sorted_wrt_filter)

lemma put_sorted: "ladder_sorted lt m \<Longrightarrow> p \<noteq> NaN \<Longrightarrow> ladder_sorted lt (put p q m)"
  using sorted_filter [of m "\<lambda>l. lt (fst l) p"] sorted_filter [of m "\<lambda>l. lt p (fst l)"]
  by (auto simp: ladder_sorted_def put_def sorted_wrt_append intro: lt_trans)

lemma del_sorted: "ladder_sorted lt m \<Longrightarrow> ladder_sorted lt (del p m)"
  using sorted_filter [of m "\<lambda>l. lt (fst l) p"] sorted_filter [of m "\<lambda>l. lt p (fst l)"]
  by (auto simp: ladder_sorted_def del_def sorted_wrt_append intro: lt_trans)

lemma map_of_filter_key:
  "map_of (filter (\<lambda>l. lt (fst l) p) m) k = (if lt k p then map_of m k else None)"
  "map_of (filter (\<lambda>l. lt p (fst l)) m) k = (if lt p k then map_of m k else None)"
  by (induction m) auto

lemma map_of_NaN: "ladder_sorted lt m \<Longrightarrow> map_of m NaN = None"
  by (auto simp: ladder_sorted_def map_of_eq_None_iff)

lemma put_map: "ladder_sorted lt m \<Longrightarrow> p \<noteq> NaN \<Longrightarrow> map_of (put p q m) = (map_of m)(p \<mapsto> q)"
proof
  fix k
  assume m: "ladder_sorted lt m" and p: "p \<noteq> NaN"
  show "map_of (put p q m) k = ((map_of m)(p \<mapsto> q)) k"
    using lt_total [OF _ p, of k] lt_asym [of k p] lt_irrefl map_of_NaN [OF m]
    by (cases "k = NaN") (auto simp: put_def map_add_def map_of_filter_key split: option.splits)
qed

lemma del_map: "ladder_sorted lt m \<Longrightarrow> p \<noteq> NaN \<Longrightarrow> map_of (del p m) = (map_of m)(p := None)"
proof
  fix k
  assume m: "ladder_sorted lt m" and p: "p \<noteq> NaN"
  show "map_of (del p m) k = ((map_of m)(p := None)) k"
    using lt_total [OF _ p, of k] lt_asym [of k p] lt_irrefl map_of_NaN [OF m]
    by (cases "k = NaN") (auto simp: del_def map_add_def map_of_filter_key split: option.splits)
qed

lemma map_find_map: "ladder_sorted lt m \<Longrightarrow> k \<noteq> NaN \<Longrightarrow> map_find lt k m = map_of m k"
proof (induction m)
  case (Cons l m)
  then show ?case using lt_total [of "fst l" k] lt_irrefl by (cases l) (auto simp: sorted_Cons)
qed simp

text \<open>The vector ladder is the same function.\<close>

lemma ladder_split:
  assumes "ladder_sorted lt m" "p \<noteq> NaN"
  obtains "m = filter (\<lambda>l. lt (fst l) p) m @ filter (\<lambda>l. lt p (fst l)) m"
  | q where "m = filter (\<lambda>l. lt (fst l) p) m @ (p, q) # filter (\<lambda>l. lt p (fst l)) m"
  using assms(1)
proof (induction m arbitrary: thesis)
  case (Cons l m)
  obtain a b where l: "l = (a, b)" by (cases l)
  have s: "ladder_sorted lt m" "\<forall>l \<in> set m. lt a (fst l)" "a \<noteq> NaN" using Cons.prems(3) by (auto simp: sorted_Cons l)
  consider "lt p a" | "lt a p" | "a = p" using lt_total [OF assms(2) s(3)] by auto
  then show ?case
  proof cases
    case 1
    then have "\<forall>l \<in> set m. lt p (fst l)" using s(2) lt_trans by blast
    then show ?thesis using 1 lt_asym [OF 1] by (intro Cons.prems(1)) (simp add: l filter_lt_none filter_lt_all)
  next
    case 2
    show ?thesis
    proof (rule Cons.IH)
      assume "m = filter (\<lambda>l. lt (fst l) p) m @ filter (\<lambda>l. lt p (fst l)) m"
      then show ?thesis using 2 lt_asym [OF 2] by (intro Cons.prems(1)) (simp add: l)
    next
      fix q
      assume "m = filter (\<lambda>l. lt (fst l) p) m @ (p, q) # filter (\<lambda>l. lt p (fst l)) m"
      then show ?thesis using 2 lt_asym [OF 2] by (intro Cons.prems(2) [of q]) (simp add: l)
    qed (rule s(1))
  next
    case 3
    then show ?thesis using s(2) by (intro Cons.prems(2) [of b]) (simp add: l lt_irrefl filter_lt_none filter_lt_all)
  qed
qed simp

lemma lower_bound_ladder:
  assumes "m = b @ r" "\<forall>l \<in> set b. lt (fst l) p" "\<forall>l \<in> set r. \<not> lt (fst l) p"
  shows "lower_bound (\<lambda>lvl px. lt (fst lvl) px) m p = length b"
  using assms by (intro lower_bound_spec) (auto simp: partitioned_def nth_append)

lemma lad_apply_absent:
  assumes "\<forall>l \<in> set b. lt (fst l) p" "\<forall>l \<in> set r. lt p (fst l)"
  shows "lad_apply lt p q (b @ r) = (if d_eq q 0 then b @ r else b @ (p, q) # r)"
proof -
  have "\<forall>l \<in> set r. \<not> lt (fst l) p" using assms(2) lt_asym by blast
  then have it: "lower_bound (\<lambda>lvl px. lt (fst lvl) px) (b @ r) p = length b"
    by (rule lower_bound_ladder [OF refl assms(1)])
  have "\<not> (length b < length (b @ r) \<and> d_eq (fst ((b @ r) ! length b)) p)"
    using assms(2) lt_irrefl by (cases r) (auto simp: d_eq_def)
  then show ?thesis unfolding lad_apply_def Let_def it by auto
qed

lemma lad_apply_present:
  assumes "\<forall>l \<in> set b. lt (fst l) p" "\<forall>l \<in> set r. lt p (fst l)" "p \<noteq> NaN"
  shows "lad_apply lt p q (b @ (p, q') # r) = (if d_eq q 0 then b @ r else b @ (p, q) # r)"
proof -
  have "\<forall>l \<in> set ((p, q') # r). \<not> lt (fst l) p" using assms(2) lt_asym lt_irrefl by auto
  then have it: "lower_bound (\<lambda>lvl px. lt (fst lvl) px) (b @ (p, q') # r) p = length b"
    by (rule lower_bound_ladder [OF refl assms(1)])
  then show ?thesis unfolding lad_apply_def Let_def it using assms(3) by (simp add: d_eq_def)
qed

lemma lad_apply_eq:
  assumes "ladder_sorted lt m" "p \<noteq> NaN"
  shows "lad_apply lt p q m = (if d_eq q 0 then del p m else put p q m)"
proof -
  let ?b = "filter (\<lambda>l. lt (fst l) p) m" and ?r = "filter (\<lambda>l. lt p (fst l)) m"
  have b: "\<forall>l \<in> set ?b. lt (fst l) p" and r: "\<forall>l \<in> set ?r. lt p (fst l)" by auto
  from assms show ?thesis
  proof (cases rule: ladder_split)
    case 1
    have "lad_apply lt p q m = lad_apply lt p q (?b @ ?r)" using 1 by (rule arg_cong)
    also have "\<dots> = (if d_eq q 0 then del p m else put p q m)"
      unfolding lad_apply_absent [OF b r] put_def del_def by (rule refl)
    finally show ?thesis .
  next
    case (2 q')
    have "lad_apply lt p q m = lad_apply lt p q (?b @ (p, q') # ?r)" using 2 by (rule arg_cong)
    also have "\<dots> = (if d_eq q 0 then del p m else put p q m)"
      unfolding lad_apply_present [OF b r assms(2)] put_def del_def by (rule refl)
    finally show ?thesis .
  qed
qed

lemma lad_apply_spec:
  assumes "ladder_sorted lt m" "p \<noteq> NaN"
  shows "ladder_sorted lt (lad_apply lt p q m)"
    and "map_of (lad_apply lt p q m) = ladder_set p q (map_of m)"
  using assms by (simp_all add: lad_apply_eq put_sorted del_sorted put_map del_map ladder_set_def)

lemma map_ops_sorted:
  assumes "ladder_sorted lt m" "p \<noteq> NaN"
  shows "ladder_sorted lt (map_assign lt p q m)" "ladder_sorted lt (map_erase lt p m)"
  using assms by (simp_all add: map_assign_put map_erase_del put_sorted del_sorted)

lemma map_ops_map:
  assumes "ladder_sorted lt m" "p \<noteq> NaN"
  shows "map_of (map_assign lt p q m) = (map_of m)(p \<mapsto> q)" "map_of (map_erase lt p m) = (map_of m)(p := None)"
  using assms by (simp_all add: map_assign_put map_erase_del put_map del_map)

text \<open>Each update of the vector is the assignment or the erasure of the map.\<close>

lemma lad_apply_map:
  assumes "ladder_sorted lt m" "p \<noteq> NaN"
  shows "lad_apply lt p q m = (if d_eq q 0 then map_erase lt p m else map_assign lt p q m)"
  using assms by (simp add: lad_apply_eq map_assign_put map_erase_del)

text \<open>The first level is the best one, and the levels before a price are those better than it.\<close>

lemma front_best: "ladder_sorted lt m \<Longrightarrow> m = l # m' \<Longrightarrow> k \<in> dom (map_of m) \<Longrightarrow> k = fst l \<or> lt (fst l) k"
  by (auto simp: sorted_Cons split: if_splits dest!: map_of_SomeD)

lemma takeWhile_better: "ladder_sorted lt m \<Longrightarrow> takeWhile (\<lambda>l. lt (fst l) p) m = filter (\<lambda>l. lt (fst l) p) m"
proof (induction m)
  case (Cons l m)
  have "filter (\<lambda>l. lt (fst l) p) m = []" if "\<not> lt (fst l) p"
    using that Cons.prems lt_trans by (fastforce simp: sorted_Cons filter_empty_conv)
  then show ?case using Cons by (simp add: sorted_Cons)
qed simp

end

subsection \<open>Asks ascend, bids descend\<close>

abbreviation ask_before :: "double \<Rightarrow> double \<Rightarrow> bool" where "ask_before \<equiv> (\<lambda>x y. x < y)"
abbreviation bid_before :: "double \<Rightarrow> double \<Rightarrow> bool" where "bid_before \<equiv> (\<lambda>x y. y < x)"

interpretation asks: ladder_order ask_before
  by unfold_locales (auto intro: d_less_trans dest: d_linear)

interpretation bids: ladder_order bid_before
  by unfold_locales (auto intro: d_less_trans dest: d_linear)

definition lad_updates :: "(double \<Rightarrow> double \<Rightarrow> bool) \<Rightarrow> level list \<Rightarrow> level list \<Rightarrow> level list" where
  "lad_updates lt us m = fold (\<lambda>(p, q). lad_apply lt p q) us m"

text \<open>
  A venue's ladder, kept as a sorted vector, is the price-to-quantity map of
  the updates. After any sequence of updates with numeric prices, both ladders are sorted best
  price first without duplicates, and the quantity at each price is that of the last update for
  it, a quantity of 0 having removed the level.
\<close>
theorem ladder_is_map:
  assumes "\<forall>(p, q) \<in> set us. p \<noteq> NaN"
  shows "ladder_sorted ask_before (lad_updates ask_before us []) \<and>
    ladder_sorted bid_before (lad_updates bid_before us []) \<and>
    map_of (lad_updates ask_before us []) = fold (\<lambda>(p, q). ladder_set p q) us Map.empty \<and>
    map_of (lad_updates bid_before us []) = fold (\<lambda>(p, q). ladder_set p q) us Map.empty"
proof -
  have run: "ladder_sorted lt (lad_updates lt us m) \<and>
      map_of (lad_updates lt us m) = fold (\<lambda>(p, q). ladder_set p q) us (map_of m)"
    if "ladder_order lt" "ladder_sorted lt m" for lt m
    using that(2) assms unfolding lad_updates_def
    by (induction us arbitrary: m)
      (auto simp: ladder_order.lad_apply_spec [OF that(1)] split: prod.splits)
  have "ladder_sorted lt []" for lt by (simp add: ladder_sorted_def)
  then show ?thesis
    using run [OF asks.ladder_order_axioms, of "[]"] run [OF bids.ladder_order_axioms, of "[]"] by simp
qed

lemma ladder_is_map_witness:
  "lad_updates bid_before [(Fin 3, Fin 1), (Fin 5, Fin 2), (Fin 4, Fin 7), (Fin 3, Fin 0)] []
     = [(Fin 5, Fin 2), (Fin 4, Fin 7)] \<and>
   map_of (lad_updates bid_before [(Fin 3, Fin 1), (Fin 5, Fin 2), (Fin 4, Fin 7), (Fin 3, Fin 0)] []) (Fin 4) = Some (Fin 7)"
proof
  show "lad_updates bid_before [(Fin 3, Fin 1), (Fin 5, Fin 2), (Fin 4, Fin 7), (Fin 3, Fin 0)] []
     = [(Fin 5, Fin 2), (Fin 4, Fin 7)]"
    by code_simp
  show "map_of (lad_updates bid_before [(Fin 3, Fin 1), (Fin 5, Fin 2), (Fin 4, Fin 7), (Fin 3, Fin 0)] []) (Fin 4) = Some (Fin 7)"
    using ladder_is_map [of "[(Fin 3, Fin 1), (Fin 5, Fin 2), (Fin 4, Fin 7), (Fin 3, Fin 0)]"]
    by (simp add: ladder_set_def)
qed

end
