(* ===== verification/Order_Book.thy ===== *)
theory Order_Book
  imports Sorted_Ladder
begin

text \<open>
  \<open>OrderBookState\<close> (\<open>src/bpt-common/src/book/order_book_state.cpp\<close>): the two-sided book of an
  instrument that the strategies fold from the frames of the market-data stream. Accessors
  that C++ leaves undefined on an empty side are \<open>None\<close> there.
\<close>

record order_book_state =
  ob_bids :: "level list"
  ob_asks :: "level list"
  ob_last_seq_num :: u64
  ob_last_update_ns :: u64

record md_order_book =
  mdb_bids :: "level list"
  mdb_asks :: "level list"
  mdb_seq_num :: u64
  mdb_timestamp_ns :: u64

definition ob_init :: order_book_state where
  "ob_init = \<lparr>ob_bids = [], ob_asks = [], ob_last_seq_num = 0, ob_last_update_ns = 0\<rparr>"

definition fold_into :: "(double \<Rightarrow> double \<Rightarrow> bool) \<Rightarrow> level list \<Rightarrow> level list \<Rightarrow> level list" where
  "fold_into lt deltas side =
     fold (\<lambda>(price, qty) side. if 0 < qty then map_assign lt price qty side else map_erase lt price side)
       deltas side"

definition ob_apply_levels ::
  "level list \<Rightarrow> level list \<Rightarrow> u64 \<Rightarrow> u64 \<Rightarrow> bool \<Rightarrow> order_book_state \<Rightarrow> order_book_state" where
  "ob_apply_levels bid_levels ask_levels seq_num timestamp_ns is_snapshot b =
     (let b = (if is_snapshot then b\<lparr>ob_bids := [], ob_asks := []\<rparr> else b)
      in b\<lparr>ob_bids := fold_into bid_before bid_levels (ob_bids b),
           ob_asks := fold_into ask_before ask_levels (ob_asks b),
           ob_last_seq_num := seq_num, ob_last_update_ns := timestamp_ns\<rparr>)"

definition ob_apply :: "md_order_book \<Rightarrow> bool \<Rightarrow> order_book_state \<Rightarrow> order_book_state" where
  "ob_apply book is_snapshot b =
     ob_apply_levels (mdb_bids book) (mdb_asks book) (mdb_seq_num book) (mdb_timestamp_ns book) is_snapshot b"

definition ob_reset :: "order_book_state \<Rightarrow> order_book_state" where
  "ob_reset b = b\<lparr>ob_bids := [], ob_asks := [], ob_last_seq_num := 0, ob_last_update_ns := 0\<rparr>"

definition ob_best_bid :: "order_book_state \<Rightarrow> double option" where
  "ob_best_bid b = map_option fst (lad_front (ob_bids b))"

definition ob_best_ask :: "order_book_state \<Rightarrow> double option" where
  "ob_best_ask b = map_option fst (lad_front (ob_asks b))"

definition ob_best_bid_qty :: "order_book_state \<Rightarrow> double option" where
  "ob_best_bid_qty b = map_option snd (lad_front (ob_bids b))"

definition ob_best_ask_qty :: "order_book_state \<Rightarrow> double option" where
  "ob_best_ask_qty b = map_option snd (lad_front (ob_asks b))"

definition ob_mid :: "order_book_state \<Rightarrow> double option" where
  "ob_mid b = (case (ob_best_bid b, ob_best_ask b) of
     (Some bid, Some ask) \<Rightarrow> Some (dlit (1 / 2) * (bid + ask)) | _ \<Rightarrow> None)"

definition ob_ready :: "order_book_state \<Rightarrow> bool" where
  "ob_ready b \<longleftrightarrow> ob_bids b \<noteq> [] \<and> ob_asks b \<noteq> []"

definition ob_size_at_bid :: "double \<Rightarrow> order_book_state \<Rightarrow> double" where
  "ob_size_at_bid price b = (case map_find bid_before price (ob_bids b) of None \<Rightarrow> 0 | Some q \<Rightarrow> q)"

definition ob_size_at_ask :: "double \<Rightarrow> order_book_state \<Rightarrow> double" where
  "ob_size_at_ask price b = (case map_find ask_before price (ob_asks b) of None \<Rightarrow> 0 | Some q \<Rightarrow> q)"

text \<open>The sums run up to \<open>lower_bound(price)\<close>, the first key not before the price.\<close>

definition ob_bid_vol_above :: "double \<Rightarrow> order_book_state \<Rightarrow> double" where
  "ob_bid_vol_above price b = foldl (+) 0 (map snd (takeWhile (\<lambda>l. bid_before (fst l) price) (ob_bids b)))"

definition ob_ask_vol_below :: "double \<Rightarrow> order_book_state \<Rightarrow> double" where
  "ob_ask_vol_below price b = foldl (+) 0 (map snd (takeWhile (\<lambda>l. ask_before (fst l) price) (ob_asks b)))"

definition ob_top_bids :: "nat \<Rightarrow> order_book_state \<Rightarrow> level list" where
  "ob_top_bids n b = take n (ob_bids b)"

definition ob_top_asks :: "nat \<Rightarrow> order_book_state \<Rightarrow> level list" where
  "ob_top_asks n b = take n (ob_asks b)"

subsection \<open>Folding frames\<close>

text \<open>The specification of one side: a map, updated level by level.\<close>

definition side_set :: "double \<Rightarrow> double \<Rightarrow> (double \<rightharpoonup> double) \<Rightarrow> (double \<rightharpoonup> double)" where
  "side_set price qty m = m(price := if 0 < qty then Some qty else None)"

definition side_ok :: "(double \<Rightarrow> double \<Rightarrow> bool) \<Rightarrow> level list \<Rightarrow> bool" where
  "side_ok lt m \<longleftrightarrow> ladder_sorted lt m \<and> (\<forall>l \<in> set m. 0 < snd l)"

definition numeric_prices :: "level list \<Rightarrow> bool" where
  "numeric_prices us \<longleftrightarrow> (\<forall>l \<in> set us. fst l \<noteq> NaN)"

context ladder_order
begin

lemma put_qty: "\<forall>l \<in> set m. 0 < snd l \<Longrightarrow> 0 < q \<Longrightarrow> \<forall>l \<in> set (put p q m). 0 < snd l"
  by (auto simp: put_def)

lemma del_qty: "\<forall>l \<in> set m. 0 < snd l \<Longrightarrow> \<forall>l \<in> set (del p m). 0 < snd l"
  by (auto simp: del_def)

lemma fold_into_side:
  assumes "side_ok lt m" "numeric_prices us"
  shows "side_ok lt (fold_into lt us m)"
    and "map_of (fold_into lt us m) = fold (\<lambda>(p, q). side_set p q) us (map_of m)"
proof -
  have "side_ok lt (fold_into lt us m) \<and> map_of (fold_into lt us m) = fold (\<lambda>(p, q). side_set p q) us (map_of m)"
    using assms
  proof (induction us arbitrary: m)
    case Nil
    then show ?case by (simp add: fold_into_def)
  next
    case (Cons u us)
    obtain p q where u: "u = (p, q)" by (cases u)
    let ?m = "if 0 < q then map_assign lt p q m else map_erase lt p m"
    have p: "p \<noteq> NaN" and us: "numeric_prices us" and m: "ladder_sorted lt m" "\<forall>l \<in> set m. 0 < snd l"
      using Cons.prems u by (auto simp: numeric_prices_def side_ok_def)
    have "side_ok lt ?m"
      using put_sorted [OF m(1) p, of q] map_ops_sorted(2) [OF m(1) p] put_qty [OF m(2), of q p] del_qty [OF m(2), of p]
        map_assign_put [OF m(1) p, of q] map_erase_del [OF m(1) p]
      by (simp add: side_ok_def)
    then have "side_ok lt (fold_into lt us ?m)"
      "map_of (fold_into lt us ?m) = fold (\<lambda>(p, q). side_set p q) us (map_of ?m)"
      using Cons.IH us by blast+
    moreover have "fold_into lt (u # us) m = fold_into lt us ?m" by (simp add: fold_into_def u)
    moreover have "map_of ?m = side_set p q (map_of m)"
      by (simp add: map_ops_map [OF m(1) p] side_set_def)
    ultimately show ?case by (simp add: u)
  qed
  then show "side_ok lt (fold_into lt us m)"
    and "map_of (fold_into lt us m) = fold (\<lambda>(p, q). side_set p q) us (map_of m)" by simp_all
qed

lemma fold_into_lad_updates:
  assumes "ladder_sorted lt m" "numeric_prices us" "\<forall>l \<in> set us. 0 \<le> snd l"
  shows "fold_into lt us m = fold (\<lambda>(p, q). lad_apply lt p q) us m"
  using assms
proof (induction us arbitrary: m)
  case (Cons u us)
  obtain p q where u: "u = (p, q)" by (cases u)
  have p: "p \<noteq> NaN" and q: "0 \<le> q" using Cons.prems u by (auto simp: numeric_prices_def)
  have "d_eq q 0 \<longleftrightarrow> \<not> 0 < q" using q by (cases q) (auto simp: d_eq_def)
  then have "(if 0 < q then map_assign lt p q m else map_erase lt p m) = lad_apply lt p q m"
    by (simp add: lad_apply_map [OF Cons.prems(1) p])
  moreover have "ladder_sorted lt (lad_apply lt p q m)" by (rule lad_apply_spec(1) [OF Cons.prems(1) p])
  ultimately show ?case
    using Cons.IH [of "lad_apply lt p q m"] Cons.prems(2,3) by (simp add: fold_into_def u numeric_prices_def)
qed (simp add: fold_into_def)

end

datatype ob_call =
    OB_Frame md_order_book bool
  | OB_Reset

fun ob_step :: "ob_call \<Rightarrow> order_book_state \<Rightarrow> order_book_state" where
  "ob_step (OB_Frame book snap) b = ob_apply book snap b"
| "ob_step OB_Reset b = ob_reset b"

fun numeric_call :: "ob_call \<Rightarrow> bool" where
  "numeric_call (OB_Frame book snap) \<longleftrightarrow> numeric_prices (mdb_bids book) \<and> numeric_prices (mdb_asks book)"
| "numeric_call OB_Reset \<longleftrightarrow> True"

text \<open>The specification of a call on the bids and the asks.\<close>

fun side_step :: "(md_order_book \<Rightarrow> level list) \<Rightarrow> ob_call \<Rightarrow> (double \<rightharpoonup> double) \<Rightarrow> (double \<rightharpoonup> double)" where
  "side_step sel (OB_Frame book snap) m = fold (\<lambda>(p, q). side_set p q) (sel book) (if snap then Map.empty else m)"
| "side_step sel OB_Reset m = Map.empty"

definition ob_ok :: "order_book_state \<Rightarrow> bool" where
  "ob_ok b \<longleftrightarrow> side_ok bid_before (ob_bids b) \<and> side_ok ask_before (ob_asks b)"

lemma side_ok_Nil [simp]: "side_ok lt []"
  by (simp add: side_ok_def ladder_sorted_def)

lemma ob_ok_init: "ob_ok ob_init"
  by (simp add: ob_ok_def ob_init_def)

lemma ob_step_spec:
  assumes "ob_ok b" "numeric_call c"
  shows "ob_ok (ob_step c b) \<and> map_of (ob_bids (ob_step c b)) = side_step mdb_bids c (map_of (ob_bids b)) \<and>
    map_of (ob_asks (ob_step c b)) = side_step mdb_asks c (map_of (ob_asks b))"
  using assms
  by (cases c) (auto simp: ob_ok_def ob_apply_def ob_apply_levels_def ob_reset_def Let_def
      bids.fold_into_side asks.fold_into_side)

lemma ob_run_spec:
  assumes "ob_ok b" "\<forall>c \<in> set cs. numeric_call c"
  shows "ob_ok (fold ob_step cs b) \<and>
    map_of (ob_bids (fold ob_step cs b)) = fold (side_step mdb_bids) cs (map_of (ob_bids b)) \<and>
    map_of (ob_asks (fold ob_step cs b)) = fold (side_step mdb_asks) cs (map_of (ob_asks b))"
  using assms
proof (induction cs arbitrary: b)
  case (Cons c cs)
  then show ?case using ob_step_spec [of b c] by simp
qed simp

subsection \<open>Properties\<close>

text \<open>
  C29: the book is the fold of its frames. After any sequence of snapshots, deltas
  and resets with numeric prices, the size reported at a price is that of its last update since
  the last snapshot or reset (0 when it was removed or never quoted), only positive sizes are
  kept, and the best bid and ask are the extreme prices quoted.
\<close>
theorem ob_is_folded_map:
  assumes "\<forall>c \<in> set cs. numeric_call c" "b = fold ob_step cs ob_init" "p \<noteq> NaN"
  shows "ob_size_at_bid p b = (case fold (side_step mdb_bids) cs Map.empty p of None \<Rightarrow> 0 | Some q \<Rightarrow> q) \<and>
    ob_size_at_ask p b = (case fold (side_step mdb_asks) cs Map.empty p of None \<Rightarrow> 0 | Some q \<Rightarrow> q) \<and>
    (\<forall>l \<in> set (ob_bids b @ ob_asks b). 0 < snd l) \<and>
    (\<forall>best k. ob_best_bid b = Some best \<and> k \<in> dom (fold (side_step mdb_bids) cs Map.empty) \<longrightarrow> k \<le> best) \<and>
    (\<forall>best k. ob_best_ask b = Some best \<and> k \<in> dom (fold (side_step mdb_asks) cs Map.empty) \<longrightarrow> best \<le> k)"
proof -
  have run: "ob_ok b" "map_of (ob_bids b) = fold (side_step mdb_bids) cs Map.empty"
    "map_of (ob_asks b) = fold (side_step mdb_asks) cs Map.empty"
    using ob_run_spec [OF ob_ok_init assms(1)] by (simp_all add: assms(2) ob_init_def)
  have s: "ladder_sorted bid_before (ob_bids b)" "ladder_sorted ask_before (ob_asks b)"
    using run(1) by (simp_all add: ob_ok_def side_ok_def)
  have "k \<le> best" if "ob_best_bid b = Some best" "k \<in> dom (map_of (ob_bids b))" for best k
    using that s(1) bids.front_best [OF s(1), of _ _ k]
    by (cases "ob_bids b") (auto simp: ob_best_bid_def lad_front_def ladder_sorted_def d_le_refl d_less_imp_le)
  moreover have "best \<le> k" if "ob_best_ask b = Some best" "k \<in> dom (map_of (ob_asks b))" for best k
    using that s(2) asks.front_best [OF s(2), of _ _ k]
    by (cases "ob_asks b") (auto simp: ob_best_ask_def lad_front_def ladder_sorted_def d_le_refl d_less_imp_le)
  moreover have "\<forall>l \<in> set (ob_bids b @ ob_asks b). 0 < snd l" using run(1) by (auto simp: ob_ok_def side_ok_def)
  ultimately show ?thesis
    unfolding run(2,3) [symmetric]
    by (auto simp: ob_size_at_bid_def ob_size_at_ask_def bids.map_find_map [OF s(1) assms(3)] asks.map_find_map [OF s(2) assms(3)])
qed

definition demo_frame :: md_order_book where
  "demo_frame = \<lparr>mdb_bids = [(Fin 5, Fin 2), (Fin 6, Fin 1)], mdb_asks = [(Fin 7, Fin 3)],
     mdb_seq_num = 1, mdb_timestamp_ns = 10\<rparr>"

definition demo_delta :: md_order_book where
  "demo_delta = \<lparr>mdb_bids = [(Fin 6, Fin 0)], mdb_asks = [(Fin 8, Fin 4)], mdb_seq_num = 2, mdb_timestamp_ns = 11\<rparr>"

lemma ob_is_folded_map_witness:
  "ob_size_at_bid (Fin 5) (fold ob_step [OB_Frame demo_frame True, OB_Frame demo_delta False] ob_init) = Fin 2 \<and>
   ob_size_at_bid (Fin 6) (fold ob_step [OB_Frame demo_frame True, OB_Frame demo_delta False] ob_init) = Fin 0"
proof -
  have "\<forall>c \<in> set [OB_Frame demo_frame True, OB_Frame demo_delta False]. numeric_call c"
    by (simp add: numeric_prices_def demo_frame_def demo_delta_def)
  from ob_is_folded_map [OF this refl, of "Fin 5"] ob_is_folded_map [OF this refl, of "Fin 6"] show ?thesis
    by (simp add: side_set_def demo_frame_def demo_delta_def)
qed

text \<open>
  C30: the gateway's vector ladder and the strategies' map book agree. For any
  updates with numeric prices and quantities that are not negative, folding them into the map is
  the same list of levels as applying them to the vector, from any sorted ladder, on both sides.
\<close>
theorem ladder_book_agree:
  assumes "numeric_prices us" "\<forall>l \<in> set us. 0 \<le> snd l"
    and "ladder_sorted bid_before m" "ladder_sorted ask_before n"
  shows "fold_into bid_before us m = lad_updates bid_before us m \<and>
    fold_into ask_before us n = lad_updates ask_before us n"
  using bids.fold_into_lad_updates [OF assms(3,1,2)] asks.fold_into_lad_updates [OF assms(4,1,2)]
  by (simp add: lad_updates_def)

lemma ladder_book_agree_witness:
  "fold_into bid_before [(Fin 5, Fin 2), (Fin 6, Fin 1), (Fin 5, Fin 0)] [] = [(Fin 6, Fin 1)] \<and>
   lad_updates bid_before [(Fin 5, Fin 2), (Fin 6, Fin 1), (Fin 5, Fin 0)] [] = [(Fin 6, Fin 1)]"
proof -
  have "fold_into bid_before [(Fin 5, Fin 2), (Fin 6, Fin 1), (Fin 5, Fin 0)] [] = [(Fin 6, Fin 1)]" by code_simp
  then show ?thesis
    using ladder_book_agree [of "[(Fin 5, Fin 2), (Fin 6, Fin 1), (Fin 5, Fin 0)]" "[]" "[]"]
    by (simp add: numeric_prices_def ladder_sorted_def)
qed

end
