(* ===== verification/Queue_Tracker.thy ===== *)
theory Queue_Tracker
  imports Order_Book Messages
begin

text \<open>
  \<open>QueueTracker\<close> (\<open>src/bpt-features/src/queue.cpp\<close>): for each resting order of the strategy an
  estimate of the volume in front of it, taken from the book when the order is acked and
  reduced by the trades that print at its price.
\<close>

record queue_entry =
  qe_side :: order_side
  qe_price :: double
  qe_our_qty :: double
  qe_queue_ahead :: double
  qe_placed_ns :: u64

type_synonym queue_tracker = "(u64, queue_entry) umap"

definition qt_track ::
  "u64 \<Rightarrow> order_side \<Rightarrow> double \<Rightarrow> double \<Rightarrow> u64 \<Rightarrow> order_book_state \<Rightarrow> queue_tracker \<Rightarrow> queue_tracker" where
  "qt_track order_id side price our_qty ts_ns book t =
     (let entry = (\<lambda>ahead_better at_level. \<lparr>qe_side = side, qe_price = price, qe_our_qty = our_qty,
            qe_queue_ahead = ahead_better + at_level, qe_placed_ns = ts_ns\<rparr>)
      in if side = BUY then
           AList.update order_id (entry (ob_bid_vol_above price book) (ob_size_at_bid price book)) t
         else if side = SELL then
           AList.update order_id (entry (ob_ask_vol_below price book) (ob_size_at_ask price book)) t
         else t)"

definition qt_on_fill :: "u64 \<Rightarrow> double \<Rightarrow> queue_tracker \<Rightarrow> queue_tracker" where
  "qt_on_fill order_id filled_qty t =
     (case map_of t order_id of
        None \<Rightarrow> t
      | Some e \<Rightarrow>
          let e = e\<lparr>qe_our_qty := qe_our_qty e - filled_qty\<rparr>
          in if qe_our_qty e \<le> 0 then AList.delete order_id t else AList.update order_id e t)"

definition qt_on_cancel :: "u64 \<Rightarrow> queue_tracker \<Rightarrow> queue_tracker" where
  "qt_on_cancel order_id t = AList.delete order_id t"

definition trade_entry :: "order_side \<Rightarrow> double \<Rightarrow> double \<Rightarrow> queue_entry \<Rightarrow> queue_entry" where
  "trade_entry passive_side trade_price trade_qty e =
     (if qe_side e \<noteq> passive_side then e
      else if \<not> d_eq (qe_price e) trade_price then e
      else e\<lparr>qe_queue_ahead := std_max 0 (qe_queue_ahead e - trade_qty)\<rparr>)"

definition qt_on_trade :: "order_side \<Rightarrow> double \<Rightarrow> double \<Rightarrow> queue_tracker \<Rightarrow> queue_tracker" where
  "qt_on_trade aggressor trade_price trade_qty t =
     (let passive_side = (if aggressor = BUY then SELL else BUY)
      in map (\<lambda>(k, e). (k, trade_entry passive_side trade_price trade_qty e)) t)"

definition qt_lookup :: "u64 \<Rightarrow> queue_tracker \<Rightarrow> queue_entry option" where
  "qt_lookup order_id t = map_of t order_id"

definition qt_fill_probability :: "u64 \<Rightarrow> queue_tracker \<Rightarrow> double" where
  "qt_fill_probability order_id t =
     (case qt_lookup order_id t of
        None \<Rightarrow> 0
      | Some e \<Rightarrow>
          if qe_our_qty e \<le> 0 then 0
          else let denom = qe_our_qty e + qe_queue_ahead e
               in if denom \<le> 0 then dlit 1 else qe_our_qty e div denom)"

subsection \<open>The estimate stays a quantity\<close>

datatype qt_call =
    QT_Track u64 order_side double double u64 order_book_state
  | QT_Fill u64 double
  | QT_Cancel u64
  | QT_Trade order_side double double

fun qt_step :: "qt_call \<Rightarrow> queue_tracker \<Rightarrow> queue_tracker" where
  "qt_step (QT_Track i sd p q ts b) t = qt_track i sd p q ts b t"
| "qt_step (QT_Fill i q) t = qt_on_fill i q t"
| "qt_step (QT_Cancel i) t = qt_on_cancel i t"
| "qt_step (QT_Trade a p q) t = qt_on_trade a p q t"

definition finite_double :: "double \<Rightarrow> bool" where
  "finite_double d \<longleftrightarrow> wf_double d \<and> d \<noteq> NaN \<and> d \<noteq> PInf \<and> d \<noteq> NInf"

fun sane_call :: "qt_call \<Rightarrow> bool" where
  "sane_call (QT_Track i sd p q ts b) \<longleftrightarrow> p \<noteq> NaN \<and> finite_double q \<and> ob_ok b"
| "sane_call (QT_Fill i q) \<longleftrightarrow> finite_double q \<and> 0 \<le> q"
| "sane_call _ \<longleftrightarrow> True"

definition entry_ok :: "queue_entry \<Rightarrow> bool" where
  "entry_ok e \<longleftrightarrow> finite_double (qe_our_qty e) \<and> 0 \<le> qe_queue_ahead e"

definition qt_ok :: "queue_tracker \<Rightarrow> bool" where
  "qt_ok t \<longleftrightarrow> (\<forall>(k, e) \<in> set t. entry_ok e)"

lemma d_add_nonneg: "Fin 0 \<le> a \<Longrightarrow> Fin 0 \<le> b \<Longrightarrow> Fin 0 \<le> a + b" for a b :: double
  by (cases a; cases b) (auto simp: plus_double_def to_double_nonneg)

lemma d_sum_nonneg: "Fin 0 \<le> a \<Longrightarrow> \<forall>x \<in> set xs. Fin 0 < x \<Longrightarrow> Fin 0 \<le> foldl (+) a xs" for a :: double
  by (induction xs arbitrary: a) (auto intro: d_add_nonneg d_less_imp_le)

lemma std_max_nonneg: "Fin 0 \<le> std_max (Fin 0) x" for x :: double
  by (cases x) (auto simp: std_max_def)

lemma finite_double_Fin: "finite_double d \<longleftrightarrow> (\<exists>x. d = Fin x \<and> wf_double d)"
  by (cases d) (auto simp: finite_double_def)

lemma vol_nonneg:
  assumes "ob_ok b" "p \<noteq> NaN"
  shows "0 \<le> ob_bid_vol_above p b" "0 \<le> ob_ask_vol_below p b" "0 \<le> ob_size_at_bid p b" "0 \<le> ob_size_at_ask p b"
proof -
  have q: "\<forall>l \<in> set (ob_bids b). 0 < snd l" "\<forall>l \<in> set (ob_asks b). 0 < snd l"
    and s: "ladder_sorted bid_before (ob_bids b)" "ladder_sorted ask_before (ob_asks b)"
    using assms(1) by (auto simp: ob_ok_def side_ok_def)
  show "0 \<le> ob_bid_vol_above p b"
    unfolding ob_bid_vol_above_def d_zero_simps by (rule d_sum_nonneg) (use q(1) in \<open>auto dest: set_takeWhileD\<close>)
  show "0 \<le> ob_ask_vol_below p b"
    unfolding ob_ask_vol_below_def d_zero_simps by (rule d_sum_nonneg) (use q(2) in \<open>auto dest: set_takeWhileD\<close>)
  show "0 \<le> ob_size_at_bid p b"
    using q(1) bids.map_find_map [OF s(1) assms(2)]
    by (auto simp: ob_size_at_bid_def d_less_imp_le dest!: map_of_SomeD split: option.splits)
  show "0 \<le> ob_size_at_ask p b"
    using q(2) asks.map_find_map [OF s(2) assms(2)]
    by (auto simp: ob_size_at_ask_def d_less_imp_le dest!: map_of_SomeD split: option.splits)
qed

lemma finite_sub:
  assumes "finite_double a" "finite_double f" "0 \<le> f" "\<not> a - f \<le> 0"
  shows "finite_double (a - f)"
proof -
  obtain x y where xy: "a = Fin x" "wf_double (Fin x)" "f = Fin y" using assms by (auto simp: finite_double_Fin)
  have "to_double (x - y) \<le> Fin x"
    using to_double_mono [of "x - y" x] to_double_wf [OF xy(2)] assms(3) xy(3) by simp
  then show ?thesis
    using assms(4) wf_to_double [of "x - y"] by (cases "to_double (x - y)") (auto simp: xy finite_double_def)
qed

lemma set_qt_update: "set (AList.update k v m) \<subseteq> insert (k, v) (set m)"
  by (induction m) auto

lemma set_qt_delete: "set (AList.delete k m) \<subseteq> set m"
  by (induction m) auto

lemma qt_ok_step: "qt_ok t \<Longrightarrow> sane_call c \<Longrightarrow> qt_ok (qt_step c t)"
proof (cases c)
  case (QT_Track i sd p q ts b)
  assume t: "qt_ok t" and "sane_call c"
  then show ?thesis using QT_Track vol_nonneg [of b p] d_add_nonneg
    by (auto simp: qt_ok_def qt_track_def Let_def entry_ok_def dest!: subsetD [OF set_qt_update])
next
  case (QT_Fill i q)
  assume t: "qt_ok t" and "sane_call c"
  then show ?thesis using QT_Fill finite_sub
    by (auto simp: qt_ok_def qt_on_fill_def Let_def entry_ok_def
        dest!: subsetD [OF set_qt_update] subsetD [OF set_qt_delete] map_of_SomeD split: option.splits)
next
  case (QT_Cancel i)
  assume "qt_ok t" then show ?thesis using QT_Cancel
    by (auto simp: qt_ok_def qt_on_cancel_def dest!: subsetD [OF set_qt_delete])
next
  case (QT_Trade a p q)
  assume "qt_ok t" then show ?thesis using QT_Trade std_max_nonneg
    by (fastforce simp: qt_ok_def qt_on_trade_def Let_def trade_entry_def entry_ok_def)
qed

lemma qt_ok_run: "qt_ok t \<Longrightarrow> \<forall>c \<in> set cs. sane_call c \<Longrightarrow> qt_ok (fold qt_step cs t)"
  by (induction cs arbitrary: t) (auto intro: qt_ok_step)

lemma share_bounds:
  assumes "entry_ok e" "\<not> qe_our_qty e \<le> 0"
  shows "0 \<le> qe_our_qty e div (qe_our_qty e + qe_queue_ahead e)"
    and "qe_our_qty e div (qe_our_qty e + qe_queue_ahead e) \<le> dlit 1"
proof -
  obtain x where x: "qe_our_qty e = Fin x" "wf_double (Fin x)" "0 < x"
    using assms by (auto simp: entry_ok_def finite_double_Fin)
  have one: "Fin 0 \<le> to_double 1" by (rule to_double_nonneg) simp
  have "Fin 0 \<le> Fin x div (Fin x + qe_queue_ahead e) \<and> Fin x div (Fin x + qe_queue_ahead e) \<le> dlit 1"
  proof (cases "qe_queue_ahead e")
    case (Fin y)
    have y: "0 \<le> y" using assms(1) Fin by (simp add: entry_ok_def)
    have ge: "Fin x \<le> to_double (x + y)"
      using to_double_mono [of x "x + y"] to_double_wf [OF x(2)] y by simp
    show ?thesis
    proof (cases "to_double (x + y)")
      case (Fin z)
      have "x \<le> z" "0 < z" using ge Fin x(3) by simp_all
      then have "0 \<le> x / z" "x / z \<le> 1" using x(3) by simp_all
      then show ?thesis
        using Fin \<open>qe_queue_ahead e = Fin y\<close> \<open>0 < z\<close> to_double_mono to_double_nonneg by (simp add: d_div_Fin)
    qed (use ge \<open>qe_queue_ahead e = Fin y\<close> one in \<open>simp_all add: divide_double_def\<close>)
  next
    case PInf
    then show ?thesis using one by (simp add: plus_double_def divide_double_def)
  qed (use assms(1) in \<open>simp_all add: entry_ok_def\<close>)
  then show "0 \<le> qe_our_qty e div (qe_our_qty e + qe_queue_ahead e)"
    and "qe_our_qty e div (qe_our_qty e + qe_queue_ahead e) \<le> dlit 1" by (simp_all add: x(1))
qed

lemma probability_bounds:
  assumes "qt_ok t"
  shows "0 \<le> qt_fill_probability i t \<and> qt_fill_probability i t \<le> dlit 1"
proof (cases "qt_lookup i t")
  case None
  then show ?thesis by (simp add: qt_fill_probability_def to_double_nonneg)
next
  case (Some e)
  then have "entry_ok e" using assms map_of_SomeD [of t i e] by (auto simp: qt_lookup_def qt_ok_def)
  note b = share_bounds [OF this]
  have one: "0 \<le> dlit 1" "dlit 1 \<le> dlit 1" using to_double_nonneg [of 1] by (simp_all add: d_le_refl)
  show ?thesis
    using b one unfolding qt_fill_probability_def Some option.case Let_def by (simp split: if_splits)
qed

subsection \<open>Properties\<close>

text \<open>
  The fill probability is a probability. In any run in which orders are
  tracked with finite quantities against well-formed books and fills are finite and not
  negative, whatever trades print (also with NaN or infinite quantities), the volume ahead of every
  tracked order is at least 0 and the reported fill probability lies between 0 and 1, in the
  machine's arithmetic: no rounding, overflow or NaN ever shows through.
\<close>
theorem qt_probability_bounds:
  assumes "\<forall>c \<in> set cs. sane_call c"
  shows "0 \<le> qt_fill_probability i (fold qt_step cs []) \<and> qt_fill_probability i (fold qt_step cs []) \<le> dlit 1 \<and>
    (\<forall>e. qt_lookup i (fold qt_step cs []) = Some e \<longrightarrow> 0 \<le> qe_queue_ahead e)"
proof -
  have ok: "qt_ok (fold qt_step cs [])" by (rule qt_ok_run [OF _ assms]) (simp add: qt_ok_def)
  then have "\<forall>e. qt_lookup i (fold qt_step cs []) = Some e \<longrightarrow> 0 \<le> qe_queue_ahead e"
    by (auto simp: qt_lookup_def qt_ok_def entry_ok_def dest!: map_of_SomeD)
  then show ?thesis using probability_bounds [OF ok] by simp
qed

definition demo_book :: order_book_state where
  "demo_book = ob_apply demo_frame True ob_init"

lemma demo_book_ok: "ob_ok demo_book"
  using ob_step_spec [OF ob_ok_init, of "OB_Frame demo_frame True"]
  by (simp add: demo_book_def demo_frame_def numeric_prices_def)

lemma qt_probability_bounds_witness:
  "qt_fill_probability 1 (fold qt_step [QT_Track 1 BUY (Fin 5) (Fin 1) 0 demo_book, QT_Trade SELL (Fin 5) NaN] []) \<le> dlit 1"
proof -
  have "wf_double (Fin 1)" by code_simp
  then have "finite_double (Fin 1)" unfolding finite_double_def by simp
  then show ?thesis
    using qt_probability_bounds [of "[QT_Track 1 BUY (Fin 5) (Fin 1) 0 demo_book, QT_Trade SELL (Fin 5) NaN]" 1]
    by (simp add: demo_book_ok)
qed

text \<open>
  Trades move exactly the orders they pass. A trade changes the entry of an
  order only when the order is on the passive side and at the traded price, where it takes the
  traded quantity off the volume ahead, down to 0; the entry's side, price, size and time stay.
\<close>
theorem qt_trades_reduce:
  "qt_lookup i (qt_on_trade aggressor px qty t) = map_option (\<lambda>e.
     if qe_side e = (if aggressor = BUY then SELL else BUY) \<and> d_eq (qe_price e) px
     then e\<lparr>qe_queue_ahead := (if 0 < qe_queue_ahead e - qty then qe_queue_ahead e - qty else 0)\<rparr> else e)
     (qt_lookup i t)"
proof -
  let ?passive = "if aggressor = BUY then SELL else BUY"
  have "qt_lookup i (qt_on_trade aggressor px qty t) = map_option (trade_entry ?passive px qty) (qt_lookup i t)"
    by (simp add: qt_lookup_def qt_on_trade_def Let_def map_of_map)
  moreover have "trade_entry ?passive px qty e = (if qe_side e = ?passive \<and> d_eq (qe_price e) px
      then e\<lparr>qe_queue_ahead := (if 0 < qe_queue_ahead e - qty then qe_queue_ahead e - qty else 0)\<rparr> else e)" for e
    unfolding trade_entry_def std_max_def by (cases "qe_side e = ?passive"; cases "d_eq (qe_price e) px"; simp only: simp_thms if_True if_False)
  ultimately show ?thesis by presburger
qed

end
