(* ===== verification/Md_Validator.thy ===== *)
theory Md_Validator
  imports Prelude Binary64 Sorted_Ladder
begin

text \<open>
  The normalised market-data types (\<open>src/bpt-md-gateway/include/md_gateway/md/md_types.h\<close>) and
  \<open>MdValidator\<close> (\<open>src/bpt-md-gateway/src/md/md_validator.cpp\<close>), the sanity checks between a
  venue's decoder and the publisher. The levels of a book, an \<open>InlineVec\<close>, are a list.
\<close>

definition kMaxBookLevels :: nat where "kMaxBookLevels = 20"

datatype trade_side = TRADE_BUY | TRADE_SELL

record md_bbo =
  bbo_timestamp_ns :: u64
  bbo_instrument_id :: u64
  bbo_bid_price :: double
  bbo_bid_qty :: double
  bbo_ask_price :: double
  bbo_ask_qty :: double

record md_trade =
  trd_timestamp_ns :: u64
  trd_instrument_id :: u64
  trd_price :: double
  trd_qty :: double
  trd_side :: trade_side

record md_book =
  bk_timestamp_ns :: u64
  bk_instrument_id :: u64
  bk_bids :: "level list"
  bk_asks :: "level list"

datatype validation_result = V_OK | V_DROP

record md_validator =
  mv_max_deviation_ratio :: double
  mv_last_mid :: "(u64, double) umap"
  mv_drop_count :: "(u64, u32) umap"

definition mv_make :: "double \<Rightarrow> md_validator" where
  "mv_make max_price_deviation_pct =
     \<lparr>mv_max_deviation_ratio = max_price_deviation_pct div dlit 100, mv_last_mid = [], mv_drop_count = []\<rparr>"

definition mv_reset :: "md_validator \<Rightarrow> md_validator" where
  "mv_reset v = v\<lparr>mv_last_mid := [], mv_drop_count := []\<rparr>"

text \<open>\<open>should_log\<close> counts the drop of an instrument and says whether it is logged.\<close>

definition should_log :: "u64 \<Rightarrow> (u64, u32) umap \<Rightarrow> bool \<times> (u64, u32) umap" where
  "should_log iid counts =
     (let n = (case map_of counts iid of None \<Rightarrow> 0 | Some c \<Rightarrow> c) + 1
      in (n = 1 \<or> n mod 100 = 0, AList.update iid n counts))"

definition mv_drop :: "u64 \<Rightarrow> md_validator \<Rightarrow> validation_result \<times> md_validator" where
  "mv_drop iid v = (V_DROP, v\<lparr>mv_drop_count := snd (should_log iid (mv_drop_count v))\<rparr>)"

definition mv_deviates :: "double \<Rightarrow> double \<Rightarrow> md_validator \<Rightarrow> bool" where
  "mv_deviates price lmid v \<longleftrightarrow> mv_max_deviation_ratio v < \<bar>price - lmid\<bar> div lmid"

definition validate_bbo :: "md_bbo \<Rightarrow> md_validator \<Rightarrow> validation_result \<times> md_validator" where
  "validate_bbo b v =
     (let iid = bbo_instrument_id b in
      if bbo_bid_price b \<le> 0 \<or> bbo_ask_price b \<le> 0 then mv_drop iid v
      else if bbo_bid_qty b \<le> 0 \<or> bbo_ask_qty b \<le> 0 then mv_drop iid v
      else if bbo_ask_price b \<le> bbo_bid_price b then mv_drop iid v
      else
        let mid = (bbo_bid_price b + bbo_ask_price b) * dlit (1 / 2) in
        case map_of (mv_last_mid v) iid of
          Some lmid \<Rightarrow>
            if mv_deviates mid lmid v then mv_drop iid v
            else (V_OK, v\<lparr>mv_last_mid := AList.update iid mid (mv_last_mid v)\<rparr>)
        | None \<Rightarrow> (V_OK, v\<lparr>mv_last_mid := AList.update iid mid (mv_last_mid v)\<rparr>))"

definition validate_trade :: "md_trade \<Rightarrow> md_validator \<Rightarrow> validation_result \<times> md_validator" where
  "validate_trade t v =
     (let iid = trd_instrument_id t in
      if trd_price t \<le> 0 then mv_drop iid v
      else if trd_qty t \<le> 0 then mv_drop iid v
      else
        case map_of (mv_last_mid v) iid of
          Some lmid \<Rightarrow> if mv_deviates (trd_price t) lmid v then mv_drop iid v else (V_OK, v)
        | None \<Rightarrow> (V_OK, v))"

text \<open>The two monotonicity loops: some level is not strictly beyond the one before it.\<close>

fun not_descending :: "level list \<Rightarrow> bool" where
  "not_descending (a # b # ls) \<longleftrightarrow> fst a \<le> fst b \<or> not_descending (b # ls)"
| "not_descending _ \<longleftrightarrow> False"

fun not_ascending :: "level list \<Rightarrow> bool" where
  "not_ascending (a # b # ls) \<longleftrightarrow> fst b \<le> fst a \<or> not_ascending (b # ls)"
| "not_ascending _ \<longleftrightarrow> False"

definition validate_book :: "md_book \<Rightarrow> md_validator \<Rightarrow> validation_result \<times> md_validator" where
  "validate_book b v =
     (let iid = bk_instrument_id b in
      case (bk_bids b, bk_asks b) of
        ((best_bid, _) # _, (best_ask, _) # _) \<Rightarrow>
          if best_bid \<le> 0 \<or> best_ask \<le> 0 then mv_drop iid v
          else if best_ask \<le> best_bid then mv_drop iid v
          else if not_descending (bk_bids b) then mv_drop iid v
          else if not_ascending (bk_asks b) then mv_drop iid v
          else
            (case map_of (mv_last_mid v) iid of
               Some lmid \<Rightarrow>
                 let mid = (best_bid + best_ask) * dlit (1 / 2)
                 in if mv_deviates mid lmid v then mv_drop iid v else (V_OK, v)
             | None \<Rightarrow> (V_OK, v))
      | _ \<Rightarrow> mv_drop iid v)"

subsection \<open>What a pass means\<close>

datatype md_msg = Bbo md_bbo | Trade md_trade | Book md_book

fun validate :: "md_msg \<Rightarrow> md_validator \<Rightarrow> validation_result \<times> md_validator" where
  "validate (Bbo b) v = validate_bbo b v"
| "validate (Trade t) v = validate_trade t v"
| "validate (Book b) v = validate_book b v"

fun msg_instrument :: "md_msg \<Rightarrow> u64" where
  "msg_instrument (Bbo b) = bbo_instrument_id b"
| "msg_instrument (Trade t) = trd_instrument_id t"
| "msg_instrument (Book b) = bk_instrument_id b"

fun msg_numeric :: "md_msg \<Rightarrow> bool" where
  "msg_numeric (Bbo b) \<longleftrightarrow> bbo_bid_price b \<noteq> NaN \<and> bbo_ask_price b \<noteq> NaN \<and> bbo_bid_qty b \<noteq> NaN \<and> bbo_ask_qty b \<noteq> NaN"
| "msg_numeric (Trade t) \<longleftrightarrow> trd_price t \<noteq> NaN \<and> trd_qty t \<noteq> NaN"
| "msg_numeric (Book b) \<longleftrightarrow> (\<forall>l \<in> set (bk_bids b @ bk_asks b). fst l \<noteq> NaN)"

text \<open>The quotes a consumer may rely on.\<close>

fun msg_sane :: "md_msg \<Rightarrow> bool" where
  "msg_sane (Bbo b) \<longleftrightarrow> 0 < bbo_bid_price b \<and> 0 < bbo_bid_qty b \<and> 0 < bbo_ask_qty b \<and> bbo_bid_price b < bbo_ask_price b"
| "msg_sane (Trade t) \<longleftrightarrow> 0 < trd_price t \<and> 0 < trd_qty t"
| "msg_sane (Book b) \<longleftrightarrow> bk_bids b \<noteq> [] \<and> bk_asks b \<noteq> [] \<and>
     ladder_sorted bid_before (bk_bids b) \<and> ladder_sorted ask_before (bk_asks b) \<and>
     0 < fst (hd (bk_asks b)) \<and> fst (hd (bk_bids b)) < fst (hd (bk_asks b))"

definition msg_mid :: "md_msg \<Rightarrow> double" where
  "msg_mid m = (case m of
     Bbo b \<Rightarrow> (bbo_bid_price b + bbo_ask_price b) * dlit (1 / 2)
   | Trade t \<Rightarrow> trd_price t
   | Book b \<Rightarrow> (fst (hd (bk_bids b)) + fst (hd (bk_asks b))) * dlit (1 / 2))"

lemma not_descending_sorted:
  "\<forall>l \<in> set ls. fst l \<noteq> NaN \<Longrightarrow> \<not> not_descending ls \<longleftrightarrow> ladder_sorted bid_before ls"
proof (induction ls rule: not_descending.induct)
  case (1 a b ls)
  then have "\<not> fst a \<le> fst b \<longleftrightarrow> fst b < fst a" using d_not_less [of "fst b" "fst a"] by auto
  then show ?case using 1 by (auto simp: bids.sorted_Cons intro: d_less_trans)
qed (auto simp: ladder_sorted_def)

lemma not_ascending_sorted:
  "\<forall>l \<in> set ls. fst l \<noteq> NaN \<Longrightarrow> \<not> not_ascending ls \<longleftrightarrow> ladder_sorted ask_before ls"
proof (induction ls rule: not_ascending.induct)
  case (1 a b ls)
  then have "\<not> fst b \<le> fst a \<longleftrightarrow> fst a < fst b" using d_not_less [of "fst a" "fst b"] by auto
  then show ?case using 1 by (auto simp: asks.sorted_Cons intro: d_less_trans)
qed (auto simp: ladder_sorted_def)

lemma pos_iff: "x \<noteq> NaN \<Longrightarrow> \<not> x \<le> Fin 0 \<longleftrightarrow> Fin 0 < x"
  by (cases x) auto

lemma not_le_iff: "x \<noteq> NaN \<Longrightarrow> y \<noteq> NaN \<Longrightarrow> \<not> x \<le> y \<longleftrightarrow> y < x" for x y :: double
  by (cases x; cases y) auto

lemma bbo_passes:
  assumes "validate_bbo b v = (V_OK, v')"
  shows "\<not> bbo_bid_price b \<le> 0" "\<not> bbo_ask_price b \<le> 0" "\<not> bbo_bid_qty b \<le> 0" "\<not> bbo_ask_qty b \<le> 0"
    "\<not> bbo_ask_price b \<le> bbo_bid_price b"
    "\<forall>lmid. map_of (mv_last_mid v) (bbo_instrument_id b) = Some lmid \<longrightarrow> \<not> mv_deviates (msg_mid (Bbo b)) lmid v"
    "v' = v\<lparr>mv_last_mid := AList.update (bbo_instrument_id b) (msg_mid (Bbo b)) (mv_last_mid v)\<rparr>"
  using assms unfolding validate_bbo_def Let_def mv_drop_def msg_mid_def
  by (simp_all split: if_splits option.splits)

lemma trade_passes:
  assumes "validate_trade t v = (V_OK, v')"
  shows "\<not> trd_price t \<le> 0" "\<not> trd_qty t \<le> 0" "v' = v"
    "\<forall>lmid. map_of (mv_last_mid v) (trd_instrument_id t) = Some lmid \<longrightarrow> \<not> mv_deviates (trd_price t) lmid v"
  using assms unfolding validate_trade_def Let_def mv_drop_def
  by (simp_all split: if_splits option.splits)

lemma book_passes:
  assumes "validate_book b v = (V_OK, v')"
  obtains bp bq bs ap aq as where "bk_bids b = (bp, bq) # bs" "bk_asks b = (ap, aq) # as"
    "\<not> bp \<le> 0" "\<not> ap \<le> 0" "\<not> ap \<le> bp" "\<not> not_descending (bk_bids b)" "\<not> not_ascending (bk_asks b)"
    "\<forall>lmid. map_of (mv_last_mid v) (bk_instrument_id b) = Some lmid \<longrightarrow> \<not> mv_deviates ((bp + ap) * dlit (1 / 2)) lmid v"
    "v' = v"
proof -
  obtain bp bq bs where b: "bk_bids b = (bp, bq) # bs"
    using assms unfolding validate_book_def Let_def mv_drop_def by (auto split: list.splits)
  obtain ap aq as where a: "bk_asks b = (ap, aq) # as"
    using assms unfolding validate_book_def Let_def mv_drop_def by (auto split: list.splits)
  show thesis
    by (rule that [OF b a]; use assms in \<open>simp add: validate_book_def Let_def mv_drop_def b a split: if_splits option.splits\<close>)
qed

subsection \<open>Properties\<close>

text \<open>
  What passes the validator is sane. A BBO, trade or book of numbers that is
  passed has positive prices and quantities, is not crossed, its book's sides are strictly
  sorted from the best price, and its price is within the permitted deviation of the last
  validated mid of its instrument. Only a BBO moves that mid, to its own.
\<close>
theorem mv_pass_is_sane:
  assumes "validate m v = (V_OK, v')" "msg_numeric m"
  shows "msg_sane m \<and>
    (\<forall>lmid. map_of (mv_last_mid v) (msg_instrument m) = Some lmid \<longrightarrow>
       \<not> mv_max_deviation_ratio v < \<bar>msg_mid m - lmid\<bar> div lmid) \<and>
    mv_last_mid v' = (case m of Bbo b \<Rightarrow> AList.update (bbo_instrument_id b) (msg_mid m) (mv_last_mid v) | _ \<Rightarrow> mv_last_mid v)"
proof (cases m)
  case (Bbo b)
  with assms bbo_passes [of b v v'] show ?thesis
    by (simp add: pos_iff not_le_iff mv_deviates_def)
next
  case (Trade t)
  with assms trade_passes [of t v v'] show ?thesis
    by (simp add: pos_iff mv_deviates_def msg_mid_def)
next
  case (Book b)
  from assms(1) Book have "validate_book b v = (V_OK, v')" by simp
  then show ?thesis
  proof (cases rule: book_passes)
    case (1 bp bq bs ap aq as)
    have num: "\<forall>l \<in> set (bk_bids b). fst l \<noteq> NaN" "\<forall>l \<in> set (bk_asks b). fst l \<noteq> NaN"
      using assms(2) Book by auto
    have "ladder_sorted bid_before (bk_bids b)" "ladder_sorted ask_before (bk_asks b)"
      using 1 not_descending_sorted [OF num(1)] not_ascending_sorted [OF num(2)] by blast+
    then show ?thesis using 1 num Book by (simp add: pos_iff not_le_iff mv_deviates_def msg_mid_def)
  qed
qed

definition demo_bbo :: "rat \<Rightarrow> rat \<Rightarrow> md_bbo" where
  "demo_bbo bid ask = \<lparr>bbo_timestamp_ns = 1, bbo_instrument_id = 7, bbo_bid_price = Fin bid,
     bbo_bid_qty = Fin 1, bbo_ask_price = Fin ask, bbo_ask_qty = Fin 1\<rparr>"

lemma mv_pass_is_sane_witness:
  "fst (validate (Bbo (demo_bbo 100 102)) (mv_make (Fin 10))) = V_OK \<and> msg_sane (Bbo (demo_bbo 100 102))"
proof -
  have ok: "fst (validate (Bbo (demo_bbo 100 102)) (mv_make (Fin 10))) = V_OK" by code_simp
  then have "validate (Bbo (demo_bbo 100 102)) (mv_make (Fin 10)) = (V_OK, snd (validate (Bbo (demo_bbo 100 102)) (mv_make (Fin 10))))"
    by (metis prod.collapse)
  from mv_pass_is_sane [OF this] ok show ?thesis by (simp add: demo_bbo_def)
qed

text \<open>
  NaN passes the validator and switches its price guard off. A BBO with
  a NaN price passes every comparison and becomes the last mid; from then on any uncrossed
  BBO of the instrument passes, however far its price has moved.
\<close>
theorem mv_nan_disables_guard:
  assumes "bbo_bid_price b = NaN" "\<not> bbo_ask_price b \<le> 0" "\<not> bbo_bid_qty b \<le> 0" "\<not> bbo_ask_qty b \<le> 0"
    and "bbo_instrument_id b' = bbo_instrument_id b"
    and "0 < bbo_bid_price b'" "bbo_bid_price b' < bbo_ask_price b'" "0 < bbo_bid_qty b'" "0 < bbo_ask_qty b'"
  shows "fst (validate_bbo b v) = V_OK \<and> fst (validate_bbo b' (snd (validate_bbo b v))) = V_OK"
proof -
  have mid: "(bbo_bid_price b + bbo_ask_price b) * dlit (1 / 2) = NaN" using assms(1) by simp
  have dev: "\<not> mv_deviates NaN lmid v'" "\<not> mv_deviates x NaN v'" for x lmid v' by (simp_all add: mv_deviates_def)
  have first: "validate_bbo b v = (V_OK, v\<lparr>mv_last_mid := AList.update (bbo_instrument_id b) NaN (mv_last_mid v)\<rparr>)"
    unfolding validate_bbo_def Let_def mid using assms(1-4) dev by (simp split: option.splits)
  have pos: "\<not> x \<le> Fin 0" if "Fin 0 < x" for x using that by (cases x) auto
  have le: "\<not> y \<le> x" if "x < y" for x y :: double using that by (cases x; cases y) auto
  have ask: "Fin 0 < bbo_ask_price b'" using assms(6,7) d_less_trans by auto
  have "fst (validate_bbo b' (snd (validate_bbo b v))) = V_OK"
    unfolding first snd_conv
    unfolding validate_bbo_def Let_def
    using assms(5-9) dev pos le ask by (simp split: option.splits)
  then show ?thesis using first by simp
qed

lemma mv_nan_disables_guard_witness:
  "fst (validate_bbo (demo_bbo 1000000 1000001) (snd (validate_bbo ((demo_bbo 100 102)\<lparr>bbo_bid_price := NaN\<rparr>)
     (snd (validate_bbo (demo_bbo 100 102) (mv_make (Fin 10))))))) = V_OK"
  using mv_nan_disables_guard [of "(demo_bbo 100 102)\<lparr>bbo_bid_price := NaN\<rparr>" "demo_bbo 1000000 1000001"]
  by (simp add: demo_bbo_def)

end
