(* ===== verification/Md_Publisher.thy ===== *)
theory Md_Publisher
  imports Md_Validator Rate_Breakers Order_Book
begin

text \<open>
  \<open>MdEncoder\<close> and \<open>MdPublisher\<close> of the market-data gateway
  (\<open>src/bpt-md-gateway/src/md/md_encoder.cpp\<close>,
  \<open>src/bpt-md-gateway/src/messaging/publishers/md_publisher.cpp\<close>): validation, the drop breaker,
  sequence numbers and counters on the way to the stream. Whether Aeron takes a message is an
  argument of each call; a message taken is recorded with its sequence number.
\<close>

subsection \<open>The order-book encoder\<close>

text \<open>The lengths that the schema gives \<open>MdOrderBook\<close>: header, block, group header, level.\<close>

definition sbe_header_len :: nat where "sbe_header_len = 8"
definition sbe_block_len :: nat where "sbe_block_len = 24"
definition sbe_group_header_len :: nat where "sbe_group_header_len = 4"
definition sbe_level_len :: nat where "sbe_level_len = 16"
definition kMaxOrderBookBufSize :: nat where "kMaxOrderBookBufSize = 2048"

text \<open>The bytes written (0: refused) and the message in the buffer.\<close>

definition md_encode :: "md_book \<Rightarrow> u64 \<Rightarrow> nat \<Rightarrow> nat \<times> md_order_book option" where
  "md_encode book seq_num capacity =
     (let n_bids = length (bk_bids book) mod 2 ^ 16;
          n_asks = length (bk_asks book) mod 2 ^ 16
      in if n_bids > kMaxBookLevels \<or> n_asks > kMaxBookLevels then (0, None)
         else
           let needed = sbe_header_len + sbe_block_len + sbe_group_header_len + n_bids * sbe_level_len
                  + sbe_group_header_len + n_asks * sbe_level_len
           in if capacity < needed then (0, None)
              else (needed, Some \<lparr>mdb_bids = take n_bids (bk_bids book), mdb_asks = take n_asks (bk_asks book),
                      mdb_seq_num = seq_num, mdb_timestamp_ns = bk_timestamp_ns book\<rparr>))"

subsection \<open>The publisher\<close>

datatype feed_msg =
    Feed_Bbo md_bbo u64
  | Feed_Trade md_trade u64
  | Feed_Book u64 md_order_book

fun feed_seq :: "feed_msg \<Rightarrow> u64" where
  "feed_seq (Feed_Bbo b s) = s"
| "feed_seq (Feed_Trade t s) = s"
| "feed_seq (Feed_Book i m) = mdb_seq_num m"

record md_publisher =
  mp_validator :: md_validator
  mp_breaker :: validation_drop_breaker
  mp_seq :: u64
  mp_published :: u64
  mp_backpressure_drops :: u64
  mp_validation_drops :: u64
  mp_feed :: "feed_msg list"

definition mp_make :: "double \<Rightarrow> vdb_config \<Rightarrow> md_publisher" where
  "mp_make max_price_deviation_pct breaker_cfg =
     \<lparr>mp_validator = mv_make max_price_deviation_pct, mp_breaker = vdb_init breaker_cfg, mp_seq = 0,
      mp_published = 0, mp_backpressure_drops = 0, mp_validation_drops = 0, mp_feed = []\<rparr>"

definition mp_reset_validator :: "md_publisher \<Rightarrow> md_publisher" where
  "mp_reset_validator p = p\<lparr>mp_validator := mv_reset (mp_validator p)\<rparr>"

definition check_breaker_or_drop :: "md_publisher \<Rightarrow> bool \<times> md_publisher" where
  "check_breaker_or_drop p =
     (if vdb_tripped (mp_breaker p) then (False, p\<lparr>mp_validation_drops := mp_validation_drops p + 1\<rparr>)
      else (True, p))"

definition record_validation_and_breaker :: "bool \<Rightarrow> u64 \<Rightarrow> md_publisher \<Rightarrow> md_publisher" where
  "record_validation_and_breaker is_drop now_ns p =
     (let p = p\<lparr>mp_breaker := vdb_record is_drop now_ns (mp_breaker p)\<rparr>
      in if is_drop then p\<lparr>mp_validation_drops := mp_validation_drops p + 1\<rparr> else p)"

definition record_backpressure_drop :: "md_publisher \<Rightarrow> md_publisher" where
  "record_backpressure_drop p = p\<lparr>mp_backpressure_drops := mp_backpressure_drops p + 1\<rparr>"

text \<open>The offer: \<open>ok\<close> is Aeron's answer.\<close>

definition offer :: "bool \<Rightarrow> feed_msg \<Rightarrow> md_publisher \<Rightarrow> md_publisher" where
  "offer ok m p =
     (if ok then p\<lparr>mp_published := mp_published p + 1, mp_feed := mp_feed p @ [m]\<rparr>
      else record_backpressure_drop p)"

text \<open>What follows a passed validation, for each of the three overloads.\<close>

fun send :: "md_msg \<Rightarrow> bool \<Rightarrow> md_publisher \<Rightarrow> md_publisher" where
  "send (Bbo b) ok p = (let seq = mp_seq p + 1 in offer ok (Feed_Bbo b seq) (p\<lparr>mp_seq := seq\<rparr>))"
| "send (Trade t) ok p = (let seq = mp_seq p + 1 in offer ok (Feed_Trade t seq) (p\<lparr>mp_seq := seq\<rparr>))"
| "send (Book b) ok p =
     (let seq = mp_seq p + 1; p = p\<lparr>mp_seq := seq\<rparr>
      in case md_encode b seq kMaxOrderBookBufSize of
           (len, Some m) \<Rightarrow> if len = 0 then p else offer ok (Feed_Book (bk_instrument_id b) m) p
         | (len, None) \<Rightarrow> p)"

definition mp_publish :: "md_msg \<Rightarrow> u64 \<Rightarrow> bool \<Rightarrow> md_publisher \<Rightarrow> md_publisher" where
  "mp_publish m now_ns ok p =
     (let (go, p) = check_breaker_or_drop p
      in if \<not> go then p
         else
           let (result, v) = validate m (mp_validator p);
               p = p\<lparr>mp_validator := v\<rparr>;
               is_drop = (result \<noteq> V_OK);
               p = record_validation_and_breaker is_drop now_ns p
           in if is_drop then p else send m ok p)"

subsection \<open>Runs\<close>

datatype mp_call = MP_Publish md_msg u64 bool | MP_Reset

fun mp_step :: "mp_call \<Rightarrow> md_publisher \<Rightarrow> md_publisher" where
  "mp_step (MP_Publish m now ok) p = mp_publish m now ok p"
| "mp_step MP_Reset p = mp_reset_validator p"

definition mp_inv :: "md_publisher \<Rightarrow> bool" where
  "mp_inv p \<longleftrightarrow> counts_agree (vdb_events (mp_breaker p)) (vdb_total (mp_breaker p)) (vdb_drops (mp_breaker p))"

lemma offer_frame [simp]:
  "mp_validator (offer ok m p) = mp_validator p" "mp_breaker (offer ok m p) = mp_breaker p"
  "mp_seq (offer ok m p) = mp_seq p" "mp_validation_drops (offer ok m p) = mp_validation_drops p"
  "mp_feed (offer ok m p) = mp_feed p @ (if ok then [m] else [])"
  by (simp_all add: offer_def record_backpressure_drop_def)

lemma send_frame [simp]:
  "mp_breaker (send m ok p) = mp_breaker p" "mp_seq (send m ok p) = mp_seq p + 1"
  "mp_validation_drops (send m ok p) = mp_validation_drops p"
  by (cases m; simp add: Let_def md_encode_def split_beta)+

lemma mp_publish_cases:
  obtains (tripped) "vdb_tripped (mp_breaker p)"
    "mp_publish m now ok p = p\<lparr>mp_validation_drops := mp_validation_drops p + 1\<rparr>"
  | (dropped) "\<not> vdb_tripped (mp_breaker p)" "fst (validate m (mp_validator p)) = V_DROP"
    "mp_publish m now ok p = p\<lparr>mp_validator := snd (validate m (mp_validator p)),
       mp_breaker := vdb_record True now (mp_breaker p), mp_validation_drops := mp_validation_drops p + 1\<rparr>"
  | (passed) "\<not> vdb_tripped (mp_breaker p)" "fst (validate m (mp_validator p)) = V_OK"
    "mp_publish m now ok p = send m ok (p\<lparr>mp_validator := snd (validate m (mp_validator p)),
       mp_breaker := vdb_record False now (mp_breaker p)\<rparr>)"
  by (cases "vdb_tripped (mp_breaker p)"; cases "fst (validate m (mp_validator p))")
    (auto simp: mp_publish_def check_breaker_or_drop_def record_validation_and_breaker_def Let_def split_beta)

lemma mp_inv_step: "mp_inv p \<Longrightarrow> mp_inv (mp_step c p)"
proof (cases c)
  case (MP_Publish m now ok)
  assume "mp_inv p"
  then show ?thesis using MP_Publish vdb.counts_rec [of "mp_breaker p"]
    by (cases rule: mp_publish_cases [of p m now ok]) (simp_all add: mp_inv_def)
qed (simp add: mp_inv_def mp_reset_validator_def)

lemma mp_tripped_step:
  "mp_inv p \<Longrightarrow> vdb_tripped (mp_breaker p) \<Longrightarrow> vdb_tripped (mp_breaker (mp_step c p))"
proof (cases c)
  case (MP_Publish m now ok)
  assume "vdb_tripped (mp_breaker p)"
  then show ?thesis using MP_Publish
    by (cases rule: mp_publish_cases [of p m now ok]) simp_all
qed (simp add: mp_reset_validator_def)

interpretation mp: latched_component mp_step mp_inv "\<lambda>p. vdb_tripped (mp_breaker p)"
  by unfold_locales (simp_all add: mp_inv_step mp_tripped_step)

lemma mp_feed_step:
  "mp_feed (mp_step c p) = mp_feed p \<or>
   (\<exists>m x now. c = MP_Publish m now True \<and> \<not> vdb_tripped (mp_breaker p) \<and>
      fst (validate m (mp_validator p)) = V_OK \<and> mp_seq (mp_step c p) = mp_seq p + 1 \<and>
      mp_feed (mp_step c p) = mp_feed p @ [x] \<and> feed_seq x = mp_seq p + 1)"
proof (cases c)
  case (MP_Publish m now ok)
  show ?thesis
  proof (cases rule: mp_publish_cases [of p m now ok])
    case passed
    then show ?thesis using MP_Publish by (cases m; cases ok) (auto simp: Let_def md_encode_def)
  qed (simp_all add: MP_Publish)
qed (simp add: mp_reset_validator_def)

lemma mp_tripped_feed: "vdb_tripped (mp_breaker p) \<Longrightarrow> mp_feed (mp_step c p) = mp_feed p"
  using mp_feed_step [of c p] by auto

lemma mp_seq_step: "mp_seq (mp_step c p) = mp_seq p \<or> mp_seq (mp_step c p) = mp_seq p + 1"
proof (cases c)
  case (MP_Publish m now ok)
  show ?thesis by (cases rule: mp_publish_cases [of p m now ok]) (simp_all add: MP_Publish)
qed (simp add: mp_reset_validator_def)

text \<open>Sequence numbers as a ghost count of the messages that passed validation.\<close>

definition seq_ok :: "md_publisher \<Rightarrow> nat \<Rightarrow> bool" where
  "seq_ok p n \<longleftrightarrow> mp_seq p = of_nat n \<and>
     (\<exists>ks. sorted_wrt (<) ks \<and> (\<forall>k \<in> set ks. 0 < k \<and> k \<le> n) \<and> map feed_seq (mp_feed p) = map of_nat ks)"

lemma seq_ok_step: "seq_ok p n \<Longrightarrow> seq_ok (mp_step c p) n \<or> seq_ok (mp_step c p) (n + 1)"
proof -
  assume p: "seq_ok p n"
  then obtain ks where ks: "sorted_wrt (<) ks" "\<forall>k \<in> set ks. 0 < k \<and> k \<le> n"
    "map feed_seq (mp_feed p) = map of_nat ks" and n: "mp_seq p = of_nat n" by (auto simp: seq_ok_def)
  have more: "\<forall>k \<in> set ks. 0 < k \<and> k \<le> n + 1" using ks(2) by auto
  show ?thesis
  proof (cases "mp_feed (mp_step c p) = mp_feed p")
    case True
    then show ?thesis using mp_seq_step [of c p] ks n more by (auto simp: seq_ok_def)
  next
    case False
    then obtain x where x: "mp_feed (mp_step c p) = mp_feed p @ [x]" "feed_seq x = mp_seq p + 1"
      "mp_seq (mp_step c p) = mp_seq p + 1" using mp_feed_step [of c p] by blast
    have "sorted_wrt (<) (ks @ [n + 1])" using ks(1,2) by (auto simp: sorted_wrt_append)
    moreover have "\<forall>k \<in> set (ks @ [n + 1]). 0 < k \<and> k \<le> n + 1" using more by simp
    moreover have "map feed_seq (mp_feed (mp_step c p)) = map of_nat (ks @ [n + 1])" using x ks(3) n by simp
    moreover have "mp_seq (mp_step c p) = of_nat (n + 1)" using x(3) n by simp
    ultimately show ?thesis unfolding seq_ok_def by blast
  qed
qed

lemma seq_ok_run: "seq_ok p n \<Longrightarrow> \<exists>n' \<le> n + length cs. seq_ok (fold mp_step cs p) n'"
proof (induction cs arbitrary: p n)
  case (Cons c cs)
  from seq_ok_step [OF Cons.prems, of c] show ?case
  proof
    assume "seq_ok (mp_step c p) n"
    then obtain n' where "n' \<le> n + length cs" "seq_ok (fold mp_step cs (mp_step c p)) n'" using Cons.IH by blast
    then show ?case by (intro exI [of _ n']) simp
  next
    assume "seq_ok (mp_step c p) (n + 1)"
    then obtain n' where "n' \<le> n + 1 + length cs" "seq_ok (fold mp_step cs (mp_step c p)) n'" using Cons.IH by blast
    then show ?case by (intro exI [of _ n']) simp
  qed
qed auto

subsection \<open>What is in the feed\<close>

text \<open>The capacity of \<open>InlineVec\<close>, which the type of a book's levels guarantees.\<close>

fun msg_fits :: "md_msg \<Rightarrow> bool" where
  "msg_fits (Book b) \<longleftrightarrow> length (bk_bids b) \<le> kMaxBookLevels \<and> length (bk_asks b) \<le> kMaxBookLevels"
| "msg_fits _ \<longleftrightarrow> True"

fun call_ok :: "mp_call \<Rightarrow> bool" where
  "call_ok (MP_Publish m now ok) \<longleftrightarrow> msg_numeric m \<and> msg_fits m"
| "call_ok MP_Reset \<longleftrightarrow> True"

fun feed_content :: "feed_msg \<Rightarrow> md_msg" where
  "feed_content (Feed_Bbo b s) = Bbo b"
| "feed_content (Feed_Trade t s) = Trade t"
| "feed_content (Feed_Book i m) = Book \<lparr>bk_timestamp_ns = mdb_timestamp_ns m, bk_instrument_id = i,
     bk_bids = mdb_bids m, bk_asks = mdb_asks m\<rparr>"

lemma md_encode_fits:
  assumes "length (bk_bids b) \<le> kMaxBookLevels" "length (bk_asks b) \<le> kMaxBookLevels"
  shows "md_encode b seq kMaxOrderBookBufSize = (40 + 16 * (length (bk_bids b) + length (bk_asks b)),
    Some \<lparr>mdb_bids = bk_bids b, mdb_asks = bk_asks b, mdb_seq_num = seq, mdb_timestamp_ns = bk_timestamp_ns b\<rparr>)"
proof -
  have "length (bk_bids b) \<le> 20" "length (bk_asks b) \<le> 20" using assms by (simp_all add: kMaxBookLevels_def)
  then show ?thesis
    by (simp add: md_encode_def Let_def kMaxBookLevels_def kMaxOrderBookBufSize_def sbe_header_len_def
        sbe_block_len_def sbe_group_header_len_def sbe_level_len_def)
qed

lemma send_fits:
  assumes "msg_fits m"
  shows "\<exists>x. send m ok p = offer ok x (p\<lparr>mp_seq := mp_seq p + 1\<rparr>) \<and> feed_content x = m \<and> feed_seq x = mp_seq p + 1"
  using assms by (cases m) (auto simp: Let_def md_encode_fits)

lemma mp_feed_sane_step:
  assumes "\<forall>x \<in> set (mp_feed p). msg_sane (feed_content x)" "call_ok c"
  shows "\<forall>x \<in> set (mp_feed (mp_step c p)). msg_sane (feed_content x)"
proof (cases c)
  case (MP_Publish m now ok)
  show ?thesis
  proof (cases rule: mp_publish_cases [of p m now ok])
    case passed
    have "validate m (mp_validator p) = (V_OK, snd (validate m (mp_validator p)))"
      using passed(2) by (metis prod.collapse)
    then have "msg_sane m" using mv_pass_is_sane [of m] assms(2) MP_Publish by simp
    moreover obtain x where "mp_publish m now ok p = offer ok x (p\<lparr>mp_validator := snd (validate m (mp_validator p)),
        mp_breaker := vdb_record False now (mp_breaker p), mp_seq := mp_seq p + 1\<rparr>)" "feed_content x = m"
      using passed(3) send_fits [of m ok "p\<lparr>mp_validator := snd (validate m (mp_validator p)),
        mp_breaker := vdb_record False now (mp_breaker p)\<rparr>"] assms(2) MP_Publish by auto
    ultimately show ?thesis
      using assms(1) MP_Publish by (auto simp: offer_def record_backpressure_drop_def)
  qed (use assms(1) MP_Publish in simp_all)
qed (use assms(1) in \<open>simp add: mp_reset_validator_def\<close>)

lemma mp_feed_sane_run:
  "\<forall>x \<in> set (mp_feed p). msg_sane (feed_content x) \<Longrightarrow> \<forall>c \<in> set cs. call_ok c \<Longrightarrow>
   \<forall>x \<in> set (mp_feed (fold mp_step cs p)). msg_sane (feed_content x)"
proof (induction cs arbitrary: p)
  case (Cons c cs)
  then show ?case using mp_feed_sane_step [of p c] by simp
qed simp

subsection \<open>Every call is counted once\<close>

definition is_publish :: "mp_call \<Rightarrow> bool" where
  "is_publish c \<longleftrightarrow> (case c of MP_Publish m now ok \<Rightarrow> True | MP_Reset \<Rightarrow> False)"

definition mp_total :: "md_publisher \<Rightarrow> u64" where
  "mp_total p = mp_published p + mp_backpressure_drops p + mp_validation_drops p"

lemma offer_total: "mp_total (offer ok x p) = mp_total p + 1"
  by (simp add: mp_total_def offer_def record_backpressure_drop_def)

lemma offer_published: "mp_published p = of_nat (length (mp_feed p)) \<Longrightarrow>
    mp_published (offer ok x p) = of_nat (length (mp_feed (offer ok x p)))"
  by (simp add: offer_def record_backpressure_drop_def)

lemma mp_total_step:
  assumes "call_ok c"
  shows "mp_total (mp_step c p) = mp_total p + (if is_publish c then 1 else 0)"
proof (cases c)
  case (MP_Publish m now ok)
  show ?thesis
  proof (cases rule: mp_publish_cases [of p m now ok])
    case passed
    obtain x where x: "mp_publish m now ok p = offer ok x (p\<lparr>mp_validator := snd (validate m (mp_validator p)),
        mp_breaker := vdb_record False now (mp_breaker p), mp_seq := mp_seq p + 1\<rparr>)"
      using passed(3) send_fits [of m ok "p\<lparr>mp_validator := snd (validate m (mp_validator p)),
        mp_breaker := vdb_record False now (mp_breaker p)\<rparr>"] assms MP_Publish by auto
    show ?thesis using MP_Publish by (simp add: x offer_total is_publish_def) (simp add: mp_total_def)
  qed (simp_all add: MP_Publish mp_total_def is_publish_def)
qed (simp add: mp_total_def mp_reset_validator_def is_publish_def)

lemma mp_total_run:
  "\<forall>c \<in> set cs. call_ok c \<Longrightarrow> mp_total (fold mp_step cs p) = mp_total p + of_nat (length (filter is_publish cs))"
proof (induction cs arbitrary: p)
  case (Cons c cs)
  then show ?case using mp_total_step [of c p] by simp
qed simp

subsection \<open>Properties\<close>


text \<open>
  A tripped drop breaker silences the adapter for good. Once it has
  tripped, no later call adds to the stream.
\<close>
theorem mp_breaker_suppresses:
  assumes "p1 = fold mp_step cs1 (mp_make pct cfg)" "vdb_tripped (mp_breaker p1)"
  shows "mp_feed (fold mp_step cs2 p1) = mp_feed p1 \<and> vdb_tripped (mp_breaker (fold mp_step cs2 p1))"
proof
  have inv: "mp_inv p1" unfolding assms(1)
    by (rule mp.run_inv) (simp add: mp_inv_def mp_make_def vdb_init_def counts_agree_def)
  show "vdb_tripped (mp_breaker (fold mp_step cs2 p1))" by (rule mp.run_latched [OF inv assms(2)])
  show "mp_feed (fold mp_step cs2 p1) = mp_feed p1"
    using inv assms(2)
  proof (induction cs2 arbitrary: p1)
    case (Cons c cs)
    have "vdb_tripped (mp_breaker (mp_step c p1))" "mp_inv (mp_step c p1)"
      using Cons.prems mp_tripped_step mp_inv_step by blast+
    then show ?case using Cons.IH mp_tripped_feed [OF Cons.prems(2), of c] by simp
  qed simp
qed

text \<open>
  Every message handed to the publisher is accounted for once. After any
  run with books within their capacity, published + back-pressure drops + validation drops is
  the number of publish calls (modulo \<open>2 ^ 64\<close>).
\<close>
theorem mp_counters_add_up:
  assumes "\<forall>c \<in> set cs. call_ok c" "p = fold mp_step cs (mp_make pct cfg)"
  shows "mp_published p + mp_backpressure_drops p + mp_validation_drops p = of_nat (length (filter is_publish cs))"
  using mp_total_run [OF assms(1), of "mp_make pct cfg"] by (simp add: assms(2) mp_total_def mp_make_def)

definition quiet_cfg :: vdb_config where
  "quiet_cfg = \<lparr>vdb_window_ns = 1000, vdb_threshold_pct = Fin 30, vdb_min_events = 1, vdb_enabled = True\<rparr>"

definition demo_calls :: "mp_call list" where
  "demo_calls = [MP_Publish (Bbo (demo_bbo 100 102)) 5 True, MP_Publish (Bbo (demo_bbo 103 102)) 6 True]"

lemma demo_calls_ok: "\<forall>c \<in> set demo_calls. call_ok c"
  by (simp add: demo_calls_def demo_bbo_def)


lemma mp_breaker_suppresses_witness:
  "mp_feed (fold mp_step [MP_Publish (Bbo (demo_bbo 100 101)) 7 True] (fold mp_step demo_calls (mp_make (Fin 10) quiet_cfg)))
     = mp_feed (fold mp_step demo_calls (mp_make (Fin 10) quiet_cfg))"
proof -
  have "vdb_tripped (mp_breaker (fold mp_step demo_calls (mp_make (Fin 10) quiet_cfg)))" by code_simp
  from mp_breaker_suppresses [OF refl this] show ?thesis by blast
qed

lemma mp_counters_add_up_witness:
  "mp_total (fold mp_step demo_calls (mp_make (Fin 10) quiet_cfg)) = 2"
  using mp_counters_add_up [OF demo_calls_ok refl, of "Fin 10" quiet_cfg]
  by (simp add: mp_total_def demo_calls_def is_publish_def)

end
