(* ===== verification/Md_Adapter.thy ===== *)
theory Md_Adapter
  imports Ring_Queue Md_Publisher "HOL-Library.Sublist"
begin

text \<open>
  The part of the market-data gateway every venue adapter shares: the \<open>SubscriptionMap\<close>
  (\<open>src/bpt-md-gateway/src/adapter/common/subscription_map.cpp\<close>) and \<open>AdapterBase\<close>
  (\<open>src/bpt-md-gateway/include/md_gateway/adapter/common/adapter_base.h\<close>), whose control thread
  queues subscription commands, whose IO thread queues frames and whose publisher thread applies
  the ones and parses the others. The venue's decoder is a parameter.
\<close>

subsection \<open>The subscription map\<close>

record sub_entry =
  se_symbol :: string
  se_depth :: u8

record subscription_map =
  by_id :: "(u64, sub_entry) umap"
  by_symbol :: "(string, u64) umap"
  sub_pending :: "sub_entry list"

definition sub_init :: subscription_map where
  "sub_init = \<lparr>by_id = [], by_symbol = [], sub_pending = []\<rparr>"

definition sub_subscribe :: "u64 \<Rightarrow> string \<Rightarrow> u8 \<Rightarrow> subscription_map \<Rightarrow> subscription_map" where
  "sub_subscribe instrument_id symbol depth s =
     (let is_new = (map_of (by_id s) instrument_id = None);
          entry = \<lparr>se_symbol = symbol, se_depth = depth\<rparr>;
          s = s\<lparr>by_id := AList.update instrument_id entry (by_id s),
                by_symbol := AList.update symbol instrument_id (by_symbol s)\<rparr>
      in if is_new then s\<lparr>sub_pending := sub_pending s @ [entry]\<rparr> else s)"

definition sub_unsubscribe :: "u64 \<Rightarrow> subscription_map \<Rightarrow> string \<times> subscription_map" where
  "sub_unsubscribe instrument_id s =
     (case map_of (by_id s) instrument_id of
        None \<Rightarrow> ([], s)
      | Some e \<Rightarrow> (se_symbol e, s\<lparr>by_id := AList.delete instrument_id (by_id s),
                                 by_symbol := AList.delete (se_symbol e) (by_symbol s)\<rparr>))"

definition sub_requeue :: "string \<Rightarrow> subscription_map \<Rightarrow> subscription_map" where
  "sub_requeue symbol s =
     (case map_of (by_symbol s) symbol of
        None \<Rightarrow> s
      | Some i \<Rightarrow> (case map_of (by_id s) i of
          None \<Rightarrow> s
        | Some e \<Rightarrow> s\<lparr>sub_pending := sub_pending s @ [e]\<rparr>))"

definition sub_find_id :: "string \<Rightarrow> subscription_map \<Rightarrow> u64" where
  "sub_find_id symbol s = (case map_of (by_symbol s) symbol of Some i \<Rightarrow> i | None \<Rightarrow> 0)"

definition sub_find_depth :: "u64 \<Rightarrow> subscription_map \<Rightarrow> u8" where
  "sub_find_depth instrument_id s = (case map_of (by_id s) instrument_id of Some e \<Rightarrow> se_depth e | None \<Rightarrow> 0)"

definition sub_find :: "string \<Rightarrow> subscription_map \<Rightarrow> u64 \<times> u8" where
  "sub_find symbol s =
     (case map_of (by_symbol s) symbol of
        None \<Rightarrow> (0, 0)
      | Some i \<Rightarrow> (case map_of (by_id s) i of None \<Rightarrow> (0, 0) | Some e \<Rightarrow> (i, se_depth e)))"

definition sub_snapshot :: "subscription_map \<Rightarrow> (u64 \<times> sub_entry) list" where
  "sub_snapshot s = by_id s"

definition take_pending :: "subscription_map \<Rightarrow> sub_entry list \<times> subscription_map" where
  "take_pending s = (sub_pending s, s\<lparr>sub_pending := []\<rparr>)"

text \<open>The calls that change the map, and the map from ids to depths they stand for.\<close>

datatype sub_call = Subscribe u64 string u8 | Unsubscribe u64 | Requeue string | Take_Pending

fun sub_step :: "sub_call \<Rightarrow> subscription_map \<Rightarrow> subscription_map" where
  "sub_step (Subscribe i sy d) s = sub_subscribe i sy d s"
| "sub_step (Unsubscribe i) s = snd (sub_unsubscribe i s)"
| "sub_step (Requeue sy) s = sub_requeue sy s"
| "sub_step Take_Pending s = snd (take_pending s)"

fun depth_step :: "sub_call \<Rightarrow> (u64 \<rightharpoonup> u8) \<Rightarrow> (u64 \<rightharpoonup> u8)" where
  "depth_step (Subscribe i sy d) m = m(i \<mapsto> d)"
| "depth_step (Unsubscribe i) m = m(i := None)"
| "depth_step (Requeue sy) m = m"
| "depth_step Take_Pending m = m"

text \<open>
  The callers name each instrument by its venue symbol, one symbol per instrument. Then the two
  indices are inverse to each other.
\<close>

fun sub_named :: "(u64 \<Rightarrow> string) \<Rightarrow> sub_call \<Rightarrow> bool" where
  "sub_named name (Subscribe i sy d) = (sy = name i)"
| "sub_named name _ = True"

definition sub_inv :: "(u64 \<Rightarrow> string) \<Rightarrow> subscription_map \<Rightarrow> bool" where
  "sub_inv name s \<longleftrightarrow>
     (\<forall>i e. map_of (by_id s) i = Some e \<longrightarrow> se_symbol e = name i \<and> map_of (by_symbol s) (name i) = Some i) \<and>
     (\<forall>sy i. map_of (by_symbol s) sy = Some i \<longrightarrow> sy = name i \<and> map_of (by_id s) i \<noteq> None)"

definition sub_depths :: "subscription_map \<Rightarrow> u64 \<rightharpoonup> u8" where
  "sub_depths s = map_option se_depth \<circ> map_of (by_id s)"

lemma sub_inv_init [simp]: "sub_inv name sub_init"
  by (simp add: sub_inv_def sub_init_def)

lemma sub_subscribe_maps [simp]:
  "map_of (by_id (sub_subscribe i sy d s)) = (map_of (by_id s))(i \<mapsto> \<lparr>se_symbol = sy, se_depth = d\<rparr>)"
  "map_of (by_symbol (sub_subscribe i sy d s)) = (map_of (by_symbol s))(sy \<mapsto> i)"
  by (simp_all add: sub_subscribe_def Let_def)

lemma sub_unsubscribe_by_id [simp]:
  "map_of (by_id (snd (sub_unsubscribe i s))) = (map_of (by_id s))(i := None)"
  by (auto simp: sub_unsubscribe_def fun_upd_idem split: option.splits)

lemma sub_requeue_maps [simp]: "by_id (sub_requeue sy s) = by_id s" "by_symbol (sub_requeue sy s) = by_symbol s"
  by (simp_all add: sub_requeue_def split: option.splits)

lemma take_pending_maps [simp]:
  "by_id (snd (take_pending s)) = by_id s" "by_symbol (snd (take_pending s)) = by_symbol s"
  by (simp_all add: take_pending_def)

lemma sub_depths_step: "sub_depths (sub_step c s) = depth_step c (sub_depths s)"
  by (cases c) (auto simp: sub_depths_def fun_eq_iff)

lemma sub_inv_step:
  assumes "inj name" "sub_named name c" "sub_inv name s"
  shows "sub_inv name (sub_step c s)"
proof (cases c)
  case (Subscribe i sy d)
  then show ?thesis using assms by (auto simp: sub_inv_def dest: injD)
next
  case (Unsubscribe i)
  show ?thesis
  proof (cases "map_of (by_id s) i")
    case None
    then show ?thesis using assms(3) Unsubscribe by (simp add: sub_unsubscribe_def)
  next
    case (Some e)
    then have "se_symbol e = name i" using assms(3) by (simp add: sub_inv_def)
    then show ?thesis using Some Unsubscribe assms(1,3)
      by (auto simp: sub_unsubscribe_def sub_inv_def dest: injD)
  qed
qed (use assms(3) in \<open>simp_all add: sub_inv_def\<close>)

lemma sub_run:
  assumes "inj name"
  shows "sub_inv name s \<Longrightarrow> \<forall>c \<in> set cs. sub_named name c \<Longrightarrow>
    sub_inv name (fold sub_step cs s) \<and> sub_depths (fold sub_step cs s) = fold depth_step cs (sub_depths s)"
proof (induction cs arbitrary: s)
  case (Cons c cs)
  then have "sub_inv name (sub_step c s)" using sub_inv_step [OF assms, of c s] by simp
  then show ?case using Cons.IH [of "sub_step c s"] Cons.prems by (simp add: sub_depths_step)
qed simp

lemma sub_find_inv:
  assumes "sub_inv name s" "inj name"
  shows "sub_find (name i) s = (case sub_depths s i of Some d \<Rightarrow> (i, d) | None \<Rightarrow> (0, 0))"
proof (cases "map_of (by_id s) i")
  case (Some e)
  then show ?thesis using assms(1) by (simp add: sub_find_def sub_depths_def sub_inv_def)
next
  case None
  have "map_of (by_symbol s) (name i) = None"
  proof (rule ccontr)
    assume "map_of (by_symbol s) (name i) \<noteq> None"
    then obtain j where j: "map_of (by_symbol s) (name i) = Some j" by blast
    then have "name i = name j \<and> map_of (by_id s) j \<noteq> None" using assms(1) by (auto simp: sub_inv_def)
    then show False using None assms(2) by (auto dest: injD)
  qed
  then show ?thesis using None by (simp add: sub_find_def sub_depths_def)
qed

subsection \<open>The command queue\<close>

datatype sub_cmd_op = Op_Subscribe | Op_Unsubscribe

record sub_cmd =
  sc_op :: sub_cmd_op
  sc_instrument_id :: u64
  sc_symbol :: string
  sc_depth :: u8

record sub_cmd_queue =
  cq_items :: "sub_cmd list"
  cq_pending :: bool

definition cq_init :: sub_cmd_queue where
  "cq_init = \<lparr>cq_items = [], cq_pending = False\<rparr>"

definition cq_push :: "sub_cmd \<Rightarrow> sub_cmd_queue \<Rightarrow> sub_cmd_queue" where
  "cq_push c q = \<lparr>cq_items = cq_items q @ [c], cq_pending = True\<rparr>"

text \<open>The commands the callback is called with, in order.\<close>

definition cq_drain :: "sub_cmd_queue \<Rightarrow> sub_cmd list \<times> sub_cmd_queue" where
  "cq_drain q = (if \<not> cq_pending q then ([], q) else (cq_items q, \<lparr>cq_items = [], cq_pending = False\<rparr>))"

subsection \<open>The adapter\<close>

definition QUEUE_CAPACITY :: u64 where "QUEUE_CAPACITY = 512"
definition SLOT_BYTES :: nat where "SLOT_BYTES = 16384"

text \<open>
  What reaches the venue is a sequence of subscribe and unsubscribe frames, kept here in the order
  the hooks are called; a hook may send nothing. The decoder is the parameter \<open>parse_frame\<close>: it
  reads and may requeue subscriptions and publishes through the adapter's publisher.
\<close>

datatype venue_frame = Subscribe_Frame string u8 | Unsubscribe_Frame string

record md_adapter =
  ad_exchange_name :: string
  ad_subs :: subscription_map
  ad_sub_cmd_q :: sub_cmd_queue
  ad_stop_flag :: bool
  ad_frame_queue :: spsc_queue
  ad_md_pub :: md_publisher
  ad_dropped_frames :: u64
  ad_venue :: "venue_frame list"

type_synonym parse_hook =
  "string \<Rightarrow> u64 \<Rightarrow> subscription_map \<times> md_publisher \<Rightarrow> subscription_map \<times> md_publisher"

definition ad_make :: "string \<Rightarrow> md_publisher \<Rightarrow> md_adapter" where
  "ad_make name pub =
     \<lparr>ad_exchange_name = name, ad_subs = sub_init, ad_sub_cmd_q = cq_init, ad_stop_flag = False,
      ad_frame_queue = sq_init QUEUE_CAPACITY SLOT_BYTES, ad_md_pub = pub, ad_dropped_frames = 0,
      ad_venue = []\<rparr>"

definition ad_subscribe :: "u64 \<Rightarrow> string \<Rightarrow> u8 \<Rightarrow> md_adapter \<Rightarrow> md_adapter" where
  "ad_subscribe instrument_id symbol depth a =
     a\<lparr>ad_sub_cmd_q := cq_push \<lparr>sc_op = Op_Subscribe, sc_instrument_id = instrument_id,
         sc_symbol = symbol, sc_depth = depth\<rparr> (ad_sub_cmd_q a)\<rparr>"

definition ad_unsubscribe :: "u64 \<Rightarrow> md_adapter \<Rightarrow> md_adapter" where
  "ad_unsubscribe instrument_id a =
     a\<lparr>ad_sub_cmd_q := cq_push \<lparr>sc_op = Op_Unsubscribe, sc_instrument_id = instrument_id,
         sc_symbol = [], sc_depth = 0\<rparr> (ad_sub_cmd_q a)\<rparr>"

definition ad_stop :: "md_adapter \<Rightarrow> md_adapter" where
  "ad_stop a = a\<lparr>ad_stop_flag := True\<rparr>"

definition push_frame :: "string \<Rightarrow> u64 \<Rightarrow> md_adapter \<Rightarrow> md_adapter" where
  "push_frame payload recv_ns a =
     (let (ok, q) = sq_try_push QUEUE_CAPACITY SLOT_BYTES recv_ns payload (ad_frame_queue a)
      in if \<not> ok then a\<lparr>ad_frame_queue := q, ad_dropped_frames := ad_dropped_frames a + 1\<rparr>
         else a\<lparr>ad_frame_queue := q\<rparr>)"

subsection \<open>The publisher thread\<close>

definition apply_sub_cmd :: "sub_cmd \<Rightarrow> md_adapter \<Rightarrow> md_adapter" where
  "apply_sub_cmd c a =
     (if sc_op c = Op_Subscribe
      then a\<lparr>ad_subs := sub_subscribe (sc_instrument_id c) (sc_symbol c) (sc_depth c) (ad_subs a),
             ad_venue := ad_venue a @ [Subscribe_Frame (sc_symbol c) (sc_depth c)]\<rparr>
      else
        let (symbol, subs) = sub_unsubscribe (sc_instrument_id c) (ad_subs a);
            a = a\<lparr>ad_subs := subs\<rparr>
        in if symbol \<noteq> [] then a\<lparr>ad_venue := ad_venue a @ [Unsubscribe_Frame symbol]\<rparr> else a)"

definition parse_one :: "parse_hook \<Rightarrow> u64 \<times> string \<Rightarrow> md_adapter \<Rightarrow> md_adapter" where
  "parse_one parse_frame f a =
     (let (subs, pub) = parse_frame (snd f) (fst f) (ad_subs a, ad_md_pub a)
      in a\<lparr>ad_subs := subs, ad_md_pub := pub\<rparr>)"

text \<open>One turn of \<open>publish_loop\<close>, \<open>None\<close> once the flag has ended the loop.\<close>

definition ad_drain_cmds :: "md_adapter \<Rightarrow> md_adapter" where
  "ad_drain_cmds a =
     (let (cmds, q) = cq_drain (ad_sub_cmd_q a) in fold apply_sub_cmd cmds (a\<lparr>ad_sub_cmd_q := q\<rparr>))"

definition ad_pop_frame :: "parse_hook \<Rightarrow> md_adapter \<Rightarrow> bool \<times> md_adapter" where
  "ad_pop_frame parse_frame a =
     (let (f, q) = sq_try_pop QUEUE_CAPACITY (ad_frame_queue a) in
      case f of
        None \<Rightarrow> (False, a)
      | Some f \<Rightarrow> (True, parse_one parse_frame f (a\<lparr>ad_frame_queue := q\<rparr>)))"

definition ad_publish_turn :: "parse_hook \<Rightarrow> md_adapter \<Rightarrow> md_adapter option" where
  "ad_publish_turn parse_frame a =
     (if ad_stop_flag a then None else Some (snd (ad_pop_frame parse_frame (ad_drain_cmds a))))"

lemma parse_one_queue [simp]: "ad_frame_queue (parse_one p f a) = ad_frame_queue a"
  by (simp add: parse_one_def split_beta)

lemma sq_pop_less: "sq_try_pop C q = (Some f, r) \<Longrightarrow> unat (sq_head r - sq_tail r) < unat (sq_head q - sq_tail q)"
proof -
  assume "sq_try_pop C q = (Some f, r)"
  then have "sq_head q - sq_tail q \<noteq> 0" "r = q\<lparr>sq_tail := sq_tail q + 1\<rparr>"
    by (auto simp: sq_try_pop_def Let_def split: if_splits)
  then show ?thesis
    using unat_dec [of "sq_head q - sq_tail q"] unat_gt_0 [of "sq_head q - sq_tail q"]
    by (simp add: diff_diff_eq)
qed

text \<open>After the loop: the frames still queued are parsed.\<close>

function ad_drain_frames :: "parse_hook \<Rightarrow> md_adapter \<Rightarrow> md_adapter" where
  "ad_drain_frames parse_frame a =
     (let r = ad_pop_frame parse_frame a in if fst r then ad_drain_frames parse_frame (snd r) else snd r)"
  by pat_completeness auto
termination
proof (relation "measure (\<lambda>(p, a). unat (sq_head (ad_frame_queue a) - sq_tail (ad_frame_queue a)))")
  fix p :: parse_hook and a :: md_adapter and r
  assume r: "r = ad_pop_frame p a" "fst r"
  then obtain f q where "sq_try_pop QUEUE_CAPACITY (ad_frame_queue a) = (Some f, q)" "ad_frame_queue (snd r) = q"
    by (auto simp: ad_pop_frame_def split: prod.splits option.splits)
  then show "((p, snd r), (p, a)) \<in> measure (\<lambda>(p, a). unat (sq_head (ad_frame_queue a) - sq_tail (ad_frame_queue a)))"
    using sq_pop_less by simp
qed simp

declare ad_drain_frames.simps [simp del]

subsection \<open>The IO thread\<close>

datatype io_outcome = No_Stream | Loop_Returned | Loop_Threw

text \<open>
  One turn of \<open>run\<close>: the adapter after it and the milliseconds slept, \<open>None\<close> once the loop has
  ended. The connection itself is known by its outcome.
\<close>

definition ad_run_turn :: "nat \<Rightarrow> io_outcome \<Rightarrow> md_adapter \<Rightarrow> (md_adapter \<times> nat) option" where
  "ad_run_turn reconnect_delay outcome a =
     (if ad_stop_flag a then None
      else
        let a = a\<lparr>ad_md_pub := mp_reset_validator (ad_md_pub a)\<rparr> in
        Some (a, case outcome of No_Stream \<Rightarrow> 100 | Loop_Returned \<Rightarrow> 0
                 | Loop_Threw \<Rightarrow> if \<not> ad_stop_flag a then reconnect_delay else 0))"

subsection \<open>Lemmas on the adapter\<close>

datatype ad_call = Ad_Subscribe u64 string u8 | Ad_Unsubscribe u64 | Ad_Frame string u64 | Ad_Publish | Ad_Stop

fun ad_step :: "parse_hook \<Rightarrow> ad_call \<Rightarrow> md_adapter \<Rightarrow> md_adapter" where
  "ad_step p (Ad_Subscribe i sy d) a = ad_subscribe i sy d a"
| "ad_step p (Ad_Unsubscribe i) a = ad_unsubscribe i a"
| "ad_step p (Ad_Frame payload r) a = push_frame payload r a"
| "ad_step p Ad_Publish a = (case ad_publish_turn p a of None \<Rightarrow> a | Some a \<Rightarrow> a)"
| "ad_step p Ad_Stop a = ad_stop a"

text \<open>A decoder may requeue but does not subscribe.\<close>

definition parse_reads :: "parse_hook \<Rightarrow> bool" where
  "parse_reads p \<longleftrightarrow> (\<forall>payload r s m. by_id (fst (p payload r (s, m))) = by_id s \<and>
     by_symbol (fst (p payload r (s, m))) = by_symbol s)"

definition cmd_call :: "sub_cmd \<Rightarrow> sub_call" where
  "cmd_call c = (case sc_op c of Op_Subscribe \<Rightarrow> Subscribe (sc_instrument_id c) (sc_symbol c) (sc_depth c)
     | Op_Unsubscribe \<Rightarrow> Unsubscribe (sc_instrument_id c))"

fun sub_calls_of :: "ad_call \<Rightarrow> sub_call list" where
  "sub_calls_of (Ad_Subscribe i sy d) = [Subscribe i sy d]"
| "sub_calls_of (Ad_Unsubscribe i) = [Unsubscribe i]"
| "sub_calls_of _ = []"

text \<open>The entries the adapter will have once its queue is drained.\<close>

fun entry_step :: "sub_call \<Rightarrow> (u64 \<rightharpoonup> sub_entry) \<Rightarrow> (u64 \<rightharpoonup> sub_entry)" where
  "entry_step (Subscribe i sy d) m = m(i \<mapsto> \<lparr>se_symbol = sy, se_depth = d\<rparr>)"
| "entry_step (Unsubscribe i) m = m(i := None)"
| "entry_step _ m = m"

definition ad_wanted :: "md_adapter \<Rightarrow> u64 \<rightharpoonup> sub_entry" where
  "ad_wanted a = fold (entry_step \<circ> cmd_call) (cq_items (ad_sub_cmd_q a)) (map_of (by_id (ad_subs a)))"

definition ad_inv :: "md_adapter \<Rightarrow> bool" where
  "ad_inv a \<longleftrightarrow> (cq_pending (ad_sub_cmd_q a) \<longleftrightarrow> cq_items (ad_sub_cmd_q a) \<noteq> [])"

lemma entry_step_by_id: "map_of (by_id (sub_step c s)) = entry_step c (map_of (by_id s))"
  by (cases c) simp_all

lemma apply_sub_cmd_frame [simp]:
  "ad_sub_cmd_q (apply_sub_cmd c a) = ad_sub_cmd_q a" "ad_stop_flag (apply_sub_cmd c a) = ad_stop_flag a"
  "ad_exchange_name (apply_sub_cmd c a) = ad_exchange_name a" "ad_frame_queue (apply_sub_cmd c a) = ad_frame_queue a"
  "ad_md_pub (apply_sub_cmd c a) = ad_md_pub a"
  by (simp_all add: apply_sub_cmd_def Let_def split_beta)

lemma apply_sub_cmd_subs: "ad_subs (apply_sub_cmd c a) = sub_step (cmd_call c) (ad_subs a)"
  by (cases "sc_op c") (simp_all add: apply_sub_cmd_def cmd_call_def Let_def split_beta)

lemma apply_sub_cmds_frame [simp]:
  "ad_sub_cmd_q (fold apply_sub_cmd cs a) = ad_sub_cmd_q a"
  "ad_exchange_name (fold apply_sub_cmd cs a) = ad_exchange_name a"
  "ad_frame_queue (fold apply_sub_cmd cs a) = ad_frame_queue a"
  "ad_md_pub (fold apply_sub_cmd cs a) = ad_md_pub a"
  by (induction cs arbitrary: a) simp_all

lemma apply_sub_cmds_stop: "ad_stop_flag (fold apply_sub_cmd cs a) = ad_stop_flag a"
  by (induction cs arbitrary: a) simp_all

lemma ad_pop_frame_stop: "ad_stop_flag (snd (ad_pop_frame p a)) = ad_stop_flag a"
  by (simp add: ad_pop_frame_def parse_one_def split_beta split: option.splits)

lemma apply_sub_cmds_by_id:
  "map_of (by_id (ad_subs (fold apply_sub_cmd cs a))) = fold (entry_step \<circ> cmd_call) cs (map_of (by_id (ad_subs a)))"
  by (induction cs arbitrary: a) (simp_all add: apply_sub_cmd_subs entry_step_by_id)

lemma ad_drain_cmds_spec:
  assumes "ad_inv a"
  shows "map_of (by_id (ad_subs (ad_drain_cmds a))) = ad_wanted a"
    and "cq_items (ad_sub_cmd_q (ad_drain_cmds a)) = []" and "\<not> cq_pending (ad_sub_cmd_q (ad_drain_cmds a))"
  using assms by (simp_all add: ad_drain_cmds_def cq_drain_def ad_inv_def ad_wanted_def apply_sub_cmds_by_id)

lemma parse_one_frame [simp]: "ad_sub_cmd_q (parse_one p f a) = ad_sub_cmd_q a"
  by (simp add: parse_one_def split_beta)

lemma ad_pop_frame_queue [simp]: "ad_sub_cmd_q (snd (ad_pop_frame p a)) = ad_sub_cmd_q a"
  by (simp add: ad_pop_frame_def split_beta split: option.splits)

lemma ad_pop_frame_subs: "parse_reads p \<Longrightarrow> by_id (ad_subs (snd (ad_pop_frame p a))) = by_id (ad_subs a)"
  by (simp add: ad_pop_frame_def parse_one_def parse_reads_def split_beta split: option.splits)

lemma ad_wanted_step:
  assumes "ad_inv a" "parse_reads p"
  shows "ad_inv (ad_step p c a) \<and> ad_wanted (ad_step p c a) = fold entry_step (sub_calls_of c) (ad_wanted a)"
proof (cases c)
  case Ad_Publish
  have "ad_inv (snd (ad_pop_frame p (ad_drain_cmds a)))"
    using ad_drain_cmds_spec [OF assms(1)] by (simp add: ad_inv_def)
  moreover have "ad_wanted (snd (ad_pop_frame p (ad_drain_cmds a))) = ad_wanted a"
    using ad_drain_cmds_spec [OF assms(1)] ad_pop_frame_subs [OF assms(2)] by (simp add: ad_wanted_def)
  ultimately show ?thesis using assms(1) Ad_Publish by (simp add: ad_publish_turn_def)
qed (use assms(1) in \<open>simp_all add: ad_inv_def ad_wanted_def ad_subscribe_def ad_unsubscribe_def ad_stop_def
  push_frame_def cq_push_def cmd_call_def split_beta\<close>)

lemma ad_wanted_run:
  assumes "parse_reads p"
  shows "ad_inv a \<Longrightarrow> ad_inv (fold (ad_step p) cs a) \<and>
    ad_wanted (fold (ad_step p) cs a) = fold entry_step (concat (map sub_calls_of cs)) (ad_wanted a)"
  by (induction cs arbitrary: a) (use ad_wanted_step [OF _ assms] in auto)

lemma ad_inv_make [simp]: "ad_inv (ad_make name pub)" "ad_wanted (ad_make name pub) = Map.empty"
  by (simp_all add: ad_inv_def ad_make_def cq_init_def ad_wanted_def sub_init_def)

lemma parse_one_swap: "parse_one p f (a\<lparr>ad_frame_queue := q\<rparr>) = (parse_one p f a)\<lparr>ad_frame_queue := q\<rparr>"
  by (simp add: parse_one_def split_beta)

lemma parse_all_swap:
  "fold (parse_one p) fs (a\<lparr>ad_frame_queue := q\<rparr>) = (fold (parse_one p) fs a)\<lparr>ad_frame_queue := q\<rparr>"
  by (induction fs arbitrary: a) (simp_all add: parse_one_swap)

lemma ad_drain_frames_spec:
  assumes "sq_inv QUEUE_CAPACITY SLOT_BYTES (ad_frame_queue a)"
  shows "\<exists>q. sq_frames QUEUE_CAPACITY q = [] \<and> ad_drain_frames p a
    = (fold (parse_one p) (sq_frames QUEUE_CAPACITY (ad_frame_queue a)) a)\<lparr>ad_frame_queue := q\<rparr>"
  using assms
proof (induction p a rule: ad_drain_frames.induct)
  case (1 p a)
  let ?q = "snd (sq_try_pop QUEUE_CAPACITY (ad_frame_queue a))"
  note pop = sq_pop_spec [OF 1(2)]
  show ?case
  proof (cases "sq_frames QUEUE_CAPACITY (ad_frame_queue a)")
    case Nil
    then have "ad_pop_frame p a = (False, a)" using pop(2) by (simp add: ad_pop_frame_def split_beta)
    then have "ad_drain_frames p a = a" by (simp add: ad_drain_frames.simps [of p a])
    then show ?thesis using Nil by (intro exI [of _ "ad_frame_queue a"]) simp
  next
    case (Cons f fs)
    then have turn: "ad_pop_frame p a = (True, parse_one p f (a\<lparr>ad_frame_queue := ?q\<rparr>))"
      using pop(2) by (simp add: ad_pop_frame_def split_beta)
    let ?b = "parse_one p f (a\<lparr>ad_frame_queue := ?q\<rparr>)"
    have "sq_frames QUEUE_CAPACITY (ad_frame_queue ?b) = fs" "sq_inv QUEUE_CAPACITY SLOT_BYTES (ad_frame_queue ?b)"
      using pop Cons by simp_all
    moreover have "ad_drain_frames p a = ad_drain_frames p ?b" using turn by (simp add: ad_drain_frames.simps [of p a])
    ultimately show ?thesis using 1(1) [OF refl] turn Cons
      by (simp add: parse_one_swap parse_all_swap) 
  qed
qed

text \<open>The frames a run of calls offers, and the decoder over a list of frames.\<close>

fun frames_of :: "ad_call \<Rightarrow> (u64 \<times> string) list" where
  "frames_of (Ad_Frame payload r) = [(r, payload)]"
| "frames_of _ = []"

definition parse_all :: "parse_hook \<Rightarrow> (u64 \<times> string) list \<Rightarrow> subscription_map \<times> md_publisher
    \<Rightarrow> subscription_map \<times> md_publisher" where
  "parse_all p fs sm = fold (\<lambda>f sm. p (snd f) (fst f) sm) fs sm"

definition ad_view :: "md_adapter \<Rightarrow> subscription_map \<times> md_publisher" where
  "ad_view a = (ad_subs a, ad_md_pub a)"

lemma parse_all_append: "parse_all p (fs @ [f]) sm = p (snd f) (fst f) (parse_all p fs sm)"
  by (simp add: parse_all_def)

lemma ad_view_parse_one: "ad_view (parse_one p f a) = p (snd f) (fst f) (ad_view a)"
  by (simp add: ad_view_def parse_one_def split_beta)

lemma ad_view_parse_all: "ad_view (fold (parse_one p) fs a) = parse_all p fs (ad_view a)"
  by (induction fs arbitrary: a) (simp_all add: ad_view_parse_one parse_all_def)

text \<open>What has been parsed and what is queued, against what was offered.\<close>

definition ad_flow :: "parse_hook \<Rightarrow> subscription_map \<times> md_publisher \<Rightarrow> (u64 \<times> string) list \<Rightarrow> md_adapter \<Rightarrow> bool" where
  "ad_flow p sm0 offered a \<longleftrightarrow>
     sq_inv QUEUE_CAPACITY SLOT_BYTES (ad_frame_queue a) \<and> \<not> cq_pending (ad_sub_cmd_q a) \<and>
     (\<exists>parsed. ad_view a = parse_all p parsed sm0 \<and>
        subseq (parsed @ sq_frames QUEUE_CAPACITY (ad_frame_queue a)) offered \<and>
        ad_dropped_frames a + of_nat (length (parsed @ sq_frames QUEUE_CAPACITY (ad_frame_queue a)))
          = of_nat (length offered))"

lemma ad_flow_frame:
  assumes "ad_flow p sm0 offered a"
  shows "ad_flow p sm0 (offered @ [(r, payload)]) (push_frame payload r a)"
proof -
  let ?q = "ad_frame_queue a" and ?C = QUEUE_CAPACITY
  obtain parsed where q: "sq_inv ?C SLOT_BYTES ?q" and v: "ad_view a = parse_all p parsed sm0"
    and sub: "subseq (parsed @ sq_frames ?C ?q) offered"
    and n: "ad_dropped_frames a + of_nat (length (parsed @ sq_frames ?C ?q)) = of_nat (length offered)"
    and c: "\<not> cq_pending (ad_sub_cmd_q a)"
    using assms by (auto simp: ad_flow_def)
  note push = sq_push_spec [OF q, of r payload]
  let ?room = "length payload \<le> SLOT_BYTES \<and> length (sq_frames ?C ?q) < unat ?C"
  have "subseq (parsed @ sq_frames ?C ?q @ (if ?room then [(r, payload)] else [])) (offered @ [(r, payload)])"
    using sub subseq_append_iff [of "parsed @ sq_frames ?C ?q" "if ?room then [(r, payload)] else []" offered]
    by (cases ?room) (auto intro: subseq_append' list_emb_append_mono simp flip: append_assoc)
  then show ?thesis using push n v c
    by (auto simp: ad_flow_def push_frame_def ad_view_def split_beta algebra_simps intro!: exI [of _ parsed])
qed

lemma ad_flow_publish:
  assumes "ad_flow p sm0 offered a"
  shows "ad_flow p sm0 offered (snd (ad_pop_frame p (ad_drain_cmds a)))"
proof -
  let ?q = "ad_frame_queue a" and ?C = QUEUE_CAPACITY
  obtain parsed where q: "sq_inv ?C SLOT_BYTES ?q" and v: "ad_view a = parse_all p parsed sm0"
    and sub: "subseq (parsed @ sq_frames ?C ?q) offered"
    and n: "ad_dropped_frames a + of_nat (length (parsed @ sq_frames ?C ?q)) = of_nat (length offered)"
    and c: "\<not> cq_pending (ad_sub_cmd_q a)"
    using assms by (auto simp: ad_flow_def)
  note pop = sq_pop_spec [OF q]
  have d: "ad_drain_cmds a = a" using c by (simp add: ad_drain_cmds_def cq_drain_def)
  show ?thesis
  proof (cases "sq_frames ?C ?q")
    case Nil
    then show ?thesis using pop(2) assms d by (simp add: ad_pop_frame_def split_beta)
  next
    case (Cons f fs)
    let ?b = "parse_one p f (a\<lparr>ad_frame_queue := snd (sq_try_pop ?C ?q)\<rparr>)"
    have b: "snd (ad_pop_frame p (ad_drain_cmds a)) = ?b" using pop(2) Cons d by (simp add: ad_pop_frame_def split_beta)
    have "ad_view ?b = parse_all p (parsed @ [f]) sm0"
      using v unfolding ad_view_parse_one parse_all_append by (simp add: ad_view_def)
    moreover have "ad_dropped_frames ?b = ad_dropped_frames a" by (simp add: parse_one_def split_beta)
    ultimately show ?thesis unfolding b using pop sub n c Cons
      by (auto simp: ad_flow_def algebra_simps intro!: exI [of _ "parsed @ [f]"])
  qed
qed

lemma ad_flow_step:
  assumes "ad_flow p sm0 offered a" "sub_calls_of c = []"
  shows "ad_flow p sm0 (offered @ frames_of c) (ad_step p c a)"
proof (cases c)
  case (Ad_Frame payload r)
  then show ?thesis using ad_flow_frame [OF assms(1)] by simp
next
  case Ad_Publish
  then show ?thesis using assms(1) ad_flow_publish [OF assms(1)] by (simp add: ad_publish_turn_def)
qed (use assms in \<open>simp_all add: ad_stop_def ad_flow_def ad_view_def\<close>)

lemma ad_flow_run:
  "ad_flow p sm0 offered a \<Longrightarrow> \<forall>c \<in> set cs. sub_calls_of c = [] \<Longrightarrow>
   ad_flow p sm0 (offered @ concat (map frames_of cs)) (fold (ad_step p) cs a)"
proof (induction cs arbitrary: offered a)
  case (Cons c cs)
  then show ?case using Cons.IH [OF ad_flow_step [OF Cons.prems(1)]] by simp
qed simp

lemma ad_flow_make: "ad_flow p (sub_init, pub) [] (ad_make name pub)"
proof -
  have inv: "sq_inv QUEUE_CAPACITY SLOT_BYTES (sq_init QUEUE_CAPACITY SLOT_BYTES)"
    by (auto simp: QUEUE_CAPACITY_def SLOT_BYTES_def sq_inv_def sq_ring_def sq_init_def rq_inv_def rq_used_def
        rq_shape_def mask_eq_exp_minus_1 intro!: exI [of _ 9])
  have "sq_frames QUEUE_CAPACITY (sq_init QUEUE_CAPACITY SLOT_BYTES) = []"
    by (simp add: sq_frames_def sq_ring_def sq_init_def rq_contents_def rq_used_def)
  then show ?thesis using inv
    by (auto simp: ad_flow_def ad_make_def ad_view_def parse_all_def cq_init_def intro: exI [of _ "[]"])
qed

subsection \<open>Properties\<close>

text \<open>
  The hot-path lookup is exact. After any sequence of calls that name each
  instrument by one symbol of its own, looking up an instrument's symbol gives its id and the
  depth of its last subscription if it is subscribed, and \<open>{0, 0}\<close> if it is not.
\<close>
theorem sub_lookup_exact:
  assumes "inj name" "\<forall>c \<in> set cs. sub_named name c"
  shows "sub_find (name i) (fold sub_step cs sub_init)
    = (case fold depth_step cs Map.empty i of Some d \<Rightarrow> (i, d) | None \<Rightarrow> (0, 0))"
proof -
  have "sub_depths sub_init = Map.empty" by (simp add: sub_depths_def sub_init_def fun_eq_iff)
  then show ?thesis using sub_run [OF assms(1) sub_inv_init assms(2)] sub_find_inv [OF _ assms(1)] by metis
qed

text \<open>
  No subscription command is lost or reordered between the threads. After
  any interleaving of control-thread calls, frames and publisher turns, if the adapter is not
  stopped, one more publisher turn makes the subscription map exactly the one the calls, applied
  in the order they were made, describe, and leaves the command queue empty.
\<close>
theorem ad_commands_applied:
  assumes "parse_reads p" "a = fold (ad_step p) cs (ad_make name pub)" "ad_publish_turn p a = Some a'"
  shows "map_of (by_id (ad_subs a')) = fold entry_step (concat (map sub_calls_of cs)) Map.empty \<and>
    cq_items (ad_sub_cmd_q a') = []"
proof -
  have run: "ad_inv a" "ad_wanted a = fold entry_step (concat (map sub_calls_of cs)) Map.empty"
    using ad_wanted_run [OF assms(1), of "ad_make name pub" cs] assms(2) by simp_all
  have "a' = snd (ad_pop_frame p (ad_drain_cmds a))" using assms(3) by (simp add: ad_publish_turn_def split: if_splits)
  then show ?thesis using ad_drain_cmds_spec [OF run(1)] ad_pop_frame_subs [OF assms(1)] run(2) by simp
qed

text \<open>
  Frames are parsed once each, in the order they arrived. In any run
  of frames and publisher turns, with or without a stop, after the final drain the decoder has
  seen a subsequence of the frames offered, in order, and the frames missing from it are those
  \<open>dropped_frames_\<close> counts (modulo \<open>2 ^ 64\<close>); the queue is empty.
\<close>
theorem ad_frames_parsed_in_order:
  assumes "\<forall>c \<in> set cs. sub_calls_of c = []" "a = fold (ad_step p) cs (ad_make name pub)"
  shows "\<exists>parsed. subseq parsed (concat (map frames_of cs)) \<and>
      ad_view (ad_drain_frames p a) = parse_all p parsed (sub_init, pub) \<and>
      ad_dropped_frames a + of_nat (length parsed) = of_nat (length (concat (map frames_of cs))) \<and>
      sq_frames QUEUE_CAPACITY (ad_frame_queue (ad_drain_frames p a)) = []"
proof -
  have "ad_flow p (sub_init, pub) (concat (map frames_of cs)) a"
    using ad_flow_run [OF ad_flow_make assms(1)] assms(2) by simp
  then obtain parsed where q: "sq_inv QUEUE_CAPACITY SLOT_BYTES (ad_frame_queue a)"
    and v: "ad_view a = parse_all p parsed (sub_init, pub)"
    and s: "subseq (parsed @ sq_frames QUEUE_CAPACITY (ad_frame_queue a)) (concat (map frames_of cs))"
    and n: "ad_dropped_frames a + of_nat (length (parsed @ sq_frames QUEUE_CAPACITY (ad_frame_queue a)))
      = of_nat (length (concat (map frames_of cs)))"
    unfolding ad_flow_def by blast
  obtain q' where q': "sq_frames QUEUE_CAPACITY q' = []" and d: "ad_drain_frames p a
      = (fold (parse_one p) (sq_frames QUEUE_CAPACITY (ad_frame_queue a)) a)\<lparr>ad_frame_queue := q'\<rparr>"
    using ad_drain_frames_spec [OF q] by blast
  have "ad_view (ad_drain_frames p a) = ad_view (fold (parse_one p) (sq_frames QUEUE_CAPACITY (ad_frame_queue a)) a)"
    using d by (simp add: ad_view_def)
  then have "ad_view (ad_drain_frames p a)
      = parse_all p (parsed @ sq_frames QUEUE_CAPACITY (ad_frame_queue a)) (sub_init, pub)"
    using v by (simp add: ad_view_parse_all) (simp add: parse_all_def)
  moreover have "sq_frames QUEUE_CAPACITY (ad_frame_queue (ad_drain_frames p a)) = []" using q' d by simp
  ultimately show ?thesis using s n by blast
qed

text \<open>A decoder that ignores its frames, and two short runs.\<close>

definition null_decoder :: parse_hook where
  "null_decoder payload r sm = sm"

definition demo_pub :: md_publisher where
  "demo_pub = mp_make (Fin 10) quiet_cfg"

lemma ad_commands_applied_witness:
  "map_of (by_id (ad_subs (the (ad_publish_turn null_decoder (fold (ad_step null_decoder)
     [Ad_Subscribe 1 ''BTC'' 5, Ad_Publish, Ad_Subscribe 2 ''ETH'' 0, Ad_Unsubscribe 1] (ad_make ''OKX'' demo_pub))))))
   = [2 \<mapsto> \<lparr>se_symbol = ''ETH'', se_depth = 0\<rparr>]"
proof -
  let ?cs = "[Ad_Subscribe 1 ''BTC'' 5, Ad_Publish, Ad_Subscribe 2 ''ETH'' 0, Ad_Unsubscribe 1]"
  let ?a = "fold (ad_step null_decoder) ?cs (ad_make ''OKX'' demo_pub)"
  have p: "parse_reads null_decoder" by (simp add: parse_reads_def null_decoder_def)
  have "\<not> ad_stop_flag (ad_drain_cmds b) \<longleftrightarrow> \<not> ad_stop_flag b" for b
    using apply_sub_cmds_stop by (simp add: ad_drain_cmds_def split_beta)
  then have "\<not> ad_stop_flag ?a"
    by (simp add: ad_make_def ad_publish_turn_def ad_subscribe_def ad_unsubscribe_def ad_pop_frame_stop)
  then obtain a' where t: "ad_publish_turn null_decoder ?a = Some a'" by (simp add: ad_publish_turn_def)
  have "map_of (by_id (ad_subs a')) = fold entry_step (concat (map sub_calls_of ?cs)) Map.empty"
    using ad_commands_applied [OF p refl t] by blast
  then show ?thesis using t by (simp add: fun_upd_twist)
qed

lemma ad_frames_parsed_in_order_witness:
  "sq_frames QUEUE_CAPACITY (ad_frame_queue (ad_drain_frames null_decoder (fold (ad_step null_decoder)
     [Ad_Frame ''{}'' 1, Ad_Publish, Ad_Frame ''[]'' 2, Ad_Stop] (ad_make ''OKX'' demo_pub)))) = []"
  using ad_frames_parsed_in_order [of "[Ad_Frame ''{}'' 1, Ad_Publish, Ad_Frame ''[]'' 2, Ad_Stop]", OF _ refl]
  by auto

text \<open>
  The hypothesis on the symbols is needed. When two instruments are
  subscribed under one symbol, unsubscribing either of them makes the symbol unknown, although
  the other is still subscribed.
\<close>
theorem sub_shared_symbol_lost:
  assumes "i \<noteq> j" "k = i \<or> k = j"
    "s = fold sub_step [Subscribe i sy d, Subscribe j sy d', Unsubscribe k] s0"
  shows "sub_find sy s = (0, 0) \<and> (\<exists>r \<in> {i, j}. map_of (by_id s) r \<noteq> None)"
proof -
  have "map_of (by_symbol s) sy = None"
    using assms by (auto simp: sub_unsubscribe_def)
  moreover have "\<exists>r \<in> {i, j}. map_of (by_id s) r \<noteq> None" using assms by auto
  ultimately show ?thesis by (simp add: sub_find_def)
qed

lemma sub_shared_symbol_lost_witness:
  "sub_find ''BTC'' (fold sub_step [Subscribe 1 ''BTC'' 5, Subscribe 2 ''BTC'' 5, Unsubscribe 1] sub_init) = (0, 0)"
  using sub_shared_symbol_lost [where i = 1 and j = 2 and k = 1 and sy = "''BTC''" and d = 5 and d' = 5
      and ?s0.0 = sub_init, OF _ _ refl] by simp

definition demo_name :: "u64 \<Rightarrow> string" where
  "demo_name i = replicate (unat i) (CHR ''x'')"

lemma sub_lookup_exact_witness:
  "sub_find (demo_name 2) (fold sub_step [Subscribe 1 (demo_name 1) 5, Subscribe 2 (demo_name 2) 0,
      Subscribe 2 (demo_name 2) 7, Unsubscribe 1] sub_init) = (2, 7)"
proof -
  have "inj demo_name"
  proof (rule injI)
    fix i j :: u64
    assume "demo_name i = demo_name j"
    then have "length (demo_name i) = length (demo_name j)" by simp
    then show "i = j" by (simp add: demo_name_def word_unat_eq_iff)
  qed
  from sub_lookup_exact [OF this, of "[Subscribe 1 (demo_name 1) 5, Subscribe 2 (demo_name 2) 0,
      Subscribe 2 (demo_name 2) 7, Unsubscribe 1]" 2] show ?thesis by simp
qed

end
