(* ===== verification/Subscription_Manager.thy ===== *)
theory Subscription_Manager
  imports Md_Adapter Messages
begin

text \<open>
  \<open>SubscriptionManager\<close> of the market-data gateway
  (\<open>src/bpt-md-gateway/src/subscription/subscription_manager.cpp\<close>): each consumer replaces its
  own set of wanted instruments, the manager subscribes the venue adapters to the union. The
  adapters are those of \<open>Md_Adapter\<close>, so what is proved here reaches their subscription maps.
  A \<open>std::unordered_set\<close> is a list without duplicates.
\<close>

record subscribe_request =
  sr_instrument_id :: u64
  sr_exchange :: string
  sr_symbol :: string
  sr_depth :: u8

record subscribed_instrument =
  si_instrument_id :: u64
  si_exchange :: string
  si_symbol :: string
  si_depth :: u8
  si_wanters :: "u64 list"

record subscription_manager =
  su_adapters :: "md_adapter list"
  su_active :: "(u64, subscribed_instrument) umap"
  su_per_consumer :: "(u64, u64 list) umap"

record md_ack =
  ak_correlation_id :: u64
  ak_instrument_id :: u64
  ak_exchange :: string
  ak_status :: ack_status

definition su_init :: subscription_manager where
  "su_init = \<lparr>su_adapters = [], su_active = [], su_per_consumer = []\<rparr>"

definition su_add_adapter :: "md_adapter \<Rightarrow> subscription_manager \<Rightarrow> subscription_manager" where
  "su_add_adapter a m = m\<lparr>su_adapters := su_adapters m @ [a]\<rparr>"

text \<open>The adapter pointer is the index of the first adapter of that name.\<close>

definition su_find_adapter :: "string \<Rightarrow> subscription_manager \<Rightarrow> nat option" where
  "su_find_adapter exchange m =
     (let i = length (takeWhile (\<lambda>a. exchange \<noteq> ad_exchange_name a) (su_adapters m))
      in if i < length (su_adapters m) then Some i else None)"

definition su_with_adapter ::
  "nat \<Rightarrow> (md_adapter \<Rightarrow> md_adapter) \<Rightarrow> subscription_manager \<Rightarrow> subscription_manager" where
  "su_with_adapter i f m = m\<lparr>su_adapters := (su_adapters m)[i := f (su_adapters m ! i)]\<rparr>"

subsection \<open>Applying a batch\<close>

definition su_drop_id :: "u64 \<Rightarrow> u64 list \<Rightarrow> u64 \<Rightarrow> subscription_manager \<Rightarrow> subscription_manager" where
  "su_drop_id correlation_id new_set old_id m =
     (if old_id \<in> set new_set then m
      else case map_of (su_active m) old_id of
             None \<Rightarrow> m
           | Some si \<Rightarrow>
               let si = si\<lparr>si_wanters := removeAll correlation_id (si_wanters si)\<rparr>;
                   m = m\<lparr>su_active := AList.update old_id si (su_active m)\<rparr>
               in if si_wanters si = [] then
                    let m = (case su_find_adapter (si_exchange si) m of
                               None \<Rightarrow> m
                             | Some i \<Rightarrow> su_with_adapter i (ad_unsubscribe old_id) m)
                    in m\<lparr>su_active := AList.delete old_id (su_active m)\<rparr>
                  else m)"

definition su_want :: "u64 \<Rightarrow> subscribe_request \<Rightarrow> subscription_manager \<Rightarrow> md_ack list \<times> subscription_manager" where
  "su_want correlation_id d m =
     (let ack = \<lparr>ak_correlation_id = correlation_id, ak_instrument_id = sr_instrument_id d,
                 ak_exchange = sr_exchange d, ak_status = ACK_OK\<rparr>
      in case su_find_adapter (sr_exchange d) m of
           None \<Rightarrow> ([ack\<lparr>ak_status := ACK_NOT_FOUND\<rparr>], m)
         | Some i \<Rightarrow>
             let si = (case map_of (su_active m) (sr_instrument_id d) of
                         Some si \<Rightarrow> si
                       | None \<Rightarrow> \<lparr>si_instrument_id = sr_instrument_id d, si_exchange = sr_exchange d,
                                  si_symbol = sr_symbol d, si_depth = sr_depth d, si_wanters = []\<rparr>);
                 first_wanter = (si_wanters si = []);
                 si = si\<lparr>si_wanters := List.insert correlation_id (si_wanters si)\<rparr>;
                 m = m\<lparr>su_active := AList.update (sr_instrument_id d) si (su_active m)\<rparr>;
                 m = (if first_wanter
                      then su_with_adapter i (ad_subscribe (sr_instrument_id d) (sr_symbol d) (sr_depth d)) m
                      else m)
             in ([ack], m))"

fun su_want_all ::
  "u64 \<Rightarrow> subscribe_request list \<Rightarrow> subscription_manager \<Rightarrow> md_ack list \<times> subscription_manager" where
  "su_want_all correlation_id [] m = ([], m)"
| "su_want_all correlation_id (d # ds) m =
     (let (a, m) = su_want correlation_id d m; (as, m) = su_want_all correlation_id ds m in (a @ as, m))"

definition apply_requests ::
  "u64 \<Rightarrow> subscribe_request list \<Rightarrow> subscription_manager \<Rightarrow> md_ack list \<times> subscription_manager" where
  "apply_requests correlation_id desired m =
     (let new_set = fold List.insert (map sr_instrument_id desired) [];
          prev_set = (case map_of (su_per_consumer m) correlation_id of Some s \<Rightarrow> s | None \<Rightarrow> []);
          m = fold (su_drop_id correlation_id new_set) prev_set m;
          m = m\<lparr>su_per_consumer := AList.update correlation_id new_set (su_per_consumer m)\<rparr>
      in su_want_all correlation_id desired m)"

text \<open>The batch as it arrives: exchange names cut to the eight characters of the wire format.\<close>

record md_subscribe_batch =
  sb_correlation_id :: u64
  sb_instruments :: "subscribe_request list"

definition canonicalize :: "string \<Rightarrow> string" where
  "canonicalize s = (if s = ''HYPERLIQ'' then ''HYPERLIQUID'' else s)"

definition apply_batch :: "md_subscribe_batch \<Rightarrow> subscription_manager \<Rightarrow> md_ack list \<times> subscription_manager" where
  "apply_batch msg m =
     apply_requests (sb_correlation_id msg)
       (map (\<lambda>r. r\<lparr>sr_exchange := canonicalize (sr_exchange r)\<rparr>) (sb_instruments msg)) m"

definition publish_subscription_heartbeats :: "subscription_manager \<Rightarrow> u64 list" where
  "publish_subscription_heartbeats m = map fst (su_active m)"

definition su_stop_all :: "subscription_manager \<Rightarrow> subscription_manager" where
  "su_stop_all m = m\<lparr>su_adapters := map ad_stop (su_adapters m)\<rparr>"

definition active_count :: "subscription_manager \<Rightarrow> nat" where
  "active_count m = length (su_active m)"

subsection \<open>Views of the state\<close>

text \<open>
  The consumers that want an instrument, and what the venue of an exchange will be subscribed to
  once its adapter has drained its commands.
\<close>

definition su_wanters :: "subscription_manager \<Rightarrow> u64 \<Rightarrow> u64 set" where
  "su_wanters m i = (case map_of (su_active m) i of None \<Rightarrow> {} | Some si \<Rightarrow> set (si_wanters si))"

definition su_venue :: "subscription_manager \<Rightarrow> string \<Rightarrow> u64 \<rightharpoonup> sub_entry" where
  "su_venue m e = (case su_find_adapter e m of None \<Rightarrow> Map.empty | Some i \<Rightarrow> ad_wanted (su_adapters m ! i))"

definition su_target :: "subscription_manager \<Rightarrow> string \<Rightarrow> u64 \<rightharpoonup> sub_entry" where
  "su_target m e i =
     (case map_of (su_active m) i of
        None \<Rightarrow> None
      | Some si \<Rightarrow> if si_exchange si = e then Some \<lparr>se_symbol = si_symbol si, se_depth = si_depth si\<rparr> else None)"

definition su_known :: "subscription_manager \<Rightarrow> string \<Rightarrow> bool" where
  "su_known m e \<longleftrightarrow> su_find_adapter e m \<noteq> None"

text \<open>
  The invariant: an active instrument has a wanter, its exchange has an adapter, a wanter's set
  holds the instrument, and the adapters are subscribed to what is active.
\<close>

definition su_inv :: "subscription_manager \<Rightarrow> bool" where
  "su_inv m \<longleftrightarrow>
     (\<forall>i si. map_of (su_active m) i = Some si \<longrightarrow> si_wanters si \<noteq> [] \<and> su_known m (si_exchange si)) \<and>
     su_venue m = su_target m"

definition su_within :: "subscription_manager \<Rightarrow> bool" where
  "su_within m \<longleftrightarrow> (\<forall>c i. c \<in> su_wanters m i \<longrightarrow>
     (\<exists>s. map_of (su_per_consumer m) c = Some s \<and> i \<in> set s))"

lemma su_find_adapter_Some:
  assumes "su_find_adapter e m = Some i"
  shows "i < length (su_adapters m)" "ad_exchange_name (su_adapters m ! i) = e"
proof -
  have i: "i = length (takeWhile (\<lambda>a. e \<noteq> ad_exchange_name a) (su_adapters m))" and l: "i < length (su_adapters m)"
    using assms by (auto simp: su_find_adapter_def Let_def split: if_splits)
  show "i < length (su_adapters m)" by (rule l)
  show "ad_exchange_name (su_adapters m ! i) = e"
    using nth_length_takeWhile [of "\<lambda>a. e \<noteq> ad_exchange_name a" "su_adapters m"] i l by simp
qed

lemma takeWhile_length_cong:
  "map f xs = map f ys \<Longrightarrow> length (takeWhile (\<lambda>a. P (f a)) xs) = length (takeWhile (\<lambda>a. P (f a)) ys)"
proof (induction xs arbitrary: ys)
  case (Cons x xs)
  then obtain y zs where "ys = y # zs" "f x = f y" "map f xs = map f zs" by (cases ys) auto
  then show ?case using Cons.IH [of zs] by simp
qed simp

lemma su_find_adapter_cong:
  assumes "map ad_exchange_name (su_adapters m') = map ad_exchange_name (su_adapters m)"
  shows "su_find_adapter e m' = su_find_adapter e m"
  using takeWhile_length_cong [OF assms, of "\<lambda>n. e \<noteq> n"] map_eq_imp_length_eq [OF assms]
  by (simp add: su_find_adapter_def)

lemma su_with_adapter_names:
  assumes "\<And>a. ad_exchange_name (f a) = ad_exchange_name a"
  shows "map ad_exchange_name (su_adapters (su_with_adapter i f m)) = map ad_exchange_name (su_adapters m)"
proof (cases "i < length (su_adapters m)")
  case True
  let ?n = "map ad_exchange_name (su_adapters m)"
  have "map ad_exchange_name (su_adapters (su_with_adapter i f m)) = ?n[i := ad_exchange_name (su_adapters m ! i)]"
    by (simp add: su_with_adapter_def map_update assms)
  also have "ad_exchange_name (su_adapters m ! i) = ?n ! i" using True by simp
  finally show ?thesis by (simp only: list_update_id)
qed (simp add: su_with_adapter_def list_update_beyond)

lemma su_with_adapter_frame [simp]:
  "su_active (su_with_adapter i f m) = su_active m" "su_per_consumer (su_with_adapter i f m) = su_per_consumer m"
  by (simp_all add: su_with_adapter_def)

lemma su_venue_with_adapter:
  assumes "\<And>a. ad_exchange_name (f a) = ad_exchange_name a" "su_find_adapter e m = Some i"
  shows "su_venue (su_with_adapter i f m) = (su_venue m)(e := ad_wanted (f (su_adapters m ! i)))"
proof
  fix e'
  have find: "su_find_adapter e' (su_with_adapter i f m) = su_find_adapter e' m"
    by (rule su_find_adapter_cong [OF su_with_adapter_names]) (rule assms(1))
  show "su_venue (su_with_adapter i f m) e' = ((su_venue m)(e := ad_wanted (f (su_adapters m ! i)))) e'"
  proof (cases "su_find_adapter e' m")
    case None
    then show ?thesis using find assms(2) by (auto simp: su_venue_def)
  next
    case (Some j)
    then have "i = j \<longleftrightarrow> e = e'" using assms(2) su_find_adapter_Some(2) by (metis option.inject)
    then show ?thesis using Some find assms(2) su_find_adapter_Some(1) [OF assms(2)]
      by (auto simp: su_venue_def su_with_adapter_def)
  qed
qed

lemma ad_wanted_subscribe [simp]:
  "ad_wanted (ad_subscribe i sy d a) = (ad_wanted a)(i \<mapsto> \<lparr>se_symbol = sy, se_depth = d\<rparr>)"
  "ad_wanted (ad_unsubscribe i a) = (ad_wanted a)(i := None)"
  by (simp_all add: ad_wanted_def ad_subscribe_def ad_unsubscribe_def cq_push_def cmd_call_def)

lemma ad_subscribe_name [simp]:
  "ad_exchange_name (ad_subscribe i sy d a) = ad_exchange_name a"
  "ad_exchange_name (ad_unsubscribe i a) = ad_exchange_name a"
  by (simp_all add: ad_subscribe_def ad_unsubscribe_def)

lemma su_known_with_adapter:
  assumes "\<And>a. ad_exchange_name (f a) = ad_exchange_name a"
  shows "su_known (su_with_adapter i f m) = su_known m"
  by (simp add: fun_eq_iff su_known_def su_find_adapter_cong [OF su_with_adapter_names] assms)

lemma su_update_find [simp]:
  "su_find_adapter e (m\<lparr>su_active := x\<rparr>) = su_find_adapter e m"
  "su_find_adapter e (m\<lparr>su_per_consumer := y\<rparr>) = su_find_adapter e m"
  by (simp_all add: su_find_adapter_def)

lemma su_update_frame [simp]:
  "su_known (m\<lparr>su_active := x\<rparr>) = su_known m" "su_venue (m\<lparr>su_active := x\<rparr>) = su_venue m"
  "su_known (m\<lparr>su_per_consumer := y\<rparr>) = su_known m" "su_venue (m\<lparr>su_per_consumer := y\<rparr>) = su_venue m"
  by (simp_all add: su_known_def su_venue_def fun_eq_iff split: option.splits)

lemma su_per_consumer_frame [simp]:
  "su_target (m\<lparr>su_per_consumer := y\<rparr>) = su_target m" "su_wanters (m\<lparr>su_per_consumer := y\<rparr>) = su_wanters m"
  "su_inv (m\<lparr>su_per_consumer := y\<rparr>) = su_inv m"
proof -
  show t: "su_target (m\<lparr>su_per_consumer := y\<rparr>) = su_target m"
    by (intro ext) (simp add: su_target_def)
  show "su_wanters (m\<lparr>su_per_consumer := y\<rparr>) = su_wanters m" by (intro ext) (simp add: su_wanters_def)
  show "su_inv (m\<lparr>su_per_consumer := y\<rparr>) = su_inv m" by (simp add: su_inv_def t)
qed

subsection \<open>The steps of a batch\<close>

lemma su_drop_id_spec:
  assumes "su_inv m"
  shows "su_inv (su_drop_id c new_set i m) \<and> su_known (su_drop_id c new_set i m) = su_known m \<and>
    su_per_consumer (su_drop_id c new_set i m) = su_per_consumer m \<and>
    su_wanters (su_drop_id c new_set i m) =
      (if i \<in> set new_set then su_wanters m else (su_wanters m)(i := su_wanters m i - {c}))"
proof (cases "i \<in> set new_set \<or> map_of (su_active m) i = None")
  case True
  then have "su_drop_id c new_set i m = m" by (auto simp: su_drop_id_def)
  then show ?thesis using assms True by (auto simp: su_wanters_def fun_eq_iff)
next
  case False
  then obtain si where new: "i \<notin> set new_set" and si: "map_of (su_active m) i = Some si" by auto
  have inv: "\<And>j sj. map_of (su_active m) j = Some sj \<Longrightarrow> si_wanters sj \<noteq> [] \<and> su_known m (si_exchange sj)"
    and venue: "su_venue m = su_target m" using assms by (auto simp: su_inv_def)
  let ?si = "si\<lparr>si_wanters := removeAll c (si_wanters si)\<rparr>"
  show ?thesis
  proof (cases "removeAll c (si_wanters si) = []")
    case False
    then have m': "su_drop_id c new_set i m = m\<lparr>su_active := AList.update i ?si (su_active m)\<rparr>"
      using new si by (simp add: su_drop_id_def Let_def)
    have "su_target (m\<lparr>su_active := AList.update i ?si (su_active m)\<rparr>) = su_target m"
      using si by (simp add: su_target_def fun_eq_iff)
    then show ?thesis unfolding m' using inv si False new venue
      by (auto simp: su_inv_def su_wanters_def fun_eq_iff)
  next
    case True
    obtain a where a: "su_find_adapter (si_exchange si) m = Some a" using inv [OF si] by (auto simp: su_known_def)
    let ?m1 = "m\<lparr>su_active := AList.update i ?si (su_active m)\<rparr>"
    have m': "su_drop_id c new_set i m = (su_with_adapter a (ad_unsubscribe i) ?m1)\<lparr>su_active := AList.delete i (su_active ?m1)\<rparr>"
      using new si True a by (simp add: su_drop_id_def Let_def)
    have v: "su_venue (su_drop_id c new_set i m) = (su_venue m)(si_exchange si := (su_venue m (si_exchange si))(i := None))"
      unfolding m' using a by (simp add: su_venue_with_adapter [where e = "si_exchange si"]) (simp add: su_venue_def)
    have k: "su_known (su_drop_id c new_set i m) = su_known m"
      unfolding m' by (simp add: fun_eq_iff su_known_with_adapter)
    have act: "map_of (su_active (su_drop_id c new_set i m)) = (map_of (su_active m))(i := None)"
      unfolding m' by simp
    have "set (si_wanters si) - {c} = {}" using True by (metis set_removeAll list.set(1))
    then have w: "su_wanters (su_drop_id c new_set i m) = (su_wanters m)(i := su_wanters m i - {c})"
      using act si by (simp add: su_wanters_def fun_eq_iff)
    have "su_target (su_drop_id c new_set i m) = su_venue (su_drop_id c new_set i m)"
      unfolding v venue using act si by (auto simp: su_target_def fun_eq_iff)
    then have "su_inv (su_drop_id c new_set i m)" using inv act k by (auto simp: su_inv_def fun_eq_iff split: if_splits)
    moreover have "su_per_consumer (su_drop_id c new_set i m) = su_per_consumer m" unfolding m' by simp
    ultimately show ?thesis using k w new by simp
  qed
qed

lemma su_want_spec:
  assumes "su_inv m"
  shows "su_inv (snd (su_want c d m)) \<and> su_known (snd (su_want c d m)) = su_known m \<and>
    su_per_consumer (snd (su_want c d m)) = su_per_consumer m \<and>
    su_wanters (snd (su_want c d m)) =
      (if su_known m (sr_exchange d) then (su_wanters m)(sr_instrument_id d := insert c (su_wanters m (sr_instrument_id d)))
       else su_wanters m)"
proof (cases "su_find_adapter (sr_exchange d) m")
  case None
  then show ?thesis using assms by (simp add: su_want_def su_known_def)
next
  case (Some a)
  have inv: "\<And>j sj. map_of (su_active m) j = Some sj \<Longrightarrow> si_wanters sj \<noteq> [] \<and> su_known m (si_exchange sj)"
    and venue: "su_venue m = su_target m" using assms by (auto simp: su_inv_def)
  let ?i = "sr_instrument_id d"
  show ?thesis
  proof (cases "map_of (su_active m) ?i")
    case (Some si)
    let ?si = "si\<lparr>si_wanters := List.insert c (si_wanters si)\<rparr>"
    have m': "snd (su_want c d m) = m\<lparr>su_active := AList.update ?i ?si (su_active m)\<rparr>"
      using inv [OF Some] Some \<open>su_find_adapter (sr_exchange d) m = Some a\<close> by (simp add: su_want_def)
    have ne: "List.insert c xs \<noteq> []" for xs by (cases xs) (simp_all add: List.insert_def)
    have "su_target (m\<lparr>su_active := AList.update ?i ?si (su_active m)\<rparr>) = su_target m"
      using Some by (simp add: su_target_def fun_eq_iff)
    then show ?thesis unfolding m' using inv Some venue ne \<open>su_find_adapter (sr_exchange d) m = Some a\<close>
      by (auto simp: su_inv_def su_wanters_def fun_eq_iff su_known_def)
  next
    case None
    let ?si = "\<lparr>si_instrument_id = ?i, si_exchange = sr_exchange d, si_symbol = sr_symbol d,
      si_depth = sr_depth d, si_wanters = [c]\<rparr>"
    let ?m1 = "m\<lparr>su_active := AList.update ?i ?si (su_active m)\<rparr>"
    have m': "snd (su_want c d m) = su_with_adapter a (ad_subscribe ?i (sr_symbol d) (sr_depth d)) ?m1"
      using None Some by (simp add: su_want_def)
    have v: "su_venue (snd (su_want c d m)) = (su_venue m)(sr_exchange d := (su_venue m (sr_exchange d))(?i \<mapsto>
        \<lparr>se_symbol = sr_symbol d, se_depth = sr_depth d\<rparr>))"
      unfolding m' using Some by (simp add: su_venue_with_adapter [where e = "sr_exchange d"]) (simp add: su_venue_def)
    have k: "su_known (snd (su_want c d m)) = su_known m"
      unfolding m' by (simp add: fun_eq_iff su_known_with_adapter)
    have act: "map_of (su_active (snd (su_want c d m))) = (map_of (su_active m))(?i \<mapsto> ?si)"
      unfolding m' by simp
    have known: "su_known m (sr_exchange d)" using Some by (simp add: su_known_def)
    have w: "su_wanters (snd (su_want c d m)) = (su_wanters m)(?i := insert c (su_wanters m ?i))"
      using act None by (simp add: su_wanters_def fun_eq_iff)
    have "su_target (snd (su_want c d m)) = su_venue (snd (su_want c d m))"
      unfolding v venue using act None by (auto simp: su_target_def fun_eq_iff)
    then have "su_inv (snd (su_want c d m))" using inv act k known by (auto simp: su_inv_def split: if_splits)
    moreover have "su_per_consumer (snd (su_want c d m)) = su_per_consumer m" unfolding m' by simp
    ultimately show ?thesis using k w known by simp
  qed
qed

lemma su_drop_all_spec:
  "su_inv m \<Longrightarrow> su_inv (fold (su_drop_id c new_set) prev m) \<and>
    su_known (fold (su_drop_id c new_set) prev m) = su_known m \<and>
    su_per_consumer (fold (su_drop_id c new_set) prev m) = su_per_consumer m \<and>
    su_wanters (fold (su_drop_id c new_set) prev m) =
      (\<lambda>i. if i \<in> set prev \<and> i \<notin> set new_set then su_wanters m i - {c} else su_wanters m i)"
proof (induction prev arbitrary: m)
  case (Cons i prev)
  note step = su_drop_id_spec [OF Cons.prems, of c new_set i]
  show ?case using Cons.IH [of "su_drop_id c new_set i m"] step by (auto simp: fun_eq_iff)
qed (simp add: fun_eq_iff)

lemma su_want_all_spec:
  "su_inv m \<Longrightarrow> su_inv (snd (su_want_all c ds m)) \<and> su_known (snd (su_want_all c ds m)) = su_known m \<and>
    su_per_consumer (snd (su_want_all c ds m)) = su_per_consumer m \<and>
    su_wanters (snd (su_want_all c ds m)) =
      (\<lambda>i. if \<exists>d \<in> set ds. sr_instrument_id d = i \<and> su_known m (sr_exchange d)
           then insert c (su_wanters m i) else su_wanters m i)"
proof (induction ds arbitrary: m)
  case (Cons d ds)
  note step = su_want_spec [OF Cons.prems, of c d]
  show ?case using Cons.IH [of "snd (su_want c d m)"] step by (auto simp: fun_eq_iff Let_def split_beta)
qed (simp add: fun_eq_iff)

lemma set_fold_insert: "set (fold List.insert xs ys) = set xs \<union> set ys"
  by (induction xs arbitrary: ys) auto

text \<open>The whole batch: the consumer's wants are replaced, nobody else's change.\<close>

lemma apply_requests_spec:
  assumes "su_inv m" "su_within m"
    and m'_def: "m' = snd (apply_requests c ds m)"
  shows "su_inv m'" "su_within m'" "su_known m' = su_known m"
    "c' \<in> su_wanters m' i \<longleftrightarrow>
      (if c' = c then (\<exists>d \<in> set ds. sr_instrument_id d = i \<and> su_known m (sr_exchange d)) \<or>
         (c \<in> su_wanters m i \<and> i \<in> sr_instrument_id ` set ds)
       else c' \<in> su_wanters m i)"
proof -
  define new_set where "new_set = fold List.insert (map sr_instrument_id ds) []"
  define prev where "prev = (case map_of (su_per_consumer m) c of Some s \<Rightarrow> s | None \<Rightarrow> [])"
  define m1 where "m1 = fold (su_drop_id c new_set) prev m"
  define m2 where "m2 = m1\<lparr>su_per_consumer := AList.update c new_set (su_per_consumer m1)\<rparr>"
  have m': "m' = snd (su_want_all c ds m2)"
    by (simp add: m'_def apply_requests_def Let_def m2_def m1_def prev_def new_set_def)
  have new: "set new_set = sr_instrument_id ` set ds" by (simp add: new_set_def set_fold_insert)
  note drop = su_drop_all_spec [OF assms(1), of c new_set prev, folded m1_def]
  have m2: "su_inv m2" "su_known m2 = su_known m" "su_wanters m2 = su_wanters m1"
    "map_of (su_per_consumer m2) = (map_of (su_per_consumer m))(c \<mapsto> new_set)"
    using drop by (simp_all add: m2_def)
  note want = su_want_all_spec [OF m2(1), of c ds, folded m']
  show "su_inv m'" "su_known m' = su_known m" using want m2(2) by simp_all
  have prev: "i \<in> set prev" if w: "c \<in> su_wanters m i" for i
  proof -
    obtain s where "map_of (su_per_consumer m) c = Some s" "i \<in> set s"
      using assms(2) w unfolding su_within_def by blast
    then show ?thesis by (simp add: prev_def)
  qed
  have w1: "su_wanters m1 i = (if i \<in> set prev \<and> i \<notin> set new_set then su_wanters m i - {c} else su_wanters m i)" for i
    using drop by simp
  have wm: "su_wanters m' i = (if \<exists>d \<in> set ds. sr_instrument_id d = i \<and> su_known m (sr_exchange d)
      then insert c (su_wanters m1 i) else su_wanters m1 i)" for i
    using want m2(2,3) by auto
  have mem: "c' \<in> su_wanters m' i \<longleftrightarrow>
      (if c' = c then (\<exists>d \<in> set ds. sr_instrument_id d = i \<and> su_known m (sr_exchange d)) \<or>
         (c \<in> su_wanters m i \<and> i \<in> sr_instrument_id ` set ds)
       else c' \<in> su_wanters m i)" for c' i
    unfolding wm w1 using prev [of i] new by auto
  then show "c' \<in> su_wanters m' i \<longleftrightarrow>
      (if c' = c then (\<exists>d \<in> set ds. sr_instrument_id d = i \<and> su_known m (sr_exchange d)) \<or>
         (c \<in> su_wanters m i \<and> i \<in> sr_instrument_id ` set ds)
       else c' \<in> su_wanters m i)" .
  have pc: "map_of (su_per_consumer m') = (map_of (su_per_consumer m))(c \<mapsto> new_set)" using want m2(4) by simp
  have old: "\<exists>s. map_of (su_per_consumer m) c' = Some s \<and> i \<in> set s" if w: "c' \<in> su_wanters m i" for c' i
    using assms(2) w unfolding su_within_def by blast
  show "su_within m'"
    unfolding su_within_def pc
  proof (intro allI impI)
    fix c' i
    assume "c' \<in> su_wanters m' i"
    then show "\<exists>s. ((map_of (su_per_consumer m))(c \<mapsto> new_set)) c' = Some s \<and> i \<in> set s"
      unfolding mem using old [of c' i] new by (auto split: if_splits)
  qed
qed

subsection \<open>Runs\<close>

text \<open>Batches from the control thread, frames and publisher turns of the adapters.\<close>

datatype su_call = Batch u64 "subscribe_request list" | Adapter_Frame nat string u64 | Adapter_Publish nat

fun su_step :: "parse_hook \<Rightarrow> su_call \<Rightarrow> subscription_manager \<Rightarrow> subscription_manager" where
  "su_step p (Batch c ds) m = snd (apply_requests c ds m)"
| "su_step p (Adapter_Frame j payload r) m = su_with_adapter j (ad_step p (Ad_Frame payload r)) m"
| "su_step p (Adapter_Publish j) m = su_with_adapter j (ad_step p Ad_Publish) m"

fun last_batch :: "su_call \<Rightarrow> (u64 \<Rightarrow> u64 set) \<Rightarrow> (u64 \<Rightarrow> u64 set)" where
  "last_batch (Batch c ds) w = w(c := sr_instrument_id ` set ds)"
| "last_batch _ w = w"

fun su_call_known :: "string set \<Rightarrow> su_call \<Rightarrow> bool" where
  "su_call_known es (Batch c ds) = (sr_exchange ` set ds \<subseteq> es)"
| "su_call_known es _ = True"

definition su_ads_ok :: "subscription_manager \<Rightarrow> bool" where
  "su_ads_ok m \<longleftrightarrow> list_all ad_inv (su_adapters m)"

lemma ad_step_name: "sub_calls_of c = [] \<Longrightarrow> ad_exchange_name (ad_step p c a) = ad_exchange_name a"
  by (cases c) (auto simp: push_frame_def ad_publish_turn_def ad_pop_frame_def ad_drain_cmds_def parse_one_def
      ad_stop_def split_beta split: option.splits)

lemma su_ads_ok_with_adapter:
  "su_ads_ok m \<Longrightarrow> (\<And>a. ad_inv a \<Longrightarrow> ad_inv (f a)) \<Longrightarrow> su_ads_ok (su_with_adapter i f m)"
  by (cases "i < length (su_adapters m)")
    (auto simp: su_ads_ok_def su_with_adapter_def list_all_iff list_update_beyond dest!: subsetD [OF set_update_subset_insert])

lemma ad_inv_subscribe: "ad_inv a \<Longrightarrow> ad_inv (ad_subscribe i sy d a)" "ad_inv a \<Longrightarrow> ad_inv (ad_unsubscribe i a)"
  by (simp_all add: ad_inv_def ad_subscribe_def ad_unsubscribe_def cq_push_def)

lemma su_ads_ok_frame [simp]:
  "su_ads_ok (m\<lparr>su_active := x\<rparr>) = su_ads_ok m" "su_ads_ok (m\<lparr>su_per_consumer := y\<rparr>) = su_ads_ok m"
  by (simp_all add: su_ads_ok_def)

lemma su_drop_id_ok: "su_ads_ok m \<Longrightarrow> su_ads_ok (su_drop_id c new_set i m)"
  by (simp add: su_drop_id_def Let_def ad_inv_subscribe su_ads_ok_with_adapter split: option.splits)

lemma su_want_ok: "su_ads_ok m \<Longrightarrow> su_ads_ok (snd (su_want c d m))"
  by (simp add: su_want_def Let_def ad_inv_subscribe su_ads_ok_with_adapter split: option.splits)

lemma su_want_all_ok: "su_ads_ok m \<Longrightarrow> su_ads_ok (snd (su_want_all c ds m))"
  by (induction ds arbitrary: m) (simp_all add: Let_def split_beta su_want_ok)

lemma apply_requests_ok:
  assumes "su_ads_ok m"
  shows "su_ads_ok (snd (apply_requests c ds m))"
proof -
  have "su_ads_ok (fold (su_drop_id c new_set) prev m)" for new_set prev
    using assms by (induction prev arbitrary: m) (simp_all add: su_drop_id_ok)
  then show ?thesis by (simp add: apply_requests_def Let_def su_want_all_ok)
qed

lemma su_adapter_turn:
  assumes "parse_reads p" "su_ads_ok m" "sub_calls_of c = []"
    and m'_def: "m' = su_with_adapter j (ad_step p c) m"
  shows "su_ads_ok m'" "su_venue m' = su_venue m" "su_known m' = su_known m"
proof -
  show "su_ads_ok m'" unfolding m'_def
    by (rule su_ads_ok_with_adapter [OF assms(2)]) (use ad_wanted_step [OF _ assms(1)] in blast)
  show "su_known m' = su_known m"
    unfolding m'_def by (simp add: fun_eq_iff su_known_with_adapter ad_step_name assms(3))
  have find: "su_find_adapter e m' = su_find_adapter e m" for e
    unfolding m'_def by (intro su_find_adapter_cong su_with_adapter_names ad_step_name assms(3))
  show "su_venue m' = su_venue m"
  proof
    fix e
    have "ad_wanted (su_adapters m' ! i) = ad_wanted (su_adapters m ! i)" if "i < length (su_adapters m)" for i
      using that assms(2) ad_wanted_step [of "su_adapters m ! i" p c] assms(1,3)
      by (cases "i = j") (auto simp: m'_def su_with_adapter_def su_ads_ok_def list_all_length)
    then show "su_venue m' e = su_venue m e"
      using su_find_adapter_Some(1) [of e m] by (simp add: su_venue_def find split: option.splits)
  qed
qed

definition su_good :: "subscription_manager \<Rightarrow> bool" where
  "su_good m \<longleftrightarrow> su_inv m \<and> su_within m \<and> su_ads_ok m"

lemma su_good_turn:
  assumes "parse_reads p" "su_good m" "sub_calls_of c = []"
  shows "su_good (su_with_adapter j (ad_step p c) m)"
  using assms su_adapter_turn [OF assms(1) _ assms(3) refl, of m j]
  by (auto simp: su_good_def su_inv_def su_within_def su_wanters_def su_target_def fun_eq_iff)

lemma su_good_step:
  assumes "parse_reads p" "su_good m"
  shows "su_good (su_step p c m) \<and> su_known (su_step p c m) = su_known m"
proof (cases c)
  case (Batch cid ds)
  then show ?thesis using assms(2) apply_requests_spec(1-3) [OF _ _ refl, of m cid ds] apply_requests_ok
    by (simp add: su_good_def)
qed (use assms su_good_turn su_adapter_turn(3) [OF assms(1) _ _ refl, of m] in \<open>simp_all add: su_good_def\<close>)

lemma su_wanters_step:
  assumes "su_good m" "su_call_known {e. su_known m e} c" "\<And>i. su_wanters m i = {c. i \<in> w c}"
  shows "su_wanters (su_step p c m) i = {c'. i \<in> last_batch c w c'}"
proof (cases c)
  case (Batch cid ds)
  have "c' \<in> su_wanters (su_step p c m) i \<longleftrightarrow> i \<in> last_batch c w c'" for c'
    using apply_requests_spec(4) [OF _ _ refl, of m c' cid ds i] assms Batch by (auto simp: su_good_def)
  then show ?thesis by blast
qed (use assms(3) in \<open>simp_all add: su_wanters_def\<close>)

lemma su_run:
  assumes "parse_reads p"
  shows "su_good m \<Longrightarrow> \<forall>c \<in> set cs. su_call_known {e. su_known m e} c \<Longrightarrow>
    \<forall>i. su_wanters m i = {c. i \<in> w c} \<Longrightarrow>
    su_good (fold (su_step p) cs m) \<and> (\<forall>i. su_wanters (fold (su_step p) cs m) i = {c. i \<in> fold last_batch cs w c})"
proof (induction cs arbitrary: m w)
  case (Cons c cs)
  show ?case using Cons.IH [of "su_step p c m" "last_batch c w"] Cons.prems
      su_good_step [OF assms Cons.prems(1), of c] su_wanters_step [of m c w p] by simp
qed simp

subsection \<open>Properties\<close>

definition su_start :: "(string \<times> md_publisher) list \<Rightarrow> subscription_manager" where
  "su_start vs = fold (\<lambda>(name, pub). su_add_adapter (ad_make name pub)) vs su_init"

lemma su_start_adapters: "su_start vs = su_init\<lparr>su_adapters := map (\<lambda>(name, pub). ad_make name pub) vs\<rparr>"
proof -
  have "fold (\<lambda>(name, pub). su_add_adapter (ad_make name pub)) vs m
      = m\<lparr>su_adapters := su_adapters m @ map (\<lambda>(name, pub). ad_make name pub) vs\<rparr>" for m
    by (induction vs arbitrary: m) (auto simp: su_add_adapter_def)
  then show ?thesis by (simp add: su_start_def su_init_def)
qed

lemma su_active_iff: "su_inv m \<Longrightarrow> map_of (su_active m) i \<noteq> None \<longleftrightarrow> su_wanters m i \<noteq> {}"
  by (cases "map_of (su_active m) i") (simp_all add: su_inv_def su_wanters_def)

lemma su_start_good: "su_good (su_start vs)"
proof -
  have "su_venue (su_start vs) = su_target (su_start vs)"
  proof
    fix e
    have "ad_wanted (su_adapters (su_start vs) ! i) = Map.empty" if "i < length (su_adapters (su_start vs))" for i
      using that by (simp add: su_start_adapters split_beta)
    then show "su_venue (su_start vs) e = su_target (su_start vs) e"
      using su_find_adapter_Some(1) [of e "su_start vs"]
      by (auto simp: su_venue_def su_target_def su_start_adapters su_init_def fun_eq_iff split: option.splits)
  qed
  moreover have "su_ads_ok (su_start vs)" by (auto simp: su_ads_ok_def su_start_adapters list_all_iff)
  ultimately show ?thesis
    by (simp add: su_good_def su_inv_def su_within_def su_wanters_def su_start_adapters su_init_def)
qed

lemma su_start_known: "su_known (su_start vs) e \<longleftrightarrow> e \<in> fst ` set vs"
proof -
  have less: "length (takeWhile P xs) < length xs \<longleftrightarrow> (\<exists>x \<in> set xs. \<not> P x)" for P and xs :: "md_adapter list"
    by (induction xs) auto
  have "su_known (su_start vs) e \<longleftrightarrow> (\<exists>a \<in> set (su_adapters (su_start vs)). ad_exchange_name a = e)"
    by (simp add: su_known_def su_find_adapter_def Let_def less eq_commute)
  also have "\<dots> \<longleftrightarrow> e \<in> fst ` set vs" by (auto simp: su_start_adapters ad_make_def image_iff split_beta)
  finally show ?thesis .
qed


text \<open>
  A batch is answered with one acknowledgement per request, in order, to the
  consumer that sent it: \<open>OK\<close> when the exchange has an adapter, \<open>NOT_FOUND\<close> when it has none.
\<close>
theorem su_one_ack_each:
  "fst (apply_batch msg m) = map (\<lambda>r. \<lparr>ak_correlation_id = sb_correlation_id msg,
      ak_instrument_id = sr_instrument_id r, ak_exchange = canonicalize (sr_exchange r),
      ak_status = (if su_known m (canonicalize (sr_exchange r)) then ACK_OK else ACK_NOT_FOUND)\<rparr>) (sb_instruments msg)"
proof -
  have want: "su_known (snd (su_want c d m)) = su_known m \<and> fst (su_want c d m) =
      [\<lparr>ak_correlation_id = c, ak_instrument_id = sr_instrument_id d, ak_exchange = sr_exchange d,
        ak_status = (if su_known m (sr_exchange d) then ACK_OK else ACK_NOT_FOUND)\<rparr>]" for c d m
  proof -
    have k: "su_known (snd (su_want c d m)) = su_known m"
      by (simp add: su_want_def Let_def su_known_with_adapter split: option.splits)
    show ?thesis by (simp add: k) (simp add: su_want_def Let_def su_known_def split: option.splits)
  qed
  have all: "fst (su_want_all c ds m) = map (\<lambda>d. \<lparr>ak_correlation_id = c, ak_instrument_id = sr_instrument_id d,
      ak_exchange = sr_exchange d,
      ak_status = (if su_known m (sr_exchange d) then ACK_OK else ACK_NOT_FOUND)\<rparr>) ds" for c ds m
    by (induction ds arbitrary: m) (simp_all add: Let_def split_beta want)
  have drop: "su_known (su_drop_id c new_set i m) = su_known m" for c new_set i m
    by (simp add: su_drop_id_def Let_def su_known_with_adapter fun_eq_iff split: option.splits)
  have "su_known (fold (su_drop_id c new_set) prev m) = su_known m" for c new_set prev m
    by (induction prev arbitrary: m) (simp_all add: drop)
  then show ?thesis by (simp add: apply_batch_def apply_requests_def Let_def all comp_def)
qed

definition demo_request :: "u64 \<Rightarrow> subscribe_request" where
  "demo_request i = \<lparr>sr_instrument_id = i, sr_exchange = ''OKX'', sr_symbol = ''BTC'', sr_depth = 5\<rparr>"


end
