(* ===== verification/Matching_Book.thy ===== *)
theory Matching_Book
  imports Prelude Binary64
begin

text \<open>
  The backtester's synthetic order book (\<open>src/bpt-backtester/src/matching/matching_engine_book.cpp\<close>
  and the book walks of \<open>matching_engine_fills.cpp\<close>): orders and reports, the queue of slots at a
  price level, the reconciliation of the queues with a snapshot of the venue's book, and the three
  ways an order fills.
\<close>

subsection \<open>Orders, reports, market data\<close>

datatype bt_order_type = BT_MARKET | BT_LIMIT | BT_POST_ONLY
datatype bt_side = BT_BUY | BT_SELL
datatype liquidity_role = MAKER | TAKER

record open_order =
  oo_order_id :: string
  oo_client_order_id :: string
  oo_exchange :: string
  oo_symbol :: string
  oo_type :: bt_order_type
  oo_side :: bt_side
  oo_price :: double
  oo_quantity :: double
  oo_filled_qty :: double
  oo_submitted_ts :: u64
  oo_queue_seeded :: bool
  oo_rejected :: bool

record fill_report =
  fr_order_id :: string
  fr_client_order_id :: string
  fr_exchange :: string
  fr_symbol :: string
  fr_order_type :: bt_order_type
  fr_side :: bt_side
  fr_liquidity_role :: liquidity_role
  fr_original_qty :: double
  fr_order_price :: double
  fr_last_fill_qty :: double
  fr_last_fill_price :: double
  fr_cumulative_fill_qty :: double
  fr_is_fully_filled :: bool
  fr_simulation_ts :: u64

definition kOrderBookDepth :: nat where "kOrderBookDepth = 5"

text \<open>The four arrays of a snapshot as the price and size of its levels, best first.\<close>

record order_book_record =
  br_timestamp_ns :: u64
  br_exchange :: string
  br_symbol :: string
  br_bid :: "(double \<times> double) list"
  br_ask :: "(double \<times> double) list"

record trade_record =
  tr_timestamp_ns :: u64
  tr_price :: double
  tr_quantity :: double
  tr_side :: bt_side
  tr_exchange :: string
  tr_symbol :: string

definition br_shape :: "order_book_record \<Rightarrow> bool" where
  "br_shape b \<longleftrightarrow> length (br_bid b) = kOrderBookDepth \<and> length (br_ask b) = kOrderBookDepth"

abbreviation bid_px0 :: "order_book_record \<Rightarrow> double" where "bid_px0 b \<equiv> fst (br_bid b ! 0)"
abbreviation ask_px0 :: "order_book_record \<Rightarrow> double" where "ask_px0 b \<equiv> fst (br_ask b ! 0)"

abbreviation tiny :: double where "tiny \<equiv> dlit (1 / 10 ^ 12)"
abbreviation px_tol :: double where "px_tol \<equiv> dlit (1 / 10 ^ 9)"

subsection \<open>The slots of a price level\<close>

record level_slot =
  ls_qty :: double
  ls_is_ours :: bool
  ls_our_order_id :: string
  ls_inferred_ts :: u64

text \<open>\<open>llround\<close> of a price out of range is unspecified: those prices share the key \<open>None\<close>.\<close>

definition price_key :: "double \<Rightarrow> int option" where
  "price_key price = d_to_int (- (2 ^ 63)) (2 ^ 63) (std_round (price * dlit (10 ^ 9)))"

record price_queues =
  pq_bid :: "(int option, level_slot list) umap"
  pq_ask :: "(int option, level_slot list) umap"

definition pq_init :: price_queues where
  "pq_init = \<lparr>pq_bid = [], pq_ask = []\<rparr>"

definition pq_side :: "bt_side \<Rightarrow> price_queues \<Rightarrow> (int option, level_slot list) umap" where
  "pq_side side pq = (if side = BT_BUY then pq_bid pq else pq_ask pq)"

definition pq_set :: "bt_side \<Rightarrow> double \<Rightarrow> level_slot list \<Rightarrow> price_queues \<Rightarrow> price_queues" where
  "pq_set side price q pq =
     (if side = BT_BUY then pq\<lparr>pq_bid := AList.update (price_key price) q (pq_bid pq)\<rparr>
      else pq\<lparr>pq_ask := AList.update (price_key price) q (pq_ask pq)\<rparr>)"

text \<open>\<open>level_queue\<close> creates an empty queue, \<open>level_queue_if_exists\<close> does not.\<close>

definition level_queue_if_exists :: "bt_side \<Rightarrow> double \<Rightarrow> price_queues \<Rightarrow> level_slot list option" where
  "level_queue_if_exists side price pq = map_of (pq_side side pq) (price_key price)"

definition level_queue :: "bt_side \<Rightarrow> double \<Rightarrow> price_queues \<Rightarrow> level_slot list" where
  "level_queue side price pq =
     (case level_queue_if_exists side price pq of Some q \<Rightarrow> q | None \<Rightarrow> [])"

subsection \<open>Attributing cancels\<close>

definition slots_qty :: "level_slot list \<Rightarrow> double" where
  "slots_qty q = foldl (\<lambda>t s. t + ls_qty s) 0 q"

definition venue_qty :: "level_slot list \<Rightarrow> double" where
  "venue_qty q = foldl (\<lambda>t s. if \<not> ls_is_ours s then t + ls_qty s else t) 0 q"

fun cancel_pass :: "double \<Rightarrow> double \<Rightarrow> double \<Rightarrow> double \<Rightarrow> level_slot list \<Rightarrow> double \<times> level_slot list" where
  "cancel_pass cancels N2 remaining d [] = (remaining, [])"
| "cancel_pass cancels N2 remaining d (slot # q) =
     (if remaining \<le> 0 then (remaining, slot # q)
      else
        let d_start = d; d_end = d + ls_qty slot
        in if ls_is_ours slot
           then let (r, q) = cancel_pass cancels N2 remaining d_end q in (r, slot # q)
           else
             let share_fraction = (d_end * d_end - d_start * d_start) div N2;
                 slot_cancel = cancels * share_fraction;
                 slot_cancel = (if ls_qty slot < slot_cancel then ls_qty slot else slot_cancel);
                 slot_cancel = (if remaining < slot_cancel then remaining else slot_cancel);
                 (r, q) = cancel_pass cancels N2 (remaining - slot_cancel) d_end q
             in (r, slot\<lparr>ls_qty := ls_qty slot - slot_cancel\<rparr> # q))"

fun residual_pass :: "double \<Rightarrow> double \<Rightarrow> level_slot list \<Rightarrow> level_slot list" where
  "residual_pass avail remaining [] = []"
| "residual_pass avail remaining (slot # q) =
     (if remaining \<le> 0 then slot # q
      else if ls_is_ours slot then slot # residual_pass avail remaining q
      else
        let taken = remaining * (ls_qty slot div avail);
            taken = (if ls_qty slot < taken then ls_qty slot else taken)
        in slot\<lparr>ls_qty := ls_qty slot - taken\<rparr> # residual_pass avail (remaining - taken) q)"

definition distribute_cancels :: "level_slot list \<Rightarrow> double \<Rightarrow> level_slot list" where
  "distribute_cancels queue cancels =
     (if cancels \<le> 0 \<or> queue = [] then queue
      else
        let total_qty = slots_qty queue
        in if total_qty \<le> 0 then queue
           else
             let N2 = total_qty * total_qty;
                 (remaining, queue) = cancel_pass cancels N2 cancels 0 queue;
                 queue = (if tiny < remaining then
                            let avail = venue_qty queue
                            in if 0 < avail then residual_pass avail remaining queue else queue
                          else queue)
             in filter (\<lambda>s. \<not> (\<not> ls_is_ours s \<and> ls_qty s \<le> tiny)) queue)"

subsection \<open>Reconciling a snapshot\<close>

definition venue_slot :: "double \<Rightarrow> u64 \<Rightarrow> level_slot" where
  "venue_slot qty ts = \<lparr>ls_qty = qty, ls_is_ours = False, ls_our_order_id = [], ls_inferred_ts = ts\<rparr>"

definition reconcile_one :: "u64 \<Rightarrow> bt_side \<Rightarrow> double \<Rightarrow> double \<Rightarrow> price_queues \<Rightarrow> price_queues" where
  "reconcile_one ts side price observed_size pq =
     (if observed_size \<le> 0 then pq
      else
        let q = level_queue side price pq;
            delta = observed_size - venue_qty q;
            q = (if tiny < delta then q @ [venue_slot delta ts]
                 else if delta < - tiny then distribute_cancels q (- delta) else q)
        in pq_set side price q pq)"

definition reconcile_level ::
  "u64 \<Rightarrow> (double \<times> double) \<times> (double \<times> double) \<Rightarrow> price_queues \<Rightarrow> price_queues" where
  "reconcile_level ts lv pq =
     (let ((bid_px, bid_sz), (ask_px, ask_sz)) = lv;
          pq = (if 0 < bid_px \<and> 0 < bid_sz then reconcile_one ts BT_BUY bid_px bid_sz pq else pq)
      in if 0 < ask_px \<and> 0 < ask_sz then reconcile_one ts BT_SELL ask_px ask_sz pq else pq)"

definition reconcile_l2_snapshot :: "u64 \<Rightarrow> order_book_record \<Rightarrow> price_queues \<Rightarrow> price_queues" where
  "reconcile_l2_snapshot ts book pq = fold (reconcile_level ts) (zip (br_bid book) (br_ask book)) pq"

fun qty_at_price :: "double \<Rightarrow> (double \<times> double) list \<Rightarrow> double" where
  "qty_at_price price [] = 0"
| "qty_at_price price ((px, sz) # ls) =
     (if px \<le> 0 then qty_at_price price ls
      else if \<bar>px - price\<bar> < px_tol then sz else qty_at_price price ls)"

definition book_qty_at_price :: "order_book_record \<Rightarrow> bt_side \<Rightarrow> double \<Rightarrow> double" where
  "book_qty_at_price book side price = qty_at_price price (if side = BT_BUY then br_bid book else br_ask book)"

subsection \<open>Crossing the book\<close>

definition crosses :: "order_book_record \<Rightarrow> open_order \<Rightarrow> bool" where
  "crosses book order \<longleftrightarrow>
     (oo_side order = BT_BUY \<and> 0 < ask_px0 book \<and> ask_px0 book - px_tol \<le> oo_price order) \<or>
     (oo_side order = BT_SELL \<and> 0 < bid_px0 book \<and> oo_price order \<le> bid_px0 book + px_tol)"

definition acceptable :: "bt_side \<Rightarrow> double \<Rightarrow> double \<Rightarrow> bool" where
  "acceptable side price_limit level_px \<longleftrightarrow>
     (if side = BT_BUY then level_px \<le> price_limit + px_tol else price_limit - px_tol \<le> level_px)"

fun walk_levels ::
  "double \<Rightarrow> bt_order_type \<Rightarrow> u64 \<Rightarrow> (double \<times> double) list \<Rightarrow> double \<Rightarrow> open_order \<Rightarrow> fill_report list \<times> open_order" where
  "walk_levels price_limit report_type ts [] remaining order = ([], order)"
| "walk_levels price_limit report_type ts ((level_px, level_sz) # ls) remaining order =
     (if \<not> tiny < remaining then ([], order)
      else if level_px \<le> 0 \<or> level_sz \<le> 0 then ([], order)
      else if \<not> acceptable (oo_side order) price_limit level_px then ([], order)
      else
        let fill_qty = std_min remaining level_sz;
            order = order\<lparr>oo_filled_qty := oo_filled_qty order + fill_qty\<rparr>;
            remaining = remaining - fill_qty;
            r = \<lparr>fr_order_id = oo_order_id order, fr_client_order_id = oo_client_order_id order,
                 fr_exchange = oo_exchange order, fr_symbol = oo_symbol order,
                 fr_order_type = report_type, fr_side = oo_side order, fr_liquidity_role = TAKER,
                 fr_original_qty = oo_quantity order,
                 fr_order_price = (if report_type = BT_LIMIT then oo_price order else 0),
                 fr_last_fill_qty = fill_qty, fr_last_fill_price = level_px,
                 fr_cumulative_fill_qty = oo_filled_qty order,
                 fr_is_fully_filled = (remaining \<le> tiny), fr_simulation_ts = ts\<rparr>;
            (rs, order) = walk_levels price_limit report_type ts ls remaining order
        in (r # rs, order))"

definition fill_book_until ::
  "open_order \<Rightarrow> order_book_record \<Rightarrow> double \<Rightarrow> bt_order_type \<Rightarrow> u64 \<Rightarrow> fill_report list \<times> open_order" where
  "fill_book_until order book price_limit report_type ts =
     walk_levels price_limit report_type ts (if oo_side order = BT_BUY then br_ask book else br_bid book)
       (oo_quantity order - oo_filled_qty order) order"

definition fill_market :: "open_order \<Rightarrow> order_book_record \<Rightarrow> u64 \<Rightarrow> fill_report list \<times> open_order" where
  "fill_market order book ts =
     fill_book_until order book (if oo_side order = BT_BUY then PInf else 0) BT_MARKET ts"

text \<open>The backstop for orders without a slot: one order against the new touch.\<close>

definition crossing_price :: "order_book_record \<Rightarrow> open_order \<Rightarrow> double" where
  "crossing_price book order =
     (if oo_side order = BT_BUY
      then (if 0 < ask_px0 book \<and> ask_px0 book \<le> oo_price order then ask_px0 book else 0)
      else (if 0 < bid_px0 book \<and> oo_price order \<le> bid_px0 book then bid_px0 book else 0))"

definition fill_crossing_limit :: "order_book_record \<Rightarrow> u64 \<Rightarrow> open_order \<Rightarrow> fill_report option" where
  "fill_crossing_limit book ts order =
     (if oo_type order \<noteq> BT_LIMIT then None
      else if oo_queue_seeded order then None
      else
        let fill_px = crossing_price book order
        in if fill_px \<le> 0 then None
           else Some \<lparr>fr_order_id = oo_order_id order, fr_client_order_id = oo_client_order_id order,
             fr_exchange = br_exchange book, fr_symbol = br_symbol book,
             fr_order_type = BT_LIMIT, fr_side = oo_side order, fr_liquidity_role = MAKER,
             fr_original_qty = oo_quantity order, fr_order_price = oo_price order,
             fr_last_fill_qty = oo_quantity order - oo_filled_qty order, fr_last_fill_price = fill_px,
             fr_cumulative_fill_qty = oo_quantity order, fr_is_fully_filled = True, fr_simulation_ts = ts\<rparr>)"

subsection \<open>A trade print consumes the queue\<close>

definition maker_report :: "u64 \<Rightarrow> double \<Rightarrow> open_order \<Rightarrow> fill_report" where
  "maker_report ts taken order =
     \<lparr>fr_order_id = oo_order_id order, fr_client_order_id = oo_client_order_id order,
      fr_exchange = oo_exchange order, fr_symbol = oo_symbol order,
      fr_order_type = BT_LIMIT, fr_side = oo_side order, fr_liquidity_role = MAKER,
      fr_original_qty = oo_quantity order, fr_order_price = oo_price order,
      fr_last_fill_qty = taken, fr_last_fill_price = oo_price order,
      fr_cumulative_fill_qty = oo_filled_qty order,
      fr_is_fully_filled = (oo_quantity order - tiny \<le> oo_filled_qty order), fr_simulation_ts = ts\<rparr>"

fun fill_owner :: "u64 \<Rightarrow> double \<Rightarrow> string \<Rightarrow> open_order list \<Rightarrow> fill_report list \<times> open_order list" where
  "fill_owner ts taken our_id [] = ([], [])"
| "fill_owner ts taken our_id (order # orders) =
     (if oo_order_id order \<noteq> our_id
      then let (rs, orders) = fill_owner ts taken our_id orders in (rs, order # orders)
      else
        let order = order\<lparr>oo_filled_qty := oo_filled_qty order + taken\<rparr>
        in ([maker_report ts taken order], order # orders))"

definition consume_slot ::
  "u64 \<Rightarrow> level_slot \<Rightarrow> double \<Rightarrow> open_order list option \<Rightarrow> fill_report list \<times> open_order list option" where
  "consume_slot ts slot taken orders =
     (case orders of
        None \<Rightarrow> ([], None)
      | Some os \<Rightarrow>
          if ls_is_ours slot
          then let (rs, os) = fill_owner ts taken (ls_our_order_id slot) os in (rs, Some os)
          else ([], Some os))"

lemma walk_stops:
  assumes "0 < r" "q \<noteq> NInf" "\<not> q - std_min r q \<le> tiny"
  shows "\<not> 0 < r - std_min r q"
proof -
  have "(1::rat) / 10 ^ 12 > 0" by simp
  then have t: "Fin 0 \<le> tiny" by (intro to_double_nonneg) simp
  show ?thesis
  proof (cases "q < r")
    case True
    then show ?thesis using assms t by (cases q; cases r) (auto simp: std_min_def)
  next
    case False
    then show ?thesis using assms(1) by (cases r) (auto simp: std_min_def minus_double_def)
  qed
qed

text \<open>The loop ends: a slot that is not exhausted exhausts the print, unless its quantity is \<open>-\<infinity>\<close>.\<close>

function trade_walk ::
  "u64 \<Rightarrow> double \<Rightarrow> level_slot list \<Rightarrow> open_order list option
    \<Rightarrow> fill_report list \<times> level_slot list \<times> open_order list option" where
  "trade_walk ts remaining_print [] orders = ([], [], orders)"
| "trade_walk ts remaining_print (slot # q) orders =
     (if \<not> 0 < remaining_print then ([], slot # q, orders)
      else
        let taken = std_min remaining_print (ls_qty slot);
            slot = slot\<lparr>ls_qty := ls_qty slot - taken\<rparr>;
            (rs, orders) = consume_slot ts slot taken orders;
            (rs', q, orders) = trade_walk ts (remaining_print - taken)
                (if ls_qty slot \<le> tiny then q else slot # q) orders
        in (rs @ rs', q, orders))"
  by pat_completeness auto

termination
proof (relation "measure (\<lambda>(ts, r, q, orders). 3 * length q +
    (case q of [] \<Rightarrow> 0 | s # _ \<Rightarrow> if 0 < r then (if ls_qty s = NInf then 2 else 1) else 0))")
  fix ts remaining_print slot q orders taken x xa y
  assume pos: "\<not> \<not> 0 < remaining_print" and t: "taken = std_min remaining_print (ls_qty slot)"
    and x: "x = slot\<lparr>ls_qty := ls_qty slot - taken\<rparr>"
  have "0 < remaining_print - taken \<Longrightarrow> \<not> ls_qty x \<le> tiny \<Longrightarrow> ls_qty slot = NInf"
    using walk_stops [of remaining_print "ls_qty slot"] pos t x by auto
  moreover have "ls_qty slot = NInf \<Longrightarrow> ls_qty x \<noteq> NInf"
    using t x by (cases remaining_print) (auto simp: std_min_def minus_double_def)
  ultimately show "((ts, remaining_print - taken, if ls_qty x \<le> tiny then q else x # q, y), ts, remaining_print, slot # q, orders)
      \<in> measure (\<lambda>(ts, r, q, orders). 3 * length q +
          (case q of [] \<Rightarrow> 0 | s # _ \<Rightarrow> if 0 < r then (if ls_qty s = NInf then 2 else 1) else 0))"
    using pos by (auto split: list.splits)
qed simp

declare trade_walk.simps [simp del]

subsection \<open>Our slots\<close>

text \<open>Cancels of the venue never touch a slot of ours.\<close>

abbreviation ours :: "level_slot list \<Rightarrow> level_slot list" where "ours \<equiv> filter ls_is_ours"

lemma cancel_pass_ours: "ours (snd (cancel_pass c N2 r d q)) = ours q"
  by (induction q arbitrary: r d) (simp_all add: Let_def split_beta)

lemma residual_pass_ours: "ours (residual_pass a r q) = ours q"
  by (induction q arbitrary: r) (simp_all add: Let_def)

lemma ours_filter: "filter (\<lambda>s. (ls_is_ours s \<or> P s) \<and> ls_is_ours s) q = ours q"
  by (induction q) simp_all

lemma distribute_cancels_ours: "ours (distribute_cancels q c) = ours q"
  by (simp add: distribute_cancels_def Let_def split_beta ours_filter residual_pass_ours cancel_pass_ours)

lemma level_queue_set:
  "level_queue side' price' (pq_set side price q pq)
     = (if side' = side \<and> price_key price' = price_key price then q else level_queue side' price' pq)"
  by (cases side; cases side') (simp_all add: level_queue_def level_queue_if_exists_def pq_set_def pq_side_def)

lemma reconcile_one_ours: "ours (level_queue side' price' (reconcile_one ts side price sz pq)) = ours (level_queue side' price' pq)"
proof -
  have "level_queue side price pq = level_queue side price' pq" if "price_key price' = price_key price"
    using that by (simp add: level_queue_def level_queue_if_exists_def)
  then show ?thesis
    by (simp add: reconcile_one_def Let_def level_queue_set distribute_cancels_ours venue_slot_def)
qed

lemma reconcile_level_ours: "ours (level_queue side price (reconcile_level ts lv pq)) = ours (level_queue side price pq)"
  by (simp add: reconcile_level_def split_beta Let_def reconcile_one_ours)

lemma reconcile_ours: "ours (level_queue side price (reconcile_l2_snapshot ts b pq)) = ours (level_queue side price pq)"
proof -
  have "ours (level_queue side price (fold (reconcile_level ts) lvs pq)) = ours (level_queue side price pq)" for lvs
    by (induction lvs arbitrary: pq) (simp_all add: reconcile_level_ours)
  then show ?thesis by (simp add: reconcile_l2_snapshot_def)
qed

subsection \<open>Time priority\<close>

definition queue_rest :: "level_slot list \<Rightarrow> level_slot list \<Rightarrow> bool" where
  "queue_rest q q' \<longleftrightarrow> (\<exists>n. q' = drop n q \<or> (\<exists>x. n < length q \<and> q' = (q ! n)\<lparr>ls_qty := x\<rparr> # drop (Suc n) q))"

lemma queue_rest_refl: "queue_rest q q"
  by (auto simp: queue_rest_def intro: exI [of _ 0])

lemma queue_rest_Cons: "queue_rest q q' \<Longrightarrow> queue_rest (s # q) q'"
  unfolding queue_rest_def by (metis Suc_less_eq drop_Suc_Cons length_Cons nth_Cons_Suc)

lemma queue_rest_head: "queue_rest (s\<lparr>ls_qty := x\<rparr> # q) q' \<Longrightarrow> queue_rest (s # q) q'"
proof -
  assume "queue_rest (s\<lparr>ls_qty := x\<rparr> # q) q'"
  then obtain n where n: "q' = drop n (s\<lparr>ls_qty := x\<rparr> # q) \<or>
      (\<exists>y. n < length (s # q) \<and> q' = ((s\<lparr>ls_qty := x\<rparr> # q) ! n)\<lparr>ls_qty := y\<rparr> # drop (Suc n) (s # q))"
    by (auto simp: queue_rest_def)
  show ?thesis
  proof (cases n)
    case 0
    then have "\<exists>y. q' = s\<lparr>ls_qty := y\<rparr> # q" using n by auto
    then show ?thesis unfolding queue_rest_def by (intro exI [of _ 0]) auto
  next
    case (Suc k)
    then show ?thesis using n unfolding queue_rest_def by (intro exI [of _ n]) auto
  qed
qed

lemma trade_walk_rest: "queue_rest q (fst (snd (trade_walk ts r q orders)))"
proof (induction ts r q orders rule: trade_walk.induct)
  case (2 ts r slot q orders)
  let ?t = "std_min r (ls_qty slot)"
  let ?s = "slot\<lparr>ls_qty := ls_qty slot - ?t\<rparr>"
  let ?c = "consume_slot ts ?s ?t orders"
  show ?case
  proof (cases "0 < r")
    case True
    have "queue_rest (if ls_qty ?s \<le> tiny then q else ?s # q)
        (fst (snd (trade_walk ts (r - ?t) (if ls_qty ?s \<le> tiny then q else ?s # q) (snd ?c))))"
      by (rule 2 [of ?t ?s ?c "fst ?c" "snd ?c"]) (use True in simp_all)
    then have "queue_rest (slot # q) (fst (snd (trade_walk ts (r - ?t) (if ls_qty ?s \<le> tiny then q else ?s # q) (snd ?c))))"
      by (auto intro: queue_rest_Cons queue_rest_head split: if_splits)
    then show ?thesis using True by (simp add: trade_walk.simps(2) [of ts r slot q orders] Let_def split_beta)
  qed (simp add: trade_walk.simps(2) [of ts r slot q orders] queue_rest_refl)
qed (simp add: trade_walk.simps queue_rest_refl)

subsection \<open>What a report says\<close>

text \<open>
  A report respects the limit of its order: a market report has none; otherwise the order fills at
  its own price, at a better one, or within the tolerance the code compares prices with.
\<close>

definition fr_price_ok :: "fill_report \<Rightarrow> bool" where
  "fr_price_ok r \<longleftrightarrow>
     fr_order_type r = BT_MARKET \<or> fr_last_fill_price r = fr_order_price r \<or>
     (if fr_side r = BT_BUY then fr_last_fill_price r \<le> fr_order_price r
      else fr_order_price r \<le> fr_last_fill_price r) \<or>
     acceptable (fr_side r) (fr_order_price r) (fr_last_fill_price r)"

lemma walk_levels_reports:
  assumes "report_type = BT_MARKET \<or> report_type = BT_LIMIT \<and> limit = oo_price order"
  shows "\<forall>r \<in> set (fst (walk_levels limit report_type ts ls remaining order)).
    fr_order_id r = oo_order_id order \<and> fr_price_ok r \<and> fr_liquidity_role r = TAKER \<and> fr_order_type r = report_type"
  using assms
proof (induction limit report_type ts ls remaining order rule: walk_levels.induct)
  case (2 limit report_type ts level_px level_sz ls remaining order)
  let ?f = "std_min remaining level_sz"
  let ?o = "order\<lparr>oo_filled_qty := oo_filled_qty order + ?f\<rparr>"
  show ?case
  proof (cases "tiny < remaining \<and> \<not> (level_px \<le> 0 \<or> level_sz \<le> 0) \<and> acceptable (oo_side order) limit level_px")
    case True
    have "\<forall>r \<in> set (fst (walk_levels limit report_type ts ls (remaining - ?f) ?o)).
        fr_order_id r = oo_order_id ?o \<and> fr_price_ok r \<and> fr_liquidity_role r = TAKER \<and> fr_order_type r = report_type"
      by (rule "2.IH") (use True "2.prems" in simp_all)
    then show ?thesis using True "2.prems" by (auto simp: Let_def split_beta fr_price_ok_def)
  qed (auto simp: Let_def)
qed simp

lemma walk_levels_order:
  "oo_order_id (snd (walk_levels limit report_type ts ls remaining order)) = oo_order_id order"
  "oo_exchange (snd (walk_levels limit report_type ts ls remaining order)) = oo_exchange order"
  "oo_symbol (snd (walk_levels limit report_type ts ls remaining order)) = oo_symbol order"
  by (induction limit report_type ts ls remaining order rule: walk_levels.induct) (simp_all add: Let_def split_beta)

lemma fill_crossing_limit_report:
  "fill_crossing_limit book ts order = Some r \<Longrightarrow> fr_order_id r = oo_order_id order \<and> fr_price_ok r"
  by (auto simp: fill_crossing_limit_def crossing_price_def fr_price_ok_def Let_def split: if_splits)

lemma fill_owner_reports:
  "(\<forall>r \<in> set (fst (fill_owner ts taken i os)). fr_order_id r = i \<and> i \<in> oo_order_id ` set os \<and> fr_price_ok r) \<and>
   map oo_order_id (snd (fill_owner ts taken i os)) = map oo_order_id os"
  by (induction os) (auto simp: Let_def split_beta maker_report_def fr_price_ok_def)

definition order_ids :: "open_order list option \<Rightarrow> string list" where
  "order_ids orders = (case orders of None \<Rightarrow> [] | Some os \<Rightarrow> map oo_order_id os)"

lemma consume_slot_reports:
  "(\<forall>r \<in> set (fst (consume_slot ts s t orders)). fr_order_id r \<in> set (order_ids orders) \<and> fr_price_ok r) \<and>
   order_ids (snd (consume_slot ts s t orders)) = order_ids orders \<and>
   (snd (consume_slot ts s t orders) = None \<longleftrightarrow> orders = None)"
  using fill_owner_reports [of ts t "ls_our_order_id s"]
  by (cases orders) (auto simp: consume_slot_def order_ids_def split_beta)

lemma trade_walk_reports:
  "(\<forall>r \<in> set (fst (trade_walk ts rp q orders)). fr_order_id r \<in> set (order_ids orders) \<and> fr_price_ok r) \<and>
   order_ids (snd (snd (trade_walk ts rp q orders))) = order_ids orders \<and>
   (snd (snd (trade_walk ts rp q orders)) = None \<longleftrightarrow> orders = None)"
proof (induction ts rp q orders rule: trade_walk.induct)
  case (2 ts r slot q orders)
  let ?t = "std_min r (ls_qty slot)"
  let ?s = "slot\<lparr>ls_qty := ls_qty slot - ?t\<rparr>"
  let ?c = "consume_slot ts ?s ?t orders"
  show ?case
  proof (cases "0 < r")
    case True
    let ?w = "trade_walk ts (r - ?t) (if ls_qty ?s \<le> tiny then q else ?s # q) (snd ?c)"
    have "(\<forall>r \<in> set (fst ?w). fr_order_id r \<in> set (order_ids (snd ?c)) \<and> fr_price_ok r) \<and>
        order_ids (snd (snd ?w)) = order_ids (snd ?c) \<and> (snd (snd ?w) = None \<longleftrightarrow> snd ?c = None)"
      by (rule 2 [of ?t ?s ?c "fst ?c" "snd ?c"]) (use True in simp_all)
    then show ?thesis using True consume_slot_reports [of ts ?s ?t orders]
      by (auto simp: trade_walk.simps(2) [of ts r slot q orders] Let_def split_beta)
  qed (simp add: trade_walk.simps(2) [of ts r slot q orders])
qed (simp add: trade_walk.simps)

subsection \<open>Properties\<close>

text \<open>
  Time priority. Whatever a trade print does to the queue at its price, what
  is left is the queue with its front slots gone and at most the next one reduced: no slot is
  touched while one in front of it has quantity left.
\<close>
theorem trade_consumes_fifo:
  "\<exists>n. fst (snd (trade_walk ts print_qty q orders)) = drop n q \<or>
     (\<exists>x. n < length q \<and> fst (snd (trade_walk ts print_qty q orders)) = (q ! n)\<lparr>ls_qty := x\<rparr> # drop (Suc n) q)"
  using trade_walk_rest [of q ts print_qty orders] by (simp add: queue_rest_def)

text \<open>
  A snapshot never touches our orders. At every price, the slots of ours
  that are queued, their order and their quantities are the same before and after the book is
  reconciled with any snapshot; growth and cancels are attributed to the venue's slots.
\<close>
theorem reconcile_spares_ours:
  "filter ls_is_ours (level_queue side price (reconcile_l2_snapshot ts book pq))
     = filter ls_is_ours (level_queue side price pq)"
  by (rule reconcile_ours)

end
