(* ===== verification/Matching_Engine.thy ===== *)
theory Matching_Engine
  imports Matching_Book "HOL-Library.Multiset"
begin

text \<open>
  \<open>MatchingEngine\<close> of the backtester (\<open>src/bpt-backtester/src/matching/matching_engine.cpp\<close>):
  submissions that wait for their match time, resting orders, fills that wait for their report
  time, and the three entry points. Each takes the engine's mutex, so a call is one step; the
  fill callback runs after it on the reports the call returns. The latency model
  (\<open>src/bpt-backtester/include/backtester/latency/latency_model.h\<close>) is a parameter with a state
  of its own; its parametric instance is modelled over an arbitrary random generator.
\<close>

unbundle bit_operations_syntax

subsection \<open>Latency\<close>

datatype latency_leg = SUBMIT_TO_MATCH | MATCH_TO_REPORT

record 'l latency_model =
  lm_draw :: "string \<Rightarrow> latency_leg \<Rightarrow> 'l \<Rightarrow> u64 \<times> 'l"
  lm_state :: 'l

record latency_spec =
  lp_base_ns :: u64
  lp_jitter_ns :: u64

text \<open>
  \<open>ParametricLatencyModel\<close>: \<open>uniform n\<close> stands for \<open>uniform_int_distribution(0, n)\<close> over the
  generator's state.
\<close>

record 'r parametric_latency =
  pl_rng :: 'r
  pl_specs :: "(u64, latency_spec) umap"
  pl_default_submit :: latency_spec
  pl_default_report :: latency_spec

definition leg_value :: "latency_leg \<Rightarrow> u64" where
  "leg_value leg = (case leg of SUBMIT_TO_MATCH \<Rightarrow> 0 | MATCH_TO_REPORT \<Rightarrow> 1)"

definition latency_key :: "string \<Rightarrow> latency_leg \<Rightarrow> u64" where
  "latency_key venue leg =
     (let h = foldl (\<lambda>h c. (h XOR of_char c) * 1099511628211) 14695981039346656037 venue
      in (h XOR leg_value leg) * 1099511628211)"

definition pl_make :: "'r \<Rightarrow> 'r parametric_latency" where
  "pl_make seed = \<lparr>pl_rng = seed, pl_specs = [],
     pl_default_submit = \<lparr>lp_base_ns = 0, lp_jitter_ns = 0\<rparr>,
     pl_default_report = \<lparr>lp_base_ns = 0, lp_jitter_ns = 0\<rparr>\<rparr>"

definition pl_set_spec :: "string \<Rightarrow> latency_leg \<Rightarrow> latency_spec \<Rightarrow> 'r parametric_latency \<Rightarrow> 'r parametric_latency" where
  "pl_set_spec venue leg spec m = m\<lparr>pl_specs := AList.update (latency_key venue leg) spec (pl_specs m)\<rparr>"

definition pl_set_default :: "latency_leg \<Rightarrow> latency_spec \<Rightarrow> 'r parametric_latency \<Rightarrow> 'r parametric_latency" where
  "pl_set_default leg spec m =
     (case leg of SUBMIT_TO_MATCH \<Rightarrow> m\<lparr>pl_default_submit := spec\<rparr>
      | MATCH_TO_REPORT \<Rightarrow> m\<lparr>pl_default_report := spec\<rparr>)"

definition pl_spec :: "string \<Rightarrow> latency_leg \<Rightarrow> 'r parametric_latency \<Rightarrow> latency_spec" where
  "pl_spec venue leg m =
     (case map_of (pl_specs m) (latency_key venue leg) of
        Some s \<Rightarrow> s
      | None \<Rightarrow> (case leg of SUBMIT_TO_MATCH \<Rightarrow> pl_default_submit m | MATCH_TO_REPORT \<Rightarrow> pl_default_report m))"

definition pl_draw ::
  "(u64 \<Rightarrow> 'r \<Rightarrow> u64 \<times> 'r) \<Rightarrow> string \<Rightarrow> latency_leg \<Rightarrow> 'r parametric_latency \<Rightarrow> u64 \<times> 'r parametric_latency" where
  "pl_draw uniform venue leg m =
     (let s = pl_spec venue leg m
      in if lp_jitter_ns s = 0 then (lp_base_ns s, m)
         else let (x, r) = uniform (lp_jitter_ns s - 1) (pl_rng m)
              in (lp_base_ns s + x, m\<lparr>pl_rng := r\<rparr>))"

subsection \<open>The engine\<close>

record pending_submit =
  ps_order :: open_order
  ps_match_ts :: u64

record pending_fill =
  pf_fill :: fill_report
  pf_report_ts :: u64

datatype market_event = Ev_Trade trade_record | Ev_Book order_book_record

record 'l matching_engine =
  me_books :: "(string, order_book_record) umap"
  me_pending :: "(string, open_order list) umap"
  me_pending_submits :: "pending_submit list"
  me_pending_fills :: "pending_fill list"
  me_slot_queues :: "(string, price_queues) umap"
  me_current_ts :: u64
  me_latency :: "'l latency_model option"

definition me_init :: "'l matching_engine" where
  "me_init = \<lparr>me_books = [], me_pending = [], me_pending_submits = [], me_pending_fills = [],
     me_slot_queues = [], me_current_ts = 0, me_latency = None\<rparr>"

definition me_key :: "string \<Rightarrow> string \<Rightarrow> string" where
  "me_key exchange symbol = exchange @ '':'' @ symbol"

definition set_latency_model :: "'l latency_model option \<Rightarrow> 'l matching_engine \<Rightarrow> 'l matching_engine" where
  "set_latency_model model me = me\<lparr>me_latency := model\<rparr>"

definition me_draw :: "string \<Rightarrow> latency_leg \<Rightarrow> 'l matching_engine \<Rightarrow> u64 \<times> 'l matching_engine" where
  "me_draw venue leg me =
     (case me_latency me of
        None \<Rightarrow> (0, me)
      | Some l \<Rightarrow> let (d, st) = lm_draw l venue leg (lm_state l)
                  in (d, me\<lparr>me_latency := Some (l\<lparr>lm_state := st\<rparr>)\<rparr>))"

definition schedule_fill :: "fill_report \<Rightarrow> 'l matching_engine \<Rightarrow> 'l matching_engine" where
  "schedule_fill fill me =
     (let (latency_ns, me) = me_draw (fr_exchange fill) MATCH_TO_REPORT me
      in me\<lparr>me_pending_fills := me_pending_fills me @
              [\<lparr>pf_fill = fill, pf_report_ts = fr_simulation_ts fill + latency_ns\<rparr>]\<rparr>)"

text \<open>\<open>slot_queues_[bk]\<close> and \<open>pending_[bk]\<close>, created when absent.\<close>

definition me_queues :: "string \<Rightarrow> 'l matching_engine \<Rightarrow> price_queues" where
  "me_queues bk me = (case map_of (me_slot_queues me) bk of Some pq \<Rightarrow> pq | None \<Rightarrow> pq_init)"

definition me_set_queues :: "string \<Rightarrow> price_queues \<Rightarrow> 'l matching_engine \<Rightarrow> 'l matching_engine" where
  "me_set_queues bk pq me = me\<lparr>me_slot_queues := AList.update bk pq (me_slot_queues me)\<rparr>"

definition me_resting :: "string \<Rightarrow> 'l matching_engine \<Rightarrow> open_order list" where
  "me_resting bk me = (case map_of (me_pending me) bk of Some os \<Rightarrow> os | None \<Rightarrow> [])"

definition me_push :: "open_order \<Rightarrow> 'l matching_engine \<Rightarrow> 'l matching_engine" where
  "me_push order me =
     (let bk = me_key (oo_exchange order) (oo_symbol order)
      in me\<lparr>me_pending := AList.update bk (me_resting bk me @ [order]) (me_pending me)\<rparr>)"

subsection \<open>Matching a submission\<close>

definition our_slot :: "double \<Rightarrow> string \<Rightarrow> u64 \<Rightarrow> level_slot" where
  "our_slot qty order_id ts = \<lparr>ls_qty = qty, ls_is_ours = True, ls_our_order_id = order_id, ls_inferred_ts = ts\<rparr>"

definition rest_order :: "open_order \<Rightarrow> order_book_record \<Rightarrow> 'l matching_engine \<Rightarrow> 'l matching_engine" where
  "rest_order order book me =
     (let remaining = oo_quantity order - oo_filled_qty order;
          venue_size = book_qty_at_price book (oo_side order) (oo_price order);
          bk = me_key (oo_exchange order) (oo_symbol order);
          q = level_queue (oo_side order) (oo_price order) (me_queues bk me);
          q = (if 0 < venue_size \<and> list_all ls_is_ours q
               then q @ [venue_slot venue_size (me_current_ts me)] else q);
          q = q @ [our_slot remaining (oo_order_id order) (me_current_ts me)];
          me = me_set_queues bk (pq_set (oo_side order) (oo_price order) q (me_queues bk me)) me
      in me_push (order\<lparr>oo_queue_seeded := True\<rparr>) me)"

definition process_pending_submit :: "open_order \<Rightarrow> 'l matching_engine \<Rightarrow> fill_report list \<times> 'l matching_engine" where
  "process_pending_submit order me =
     (let book = map_of (me_books me) (me_key (oo_exchange order) (oo_symbol order)) in
      if oo_type order = BT_MARKET then
        (case book of
           Some b \<Rightarrow> (fst (fill_market order b (me_current_ts me)), me)
         | None \<Rightarrow> ([], me))
      else
        (case book of
           None \<Rightarrow> ([], me_push order me)
         | Some b \<Rightarrow>
             let (fills, order) = (if crosses b order \<and> oo_type order = BT_LIMIT
                                   then fill_book_until order b (oo_price order) BT_LIMIT (me_current_ts me)
                                   else ([], order))
             in (fills, if oo_filled_qty order < oo_quantity order - tiny then rest_order order b me else me)))"

fun process_due :: "pending_submit list \<Rightarrow> 'l matching_engine \<Rightarrow> fill_report list \<times> 'l matching_engine" where
  "process_due [] me = ([], me)"
| "process_due (p # ps) me =
     (let me = (if me_current_ts me < ps_match_ts p then me\<lparr>me_current_ts := ps_match_ts p\<rparr> else me);
          (fills, me) = process_pending_submit (ps_order p) me;
          (more, me) = process_due ps me
      in (fills @ more, me))"

definition drain_pending_submits :: "u64 \<Rightarrow> 'l matching_engine \<Rightarrow> 'l matching_engine" where
  "drain_pending_submits upto_ts me =
     (let ps = sort_key ps_match_ts (me_pending_submits me);
          due = takeWhile (\<lambda>p. \<not> upto_ts < ps_match_ts p) ps;
          (fills, me) = process_due due me;
          me = me\<lparr>me_pending_submits := drop (length due) ps\<rparr>
      in fold schedule_fill fills me)"

definition drain_pending_fills :: "u64 \<Rightarrow> 'l matching_engine \<Rightarrow> fill_report list \<times> 'l matching_engine" where
  "drain_pending_fills upto_ts me =
     (let fs = sort_key pf_report_ts (me_pending_fills me);
          due = takeWhile (\<lambda>f. \<not> upto_ts < pf_report_ts f) fs
      in (map pf_fill due, me\<lparr>me_pending_fills := drop (length due) fs\<rparr>))"

subsection \<open>A market event\<close>

definition fill_crossing_limits :: "string \<Rightarrow> 'l matching_engine \<Rightarrow> fill_report list \<times> 'l matching_engine" where
  "fill_crossing_limits bk me =
     (case map_of (me_books me) bk of
        None \<Rightarrow> ([], me)
      | Some book \<Rightarrow>
          if bid_px0 book \<le> 0 \<and> ask_px0 book \<le> 0 then ([], me)
          else
            (case map_of (me_pending me) bk of
               None \<Rightarrow> ([], me)
             | Some orders \<Rightarrow>
                 let fill = fill_crossing_limit book (me_current_ts me)
                 in (List.map_filter fill orders,
                     me\<lparr>me_pending := AList.update bk (filter (\<lambda>o'. fill o' = None) orders) (me_pending me)\<rparr>)))"

definition fill_against_trade :: "trade_record \<Rightarrow> 'l matching_engine \<Rightarrow> fill_report list \<times> 'l matching_engine" where
  "fill_against_trade trade me =
     (let our_side = (if tr_side trade = BT_SELL then BT_BUY else BT_SELL);
          bk = me_key (tr_exchange trade) (tr_symbol trade)
      in case map_of (me_slot_queues me) bk of
           None \<Rightarrow> ([], me)
         | Some pq \<Rightarrow>
             (case level_queue_if_exists our_side (tr_price trade) pq of
                None \<Rightarrow> ([], me)
              | Some [] \<Rightarrow> ([], me)
              | Some q \<Rightarrow>
                  let (fills, q, orders) = trade_walk (me_current_ts me) (tr_quantity trade) q (map_of (me_pending me) bk);
                      me = me_set_queues bk (pq_set our_side (tr_price trade) q pq) me
                  in (fills,
                      case orders of
                        None \<Rightarrow> me
                      | Some os \<Rightarrow> me\<lparr>me_pending := AList.update bk
                          (filter (\<lambda>o'. \<not> (oo_queue_seeded o' \<and> oo_quantity o' - tiny \<le> oo_filled_qty o')) os)
                          (me_pending me)\<rparr>)))"

definition event_ts :: "market_event \<Rightarrow> u64" where
  "event_ts ev = (case ev of Ev_Book b \<Rightarrow> br_timestamp_ns b | Ev_Trade t \<Rightarrow> tr_timestamp_ns t)"

definition match_event :: "market_event \<Rightarrow> 'l matching_engine \<Rightarrow> fill_report list \<times> 'l matching_engine" where
  "match_event ev me =
     (let me = me\<lparr>me_current_ts := event_ts ev\<rparr>
      in case ev of
           Ev_Book ob \<Rightarrow>
             let bk = me_key (br_exchange ob) (br_symbol ob);
                 me = me_set_queues bk (reconcile_l2_snapshot (me_current_ts me) ob (me_queues bk me)) me;
                 me = me\<lparr>me_books := AList.update bk ob (me_books me)\<rparr>
             in fill_crossing_limits bk me
         | Ev_Trade t \<Rightarrow> fill_against_trade t me)"

definition on_market_event :: "market_event \<Rightarrow> 'l matching_engine \<Rightarrow> fill_report list \<times> 'l matching_engine" where
  "on_market_event ev me =
     (let me = drain_pending_submits (event_ts ev) me;
          (fills, me) = match_event ev me;
          me = fold schedule_fill fills me
      in drain_pending_fills (me_current_ts me) me)"

subsection \<open>Submitting and cancelling\<close>

definition submit_order :: "open_order \<Rightarrow> 'l matching_engine \<Rightarrow> open_order \<times> fill_report list \<times> 'l matching_engine" where
  "submit_order order me =
     (let order = order\<lparr>oo_submitted_ts := me_current_ts me\<rparr>;
          refused = (oo_type order = BT_POST_ONLY \<and>
            (case map_of (me_books me) (me_key (oo_exchange order) (oo_symbol order)) of
               None \<Rightarrow> False
             | Some book \<Rightarrow> crosses book order))
      in if refused then (order\<lparr>oo_rejected := True\<rparr>, [], me)
         else
           let (latency_ns, me) = me_draw (oo_exchange order) SUBMIT_TO_MATCH me;
               me = me\<lparr>me_pending_submits := me_pending_submits me @
                         [\<lparr>ps_order = order, ps_match_ts = me_current_ts me + latency_ns\<rparr>]\<rparr>;
               me = drain_pending_submits (me_current_ts me) me;
               (deliveries, me) = drain_pending_fills (me_current_ts me) me
           in (order, deliveries, me))"

definition remove_slot :: "string \<Rightarrow> open_order \<Rightarrow> 'l matching_engine \<Rightarrow> 'l matching_engine" where
  "remove_slot bk order me =
     (case map_of (me_slot_queues me) bk of
        None \<Rightarrow> me
      | Some pq \<Rightarrow>
          (case level_queue_if_exists (oo_side order) (oo_price order) pq of
             None \<Rightarrow> me
           | Some q \<Rightarrow> me_set_queues bk (pq_set (oo_side order) (oo_price order)
               (filter (\<lambda>s. \<not> (ls_is_ours s \<and> ls_our_order_id s = oo_order_id order)) q) pq) me))"

fun remove_first :: "('a \<Rightarrow> bool) \<Rightarrow> 'a list \<Rightarrow> 'a list" where
  "remove_first P [] = []"
| "remove_first P (x # xs) = (if P x then xs else x # remove_first P xs)"

definition cancel_order :: "string \<Rightarrow> string \<Rightarrow> string \<Rightarrow> 'l matching_engine \<Rightarrow> bool \<times> 'l matching_engine" where
  "cancel_order exchange symbol order_id me =
     (let bk = me_key exchange symbol;
          here = (\<lambda>o'. oo_order_id o' = order_id);
          waiting = (\<lambda>p. oo_exchange (ps_order p) = exchange \<and> oo_symbol (ps_order p) = symbol \<and>
                         oo_order_id (ps_order p) = order_id)
      in case find here (me_resting bk me) of
           Some order \<Rightarrow>
             let me = (if oo_queue_seeded order then remove_slot bk order me else me)
             in (True, me\<lparr>me_pending := AList.update bk (remove_first here (me_resting bk me)) (me_pending me)\<rparr>)
         | None \<Rightarrow>
             if list_ex waiting (me_pending_submits me)
             then (True, me\<lparr>me_pending_submits := remove_first waiting (me_pending_submits me)\<rparr>)
             else (False, me))"

subsection \<open>Which order ids and which reports a state holds\<close>

definition um_total :: "('v \<Rightarrow> 'a multiset) \<Rightarrow> ('k, 'v) umap \<Rightarrow> 'a multiset" where
  "um_total g m = sum_list (map (g \<circ> snd) m)"

lemma um_total_update:
  "um_wf m \<Longrightarrow> um_total g (AList.update k v m) + (case map_of m k of Some w \<Rightarrow> g w | None \<Rightarrow> {#}) = um_total g m + g v"
proof (induction m)
  case (Cons kv m)
  obtain k' v' where kv: "kv = (k', v')" by (cases kv)
  show ?case using Cons kv by (auto simp: um_total_def um_wf_Cons ac_simps split: option.splits)
qed (simp add: um_total_def)

definition ids_of :: "open_order list \<Rightarrow> string multiset" where
  "ids_of os = mset (map oo_order_id os)"

definition me_ids :: "'l matching_engine \<Rightarrow> string multiset" where
  "me_ids me = um_total ids_of (me_pending me) + ids_of (map ps_order (me_pending_submits me))"

definition me_reports :: "'l matching_engine \<Rightarrow> fill_report multiset" where
  "me_reports me = mset (map pf_fill (me_pending_fills me))"

definition me_wf :: "'l matching_engine \<Rightarrow> bool" where
  "me_wf me \<longleftrightarrow> um_wf (me_pending me)"

lemma ids_of_simps [simp]:
  "ids_of [] = {#}" "ids_of (xs @ ys) = ids_of xs + ids_of ys" "ids_of (x # xs) = add_mset (oo_order_id x) (ids_of xs)"
  by (simp_all add: ids_of_def)

lemma set_ids_of: "set_mset (ids_of os) = oo_order_id ` set os"
  by (simp add: ids_of_def)

lemma ids_of_filter: "ids_of (filter P os) \<subseteq># ids_of os"
  unfolding ids_of_def mset_map mset_filter by (intro image_mset_subseteq_mono multiset_filter_subset)

lemma um_total_member: "(k, v) \<in> set m \<Longrightarrow> g v \<subseteq># um_total g m"
  by (induction m) (auto simp: um_total_def intro: subset_mset.add_increasing subset_mset.add_increasing2)

text \<open>Replacing the orders resting on a book.\<close>

lemma me_ids_replace:
  assumes "me_wf me" "ids_of os \<subseteq># ids_of (me_resting bk me) + extra"
  shows "me_ids (me\<lparr>me_pending := AList.update bk os (me_pending me)\<rparr>) \<subseteq># me_ids me + extra"
    "me_wf (me\<lparr>me_pending := AList.update bk os (me_pending me)\<rparr>)"
proof -
  have "um_total ids_of (AList.update bk os (me_pending me)) + ids_of (me_resting bk me) = um_total ids_of (me_pending me) + ids_of os"
    using um_total_update [of "me_pending me" ids_of bk os] assms(1)
    by (simp add: me_wf_def me_resting_def split: option.splits)
  also have "\<dots> \<subseteq># um_total ids_of (me_pending me) + (ids_of (me_resting bk me) + extra)"
    using assms(2) by simp
  finally have "um_total ids_of (AList.update bk os (me_pending me)) \<subseteq># um_total ids_of (me_pending me) + extra"
    by (simp add: ac_simps)
  then show "me_ids (me\<lparr>me_pending := AList.update bk os (me_pending me)\<rparr>) \<subseteq># me_ids me + extra"
    by (simp add: me_ids_def ac_simps)
  show "me_wf (me\<lparr>me_pending := AList.update bk os (me_pending me)\<rparr>)" using assms(1) by (simp add: me_wf_def)
qed

lemma me_resting_ids: "me_wf me \<Longrightarrow> ids_of (me_resting bk me) \<subseteq># me_ids me"
proof (cases "map_of (me_pending me) bk")
  case (Some os)
  then have "ids_of os \<subseteq># um_total ids_of (me_pending me)" by (intro um_total_member map_of_SomeD)
  then show ?thesis using Some by (simp add: me_resting_def me_ids_def subset_mset.add_increasing2)
qed (simp add: me_resting_def)

text \<open>
  What a step may do: it adds no order ids but \<open>extra\<close>, and every new report is about an order
  the state held and respects its limit.
\<close>

definition new_reports_ok :: "string multiset \<Rightarrow> fill_report list \<Rightarrow> bool" where
  "new_reports_ok ids rs \<longleftrightarrow> (\<forall>r \<in> set rs. fr_order_id r \<in># ids \<and> fr_price_ok r)"

lemma new_reports_ok_simps [simp]:
  "new_reports_ok ids []" "new_reports_ok ids (xs @ ys) \<longleftrightarrow> new_reports_ok ids xs \<and> new_reports_ok ids ys"
  by (auto simp: new_reports_ok_def)

lemma new_reports_ok_mono: "new_reports_ok ids rs \<Longrightarrow> ids \<subseteq># ids' \<Longrightarrow> new_reports_ok ids' rs"
  by (auto simp: new_reports_ok_def dest: mset_subset_eqD)

lemma me_draw_frame [simp]:
  "me_pending (snd (me_draw v l me)) = me_pending me" "me_pending_submits (snd (me_draw v l me)) = me_pending_submits me"
  "me_pending_fills (snd (me_draw v l me)) = me_pending_fills me" "me_current_ts (snd (me_draw v l me)) = me_current_ts me"
  by (simp_all add: me_draw_def split_beta split: option.splits)

lemma schedule_fill_frame [simp]:
  "me_pending (schedule_fill f me) = me_pending me" "me_pending_submits (schedule_fill f me) = me_pending_submits me"
  "me_current_ts (schedule_fill f me) = me_current_ts me"
  "map pf_fill (me_pending_fills (schedule_fill f me)) = map pf_fill (me_pending_fills me) @ [f]"
  by (simp_all add: schedule_fill_def split_beta)

lemma schedule_fills_frame [simp]:
  "me_pending (fold schedule_fill fs me) = me_pending me"
  "me_pending_submits (fold schedule_fill fs me) = me_pending_submits me"
  "me_current_ts (fold schedule_fill fs me) = me_current_ts me"
  "map pf_fill (me_pending_fills (fold schedule_fill fs me)) = map pf_fill (me_pending_fills me) @ fs"
  by (induction fs arbitrary: me) simp_all

lemma schedule_fills_state:
  "me_ids (fold schedule_fill fs me) = me_ids me" "me_wf (fold schedule_fill fs me) = me_wf me"
  "me_reports (fold schedule_fill fs me) = me_reports me + mset fs"
proof -
  show "me_ids (fold schedule_fill fs me) = me_ids me" "me_wf (fold schedule_fill fs me) = me_wf me"
    by (simp_all add: me_ids_def me_wf_def)
  show "me_reports (fold schedule_fill fs me) = me_reports me + mset fs"
    unfolding me_reports_def by (metis schedule_fills_frame(4) mset_append)
qed

subsection \<open>The steps\<close>

lemma me_update_frame [simp]:
  "me_ids (me_set_queues bk pq me) = me_ids me" "me_wf (me_set_queues bk pq me) = me_wf me"
  "me_pending_submits (me_set_queues bk pq me) = me_pending_submits me"
  "me_pending_fills (me_set_queues bk pq me) = me_pending_fills me"
  "me_pending (me_set_queues bk pq me) = me_pending me" "me_current_ts (me_set_queues bk pq me) = me_current_ts me"
  "me_ids (me\<lparr>me_books := bs\<rparr>) = me_ids me" "me_wf (me\<lparr>me_books := bs\<rparr>) = me_wf me"
  "me_ids (me\<lparr>me_current_ts := t\<rparr>) = me_ids me" "me_wf (me\<lparr>me_current_ts := t\<rparr>) = me_wf me"
  "me_resting bk' (me_set_queues bk pq me) = me_resting bk' me"
  by (simp_all add: me_set_queues_def me_ids_def me_wf_def me_resting_def)

lemma me_push_spec:
  assumes "me_wf me"
  shows "me_wf (me_push o' me) \<and> me_ids (me_push o' me) \<subseteq># me_ids me + {#oo_order_id o'#} \<and>
    me_pending_submits (me_push o' me) = me_pending_submits me \<and>
    me_pending_fills (me_push o' me) = me_pending_fills me \<and> me_current_ts (me_push o' me) = me_current_ts me"
  using me_ids_replace [OF assms, of "me_resting bk me @ [o']" bk "{#oo_order_id o'#}" for bk]
  by (simp add: me_push_def Let_def)

lemma rest_order_spec:
  assumes "me_wf me"
  shows "me_wf (rest_order o' b me) \<and> me_ids (rest_order o' b me) \<subseteq># me_ids me + {#oo_order_id o'#} \<and>
    me_pending_submits (rest_order o' b me) = me_pending_submits me \<and>
    me_pending_fills (rest_order o' b me) = me_pending_fills me \<and> me_current_ts (rest_order o' b me) = me_current_ts me"
proof -
  obtain bk pq where "rest_order o' b me = me_push (o'\<lparr>oo_queue_seeded := True\<rparr>) (me_set_queues bk pq me)"
    by (simp add: rest_order_def Let_def)
  then show ?thesis using me_push_spec [of "me_set_queues bk pq me" "o'\<lparr>oo_queue_seeded := True\<rparr>"] assms by simp
qed

lemma fill_book_until_reports:
  assumes "report_type = BT_MARKET \<or> report_type = BT_LIMIT \<and> limit = oo_price o'"
  shows "new_reports_ok {#oo_order_id o'#} (fst (fill_book_until o' b limit report_type ts))"
    "oo_order_id (snd (fill_book_until o' b limit report_type ts)) = oo_order_id o'"
  using walk_levels_reports [OF assms] by (auto simp: fill_book_until_def new_reports_ok_def walk_levels_order)

lemma process_pending_submit_spec:
  assumes "me_wf me"
  shows "me_wf (snd (process_pending_submit o' me)) \<and>
    me_ids (snd (process_pending_submit o' me)) \<subseteq># me_ids me + {#oo_order_id o'#} \<and>
    new_reports_ok {#oo_order_id o'#} (fst (process_pending_submit o' me)) \<and>
    me_pending_submits (snd (process_pending_submit o' me)) = me_pending_submits me \<and>
    me_pending_fills (snd (process_pending_submit o' me)) = me_pending_fills me \<and>
    me_current_ts (snd (process_pending_submit o' me)) = me_current_ts me"
proof (cases "map_of (me_books me) (me_key (oo_exchange o') (oo_symbol o'))")
  case None
  then show ?thesis using me_push_spec [OF assms, of o'] assms by (simp add: process_pending_submit_def)
next
  case (Some b)
  show ?thesis
  proof (cases "oo_type o' = BT_MARKET")
    case True
    have "new_reports_ok {#oo_order_id o'#} (fst (fill_market o' b ts))" for ts
      unfolding fill_market_def by (rule fill_book_until_reports) simp
    then show ?thesis using Some True assms by (simp add: process_pending_submit_def)
  next
    case False
    let ?f = "if crosses b o' \<and> oo_type o' = BT_LIMIT
        then fill_book_until o' b (oo_price o') BT_LIMIT (me_current_ts me) else ([], o')"
    have f: "new_reports_ok {#oo_order_id o'#} (fst ?f)" "oo_order_id (snd ?f) = oo_order_id o'"
      using fill_book_until_reports [of BT_LIMIT "oo_price o'" o' b "me_current_ts me"] by auto
    have "process_pending_submit o' me = (fst ?f,
        if oo_filled_qty (snd ?f) < oo_quantity (snd ?f) - tiny then rest_order (snd ?f) b me else me)"
      using Some False by (simp add: process_pending_submit_def Let_def split_beta)
    then show ?thesis using f rest_order_spec [OF assms, of "snd ?f" b] assms by simp
  qed
qed

lemma process_due_spec:
  "me_wf me \<Longrightarrow> me_wf (snd (process_due ps me)) \<and>
    me_ids (snd (process_due ps me)) \<subseteq># me_ids me + ids_of (map ps_order ps) \<and>
    new_reports_ok (ids_of (map ps_order ps)) (fst (process_due ps me)) \<and>
    me_pending_submits (snd (process_due ps me)) = me_pending_submits me \<and>
    me_pending_fills (snd (process_due ps me)) = me_pending_fills me"
proof (induction ps arbitrary: me)
  case (Cons p ps)
  define m1 where "m1 = (if me_current_ts me < ps_match_ts p then me\<lparr>me_current_ts := ps_match_ts p\<rparr> else me)"
  define r where "r = process_pending_submit (ps_order p) m1"
  have m1: "me_wf m1" "me_ids m1 = me_ids me" "me_pending_submits m1 = me_pending_submits me"
    "me_pending_fills m1 = me_pending_fills me" using Cons.prems by (simp_all add: m1_def)
  note step = process_pending_submit_spec [OF m1(1), of "ps_order p", folded r_def]
  have wf: "me_wf (snd r)" using step by blast
  note rest = Cons.IH [OF wf]
  have res: "process_due (p # ps) me = (fst r @ fst (process_due ps (snd r)), snd (process_due ps (snd r)))"
    by (simp add: m1_def r_def Let_def split_beta)
  have a: "me_ids (snd (process_due ps (snd r))) \<subseteq># me_ids (snd r) + ids_of (map ps_order ps)" using rest by blast
  have b: "me_ids (snd r) \<subseteq># me_ids me + {#oo_order_id (ps_order p)#}" using step m1(2) by simp
  have "me_ids (snd (process_due ps (snd r))) \<subseteq># (me_ids me + {#oo_order_id (ps_order p)#}) + ids_of (map ps_order ps)"
    by (rule subset_mset.order_trans [OF a subset_mset.add_right_mono [OF b]])
  moreover have "new_reports_ok (ids_of (map ps_order (p # ps))) (fst r)"
    using step by (auto intro: new_reports_ok_mono)
  moreover have "new_reports_ok (ids_of (map ps_order (p # ps))) (fst (process_due ps (snd r)))"
    using rest by (auto intro: new_reports_ok_mono)
  ultimately show ?case using rest step m1 unfolding res by simp
qed simp

text \<open>
  One step: \<open>extra\<close> order ids may join, the reports held and delivered afterwards are those held
  before and new ones that are right.
\<close>

definition me_trans ::
  "'l matching_engine \<Rightarrow> string multiset \<Rightarrow> fill_report list \<Rightarrow> 'l matching_engine \<Rightarrow> bool" where
  "me_trans me extra ds me' \<longleftrightarrow>
     me_wf me' \<and> me_ids me' \<subseteq># me_ids me + extra \<and>
     (\<exists>new. mset ds + me_reports me' = me_reports me + mset new \<and> new_reports_ok (me_ids me + extra) new)"

lemma me_trans_refl: "me_wf me \<Longrightarrow> me_trans me extra [] me"
  by (auto simp: me_trans_def intro: exI [of _ "[]"])

lemma me_trans_comp:
  assumes "me_trans me e1 ds1 me1" "me_trans me1 e2 ds2 me2"
  shows "me_trans me (e1 + e2) (ds1 @ ds2) me2"
proof -
  obtain n1 n2 where n: "mset ds1 + me_reports me1 = me_reports me + mset n1" "new_reports_ok (me_ids me + e1) n1"
    "mset ds2 + me_reports me2 = me_reports me1 + mset n2" "new_reports_ok (me_ids me1 + e2) n2"
    using assms by (auto simp: me_trans_def)
  have ids: "me_ids me1 + e2 \<subseteq># me_ids me + (e1 + e2)"
    using assms(1) by (simp add: me_trans_def flip: add.assoc)
  have "me_ids me2 \<subseteq># me_ids me + (e1 + e2)"
    using assms(2) ids by (auto simp: me_trans_def intro: subset_mset.order_trans)
  moreover have "mset (ds1 @ ds2) + me_reports me2 = me_reports me + mset (n1 @ n2)"
  proof -
    have "mset (ds1 @ ds2) + me_reports me2 = mset ds1 + (mset ds2 + me_reports me2)" by (simp add: ac_simps)
    also have "\<dots> = (mset ds1 + me_reports me1) + mset n2" by (simp only: n(3) add.assoc)
    also have "\<dots> = me_reports me + mset (n1 @ n2)" by (simp only: n(1) mset_append add.assoc)
    finally show ?thesis .
  qed
  moreover have "new_reports_ok (me_ids me + (e1 + e2)) (n1 @ n2)"
    using n(2) new_reports_ok_mono [OF n(4) ids] by (auto intro: new_reports_ok_mono)
  ultimately show ?thesis using assms(2) unfolding me_trans_def by blast
qed

lemma sorted_rest_after:
  assumes "sorted (map f xs)"
  shows "list_all (\<lambda>x. t < f x) (drop (length (takeWhile (\<lambda>x. \<not> t < f x) xs)) xs)"
  using assms
proof (induction xs)
  case (Cons x xs)
  show ?case
  proof (cases "t < f x")
    case True
    then have "\<forall>y \<in> set xs. t < f y" using Cons.prems by (auto intro: order_less_le_trans)
    then show ?thesis using True by (simp add: list_all_iff)
  qed (use Cons in simp)
qed simp

lemma take_due: "takeWhile P xs @ drop (length (takeWhile P xs)) xs = xs"
  by (metis dropWhile_eq_drop takeWhile_dropWhile_id)

lemma drain_submits_trans:
  assumes "me_wf me"
  shows "me_trans me {#} [] (drain_pending_submits t me)"
    "list_all (\<lambda>p. t < ps_match_ts p) (me_pending_submits (drain_pending_submits t me))"
proof -
  define ps where "ps = sort_key ps_match_ts (me_pending_submits me)"
  define due where "due = takeWhile (\<lambda>p. \<not> t < ps_match_ts p) ps"
  define r where "r = process_due due me"
  have d: "drain_pending_submits t me
      = fold schedule_fill (fst r) (snd r\<lparr>me_pending_submits := drop (length due) ps\<rparr>)"
    by (simp add: drain_pending_submits_def ps_def due_def r_def Let_def split_beta)
  note pd = process_due_spec [OF assms, of due, folded r_def]
  have "ids_of (map ps_order ps) = ids_of (map ps_order (me_pending_submits me))"
    unfolding ids_of_def map_map mset_map by (simp add: ps_def)
  then have split: "ids_of (map ps_order due) + ids_of (map ps_order (drop (length due) ps))
      = ids_of (map ps_order (me_pending_submits me))"
    using take_due [of "\<lambda>p. \<not> t < ps_match_ts p" ps] unfolding due_def by (metis ids_of_simps(2) map_append)
  have "um_total ids_of (me_pending (snd r)) \<subseteq># um_total ids_of (me_pending me) + ids_of (map ps_order due)"
  proof -
    have eq: "me_pending_submits (snd r) = me_pending_submits me" using pd by blast
    have "me_ids (snd r) \<subseteq># me_ids me + ids_of (map ps_order due)" using pd by blast
    then show ?thesis unfolding me_ids_def eq by (simp add: ac_simps)
  qed
  then have ids: "me_ids (drain_pending_submits t me) \<subseteq># me_ids me"
    unfolding d schedule_fills_state by (simp add: me_ids_def ac_simps flip: split)
  have "ids_of (map ps_order due) \<subseteq># me_ids me" by (simp add: me_ids_def flip: split)
  then have "new_reports_ok (me_ids me) (fst r)" using pd by (auto intro: new_reports_ok_mono)
  moreover have "me_reports (drain_pending_submits t me) = me_reports me + mset (fst r)"
    using pd unfolding d schedule_fills_state by (simp add: me_reports_def)
  moreover have "me_wf (drain_pending_submits t me)"
    using pd unfolding d schedule_fills_state by (simp add: me_wf_def)
  ultimately show "me_trans me {#} [] (drain_pending_submits t me)" using ids by (auto simp: me_trans_def)
  show "list_all (\<lambda>p. t < ps_match_ts p) (me_pending_submits (drain_pending_submits t me))"
    unfolding d by (simp add: due_def) (rule sorted_rest_after, simp add: ps_def)
qed

lemma drain_fills_trans:
  assumes "me_wf me"
  shows "me_trans me {#} (fst (drain_pending_fills t me)) (snd (drain_pending_fills t me))"
    "list_all (\<lambda>f. t < pf_report_ts f) (me_pending_fills (snd (drain_pending_fills t me)))"
    "me_pending_submits (snd (drain_pending_fills t me)) = me_pending_submits me"
    "me_current_ts (snd (drain_pending_fills t me)) = me_current_ts me"
proof -
  define fs where "fs = sort_key pf_report_ts (me_pending_fills me)"
  define due where "due = takeWhile (\<lambda>f. \<not> t < pf_report_ts f) fs"
  have d: "drain_pending_fills t me = (map pf_fill due, me\<lparr>me_pending_fills := drop (length due) fs\<rparr>)"
    by (simp add: drain_pending_fills_def fs_def due_def Let_def)
  have "mset (map pf_fill due) + mset (map pf_fill (drop (length due) fs)) = mset (map pf_fill fs)"
    using take_due [of "\<lambda>f. \<not> t < pf_report_ts f" fs] unfolding due_def by (metis map_append mset_append)
  also have "\<dots> = me_reports me" unfolding me_reports_def mset_map by (simp add: fs_def)
  finally show "me_trans me {#} (fst (drain_pending_fills t me)) (snd (drain_pending_fills t me))"
    using assms unfolding d
    by (auto simp: me_trans_def me_reports_def me_ids_def me_wf_def intro: exI [of _ "[]"])
  show "list_all (\<lambda>f. t < pf_report_ts f) (me_pending_fills (snd (drain_pending_fills t me)))"
    unfolding d by (simp add: due_def) (rule sorted_rest_after, simp add: fs_def)
  show "me_pending_submits (snd (drain_pending_fills t me)) = me_pending_submits me"
    "me_current_ts (snd (drain_pending_fills t me)) = me_current_ts me" by (simp_all add: d)
qed

lemma me_replace_some:
  assumes "me_wf me" "map_of (me_pending me) bk = Some orders" "ids_of os \<subseteq># ids_of orders"
  shows "me_ids (me\<lparr>me_pending := AList.update bk os (me_pending me)\<rparr>) \<subseteq># me_ids me"
    "me_wf (me\<lparr>me_pending := AList.update bk os (me_pending me)\<rparr>)" "ids_of orders \<subseteq># me_ids me"
  using me_ids_replace [OF assms(1), of os bk "{#}"] me_resting_ids [OF assms(1), of bk] assms(2,3)
  by (simp_all add: me_resting_def)

definition me_quiet :: "'l matching_engine \<Rightarrow> fill_report list \<Rightarrow> 'l matching_engine \<Rightarrow> bool" where
  "me_quiet me rs me' \<longleftrightarrow>
     me_wf me' \<and> me_ids me' \<subseteq># me_ids me \<and> new_reports_ok (me_ids me) rs \<and>
     me_pending_submits me' = me_pending_submits me \<and> me_pending_fills me' = me_pending_fills me \<and>
     me_current_ts me' = me_current_ts me"

lemma me_quiet_refl [simp]: "me_wf me \<Longrightarrow> me_quiet me [] me"
  by (simp add: me_quiet_def)

lemma fill_crossing_limits_quiet:
  assumes "me_wf me"
  shows "me_quiet me (fst (fill_crossing_limits bk me)) (snd (fill_crossing_limits bk me))"
proof (cases "map_of (me_books me) bk")
  case (Some book)
  show ?thesis
  proof (cases "bid_px0 book \<le> 0 \<and> ask_px0 book \<le> 0 \<or> map_of (me_pending me) bk = None")
    case False
    then obtain orders where o': "map_of (me_pending me) bk = Some orders" by auto
    let ?fill = "fill_crossing_limit book (me_current_ts me)"
    note rep = me_replace_some [OF assms o' ids_of_filter [of "\<lambda>x. ?fill x = None"]]
    have "new_reports_ok (ids_of orders) (List.map_filter ?fill orders)"
      unfolding new_reports_ok_def
    proof
      fix r assume "r \<in> set (List.map_filter ?fill orders)"
      then obtain x where "x \<in> set orders" "?fill x = Some r" by (auto simp: List.map_filter_def)
      then show "fr_order_id r \<in># ids_of orders \<and> fr_price_ok r"
        using fill_crossing_limit_report [of book "me_current_ts me" x r] by (simp add: set_ids_of)
    qed
    then have "new_reports_ok (me_ids me) (List.map_filter ?fill orders)" using rep(3) by (rule new_reports_ok_mono)
    then show ?thesis using Some False o' rep by (auto simp: fill_crossing_limits_def Let_def me_quiet_def)
  qed (use Some assms in \<open>auto simp: fill_crossing_limits_def\<close>)
qed (use assms in \<open>simp add: fill_crossing_limits_def\<close>)

lemma ids_of_order_ids: "ids_of os = mset (order_ids (Some os))"
  by (simp add: ids_of_def order_ids_def)

lemma fill_against_trade_quiet:
  assumes "me_wf me"
  shows "me_quiet me (fst (fill_against_trade t me)) (snd (fill_against_trade t me))"
proof -
  define side where "side = (if tr_side t = BT_SELL then BT_BUY else BT_SELL)"
  define bk where "bk = me_key (tr_exchange t) (tr_symbol t)"
  show ?thesis
  proof (cases "\<exists>pq s q. map_of (me_slot_queues me) bk = Some pq \<and> level_queue_if_exists side (tr_price t) pq = Some (s # q)")
    case False
    then have "fill_against_trade t me = ([], me)"
      by (auto simp: fill_against_trade_def Let_def side_def bk_def split: option.splits list.splits)
    then show ?thesis using assms by simp
  next
    case True
    then obtain pq s q where q: "map_of (me_slot_queues me) bk = Some pq"
      "level_queue_if_exists side (tr_price t) pq = Some (s # q)" by blast
    define w where "w = trade_walk (me_current_ts me) (tr_quantity t) (s # q) (map_of (me_pending me) bk)"
    define m1 where "m1 = me_set_queues bk (pq_set side (tr_price t) (fst (snd w)) pq) me"
    note rep = trade_walk_reports [of "me_current_ts me" "tr_quantity t" "s # q" "map_of (me_pending me) bk", folded w_def]
    have m1: "me_wf m1" "me_ids m1 = me_ids me" "me_pending m1 = me_pending me" using assms by (simp_all add: m1_def)
    have e: "fill_against_trade t me = (fst w, case snd (snd w) of None \<Rightarrow> m1
        | Some os \<Rightarrow> m1\<lparr>me_pending := AList.update bk
            (filter (\<lambda>o'. \<not> (oo_queue_seeded o' \<and> oo_quantity o' - tiny \<le> oo_filled_qty o')) os) (me_pending m1)\<rparr>)"
      using q by (cases "snd (snd w)")
        (simp_all add: fill_against_trade_def Let_def w_def m1_def split_beta flip: side_def bk_def)
    show ?thesis
    proof (cases "map_of (me_pending me) bk")
      case None
      then have "fst w = []" using rep by (cases "fst w") (auto simp: order_ids_def)
      then show ?thesis using None rep m1 unfolding e by (simp add: me_quiet_def) (simp add: m1_def)
    next
      case (Some orders)
      then obtain os where os: "snd (snd w) = Some os" using rep by auto
      have ids: "ids_of os = ids_of orders" using rep os Some by (simp add: ids_of_order_ids)
      note r = me_replace_some [OF m1(1), of bk orders, unfolded m1, OF Some,
          of "filter (\<lambda>o'. \<not> (oo_queue_seeded o' \<and> oo_quantity o' - tiny \<le> oo_filled_qty o')) os"]
      have sub: "ids_of (filter (\<lambda>o'. \<not> (oo_queue_seeded o' \<and> oo_quantity o' - tiny \<le> oo_filled_qty o')) os) \<subseteq># ids_of orders"
        using ids_of_filter ids by metis
      have "new_reports_ok (ids_of orders) (fst w)" using rep Some by (simp add: new_reports_ok_def ids_of_order_ids)
      then have "new_reports_ok (me_ids me) (fst w)" using r(3) [OF sub] by (rule new_reports_ok_mono)
      then show ?thesis using r(1,2) [OF sub] m1 unfolding e os by (simp add: me_quiet_def) (simp add: m1_def)
    qed
  qed
qed

lemma match_event_quiet:
  assumes "me_wf me"
  shows "me_quiet (me\<lparr>me_current_ts := event_ts ev\<rparr>) (fst (match_event ev me)) (snd (match_event ev me))"
proof (cases ev)
  case (Ev_Trade t)
  then show ?thesis using fill_against_trade_quiet [of "me\<lparr>me_current_ts := event_ts ev\<rparr>" t] assms
    by (simp add: match_event_def)
next
  case (Ev_Book ob)
  obtain bk pq bs where e: "match_event ev me
      = fill_crossing_limits bk ((me_set_queues bk pq (me\<lparr>me_current_ts := event_ts ev\<rparr>))\<lparr>me_books := bs\<rparr>)"
    using Ev_Book by (simp add: match_event_def Let_def)
  show ?thesis using fill_crossing_limits_quiet [of "(me_set_queues bk pq (me\<lparr>me_current_ts := event_ts ev\<rparr>))\<lparr>me_books := bs\<rparr>" bk] assms
    unfolding e by (simp add: me_quiet_def)
qed

lemma on_market_event_trans:
  assumes "me_wf me"
  shows "me_trans me {#} (fst (on_market_event ev me)) (snd (on_market_event ev me))"
    "list_all (\<lambda>p. event_ts ev < ps_match_ts p) (me_pending_submits (snd (on_market_event ev me)))"
    "list_all (\<lambda>f. event_ts ev < pf_report_ts f) (me_pending_fills (snd (on_market_event ev me)))"
proof -
  define m1 where "m1 = drain_pending_submits (event_ts ev) me"
  define r where "r = match_event ev m1"
  define m2 where "m2 = fold schedule_fill (fst r) (snd r)"
  have e: "on_market_event ev me = drain_pending_fills (me_current_ts m2) m2"
    by (simp add: on_market_event_def m1_def r_def m2_def Let_def split_beta)
  note d = drain_submits_trans [OF assms, of "event_ts ev", folded m1_def]
  have wf1: "me_wf m1" using d(1) by (simp add: me_trans_def)
  note q = match_event_quiet [OF wf1, of ev, folded r_def]
  have m2: "me_wf m2" "me_pending_submits m2 = me_pending_submits m1" "me_current_ts m2 = event_ts ev"
    using q by (simp_all add: m2_def schedule_fills_state me_quiet_def)
  have "me_trans m1 {#} [] m2"
    using q m2(1) by (auto simp: me_trans_def m2_def schedule_fills_state me_quiet_def me_reports_def
        intro!: exI [of _ "fst r"])
  from me_trans_comp [OF me_trans_comp [OF d(1) this] drain_fills_trans(1) [OF m2(1), of "me_current_ts m2"]]
  show "me_trans me {#} (fst (on_market_event ev me)) (snd (on_market_event ev me))" by (simp add: e)
  show "list_all (\<lambda>p. event_ts ev < ps_match_ts p) (me_pending_submits (snd (on_market_event ev me)))"
    "list_all (\<lambda>f. event_ts ev < pf_report_ts f) (me_pending_fills (snd (on_market_event ev me)))"
    using drain_fills_trans(2,3) [OF m2(1), of "me_current_ts m2"] d(2) m2(2,3) by (simp_all add: e)
qed

lemma submit_order_trans:
  assumes "me_wf me"
  shows "me_trans me {#oo_order_id order#} (fst (snd (submit_order order me))) (snd (snd (submit_order order me)))"
proof -
  define o1 where "o1 = order\<lparr>oo_submitted_ts := me_current_ts me\<rparr>"
  define r where "r = me_draw (oo_exchange o1) SUBMIT_TO_MATCH me"
  define m2 where "m2 = (snd r)\<lparr>me_pending_submits := me_pending_submits (snd r) @
      [\<lparr>ps_order = o1, ps_match_ts = me_current_ts (snd r) + fst r\<rparr>]\<rparr>"
  define m3 where "m3 = drain_pending_submits (me_current_ts m2) m2"
  show ?thesis
  proof (cases "snd (submit_order order me) = ([], me)")
    case True
    then show ?thesis using me_trans_refl [OF assms] by simp
  next
    case False
    then have e: "snd (submit_order order me) = drain_pending_fills (me_current_ts m3) m3"
      unfolding submit_order_def Let_def by (auto simp: o1_def r_def m2_def m3_def split_beta split: if_splits)
    have m2: "me_wf m2" "me_ids m2 = me_ids me + {#oo_order_id order#}" "me_reports m2 = me_reports me"
      using assms by (simp_all add: m2_def r_def me_wf_def me_ids_def me_reports_def o1_def)
    then have "me_trans me {#oo_order_id order#} [] m2"
      by (auto simp: me_trans_def intro!: exI [of _ "[]"])
    moreover have d: "me_trans m2 {#} [] m3" unfolding m3_def by (rule drain_submits_trans(1) [OF m2(1)])
    moreover have "me_trans m3 {#} (fst (drain_pending_fills (me_current_ts m3) m3)) (snd (drain_pending_fills (me_current_ts m3) m3))"
      using d by (intro drain_fills_trans) (simp add: me_trans_def)
    ultimately have "me_trans me (({#oo_order_id order#} + {#}) + {#}) (([] @ []) @ fst (snd (submit_order order me)))
        (snd (snd (submit_order order me)))"
      unfolding e by (blast intro: me_trans_comp)
    then show ?thesis by simp
  qed
qed

lemma find_remove_first:
  "find P xs = Some y \<Longrightarrow> P y \<and> ids_of xs = add_mset (oo_order_id y) (ids_of (remove_first P xs))"
  by (induction xs) (auto split: if_splits)

lemma ex_remove_first:
  "list_ex P xs \<Longrightarrow> (\<And>x. P x \<Longrightarrow> f x = i) \<Longrightarrow>
    mset (map f xs) = add_mset i (mset (map f (remove_first P xs)))"
  by (induction xs) auto

lemma remove_slot_frame [simp]:
  "me_ids (remove_slot bk x me) = me_ids me" "me_wf (remove_slot bk x me) = me_wf me"
  "me_pending (remove_slot bk x me) = me_pending me" "me_pending_fills (remove_slot bk x me) = me_pending_fills me"
  "me_pending_submits (remove_slot bk x me) = me_pending_submits me"
  "me_resting bk' (remove_slot bk x me) = me_resting bk' me"
  by (simp_all add: remove_slot_def split: option.splits)

lemma cancel_order_spec:
  assumes "me_wf me"
  shows "me_wf (snd (cancel_order ex sy i me)) \<and> me_reports (snd (cancel_order ex sy i me)) = me_reports me \<and>
    me_ids me = me_ids (snd (cancel_order ex sy i me)) + (if fst (cancel_order ex sy i me) then {#i#} else {#})"
proof -
  define bk where "bk = me_key ex sy"
  show ?thesis
  proof (cases "find (\<lambda>x. oo_order_id x = i) (me_resting bk me)")
    case (Some x)
    define m1 where "m1 = (if oo_queue_seeded x then remove_slot bk x me else me)"
    define os where "os = remove_first (\<lambda>x. oo_order_id x = i) (me_resting bk me)"
    have m1: "me_wf m1" "me_pending m1 = me_pending me" "me_pending_fills m1 = me_pending_fills me"
      "me_pending_submits m1 = me_pending_submits me" "me_resting bk m1 = me_resting bk me"
      using assms by (simp_all add: m1_def me_resting_def)
    have e: "cancel_order ex sy i me = (True, m1\<lparr>me_pending := AList.update bk os (me_pending me)\<rparr>)"
      using Some by (simp add: cancel_order_def Let_def m1_def os_def flip: bk_def)
    have "oo_order_id x = i \<and> ids_of (me_resting bk me) = add_mset (oo_order_id x) (ids_of os)"
      unfolding os_def by (rule find_remove_first [OF Some])
    then have ids: "ids_of (me_resting bk me) = ids_of os + {#i#}" by simp
    have "um_total ids_of (AList.update bk os (me_pending me)) + ids_of (me_resting bk me) = um_total ids_of (me_pending me) + ids_of os"
      using um_total_update [of "me_pending me" ids_of bk os] assms
      by (simp add: me_wf_def me_resting_def split: option.splits)
    then have "um_total ids_of (me_pending me) = um_total ids_of (AList.update bk os (me_pending me)) + {#i#}"
      unfolding ids by simp
    then show ?thesis unfolding e using m1 assms
      by (simp add: me_ids_def me_wf_def me_reports_def)
  next
    case None
    define P :: "pending_submit \<Rightarrow> bool" where "P = (\<lambda>p. oo_exchange (ps_order p) = ex \<and> oo_symbol (ps_order p) = sy \<and> oo_order_id (ps_order p) = i)"
    have e: "cancel_order ex sy i me = (if list_ex P (me_pending_submits me)
        then (True, me\<lparr>me_pending_submits := remove_first P (me_pending_submits me)\<rparr>) else (False, me))"
      using None by (simp add: cancel_order_def Let_def P_def flip: bk_def)
    have "ids_of (map ps_order (me_pending_submits me)) = add_mset i (ids_of (map ps_order (remove_first P (me_pending_submits me))))"
      if "list_ex P (me_pending_submits me)"
      using ex_remove_first [OF that, of "oo_order_id \<circ> ps_order" i] by (simp add: P_def ids_of_def)
    then show ?thesis unfolding e using assms by (auto simp: me_ids_def me_wf_def me_reports_def)
  qed
qed

subsection \<open>Runs\<close>

datatype 'l me_call = Me_Event market_event | Me_Submit open_order | Me_Cancel string string string
  | Me_Latency "'l latency_model option"

text \<open>The state of a run: the reports delivered so far and the engine.\<close>

fun me_step :: "'l me_call \<Rightarrow> fill_report list \<times> 'l matching_engine \<Rightarrow> fill_report list \<times> 'l matching_engine" where
  "me_step (Me_Event ev) (ds, me) = (ds @ fst (on_market_event ev me), snd (on_market_event ev me))"
| "me_step (Me_Submit order) (ds, me) = (ds @ fst (snd (submit_order order me)), snd (snd (submit_order order me)))"
| "me_step (Me_Cancel ex sy i) (ds, me) = (ds, snd (cancel_order ex sy i me))"
| "me_step (Me_Latency m) (ds, me) = (ds, set_latency_model m me)"

fun submitted :: "'l me_call \<Rightarrow> string multiset" where
  "submitted (Me_Submit order) = {#oo_order_id order#}"
| "submitted _ = {#}"

definition all_submitted :: "'l me_call list \<Rightarrow> string multiset" where
  "all_submitted cs = sum_list (map submitted cs)"

lemma me_step_trans:
  assumes "me_wf me"
  shows "\<exists>ds'. me_step c (ds, me) = (ds @ ds', snd (me_step c (ds, me))) \<and>
    me_trans me (submitted c) ds' (snd (me_step c (ds, me)))"
proof (cases c)
  case (Me_Event ev)
  then show ?thesis using on_market_event_trans(1) [OF assms, of ev] by auto
next
  case (Me_Submit order)
  then show ?thesis using submit_order_trans [OF assms, of order] by auto
next
  case (Me_Cancel ex sy i)
  have "me_trans me {#} [] (snd (cancel_order ex sy i me))"
    using cancel_order_spec [OF assms, of ex sy i] by (auto simp: me_trans_def intro!: exI [of _ "[]"])
  then show ?thesis using Me_Cancel by auto
next
  case (Me_Latency m)
  have "me_trans me {#} [] (set_latency_model m me)"
    using assms by (auto simp: me_trans_def set_latency_model_def me_ids_def me_wf_def me_reports_def intro!: exI [of _ "[]"])
  then show ?thesis using Me_Latency by auto
qed

lemma me_run_trans:
  "me_wf me \<Longrightarrow> \<exists>ds'. fst (fold me_step cs (ds, me)) = ds @ ds' \<and>
    me_trans me (all_submitted cs) ds' (snd (fold me_step cs (ds, me)))"
proof (induction cs arbitrary: ds me)
  case Nil
  then show ?case by (auto simp: all_submitted_def intro: me_trans_refl)
next
  case (Cons c cs)
  obtain d1 where d1: "me_step c (ds, me) = (ds @ d1, snd (me_step c (ds, me)))"
    "me_trans me (submitted c) d1 (snd (me_step c (ds, me)))" using me_step_trans [OF Cons.prems] by blast
  define m1 where "m1 = snd (me_step c (ds, me))"
  have "me_wf m1" using d1(2) by (simp add: me_trans_def m1_def)
  then obtain d2 where d2: "fst (fold me_step cs (ds @ d1, m1)) = (ds @ d1) @ d2"
    "me_trans m1 (all_submitted cs) d2 (snd (fold me_step cs (ds @ d1, m1)))" using Cons.IH by blast
  have "fold me_step (c # cs) (ds, me) = fold me_step cs (ds @ d1, m1)" using d1(1) by (simp add: m1_def)
  moreover have "me_trans me (all_submitted (c # cs)) (d1 @ d2) (snd (fold me_step cs (ds @ d1, m1)))"
    using me_trans_comp [OF d1(2) [folded m1_def] d2(2)] by (simp add: all_submitted_def)
  ultimately show ?case using d2(1) by auto
qed

lemma me_init_state [simp]: "me_wf me_init" "me_ids me_init = {#}" "me_reports me_init = {#}"
  by (simp_all add: me_wf_def me_init_def me_ids_def me_reports_def um_total_def)

subsection \<open>Properties\<close>

text \<open>
  No order fills through its limit, and reports come from orders. In any run
  of events, submissions, cancels and changes of the latency model, every report delivered is about
  an order id that was submitted, and unless it is a market order it filled at its own price, at a
  better one, or within the tolerance of \<open>1e-9\<close> the crossing test allows.
\<close>
theorem me_limit_respected:
  "list_all (\<lambda>r. fr_order_id r \<in># all_submitted cs \<and> fr_price_ok r) (fst (fold me_step cs ([], me_init)))"
proof -
  obtain ds where ds: "fst (fold me_step cs ([], me_init)) = [] @ ds"
    "me_trans me_init (all_submitted cs) ds (snd (fold me_step cs ([], me_init)))"
    using me_run_trans [OF me_init_state(1)] by blast
  then obtain new where "mset ds + me_reports (snd (fold me_step cs ([], me_init))) = mset new"
    "new_reports_ok (all_submitted cs) new" by (auto simp: me_trans_def)
  then have "set ds \<subseteq> set new" by (metis mset_subset_eq_add_left set_mset_mono set_mset_mset)
  then show ?thesis using ds(1) \<open>new_reports_ok (all_submitted cs) new\<close>
    by (auto simp: new_reports_ok_def list_all_iff)
qed

text \<open>
  C33: a cancelled order never fills. Take any run in which the order id \<open>i\<close> is
  submitted at most once, and a cancel of \<open>i\<close> that succeeds. Whatever follows, short of submitting
  \<open>i\<close> again, every report about \<open>i\<close> delivered or still scheduled afterwards is one that was already
  scheduled when the cancel was accepted, and each of those is delivered at most once.
\<close>
theorem me_cancel_is_final:
  assumes "(ds1, me1) = fold me_step cs1 ([], me_init)" "count (all_submitted cs1) i \<le> 1"
    and "cancel_order ex sy i me1 = (True, me2)"
    and "(ds2, me3) = fold me_step cs2 ([], me2)" "i \<notin># all_submitted cs2"
  shows "filter_mset (\<lambda>r. fr_order_id r = i) (mset ds2 + me_reports me3)
    = filter_mset (\<lambda>r. fr_order_id r = i) (me_reports me1)"
proof -
  have run1: "me_trans me_init (all_submitted cs1) ds1 me1"
    using me_run_trans [OF me_init_state(1), of cs1 "[]"] by (auto simp flip: assms(1))
  have wf1: "me_wf me1" and ids1: "me_ids me1 \<subseteq># all_submitted cs1" using run1 by (simp_all add: me_trans_def)
  have c: "me_wf me2" "me_reports me2 = me_reports me1" "me_ids me1 = me_ids me2 + {#i#}"
    using cancel_order_spec [OF wf1, of ex sy i] assms(3) by simp_all
  have "count (me_ids me1) i \<le> 1" using ids1 assms(2) mset_subset_eq_count [of "me_ids me1"] by (meson order_trans)
  then have gone: "i \<notin># me_ids me2" using c(3) by (simp add: not_in_iff)
  have "me_trans me2 (all_submitted cs2) ds2 me3"
    using me_run_trans [OF c(1), of cs2 "[]"] by (auto simp flip: assms(4))
  then obtain new where new: "mset ds2 + me_reports me3 = me_reports me2 + mset new"
    "new_reports_ok (me_ids me2 + all_submitted cs2) new" by (auto simp: me_trans_def)
  have "filter_mset (\<lambda>r. fr_order_id r = i) (mset new) = {#}"
    using new(2) gone assms(5) by (auto simp: new_reports_ok_def filter_empty_conv simp flip: mset_filter)
  then show ?thesis unfolding new(1) by (simp add: c(2))
qed

text \<open>
  Nothing waits past its time. After any market event on any state the engine
  can hold, every submission still waiting is due after the event, and so is every report still
  scheduled: an order whose latency has elapsed has been matched, a report whose latency has elapsed
  has been delivered.
\<close>
theorem me_due_released:
  assumes "(ds, me) = fold me_step cs ([], me_init)"
  shows "list_all (\<lambda>p. event_ts ev < ps_match_ts p) (me_pending_submits (snd (on_market_event ev me))) \<and>
    list_all (\<lambda>f. event_ts ev < pf_report_ts f) (me_pending_fills (snd (on_market_event ev me)))"
proof -
  have "me_trans me_init (all_submitted cs) ds me"
    using me_run_trans [OF me_init_state(1), of cs "[]"] by (auto simp flip: assms)
  then have "me_wf me" by (simp add: me_trans_def)
  then show ?thesis using on_market_event_trans(2,3) by blast
qed

text \<open>
  A post-only order takes no liquidity. Whatever the book has become when its
  latency has elapsed, matching it produces no report; it is left resting.
\<close>
theorem me_post_only_rests:
  assumes "oo_type order = BT_POST_ONLY"
  shows "fst (process_pending_submit order me) = [] \<and>
    (oo_filled_qty order < oo_quantity order - tiny \<longrightarrow>
       oo_order_id order \<in> oo_order_id ` set (me_resting (me_key (oo_exchange order) (oo_symbol order))
         (snd (process_pending_submit order me))))"
proof -
  have push: "oo_order_id o' \<in> oo_order_id ` set (me_resting (me_key (oo_exchange o') (oo_symbol o')) (me_push o' m))"
    for o' and m :: "'a matching_engine" by (simp add: me_push_def me_resting_def Let_def)
  show ?thesis
  proof (cases "map_of (me_books me) (me_key (oo_exchange order) (oo_symbol order))")
    case None
    then show ?thesis using assms push [of order] by (simp add: process_pending_submit_def)
  next
    case (Some b)
    obtain bk pq where "rest_order order b me = me_push (order\<lparr>oo_queue_seeded := True\<rparr>) (me_set_queues bk pq me)"
      by (simp add: rest_order_def Let_def)
    then show ?thesis using Some assms push [of "order\<lparr>oo_queue_seeded := True\<rparr>"]
      by (simp add: process_pending_submit_def)
  qed
qed

definition demo_order :: "string \<Rightarrow> bt_order_type \<Rightarrow> open_order" where
  "demo_order i t = \<lparr>oo_order_id = i, oo_client_order_id = [], oo_exchange = ''OKX'', oo_symbol = ''BTC'',
     oo_type = t, oo_side = BT_BUY, oo_price = Fin 100, oo_quantity = Fin 2, oo_filled_qty = 0,
     oo_submitted_ts = 0, oo_queue_seeded = False, oo_rejected = False\<rparr>"

definition demo_no_engine :: "unit matching_engine" where
  "demo_no_engine = me_init"

lemma me_cancel_is_final_witness:
  "filter_mset (\<lambda>r. fr_order_id r = ''a'') (mset [] + me_reports (snd (cancel_order ''OKX'' ''BTC'' ''a''
     (snd (fold me_step [Me_Submit (demo_order ''a'' BT_LIMIT)] ([], demo_no_engine)))))) = {#}"
proof -
  let ?me1 = "snd (fold me_step [Me_Submit (demo_order ''a'' BT_LIMIT)] ([], demo_no_engine))"
  have r1: "(fst (fold me_step [Me_Submit (demo_order ''a'' BT_LIMIT)] ([], demo_no_engine)), ?me1)
      = fold me_step [Me_Submit (demo_order ''a'' BT_LIMIT)] ([], me_init)" by (simp add: demo_no_engine_def)
  have one: "count (all_submitted [Me_Submit (demo_order ''a'' BT_LIMIT) :: unit me_call]) ''a'' \<le> 1"
    by (simp add: all_submitted_def demo_order_def)
  have ok: "fst (cancel_order ''OKX'' ''BTC'' ''a'' ?me1) \<and> me_pending_fills ?me1 = []" by code_simp
  then have c: "cancel_order ''OKX'' ''BTC'' ''a'' ?me1 = (True, snd (cancel_order ''OKX'' ''BTC'' ''a'' ?me1))"
    by (metis prod.collapse)
  have r2: "([], snd (cancel_order ''OKX'' ''BTC'' ''a'' ?me1)) = fold me_step [] ([], snd (cancel_order ''OKX'' ''BTC'' ''a'' ?me1))"
    by simp
  from me_cancel_is_final [OF r1 one c r2] show ?thesis using ok by (simp add: all_submitted_def me_reports_def)
qed

lemma me_due_released_witness:
  "list_all (\<lambda>p. event_ts (Ev_Trade \<lparr>tr_timestamp_ns = 9, tr_price = Fin 5, tr_quantity = Fin 1, tr_side = BT_SELL,
     tr_exchange = ''OKX'', tr_symbol = ''BTC''\<rparr>) < ps_match_ts p)
     (me_pending_submits (snd (on_market_event (Ev_Trade \<lparr>tr_timestamp_ns = 9, tr_price = Fin 5, tr_quantity = Fin 1,
       tr_side = BT_SELL, tr_exchange = ''OKX'', tr_symbol = ''BTC''\<rparr>) demo_no_engine)))"
  using me_due_released [of "[]" demo_no_engine "[]"] by (simp add: demo_no_engine_def)

lemma me_post_only_rests_witness:
  "fst (process_pending_submit (demo_order ''a'' BT_POST_ONLY) demo_no_engine) = []"
  using me_post_only_rests [of "demo_order ''a'' BT_POST_ONLY" demo_no_engine] by (simp add: demo_order_def)

end
