(* ===== verification/Startup_Gate.thy ===== *)
theory Startup_Gate
  imports Prelude Messages "HOL-Library.Sublist"
begin

text \<open>
  How a strategy process starts: \<open>StartupGate\<close> (\<open>bpt-strategy/src/app/startup_gate.cpp\<close>), the state
  machine between the refdata client, the order gateway and the strategy, and \<open>RefdataStaleGate\<close>
  (\<open>refdata_stale_gate.h\<close>), which watches the heartbeats of the refdata service. The calls the gate
  makes on the other components are the list \<open>sg_calls\<close>; log lines and metrics are left out.
\<close>

unbundle bit_operations_syntax

subsection \<open>Startup gate\<close>

datatype sg_phase = WaitRefdata | WaitAccountSnapshots | WaitMdSnapshot | Active

datatype sg_call = Call_Account_Request exchange_id u64 | Call_Subscribe u64 | Call_Start | Call_Stop

record startup_gate =
  sg_has_gateway :: bool
  sg_configured_mask :: u8
  sg_correlation_id :: u64
  sg_phase :: sg_phase
  sg_refdata_ready :: bool
  sg_accounts_ready_mask :: u8
  sg_account_requests_sent :: bool
  sg_md_subscribe_sent :: bool
  sg_calls :: "sg_call list"

definition sg_make :: "bool \<Rightarrow> u8 \<Rightarrow> u64 \<Rightarrow> startup_gate" where
  "sg_make has_gateway configured correlation_id =
     \<lparr> sg_has_gateway = has_gateway, sg_configured_mask = configured, sg_correlation_id = correlation_id,
       sg_phase = WaitRefdata, sg_refdata_ready = False, sg_accounts_ready_mask = 0,
       sg_account_requests_sent = False, sg_md_subscribe_sent = False, sg_calls = [] \<rparr>"

definition on_refdata_ready :: "u8 \<Rightarrow> startup_gate \<Rightarrow> startup_gate" where
  "on_refdata_ready exchanges_loaded g =
     (if sg_configured_mask g \<noteq> 0 \<and>
         exchanges_loaded AND sg_configured_mask g \<noteq> sg_configured_mask g
      then g\<lparr>sg_calls := sg_calls g @ [Call_Stop]\<rparr>
      else g\<lparr>sg_refdata_ready := True\<rparr>)"

fun account_bit :: "exchange_id \<Rightarrow> u8" where
  "account_bit EX_BINANCE = 1"
| "account_bit EX_OKX = 2"
| "account_bit EX_HYPERLIQUID = 4"
| "account_bit EX_DERIBIT = 8"
| "account_bit _ = 0"

definition on_account_snapshot :: "exchange_id \<Rightarrow> startup_gate \<Rightarrow> startup_gate" where
  "on_account_snapshot ex g = g\<lparr>sg_accounts_ready_mask := sg_accounts_ready_mask g OR account_bit ex\<rparr>"

definition on_refdata_snapshot_complete :: "startup_gate \<Rightarrow> startup_gate" where
  "on_refdata_snapshot_complete g =
     (if sg_phase g \<noteq> WaitMdSnapshot then g
      else g\<lparr>sg_calls := sg_calls g @ [Call_Start], sg_phase := Active\<rparr>)"

definition request_account :: "u8 \<Rightarrow> exchange_id \<Rightarrow> sg_call list \<times> u64 \<Rightarrow> sg_call list \<times> u64" where
  "request_account wanted ex = (\<lambda>(calls, corr).
     if wanted AND account_bit ex \<noteq> 0 then (calls @ [Call_Account_Request ex corr], corr + 1) else (calls, corr))"

definition account_exchanges :: "exchange_id list" where
  "account_exchanges = [EX_BINANCE, EX_OKX, EX_HYPERLIQUID, EX_DERIBIT]"

definition account_requests :: "u8 \<Rightarrow> u64 \<Rightarrow> sg_call list" where
  "account_requests wanted corr = fst (fold (request_account wanted) account_exchanges ([], corr))"

definition send_account_snapshot_requests :: "startup_gate \<Rightarrow> startup_gate" where
  "send_account_snapshot_requests g =
     (if \<not> sg_has_gateway g then g
      else g\<lparr>sg_calls := sg_calls g @ account_requests (sg_configured_mask g) (sg_correlation_id g)\<rparr>)"

definition accounts_ready :: "startup_gate \<Rightarrow> bool" where
  "accounts_ready g \<longleftrightarrow> \<not> sg_has_gateway g \<or>
     sg_accounts_ready_mask g AND sg_configured_mask g = sg_configured_mask g"

definition sg_tick :: "startup_gate \<Rightarrow> startup_gate" where
  "sg_tick g =
     (case sg_phase g of
        WaitRefdata \<Rightarrow>
          (if sg_refdata_ready g then
             (let g = (if sg_has_gateway g \<and> sg_configured_mask g \<noteq> 0 \<and> \<not> sg_account_requests_sent g
                       then (send_account_snapshot_requests g)\<lparr>sg_account_requests_sent := True\<rparr> else g)
              in g\<lparr>sg_phase := WaitAccountSnapshots\<rparr>)
           else g)
      | WaitAccountSnapshots \<Rightarrow>
          (if \<not> accounts_ready g then g
           else let g = (if \<not> sg_md_subscribe_sent g
                         then g\<lparr>sg_calls := sg_calls g @ [Call_Subscribe (sg_correlation_id g)],
                                sg_md_subscribe_sent := True\<rparr> else g)
                in g\<lparr>sg_phase := WaitMdSnapshot\<rparr>)
      | WaitMdSnapshot \<Rightarrow> g
      | Active \<Rightarrow> g)"

datatype sg_event =
    Refdata_Ready u8 | Account_Snapshot exchange_id | Refdata_Snapshot_Complete | Tick
  | Refresh_Account_Snapshots

fun sg_handle :: "sg_event \<Rightarrow> startup_gate \<Rightarrow> startup_gate" where
  "sg_handle (Refdata_Ready ld) g = on_refdata_ready ld g"
| "sg_handle (Account_Snapshot ex) g = on_account_snapshot ex g"
| "sg_handle Refdata_Snapshot_Complete g = on_refdata_snapshot_complete g"
| "sg_handle Tick g = sg_tick g"
| "sg_handle Refresh_Account_Snapshots g = send_account_snapshot_requests g"

text \<open>
  The states the gate can reach, with the events so far: the environment may call it in any order.
\<close>

inductive sg_reach :: "bool \<Rightarrow> u8 \<Rightarrow> u64 \<Rightarrow> sg_event list \<Rightarrow> startup_gate \<Rightarrow> bool"
  for gw cfg corr where
  sg_start: "sg_reach gw cfg corr [] (sg_make gw cfg corr)"
| sg_next: "sg_reach gw cfg corr es g \<Longrightarrow> sg_reach gw cfg corr (es @ [e]) (sg_handle e g)"

inductive_cases sg_reach_snocE: "sg_reach gw cfg corr (es @ [e]) g"

subsection \<open>Invariant\<close>

definition is_milestone :: "sg_call \<Rightarrow> bool" where
  "is_milestone c \<longleftrightarrow> (case c of Call_Subscribe _ \<Rightarrow> True | Call_Start \<Rightarrow> True | _ \<Rightarrow> False)"

definition milestones :: "startup_gate \<Rightarrow> sg_call list" where
  "milestones g = filter is_milestone (sg_calls g)"

definition loaded :: "u8 \<Rightarrow> sg_event list \<Rightarrow> bool" where
  "loaded cfg es \<longleftrightarrow> (\<exists>m \<in> set es. case m of Refdata_Ready ld \<Rightarrow> ld AND cfg = cfg | _ \<Rightarrow> False)"

definition accounts_seen :: "u8 \<Rightarrow> sg_event list \<Rightarrow> bool" where
  "accounts_seen cfg es \<longleftrightarrow>
     list_all (\<lambda>ex. cfg AND account_bit ex \<noteq> 0 \<longrightarrow> Account_Snapshot ex \<in> set es) account_exchanges"

fun milestones_of :: "u64 \<Rightarrow> sg_phase \<Rightarrow> sg_call list" where
  "milestones_of corr WaitRefdata = []"
| "milestones_of corr WaitAccountSnapshots = []"
| "milestones_of corr WaitMdSnapshot = [Call_Subscribe corr]"
| "milestones_of corr Active = [Call_Subscribe corr, Call_Start]"

definition sg_inv :: "bool \<Rightarrow> u8 \<Rightarrow> u64 \<Rightarrow> sg_event list \<Rightarrow> startup_gate \<Rightarrow> bool" where
  "sg_inv gw cfg corr es g \<longleftrightarrow>
     sg_has_gateway g = gw \<and> sg_configured_mask g = cfg \<and> sg_correlation_id g = corr \<and>
     milestones g = milestones_of corr (sg_phase g) \<and>
     (sg_md_subscribe_sent g \<longleftrightarrow> sg_phase g = WaitMdSnapshot \<or> sg_phase g = Active) \<and>
     (sg_refdata_ready g \<longrightarrow> loaded cfg es) \<and>
     (sg_phase g \<noteq> WaitRefdata \<longrightarrow> loaded cfg es) \<and>
     list_all (\<lambda>ex. sg_accounts_ready_mask g AND account_bit ex \<noteq> 0 \<longrightarrow> Account_Snapshot ex \<in> set es)
       account_exchanges \<and>
     (sg_md_subscribe_sent g \<and> gw \<longrightarrow> accounts_seen cfg es)"

lemma milestones_append [simp]:
  "filter is_milestone (account_requests wanted corr) = []"
  by (simp add: account_requests_def account_exchanges_def request_account_def is_milestone_def)

lemma loaded_mono [simp]: "loaded cfg es \<Longrightarrow> loaded cfg (es @ [e])"
  by (auto simp: loaded_def)

lemma accounts_seen_mono [simp]: "accounts_seen cfg es \<Longrightarrow> accounts_seen cfg (es @ [e])"
  by (simp add: accounts_seen_def account_exchanges_def)

lemma accounts_seen_if:
  assumes "list_all (\<lambda>ex. have AND account_bit ex \<noteq> 0 \<longrightarrow> Account_Snapshot ex \<in> set es) account_exchanges"
    and "have AND cfg = cfg"
  shows "accounts_seen cfg es"
proof -
  have "have AND b \<noteq> 0" if "cfg AND b \<noteq> 0" for b
  proof
    assume "have AND b = 0"
    then have "(have AND cfg) AND b = 0" by (metis and.assoc and.commute and_zero_eq)
    then show False using that assms(2) by simp
  qed
  then show ?thesis using assms(1) unfolding accounts_seen_def by (simp add: list_all_iff)
qed

lemma accounts_mask_step:
  assumes "list_all (\<lambda>ex. have AND account_bit ex \<noteq> 0 \<longrightarrow> Account_Snapshot ex \<in> set es) account_exchanges"
  shows "list_all (\<lambda>ex. (have OR account_bit x) AND account_bit ex \<noteq> 0 \<longrightarrow>
           Account_Snapshot ex \<in> set (es @ [Account_Snapshot x])) account_exchanges"
  using assms by (cases x) (simp_all add: account_exchanges_def bit.conj_disj_distrib2)

lemma sg_inv_make: "sg_inv gw cfg corr [] (sg_make gw cfg corr)"
  by (simp add: sg_inv_def sg_make_def milestones_def account_exchanges_def)

lemma sg_inv_step:
  assumes "sg_inv gw cfg corr es g"
  shows "sg_inv gw cfg corr (es @ [e]) (sg_handle e g)"
proof (cases e)
  case (Refdata_Ready ld)
  have "loaded cfg (es @ [e])" if "cfg = 0 \<or> ld AND cfg = cfg"
    using that Refdata_Ready by (auto simp: loaded_def)
  then show ?thesis
    using assms Refdata_Ready
    by (auto simp: sg_inv_def on_refdata_ready_def milestones_def is_milestone_def list_all_iff)
next
  case (Account_Snapshot x)
  then show ?thesis
    using assms accounts_mask_step [of "sg_accounts_ready_mask g" es x]
    by (auto simp: sg_inv_def on_account_snapshot_def milestones_def)
next
  case Refdata_Snapshot_Complete
  then show ?thesis
    using assms
    by (auto simp: sg_inv_def on_refdata_snapshot_complete_def milestones_def is_milestone_def list_all_iff)
next
  case Refresh_Account_Snapshots
  then show ?thesis
    using assms
    by (auto simp: sg_inv_def send_account_snapshot_requests_def milestones_def list_all_iff)
next
  case Tick
  show ?thesis
  proof (cases "sg_phase g")
    case WaitRefdata
    then show ?thesis
      using assms Tick
      by (auto simp: sg_inv_def sg_tick_def send_account_snapshot_requests_def milestones_def list_all_iff Let_def)
  next
    case WaitAccountSnapshots
    have "accounts_seen cfg es" if "accounts_ready g" gw
      using that assms accounts_seen_if [of "sg_accounts_ready_mask g" es cfg]
      by (simp add: sg_inv_def accounts_ready_def)
    then show ?thesis
      using assms Tick WaitAccountSnapshots
      by (auto simp: sg_inv_def sg_tick_def milestones_def is_milestone_def list_all_iff Let_def)
  qed (use assms Tick in \<open>auto simp: sg_inv_def sg_tick_def milestones_def list_all_iff\<close>)
qed

lemma sg_reach_inv: "sg_reach gw cfg corr es g \<Longrightarrow> sg_inv gw cfg corr es g"
  by (induction rule: sg_reach.induct) (auto intro: sg_inv_make sg_inv_step)

text \<open>
  C20: a strategy starts once, and not before everything it needs. In every state the gate
  can reach, the subscriptions to refdata and the starts it has made, in order, are a prefix of one
  subscription with its correlation id followed by one start. If there was a start, the refdata
  service has reported all configured exchanges loaded and, when there is an order gateway, each
  configured exchange has sent an account snapshot.
\<close>

theorem startup_order:
  assumes "sg_reach gw cfg corr es g"
  shows "prefix (filter is_milestone (sg_calls g)) [Call_Subscribe corr, Call_Start] \<and>
         (Call_Start \<in> set (sg_calls g) \<longleftrightarrow> sg_phase g = Active) \<and>
         (sg_phase g = Active \<longrightarrow> loaded cfg es \<and> (gw \<longrightarrow> accounts_seen cfg es))"
proof -
  have inv: "sg_inv gw cfg corr es g" using assms by (rule sg_reach_inv)
  have "is_milestone Call_Start" by (simp add: is_milestone_def)
  then have start: "Call_Start \<in> set (sg_calls g) \<longleftrightarrow> Call_Start \<in> set (milestones g)"
    unfolding milestones_def by simp
  show ?thesis
    unfolding start unfolding milestones_def [symmetric]
    using inv by (cases "sg_phase g") (simp_all add: sg_inv_def)
qed

definition okx_start :: "sg_event list" where
  "okx_start = [Account_Snapshot EX_OKX, Refdata_Ready 3, Tick, Tick, Refdata_Snapshot_Complete]"

lemma sg_reach_run:
  "sg_reach gw cfg corr es g \<Longrightarrow> sg_reach gw cfg corr (es @ fs) (fold sg_handle fs g)"
proof (induction fs arbitrary: es g)
  case (Cons f fs)
  then show ?case using Cons.IH [of "es @ [f]" "sg_handle f g"] sg_next [of gw cfg corr es g f] by simp
qed simp

theorem startup_order_witness:
  "Call_Start \<in> set (sg_calls (fold sg_handle okx_start (sg_make True 2 99))) \<and>
   accounts_seen 2 okx_start \<and> loaded 2 okx_start"
proof -
  have "sg_reach True 2 99 okx_start (fold sg_handle okx_start (sg_make True 2 99))"
    using sg_reach_run [OF sg_start, of True 2 99 okx_start] by simp
  note this [THEN startup_order]
  moreover have "sg_phase (fold sg_handle okx_start (sg_make True 2 99)) = Active" by code_simp
  ultimately show ?thesis by simp
qed

text \<open>
  The gate also remembers what it was told.
\<close>

lemma ready_step:
  "sg_refdata_ready (sg_handle e g) \<longleftrightarrow> sg_refdata_ready g \<or>
     (case e of Refdata_Ready ld \<Rightarrow> ld AND sg_configured_mask g = sg_configured_mask g | _ \<Rightarrow> False)"
  by (cases e; cases "sg_phase g")
    (simp_all add: on_refdata_ready_def on_account_snapshot_def on_refdata_snapshot_complete_def
        send_account_snapshot_requests_def sg_tick_def Let_def)

lemma accounts_step:
  "sg_accounts_ready_mask (sg_handle e g) = sg_accounts_ready_mask g OR
     (case e of Account_Snapshot ex \<Rightarrow> account_bit ex | _ \<Rightarrow> 0)"
  by (cases e; cases "sg_phase g")
    (simp_all add: on_refdata_ready_def on_account_snapshot_def on_refdata_snapshot_complete_def
        send_account_snapshot_requests_def sg_tick_def Let_def)

lemma subset_or: "x AND m = x \<Longrightarrow> x AND (m OR y) = x" for x m y :: u8
  by (simp add: bit_eq_iff bit_simps) blast

lemma subset_self: "x AND (m OR x) = x" for x m :: u8
  by (simp add: bit_eq_iff bit_simps)

lemma sg_reach_remembers:
  assumes "sg_reach gw cfg corr es g"
  shows "(loaded cfg es \<longrightarrow> sg_refdata_ready g) \<and>
         (\<forall>ex. Account_Snapshot ex \<in> set es \<longrightarrow> account_bit ex AND sg_accounts_ready_mask g = account_bit ex)"
  using assms
proof (induction rule: sg_reach.induct)
  case sg_start
  then show ?case by (simp add: loaded_def)
next
  case (sg_next es g e)
  have cfg: "sg_configured_mask g = cfg" using sg_reach_inv [OF sg_next.hyps] by (simp add: sg_inv_def)
  have "loaded cfg (es @ [e]) \<longrightarrow> sg_refdata_ready (sg_handle e g)"
    using sg_next.IH unfolding ready_step cfg by (auto simp: loaded_def)
  moreover have "account_bit ex AND sg_accounts_ready_mask (sg_handle e g) = account_bit ex"
    if "Account_Snapshot ex \<in> set (es @ [e])" for ex
    using that sg_next.IH unfolding accounts_step by (auto simp: subset_self intro: subset_or)
  ultimately show ?case by blast
qed

lemma four_exchanges:
  assumes "cfg < 16" "list_all (\<lambda>ex. cfg AND account_bit ex \<noteq> 0 \<longrightarrow> account_bit ex AND m = account_bit ex) account_exchanges"
  shows "m AND cfg = cfg"
proof (rule bit_word_eqI)
  fix n assume "n < LENGTH(8)"
  have low: "n < 4" if "bit cfg n"
  proof (rule ccontr)
    assume "\<not> n < 4"
    moreover have "take_bit 4 cfg = cfg"
      by (rule word_uint_eqI) (use assms(1) in \<open>simp add: unsigned_take_bit_eq take_bit_int_eq_self word_less_def\<close>)
    ultimately show False using that by (metis bit_take_bit_iff)
  qed
  have "bit m n" if "bit cfg n"
  proof -
    have "bit m n" if ex: "account_bit ex = 2 ^ n" "ex \<in> set account_exchanges" for ex
    proof -
      have "bit (cfg AND account_bit ex) n" using \<open>bit cfg n\<close> low ex by (simp add: bit_simps)
      then have "cfg AND account_bit ex \<noteq> 0" by force
      then have "account_bit ex AND m = account_bit ex" using assms(2) ex(2) by (simp add: list_all_iff)
      moreover have "bit (account_bit ex) n" using low [OF \<open>bit cfg n\<close>] ex by (simp add: bit_simps)
      ultimately show ?thesis by (metis bit_and_iff)
    qed
    moreover have "\<exists>ex \<in> set account_exchanges. account_bit ex = 2 ^ n"
      using low [OF that] by (auto simp: account_exchanges_def less_Suc_eq numeral_eq_Suc)
    ultimately show ?thesis by blast
  qed
  then show "bit (m AND cfg) n = bit cfg n" by (auto simp: bit_simps)
qed

text \<open>
  The gate does not get stuck. Whatever has happened before and in whatever order,
  if the four exchanges bound the configured mask, the refdata service has reported the configured ones
  loaded and each of them has sent its account snapshot, then two ticks and the end of the refdata snapshot
  make the strategy active.
\<close>

theorem startup_completes:
  assumes "sg_reach gw cfg corr es g" "cfg < 16" "loaded cfg es" "accounts_seen cfg es"
  shows "sg_phase (fold sg_handle [Tick, Tick, Refdata_Snapshot_Complete] g) = Active"
proof -
  note mem = sg_reach_remembers [OF assms(1)]
  have ready: "sg_refdata_ready g" using mem assms(3) by simp
  have "sg_configured_mask g = cfg" using sg_reach_inv [OF assms(1)] by (simp add: sg_inv_def)
  then have "accounts_ready g"
    using mem assms(4) four_exchanges [OF assms(2), of "sg_accounts_ready_mask g"]
    by (simp add: accounts_ready_def accounts_seen_def list_all_iff)
  then show ?thesis
    using ready
    by (cases "sg_phase g")
      (simp_all add: sg_tick_def accounts_ready_def on_refdata_snapshot_complete_def
        send_account_snapshot_requests_def Let_def)
qed

theorem startup_completes_witness:
  "sg_phase (fold sg_handle [Tick, Tick, Refdata_Snapshot_Complete]
     (fold sg_handle [Account_Snapshot EX_OKX, Refdata_Ready 11, Account_Snapshot EX_DERIBIT] (sg_make True 10 99))) = Active"
  using startup_completes [OF sg_reach_run [OF sg_start, of True 10 99
      "[Account_Snapshot EX_OKX, Refdata_Ready 11, Account_Snapshot EX_DERIBIT]"]]
  by (simp add: loaded_def accounts_seen_def account_exchanges_def)

subsection \<open>Stale refdata\<close>

datatype stale_state = Stale_Ok | StartupTimedOut | GoneStale | Recovered

record stale_gate =
  st_startup_timeout_ns :: u64
  st_stale_threshold_ns :: u64
  st_started_at_ns :: u64
  st_was_stale :: bool

definition stale_default :: stale_gate where
  "stale_default = \<lparr> st_startup_timeout_ns = 60000000000, st_stale_threshold_ns = 25000000000,
     st_started_at_ns = 0, st_was_stale = False \<rparr>"

definition set_started_at :: "u64 \<Rightarrow> stale_gate \<Rightarrow> stale_gate" where
  "set_started_at now g = g\<lparr>st_started_at_ns := now\<rparr>"

definition stale_evaluate :: "u64 \<Rightarrow> u64 \<Rightarrow> stale_gate \<Rightarrow> stale_state \<times> stale_gate" where
  "stale_evaluate now hb g =
     (if hb = 0 then
        (if st_started_at_ns g \<noteq> 0 \<and> st_startup_timeout_ns g < now - st_started_at_ns g
         then (StartupTimedOut, g) else (Stale_Ok, g))
      else if now < hb then
        (if st_was_stale g then (Recovered, g\<lparr>st_was_stale := False\<rparr>) else (Stale_Ok, g))
      else
        (let currently_stale = st_stale_threshold_ns g < now - hb in
         if currently_stale \<and> \<not> st_was_stale g then (GoneStale, g\<lparr>st_was_stale := True\<rparr>)
         else if \<not> currently_stale \<and> st_was_stale g then (Recovered, g\<lparr>st_was_stale := False\<rparr>)
         else (if currently_stale then GoneStale else Stale_Ok, g)))"

definition stale_run :: "(u64 \<times> u64) list \<Rightarrow> stale_gate \<Rightarrow> stale_gate" where
  "stale_run obs g = fold (\<lambda>(now, hb) g. snd (stale_evaluate now hb g)) obs g"

text \<open>
  The age of a heartbeat as the gate means it: a heartbeat in the future has age 0.
\<close>

definition heartbeat_age :: "u64 \<Rightarrow> u64 \<Rightarrow> nat" where
  "heartbeat_age now hb = unat now - unat hb"

lemma stale_evaluate_flag:
  "hb \<noteq> 0 \<Longrightarrow> st_was_stale (snd (stale_evaluate now hb g)) \<longleftrightarrow>
     unat (st_stale_threshold_ns g) < heartbeat_age now hb"
  by (auto simp: stale_evaluate_def heartbeat_age_def Let_def word_less_nat_alt unat_sub word_le_nat_alt not_less)

lemma stale_evaluate_threshold [simp]:
  "st_stale_threshold_ns (snd (stale_evaluate now hb g)) = st_stale_threshold_ns g"
  by (simp add: stale_evaluate_def Let_def)

lemma stale_run_threshold [simp]: "st_stale_threshold_ns (stale_run obs g) = st_stale_threshold_ns g"
  unfolding stale_run_def by (induction obs arbitrary: g) (auto split: prod.splits)

text \<open>
  The stale gate tells the age of the last heartbeat. After any sequence of
  evaluations, the next one with a heartbeat reports staleness exactly when the heartbeat is older than
  the threshold, in natural numbers, so no subtraction wraps and a heartbeat from a clock that runs ahead
  is fresh; and it reports a recovery exactly when the gate was stale and the heartbeat is not.
\<close>

theorem stale_gate_correct:
  assumes "hb \<noteq> 0"
  shows "(fst (stale_evaluate now hb (stale_run obs g)) = GoneStale \<longleftrightarrow>
            unat (st_stale_threshold_ns g) < heartbeat_age now hb) \<and>
         (fst (stale_evaluate now hb (stale_run obs g)) = Recovered \<longleftrightarrow>
            st_was_stale (stale_run obs g) \<and> heartbeat_age now hb \<le> unat (st_stale_threshold_ns g)) \<and>
         (st_was_stale (snd (stale_evaluate now hb (stale_run obs g))) \<longleftrightarrow>
            unat (st_stale_threshold_ns g) < heartbeat_age now hb)"
  using assms stale_evaluate_flag [OF assms, of now "stale_run obs g"]
  by (auto simp: stale_evaluate_def heartbeat_age_def Let_def word_less_nat_alt unat_sub word_le_nat_alt not_less)

theorem stale_gate_correct_witness:
  "fst (stale_evaluate 26000000001 1000000000 (stale_run [] stale_default)) = GoneStale"
  using stale_gate_correct [of 1000000000 26000000001 "[]" stale_default]
  by (simp add: heartbeat_age_def stale_default_def)

end
