(* ===== verification/Refdata_Wire.thy ===== *)
theory Refdata_Wire
  imports Prelude Messages Binary64
begin

text \<open>
  The reference-data messages. \<open>reg_instrument\<close> is the instrument of the reference-data
  service (\<open>model/instrument.h\<close>), \<open>wire_instrument\<close> the instrument block of \<open>RefDataSnapshot\<close>
  and \<open>RefDataDelta\<close> with its fixed-size character arrays, \<open>instrument\<close> the strategy's record
  (\<open>strategy/refdata/instrument.h\<close>). \<open>to_wire\<close> is what both publishers write into a block
  (\<open>sbe_utils.h\<close>, \<open>refdata_delta_publisher.cpp\<close>, \<open>refdata_snapshot_publisher.cpp\<close>),
  \<open>from_wire\<close> what the strategy's cache reads from it (\<open>instrument_cache.cpp\<close>). The theorem
  says which instruments survive the wire unchanged.
\<close>

subsection \<open>Enumerations\<close>

datatype wire_inst_type = WT_SPOT | WT_FUTURE | WT_PERPETUAL | WT_OPTION | WT_NULL

datatype wire_inst_status = WS_ACTIVE | WS_INACTIVE | WS_HALTED | WS_PRE_DELIVERY | WS_NULL

datatype wire_option_side = WO_CALL | WO_PUT | WO_NA | WO_NULL

datatype update_type = DU_ADD | DU_MODIFY | DU_REMOVE | DU_NULL

datatype reg_inst_type = RT_SPOT | RT_PERP | RT_FUTURE | RT_OPTION | RT_UNKNOWN

datatype reg_inst_status = RS_ACTIVE | RS_DELISTED | RS_HALTED | RS_UNKNOWN

datatype inst_type = SPOT | FUTURE | PERPETUAL | OPTION

datatype inst_status = ACTIVE | INACTIVE | HALTED

datatype option_side = NA | CALL | PUT

fun to_sbe_type :: "reg_inst_type \<Rightarrow> wire_inst_type" where
  "to_sbe_type RT_SPOT = WT_SPOT"
| "to_sbe_type RT_FUTURE = WT_FUTURE"
| "to_sbe_type RT_PERP = WT_PERPETUAL"
| "to_sbe_type RT_OPTION = WT_OPTION"
| "to_sbe_type _ = WT_NULL"

fun to_sbe_status :: "reg_inst_status \<Rightarrow> wire_inst_status" where
  "to_sbe_status RS_ACTIVE = WS_ACTIVE"
| "to_sbe_status RS_HALTED = WS_HALTED"
| "to_sbe_status RS_DELISTED = WS_INACTIVE"
| "to_sbe_status _ = WS_NULL"

fun from_sbe_type :: "wire_inst_type \<Rightarrow> inst_type" where
  "from_sbe_type WT_SPOT = SPOT"
| "from_sbe_type WT_FUTURE = FUTURE"
| "from_sbe_type WT_PERPETUAL = PERPETUAL"
| "from_sbe_type WT_OPTION = OPTION"
| "from_sbe_type _ = SPOT"

fun from_sbe_status :: "wire_inst_status \<Rightarrow> inst_status" where
  "from_sbe_status WS_ACTIVE = ACTIVE"
| "from_sbe_status WS_INACTIVE = INACTIVE"
| "from_sbe_status WS_HALTED = HALTED"
| "from_sbe_status _ = ACTIVE"

fun from_sbe_option_side :: "wire_option_side \<Rightarrow> option_side" where
  "from_sbe_option_side WO_CALL = CALL"
| "from_sbe_option_side WO_PUT = PUT"
| "from_sbe_option_side _ = NA"

subsection \<open>Fixed-size character arrays\<close>

definition nul :: char where "nul = CHR 0x00"

definition put_str :: "nat \<Rightarrow> string \<Rightarrow> string" where
  "put_str n src = (let len = min (length src) n in take len src @ replicate (n - len) nul)"

text \<open>The generated \<open>getSymbolAsString\<close> and its siblings.\<close>

definition get_str :: "nat \<Rightarrow> string \<Rightarrow> string" where
  "get_str n buf = takeWhile (\<lambda>c. c \<noteq> nul) (take n buf)"

lemma length_put_str [simp]: "length (put_str n s) = n"
  by (simp add: put_str_def Let_def)

lemma get_put_str: "nul \<notin> set s \<Longrightarrow> get_str n (put_str n s) = take n s"
proof -
  assume s: "nul \<notin> set s"
  have tw: "takeWhile (\<lambda>c. c \<noteq> nul) (take n s @ replicate k nul) = take n s" for k
    using s by (subst takeWhile_append2) (auto dest: in_set_takeD simp: takeWhile_replicate)
  have t: "take (min (length s) n) s = take n s" by (simp add: min_def)
  have "put_str n s = take n s @ replicate (n - min (length s) n) nul"
    by (simp add: put_str_def Let_def t)
  moreover have "take n (put_str n s) = put_str n s" by simp
  ultimately show ?thesis using tw by (simp add: get_str_def)
qed

lemma get_put_short: "nul \<notin> set s \<Longrightarrow> length s \<le> n \<Longrightarrow> get_str n (put_str n s) = s"
  by (simp add: get_put_str)

subsection \<open>Calendar dates\<close>

text \<open>
  \<open>gmtime_r\<close> on a non-negative time: the proleptic Gregorian date of the day, by eras of 400
  years that begin on the first of March.
\<close>

definition civil_of_days :: "nat \<Rightarrow> nat \<times> nat \<times> nat" where
  "civil_of_days days =
     (let z = days + 719468; era = z div 146097; doe = z mod 146097;
          yoe = (doe - doe div 1460 + doe div 36524 - doe div 146096) div 365;
          y = yoe + era * 400;
          doy = doe - (365 * yoe + yoe div 4 - yoe div 100);
          mp = (5 * doy + 2) div 153;
          d = doy - (153 * mp + 2) div 5 + 1;
          m = (if mp < 10 then mp + 3 else mp - 9)
      in (if m \<le> 2 then y + 1 else y, m, d))"

definition ns_to_yyyymmdd :: "u64 \<Rightarrow> u32" where
  "ns_to_yyyymmdd ns =
     (let (y, m, d) = civil_of_days (unat (ns div 1000000000) div 86400)
      in of_nat (y * 10000 + m * 100 + d))"

subsection \<open>Instruments\<close>

record reg_instrument =
  inst_uid :: u64
  venue :: string
  venue_symbol :: string
  display_name :: string
  ri_type :: reg_inst_type
  base :: string
  quote :: string
  ri_tick :: double
  ri_lot :: double
  contract_multiplier :: double
  ri_status :: reg_inst_status
  version :: u64
  expiry_timestamp :: "u64 option"
  ri_strike :: "double option"

record wire_instrument =
  wi_id :: u64
  wi_symbol :: string
  wi_exchange :: string
  wi_base :: string
  wi_quote :: string
  wi_type :: wire_inst_type
  wi_status :: wire_inst_status
  wi_lot :: double
  wi_tick :: double
  wi_contract :: double
  wi_expiry :: u32
  wi_option_side :: wire_option_side
  wi_strike :: double
  wi_underlying :: string

record instrument =
  instrument_id :: u64
  symbol :: string
  exchange :: string
  base_currency :: string
  quote_currency :: string
  i_type :: inst_type
  i_status :: inst_status
  lot_size :: double
  tick_size :: double
  contract_size :: double
  expiry_date :: u32
  i_option_side :: option_side
  strike_price :: double

definition to_wire :: "reg_instrument \<Rightarrow> wire_instrument" where
  "to_wire r =
     \<lparr> wi_id = inst_uid r,
       wi_symbol = put_str 24 (venue_symbol r),
       wi_exchange = put_str 8 (venue r),
       wi_base = put_str 8 (base r),
       wi_quote = put_str 8 (quote r),
       wi_type = to_sbe_type (ri_type r),
       wi_status = to_sbe_status (ri_status r),
       wi_lot = ri_lot r,
       wi_tick = ri_tick r,
       wi_contract = contract_multiplier r,
       wi_expiry = (case expiry_timestamp r of Some ts \<Rightarrow> ns_to_yyyymmdd ts | None \<Rightarrow> 0),
       wi_option_side = WO_NA,
       wi_strike = (case ri_strike r of Some k \<Rightarrow> k | None \<Rightarrow> 0),
       wi_underlying = put_str 24 (base r) \<rparr>"

definition canonicalize_exchange :: "string \<Rightarrow> string" where
  "canonicalize_exchange truncated =
     (if truncated = ''HYPERLIQ'' then ''HYPERLIQUID'' else truncated)"

definition from_wire :: "wire_instrument \<Rightarrow> instrument" where
  "from_wire g =
     \<lparr> instrument_id = wi_id g,
       symbol = get_str 24 (wi_symbol g),
       exchange = canonicalize_exchange (get_str 8 (wi_exchange g)),
       base_currency = get_str 8 (wi_base g),
       quote_currency = get_str 8 (wi_quote g),
       i_type = from_sbe_type (wi_type g),
       i_status = from_sbe_status (wi_status g),
       lot_size = wi_lot g,
       tick_size = wi_tick g,
       contract_size = wi_contract g,
       expiry_date = wi_expiry g,
       i_option_side = from_sbe_option_side (wi_option_side g),
       strike_price = wi_strike g \<rparr>"

lemma from_to_wire_id [simp]: "instrument_id (from_wire (to_wire r)) = inst_uid r"
  by (simp add: from_wire_def to_wire_def)

lemma wi_id_to_wire [simp]: "wi_id (to_wire r) = inst_uid r"
  by (simp add: to_wire_def)

subsection \<open>Round trip\<close>

text \<open>What the strategy should see of an instrument of a known type and status.\<close>

fun type_view :: "reg_inst_type \<Rightarrow> inst_type option" where
  "type_view RT_SPOT = Some SPOT"
| "type_view RT_PERP = Some PERPETUAL"
| "type_view RT_FUTURE = Some FUTURE"
| "type_view RT_OPTION = Some OPTION"
| "type_view RT_UNKNOWN = None"

fun status_view :: "reg_inst_status \<Rightarrow> inst_status option" where
  "status_view RS_ACTIVE = Some ACTIVE"
| "status_view RS_DELISTED = Some INACTIVE"
| "status_view RS_HALTED = Some HALTED"
| "status_view RS_UNKNOWN = None"

definition fits_wire :: "reg_instrument \<Rightarrow> bool" where
  "fits_wire r \<longleftrightarrow>
     list_all (\<lambda>s. nul \<notin> set s) [venue_symbol r, base r, quote r] \<and>
     length (venue_symbol r) \<le> 24 \<and> length (base r) \<le> 8 \<and> length (quote r) \<le> 8 \<and>
     venue r \<in> {''BINANCE'', ''OKX'', ''HYPERLIQUID'', ''DERIBIT''} \<and>
     type_view (ri_type r) \<noteq> None \<and> status_view (ri_status r) \<noteq> None"

lemma venue_round_trips:
  "canonicalize_exchange (get_str 8 (put_str 8 ''BINANCE'')) = ''BINANCE''"
  "canonicalize_exchange (get_str 8 (put_str 8 ''OKX'')) = ''OKX''"
  "canonicalize_exchange (get_str 8 (put_str 8 ''HYPERLIQUID'')) = ''HYPERLIQUID''"
  "canonicalize_exchange (get_str 8 (put_str 8 ''DERIBIT'')) = ''DERIBIT''"
  by code_simp+

lemma venue_round_trip:
  "v \<in> {''BINANCE'', ''OKX'', ''HYPERLIQUID'', ''DERIBIT''} \<Longrightarrow>
   canonicalize_exchange (get_str 8 (put_str 8 v)) = v"
  by (elim insertE emptyE) (simp_all only: venue_round_trips)

lemma type_round_trip: "type_view t = Some t' \<Longrightarrow> from_sbe_type (to_sbe_type t) = t'"
  by (cases t) auto

lemma status_round_trip: "status_view t = Some t' \<Longrightarrow> from_sbe_status (to_sbe_status t) = t'"
  by (cases t) auto

text \<open>
  An instrument survives the wire. For an instrument of a configured venue,
  of a known type and status, whose names hold no NUL and fit their fields, the strategy reads
  back the identifier, the symbol, the full venue name (although \<open>HYPERLIQUID\<close> does not fit the
  eight characters of its field), the currencies, the type, the status and the sizes that the
  reference-data service has. The option side is the one field that never arrives.
\<close>

theorem wire_round_trip:
  assumes "fits_wire r"
  shows "instrument_id (from_wire (to_wire r)) = inst_uid r \<and>
         symbol (from_wire (to_wire r)) = venue_symbol r \<and>
         exchange (from_wire (to_wire r)) = venue r \<and>
         base_currency (from_wire (to_wire r)) = base r \<and>
         quote_currency (from_wire (to_wire r)) = quote r \<and>
         Some (i_type (from_wire (to_wire r))) = type_view (ri_type r) \<and>
         Some (i_status (from_wire (to_wire r))) = status_view (ri_status r) \<and>
         lot_size (from_wire (to_wire r)) = ri_lot r \<and>
         tick_size (from_wire (to_wire r)) = ri_tick r \<and>
         contract_size (from_wire (to_wire r)) = contract_multiplier r \<and>
         i_option_side (from_wire (to_wire r)) = NA"
proof -
  have str: "get_str 24 (put_str 24 (venue_symbol r)) = venue_symbol r"
    "get_str 8 (put_str 8 (base r)) = base r" "get_str 8 (put_str 8 (quote r)) = quote r"
    using assms by (simp_all add: fits_wire_def get_put_short)
  have ven: "canonicalize_exchange (get_str 8 (put_str 8 (venue r))) = venue r"
    using assms unfolding fits_wire_def by (blast intro: venue_round_trip)
  have "Some (from_sbe_type (to_sbe_type (ri_type r))) = type_view (ri_type r)"
    and "Some (from_sbe_status (to_sbe_status (ri_status r))) = status_view (ri_status r)"
    using assms type_round_trip [of "ri_type r"] status_round_trip [of "ri_status r"]
    by (auto simp: fits_wire_def)
  then show ?thesis using str ven by (simp add: from_wire_def to_wire_def)
qed

definition btc_perp :: reg_instrument where
  "btc_perp =
     \<lparr> inst_uid = 7, venue = ''HYPERLIQUID'', venue_symbol = ''BTC'', display_name = ''BTC-PERP'',
       ri_type = RT_PERP, base = ''BTC'', quote = ''USD'', ri_tick = Fin 1, ri_lot = Fin (1 / 1024),
       contract_multiplier = Fin 1, ri_status = RS_ACTIVE, version = 1,
       expiry_timestamp = None, ri_strike = None \<rparr>"

theorem wire_round_trip_witness:
  "symbol (from_wire (to_wire btc_perp)) = ''BTC'' \<and>
   exchange (from_wire (to_wire btc_perp)) = ''HYPERLIQUID'' \<and>
   i_type (from_wire (to_wire btc_perp)) = PERPETUAL"
proof -
  have fits: "fits_wire btc_perp" by (simp add: fits_wire_def btc_perp_def nul_def)
  have "venue_symbol btc_perp = ''BTC''" "venue btc_perp = ''HYPERLIQUID''"
    "ri_type btc_perp = RT_PERP"
    by (simp_all add: btc_perp_def)
  then show ?thesis using wire_round_trip [OF fits] by simp
qed

text \<open>An instrument of unknown status is tradable for the strategy.\<close>

lemma unknown_status_becomes_active:
  "ri_status r = RS_UNKNOWN \<Longrightarrow> i_status (from_wire (to_wire r)) = ACTIVE"
  by (simp add: from_wire_def to_wire_def)

end
