(* ===== verification/Instrument_Registry.thy ===== *)
theory Instrument_Registry
  imports Refdata_Wire
begin

text \<open>
  The reference-data service: the instrument registry (\<open>registry/instrument_registry.cpp\<close>),
  the listing refresh of the venue adapters, the delta and snapshot publishers and the handlers
  of \<open>RefdataService\<close> (\<open>app/refdata_service.cpp\<close>). The registry calls of the service loop are on
  one thread; the lock of the registry is only contended while the adapters load.
\<close>

subsection \<open>Registry\<close>

record registry =
  by_uid :: "(u64, reg_instrument) umap"
  by_symbol :: "(string, u64) umap"

definition reg_empty :: registry where
  "reg_empty = \<lparr> by_uid = [], by_symbol = [] \<rparr>"

fun type_char :: "reg_inst_type \<Rightarrow> string" where
  "type_char RT_SPOT = ''0''"
| "type_char RT_PERP = ''1''"
| "type_char RT_FUTURE = ''2''"
| "type_char RT_OPTION = ''3''"
| "type_char RT_UNKNOWN = ''4''"

definition index_key :: "string \<Rightarrow> string \<Rightarrow> reg_inst_type \<Rightarrow> string" where
  "index_key v s t = v @ '':'' @ s @ '':'' @ type_char t"

abbreviation key_of :: "reg_instrument \<Rightarrow> string" where
  "key_of i \<equiv> index_key (venue i) (venue_symbol i) (ri_type i)"

definition reg_add :: "reg_instrument \<Rightarrow> registry \<Rightarrow> registry" where
  "reg_add i r =
     \<lparr> by_uid = AList.update (inst_uid i) i (by_uid r),
       by_symbol = AList.update (key_of i) (inst_uid i) (by_symbol r) \<rparr>"

definition reg_update :: "reg_instrument \<Rightarrow> registry \<Rightarrow> registry" where
  "reg_update i r = reg_add i r"

definition reg_remove :: "u64 \<Rightarrow> registry \<Rightarrow> registry" where
  "reg_remove uid r =
     (case map_of (by_uid r) uid of
        Some i \<Rightarrow> \<lparr> by_uid = AList.delete uid (by_uid r),
                    by_symbol = AList.delete (key_of i) (by_symbol r) \<rparr>
      | None \<Rightarrow> r)"

definition reg_get :: "u64 \<Rightarrow> registry \<Rightarrow> reg_instrument option" where
  "reg_get uid r = map_of (by_uid r) uid"

definition reg_get_symbol :: "string \<Rightarrow> string \<Rightarrow> registry \<Rightarrow> reg_instrument option" where
  "reg_get_symbol v s r =
     find (\<lambda>i. venue i = v \<and> venue_symbol i = s) (map snd (by_uid r))"

definition reg_get_typed ::
  "string \<Rightarrow> string \<Rightarrow> reg_inst_type \<Rightarrow> registry \<Rightarrow> reg_instrument option" where
  "reg_get_typed v s t r =
     (case map_of (by_symbol r) (index_key v s t) of
        Some uid \<Rightarrow> map_of (by_uid r) uid
      | None \<Rightarrow> None)"

fun opt_d_eq :: "double option \<Rightarrow> double option \<Rightarrow> bool" where
  "opt_d_eq None None = True"
| "opt_d_eq (Some x) (Some y) = d_eq x y"
| "opt_d_eq _ _ = False"

definition same_content :: "reg_instrument \<Rightarrow> reg_instrument \<Rightarrow> bool" where
  "same_content e i \<longleftrightarrow>
     d_eq (ri_tick e) (ri_tick i) \<and> d_eq (ri_lot e) (ri_lot i) \<and>
     d_eq (contract_multiplier e) (contract_multiplier i) \<and> ri_status e = ri_status i \<and>
     expiry_timestamp e = expiry_timestamp i \<and> opt_d_eq (ri_strike e) (ri_strike i)"

definition reg_update_if_changed :: "reg_instrument \<Rightarrow> registry \<Rightarrow> bool \<times> registry" where
  "reg_update_if_changed i r =
     (case map_of (by_uid r) (inst_uid i) of
        None \<Rightarrow> (True, \<lparr> by_uid = AList.update (inst_uid i) i (by_uid r),
                        by_symbol = AList.update (key_of i) (inst_uid i) (by_symbol r) \<rparr>)
      | Some e \<Rightarrow> if same_content e i then (False, r)
                  else (True, r\<lparr>by_uid := AList.update (inst_uid i) i (by_uid r)\<rparr>))"

definition reg_count :: "registry \<Rightarrow> nat" where
  "reg_count r = length (by_uid r)"

definition reg_all :: "registry \<Rightarrow> reg_instrument list" where
  "reg_all r = map snd (by_uid r)"

text \<open>Every instrument is stored under its own identifier.\<close>

definition reg_keyed :: "registry \<Rightarrow> bool" where
  "reg_keyed r \<longleftrightarrow> um_wf (by_uid r) \<and> (\<forall>k i. map_of (by_uid r) k = Some i \<longrightarrow> inst_uid i = k)"

lemma reg_keyed_empty [simp]: "reg_keyed reg_empty"
  by (simp add: reg_keyed_def reg_empty_def)

lemma reg_keyed_update:
  "reg_keyed r \<Longrightarrow> by_uid r' = AList.update (inst_uid i) i (by_uid r) \<Longrightarrow> reg_keyed r'"
  by (auto simp: reg_keyed_def)

lemma reg_keyed_map: "reg_keyed r \<Longrightarrow> map_of (by_uid r) k = Some i \<Longrightarrow> inst_uid i = k"
  by (simp add: reg_keyed_def)

lemma reg_keyed_add: "reg_keyed r \<Longrightarrow> reg_keyed (reg_add i r)"
  by (rule reg_keyed_update) (simp_all add: reg_add_def)

lemma reg_keyed_if_changed: "reg_keyed r \<Longrightarrow> reg_keyed (snd (reg_update_if_changed i r))"
  using reg_keyed_update [of r _ i]
  by (simp add: reg_update_if_changed_def split: option.splits)

lemma reg_keyed_all: "reg_keyed r \<Longrightarrow> map_of (by_uid r) (inst_uid i) = Some i" if "i \<in> set (reg_all r)"
  using that by (auto simp: reg_keyed_def reg_all_def um_wf_def)

lemma reg_all_memb: "map_of (by_uid r) k = Some i \<Longrightarrow> i \<in> set (reg_all r)"
  by (force simp: reg_all_def dest: map_of_SomeD)

text \<open>
  \<open>unique_names\<close>: the instruments of a set have one identifier per (venue, symbol, type) and one
  (venue, symbol, type) per identifier, as the mapping file assigns them.
\<close>

definition unique_names :: "reg_instrument set \<Rightarrow> bool" where
  "unique_names A \<longleftrightarrow> (\<forall>i\<in>A. \<forall>j\<in>A. inst_uid i = inst_uid j \<longleftrightarrow> key_of i = key_of j)"

definition index_exact :: "registry \<Rightarrow> bool" where
  "index_exact r \<longleftrightarrow> (\<forall>k uid. map_of (by_symbol r) k = Some uid \<longleftrightarrow>
     (\<exists>i. map_of (by_uid r) uid = Some i \<and> key_of i = k))"

datatype reg_op = Add reg_instrument | Update reg_instrument | Remove u64 | If_Changed reg_instrument

fun reg_step :: "reg_op \<Rightarrow> registry \<Rightarrow> registry" where
  "reg_step (Add i) r = reg_add i r"
| "reg_step (Update i) r = reg_update i r"
| "reg_step (Remove uid) r = reg_remove uid r"
| "reg_step (If_Changed i) r = snd (reg_update_if_changed i r)"

fun op_inst :: "reg_op \<Rightarrow> reg_instrument list" where
  "op_inst (Add i) = [i]"
| "op_inst (Update i) = [i]"
| "op_inst (Remove uid) = []"
| "op_inst (If_Changed i) = [i]"

definition reg_inv :: "reg_instrument set \<Rightarrow> registry \<Rightarrow> bool" where
  "reg_inv A r \<longleftrightarrow> reg_keyed r \<and> ran (map_of (by_uid r)) \<subseteq> A \<and> index_exact r"

lemma reg_inv_names:
  assumes "reg_inv A r" "unique_names A" "map_of (by_uid r) u = Some j" "i \<in> A"
  shows "inst_uid j = u" "u = inst_uid i \<longleftrightarrow> key_of j = key_of i"
  using assms reg_keyed_map [of r u j] by (auto simp: reg_inv_def unique_names_def ran_def)

lemma reg_inv_index:
  "reg_inv A r \<Longrightarrow> map_of (by_symbol r) k = Some u \<longleftrightarrow>
     (\<exists>j. map_of (by_uid r) u = Some j \<and> key_of j = k)"
  by (simp add: reg_inv_def index_exact_def)

lemma reg_inv_upsert:
  assumes inv: "reg_inv A r" and A: "unique_names A" "i \<in> A"
  shows "reg_inv A (reg_add i r)"
proof -
  let ?r = "reg_add i r"
  have keyed: "reg_keyed ?r" using inv by (simp add: reg_inv_def reg_keyed_add)
  have vals: "ran (map_of (by_uid ?r)) \<subseteq> A"
    using inv A(2) by (auto simp: reg_inv_def reg_add_def ran_def)
  have "map_of (by_symbol ?r) k = Some u \<longleftrightarrow> (\<exists>j. map_of (by_uid ?r) u = Some j \<and> key_of j = k)" for k u
    using reg_inv_index [OF inv, of k u] reg_inv_names(2) [OF inv A(1) _ A(2)]
    by (auto simp: reg_add_def)
  with keyed vals show ?thesis by (simp add: reg_inv_def index_exact_def)
qed

lemma reg_inv_remove:
  assumes inv: "reg_inv A r" and A: "unique_names A"
  shows "reg_inv A (reg_remove uid r)"
proof (cases "map_of (by_uid r) uid")
  case (Some i)
  let ?r = "reg_remove uid r"
  have iA: "i \<in> A" "inst_uid i = uid"
    using inv Some reg_keyed_map [of r uid i] by (auto simp: reg_inv_def ran_def)
  have keyed: "reg_keyed ?r" and vals: "ran (map_of (by_uid ?r)) \<subseteq> A"
    using inv Some by (auto simp: reg_inv_def reg_remove_def reg_keyed_def ran_def)
  have "map_of (by_symbol ?r) k = Some u \<longleftrightarrow> (\<exists>j. map_of (by_uid ?r) u = Some j \<and> key_of j = k)" for k u
    using reg_inv_index [OF inv, of k u] reg_inv_names(2) [OF inv A _ iA(1), of u] Some iA(2)
    by (auto simp: reg_remove_def)
  with keyed vals show ?thesis by (simp add: reg_inv_def index_exact_def)
qed (use inv in \<open>simp add: reg_remove_def\<close>)

lemma reg_inv_if_changed:
  assumes inv: "reg_inv A r" and A: "unique_names A" "i \<in> A"
  shows "reg_inv A (snd (reg_update_if_changed i r))"
proof (cases "map_of (by_uid r) (inst_uid i)")
  case None
  then show ?thesis using reg_inv_upsert [OF assms] by (simp add: reg_update_if_changed_def reg_add_def)
next
  case (Some e)
  let ?r = "r\<lparr>by_uid := AList.update (inst_uid i) i (by_uid r)\<rparr>"
  have key: "key_of e = key_of i"
    using reg_inv_names(2) [OF inv A(1) Some A(2)] by simp
  have keyed: "reg_keyed ?r" using inv by (auto simp: reg_inv_def intro: reg_keyed_update)
  have vals: "ran (map_of (by_uid ?r)) \<subseteq> A" using inv A(2) by (auto simp: reg_inv_def ran_def)
  have "map_of (by_symbol ?r) k = Some u \<longleftrightarrow> (\<exists>j. map_of (by_uid ?r) u = Some j \<and> key_of j = k)" for k u
    using reg_inv_index [OF inv, of k u] Some key by auto
  with keyed vals have "reg_inv A ?r" by (simp add: reg_inv_def index_exact_def)
  then show ?thesis using inv Some by (simp add: reg_update_if_changed_def)
qed

lemma reg_inv_empty: "reg_inv A reg_empty"
  by (simp add: reg_inv_def index_exact_def reg_empty_def reg_keyed_def)

lemma reg_inv_step:
  assumes "reg_inv A r" "unique_names A" "set (op_inst e) \<subseteq> A"
  shows "reg_inv A (reg_step e r)"
  using assms reg_inv_upsert reg_inv_remove reg_inv_if_changed
  by (cases e) (simp_all add: reg_update_def)

lemma reg_inv_run:
  assumes "reg_inv A r" "unique_names A" "\<Union> (set ` op_inst ` set es) \<subseteq> A"
  shows "reg_inv A (fold reg_step es r)"
  using assms by (induction es arbitrary: r) (auto intro!: reg_inv_step)

lemma index_key_inj:
  "index_key v s t = index_key v' s' t' \<Longrightarrow> CHR '':'' \<notin> set v \<Longrightarrow> CHR '':'' \<notin> set v' \<Longrightarrow>
   v = v' \<and> s = s' \<and> t = t'"
proof -
  assume eq: "index_key v s t = index_key v' s' t'" and v: "CHR '':'' \<notin> set v" "CHR '':'' \<notin> set v'"
  have tc: "\<exists>c. type_char u = [c]" for u by (cases u) simp_all
  have "takeWhile (\<lambda>c. c \<noteq> CHR '':'') (index_key w u x) = w" if "CHR '':'' \<notin> set w" for w u x
    using that by (subst index_key_def, subst takeWhile_append2) auto
  then have vv: "v = v'" using eq v by metis
  then have "s @ '':'' @ type_char t = s' @ '':'' @ type_char t'" using eq by (simp add: index_key_def)
  then have "s = s'" "type_char t = type_char t'" using tc [of t] tc [of t'] by auto
  then show ?thesis using vv by (cases t; cases t') simp_all
qed

text \<open>
  The symbol index of the registry is exact. After any sequence of adds,
  updates, conditional updates and removes whose instruments have one identifier per (venue,
  symbol, type) and one (venue, symbol, type) per identifier, the lookup by venue, symbol and type
  answers with an instrument exactly when the registry holds it and it has that venue, symbol and
  type.
\<close>

theorem registry_lookup_exact:
  assumes "unique_names (set (concat (map op_inst es)))"
    and "list_all (\<lambda>i. CHR '':'' \<notin> set (venue i)) (concat (map op_inst es))"
    and "CHR '':'' \<notin> set v"
  shows "reg_get_typed v s t (fold reg_step es reg_empty) = Some i \<longleftrightarrow>
         i \<in> set (reg_all (fold reg_step es reg_empty)) \<and>
         venue i = v \<and> venue_symbol i = s \<and> ri_type i = t"
proof -
  let ?A = "set (concat (map op_inst es))" and ?r = "fold reg_step es reg_empty"
  have inv: "reg_inv ?A ?r" by (rule reg_inv_run) (use assms in \<open>auto simp: reg_inv_empty\<close>)
  have names: "CHR '':'' \<notin> set (venue j)" if "map_of (by_uid ?r) u = Some j" for u j
  proof -
    have "j \<in> ?A" using inv that by (auto simp: reg_inv_def ran_def)
    then show ?thesis using assms(2) by (auto simp: list_all_iff)
  qed
  have "i \<in> set (reg_all ?r) \<longleftrightarrow> map_of (by_uid ?r) (inst_uid i) = Some i"
    using inv reg_keyed_all [of i ?r] reg_all_memb [of ?r] by (auto simp: reg_inv_def)
  moreover have "reg_get_typed v s t ?r = Some i \<longleftrightarrow>
      map_of (by_uid ?r) (inst_uid i) = Some i \<and> key_of i = index_key v s t"
  proof -
    have "reg_get_typed v s t ?r = Some i \<longleftrightarrow>
        (\<exists>u. map_of (by_symbol ?r) (index_key v s t) = Some u \<and> map_of (by_uid ?r) u = Some i)"
      by (auto simp: reg_get_typed_def split: option.splits)
    also have "\<dots> \<longleftrightarrow> (\<exists>u. key_of i = index_key v s t \<and> map_of (by_uid ?r) u = Some i)"
      unfolding reg_inv_index [OF inv] by auto
    also have "\<dots> \<longleftrightarrow> map_of (by_uid ?r) (inst_uid i) = Some i \<and> key_of i = index_key v s t"
      using reg_keyed_map [of ?r _ i] inv unfolding reg_inv_def by blast
    finally show ?thesis .
  qed
  moreover have "key_of i = index_key v s t \<longleftrightarrow> venue i = v \<and> venue_symbol i = s \<and> ri_type i = t"
    if "map_of (by_uid ?r) (inst_uid i) = Some i"
    using index_key_inj [of "venue i" "venue_symbol i" "ri_type i" v s t] names [OF that] assms(3)
    by auto
  ultimately show ?thesis by blast
qed

definition btc_spot :: reg_instrument where
  "btc_spot = btc_perp\<lparr>inst_uid := 8, venue := ''BINANCE'', venue_symbol := ''BTCUSDT'', ri_type := RT_SPOT\<rparr>"

theorem registry_lookup_exact_witness:
  "reg_get_typed ''BINANCE'' ''BTCUSDT'' RT_SPOT
     (fold reg_step [Add btc_perp, If_Changed btc_spot, Remove 7] reg_empty) = Some btc_spot"
proof -
  let ?es = "[Add btc_perp, If_Changed btc_spot, Remove 7]"
  have u: "unique_names (set (concat (map op_inst ?es)))"
    by (simp add: unique_names_def btc_perp_def btc_spot_def index_key_def)
  have c: "list_all (\<lambda>i. CHR '':'' \<notin> set (venue i)) (concat (map op_inst ?es))"
    "CHR '':'' \<notin> set ''BINANCE''"
    by (simp_all add: btc_perp_def btc_spot_def)
  show ?thesis
    unfolding registry_lookup_exact [OF u c]
    by (simp add: reg_empty_def reg_add_def reg_update_if_changed_def reg_remove_def reg_all_def
        btc_perp_def btc_spot_def)
qed

text \<open>
  The hypothesis is needed: an instrument that returns under another symbol stays findable under
  the old one, because neither \<open>add\<close> nor \<open>update_if_changed\<close> drops the old index entry.
\<close>

lemma renamed_instrument_keeps_old_name:
  "reg_get_typed ''HYPERLIQUID'' ''BTC'' RT_PERP
     (fold reg_step [Add btc_perp, Add (btc_perp\<lparr>venue_symbol := ''XBT''\<rparr>)] reg_empty)
   = Some (btc_perp\<lparr>venue_symbol := ''XBT''\<rparr>)"
  by (simp add: reg_empty_def reg_add_def reg_get_typed_def btc_perp_def index_key_def)

end
