(* ===== verification/Aeron_Publisher.thy ===== *)
theory Aeron_Publisher
  imports Prelude
begin

text \<open>
  \<open>bpt_common/aeron/publisher.h\<close>: the retry loop of \<open>Publisher::offer\<close> and \<open>Publisher::publish\<close>.
  Aeron is a parameter: \<open>pub k\<close> is the result of the \<open>k\<close>-th attempt, a position when the message
  was taken. With an unbounded policy the loop may not end, and then the value is \<open>None\<close>.
\<close>

datatype offer_result =
    Position | Not_Connected | Back_Pressured | Admin_Action | Publication_Closed
  | Max_Position_Exceeded

datatype publish_policy = kRetryOnBackpressure | kDropAlways | kBoundedRetry

definition terminal_result :: "offer_result \<Rightarrow> bool" where
  "terminal_result r \<longleftrightarrow> r = Not_Connected \<or> r = Publication_Closed \<or> r = Max_Position_Exceeded"

definition transient :: "offer_result \<Rightarrow> bool" where
  "transient r \<longleftrightarrow> r = Back_Pressured \<or> r = Admin_Action"

definition max_attempts :: "publish_policy \<Rightarrow> int \<Rightarrow> int" where
  "max_attempts p max_retries =
     (if p = kDropAlways then 1 else if p = kBoundedRetry then max_retries else -1)"

partial_function (option) retry :: "int \<Rightarrow> (nat \<Rightarrow> offer_result) \<Rightarrow> nat \<Rightarrow> bool option" where
  "retry mx pub attempt =
     (if mx < 0 \<or> int attempt < mx then
        (let rc = pub attempt in
         if rc = Position then Some True
         else if terminal_result rc then Some False
         else retry mx pub (attempt + 1))
      else Some False)"

definition pub_offer :: "publish_policy \<Rightarrow> int \<Rightarrow> (nat \<Rightarrow> offer_result) \<Rightarrow> bool option" where
  "pub_offer p max_retries pub = retry (max_attempts p max_retries) pub 0"

declare retry.simps [code]

lemma result_cases: "rc = Position \<or> terminal_result rc \<or> transient rc"
  by (cases rc) (simp_all add: terminal_result_def transient_def)

lemma transient_not [simp]: "transient rc \<Longrightarrow> rc \<noteq> Position" "transient rc \<Longrightarrow> \<not> terminal_result rc"
  by (auto simp: transient_def terminal_result_def)

lemma retry_step: "mx < 0 \<or> int a < mx \<Longrightarrow> transient (pub a) \<Longrightarrow> retry mx pub a = retry mx pub (Suc a)"
  by (subst retry.simps) simp

lemma retry_transient:
  "list_all (\<lambda>i. transient (pub i)) [a..<a + n] \<Longrightarrow> mx < 0 \<or> int (a + n) \<le> mx \<Longrightarrow>
   retry mx pub a = retry mx pub (a + n)"
proof (induction n)
  case (Suc n)
  then show ?case using retry_step [of mx "a + n" pub] by auto
qed simp

lemma retry_ends:
  assumes "list_all (\<lambda>i. transient (pub i)) [0..<n]" "\<not> transient (pub n)" "mx < 0 \<or> int n < mx"
  shows "retry mx pub 0 = Some (pub n = Position)"
proof -
  have "retry mx pub 0 = retry mx pub n"
    using retry_transient [of pub 0 n mx] assms by (auto simp del: upt_Suc)
  also have "\<dots> = Some (pub n = Position)"
    using assms(2,3) result_cases [of "pub n"] by (subst retry.simps) (auto simp: terminal_result_def)
  finally show ?thesis .
qed

lemma retry_exhausted:
  "list_all (\<lambda>i. transient (pub i)) [0..<n] \<Longrightarrow> mx = int n \<Longrightarrow> retry mx pub 0 = Some False"
proof -
  assume t: "list_all (\<lambda>i. transient (pub i)) [0..<n]" and mx: "mx = int n"
  have "retry mx pub 0 = retry mx pub n" using retry_transient [of pub 0 n mx] t mx by simp
  also have "\<dots> = Some False" by (subst retry.simps) (simp add: mx)
  finally show ?thesis .
qed

lemma retry_some:
  assumes "retry mx pub a = Some y" shows "mx < 0 \<longrightarrow> (\<exists>k. \<not> transient (pub k))"
proof (rule retry.raw_induct [OF _ assms])
  fix f mx pub a y
  assume IH: "\<And>mx pub a y. f mx pub a = Some y \<Longrightarrow> mx < 0 \<longrightarrow> (\<exists>k. \<not> transient (pub k))"
    and body: "(if mx < 0 \<or> int a < mx
        then let rc = pub a in if rc = Position then Some True
          else if terminal_result rc then Some False else f mx pub (a + 1)
        else Some False) = Some (y :: bool)"
  show "mx < 0 \<longrightarrow> (\<exists>k. \<not> transient (pub k))"
  proof (cases "transient (pub a)")
    case True
    then show ?thesis using IH [of mx pub "a + 1" y] body by (auto simp: Let_def split: if_splits)
  qed auto
qed

lemma first_stop:
  fixes pub :: "nat \<Rightarrow> offer_result"
  assumes "\<not> transient (pub k)"
  obtains n where "n \<le> k" "\<not> transient (pub n)" "list_all (\<lambda>i. transient (pub i)) [0..<n]"
proof
  let ?n = "LEAST n. \<not> transient (pub n)"
  show "?n \<le> k" using assms by (rule Least_le)
  show "\<not> transient (pub ?n)" using assms by (rule LeastI)
  show "list_all (\<lambda>i. transient (pub i)) [0..<?n]"
  proof -
    have "transient (pub i)" if "i < ?n" for i using not_less_Least [OF that] by simp
    then show ?thesis by (simp only: list_all_iff set_upt Ball_def atLeastLessThan_iff) blast
  qed
qed

text \<open>
  C40: when the publisher returns, and what. A call blocks for ever exactly when its
  policy is unbounded and every attempt is back-pressured. It reports success exactly when some
  attempt within its budget is taken and all earlier ones were back-pressured.
\<close>

theorem offer_returns:
  "(pub_offer p max_retries pub = None \<longleftrightarrow> max_attempts p max_retries < 0 \<and> (\<forall>k. transient (pub k))) \<and>
   (pub_offer p max_retries pub = Some True \<longleftrightarrow>
      (\<exists>k. pub k = Position \<and> list_all (\<lambda>i. transient (pub i)) [0..<k] \<and>
           (max_attempts p max_retries < 0 \<or> int k < max_attempts p max_retries)))"
proof -
  let ?m = "max_attempts p max_retries"
  consider (forever) "?m < 0" "\<forall>k. transient (pub k)"
    | (stop) n where "\<not> transient (pub n)" "list_all (\<lambda>i. transient (pub i)) [0..<n]" "?m < 0 \<or> int n < ?m"
    | (out) "0 \<le> ?m" "list_all (\<lambda>i. transient (pub i)) [0..<nat ?m]"
  proof (cases "\<exists>k. \<not> transient (pub k)")
    case True
    then obtain n where n: "\<not> transient (pub n)" "list_all (\<lambda>i. transient (pub i)) [0..<n]"
      by (metis first_stop)
    then show ?thesis
      using stop [of n] out by (cases "?m < 0 \<or> int n < ?m") (auto simp: list_all_iff)
  next
    case False
    then show ?thesis using forever out by (cases "?m < 0") (auto simp: list_all_iff)
  qed
  then show ?thesis
  proof cases
    case forever
    then have "pub_offer p max_retries pub = None"
      using retry_some [of ?m pub 0] by (cases "pub_offer p max_retries pub") (auto simp: pub_offer_def)
    then show ?thesis using forever by (auto dest: transient_not)
  next
    case (stop n)
    have val: "pub_offer p max_retries pub = Some (pub n = Position)"
      unfolding pub_offer_def by (rule retry_ends) (use stop in auto)
    have "k = n" if "pub k = Position" "list_all (\<lambda>i. transient (pub i)) [0..<k]" for k
      using that stop(1,2) transient_not(1) [of "pub k"]
      by (cases k n rule: linorder_cases) (auto simp: list_all_iff)
    then show ?thesis using val stop by auto
  next
    case out
    have "pub_offer p max_retries pub = Some False"
      unfolding pub_offer_def by (rule retry_exhausted [of pub "nat ?m"]) (use out in auto)
    moreover have "\<not> (pub k = Position \<and> int k < ?m)" for k
      using out by (auto simp: list_all_iff dest!: bspec [of _ _ k])
    ultimately show ?thesis using out by auto
  qed
qed

end
