(* ===== verification/Refdata_Service.thy ===== *)
theory Refdata_Service
  imports Instrument_Registry Aeron_Publisher
begin

text \<open>
  The publishing side of the reference-data service: the loading and refresh of a venue's
  listing (\<open>okx_refdata_adapter.cpp\<close>; the other adapters have the same loops), the delta and
  snapshot publishers with their sequence number, the request filter, and the handlers of
  \<open>RefdataService\<close>. The venue's REST answers, already decoded, are arguments; \<open>None\<close> is a call
  that throws. A frame lists what the publisher offers to Aeron; whether Aeron takes it is the
  subject of \<open>aeron_offer\<close>, whose publication gives a result to each attempt.
\<close>

subsection \<open>Offering a frame\<close>

definition kAeronMaxSpins :: nat where "kAeronMaxSpins = 25000"

text \<open>Whether the frame was taken, and the number of attempts, with \<open>n\<close> spins left.\<close>

fun offer_spin :: "(nat \<Rightarrow> offer_result) \<Rightarrow> nat \<Rightarrow> nat \<Rightarrow> bool \<times> nat" where
  "offer_spin pub 0 k = (False, k)"
| "offer_spin pub (Suc n) k =
     (let r = pub k in
      if r = Not_Connected \<or> r = Publication_Closed then (False, Suc k)
      else if r \<noteq> Position then offer_spin pub n (Suc k)
      else (True, Suc k))"

definition aeron_offer :: "(nat \<Rightarrow> offer_result) \<Rightarrow> bool \<times> nat" where
  "aeron_offer pub = offer_spin pub kAeronMaxSpins 0"

lemma offer_spin_attempts: "snd (offer_spin pub n k) \<le> k + n"
  by (induction pub n k rule: offer_spin.induct) (auto simp: Let_def)

lemma offer_spin_taken: "fst (offer_spin pub n k) \<Longrightarrow> \<exists>j\<ge>k. j < k + n \<and> pub j = Position"
proof (induction pub n k rule: offer_spin.induct)
  case (2 pub n k)
  then show ?case
    by (cases "pub k = Position") (auto simp: Let_def split: if_splits intro: Suc_leD)
qed simp

subsection \<open>Loading and refreshing a listing\<close>

text \<open>
  \<open>fetchSnapshot\<close> of the OKX adapter: a failure of the first listing call throws out of it, a
  failure of the second or of a fee call is logged. The result is the registry and the fee
  schedules handed to the fee publisher; it also sets the adapter ready.
\<close>

definition fetch_snapshot ::
  "reg_instrument list option \<Rightarrow> reg_instrument list option \<Rightarrow> 'f list option list \<Rightarrow>
   registry \<Rightarrow> (registry \<times> 'f list) option" where
  "fetch_snapshot spot swap fees r =
     (case spot of
        None \<Rightarrow> None
      | Some xs \<Rightarrow>
          let r1 = fold reg_add xs r;
              r2 = (case swap of Some ys \<Rightarrow> fold reg_add ys r1 | None \<Rightarrow> r1)
          in Some (r2, concat (map (\<lambda>f. case f of Some fs \<Rightarrow> fs | None \<Rightarrow> []) fees)))"

record delta_msg =
  dm_seq :: u64
  dm_ts :: u64
  dm_update :: update_type
  dm_inst :: wire_instrument

record snapshot_msg =
  snap_corr :: u64
  snap_seq :: u64
  snap_ts :: u64
  snap_insts :: "wire_instrument list"

datatype frame = Delta_Frame delta_msg | Snapshot_Frame snapshot_msg

text \<open>A filter of a request; the strings are fixed-size arrays padded with NUL.\<close>

record instrument_filter =
  if_symbol :: string
  if_exchange :: string

record canonical_filter =
  cf_base :: string
  cf_quote :: string
  cf_type :: wire_inst_type
  cf_exchange :: string

record refdata_request =
  rq_corr :: u64
  rq_instruments :: "instrument_filter list"
  rq_canonical :: "canonical_filter list"

record service =
  sv_registry :: registry
  sv_seq :: u64
  sv_subs :: "(u64, instrument_filter list) umap"

definition publish_delta ::
  "u64 \<Rightarrow> update_type \<Rightarrow> reg_instrument \<Rightarrow> service \<Rightarrow> service \<times> frame list" where
  "publish_delta now u i s =
     (let s = s\<lparr>sv_seq := sv_seq s + 1\<rparr>
      in (s, [Delta_Frame \<lparr> dm_seq = sv_seq s, dm_ts = now, dm_update = u, dm_inst = to_wire i \<rparr>]))"

definition zero_block :: wire_instrument where
  "zero_block =
     \<lparr> wi_id = 0, wi_symbol = replicate 24 nul, wi_exchange = replicate 8 nul,
       wi_base = replicate 8 nul, wi_quote = replicate 8 nul, wi_type = WT_SPOT,
       wi_status = WS_ACTIVE, wi_lot = 0, wi_tick = 0, wi_contract = 0, wi_expiry = 0,
       wi_option_side = WO_CALL, wi_strike = 0, wi_underlying = replicate 24 nul \<rparr>"

definition publish_heartbeat :: "u64 \<Rightarrow> service \<Rightarrow> service \<times> frame list" where
  "publish_heartbeat now s =
     (let s = s\<lparr>sv_seq := sv_seq s + 1\<rparr>
      in (s, [Delta_Frame \<lparr> dm_seq = sv_seq s, dm_ts = now, dm_update = DU_NULL, dm_inst = zero_block \<rparr>]))"

text \<open>The lambda \<open>notify\<close> of \<open>fetchInstrumentListing\<close>, and the calls of one refresh.\<close>

definition notify :: "u64 \<Rightarrow> reg_instrument \<Rightarrow> service \<Rightarrow> service \<times> frame list" where
  "notify now i s =
     (let (changed, r) = reg_update_if_changed i (sv_registry s); s = s\<lparr>sv_registry := r\<rparr>
      in if changed then publish_delta now DU_MODIFY i s else (s, []))"

fun for_all :: "('x \<Rightarrow> 's \<Rightarrow> 's \<times> 'o list) \<Rightarrow> 'x list \<Rightarrow> 's \<Rightarrow> 's \<times> 'o list" where
  "for_all f [] s = (s, [])"
| "for_all f (x # xs) s = (let (s1, o1) = f x s; (s2, o2) = for_all f xs s1 in (s2, o1 @ o2))"

definition fetch_call ::
  "u64 \<Rightarrow> reg_instrument list option \<Rightarrow> service \<Rightarrow> service \<times> frame list" where
  "fetch_call now call s =
     (case call of Some xs \<Rightarrow> for_all (notify now) xs s | None \<Rightarrow> (s, []))"

definition fetch_listing ::
  "u64 \<Rightarrow> reg_instrument list option list \<Rightarrow> service \<Rightarrow> service \<times> frame list" where
  "fetch_listing now calls s = for_all (fetch_call now) calls s"

subsection \<open>Snapshots\<close>

definition strnlen :: "string \<Rightarrow> nat \<Rightarrow> nat" where
  "strnlen s n = length (takeWhile (\<lambda>c. c \<noteq> nul) (take n s))"

definition view :: "nat \<Rightarrow> string \<Rightarrow> string" where
  "view n f = take (strnlen f n) f"

definition venue_matches_filter_exchange :: "string \<Rightarrow> string \<Rightarrow> bool" where
  "venue_matches_filter_exchange v f =
     (if f ! 0 = nul then True
      else let flen = strnlen f 8; fv = take flen f in
        if v = fv then True
        else if flen = 8 \<and> 8 < length v \<and> take 8 v = fv then True
        else False)"

definition req_matches :: "refdata_request \<Rightarrow> reg_instrument \<Rightarrow> bool" where
  "req_matches q i =
     (if rq_canonical q \<noteq> [] then
        list_ex (\<lambda>f. base i = view 8 (cf_base f) \<and> quote i = view 8 (cf_quote f) \<and>
                     to_sbe_type (ri_type i) = cf_type f \<and>
                     venue_matches_filter_exchange (venue i) (cf_exchange f)) (rq_canonical q)
      else if rq_instruments q \<noteq> [] then
        list_ex (\<lambda>f. (if_symbol f ! 0 = nul \<or> venue_symbol i = view 24 (if_symbol f)) \<and>
                     venue_matches_filter_exchange (venue i) (if_exchange f)) (rq_instruments q)
      else True)"

text \<open>
  \<open>instrumentsCount\<close> and \<open>next\<close> throw when the group holds more than 65534 blocks: the count is
  cut to 16 bits, so a larger group runs past its count.
\<close>

definition publish_snapshot ::
  "u64 \<Rightarrow> refdata_request \<Rightarrow> registry \<Rightarrow> u64 \<Rightarrow> frame list option" where
  "publish_snapshot now q r seq_start =
     (let matched = filter (req_matches q) (reg_all r)
      in if 65534 < length matched then None
         else Some [Snapshot_Frame \<lparr> snap_corr = rq_corr q, snap_seq = seq_start, snap_ts = now,
                                     snap_insts = map to_wire matched \<rparr>])"

definition subs_upsert ::
  "refdata_request \<Rightarrow> (u64, instrument_filter list) umap \<Rightarrow> (u64, instrument_filter list) umap" where
  "subs_upsert q m = AList.update (rq_corr q) (rq_instruments q) m"

definition subs_remove ::
  "u64 \<Rightarrow> (u64, instrument_filter list) umap \<Rightarrow> (u64, instrument_filter list) umap" where
  "subs_remove c m = AList.delete c m"

definition has_subscription :: "u64 \<Rightarrow> (u64, instrument_filter list) umap \<Rightarrow> bool" where
  "has_subscription c m \<longleftrightarrow> map_of m c \<noteq> None"

definition handle_request ::
  "u64 \<Rightarrow> refdata_request \<Rightarrow> service \<Rightarrow> (service \<times> frame list) option" where
  "handle_request now q s =
     (let s = s\<lparr>sv_subs := subs_upsert q (sv_subs s)\<rparr>
      in map_option (\<lambda>fs. (s, fs)) (publish_snapshot now q (sv_registry s) (sv_seq s)))"

definition empty_request :: refdata_request where
  "empty_request = \<lparr> rq_corr = 0, rq_instruments = [], rq_canonical = [] \<rparr>"

definition republish_snapshot :: "u64 \<Rightarrow> service \<Rightarrow> (service \<times> frame list) option" where
  "republish_snapshot now s =
     map_option (\<lambda>fs. (s, fs)) (publish_snapshot now empty_request (sv_registry s) (sv_seq s))"

definition mapping_refresh :: "u64 \<Rightarrow> service \<Rightarrow> service \<times> frame list" where
  "mapping_refresh now s =
     for_all (publish_delta now DU_MODIFY) (reg_all (sv_registry s)) s"

text \<open>What an iteration of the service loop may do; \<open>None\<close> is an exception out of \<open>run\<close>.\<close>

datatype sv_event =
    Sv_Request refdata_request | Sv_Heartbeat | Sv_Republish | Sv_Mapping_Refresh
  | Sv_Listing "reg_instrument list option list"

fun sv_step :: "u64 \<times> sv_event \<Rightarrow> service \<Rightarrow> (service \<times> frame list) option" where
  "sv_step (now, Sv_Request q) s = handle_request now q s"
| "sv_step (now, Sv_Heartbeat) s = Some (publish_heartbeat now s)"
| "sv_step (now, Sv_Republish) s = republish_snapshot now s"
| "sv_step (now, Sv_Mapping_Refresh) s = Some (mapping_refresh now s)"
| "sv_step (now, Sv_Listing calls) s = Some (fetch_listing now calls s)"

fun sv_run :: "(u64 \<times> sv_event) list \<Rightarrow> service \<Rightarrow> (service \<times> frame list) option" where
  "sv_run [] s = Some (s, [])"
| "sv_run (e # es) s =
     (case sv_step e s of
        None \<Rightarrow> None
      | Some (s1, o1) \<Rightarrow> map_option (\<lambda>(s2, o2). (s2, o1 @ o2)) (sv_run es s1))"

subsection \<open>The deltas describe the registry\<close>

definition wire_map :: "registry \<Rightarrow> u64 \<Rightarrow> wire_instrument option" where
  "wire_map r k = map_option to_wire (map_of (by_uid r) k)"

text \<open>What a delta does to the set of instruments, for any reader.\<close>

fun mirror :: "delta_msg \<Rightarrow> (u64 \<Rightarrow> wire_instrument option) \<Rightarrow> u64 \<Rightarrow> wire_instrument option" where
  "mirror d m =
     (case dm_update d of
        DU_ADD \<Rightarrow> m(wi_id (dm_inst d) \<mapsto> dm_inst d)
      | DU_MODIFY \<Rightarrow> m(wi_id (dm_inst d) \<mapsto> dm_inst d)
      | DU_REMOVE \<Rightarrow> m(wi_id (dm_inst d) := None)
      | DU_NULL \<Rightarrow> m)"

fun deltas :: "frame list \<Rightarrow> delta_msg list" where
  "deltas [] = []"
| "deltas (Delta_Frame d # fs) = d # deltas fs"
| "deltas (Snapshot_Frame q # fs) = deltas fs"

lemma deltas_append [simp]: "deltas (fs @ gs) = deltas fs @ deltas gs"
  by (induction fs rule: deltas.induct) simp_all

text \<open>\<open>numbered n ds\<close>: the sequence numbers of \<open>ds\<close> follow \<open>n\<close> without a gap.\<close>

fun numbered :: "u64 \<Rightarrow> delta_msg list \<Rightarrow> bool" where
  "numbered n [] = True"
| "numbered n (d # ds) = (dm_seq d = n + 1 \<and> numbered (n + 1) ds)"

lemma numbered_append:
  "numbered n (ds @ es) \<longleftrightarrow> numbered n ds \<and> numbered (n + of_nat (length ds)) es"
  by (induction n ds rule: numbered.induct) (auto simp: ac_simps)

lemma numbered_seq: "numbered n ds \<Longrightarrow> k < length ds \<Longrightarrow> dm_seq (ds ! k) = n + of_nat (Suc k)"
  by (induction n ds arbitrary: k rule: numbered.induct)
    (auto simp: nth_Cons ac_simps split: nat.splits)

lemma numbered_map:
  "numbered n ds \<Longrightarrow> map dm_seq ds = map (\<lambda>k. n + of_nat (Suc k)) [0..<length ds]"
  by (rule nth_equalityI) (simp_all add: numbered_seq del: of_nat_Suc)

definition explains :: "service \<Rightarrow> frame list \<Rightarrow> service \<Rightarrow> bool" where
  "explains s fs s' \<longleftrightarrow>
     numbered (sv_seq s) (deltas fs) \<and>
     sv_seq s' = sv_seq s + of_nat (length (deltas fs)) \<and>
     fold mirror (deltas fs) (wire_map (sv_registry s)) = wire_map (sv_registry s') \<and>
     reg_keyed (sv_registry s')"

lemma explains_refl: "reg_keyed (sv_registry s) \<Longrightarrow> explains s [] s"
  by (simp add: explains_def)

lemma explains_trans: "explains s fs s1 \<Longrightarrow> explains s1 gs s2 \<Longrightarrow> explains s (fs @ gs) s2"
  by (auto simp: explains_def numbered_append ac_simps)

lemma for_all_explains:
  assumes step: "\<And>x s. x \<in> set xs \<Longrightarrow> P s \<Longrightarrow>
      explains s (snd (f x s)) (fst (f x s)) \<and> P (fst (f x s))"
    and s: "reg_keyed (sv_registry s)" "P s"
  shows "explains s (snd (for_all f xs s)) (fst (for_all f xs s)) \<and> P (fst (for_all f xs s))"
  using assms
proof (induction xs arbitrary: s)
  case (Cons x xs)
  have 1: "explains s (snd (f x s)) (fst (f x s))" "P (fst (f x s))"
    using Cons.prems(1) [of x s] Cons.prems(3) by auto
  then have "reg_keyed (sv_registry (fst (f x s)))" by (simp add: explains_def)
  with Cons.IH [of "fst (f x s)"] Cons.prems(1) 1
  have "explains (fst (f x s)) (snd (for_all f xs (fst (f x s)))) (fst (for_all f xs (fst (f x s))))
    \<and> P (fst (for_all f xs (fst (f x s))))" by auto
  then show ?case using explains_trans [OF 1(1)] by (simp add: Let_def split_beta)
qed (simp add: explains_refl)

lemma wire_map_update:
  "wire_map (r\<lparr>by_uid := AList.update k i (by_uid r)\<rparr>) = (wire_map r)(k \<mapsto> to_wire i)"
  by (auto simp: wire_map_def fun_eq_iff)

lemma notify_explains:
  assumes "reg_keyed (sv_registry s)"
  shows "explains s (snd (notify now i s)) (fst (notify now i s))"
proof (cases "reg_update_if_changed i (sv_registry s)")
  case (Pair ch r)
  have keyed: "reg_keyed r" using reg_keyed_if_changed [OF assms, of i] Pair by simp
  have "ch \<Longrightarrow> wire_map r = (wire_map (sv_registry s))(inst_uid i \<mapsto> to_wire i)"
    and "\<not> ch \<Longrightarrow> r = sv_registry s"
    using Pair by (auto simp: reg_update_if_changed_def wire_map_def fun_eq_iff
        split: option.splits if_splits)
  then show ?thesis using Pair keyed
    by (cases ch) (auto simp: notify_def publish_delta_def explains_def Let_def)
qed

lemma explains_keyed: "explains s fs s' \<Longrightarrow> reg_keyed (sv_registry s')"
  by (simp add: explains_def)

lemma fetch_call_explains:
  assumes "reg_keyed (sv_registry s)"
  shows "explains s (snd (fetch_call now c s)) (fst (fetch_call now c s))"
proof (cases c)
  case (Some xs)
  have "explains s (snd (for_all (notify now) xs s)) (fst (for_all (notify now) xs s)) \<and>
      reg_keyed (sv_registry (fst (for_all (notify now) xs s)))"
    by (rule for_all_explains) (use assms notify_explains explains_keyed in blast)+
  then show ?thesis using Some by (simp add: fetch_call_def)
qed (use assms in \<open>simp add: explains_refl fetch_call_def\<close>)

lemma listing_explains:
  assumes "reg_keyed (sv_registry s)"
  shows "explains s (snd (fetch_listing now calls s)) (fst (fetch_listing now calls s))"
proof -
  have "explains s (snd (for_all (fetch_call now) calls s)) (fst (for_all (fetch_call now) calls s)) \<and>
      reg_keyed (sv_registry (fst (for_all (fetch_call now) calls s)))"
    by (rule for_all_explains) (use assms fetch_call_explains explains_keyed in blast)+
  then show ?thesis by (simp add: fetch_listing_def)
qed

lemma mapping_refresh_explains:
  assumes "reg_keyed (sv_registry s)"
  shows "explains s (snd (mapping_refresh now s)) (fst (mapping_refresh now s))"
proof -
  let ?r = "sv_registry s"
  have "wire_map ?r (inst_uid i) = Some (to_wire i)" if "i \<in> set (reg_all ?r)" for i
    using reg_keyed_all [OF that assms] by (simp add: wire_map_def)
  then have "explains s' (snd (publish_delta now DU_MODIFY i s')) (fst (publish_delta now DU_MODIFY i s')) \<and>
      sv_registry (fst (publish_delta now DU_MODIFY i s')) = ?r"
    if "i \<in> set (reg_all ?r)" "sv_registry s' = ?r" for i s'
    using that assms by (auto simp: publish_delta_def explains_def Let_def fun_eq_iff)
  then have "explains s (snd (for_all (publish_delta now DU_MODIFY) (reg_all ?r) s))
      (fst (for_all (publish_delta now DU_MODIFY) (reg_all ?r) s)) \<and>
      sv_registry (fst (for_all (publish_delta now DU_MODIFY) (reg_all ?r) s)) = ?r"
    using assms by (intro for_all_explains) auto
  then show ?thesis by (simp add: mapping_refresh_def)
qed

lemma sv_step_explains:
  assumes "sv_step e s = Some (s', fs)" "reg_keyed (sv_registry s)"
  shows "explains s fs s'"
proof -
  obtain now ev where e: "e = (now, ev)" by (cases e)
  show ?thesis
  proof (cases ev)
    case Sv_Mapping_Refresh
    then show ?thesis using assms e mapping_refresh_explains [of s now] by simp
  next
    case (Sv_Listing calls)
    then show ?thesis using assms e listing_explains [of s now calls] by simp
  qed (use assms e in \<open>auto simp: handle_request_def republish_snapshot_def publish_snapshot_def
      publish_heartbeat_def explains_def Let_def split: if_splits\<close>)
qed

lemma sv_run_explains:
  "sv_run es s = Some (s', fs) \<Longrightarrow> reg_keyed (sv_registry s) \<Longrightarrow> explains s fs s'"
proof (induction es arbitrary: s fs)
  case (Cons e es)
  then obtain s1 o1 o2 where run: "sv_step e s = Some (s1, o1)" "sv_run es s1 = Some (s', o2)"
    "fs = o1 @ o2"
    by (auto split: option.splits)
  have 1: "explains s o1 s1" by (rule sv_step_explains [OF run(1) Cons.prems(2)])
  with Cons.IH [OF run(2)] show ?case using explains_trans explains_keyed run(3) by blast
qed (simp add: explains_refl)

text \<open>
  C19: the delta stream is a complete account of the registry. In any run of
  the service loop, whatever requests, heartbeats, snapshot broadcasts, mapping refreshes and
  listing refreshes it serves, the deltas it publishes are numbered without a gap from the
  sequence number it started with, and applying them in order to the instruments it started with
  gives exactly the instruments it ends with, as they appear on the wire.
\<close>

theorem registry_is_folded_deltas:
  assumes "sv_run es s = Some (s', fs)" "reg_keyed (sv_registry s)"
  shows "map dm_seq (deltas fs) = map (\<lambda>k. sv_seq s + of_nat (Suc k)) [0..<length (deltas fs)] \<and>
         fold mirror (deltas fs) (wire_map (sv_registry s)) = wire_map (sv_registry s')"
  using sv_run_explains [OF assms] numbered_map [of "sv_seq s" "deltas fs"]
  unfolding explains_def by blast

definition sv_init :: service where
  "sv_init = \<lparr> sv_registry = reg_add btc_perp reg_empty, sv_seq = 41, sv_subs = [] \<rparr>"

definition halted_perp :: reg_instrument where
  "halted_perp = btc_perp\<lparr>ri_status := RS_HALTED\<rparr>"

lemma wi_status_to_wire: "wi_status (to_wire i) = to_sbe_status (ri_status i)"
  by (simp add: to_wire_def)

definition sv_script :: "(u64 \<times> sv_event) list" where
  "sv_script = [(1, Sv_Heartbeat), (2, Sv_Listing [None, Some [btc_perp, halted_perp]]), (3, Sv_Republish)]"

lemma perp_facts:
  "same_content btc_perp btc_perp" "\<not> same_content btc_perp halted_perp"
  "inst_uid btc_perp = 7" "inst_uid halted_perp = 7"
  "ri_status btc_perp = RS_ACTIVE" "ri_status halted_perp = RS_HALTED"
  by (simp_all add: same_content_def btc_perp_def halted_perp_def)

lemma sv_script_run:
  "map_option (\<lambda>(s', fs). (by_uid (sv_registry s'), map (\<lambda>d. (dm_seq d, wi_status (dm_inst d))) (deltas fs)))
     (sv_run sv_script sv_init)
   = Some ([(7, halted_perp)], [(42, WS_ACTIVE), (43, WS_HALTED)])"
  by (simp add: sv_script_def sv_init_def publish_heartbeat_def fetch_listing_def fetch_call_def
      notify_def reg_update_if_changed_def reg_add_def reg_empty_def publish_delta_def
      republish_snapshot_def publish_snapshot_def reg_all_def zero_block_def
      wi_status_to_wire perp_facts)

theorem registry_is_folded_deltas_witness:
  "case sv_run sv_script sv_init of
     Some (s', fs) \<Rightarrow> map dm_seq (deltas fs) = [42, 43] \<and>
       fold mirror (deltas fs) (wire_map (sv_registry sv_init)) = wire_map (sv_registry s')
   | None \<Rightarrow> False"
proof (cases "sv_run sv_script sv_init")
  case None
  then show ?thesis using sv_script_run by simp
next
  case (Some p)
  obtain s' fs where p: "p = (s', fs)" by (cases p)
  have keyed: "reg_keyed (sv_registry sv_init)" by (simp add: sv_init_def reg_keyed_add)
  have len: "length (deltas fs) = 2"
    using sv_script_run Some p by (auto dest!: arg_cong [where f = length])
  show ?thesis
    using registry_is_folded_deltas [OF _ keyed, of sv_script s' fs] Some p len
    by (simp add: sv_init_def numeral_2_eq_2)
qed

end
