(* ===== verification/Refdata_Client.thy ===== *)
theory Refdata_Client
  imports Refdata_Service
begin

text \<open>
  The strategy's side of the reference data: the instrument cache
  (\<open>strategy/refdata/instrument_cache.cpp\<close>), the fee and funding-rate caches and the fragment
  handlers of \<open>AeronRefdataClient\<close> (\<open>refdata_client.h\<close>). The calls to the handler are logged in
  \<open>cl_events\<close>, newest last. The theorems connect the cache to the registry of the service.
\<close>

subsection \<open>Instrument cache\<close>

record inst_cache =
  ic_map :: "(u64, instrument) umap"
  snapshot_received :: bool
  snapshot_seq_num :: u64
  last_delta_seq :: u64

definition ic_init :: inst_cache where
  "ic_init = \<lparr> ic_map = [], snapshot_received = False, snapshot_seq_num = 0, last_delta_seq = 0 \<rparr>"

text \<open>\<open>emplace\<close> keeps the entry of a key that is already present.\<close>

definition emplace :: "u64 \<Rightarrow> instrument \<Rightarrow> (u64, instrument) umap \<Rightarrow> (u64, instrument) umap" where
  "emplace k i m = (if map_of m k = None then m @ [(k, i)] else m)"

definition insert_all :: "instrument list \<Rightarrow> (u64, instrument) umap" where
  "insert_all xs = fold (\<lambda>i. emplace (instrument_id i) i) xs []"

definition apply_snapshot :: "snapshot_msg \<Rightarrow> inst_cache \<Rightarrow> inst_cache" where
  "apply_snapshot msg c =
     c\<lparr>ic_map := insert_all (map from_wire (snap_insts msg)),
       snapshot_seq_num := snap_seq msg,
       last_delta_seq := 0,
       snapshot_received := True\<rparr>"

definition apply_delta :: "delta_msg \<Rightarrow> inst_cache \<Rightarrow> bool \<times> inst_cache" where
  "apply_delta msg c =
     (let seq = dm_seq msg in
      if seq \<le> snapshot_seq_num c then (True, c)
      else if last_delta_seq c > 0 \<and> seq \<noteq> last_delta_seq c + 1 then (False, c)
      else let c = c\<lparr>last_delta_seq := seq\<rparr> in
        (True, case dm_update msg of
           DU_NULL \<Rightarrow> c
         | DU_REMOVE \<Rightarrow> c\<lparr>ic_map := AList.delete (wi_id (dm_inst msg)) (ic_map c)\<rparr>
         | _ \<Rightarrow> let i = from_wire (dm_inst msg)
                in c\<lparr>ic_map := AList.update (instrument_id i) i (ic_map c)\<rparr>))"

definition ic_reset :: "inst_cache \<Rightarrow> inst_cache" where
  "ic_reset c = c\<lparr>ic_map := [], snapshot_received := False, snapshot_seq_num := 0, last_delta_seq := 0\<rparr>"

definition ic_seed :: "instrument list \<Rightarrow> inst_cache \<Rightarrow> inst_cache" where
  "ic_seed xs c =
     c\<lparr>ic_map := insert_all xs, snapshot_received := True, snapshot_seq_num := 0, last_delta_seq := 0\<rparr>"

definition ic_get :: "u64 \<Rightarrow> inst_cache \<Rightarrow> instrument option" where
  "ic_get k c = map_of (ic_map c) k"

definition ic_get_all :: "inst_cache \<Rightarrow> instrument list" where
  "ic_get_all c = map snd (ic_map c)"

subsection \<open>Fee and funding-rate caches\<close>

record fee_entry =
  maker_bps :: "16 word"
  taker_bps :: "16 word"
  updated_ts :: u64

record fee_cache =
  exchange_slots :: "fee_entry list"
  per_instrument :: "(u64, fee_entry) umap"
  fc_max_staleness :: u64

definition fc_init :: "u64 \<Rightarrow> fee_cache" where
  "fc_init ms =
     \<lparr> exchange_slots = replicate 8 \<lparr> maker_bps = 0, taker_bps = 0, updated_ts = 0 \<rparr>,
       per_instrument = [], fc_max_staleness = ms \<rparr>"

definition fc_update :: "exchange_id \<Rightarrow> u64 \<Rightarrow> fee_entry \<Rightarrow> fee_cache \<Rightarrow> fee_cache" where
  "fc_update ex iid e c =
     (if iid = 0 then
        (let idx = exchange_value ex in
         if 8 \<le> idx then c else c\<lparr>exchange_slots := (exchange_slots c)[idx := e]\<rparr>)
      else c\<lparr>per_instrument := AList.update iid e (per_instrument c)\<rparr>)"

definition fc_remove :: "u64 \<Rightarrow> fee_cache \<Rightarrow> fee_cache" where
  "fc_remove iid c =
     (if iid = 0 then c else c\<lparr>per_instrument := AList.delete iid (per_instrument c)\<rparr>)"

definition fc_get :: "exchange_id \<Rightarrow> u64 \<Rightarrow> u64 \<Rightarrow> fee_cache \<Rightarrow> fee_entry option" where
  "fc_get ex iid now c =
     (case (if iid \<noteq> 0 then map_of (per_instrument c) iid else None) of
        Some e \<Rightarrow> if now - updated_ts e \<le> fc_max_staleness c then Some e else None
      | None \<Rightarrow>
          let idx = exchange_value ex in
          if 8 \<le> idx then None
          else let e = exchange_slots c ! idx in
            if updated_ts e = 0 then None
            else if now - updated_ts e > fc_max_staleness c then None
            else Some e)"

record funding_entry =
  fe_exchange :: exchange_id
  fe_instrument :: u64
  rate_bps :: u32
  next_funding_ts :: u64
  collected_ts :: u64

record funding_cache =
  rates :: "(u64, funding_entry) umap"
  fr_max_staleness :: u64

definition fr_update :: "funding_entry \<Rightarrow> funding_cache \<Rightarrow> funding_cache" where
  "fr_update e c = c\<lparr>rates := AList.update (fe_instrument e) e (rates c)\<rparr>"

definition fr_remove :: "u64 \<Rightarrow> funding_cache \<Rightarrow> funding_cache" where
  "fr_remove iid c = c\<lparr>rates := AList.delete iid (rates c)\<rparr>"

definition fr_get :: "u64 \<Rightarrow> u64 \<Rightarrow> funding_cache \<Rightarrow> funding_entry option" where
  "fr_get iid now c =
     (case map_of (rates c) iid of
        None \<Rightarrow> None
      | Some e \<Rightarrow> if now - collected_ts e > fr_max_staleness c then None else Some e)"

subsection \<open>The client\<close>

datatype rd_callback =
    On_Snapshot_Complete "(u64, instrument) umap" | On_Gap_Detected
  | On_Delta instrument update_type
  | On_Ready u8 u16 bool bool | On_Error nat exchange_id u64

record client =
  cl_cache :: inst_cache
  cl_fees :: fee_cache
  cl_funding :: funding_cache
  cl_handler :: bool
  cl_corr :: u64
  last_heartbeat_ns :: u64
  cl_events :: "rd_callback list"

definition cl_init :: "u64 \<Rightarrow> client" where
  "cl_init ms =
     \<lparr> cl_cache = ic_init, cl_fees = fc_init ms, cl_funding = \<lparr> rates = [], fr_max_staleness = ms \<rparr>,
       cl_handler = False, cl_corr = 0, last_heartbeat_ns = 0, cl_events = [] \<rparr>"

definition callback :: "rd_callback \<Rightarrow> client \<Rightarrow> client" where
  "callback e c = (if cl_handler c then c\<lparr>cl_events := cl_events c @ [e]\<rparr> else c)"

definition set_handler :: "client \<Rightarrow> client" where
  "set_handler c = c\<lparr>cl_handler := True\<rparr>"

text \<open>\<open>subscribe\<close> without its filters: the request it sends.\<close>

definition cl_subscribe :: "u64 \<Rightarrow> client \<Rightarrow> client \<times> refdata_request" where
  "cl_subscribe corr c =
     (c\<lparr>cl_corr := corr\<rparr>, \<lparr> rq_corr = corr, rq_instruments = [], rq_canonical = [] \<rparr>)"

definition handle_snapshot :: "snapshot_msg \<Rightarrow> client \<Rightarrow> client" where
  "handle_snapshot msg c =
     (if snap_corr msg \<noteq> cl_corr c then c
      else let c = c\<lparr>cl_cache := apply_snapshot msg (cl_cache c)\<rparr>
           in callback (On_Snapshot_Complete (ic_map (cl_cache c))) c)"

definition handle_delta :: "delta_msg \<Rightarrow> client \<Rightarrow> client" where
  "handle_delta msg c =
     (if \<not> snapshot_received (cl_cache c) then c
      else if dm_update msg = DU_NULL then
        c\<lparr>last_heartbeat_ns := dm_ts msg, cl_cache := snd (apply_delta msg (cl_cache c))\<rparr>
      else
        let (ok, ic) = apply_delta msg (cl_cache c); c = c\<lparr>cl_cache := ic\<rparr> in
        if \<not> ok then callback On_Gap_Detected (c\<lparr>cl_cache := ic_reset (cl_cache c)\<rparr>)
        else
          let c = (if dm_update msg = DU_REMOVE
                   then c\<lparr>cl_fees := fc_remove (wi_id (dm_inst msg)) (cl_fees c),
                          cl_funding := fr_remove (wi_id (dm_inst msg)) (cl_funding c)\<rparr>
                   else c)
          in (case ic_get (wi_id (dm_inst msg)) (cl_cache c) of
                Some i \<Rightarrow> callback (On_Delta i (dm_update msg)) c
              | None \<Rightarrow> c))"

definition handle_fee :: "exchange_id \<Rightarrow> u64 \<Rightarrow> fee_entry \<Rightarrow> client \<Rightarrow> client" where
  "handle_fee ex iid e c = c\<lparr>cl_fees := fc_update ex iid e (cl_fees c)\<rparr>"

definition handle_funding :: "funding_entry \<Rightarrow> client \<Rightarrow> client" where
  "handle_funding e c = c\<lparr>cl_funding := fr_update e (cl_funding c)\<rparr>"

definition handle_status :: "rd_callback \<Rightarrow> client \<Rightarrow> client" where
  "handle_status e c = callback e c"

text \<open>
  A fragment of any of the five streams. A fragment that is too short or of another template is
  dropped by every handler and has no constructor.
\<close>

datatype fragment =
    Frag_Snapshot snapshot_msg | Frag_Delta delta_msg | Frag_Fee exchange_id u64 fee_entry
  | Frag_Funding funding_entry | Frag_Ready u8 u16 bool bool | Frag_Error nat exchange_id u64

fun cl_step :: "fragment \<Rightarrow> client \<Rightarrow> client" where
  "cl_step (Frag_Snapshot msg) = handle_snapshot msg"
| "cl_step (Frag_Delta msg) = handle_delta msg"
| "cl_step (Frag_Fee ex iid e) = handle_fee ex iid e"
| "cl_step (Frag_Funding e) = handle_funding e"
| "cl_step (Frag_Ready ex n f r) = handle_status (On_Ready ex n f r)"
| "cl_step (Frag_Error t ex iid) = handle_status (On_Error t ex iid)"

subsection \<open>The cache and the registry\<close>

lemma fold_emplace:
  "distinct (map fst m @ map instrument_id xs) \<Longrightarrow>
   fold (\<lambda>i. emplace (instrument_id i) i) xs m = m @ map (\<lambda>i. (instrument_id i, i)) xs"
  by (induction xs arbitrary: m) (auto simp: emplace_def map_of_eq_None_iff)

lemma insert_all_distinct:
  "distinct (map instrument_id xs) \<Longrightarrow> insert_all xs = map (\<lambda>i. (instrument_id i, i)) xs"
  by (simp add: insert_all_def fold_emplace)

text \<open>The snapshot of an unfiltered request carries the registry.\<close>

lemma snapshot_is_registry:
  assumes pub: "publish_snapshot now q r n = Some [Snapshot_Frame msg]"
    and all: "rq_canonical q = []" "rq_instruments q = []" and keyed: "reg_keyed r"
  shows "map_of (insert_all (map from_wire (snap_insts msg))) k = map_option from_wire (wire_map r k)"
    and "snap_seq msg = n" "snap_corr msg = rq_corr q"
proof -
  have "filter (req_matches q) (reg_all r) = reg_all r"
    by (simp add: req_matches_def all)
  then have msg: "snap_insts msg = map to_wire (reg_all r)" "snap_seq msg = n" "snap_corr msg = rq_corr q"
    using pub by (auto simp: publish_snapshot_def Let_def split: if_splits)
  then show "snap_seq msg = n" "snap_corr msg = rq_corr q" by simp_all
  have ids: "inst_uid i = k'" if "(k', i) \<in> set (by_uid r)" for k' i
    using keyed that by (auto simp: reg_keyed_def um_wf_def)
  have fst_ids: "map (\<lambda>p. inst_uid (snd p)) (by_uid r) = map fst (by_uid r)"
    by (rule map_cong) (auto dest: ids)
  let ?xs = "map from_wire (snap_insts msg)"
  have "distinct (map (\<lambda>p. inst_uid (snd p)) (by_uid r))"
    unfolding fst_ids using keyed by (simp add: reg_keyed_def um_wf_def)
  then have "distinct (map instrument_id ?xs)"
    by (simp add: msg(1) reg_all_def comp_def)
  then have "insert_all ?xs = map (\<lambda>i. (instrument_id i, i)) ?xs" by (rule insert_all_distinct)
  also have "\<dots> = map (\<lambda>(k, i). (k, from_wire (to_wire i))) (by_uid r)"
    by (auto simp: msg(1) reg_all_def dest: ids)
  finally show "map_of (insert_all ?xs) k = map_option from_wire (wire_map r k)"
    by (simp add: map_of_map wire_map_def option.map_comp comp_def)
qed

subsection \<open>No silent divergence\<close>

text \<open>
  \<open>synced m n ds j c\<close>: the cache holds what the snapshot \<open>m\<close> and the first \<open>j\<close> of the deltas \<open>ds\<close>,
  which are numbered from \<open>n + 1\<close>, amount to, and the snapshot is not newer than \<open>n\<close>.
\<close>

definition synced ::
  "(u64 \<Rightarrow> wire_instrument option) \<Rightarrow> u64 \<Rightarrow> delta_msg list \<Rightarrow> nat \<Rightarrow> inst_cache \<Rightarrow> bool" where
  "synced m n ds j c \<longleftrightarrow>
     j \<le> length ds \<and> snapshot_received c \<and> snapshot_seq_num c \<le> n \<and>
     last_delta_seq c = (if j = 0 then 0 else n + of_nat j) \<and>
     (\<forall>k. ic_get k c = map_option from_wire (fold mirror (take j ds) m k))"

definition reset_seen :: "client \<Rightarrow> bool" where
  "reset_seen c \<longleftrightarrow> \<not> snapshot_received (cl_cache c) \<and> ic_map (cl_cache c) = [] \<and>
     On_Gap_Detected \<in> set (cl_events c)"

lemma callback_simps [simp]:
  "cl_cache (callback e c) = cl_cache c" "cl_handler (callback e c) = cl_handler c"
  "cl_corr (callback e c) = cl_corr c"
  "cl_events (callback e c) = (if cl_handler c then cl_events c @ [e] else cl_events c)"
  by (simp_all add: callback_def)

lemma handle_delta_handler [simp]: "cl_handler (handle_delta d c) = cl_handler c"
  by (auto simp: handle_delta_def Let_def split_beta split: option.splits)

lemma seq_unat:
  assumes "unat n + length ds < 2 ^ 64" "i \<le> length ds"
  shows "unat (n + of_nat i :: u64) = unat n + i"
proof -
  have i: "i < 2 ^ 64" using assms by simp
  then have "unat (of_nat i :: u64) = i" by (simp add: unat_of_nat)
  then show ?thesis using assms unat_add_lem [of n "of_nat i :: u64"] by simp
qed

lemma map_take_Suc: "i < length ds \<Longrightarrow> fold mirror (take (Suc i) ds) m = mirror (ds ! i) (fold mirror (take i ds) m)"
  by (simp add: take_Suc_conv_app_nth)

lemma apply_next:
  assumes "synced m n ds j c" "numbered n ds" "unat n + length ds < 2 ^ 64" "j < length ds"
  shows "fst (apply_delta (ds ! j) c) \<and> synced m n ds (Suc j) (snd (apply_delta (ds ! j) c))"
proof -
  have seq: "dm_seq (ds ! j) = n + of_nat (Suc j)" using numbered_seq assms by blast
  have "unat (dm_seq (ds ! j)) = unat n + Suc j"
    unfolding seq using seq_unat [of n ds "Suc j"] assms by simp
  then have "n < dm_seq (ds ! j)" by (simp add: word_less_nat_alt)
  then have lt: "\<not> dm_seq (ds ! j) \<le> snapshot_seq_num c"
    using assms(1) by (auto simp: synced_def)
  have next': "j \<noteq> 0 \<Longrightarrow> dm_seq (ds ! j) = last_delta_seq c + 1"
    using assms(1) seq by (simp add: synced_def ac_simps)
  have le: "Suc j \<le> length ds" using assms(4) by simp
  show ?thesis
    using assms(1) lt seq [symmetric] next' map_take_Suc [OF assms(4), of m] le
    by (cases "j = 0"; cases "dm_update (ds ! j)")
      (simp_all add: apply_delta_def synced_def ic_get_def Let_def from_wire_def del: of_nat_Suc)
qed

lemma apply_other:
  assumes "synced m n ds j c" "numbered n ds" "unat n + length ds < 2 ^ 64" "i < length ds"
    and "j \<noteq> 0" "i \<noteq> j"
  shows "apply_delta (ds ! i) c = (False, c)"
proof -
  have seq: "dm_seq (ds ! i) = n + of_nat (Suc i)" using numbered_seq assms by blast
  have ui: "unat (dm_seq (ds ! i)) = unat n + Suc i"
    unfolding seq using seq_unat [of n ds "Suc i"] assms by simp
  have j: "j \<le> length ds" "last_delta_seq c = n + of_nat j" "snapshot_seq_num c \<le> n"
    using assms(1,5) by (simp_all add: synced_def)
  have uj: "unat (last_delta_seq c) = unat n + j"
    unfolding j(2) using seq_unat [OF assms(3) j(1)] .
  have "dm_seq (ds ! i) \<noteq> last_delta_seq c + 1"
  proof
    assume eq: "dm_seq (ds ! i) = last_delta_seq c + 1"
    have "dm_seq (ds ! i) \<noteq> 0" using ui by auto
    then have "unat (dm_seq (ds ! i) - 1) = unat n + i" using ui by (simp add: unat_dec)
    then show False using eq uj assms(6) by simp
  qed
  moreover have "n < dm_seq (ds ! i)" using ui by (simp add: word_less_nat_alt)
  then have "\<not> dm_seq (ds ! i) \<le> snapshot_seq_num c" using j(3) by auto
  moreover have "0 < last_delta_seq c" using uj assms(5) by (simp add: word_less_nat_alt)
  ultimately show ?thesis using j by (simp add: apply_delta_def Let_def)
qed

lemma handle_delta_cache:
  "snapshot_received (cl_cache c) \<Longrightarrow> fst (apply_delta d (cl_cache c)) \<Longrightarrow>
   cl_cache (handle_delta d c) = snd (apply_delta d (cl_cache c))"
  by (auto simp: handle_delta_def Let_def split_beta split: option.splits)

lemma handle_delta_refused:
  "snapshot_received (cl_cache c) \<Longrightarrow> apply_delta d (cl_cache c) = (False, cl_cache c) \<Longrightarrow>
   cl_handler c \<Longrightarrow> dm_update d \<noteq> DU_NULL \<Longrightarrow> reset_seen (handle_delta d c)"
  by (simp add: handle_delta_def reset_seen_def ic_reset_def)

lemma handle_delta_heartbeat_refused:
  "snapshot_received (cl_cache c) \<Longrightarrow> apply_delta d (cl_cache c) = (False, cl_cache c) \<Longrightarrow>
   dm_update d = DU_NULL \<Longrightarrow> cl_cache (handle_delta d c) = cl_cache c"
  by (simp add: handle_delta_def)

lemma reset_stays: "reset_seen c \<Longrightarrow> reset_seen (handle_delta d c)"
  by (simp add: reset_seen_def handle_delta_def)

lemma handle_any:
  assumes "synced m n ds j (cl_cache c)" "numbered n ds" "unat n + length ds < 2 ^ 64"
    and "i < length ds" "j \<noteq> 0 \<or> i = 0" "cl_handler c"
  shows "(\<exists>j'\<noteq>0. synced m n ds j' (cl_cache (handle_delta (ds ! i) c))) \<or> reset_seen (handle_delta (ds ! i) c)"
proof (cases "i = j")
  case True
  then have "synced m n ds (Suc j) (cl_cache (handle_delta (ds ! i) c))"
    using apply_next [OF assms(1-3), of] assms(1,4) by (simp add: handle_delta_cache synced_def)
  then show ?thesis by blast
next
  case False
  then have refused: "apply_delta (ds ! i) (cl_cache c) = (False, cl_cache c)"
    using apply_other [OF assms(1-4) _ False] assms(5) by auto
  have rec: "snapshot_received (cl_cache c)" using assms(1) by (simp add: synced_def)
  have "j \<noteq> 0" using False assms(5) by auto
  then show ?thesis
    using handle_delta_refused [OF rec refused assms(6)] assms(1)
      handle_delta_heartbeat_refused [OF rec refused] by (cases "dm_update (ds ! i) = DU_NULL") auto
qed

lemma handle_many:
  assumes "numbered n ds" "unat n + length ds < 2 ^ 64"
  shows "list_all (\<lambda>i. i < length ds) is' \<Longrightarrow> cl_handler c \<Longrightarrow>
    synced m n ds j (cl_cache c) \<Longrightarrow> j \<noteq> 0 \<or> is' = [] \<or> hd is' = 0 \<Longrightarrow>
    (\<exists>j'. synced m n ds j' (cl_cache (fold (\<lambda>i. handle_delta (ds ! i)) is' c))) \<or>
    reset_seen (fold (\<lambda>i. handle_delta (ds ! i)) is' c)"
proof (induction is' arbitrary: c j)
  case (Cons i is')
  have stay: "reset_seen (fold (\<lambda>i. handle_delta (ds ! i)) is' c')" if "reset_seen c'" for c'
    using that by (induction is' arbitrary: c') (simp_all add: reset_stays)
  have "(\<exists>j'\<noteq>0. synced m n ds j' (cl_cache (handle_delta (ds ! i) c))) \<or> reset_seen (handle_delta (ds ! i) c)"
    using handle_any [OF Cons.prems(3) assms, of i] Cons.prems by auto
  then show ?case using Cons.IH [of "handle_delta (ds ! i) c"] Cons.prems(1,2) stay by auto
qed auto

lemma after_snapshot:
  assumes "publish_snapshot now q r n = Some [Snapshot_Frame msg]" "rq_canonical q = []"
    "rq_instruments q = []" "reg_keyed r" "rq_corr q = cl_corr c" "n \<le> n'"
  shows "synced (wire_map r) n' ds 0 (cl_cache (handle_snapshot msg c))"
  using snapshot_is_registry [OF assms(1-4)] assms(5,6)
  by (simp add: handle_snapshot_def apply_snapshot_def synced_def ic_get_def)

lemma handle_snapshot_handler [simp]: "cl_handler (handle_snapshot msg c) = cl_handler c"
  by (simp add: handle_snapshot_def)

lemma delivered_indices:
  assumes "set del \<subseteq> set ds" "del = [] \<or> hd del = hd ds"
  obtains is' where "del = map ((!) ds) is'" "list_all (\<lambda>i. i < length ds) is'" "is' = [] \<or> hd is' = 0"
proof (cases del)
  case (Cons d del')
  have "\<exists>js. del' = map ((!) ds) js \<and> list_all (\<lambda>i. i < length ds) js"
    using assms(1) unfolding Cons
    by (induction del') (auto simp: in_set_conv_nth intro: exI [of _ "_ # _"])
  then obtain js where "del' = map ((!) ds) js" "list_all (\<lambda>i. i < length ds) js" by blast
  moreover have "ds \<noteq> []" "d = hd ds" using assms Cons by auto
  ultimately show ?thesis using Cons by (intro that [of "0 # js"]) (auto simp: hd_conv_nth)
qed (use that [of "[]"] in simp)


text \<open>A fragment of the other streams, or a snapshot for another client, leaves the cache alone.\<close>

fun foreign :: "u64 \<Rightarrow> fragment \<Rightarrow> bool" where
  "foreign corr (Frag_Snapshot msg) = (snap_corr msg \<noteq> corr)"
| "foreign corr (Frag_Delta d) = True"
| "foreign corr _ = True"

fun frag_deltas :: "fragment list \<Rightarrow> delta_msg list" where
  "frag_deltas [] = []"
| "frag_deltas (Frag_Delta d # fs) = d # frag_deltas fs"
| "frag_deltas (_ # fs) = frag_deltas fs"

lemma handle_delta_corr [simp]: "cl_corr (handle_delta d c) = cl_corr c"
  by (auto simp: handle_delta_def Let_def split_beta split: option.splits)

lemma cl_step_corr [simp]: "cl_corr (cl_step f c) = cl_corr c"
  by (cases f) (auto simp: handle_snapshot_def handle_fee_def handle_funding_def handle_status_def)

lemma foreign_cache:
  "foreign (cl_corr c) f \<Longrightarrow> frag_deltas [f] = [] \<Longrightarrow> cl_cache (cl_step f c) = cl_cache c"
  by (cases f) (auto simp: handle_snapshot_def handle_fee_def handle_funding_def handle_status_def)

lemma delta_synced:
  assumes "synced m n ds j (cl_cache c)" "numbered n ds" "unat n + length ds < 2 ^ 64" "j < length ds"
  shows "synced m n ds (Suc j) (cl_cache (handle_delta (ds ! j) c))"
proof -
  have "snapshot_received (cl_cache c)" using assms(1) by (simp add: synced_def)
  then show ?thesis using apply_next [OF assms] handle_delta_cache [of c "ds ! j"] by simp
qed

lemma run_synced:
  assumes "numbered n ds" "unat n + length ds < 2 ^ 64"
  shows "synced m n ds j (cl_cache c) \<Longrightarrow> list_all (foreign (cl_corr c)) frags \<Longrightarrow>
    frag_deltas frags = drop j ds \<Longrightarrow> synced m n ds (length ds) (cl_cache (fold cl_step frags c))"
proof (induction frags arbitrary: c j)
  case Nil
  then show ?case by (simp add: synced_def)
next
  case (Cons f frags)
  show ?case
  proof (cases "\<exists>d. f = Frag_Delta d")
    case True
    then obtain d where f: "f = Frag_Delta d" by blast
    have j: "j < length ds" using Cons.prems(3) f by (cases "j < length ds") simp_all
    then have d: "d = ds ! j" "frag_deltas frags = drop (Suc j) ds"
      using Cons.prems(3) f by (simp_all add: Cons_nth_drop_Suc [symmetric])
    show ?thesis
      using Cons.IH [of "Suc j" "handle_delta d c"] delta_synced [OF Cons.prems(1) assms j] Cons.prems(2) d f
      by simp
  next
    case False
    then have "frag_deltas [f] = []" "frag_deltas (f # frags) = frag_deltas frags"
      by (cases f; simp)+
    then show ?thesis
      using Cons.IH [of j "cl_step f c"] foreign_cache [of c f] Cons.prems by simp
  qed
qed


text \<open>
  A delta lost right after the snapshot is never noticed. When the first delta
  after the snapshot does not arrive and all later ones do, the cache accepts every one of them
  and counts as complete, but the lost delta has no effect on it.
\<close>

theorem rd_first_loss_silent:
  assumes "sv_run es s = Some (s', fs)" "reg_keyed (sv_registry s)"
    and "publish_snapshot now q (sv_registry s) (sv_seq s) = Some [Snapshot_Frame msg]"
    and "rq_canonical q = []" "rq_instruments q = []" "rq_corr q = cl_corr c"
    and "unat (sv_seq s) + length (deltas fs) < 2 ^ 64"
    and "deltas fs = lost # rest" "frag_deltas frags = rest" "list_all (foreign (cl_corr c)) frags"
    and "c' = fold cl_step (Frag_Snapshot msg # frags) c"
  shows "snapshot_received (cl_cache c') \<and>
         ic_get k (cl_cache c') = map_option from_wire (fold mirror rest (wire_map (sv_registry s)) k)"
proof -
  let ?n = "sv_seq s + 1"
  have num: "numbered ?n rest"
    using sv_run_explains [OF assms(1,2)] by (simp add: explains_def assms(8))
  have un: "unat ?n = unat (sv_seq s) + 1"
    using assms(7,8) by (simp add: unat_inc)
  have sync: "synced (wire_map (sv_registry s)) ?n rest 0 (cl_cache (handle_snapshot msg c))"
    by (rule after_snapshot) (use assms un in \<open>auto simp: word_le_nat_alt\<close>)
  have corr: "cl_corr (handle_snapshot msg c) = cl_corr c"
    using cl_step_corr [of "Frag_Snapshot msg" c] by simp
  have "synced (wire_map (sv_registry s)) ?n rest (length rest)
      (cl_cache (fold cl_step frags (handle_snapshot msg c)))"
    by (rule run_synced [OF num _ sync]) (use assms un corr in simp_all)
  then show ?thesis by (simp add: synced_def assms(11))
qed

text \<open>
  Nothing refills the cache after a gap. Once the client has found a gap, it
  knows no instrument as long as no snapshot for its own correlation id arrives. It sends no
  request itself, and the periodic snapshots of the service carry the correlation id 0.
\<close>

theorem rd_gap_is_permanent:
  assumes "snapshot_received (cl_cache c)" "dm_update d \<noteq> DU_NULL"
    and "\<not> fst (apply_delta d (cl_cache c))"
    and "list_all (foreign (cl_corr c)) frags"
  shows "ic_get k (cl_cache (fold cl_step frags (handle_delta d c))) = None"
proof -
  have keep: "\<not> snapshot_received (cl_cache (fold cl_step frags c)) \<and> ic_map (cl_cache (fold cl_step frags c)) = []"
    if "\<not> snapshot_received (cl_cache c)" "ic_map (cl_cache c) = []" "list_all (foreign (cl_corr c)) frags"
    for c
    using that
  proof (induction frags arbitrary: c)
    case (Cons f frags)
    have "cl_cache (cl_step f c) = cl_cache c"
      using Cons.prems by (cases f) (auto simp: handle_snapshot_def handle_delta_def handle_fee_def
          handle_funding_def handle_status_def)
    then show ?case using Cons.IH [of "cl_step f c"] Cons.prems by simp
  qed simp
  have "\<not> snapshot_received (cl_cache (handle_delta d c))" "ic_map (cl_cache (handle_delta d c)) = []"
    using assms(1-3) by (simp_all add: handle_delta_def ic_reset_def split_beta)
  then show ?thesis using keep [of "handle_delta d c"] assms(4) by (simp add: ic_get_def)
qed

subsection \<open>A run with every case\<close>

definition demo_client :: client where
  "demo_client = fst (cl_subscribe 9 (set_handler (cl_init 1000)))"

definition demo_request :: refdata_request where
  "demo_request = snd (cl_subscribe 9 (set_handler (cl_init 1000)))"

definition demo_snapshot :: snapshot_msg where
  "demo_snapshot = \<lparr> snap_corr = 9, snap_seq = 41, snap_ts = 0, snap_insts = [to_wire btc_perp] \<rparr>"

definition demo_script :: "(u64 \<times> sv_event) list" where
  "demo_script = [(1, Sv_Listing [Some [halted_perp]]), (2, Sv_Heartbeat)]"

definition halt_delta :: delta_msg where
  "halt_delta = \<lparr> dm_seq = 42, dm_ts = 1, dm_update = DU_MODIFY, dm_inst = to_wire halted_perp \<rparr>"

definition beat_delta :: delta_msg where
  "beat_delta = \<lparr> dm_seq = 43, dm_ts = 2, dm_update = DU_NULL, dm_inst = zero_block \<rparr>"

definition demo_end :: service where
  "demo_end = \<lparr> sv_registry = \<lparr> by_uid = [(7, halted_perp)], by_symbol = by_symbol (sv_registry sv_init) \<rparr>,
     sv_seq = 43, sv_subs = [] \<rparr>"

lemma demo_run:
  "sv_run demo_script sv_init = Some (demo_end, [Delta_Frame halt_delta, Delta_Frame beat_delta])"
  by (simp add: demo_script_def sv_init_def publish_heartbeat_def fetch_listing_def fetch_call_def
      notify_def reg_update_if_changed_def reg_add_def reg_empty_def publish_delta_def
      perp_facts demo_end_def halt_delta_def beat_delta_def)

lemma demo_publish:
  "publish_snapshot 0 demo_request (sv_registry sv_init) (sv_seq sv_init) = Some [Snapshot_Frame demo_snapshot]"
  by (simp add: publish_snapshot_def sv_init_def reg_add_def reg_empty_def reg_all_def req_matches_def
      demo_request_def cl_subscribe_def demo_snapshot_def)

lemma demo_facts:
  "reg_keyed (sv_registry sv_init)" "rq_canonical demo_request = []" "rq_instruments demo_request = []"
  "rq_corr demo_request = cl_corr demo_client" "cl_handler demo_client" "sv_seq sv_init = 41"
  "cl_corr demo_client = 9"
  by (simp_all add: sv_init_def reg_keyed_add demo_request_def demo_client_def cl_subscribe_def set_handler_def)

lemma status_of_wire: "i_status (from_wire (to_wire r)) = from_sbe_status (to_sbe_status (ri_status r))"
  by (simp add: from_wire_def to_wire_def)

lemma halt_fields:
  "dm_seq halt_delta = 42" "dm_update halt_delta = DU_MODIFY" "dm_inst halt_delta = to_wire halted_perp"
  by (simp_all add: halt_delta_def)

lemma beat_fields: "dm_update beat_delta = DU_NULL"
  by (simp add: beat_delta_def)

definition demo_client1 :: client where
  "demo_client1 = handle_snapshot demo_snapshot demo_client"

definition demo_client2 :: client where
  "demo_client2 = handle_delta halt_delta demo_client1"

lemma demo_cache1:
  "cl_cache demo_client1 =
     \<lparr> ic_map = [(7, from_wire (to_wire btc_perp))], snapshot_received = True,
       snapshot_seq_num = 41, last_delta_seq = 0 \<rparr>"
  by (simp add: demo_client1_def handle_snapshot_def demo_facts demo_snapshot_def apply_snapshot_def
      insert_all_def emplace_def perp_facts)

lemma demo_cache2:
  "cl_cache demo_client2 =
     \<lparr> ic_map = [(7, from_wire (to_wire halted_perp))], snapshot_received = True,
       snapshot_seq_num = 41, last_delta_seq = 42 \<rparr>"
  unfolding demo_client2_def
  by (subst handle_delta_cache) (simp_all add: demo_cache1 apply_delta_def halt_fields perp_facts)

lemma demo_refused: "apply_delta halt_delta (cl_cache demo_client2) = (False, cl_cache demo_client2)"
  by (simp add: demo_cache2 apply_delta_def halt_fields)

lemma demo_prefixes:
  "fold mirror (take j [halt_delta, beat_delta]) (wire_map (sv_registry sv_init)) 7 \<noteq> None"
  by (simp add: take_Cons halt_fields beat_fields wire_map_def sv_init_def reg_add_def
      reg_empty_def perp_facts split: nat.split)



theorem rd_first_loss_silent_witness:
  "map_option i_status (ic_get 7 (cl_cache (fold cl_step
     [Frag_Snapshot demo_snapshot, Frag_Delta beat_delta] demo_client))) = Some ACTIVE \<and>
   map_option ri_status (reg_get 7 (sv_registry demo_end)) = Some RS_HALTED"
  using rd_first_loss_silent [OF demo_run demo_facts(1) demo_publish demo_facts(2-4) _ _ _ _ refl,
      of halt_delta "[beat_delta]" "[Frag_Delta beat_delta]" 7]
  by (simp add: demo_facts(6) demo_end_def reg_get_def status_of_wire perp_facts wire_map_def
      sv_init_def reg_add_def reg_empty_def beat_delta_def)

theorem rd_gap_is_permanent_witness:
  "ic_get 7 (cl_cache (fold cl_step [Frag_Delta beat_delta, Frag_Snapshot (demo_snapshot\<lparr>snap_corr := 0\<rparr>)]
     (handle_delta halt_delta demo_client2))) = None"
proof (rule rd_gap_is_permanent)
  show "snapshot_received (cl_cache demo_client2)" by (simp add: demo_cache2)
  show "dm_update halt_delta \<noteq> DU_NULL" by (simp add: halt_fields)
  show "\<not> fst (apply_delta halt_delta (cl_cache demo_client2))" using demo_refused by simp
  have "cl_corr demo_client2 = 9"
    using cl_step_corr [of "Frag_Snapshot demo_snapshot" demo_client]
    by (simp add: demo_client2_def demo_client1_def demo_facts)
  then show "list_all (foreign (cl_corr demo_client2))
      [Frag_Delta beat_delta, Frag_Snapshot (demo_snapshot\<lparr>snap_corr := 0\<rparr>)]" by simp
qed

end
