(* ===== verification/Sbe_Memory.thy ===== *)
theory Sbe_Memory
  imports Refdata_Wire "HOL-Library.Monad_Syntax"
begin

text \<open>
  The byte level of the SBE messages: a buffer is the memory a \<open>char*\<close> points to, a function from
  the offset to the byte, so an encoder works on whatever the buffer held before. Integers are
  little-endian (\<open>SBE_LITTLE_ENDIAN_ENCODE_64\<close> on any host), the enumerations one byte. A getter
  of an enumeration throws on an unknown byte, here \<open>None\<close>.
\<close>

named_theorems sbe \<open>definitions of the accessors\<close>

type_synonym memory = "nat \<Rightarrow> u8"

fun le_bytes :: "nat \<Rightarrow> nat \<Rightarrow> u8 list" where
  "le_bytes 0 x = []"
| "le_bytes (Suc n) x = of_nat (x mod 256) # le_bytes n (x div 256)"

fun le_value :: "u8 list \<Rightarrow> nat" where
  "le_value [] = 0"
| "le_value (b # bs) = unat b + 256 * le_value bs"

definition put_bytes :: "nat \<Rightarrow> u8 list \<Rightarrow> memory \<Rightarrow> memory" where
  "put_bytes off bs m = (\<lambda>i. if off \<le> i \<and> i < off + length bs then bs ! (i - off) else m i)"

definition get_bytes :: "nat \<Rightarrow> nat \<Rightarrow> memory \<Rightarrow> u8 list" where
  "get_bytes off n m = map m [off..<off + n]"

definition put_u64 :: "nat \<Rightarrow> u64 \<Rightarrow> memory \<Rightarrow> memory" where
  "put_u64 off v m = put_bytes off (le_bytes 8 (unat v)) m"

definition get_u64 :: "nat \<Rightarrow> memory \<Rightarrow> u64" where
  "get_u64 off m = of_nat (le_value (get_bytes off 8 m))"

definition put_u16 :: "nat \<Rightarrow> u16 \<Rightarrow> memory \<Rightarrow> memory" where
  "put_u16 off v m = put_bytes off (le_bytes 2 (unat v)) m"

definition get_u16 :: "nat \<Rightarrow> memory \<Rightarrow> u16" where
  "get_u16 off m = of_nat (le_value (get_bytes off 2 m))"

definition put_u8 :: "nat \<Rightarrow> u8 \<Rightarrow> memory \<Rightarrow> memory" where
  "put_u8 off v m = put_bytes off [v] m"

definition get_u8 :: "nat \<Rightarrow> memory \<Rightarrow> u8" where
  "get_u8 off m = m off"

definition put_chars :: "nat \<Rightarrow> string \<Rightarrow> memory \<Rightarrow> memory" where
  "put_chars off s m = put_bytes off (map (\<lambda>c. of_nat (of_char c)) s) m"

definition get_chars :: "nat \<Rightarrow> nat \<Rightarrow> memory \<Rightarrow> string" where
  "get_chars off n m = map (\<lambda>b. char_of (unat b)) (get_bytes off n m)"

subsection \<open>Reading back what was written\<close>

lemma length_le_bytes [simp]: "length (le_bytes n x) = n"
  by (induction n arbitrary: x) simp_all

lemma le_value_bytes: "le_value (le_bytes n x) = x mod 256 ^ n"
proof (induction n arbitrary: x)
  case (Suc n)
  have "unat (of_nat (x mod 256) :: u8) = x mod 256" by (simp add: unat_of_nat)
  then show ?case using Suc by (simp add: mod_mult2_eq mult.commute)
qed simp

lemma get_put_same [simp]: "n = length bs \<Longrightarrow> get_bytes off n (put_bytes off bs m) = bs"
  by (rule nth_equalityI) (simp_all add: get_bytes_def put_bytes_def)

lemma get_put_other [simp]:
  "off + n \<le> off' \<or> off' + length bs \<le> off \<Longrightarrow> get_bytes off n (put_bytes off' bs m) = get_bytes off n m"
  by (auto simp: get_bytes_def put_bytes_def)

lemma get_u8_bytes: "get_u8 off m = hd (get_bytes off 1 m)"
  by (simp add: get_u8_def get_bytes_def)

lemma u64_read_back [simp]: "get_u64 off (put_u64 off v m) = v"
  using unsigned_less [of v, where 'a = nat] by (simp add: get_u64_def put_u64_def le_value_bytes)

lemma u16_read_back [simp]: "get_u16 off (put_u16 off v m) = v"
  using unsigned_less [of v, where 'a = nat] by (simp add: get_u16_def put_u16_def le_value_bytes)

lemma u8_read_back [simp]: "get_u8 off (put_u8 off v m) = v"
  by (simp add: get_u8_bytes put_u8_def)

lemma byte_of_char [simp]: "char_of (unat (of_nat (of_char c) :: u8)) = c"
  by (simp add: unat_of_nat char_of_mod_256)

lemma chars_read_back [simp]: "n = length s \<Longrightarrow> get_chars off n (put_chars off s m) = s"
  by (simp add: get_chars_def put_chars_def comp_def)

lemma get_u64_skip [simp]:
  "off + 8 \<le> off' \<or> off' + 8 \<le> off \<Longrightarrow> get_u64 off (put_u64 off' v m) = get_u64 off m"
  "off + 8 \<le> off' \<or> off' + 2 \<le> off \<Longrightarrow> get_u64 off (put_u16 off' w m) = get_u64 off m"
  "off + 8 \<le> off' \<or> off' + 1 \<le> off \<Longrightarrow> get_u64 off (put_u8 off' b m) = get_u64 off m"
  "off + 8 \<le> off' \<or> off' + length s \<le> off \<Longrightarrow> get_u64 off (put_chars off' s m) = get_u64 off m"
  by (simp_all add: get_u64_def put_u64_def put_u16_def put_u8_def put_chars_def)

lemma get_u16_skip [simp]:
  "off + 2 \<le> off' \<or> off' + 8 \<le> off \<Longrightarrow> get_u16 off (put_u64 off' v m) = get_u16 off m"
  "off + 2 \<le> off' \<or> off' + 2 \<le> off \<Longrightarrow> get_u16 off (put_u16 off' w m) = get_u16 off m"
  "off + 2 \<le> off' \<or> off' + 1 \<le> off \<Longrightarrow> get_u16 off (put_u8 off' b m) = get_u16 off m"
  "off + 2 \<le> off' \<or> off' + length s \<le> off \<Longrightarrow> get_u16 off (put_chars off' s m) = get_u16 off m"
  by (simp_all add: get_u16_def put_u64_def put_u16_def put_u8_def put_chars_def)

lemma get_u8_skip [simp]:
  "off + 1 \<le> off' \<or> off' + 8 \<le> off \<Longrightarrow> get_u8 off (put_u64 off' v m) = get_u8 off m"
  "off + 1 \<le> off' \<or> off' + 2 \<le> off \<Longrightarrow> get_u8 off (put_u16 off' w m) = get_u8 off m"
  "off + 1 \<le> off' \<or> off' + 1 \<le> off \<Longrightarrow> get_u8 off (put_u8 off' b m) = get_u8 off m"
  "off + 1 \<le> off' \<or> off' + length s \<le> off \<Longrightarrow> get_u8 off (put_chars off' s m) = get_u8 off m"
  by (simp_all add: get_u8_bytes put_u64_def put_u16_def put_u8_def put_chars_def)

lemma get_chars_skip [simp]:
  "off + n \<le> off' \<or> off' + 8 \<le> off \<Longrightarrow> get_chars off n (put_u64 off' v m) = get_chars off n m"
  "off + n \<le> off' \<or> off' + 2 \<le> off \<Longrightarrow> get_chars off n (put_u16 off' w m) = get_chars off n m"
  "off + n \<le> off' \<or> off' + 1 \<le> off \<Longrightarrow> get_chars off n (put_u8 off' b m) = get_chars off n m"
  "off + n \<le> off' \<or> off' + length s \<le> off \<Longrightarrow> get_chars off n (put_chars off' s m) = get_chars off n m"
  by (simp_all add: get_chars_def put_u64_def put_u16_def put_u8_def put_chars_def)

subsection \<open>Enumerations on the wire\<close>

definition ExchangeId_value :: "exchange_id \<Rightarrow> u8" where
  "ExchangeId_value x = of_nat (exchange_value x)"

definition ExchangeId_get :: "u8 \<Rightarrow> exchange_id option" where
  "ExchangeId_get b = find (\<lambda>x. ExchangeId_value x = b) [EX_ALL, EX_BINANCE, EX_OKX, EX_HYPERLIQUID, EX_DERIBIT, EX_NULL]"

fun OrderSide_value :: "order_side \<Rightarrow> u8" where
  "OrderSide_value BUY = 0" | "OrderSide_value SELL = 1" | "OrderSide_value SIDE_NULL = 255"

definition OrderSide_get :: "u8 \<Rightarrow> order_side option" where
  "OrderSide_get b = find (\<lambda>x. OrderSide_value x = b) [BUY, SELL, SIDE_NULL]"

fun OrderType_value :: "order_type \<Rightarrow> u8" where
  "OrderType_value OT_MARKET = 0" | "OrderType_value OT_LIMIT = 1" | "OrderType_value OT_NULL = 255"

definition OrderType_get :: "u8 \<Rightarrow> order_type option" where
  "OrderType_get b = find (\<lambda>x. OrderType_value x = b) [OT_MARKET, OT_LIMIT, OT_NULL]"

fun TimeInForce_value :: "time_in_force \<Rightarrow> u8" where
  "TimeInForce_value GTC = 0" | "TimeInForce_value IOC = 1" | "TimeInForce_value FOK = 2"
| "TimeInForce_value TIF_NULL = 255"

definition TimeInForce_get :: "u8 \<Rightarrow> time_in_force option" where
  "TimeInForce_get b = find (\<lambda>x. TimeInForce_value x = b) [GTC, IOC, FOK, TIF_NULL]"

fun ExecStatus_value :: "exec_status \<Rightarrow> u8" where
  "ExecStatus_value ES_ACKED = 0" | "ExecStatus_value ES_FILLED = 1" | "ExecStatus_value ES_PARTIAL = 2"
| "ExecStatus_value ES_REJECTED = 3" | "ExecStatus_value ES_CANCELLED = 4" | "ExecStatus_value ES_NULL = 255"

definition ExecStatus_get :: "u8 \<Rightarrow> exec_status option" where
  "ExecStatus_get b = find (\<lambda>x. ExecStatus_value x = b)
     [ES_ACKED, ES_FILLED, ES_PARTIAL, ES_REJECTED, ES_CANCELLED, ES_NULL]"

fun RejectReason_value :: "reject_reason \<Rightarrow> u8" where
  "RejectReason_value RR_OK = 0" | "RejectReason_value RR_INVALID_PRICE = 1"
| "RejectReason_value RR_INVALID_QTY = 2" | "RejectReason_value RR_INSUFFICIENT_BALANCE = 3"
| "RejectReason_value RR_RATE_LIMITED = 4" | "RejectReason_value RR_EXCHANGE_ERROR = 5"
| "RejectReason_value RR_RISK_REJECTED = 6" | "RejectReason_value RR_DUPLICATE_ORDER_ID = 7"
| "RejectReason_value RR_NULL = 255"

definition RejectReason_get :: "u8 \<Rightarrow> reject_reason option" where
  "RejectReason_get b = find (\<lambda>x. RejectReason_value x = b)
     [RR_OK, RR_INVALID_PRICE, RR_INVALID_QTY, RR_INSUFFICIENT_BALANCE, RR_RATE_LIMITED,
      RR_EXCHANGE_ERROR, RR_RISK_REJECTED, RR_DUPLICATE_ORDER_ID, RR_NULL]"

lemma ExchangeId_read_back [simp]: "ExchangeId_get (ExchangeId_value x) = Some x"
  by (cases x) (simp_all add: ExchangeId_get_def ExchangeId_value_def)

lemma OrderSide_read_back [simp]: "OrderSide_get (OrderSide_value x) = Some x"
  by (cases x) (simp_all add: OrderSide_get_def)

lemma OrderType_read_back [simp]: "OrderType_get (OrderType_value x) = Some x"
  by (cases x) (simp_all add: OrderType_get_def)

lemma TimeInForce_read_back [simp]: "TimeInForce_get (TimeInForce_value x) = Some x"
  by (cases x) (simp_all add: TimeInForce_get_def)

lemma ExecStatus_read_back [simp]: "ExecStatus_get (ExecStatus_value x) = Some x"
  by (cases x) (simp_all add: ExecStatus_get_def)

lemma RejectReason_read_back [simp]: "RejectReason_get (RejectReason_value x) = Some x"
  by (cases x) (simp_all add: RejectReason_get_def)

subsection \<open>The message header\<close>

definition hdr_blockLength :: "memory \<Rightarrow> u16" where [sbe]: "hdr_blockLength m = get_u16 0 m"
definition hdr_set_blockLength :: "u16 \<Rightarrow> memory \<Rightarrow> memory" where [sbe]: "hdr_set_blockLength v m = put_u16 0 v m"
definition hdr_templateId :: "memory \<Rightarrow> u16" where [sbe]: "hdr_templateId m = get_u16 2 m"
definition hdr_set_templateId :: "u16 \<Rightarrow> memory \<Rightarrow> memory" where [sbe]: "hdr_set_templateId v m = put_u16 2 v m"
definition hdr_schemaId :: "memory \<Rightarrow> u16" where [sbe]: "hdr_schemaId m = get_u16 4 m"
definition hdr_set_schemaId :: "u16 \<Rightarrow> memory \<Rightarrow> memory" where [sbe]: "hdr_set_schemaId v m = put_u16 4 v m"
definition hdr_version :: "memory \<Rightarrow> u16" where [sbe]: "hdr_version m = get_u16 6 m"
definition hdr_set_version :: "u16 \<Rightarrow> memory \<Rightarrow> memory" where [sbe]: "hdr_set_version v m = put_u16 6 v m"

definition SBE_SCHEMA_ID :: u16 where "SBE_SCHEMA_ID = 1"
definition SBE_SCHEMA_VERSION :: u16 where "SBE_SCHEMA_VERSION = 14"

text \<open>\<open>wrapAndApplyHeader\<close> at offset 0: \<open>None\<close> if the buffer is too short.\<close>

definition wrapAndApplyHeader :: "u16 \<Rightarrow> u16 \<Rightarrow> nat \<Rightarrow> memory \<Rightarrow> memory option" where
  "wrapAndApplyHeader block template bufferLength m =
     (let m = hdr_set_version SBE_SCHEMA_VERSION (hdr_set_schemaId SBE_SCHEMA_ID
               (hdr_set_templateId template (hdr_set_blockLength block m)))
      in if bufferLength < 8 + unat block then None else Some m)"

text \<open>\<open>wrapForDecode\<close> behind the header: whether the position check passes.\<close>

definition wrapForDecode :: "u16 \<Rightarrow> nat \<Rightarrow> bool" where
  "wrapForDecode actingBlockLength bufferLength \<longleftrightarrow> 8 + unat actingBlockLength \<le> bufferLength"

end
