(* ===== verification/Order_Accessors.thy ===== *)
theory Order_Accessors
  imports Sbe_Memory
begin

text \<open>
  The generated accessors (\<open>messages/generated/cpp/messages\<close>) of the six messages between a strategy
  and the order gateway, at the offsets of the schema behind the eight bytes of the header. The
  array setters throw on a text longer than the array; the callers below check the length first.
\<close>

subsection \<open>\<open>NewOrder.h\<close>\<close>

definition NewOrder_BLOCK_LENGTH :: u16 where [sbe]: "NewOrder_BLOCK_LENGTH = 77"

definition NewOrder_TEMPLATE_ID :: u16 where [sbe]: "NewOrder_TEMPLATE_ID = 10"

definition NewOrder_orderId :: "memory \<Rightarrow> u64" where
  [sbe]: "NewOrder_orderId m = get_u64 (8 + 0) m"

definition NewOrder_set_orderId :: "u64 \<Rightarrow> memory \<Rightarrow> memory" where
  [sbe]: "NewOrder_set_orderId v m = put_u64 (8 + 0) v m"

definition NewOrder_exchangeId :: "memory \<Rightarrow> exchange_id option" where
  [sbe]: "NewOrder_exchangeId m = ExchangeId_get (get_u8 (8 + 8) m)"

definition NewOrder_set_exchangeId :: "exchange_id \<Rightarrow> memory \<Rightarrow> memory" where
  [sbe]: "NewOrder_set_exchangeId v m = put_u8 (8 + 8) (ExchangeId_value v) m"

definition NewOrder_instrumentId :: "memory \<Rightarrow> u64" where
  [sbe]: "NewOrder_instrumentId m = get_u64 (8 + 9) m"

definition NewOrder_set_instrumentId :: "u64 \<Rightarrow> memory \<Rightarrow> memory" where
  [sbe]: "NewOrder_set_instrumentId v m = put_u64 (8 + 9) v m"

definition NewOrder_side :: "memory \<Rightarrow> order_side option" where
  [sbe]: "NewOrder_side m = OrderSide_get (get_u8 (8 + 17) m)"

definition NewOrder_set_side :: "order_side \<Rightarrow> memory \<Rightarrow> memory" where
  [sbe]: "NewOrder_set_side v m = put_u8 (8 + 17) (OrderSide_value v) m"

definition NewOrder_orderType :: "memory \<Rightarrow> order_type option" where
  [sbe]: "NewOrder_orderType m = OrderType_get (get_u8 (8 + 18) m)"

definition NewOrder_set_orderType :: "order_type \<Rightarrow> memory \<Rightarrow> memory" where
  [sbe]: "NewOrder_set_orderType v m = put_u8 (8 + 18) (OrderType_value v) m"

definition NewOrder_timeInForce :: "memory \<Rightarrow> time_in_force option" where
  [sbe]: "NewOrder_timeInForce m = TimeInForce_get (get_u8 (8 + 19) m)"

definition NewOrder_set_timeInForce :: "time_in_force \<Rightarrow> memory \<Rightarrow> memory" where
  [sbe]: "NewOrder_set_timeInForce v m = put_u8 (8 + 19) (TimeInForce_value v) m"

definition NewOrder_price :: "memory \<Rightarrow> i64" where
  [sbe]: "NewOrder_price m = get_u64 (8 + 20) m"

definition NewOrder_set_price :: "i64 \<Rightarrow> memory \<Rightarrow> memory" where
  [sbe]: "NewOrder_set_price v m = put_u64 (8 + 20) v m"

definition NewOrder_quantity :: "memory \<Rightarrow> u64" where
  [sbe]: "NewOrder_quantity m = get_u64 (8 + 28) m"

definition NewOrder_set_quantity :: "u64 \<Rightarrow> memory \<Rightarrow> memory" where
  [sbe]: "NewOrder_set_quantity v m = put_u64 (8 + 28) v m"

definition NewOrder_timestampNs :: "memory \<Rightarrow> u64" where
  [sbe]: "NewOrder_timestampNs m = get_u64 (8 + 36) m"

definition NewOrder_set_timestampNs :: "u64 \<Rightarrow> memory \<Rightarrow> memory" where
  [sbe]: "NewOrder_set_timestampNs v m = put_u64 (8 + 36) v m"

definition NewOrder_exchangeSymbol :: "memory \<Rightarrow> string" where
  [sbe]: "NewOrder_exchangeSymbol m = get_str 32 (get_chars (8 + 44) 32 m)"

definition NewOrder_set_exchangeSymbol :: "string \<Rightarrow> memory \<Rightarrow> memory" where
  [sbe]: "NewOrder_set_exchangeSymbol v m = put_chars (8 + 44) (put_str 32 v) m"

definition NewOrder_execInst :: "memory \<Rightarrow> u8" where
  [sbe]: "NewOrder_execInst m = get_u8 (8 + 76) m"

definition NewOrder_set_execInst :: "u8 \<Rightarrow> memory \<Rightarrow> memory" where
  [sbe]: "NewOrder_set_execInst v m = put_u8 (8 + 76) v m"

subsection \<open>\<open>CancelOrder.h\<close>\<close>

definition CancelOrder_BLOCK_LENGTH :: u16 where [sbe]: "CancelOrder_BLOCK_LENGTH = 25"

definition CancelOrder_TEMPLATE_ID :: u16 where [sbe]: "CancelOrder_TEMPLATE_ID = 11"

definition CancelOrder_orderId :: "memory \<Rightarrow> u64" where
  [sbe]: "CancelOrder_orderId m = get_u64 (8 + 0) m"

definition CancelOrder_set_orderId :: "u64 \<Rightarrow> memory \<Rightarrow> memory" where
  [sbe]: "CancelOrder_set_orderId v m = put_u64 (8 + 0) v m"

definition CancelOrder_exchangeId :: "memory \<Rightarrow> exchange_id option" where
  [sbe]: "CancelOrder_exchangeId m = ExchangeId_get (get_u8 (8 + 8) m)"

definition CancelOrder_set_exchangeId :: "exchange_id \<Rightarrow> memory \<Rightarrow> memory" where
  [sbe]: "CancelOrder_set_exchangeId v m = put_u8 (8 + 8) (ExchangeId_value v) m"

definition CancelOrder_instrumentId :: "memory \<Rightarrow> u64" where
  [sbe]: "CancelOrder_instrumentId m = get_u64 (8 + 9) m"

definition CancelOrder_set_instrumentId :: "u64 \<Rightarrow> memory \<Rightarrow> memory" where
  [sbe]: "CancelOrder_set_instrumentId v m = put_u64 (8 + 9) v m"

definition CancelOrder_timestampNs :: "memory \<Rightarrow> u64" where
  [sbe]: "CancelOrder_timestampNs m = get_u64 (8 + 17) m"

definition CancelOrder_set_timestampNs :: "u64 \<Rightarrow> memory \<Rightarrow> memory" where
  [sbe]: "CancelOrder_set_timestampNs v m = put_u64 (8 + 17) v m"

subsection \<open>\<open>CancelAll.h\<close>\<close>

definition CancelAll_BLOCK_LENGTH :: u16 where [sbe]: "CancelAll_BLOCK_LENGTH = 17"

definition CancelAll_TEMPLATE_ID :: u16 where [sbe]: "CancelAll_TEMPLATE_ID = 12"

definition CancelAll_exchangeId :: "memory \<Rightarrow> exchange_id option" where
  [sbe]: "CancelAll_exchangeId m = ExchangeId_get (get_u8 (8 + 0) m)"

definition CancelAll_set_exchangeId :: "exchange_id \<Rightarrow> memory \<Rightarrow> memory" where
  [sbe]: "CancelAll_set_exchangeId v m = put_u8 (8 + 0) (ExchangeId_value v) m"

definition CancelAll_instrumentId :: "memory \<Rightarrow> u64" where
  [sbe]: "CancelAll_instrumentId m = get_u64 (8 + 1) m"

definition CancelAll_set_instrumentId :: "u64 \<Rightarrow> memory \<Rightarrow> memory" where
  [sbe]: "CancelAll_set_instrumentId v m = put_u64 (8 + 1) v m"

definition CancelAll_timestampNs :: "memory \<Rightarrow> u64" where
  [sbe]: "CancelAll_timestampNs m = get_u64 (8 + 9) m"

definition CancelAll_set_timestampNs :: "u64 \<Rightarrow> memory \<Rightarrow> memory" where
  [sbe]: "CancelAll_set_timestampNs v m = put_u64 (8 + 9) v m"

subsection \<open>\<open>ModifyOrder.h\<close>\<close>

definition ModifyOrder_BLOCK_LENGTH :: u16 where [sbe]: "ModifyOrder_BLOCK_LENGTH = 41"

definition ModifyOrder_TEMPLATE_ID :: u16 where [sbe]: "ModifyOrder_TEMPLATE_ID = 13"

definition ModifyOrder_orderId :: "memory \<Rightarrow> u64" where
  [sbe]: "ModifyOrder_orderId m = get_u64 (8 + 0) m"

definition ModifyOrder_set_orderId :: "u64 \<Rightarrow> memory \<Rightarrow> memory" where
  [sbe]: "ModifyOrder_set_orderId v m = put_u64 (8 + 0) v m"

definition ModifyOrder_exchangeId :: "memory \<Rightarrow> exchange_id option" where
  [sbe]: "ModifyOrder_exchangeId m = ExchangeId_get (get_u8 (8 + 8) m)"

definition ModifyOrder_set_exchangeId :: "exchange_id \<Rightarrow> memory \<Rightarrow> memory" where
  [sbe]: "ModifyOrder_set_exchangeId v m = put_u8 (8 + 8) (ExchangeId_value v) m"

definition ModifyOrder_instrumentId :: "memory \<Rightarrow> u64" where
  [sbe]: "ModifyOrder_instrumentId m = get_u64 (8 + 9) m"

definition ModifyOrder_set_instrumentId :: "u64 \<Rightarrow> memory \<Rightarrow> memory" where
  [sbe]: "ModifyOrder_set_instrumentId v m = put_u64 (8 + 9) v m"

definition ModifyOrder_newPrice :: "memory \<Rightarrow> i64" where
  [sbe]: "ModifyOrder_newPrice m = get_u64 (8 + 17) m"

definition ModifyOrder_set_newPrice :: "i64 \<Rightarrow> memory \<Rightarrow> memory" where
  [sbe]: "ModifyOrder_set_newPrice v m = put_u64 (8 + 17) v m"

definition ModifyOrder_newQuantity :: "memory \<Rightarrow> u64" where
  [sbe]: "ModifyOrder_newQuantity m = get_u64 (8 + 25) m"

definition ModifyOrder_set_newQuantity :: "u64 \<Rightarrow> memory \<Rightarrow> memory" where
  [sbe]: "ModifyOrder_set_newQuantity v m = put_u64 (8 + 25) v m"

definition ModifyOrder_timestampNs :: "memory \<Rightarrow> u64" where
  [sbe]: "ModifyOrder_timestampNs m = get_u64 (8 + 33) m"

definition ModifyOrder_set_timestampNs :: "u64 \<Rightarrow> memory \<Rightarrow> memory" where
  [sbe]: "ModifyOrder_set_timestampNs v m = put_u64 (8 + 33) v m"

subsection \<open>\<open>AccountSnapshotRequest.h\<close>\<close>

definition AccountSnapshotRequest_BLOCK_LENGTH :: u16 where [sbe]: "AccountSnapshotRequest_BLOCK_LENGTH = 17"

definition AccountSnapshotRequest_TEMPLATE_ID :: u16 where [sbe]: "AccountSnapshotRequest_TEMPLATE_ID = 26"

definition AccountSnapshotRequest_exchangeId :: "memory \<Rightarrow> exchange_id option" where
  [sbe]: "AccountSnapshotRequest_exchangeId m = ExchangeId_get (get_u8 (8 + 0) m)"

definition AccountSnapshotRequest_set_exchangeId :: "exchange_id \<Rightarrow> memory \<Rightarrow> memory" where
  [sbe]: "AccountSnapshotRequest_set_exchangeId v m = put_u8 (8 + 0) (ExchangeId_value v) m"

definition AccountSnapshotRequest_correlationId :: "memory \<Rightarrow> u64" where
  [sbe]: "AccountSnapshotRequest_correlationId m = get_u64 (8 + 1) m"

definition AccountSnapshotRequest_set_correlationId :: "u64 \<Rightarrow> memory \<Rightarrow> memory" where
  [sbe]: "AccountSnapshotRequest_set_correlationId v m = put_u64 (8 + 1) v m"

definition AccountSnapshotRequest_timestampNs :: "memory \<Rightarrow> u64" where
  [sbe]: "AccountSnapshotRequest_timestampNs m = get_u64 (8 + 9) m"

definition AccountSnapshotRequest_set_timestampNs :: "u64 \<Rightarrow> memory \<Rightarrow> memory" where
  [sbe]: "AccountSnapshotRequest_set_timestampNs v m = put_u64 (8 + 9) v m"

subsection \<open>\<open>ExecutionReport.h\<close>\<close>

definition ExecutionReport_BLOCK_LENGTH :: u16 where [sbe]: "ExecutionReport_BLOCK_LENGTH = 86"

definition ExecutionReport_TEMPLATE_ID :: u16 where [sbe]: "ExecutionReport_TEMPLATE_ID = 14"

definition ExecutionReport_orderId :: "memory \<Rightarrow> u64" where
  [sbe]: "ExecutionReport_orderId m = get_u64 (8 + 0) m"

definition ExecutionReport_set_orderId :: "u64 \<Rightarrow> memory \<Rightarrow> memory" where
  [sbe]: "ExecutionReport_set_orderId v m = put_u64 (8 + 0) v m"

definition ExecutionReport_exchangeOrderId :: "memory \<Rightarrow> u64" where
  [sbe]: "ExecutionReport_exchangeOrderId m = get_u64 (8 + 8) m"

definition ExecutionReport_set_exchangeOrderId :: "u64 \<Rightarrow> memory \<Rightarrow> memory" where
  [sbe]: "ExecutionReport_set_exchangeOrderId v m = put_u64 (8 + 8) v m"

definition ExecutionReport_exchangeId :: "memory \<Rightarrow> exchange_id option" where
  [sbe]: "ExecutionReport_exchangeId m = ExchangeId_get (get_u8 (8 + 16) m)"

definition ExecutionReport_set_exchangeId :: "exchange_id \<Rightarrow> memory \<Rightarrow> memory" where
  [sbe]: "ExecutionReport_set_exchangeId v m = put_u8 (8 + 16) (ExchangeId_value v) m"

definition ExecutionReport_instrumentId :: "memory \<Rightarrow> u64" where
  [sbe]: "ExecutionReport_instrumentId m = get_u64 (8 + 17) m"

definition ExecutionReport_set_instrumentId :: "u64 \<Rightarrow> memory \<Rightarrow> memory" where
  [sbe]: "ExecutionReport_set_instrumentId v m = put_u64 (8 + 17) v m"

definition ExecutionReport_status :: "memory \<Rightarrow> exec_status option" where
  [sbe]: "ExecutionReport_status m = ExecStatus_get (get_u8 (8 + 25) m)"

definition ExecutionReport_set_status :: "exec_status \<Rightarrow> memory \<Rightarrow> memory" where
  [sbe]: "ExecutionReport_set_status v m = put_u8 (8 + 25) (ExecStatus_value v) m"

definition ExecutionReport_side :: "memory \<Rightarrow> order_side option" where
  [sbe]: "ExecutionReport_side m = OrderSide_get (get_u8 (8 + 26) m)"

definition ExecutionReport_set_side :: "order_side \<Rightarrow> memory \<Rightarrow> memory" where
  [sbe]: "ExecutionReport_set_side v m = put_u8 (8 + 26) (OrderSide_value v) m"

definition ExecutionReport_orderType :: "memory \<Rightarrow> order_type option" where
  [sbe]: "ExecutionReport_orderType m = OrderType_get (get_u8 (8 + 27) m)"

definition ExecutionReport_set_orderType :: "order_type \<Rightarrow> memory \<Rightarrow> memory" where
  [sbe]: "ExecutionReport_set_orderType v m = put_u8 (8 + 27) (OrderType_value v) m"

definition ExecutionReport_price :: "memory \<Rightarrow> i64" where
  [sbe]: "ExecutionReport_price m = get_u64 (8 + 28) m"

definition ExecutionReport_set_price :: "i64 \<Rightarrow> memory \<Rightarrow> memory" where
  [sbe]: "ExecutionReport_set_price v m = put_u64 (8 + 28) v m"

definition ExecutionReport_filledQty :: "memory \<Rightarrow> u64" where
  [sbe]: "ExecutionReport_filledQty m = get_u64 (8 + 36) m"

definition ExecutionReport_set_filledQty :: "u64 \<Rightarrow> memory \<Rightarrow> memory" where
  [sbe]: "ExecutionReport_set_filledQty v m = put_u64 (8 + 36) v m"

definition ExecutionReport_remainingQty :: "memory \<Rightarrow> u64" where
  [sbe]: "ExecutionReport_remainingQty m = get_u64 (8 + 44) m"

definition ExecutionReport_set_remainingQty :: "u64 \<Rightarrow> memory \<Rightarrow> memory" where
  [sbe]: "ExecutionReport_set_remainingQty v m = put_u64 (8 + 44) v m"

definition ExecutionReport_rejectReason :: "memory \<Rightarrow> reject_reason option" where
  [sbe]: "ExecutionReport_rejectReason m = RejectReason_get (get_u8 (8 + 52) m)"

definition ExecutionReport_set_rejectReason :: "reject_reason \<Rightarrow> memory \<Rightarrow> memory" where
  [sbe]: "ExecutionReport_set_rejectReason v m = put_u8 (8 + 52) (RejectReason_value v) m"

definition ExecutionReport_fee :: "memory \<Rightarrow> i64" where
  [sbe]: "ExecutionReport_fee m = get_u64 (8 + 53) m"

definition ExecutionReport_set_fee :: "i64 \<Rightarrow> memory \<Rightarrow> memory" where
  [sbe]: "ExecutionReport_set_fee v m = put_u64 (8 + 53) v m"

definition ExecutionReport_feeCurrency :: "memory \<Rightarrow> string" where
  [sbe]: "ExecutionReport_feeCurrency m = get_str 8 (get_chars (8 + 61) 8 m)"

definition ExecutionReport_set_feeCurrency :: "string \<Rightarrow> memory \<Rightarrow> memory" where
  [sbe]: "ExecutionReport_set_feeCurrency v m = put_chars (8 + 61) (put_str 8 v) m"

definition ExecutionReport_timestampNs :: "memory \<Rightarrow> u64" where
  [sbe]: "ExecutionReport_timestampNs m = get_u64 (8 + 69) m"

definition ExecutionReport_set_timestampNs :: "u64 \<Rightarrow> memory \<Rightarrow> memory" where
  [sbe]: "ExecutionReport_set_timestampNs v m = put_u64 (8 + 69) v m"

definition ExecutionReport_localTsNs :: "memory \<Rightarrow> u64" where
  [sbe]: "ExecutionReport_localTsNs m = get_u64 (8 + 77) m"

definition ExecutionReport_set_localTsNs :: "u64 \<Rightarrow> memory \<Rightarrow> memory" where
  [sbe]: "ExecutionReport_set_localTsNs v m = put_u64 (8 + 77) v m"


end
