(* ===== verification/Order_Wire.thy ===== *)
theory Order_Wire
  imports Order_Accessors Order_Events
begin

text \<open>
  The order messages end to end: what \<open>AeronOrderGatewayClient\<close> writes into a claimed slot
  (\<open>aeron_order_gateway_client.h\<close>), how the gateway dispatches and decodes it
  (\<open>order_subscriber.cpp\<close>, \<open>sbe_order_command_codec.cpp\<close>), and the execution report on its way
  back (\<open>sbe_execution_report_codec.cpp\<close>). The slot holds arbitrary bytes before it is written.
\<close>

subsection \<open>Requests of the strategy\<close>

record outbound_new_order =
  on_order_id :: u64
  on_exchange_id :: exchange_id
  on_instrument_id :: u64
  on_side :: order_side
  on_order_type :: order_type
  on_tif :: time_in_force
  on_price :: i64
  on_quantity :: u64
  on_exec_inst :: u8
  on_exchange_symbol :: string

record cancel_order_request =
  cq_order_id :: u64
  cq_exchange_id :: exchange_id
  cq_instrument_id :: u64

record modify_order_request =
  mq_order_id :: u64
  mq_exchange_id :: exchange_id
  mq_instrument_id :: u64
  mq_new_price :: i64
  mq_new_quantity :: u64

text \<open>The encode callables; \<open>None\<close> is an exception out of one.\<close>

definition put_NewOrder :: "outbound_new_order \<Rightarrow> u64 \<Rightarrow> memory \<Rightarrow> memory option" where
  "put_NewOrder r now m =
     (let m = NewOrder_set_execInst (on_exec_inst r)
               (NewOrder_set_timestampNs now
                 (NewOrder_set_quantity (on_quantity r)
                   (NewOrder_set_price (on_price r)
                     (NewOrder_set_timeInForce (on_tif r)
                       (NewOrder_set_orderType (on_order_type r)
                         (NewOrder_set_side (on_side r)
                           (NewOrder_set_instrumentId (on_instrument_id r)
                             (NewOrder_set_exchangeId (on_exchange_id r)
                               (NewOrder_set_orderId (on_order_id r) m)))))))))
      in if 32 < length (on_exchange_symbol r) then None
         else Some (NewOrder_set_exchangeSymbol (on_exchange_symbol r) m))"

definition put_CancelOrder :: "cancel_order_request \<Rightarrow> u64 \<Rightarrow> memory \<Rightarrow> memory" where
  "put_CancelOrder r now m =
     CancelOrder_set_timestampNs now
       (CancelOrder_set_instrumentId (cq_instrument_id r)
         (CancelOrder_set_exchangeId (cq_exchange_id r)
           (CancelOrder_set_orderId (cq_order_id r) m)))"

definition put_CancelAll :: "exchange_id \<Rightarrow> u64 \<Rightarrow> u64 \<Rightarrow> memory \<Rightarrow> memory" where
  "put_CancelAll ex iid now m =
     CancelAll_set_timestampNs now (CancelAll_set_instrumentId iid (CancelAll_set_exchangeId ex m))"

definition put_ModifyOrder :: "modify_order_request \<Rightarrow> u64 \<Rightarrow> memory \<Rightarrow> memory" where
  "put_ModifyOrder r now m =
     ModifyOrder_set_timestampNs now
       (ModifyOrder_set_newQuantity (mq_new_quantity r)
         (ModifyOrder_set_newPrice (mq_new_price r)
           (ModifyOrder_set_instrumentId (mq_instrument_id r)
             (ModifyOrder_set_exchangeId (mq_exchange_id r)
               (ModifyOrder_set_orderId (mq_order_id r) m)))))"

definition put_AccountSnapshotRequest :: "exchange_id \<Rightarrow> u64 \<Rightarrow> u64 \<Rightarrow> memory \<Rightarrow> memory" where
  "put_AccountSnapshotRequest ex corr now m =
     AccountSnapshotRequest_set_timestampNs now
       (AccountSnapshotRequest_set_correlationId corr
         (AccountSnapshotRequest_set_exchangeId ex m))"

text \<open>
  \<open>Publisher::publish\<close> on a claimed slot: the slot has exactly the size of the message, the
  header is written first. The result is the frame, with its length.
\<close>

definition encode_claim ::
  "u16 \<Rightarrow> u16 \<Rightarrow> (memory \<Rightarrow> memory option) \<Rightarrow> memory \<Rightarrow> (nat \<times> memory) option" where
  "encode_claim block template encode slot =
     (let len = 8 + unat block in
      do { m \<leftarrow> wrapAndApplyHeader block template len slot; m \<leftarrow> encode m; Some (len, m) })"

datatype gw_request =
    Gw_New outbound_new_order | Gw_Cancel cancel_order_request | Gw_Cancel_All exchange_id u64
  | Gw_Modify modify_order_request | Gw_Account exchange_id u64

fun encode_request :: "gw_request \<Rightarrow> u64 \<Rightarrow> memory \<Rightarrow> (nat \<times> memory) option" where
  "encode_request (Gw_New r) now =
     encode_claim NewOrder_BLOCK_LENGTH NewOrder_TEMPLATE_ID (put_NewOrder r now)"
| "encode_request (Gw_Cancel r) now =
     encode_claim CancelOrder_BLOCK_LENGTH CancelOrder_TEMPLATE_ID (\<lambda>m. Some (put_CancelOrder r now m))"
| "encode_request (Gw_Cancel_All ex iid) now =
     encode_claim CancelAll_BLOCK_LENGTH CancelAll_TEMPLATE_ID (\<lambda>m. Some (put_CancelAll ex iid now m))"
| "encode_request (Gw_Modify r) now =
     encode_claim ModifyOrder_BLOCK_LENGTH ModifyOrder_TEMPLATE_ID (\<lambda>m. Some (put_ModifyOrder r now m))"
| "encode_request (Gw_Account ex corr) now =
     encode_claim AccountSnapshotRequest_BLOCK_LENGTH AccountSnapshotRequest_TEMPLATE_ID
       (\<lambda>m. Some (put_AccountSnapshotRequest ex corr now m))"

subsection \<open>Decoding at the gateway\<close>

definition decode_new_order :: "nat \<Rightarrow> memory \<Rightarrow> new_order_event option" where
  "decode_new_order len m =
     (if \<not> wrapForDecode (hdr_blockLength m) len then None
      else do {
        ex \<leftarrow> NewOrder_exchangeId m;
        side \<leftarrow> NewOrder_side m;
        ot \<leftarrow> NewOrder_orderType m;
        tif \<leftarrow> NewOrder_timeInForce m;
        Some \<lparr> no_order_id = NewOrder_orderId m, no_instrument_id = NewOrder_instrumentId m,
               no_exchange_id = ex, no_side = side, no_order_type = ot, no_tif = tif,
               no_price = NewOrder_price m, no_quantity = NewOrder_quantity m,
               no_exec_inst = NewOrder_execInst m, no_exchange_symbol = NewOrder_exchangeSymbol m \<rparr>
      })"

definition decode_cancel :: "nat \<Rightarrow> memory \<Rightarrow> cancel_order_event option" where
  "decode_cancel len m =
     (if \<not> wrapForDecode (hdr_blockLength m) len then None
      else do {
        ex \<leftarrow> CancelOrder_exchangeId m;
        Some \<lparr> co_order_id = CancelOrder_orderId m, co_exchange_id = ex \<rparr>
      })"

definition decode_modify :: "nat \<Rightarrow> memory \<Rightarrow> modify_order_event option" where
  "decode_modify len m =
     (if \<not> wrapForDecode (hdr_blockLength m) len then None
      else do {
        ex \<leftarrow> ModifyOrder_exchangeId m;
        Some \<lparr> mo_order_id = ModifyOrder_orderId m, mo_exchange_id = ex,
               mo_new_price = ModifyOrder_newPrice m, mo_new_quantity = ModifyOrder_newQuantity m \<rparr>
      })"

definition decode_cancel_all :: "nat \<Rightarrow> memory \<Rightarrow> cancel_all_event option" where
  "decode_cancel_all len m =
     (if \<not> wrapForDecode (hdr_blockLength m) len then None
      else do {
        ex \<leftarrow> CancelAll_exchangeId m;
        Some \<lparr> ca_exchange_id = ex, ca_instrument_id = CancelAll_instrumentId m \<rparr>
      })"

text \<open>What \<open>OrderSubscriber::handle_fragment\<close> does with a fragment, all callbacks being set.\<close>

datatype dispatch =
    On_New_Order new_order_event | On_Cancel cancel_order_event | On_Cancel_All cancel_all_event
  | On_Modify modify_order_event | On_Account_Snapshot_Request memory | Ignored | Throws

definition handle_fragment :: "nat \<Rightarrow> memory \<Rightarrow> dispatch" where
  "handle_fragment len m =
     (if len < 8 then Ignored
      else let tmpl = hdr_templateId m in
        if tmpl = NewOrder_TEMPLATE_ID then
          (case decode_new_order len m of Some e \<Rightarrow> On_New_Order e | None \<Rightarrow> Throws)
        else if tmpl = CancelOrder_TEMPLATE_ID then
          (case decode_cancel len m of Some e \<Rightarrow> On_Cancel e | None \<Rightarrow> Throws)
        else if tmpl = CancelAll_TEMPLATE_ID then
          (case decode_cancel_all len m of Some e \<Rightarrow> On_Cancel_All e | None \<Rightarrow> Throws)
        else if tmpl = ModifyOrder_TEMPLATE_ID then
          (case decode_modify len m of Some e \<Rightarrow> On_Modify e | None \<Rightarrow> Throws)
        else if tmpl = AccountSnapshotRequest_TEMPLATE_ID then
          (if wrapForDecode (hdr_blockLength m) len then On_Account_Snapshot_Request m else Throws)
        else Ignored)"

subsection \<open>Execution reports\<close>

definition encode_exec_report :: "exec_report \<Rightarrow> nat \<Rightarrow> memory \<Rightarrow> (nat \<times> memory) option" where
  "encode_exec_report r scratch_size m =
     (let buf = (\<lambda>i. if i < scratch_size then 0 else m i) in
      do {
        m \<leftarrow> wrapAndApplyHeader ExecutionReport_BLOCK_LENGTH ExecutionReport_TEMPLATE_ID scratch_size buf;
        Some (8 + unat ExecutionReport_BLOCK_LENGTH,
          ExecutionReport_set_localTsNs (xr_local_ts_ns r)
           (ExecutionReport_set_timestampNs (xr_exchange_ts_ns r)
             (ExecutionReport_set_feeCurrency (put_str 8 (xr_fee_currency r))
               (ExecutionReport_set_fee (xr_fee r)
                 (ExecutionReport_set_rejectReason (xr_reject_reason r)
                   (ExecutionReport_set_remainingQty (xr_remaining_qty r)
                     (ExecutionReport_set_filledQty (xr_filled_qty r)
                       (ExecutionReport_set_price (xr_price r)
                         (ExecutionReport_set_orderType (xr_order_type r)
                           (ExecutionReport_set_side (xr_side r)
                             (ExecutionReport_set_status (xr_status r)
                               (ExecutionReport_set_instrumentId (xr_instrument_id r)
                                 (ExecutionReport_set_exchangeId (xr_exchange_id r)
                                   (ExecutionReport_set_exchangeOrderId (xr_exchange_order_id r)
                                     (ExecutionReport_set_orderId (xr_order_id r) m)))))))))))))))
      })"

definition decode_exec_report :: "nat \<Rightarrow> memory \<Rightarrow> exec_report option" where
  "decode_exec_report len m =
     (if len < 8 then None
      else if hdr_templateId m \<noteq> ExecutionReport_TEMPLATE_ID then None
      else if \<not> wrapForDecode (hdr_blockLength m) len then None
      else do {
        ex \<leftarrow> ExecutionReport_exchangeId m;
        st \<leftarrow> ExecutionReport_status m;
        side \<leftarrow> ExecutionReport_side m;
        ot \<leftarrow> ExecutionReport_orderType m;
        rr \<leftarrow> ExecutionReport_rejectReason m;
        Some \<lparr> xr_order_id = ExecutionReport_orderId m,
               xr_exchange_order_id = ExecutionReport_exchangeOrderId m,
               xr_exchange_id = ex, xr_instrument_id = ExecutionReport_instrumentId m,
               xr_status = st, xr_side = side, xr_order_type = ot,
               xr_price = ExecutionReport_price m, xr_filled_qty = ExecutionReport_filledQty m,
               xr_remaining_qty = ExecutionReport_remainingQty m, xr_reject_reason = rr,
               xr_fee = ExecutionReport_fee m, xr_fee_currency = ExecutionReport_feeCurrency m,
               xr_exchange_ts_ns = ExecutionReport_timestampNs m,
               xr_local_ts_ns = ExecutionReport_localTsNs m \<rparr>
      })"

subsection \<open>Round trips\<close>

definition new_order_view :: "outbound_new_order \<Rightarrow> new_order_event" where
  "new_order_view r =
     \<lparr> no_order_id = on_order_id r, no_instrument_id = on_instrument_id r,
       no_exchange_id = on_exchange_id r, no_side = on_side r, no_order_type = on_order_type r,
       no_tif = on_tif r, no_price = on_price r, no_quantity = on_quantity r,
       no_exec_inst = on_exec_inst r, no_exchange_symbol = on_exchange_symbol r \<rparr>"

text \<open>What the gateway should see of a request.\<close>

fun delivered_as :: "gw_request \<Rightarrow> dispatch \<Rightarrow> bool" where
  "delivered_as (Gw_New r) d = (d = On_New_Order (new_order_view r))"
| "delivered_as (Gw_Cancel r) d =
     (d = On_Cancel \<lparr> co_order_id = cq_order_id r, co_exchange_id = cq_exchange_id r \<rparr>)"
| "delivered_as (Gw_Cancel_All ex iid) d =
     (d = On_Cancel_All \<lparr> ca_exchange_id = ex, ca_instrument_id = iid \<rparr>)"
| "delivered_as (Gw_Modify r) d =
     (d = On_Modify \<lparr> mo_order_id = mq_order_id r, mo_exchange_id = mq_exchange_id r,
                      mo_new_price = mq_new_price r, mo_new_quantity = mq_new_quantity r \<rparr>)"
| "delivered_as (Gw_Account ex corr) d =
     (case d of On_Account_Snapshot_Request m \<Rightarrow>
        AccountSnapshotRequest_exchangeId m = Some ex \<and> AccountSnapshotRequest_correlationId m = corr
      | _ \<Rightarrow> False)"

fun sendable :: "gw_request \<Rightarrow> bool" where
  "sendable (Gw_New r) \<longleftrightarrow> length (on_exchange_symbol r) \<le> 32 \<and> nul \<notin> set (on_exchange_symbol r)"
| "sendable _ \<longleftrightarrow> True"

lemmas wire_defs = sbe wrapAndApplyHeader_def wrapForDecode_def encode_claim_def Let_def
  handle_fragment_def

lemma wire_new_order:
  assumes "sendable (Gw_New r)"
  shows "\<exists>m'. encode_request (Gw_New r) now slot = Some (85, m') \<and>
    handle_fragment 85 m' = On_New_Order (new_order_view r)"
  using assms
  by (simp add: wire_defs put_NewOrder_def decode_new_order_def SBE_SCHEMA_ID_def SBE_SCHEMA_VERSION_def
      new_order_view_def get_put_short)

lemma wire_cancel:
  "\<exists>m'. encode_request (Gw_Cancel r) now slot = Some (33, m') \<and>
    delivered_as (Gw_Cancel r) (handle_fragment 33 m')"
  by (simp add: wire_defs put_CancelOrder_def decode_cancel_def SBE_SCHEMA_ID_def SBE_SCHEMA_VERSION_def)

lemma wire_cancel_all:
  "\<exists>m'. encode_request (Gw_Cancel_All ex iid) now slot = Some (25, m') \<and>
    delivered_as (Gw_Cancel_All ex iid) (handle_fragment 25 m')"
  by (simp add: wire_defs put_CancelAll_def decode_cancel_all_def SBE_SCHEMA_ID_def SBE_SCHEMA_VERSION_def)

lemma wire_modify:
  "\<exists>m'. encode_request (Gw_Modify r) now slot = Some (49, m') \<and>
    delivered_as (Gw_Modify r) (handle_fragment 49 m')"
  by (simp add: wire_defs put_ModifyOrder_def decode_modify_def SBE_SCHEMA_ID_def SBE_SCHEMA_VERSION_def)

lemma wire_account:
  "\<exists>m'. encode_request (Gw_Account ex corr) now slot = Some (25, m') \<and>
    delivered_as (Gw_Account ex corr) (handle_fragment 25 m')"
  by (simp add: wire_defs put_AccountSnapshotRequest_def SBE_SCHEMA_ID_def SBE_SCHEMA_VERSION_def)

text \<open>
  C4: every request reaches the gateway as it was sent. Whatever bytes the
  claimed slot held, a new order whose symbol fits its field, a cancel, a cancel-all, a modify or
  an account request is encoded without an exception, and the gateway's subscriber dispatches the
  frame to the handler of its kind with exactly the fields the strategy gave.
\<close>

theorem order_wire_round_trip:
  assumes "sendable r"
  shows "\<exists>len m. encode_request r now slot = Some (len, m) \<and> delivered_as r (handle_fragment len m)"
  using assms wire_cancel wire_cancel_all wire_modify wire_account
  by (cases r) (use wire_new_order [of _ now slot] in \<open>fastforce simp del: encode_request.simps\<close>)+

text \<open>
  An execution report is read back as it was written. For any report
  whose fee currency fits its field and any scratch buffer of at least its size, encoding succeeds
  and decoding the frame gives the report.
\<close>

theorem exec_report_round_trip:
  assumes "94 \<le> n" "length (xr_fee_currency r) \<le> 8" "nul \<notin> set (xr_fee_currency r)"
  shows "(do { (len, m) \<leftarrow> encode_exec_report r n scratch; decode_exec_report len m }) = Some r"
proof -
  have pad: "get_str 8 (put_str 8 (put_str 8 (xr_fee_currency r))) = xr_fee_currency r"
    using assms(2,3) get_put_short [of "xr_fee_currency r" 8] by (simp add: put_str_def [of 8 "put_str 8 _"])
  show ?thesis
    using assms(1) pad
    by (simp add: wire_defs encode_exec_report_def decode_exec_report_def SBE_SCHEMA_ID_def SBE_SCHEMA_VERSION_def)
qed

definition demo_order :: outbound_new_order where
  "demo_order =
     \<lparr> on_order_id = 77, on_exchange_id = EX_DERIBIT, on_instrument_id = 7, on_side = SELL,
       on_order_type = OT_LIMIT, on_tif = GTC, on_price = - 5, on_quantity = 100000000,
       on_exec_inst = 1, on_exchange_symbol = ''BTC-PERPETUAL'' \<rparr>"

theorem order_wire_round_trip_witness:
  "\<exists>len m. encode_request (Gw_New demo_order) 1700 (\<lambda>_. 255) = Some (len, m) \<and>
     handle_fragment len m = On_New_Order (new_order_view demo_order)"
  using order_wire_round_trip [of "Gw_New demo_order" 1700 "\<lambda>_. 255"]
  by (simp add: demo_order_def nul_def del: encode_request.simps)

definition demo_report :: exec_report where
  "demo_report =
     \<lparr> xr_order_id = 77, xr_exchange_order_id = 5, xr_exchange_id = EX_OKX, xr_instrument_id = 7,
       xr_status = ES_PARTIAL, xr_side = BUY, xr_order_type = OT_LIMIT, xr_price = - 1,
       xr_filled_qty = 3, xr_remaining_qty = 4, xr_reject_reason = RR_OK, xr_fee = 9,
       xr_fee_currency = ''USDC'', xr_exchange_ts_ns = 1, xr_local_ts_ns = 2 \<rparr>"

theorem exec_report_round_trip_witness:
  "(do { (len, m) \<leftarrow> encode_exec_report demo_report 128 (\<lambda>_. 255); decode_exec_report len m })
   = Some demo_report"
  by (rule exec_report_round_trip) (simp_all add: demo_report_def nul_def)

end
