(* ===== verification/Order_Manager.thy ===== *)
theory Order_Manager
  imports Refdata_Client Order_Wire "HOL-Library.Sublist"
begin

text \<open>
  The order manager of a strategy (\<open>bpt-strategy/src/order/order_manager.cpp\<close>) on the Aeron gateway
  client (\<open>aeron_order_gateway_client.h\<close>) it runs with in production. The store is the deque of
  order records, a handle the position of a record in it. \<open>gw_sent\<close> lists the requests Aeron has
  taken. Each send takes from its environment the clock and whether the publication took the
  message. \<open>None\<close> is an exception or an undefined conversion of a double to an integer.
\<close>

subsection \<open>Gateway client\<close>

record gw_client =
  gw_sent :: "gw_request list"

record send_env =
  env_now :: u64
  env_taken :: bool

definition gw_publish :: "gw_request \<Rightarrow> send_env \<Rightarrow> gw_client \<Rightarrow> gw_client" where
  "gw_publish r env g = (if env_taken env then g\<lparr>gw_sent := gw_sent g @ [r]\<rparr> else g)"

definition gw_send_new_order ::
  "outbound_new_order \<Rightarrow> send_env \<Rightarrow> gw_client \<Rightarrow> (bool \<times> gw_client) option" where
  "gw_send_new_order order env g =
     (if on_quantity order = 0 then Some (False, g)
      else if on_order_type order \<noteq> OT_MARKET \<and> on_price order \<le>s 0 then Some (False, g)
      else if on_exchange_symbol order = [] then Some (False, g)
      else if env_taken env \<and> 32 < length (on_exchange_symbol order) then None
      else Some (True, gw_publish (Gw_New order) env g))"

definition gw_send_cancel :: "cancel_order_request \<Rightarrow> send_env \<Rightarrow> gw_client \<Rightarrow> gw_client" where
  "gw_send_cancel r env g = gw_publish (Gw_Cancel r) env g"

definition gw_send_cancel_all :: "exchange_id \<Rightarrow> u64 \<Rightarrow> send_env \<Rightarrow> gw_client \<Rightarrow> gw_client" where
  "gw_send_cancel_all ex iid env g = gw_publish (Gw_Cancel_All ex iid) env g"

definition gw_send_modify :: "modify_order_request \<Rightarrow> send_env \<Rightarrow> gw_client \<Rightarrow> gw_client" where
  "gw_send_modify r env g = gw_publish (Gw_Modify r) env g"

definition gw_send_account_snapshot_request :: "exchange_id \<Rightarrow> u64 \<Rightarrow> send_env \<Rightarrow> gw_client \<Rightarrow> gw_client" where
  "gw_send_account_snapshot_request ex corr env g = gw_publish (Gw_Account ex corr) env g"

subsection \<open>Order records\<close>

datatype om_status = Live | PartiallyFilled | CancelPending | Filled | Cancelled | Rejected

record om_order =
  oo_order_id :: u64
  oo_instrument_id :: u64
  oo_exchange_id :: exchange_id
  oo_side :: order_side
  oo_price :: double
  oo_qty :: double
  oo_filled_qty :: double
  oo_avg_fill_price :: double
  oo_status :: om_status
  oo_created_ns :: u64
  oo_last_update_ns :: u64
  oo_tag :: u8

definition oo_live :: "om_order \<Rightarrow> bool" where
  "oo_live s \<longleftrightarrow> oo_status s = Live \<or> oo_status s = PartiallyFilled"

definition oo_terminal :: "om_order \<Rightarrow> bool" where
  "oo_terminal s \<longleftrightarrow> oo_status s = Filled \<or> oo_status s = Cancelled \<or> oo_status s = Rejected"

definition oo_cancel_pending :: "om_order \<Rightarrow> bool" where
  "oo_cancel_pending s \<longleftrightarrow> oo_status s = CancelPending"

type_synonym handle = "nat option"

record order_manager =
  om_store :: "om_order list"
  om_lookup :: "(u64, nat) umap"
  om_gw :: gw_client
  om_next_order_id :: u64
  om_placed :: "u64 list"

definition om_state :: "handle \<Rightarrow> order_manager \<Rightarrow> om_order option" where
  "om_state h om = (case h of Some i \<Rightarrow> Some (om_store om ! i) | None \<Rightarrow> None)"

definition h_valid :: "handle \<Rightarrow> bool" where
  "h_valid h \<longleftrightarrow> h \<noteq> None"

definition h_live :: "handle \<Rightarrow> order_manager \<Rightarrow> bool" where
  "h_live h om = (case om_state h om of Some s \<Rightarrow> oo_live s | None \<Rightarrow> False)"

definition h_order_id :: "handle \<Rightarrow> order_manager \<Rightarrow> u64" where
  "h_order_id h om = (case om_state h om of Some s \<Rightarrow> oo_order_id s | None \<Rightarrow> 0)"

text \<open>The upper half of an order id is the start time of the process, in seconds.\<close>

definition make_session_base :: "u64 \<Rightarrow> u64" where
  "make_session_base seconds = push_bit 32 seconds"

definition om_init :: "u64 \<Rightarrow> order_manager" where
  "om_init seconds =
     \<lparr> om_store = [], om_lookup = [], om_gw = \<lparr> gw_sent = [] \<rparr>,
       om_next_order_id = make_session_base seconds + 1, om_placed = [] \<rparr>"

subsection \<open>Orders\<close>

record new_order_req =
  rn_instrument_id :: u64
  rn_exchange_id :: exchange_id
  rn_side :: order_side
  rn_type :: order_type
  rn_tif :: time_in_force
  rn_price :: double
  rn_qty :: double
  rn_post_only :: bool

definition kExecInstPostOnly :: u8 where "kExecInstPostOnly = 1"

definition to_bitmask :: "bool \<Rightarrow> u8" where
  "to_bitmask post_only = (if post_only then kExecInstPostOnly else 0)"

definition round_price :: "bool \<Rightarrow> double \<Rightarrow> double \<Rightarrow> double" where
  "round_price up price tick =
     (if up then std_ceil (price div tick) * tick else std_floor (price div tick) * tick)"

definition normalise_and_validate ::
  "inst_cache \<Rightarrow> u64 \<Rightarrow> order_side \<Rightarrow> order_type \<Rightarrow> double \<Rightarrow> double \<Rightarrow> (double \<times> double \<times> string) option" where
  "normalise_and_validate cache iid side ot price quantity =
     (case ic_get iid cache of
        None \<Rightarrow> None
      | Some inst \<Rightarrow>
          if i_status inst \<noteq> ACTIVE then None
          else
            let price = (if ot \<noteq> OT_MARKET \<and> tick_size inst > 0
                         then round_price (side = BUY) price (tick_size inst) else price);
                quantity = (if lot_size inst > 0
                            then (let q = std_floor (quantity div lot_size inst) * lot_size inst
                                  in if q < lot_size inst then lot_size inst else q)
                            else quantity)
            in if quantity \<le> 0 then None
               else if ot \<noteq> OT_MARKET \<and> price \<le> 0 then None
               else Some (price, quantity, symbol inst))"

definition to_e8 :: "int \<Rightarrow> int \<Rightarrow> double \<Rightarrow> u64 option" where
  "to_e8 lo hi x = map_option of_int (d_to_int lo hi (std_round (x * Fin 100000000)))"

definition price_e8 :: "double \<Rightarrow> i64 option" where
  "price_e8 x = to_e8 (- (2 ^ 63)) (2 ^ 63) x"

text \<open>A conversion to an unsigned type is defined for truncated values from 0.\<close>

definition qty_e8 :: "double \<Rightarrow> u64 option" where
  "qty_e8 x = to_e8 0 (2 ^ 64) x"

definition om_send_new_order ::
  "inst_cache \<Rightarrow> send_env \<Rightarrow> new_order_req \<Rightarrow> u8 \<Rightarrow> order_manager \<Rightarrow> (handle \<times> order_manager) option" where
  "om_send_new_order cache env req tag om =
     (case normalise_and_validate cache (rn_instrument_id req) (rn_side req) (rn_type req)
             (rn_price req) (rn_qty req) of
        None \<Rightarrow> Some (None, om)
      | Some (price, quantity, sym') \<Rightarrow> do {
          price_fp \<leftarrow> price_e8 price;
          qty_fp \<leftarrow> qty_e8 quantity;
          let order_id = om_next_order_id om;
          let om = om\<lparr>om_next_order_id := order_id + 1\<rparr>;
          (ok, g) \<leftarrow> gw_send_new_order
            \<lparr> on_order_id = order_id, on_exchange_id = rn_exchange_id req,
              on_instrument_id = rn_instrument_id req, on_side = rn_side req,
              on_order_type = rn_type req, on_tif = rn_tif req, on_price = price_fp,
              on_quantity = qty_fp, on_exec_inst = to_bitmask (rn_post_only req),
              on_exchange_symbol = sym' \<rparr> env (om_gw om);
          let om = om\<lparr>om_gw := g\<rparr>;
          if \<not> ok then Some (None, om)
          else
            let state = \<lparr> oo_order_id = order_id, oo_instrument_id = rn_instrument_id req,
                          oo_exchange_id = rn_exchange_id req, oo_side = rn_side req,
                          oo_price = price, oo_qty = quantity, oo_filled_qty = 0,
                          oo_avg_fill_price = 0, oo_status = Live, oo_created_ns = env_now env,
                          oo_last_update_ns = env_now env, oo_tag = tag \<rparr>;
                i = length (om_store om)
            in Some (Some i, om\<lparr>om_store := om_store om @ [state],
                                om_lookup := AList.update order_id i (om_lookup om),
                                om_placed := om_placed om @ [order_id]\<rparr>)
        })"

definition quote_price :: "inst_cache \<Rightarrow> u64 \<Rightarrow> order_side \<Rightarrow> double \<Rightarrow> double" where
  "quote_price cache iid side price =
     (case ic_get iid cache of
        Some inst \<Rightarrow> if tick_size inst > 0 then round_price (side \<noteq> BUY) price (tick_size inst) else price
      | None \<Rightarrow> price)"

definition om_send_quote ::
  "inst_cache \<Rightarrow> send_env \<Rightarrow> u64 \<Rightarrow> exchange_id \<Rightarrow> order_side \<Rightarrow> double \<Rightarrow> double \<Rightarrow> u8 \<Rightarrow> order_manager \<Rightarrow>
   (handle \<times> order_manager) option" where
  "om_send_quote cache env iid ex side price qty tag om =
     om_send_new_order cache env
       \<lparr> rn_instrument_id = iid, rn_exchange_id = ex, rn_side = side, rn_type = OT_LIMIT,
         rn_tif = GTC, rn_price = quote_price cache iid side price, rn_qty = qty,
         rn_post_only = True \<rparr> tag om"

definition om_modify_quote ::
  "inst_cache \<Rightarrow> send_env \<Rightarrow> handle \<Rightarrow> double \<Rightarrow> double \<Rightarrow> order_manager \<Rightarrow> order_manager option" where
  "om_modify_quote cache env h price qty om =
     (if \<not> h_live h om then Some om
      else do {
        s \<leftarrow> om_state h om;
        price_fp \<leftarrow> price_e8 (quote_price cache (oo_instrument_id s) (oo_side s) price);
        qty_fp \<leftarrow> qty_e8 qty;
        Some (om\<lparr>om_gw := gw_send_modify
          \<lparr> mq_order_id = oo_order_id s, mq_exchange_id = oo_exchange_id s,
            mq_instrument_id = oo_instrument_id s, mq_new_price = price_fp,
            mq_new_quantity = qty_fp \<rparr> env (om_gw om)\<rparr>)
      })"

definition set_cancel_pending :: "send_env \<Rightarrow> nat \<Rightarrow> order_manager \<Rightarrow> order_manager" where
  "set_cancel_pending env i om =
     om\<lparr>om_store := (om_store om)[i := (om_store om ! i)
          \<lparr>oo_status := CancelPending, oo_last_update_ns := env_now env\<rparr>]\<rparr>"

definition om_send_cancel :: "send_env \<Rightarrow> handle \<Rightarrow> order_manager \<Rightarrow> order_manager" where
  "om_send_cancel env h om =
     (case h of
        Some i \<Rightarrow>
          if \<not> h_live h om then om
          else let s = om_store om ! i; om = set_cancel_pending env i om
            in om\<lparr>om_gw := gw_send_cancel
                 \<lparr> cq_order_id = oo_order_id s, cq_exchange_id = oo_exchange_id s,
                   cq_instrument_id = oo_instrument_id s \<rparr> env (om_gw om)\<rparr>
      | None \<Rightarrow> om)"

definition om_send_cancel_request :: "send_env \<Rightarrow> cancel_order_request \<Rightarrow> order_manager \<Rightarrow> order_manager" where
  "om_send_cancel_request env r om =
     (let om = (case map_of (om_lookup om) (cq_order_id r) of
                  Some i \<Rightarrow> if oo_live (om_store om ! i) then set_cancel_pending env i om else om
                | None \<Rightarrow> om)
      in om\<lparr>om_gw := gw_send_cancel r env (om_gw om)\<rparr>)"

definition om_cancel_all :: "send_env \<Rightarrow> exchange_id \<Rightarrow> u64 \<Rightarrow> order_manager \<Rightarrow> order_manager" where
  "om_cancel_all env ex iid om = om\<lparr>om_gw := gw_send_cancel_all ex iid env (om_gw om)\<rparr>"

definition om_modify_order :: "send_env \<Rightarrow> modify_order_request \<Rightarrow> order_manager \<Rightarrow> order_manager" where
  "om_modify_order env r om = om\<lparr>om_gw := gw_send_modify r env (om_gw om)\<rparr>"

subsection \<open>Execution reports\<close>

definition e8 :: double where "e8 = Fin 100000000"

definition apply_fill :: "exec_report \<Rightarrow> om_order \<Rightarrow> om_order" where
  "apply_fill rpt s =
     (let filled = d_of_int (uint (xr_filled_qty rpt)) div e8 in
      if filled > oo_filled_qty s then
        (let new_qty = filled - oo_filled_qty s;
             last_px = d_of_int (sint (xr_price rpt)) div e8;
             s = (if oo_filled_qty s + new_qty > 0
                  then s\<lparr>oo_avg_fill_price :=
                         (oo_avg_fill_price s * oo_filled_qty s + last_px * new_qty)
                           div (oo_filled_qty s + new_qty)\<rparr>
                  else s)
         in s\<lparr>oo_filled_qty := filled\<rparr>)
      else s)"

fun status_after :: "exec_status \<Rightarrow> om_status \<Rightarrow> om_status" where
  "status_after ES_ACKED st = Live"
| "status_after ES_PARTIAL st = PartiallyFilled"
| "status_after ES_FILLED st = Filled"
| "status_after ES_CANCELLED st = Cancelled"
| "status_after ES_REJECTED st = Rejected"
| "status_after ES_NULL st = st"

definition om_on_exec_report :: "u64 \<Rightarrow> exec_report \<Rightarrow> order_manager \<Rightarrow> order_manager" where
  "om_on_exec_report now rpt om =
     (case map_of (om_lookup om) (xr_order_id rpt) of
        None \<Rightarrow> om
      | Some i \<Rightarrow>
          let s = apply_fill rpt ((om_store om ! i)\<lparr>oo_last_update_ns := now\<rparr>)
          in om\<lparr>om_store := (om_store om)[i := s\<lparr>oo_status := status_after (xr_status rpt) (oo_status s)\<rparr>]\<rparr>)"

definition om_find_by_id :: "u64 \<Rightarrow> order_manager \<Rightarrow> handle" where
  "om_find_by_id oid om = map_of (om_lookup om) oid"

subsection \<open>Runs\<close>

datatype om_event =
    Om_New inst_cache new_order_req u8 | Om_Quote inst_cache u64 exchange_id order_side double double u8
  | Om_Modify_Quote inst_cache handle double double | Om_Cancel handle
  | Om_Cancel_Request cancel_order_request | Om_Cancel_All exchange_id u64
  | Om_Modify modify_order_request | Om_Report exec_report

fun om_step :: "send_env \<times> om_event \<Rightarrow> order_manager \<Rightarrow> order_manager option" where
  "om_step (env, Om_New cache req tag) om = map_option snd (om_send_new_order cache env req tag om)"
| "om_step (env, Om_Quote cache iid ex side p q tag) om =
     map_option snd (om_send_quote cache env iid ex side p q tag om)"
| "om_step (env, Om_Modify_Quote cache h p q) om = om_modify_quote cache env h p q om"
| "om_step (env, Om_Cancel h) om = Some (om_send_cancel env h om)"
| "om_step (env, Om_Cancel_Request r) om = Some (om_send_cancel_request env r om)"
| "om_step (env, Om_Cancel_All ex iid) om = Some (om_cancel_all env ex iid om)"
| "om_step (env, Om_Modify r) om = Some (om_modify_order env r om)"
| "om_step (env, Om_Report rpt) om = Some (om_on_exec_report (env_now env) rpt om)"

fun om_run :: "(send_env \<times> om_event) list \<Rightarrow> order_manager \<Rightarrow> order_manager option" where
  "om_run [] om = Some om"
| "om_run (e # es) om = (case om_step e om of None \<Rightarrow> None | Some om \<Rightarrow> om_run es om)"

subsection \<open>What a send does\<close>

definition refused :: "order_manager \<Rightarrow> handle \<Rightarrow> order_manager \<Rightarrow> bool" where
  "refused om h om' \<longleftrightarrow> h = None \<and> om_store om' = om_store om \<and> om_lookup om' = om_lookup om \<and>
     om_gw om' = om_gw om \<and> om_placed om' = om_placed om \<and>
     (om_next_order_id om' = om_next_order_id om \<or> om_next_order_id om' = om_next_order_id om + 1)"

definition placed :: "send_env \<Rightarrow> outbound_new_order \<Rightarrow> om_order \<Rightarrow> order_manager \<Rightarrow> handle \<Rightarrow> order_manager \<Rightarrow> bool" where
  "placed env r s om h om' \<longleftrightarrow>
     h = Some (length (om_store om)) \<and> on_order_id r = om_next_order_id om \<and>
     om_next_order_id om' = om_next_order_id om + 1 \<and>
     om_store om' = om_store om @ [s] \<and> oo_order_id s = on_order_id r \<and> oo_status s = Live \<and>
     om_lookup om' = AList.update (on_order_id r) (length (om_store om)) (om_lookup om) \<and>
     om_gw om' = gw_publish (Gw_New r) env (om_gw om) \<and>
     om_placed om' = om_placed om @ [on_order_id r]"

definition admissible :: "inst_cache \<Rightarrow> outbound_new_order \<Rightarrow> bool" where
  "admissible cache r \<longleftrightarrow>
     (case ic_get (on_instrument_id r) cache of
        Some inst \<Rightarrow> i_status inst = ACTIVE \<and> on_exchange_symbol r = symbol inst
      | None \<Rightarrow> False) \<and>
     on_quantity r \<noteq> 0 \<and> on_exchange_symbol r \<noteq> [] \<and>
     (on_order_type r = OT_MARKET \<or> 0 <s on_price r)"

lemma normalise_some:
  "normalise_and_validate cache iid side ot p q = Some (p', q', sym') \<Longrightarrow>
   \<exists>inst. ic_get iid cache = Some inst \<and> i_status inst = ACTIVE \<and> sym' = symbol inst"
  by (auto simp: normalise_and_validate_def Let_def split: option.splits if_splits)

lemma gw_new_cases:
  assumes "gw_send_new_order r env g = Some (ok, g')"
  shows "\<not> ok \<and> g' = g \<or>
         ok \<and> g' = gw_publish (Gw_New r) env g \<and> on_quantity r \<noteq> 0 \<and> on_exchange_symbol r \<noteq> [] \<and>
         (on_order_type r = OT_MARKET \<or> 0 <s on_price r) \<and>
         (env_taken env \<longrightarrow> length (on_exchange_symbol r) \<le> 32)"
  using assms by (auto simp: gw_send_new_order_def word_sless_alt word_sle_eq split: if_splits)

lemma send_new_order_cases:
  assumes "om_send_new_order cache env req tag om = Some (h, om')"
  shows "refused om h om' \<or>
    (\<exists>r s. placed env r s om h om' \<and> admissible cache r \<and> on_instrument_id r = rn_instrument_id req \<and>
           on_exchange_id r = rn_exchange_id req \<and> on_tif r = rn_tif req \<and>
           on_side r = rn_side req \<and> on_order_type r = rn_type req \<and>
           on_exec_inst r = to_bitmask (rn_post_only req) \<and>
           (env_taken env \<longrightarrow> length (on_exchange_symbol r) \<le> 32))"
proof (cases "normalise_and_validate cache (rn_instrument_id req) (rn_side req) (rn_type req)
    (rn_price req) (rn_qty req)")
  case None
  then show ?thesis using assms by (simp add: om_send_new_order_def refused_def)
next
  case (Some pqs)
  obtain p q sym' where n: "pqs = (p, q, sym')" by (cases pqs)
  obtain inst where inst: "ic_get (rn_instrument_id req) cache = Some inst" "i_status inst = ACTIVE"
    "sym' = symbol inst"
    using normalise_some Some n by blast
  obtain pfp qfp where e8: "price_e8 p = Some pfp" "qty_e8 q = Some qfp"
    using assms Some n by (auto simp: om_send_new_order_def split: Option.bind_splits)
  define r where "r = \<lparr> on_order_id = om_next_order_id om, on_exchange_id = rn_exchange_id req,
              on_instrument_id = rn_instrument_id req, on_side = rn_side req,
              on_order_type = rn_type req, on_tif = rn_tif req, on_price = pfp,
              on_quantity = qfp, on_exec_inst = to_bitmask (rn_post_only req),
              on_exchange_symbol = sym' \<rparr>"
  define om1 where "om1 = om\<lparr>om_next_order_id := om_next_order_id om + 1\<rparr>"
  obtain ok g where g: "gw_send_new_order r env (om_gw om) = Some (ok, g)"
    using assms Some n e8 by (auto simp: om_send_new_order_def r_def Let_def split: Option.bind_splits)
  show ?thesis
  proof (cases ok)
    case False
    then have "refused om h om'"
      using assms Some n e8 g gw_new_cases [OF g]
      by (auto simp: om_send_new_order_def r_def [symmetric] Let_def refused_def)
    then show ?thesis ..
  next
    case True
    define s where "s = \<lparr> oo_order_id = om_next_order_id om, oo_instrument_id = rn_instrument_id req,
                          oo_exchange_id = rn_exchange_id req, oo_side = rn_side req,
                          oo_price = p, oo_qty = q, oo_filled_qty = 0,
                          oo_avg_fill_price = 0, oo_status = Live, oo_created_ns = env_now env,
                          oo_last_update_ns = env_now env, oo_tag = tag \<rparr>"
    have "placed env r s om h om'"
      using assms Some n e8 g gw_new_cases [OF g] True
      by (auto simp: om_send_new_order_def r_def [symmetric] Let_def placed_def s_def)
        (auto simp: r_def)
    moreover have "admissible cache r" "env_taken env \<longrightarrow> length (on_exchange_symbol r) \<le> 32"
      using gw_new_cases [OF g] True inst by (auto simp: admissible_def r_def)
    ultimately show ?thesis by (auto simp: r_def)
  qed
qed

fun new_ids :: "gw_request list \<Rightarrow> u64 list" where
  "new_ids [] = []"
| "new_ids (Gw_New r # rs) = on_order_id r # new_ids rs"
| "new_ids (_ # rs) = new_ids rs"

lemma new_ids_append [simp]: "new_ids (rs @ qs) = new_ids rs @ new_ids qs"
  by (induction rs rule: new_ids.induct) simp_all

lemma gw_publish_sent: "gw_sent (gw_publish r env g) = gw_sent g @ (if env_taken env then [r] else [])"
  by (simp add: gw_publish_def)

text \<open>
  The invariant after at most \<open>n\<close> sends: the lookup is the inverse of the ids in the store, the ids
  lie between the base and the next id, and the new orders Aeron has taken are among them.
\<close>

definition om_inv :: "u64 \<Rightarrow> nat \<Rightarrow> order_manager \<Rightarrow> bool" where
  "om_inv b n om \<longleftrightarrow>
     map oo_order_id (om_store om) = om_placed om \<and>
     (\<forall>k i. map_of (om_lookup om) k = Some i \<longleftrightarrow> i < length (om_store om) \<and> om_placed om ! i = k) \<and>
     (\<forall>k\<in>set (om_placed om). unat b < unat k \<and> unat k < unat (om_next_order_id om)) \<and>
     unat b < unat (om_next_order_id om) \<and> unat (om_next_order_id om) \<le> unat b + 1 + n \<and>
     subseq (new_ids (gw_sent (om_gw om))) (om_placed om)"

lemma om_inv_mono: "om_inv b n om \<Longrightarrow> n \<le> m \<Longrightarrow> om_inv b m om"
  by (auto simp: om_inv_def)

lemma om_inv_distinct:
  assumes "om_inv b n om" shows "distinct (om_placed om)"
proof (rule distinct_conv_nth [THEN iffD2], intro allI impI)
  fix i j assume ij: "i < length (om_placed om)" "j < length (om_placed om)" "i \<noteq> j"
  have len: "length (om_store om) = length (om_placed om)"
    using assms by (metis om_inv_def length_map)
  then show "om_placed om ! i \<noteq> om_placed om ! j"
    using assms ij by (auto simp: om_inv_def) (metis option.inject)
qed

lemma om_inv_send:
  assumes inv: "om_inv b n om" and bound: "unat b + n + 2 < 2 ^ 64"
    and send: "om_send_new_order cache env req tag om = Some (h, om')"
  shows "om_inv b (Suc n) om'"
proof -
  have nx: "unat (om_next_order_id om) \<le> unat b + 1 + n" using inv by (simp add: om_inv_def)
  then have nx': "unat (om_next_order_id om + 1) = unat (om_next_order_id om) + 1"
    using bound by (intro unat_inc) simp
  from send_new_order_cases [OF send] show ?thesis
  proof (elim disjE exE conjE)
    assume "refused om h om'"
    then show ?thesis using inv nx' by (auto simp: om_inv_def refused_def)
  next
    fix r s assume p: "placed env r s om h om'"
    let ?id = "om_next_order_id om"
    have st: "om_store om' = om_store om @ [s]" "om_placed om' = om_placed om @ [?id]"
      "om_lookup om' = AList.update ?id (length (om_store om)) (om_lookup om)"
      "oo_order_id s = ?id" "om_next_order_id om' = ?id + 1" "on_order_id r = ?id"
      "gw_sent (om_gw om') = gw_sent (om_gw om) @ (if env_taken env then [Gw_New r] else [])"
      using p by (auto simp: placed_def gw_publish_sent)
    have len: "length (om_placed om) = length (om_store om)"
      using inv by (metis om_inv_def length_map)
    have fresh: "?id \<notin> set (om_placed om)" using inv by (force simp: om_inv_def)
    then have old: "map_of (om_lookup om) ?id = None"
    proof (cases "map_of (om_lookup om) ?id")
      case (Some i)
      then have "i < length (om_placed om)" "om_placed om ! i = ?id"
        using inv len by (auto simp: om_inv_def)
      then show ?thesis using fresh nth_mem by metis
    qed
    have look: "map_of (om_lookup om') k = Some i \<longleftrightarrow>
        i < length (om_store om') \<and> om_placed om' ! i = k" for k i
    proof (cases "i = length (om_store om)")
      case True
      then show ?thesis using inv len st by (auto simp: om_inv_def nth_append)
    next
      case False
      have "om_placed om ! i \<noteq> ?id" if "i < length (om_store om)"
        using fresh that len by (metis nth_mem)
      then show ?thesis using False inv len st by (auto simp: om_inv_def nth_append)
    qed
    have sub: "subseq (new_ids (gw_sent (om_gw om'))) (om_placed om')"
      using inv st by (auto simp: om_inv_def intro: list_emb_append_mono subseq_append' subseq_rev_drop_many)
    have rng: "unat b < unat k \<and> unat k < unat (om_next_order_id om')" if "k \<in> set (om_placed om')" for k
      using that inv st nx' by (auto simp: om_inv_def)
    have ids: "map oo_order_id (om_store om') = om_placed om'" using inv st by (simp add: om_inv_def)
    have nb: "unat b < unat (om_next_order_id om')" "unat (om_next_order_id om') \<le> unat b + 1 + Suc n"
      using inv nx' nx st(5) by (simp_all add: om_inv_def)
    show ?thesis unfolding om_inv_def using ids look rng nb sub by blast
  qed
qed

lemma om_inv_store:
  assumes "om_inv b n om" "i < length (om_store om) \<Longrightarrow> oo_order_id s = oo_order_id (om_store om ! i)"
  shows "om_inv b n (om\<lparr>om_store := (om_store om)[i := s]\<rparr>)"
proof -
  have "map oo_order_id ((om_store om)[i := s]) = map oo_order_id (om_store om)"
    using assms(2)
    by (cases "i < length (om_store om)")
      (simp_all add: map_update list_update_same_conv list_update_beyond)
  then show ?thesis using assms(1) by (simp add: om_inv_def)
qed

lemma om_inv_gw:
  "om_inv b n om \<Longrightarrow> new_ids (gw_sent g) = new_ids (gw_sent (om_gw om)) \<Longrightarrow> om_inv b n (om\<lparr>om_gw := g\<rparr>)"
  by (simp add: om_inv_def)

lemma om_inv_cancel_pending: "om_inv b n om \<Longrightarrow> om_inv b n (set_cancel_pending env i om)"
  unfolding set_cancel_pending_def by (rule om_inv_store) simp_all

lemma om_inv_publish:
  "om_inv b n om \<Longrightarrow> new_ids [r] = [] \<Longrightarrow> om_inv b n (om\<lparr>om_gw := gw_publish r env (om_gw om)\<rparr>)"
  by (rule om_inv_gw) (simp_all add: gw_publish_sent)

lemma om_inv_step:
  assumes inv: "om_inv b n om" and bound: "unat b + n + 2 < 2 ^ 64" and "om_step e om = Some om'"
  shows "om_inv b (Suc n) om'"
proof -
  obtain env ev where e: "e = (env, ev)" by (cases e)
  have same: "om_inv b (Suc n) om''" if "om_inv b n om''" for om''
    using om_inv_mono [OF that, of "Suc n"] by simp
  show ?thesis
  proof (cases ev)
    case (Om_New cache req tag)
    then show ?thesis using om_inv_send [OF inv bound] assms(3) e by auto
  next
    case (Om_Quote cache iid ex side p q tag)
    then show ?thesis using om_inv_send [OF inv bound] assms(3) e by (auto simp: om_send_quote_def)
  next
    case (Om_Modify_Quote cache h p q)
    then show ?thesis
      using assms(3) e inv
      by (auto simp: om_modify_quote_def gw_send_modify_def intro!: same om_inv_publish
          split: if_splits Option.bind_splits)
  next
    case (Om_Cancel h)
    then show ?thesis
      using assms(3) e inv
      by (auto simp: om_send_cancel_def gw_send_cancel_def Let_def
          intro!: same om_inv_publish om_inv_cancel_pending split: option.splits)
  next
    case (Om_Cancel_Request r)
    then show ?thesis
      using assms(3) e inv
      by (auto simp: om_send_cancel_request_def gw_send_cancel_def Let_def
          intro!: same om_inv_publish om_inv_cancel_pending split: option.splits)
  next
    case (Om_Report rpt)
    have "oo_order_id (apply_fill rpt s) = oo_order_id s" for s
      by (simp add: apply_fill_def Let_def)
    then show ?thesis
      using assms(3) e inv Om_Report
      by (auto simp: om_on_exec_report_def Let_def intro!: same om_inv_store split: option.splits)
  qed (use assms(3) e inv in \<open>auto simp: om_cancel_all_def om_modify_order_def gw_send_cancel_all_def
      gw_send_modify_def intro!: same om_inv_publish\<close>)
qed

lemma om_inv_run:
  "om_run es om = Some om' \<Longrightarrow> om_inv b n om \<Longrightarrow> unat b + n + length es + 1 < 2 ^ 64 \<Longrightarrow>
   om_inv b (n + length es) om'"
proof (induction es arbitrary: om n)
  case (Cons e es)
  then obtain om1 where "om_step e om = Some om1" "om_run es om1 = Some om'"
    by (auto split: option.splits)
  then show ?case using Cons.IH [of om1 "Suc n"] om_inv_step [OF Cons.prems(2), of e om1] Cons.prems(3)
    by simp
qed simp

lemma om_inv_init: "unat (make_session_base secs) + 1 < 2 ^ 64 \<Longrightarrow> om_inv (make_session_base secs) 0 (om_init secs)"
  by (simp add: om_inv_def om_init_def unat_inc)



subsection \<open>Examples\<close>

definition tenth_inst :: instrument where
  "tenth_inst =
     \<lparr> instrument_id = 7, symbol = ''BTC'', exchange = ''OKX'', base_currency = ''BTC'',
       quote_currency = ''USD'', i_type = PERPETUAL, i_status = ACTIVE, lot_size = Fin 1,
       tick_size = dlit (1 / 10), contract_size = Fin 1, expiry_date = 0, i_option_side = NA,
       strike_price = Fin 0 \<rparr>"

definition tenth_cache :: inst_cache where
  "tenth_cache = ic_seed [tenth_inst] ic_init"

definition sent_now :: send_env where
  "sent_now = \<lparr> env_now = 5, env_taken = True \<rparr>"

definition dropped_now :: send_env where
  "dropped_now = \<lparr> env_now = 5, env_taken = False \<rparr>"

definition sent_prices :: "order_manager \<Rightarrow> int list" where
  "sent_prices om = concat (map (\<lambda>r. case r of Gw_New n \<Rightarrow> [sint (on_price n)] | _ \<Rightarrow> []) (gw_sent (om_gw om)))"

lemma tenth_get: "ic_get 7 tenth_cache = Some tenth_inst"
  by (simp add: ic_get_def tenth_cache_def ic_seed_def insert_all_def emplace_def tenth_inst_def)

lemma tenth_rounds:
  "round_price False (dlit (7 / 20)) (dlit (1 / 10)) = Fin (1351079888211149 / 4503599627370496)"
  "round_price True (Fin (1351079888211149 / 4503599627370496)) (dlit (1 / 10)) =
     Fin (3602879701896397 / 9007199254740992)"
  "price_e8 (Fin (3602879701896397 / 9007199254740992)) = Some 40000000"
  "qty_e8 (Fin 1) = Some 100000000"
  "std_floor (Fin 1 div Fin 1) * Fin 1 = Fin 1" "(Fin 0 < dlit (1 / 10)) = True"
  "((40000000 :: i64) \<le>s 0) = False"
  by code_simp+

lemma tenth_fields:
  "i_status tenth_inst = ACTIVE" "tick_size tenth_inst = dlit (1 / 10)" "lot_size tenth_inst = Fin 1"
  "symbol tenth_inst = ''BTC''"
  by (simp_all add: tenth_inst_def)

lemma tenth_normalised:
  "normalise_and_validate tenth_cache 7 BUY OT_LIMIT (Fin (1351079888211149 / 4503599627370496)) (Fin 1) =
     Some (Fin (3602879701896397 / 9007199254740992), Fin 1, ''BTC'')"
  unfolding normalise_and_validate_def tenth_get option.case tenth_fields
  by (simp add: tenth_rounds)

text \<open>
  A passive buy quote can be sent above the price asked for. With a tick of
  a tenth, a buy quote at 0.35 is rounded down to three ticks, which the second rounding of the
  order path, upwards and on inexact doubles, turns into four: the order sent is at 0.40.
\<close>

theorem om_quote_above_request:
  "map_option (\<lambda>(h, om). sent_prices om)
     (om_send_quote tenth_cache sent_now 7 EX_OKX BUY (dlit (7 / 20)) (Fin 1) 0 (om_init 1)) = Some [40000000] \<and>
   price_e8 (dlit (7 / 20)) = Some 35000000"
proof -
  have q: "quote_price tenth_cache 7 BUY (dlit (7 / 20)) = Fin (1351079888211149 / 4503599627370496)"
    unfolding quote_price_def tenth_get option.case tenth_fields by (simp add: tenth_rounds)
  have "price_e8 (dlit (7 / 20)) = Some 35000000" by code_simp
  then show ?thesis
    by (simp add: om_send_quote_def q om_send_new_order_def tenth_normalised tenth_rounds
        gw_send_new_order_def gw_publish_def sent_now_def sent_prices_def om_init_def Let_def)
qed

definition buy_at_4 :: new_order_req where
  "buy_at_4 = \<lparr> rn_instrument_id = 7, rn_exchange_id = EX_OKX, rn_side = BUY, rn_type = OT_LIMIT,
     rn_tif = GTC, rn_price = Fin (1351079888211149 / 4503599627370496), rn_qty = Fin 1, rn_post_only = False \<rparr>"

lemma buy_sent:
  "\<exists>om'. om_send_new_order tenth_cache env buy_at_4 0 (om_init 1) = Some (Some 0, om') \<and>
     new_ids (gw_sent (om_gw om')) = (if env_taken env then [4294967297] else []) \<and>
     map oo_status (om_store om') = [Live] \<and> map oo_order_id (om_store om') = [4294967297] \<and>
     om_lookup om' = [(4294967297, 0)]"
  by (simp add: buy_at_4_def om_send_new_order_def tenth_normalised tenth_rounds gw_send_new_order_def
      gw_publish_def om_init_def make_session_base_def push_bit_eq_mult Let_def)


text \<open>
  An order that Aeron dropped is live for the strategy. When the
  publication does not take the message (no subscriber, publication closed), the call still gives
  a handle and the record is live, although nothing was sent.
\<close>

theorem om_dropped_order_looks_live:
  "case om_send_new_order tenth_cache dropped_now buy_at_4 0 (om_init 1) of
     Some (h, om') \<Rightarrow> h_live h om' \<and> gw_sent (om_gw om') = []
   | None \<Rightarrow> False"
  by (simp add: buy_at_4_def om_send_new_order_def tenth_normalised tenth_rounds gw_send_new_order_def
      gw_publish_def om_init_def dropped_now_def h_live_def om_state_def oo_live_def Let_def)

text \<open>
  A late acknowledgement revives an order. Whatever state a tracked order is in,
  filled, cancelled or waiting for its cancel, an \<open>ACKED\<close> report makes it live again, and a cancel
  for it is sent anew.
\<close>

theorem om_late_ack_revives:
  assumes "map_of (om_lookup om) (xr_order_id rpt) = Some i" "i < length (om_store om)"
    and "xr_status rpt = ES_ACKED" "env_taken env"
  shows "h_live (Some i) (om_on_exec_report now rpt om) \<and>
         length (gw_sent (om_gw (om_send_cancel env (Some i) (om_on_exec_report now rpt om)))) =
         length (gw_sent (om_gw om)) + 1"
  using assms
  by (simp add: om_on_exec_report_def h_live_def om_state_def oo_live_def Let_def om_send_cancel_def
      gw_send_cancel_def gw_publish_def set_cancel_pending_def)

definition cancelled_om :: order_manager where
  "cancelled_om = (om_init 1)\<lparr>om_store := [\<lparr> oo_order_id = 77, oo_instrument_id = 7, oo_exchange_id = EX_OKX,
     oo_side = BUY, oo_price = Fin 1, oo_qty = Fin 1, oo_filled_qty = Fin 0, oo_avg_fill_price = Fin 0,
     oo_status = Cancelled, oo_created_ns = 1, oo_last_update_ns = 1, oo_tag = 0 \<rparr>],
     om_lookup := [(77, 0)]\<rparr>"

theorem om_late_ack_revives_witness:
  "\<not> h_live (Some 0) cancelled_om \<and>
   h_live (Some 0) (om_on_exec_report 9 (demo_report\<lparr>xr_status := ES_ACKED\<rparr>) cancelled_om)"
  using om_late_ack_revives [of cancelled_om "demo_report\<lparr>xr_status := ES_ACKED\<rparr>" 0 sent_now 9]
  by (simp add: cancelled_om_def demo_report_def sent_now_def h_live_def [of _ "om_init 1\<lparr>om_store := _, om_lookup := _\<rparr>"]
      om_state_def oo_live_def)


end
