(* ===== verification/Strategy_Position.thy ===== *)
theory Strategy_Position
  imports Prelude Binary64 Messages
begin

text \<open>
  The strategy's own view of its positions: \<open>PositionTracker\<close>
  (\<open>bpt-strategy/src/strategy/position_tracker.cpp\<close>) and the comparison with the positions an
  exchange reports (\<open>reconciler.cpp\<close>). The rows of the repeating groups of an \<open>AccountSnapshot\<close>
  are lists. The theorems say when the comparison is clean and what a missed fill does to it.
\<close>

unbundle bit_operations_syntax

subsection \<open>Position tracker\<close>

record tracked_position =
  tp_net_qty :: i64
  tp_avg_price :: double
  tp_realized_pnl :: double

type_synonym position_tracker = "(u64, tracked_position) umap"

definition kPriceScale :: double where "kPriceScale = Fin 100000000"
definition kQtyScale :: double where "kQtyScale = Fin 100000000"

definition tp_key :: "u64 \<Rightarrow> exchange_id \<Rightarrow> u64" where
  "tp_key instrument_id exchange_id = push_bit 8 instrument_id OR of_nat (exchange_value exchange_id)"

definition tp_empty :: tracked_position where
  "tp_empty = \<lparr> tp_net_qty = 0, tp_avg_price = 0, tp_realized_pnl = 0 \<rparr>"

definition tp_buy :: "double \<Rightarrow> double \<Rightarrow> u64 \<Rightarrow> tracked_position \<Rightarrow> tracked_position" where
  "tp_buy price qty filled_qty pos =
     (let pos = (if 0 \<le>s tp_net_qty pos then
            (let prev_qty = d_of_int (sint (tp_net_qty pos)) div kQtyScale;
                 new_qty = prev_qty + qty
             in pos\<lparr>tp_avg_price := (tp_avg_price pos * prev_qty + price * qty) div new_qty\<rparr>)
          else
            (let short_qty = - d_of_int (sint (tp_net_qty pos)) div kQtyScale;
                 closed = std_min qty short_qty;
                 pos = pos\<lparr>tp_realized_pnl := tp_realized_pnl pos + closed * (tp_avg_price pos - price)\<rparr>
             in if short_qty \<le> qty
                then pos\<lparr>tp_avg_price := (if short_qty < qty then price else 0)\<rparr> else pos))
      in pos\<lparr>tp_net_qty := tp_net_qty pos + filled_qty\<rparr>)"

definition tp_sell :: "double \<Rightarrow> double \<Rightarrow> u64 \<Rightarrow> tracked_position \<Rightarrow> tracked_position" where
  "tp_sell price qty filled_qty pos =
     (let pos = (if tp_net_qty pos \<le>s 0 then
            (let prev_qty = - d_of_int (sint (tp_net_qty pos)) div kQtyScale;
                 new_qty = prev_qty + qty
             in pos\<lparr>tp_avg_price := (tp_avg_price pos * prev_qty + price * qty) div new_qty\<rparr>)
          else
            (let long_qty = d_of_int (sint (tp_net_qty pos)) div kQtyScale;
                 closed = std_min qty long_qty;
                 pos = pos\<lparr>tp_realized_pnl := tp_realized_pnl pos + closed * (price - tp_avg_price pos)\<rparr>
             in if long_qty \<le> qty
                then pos\<lparr>tp_avg_price := (if long_qty < qty then price else 0)\<rparr> else pos))
      in pos\<lparr>tp_net_qty := tp_net_qty pos - filled_qty\<rparr>)"

definition pos_or_empty :: "u64 \<Rightarrow> position_tracker \<Rightarrow> tracked_position" where
  "pos_or_empty k t = (case map_of t k of Some p \<Rightarrow> p | None \<Rightarrow> tp_empty)"

definition tp_on_fill :: "u64 \<Rightarrow> exchange_id \<Rightarrow> order_side \<Rightarrow> u64 \<Rightarrow> i64 \<Rightarrow> position_tracker \<Rightarrow> position_tracker" where
  "tp_on_fill iid ex side filled_qty fill_price t =
     (let k = tp_key iid ex;
          price = d_of_int (sint fill_price) div kPriceScale;
          qty = d_of_int (uint filled_qty) div kQtyScale;
          pos = pos_or_empty k t
      in AList.update k (if side = BUY then tp_buy price qty filled_qty pos
                         else tp_sell price qty filled_qty pos) t)"

definition tp_seed :: "u64 \<Rightarrow> exchange_id \<Rightarrow> i64 \<Rightarrow> double \<Rightarrow> position_tracker \<Rightarrow> position_tracker" where
  "tp_seed iid ex net_qty_e8 avg_price t =
     (let k = tp_key iid ex
      in AList.update k ((pos_or_empty k t)\<lparr>tp_net_qty := net_qty_e8, tp_avg_price := avg_price\<rparr>) t)"

definition tp_get :: "u64 \<Rightarrow> exchange_id \<Rightarrow> position_tracker \<Rightarrow> tracked_position option" where
  "tp_get iid ex t = map_of t (tp_key iid ex)"

definition tp_net :: "u64 \<Rightarrow> exchange_id \<Rightarrow> position_tracker \<Rightarrow> i64" where
  "tp_net iid ex t = (case map_of t (tp_key iid ex) of None \<Rightarrow> 0 | Some p \<Rightarrow> tp_net_qty p)"

definition tp_clear :: "u64 \<Rightarrow> exchange_id \<Rightarrow> position_tracker \<Rightarrow> position_tracker" where
  "tp_clear iid ex t = AList.delete (tp_key iid ex) t"

definition tp_clear_all :: "position_tracker \<Rightarrow> position_tracker" where
  "tp_clear_all t = []"

subsection \<open>Reconciler\<close>

record position_row =
  pr_symbol :: string
  pr_net_qty_e8 :: i64
  pr_avg_entry_e8 :: i64

record exchange_position_row =
  er_net_qty_e8 :: i64
  er_avg_entry_price :: double

record divergence =
  dv_instrument_id :: u64
  dv_exchange_id :: exchange_id
  dv_symbol :: string
  dv_our_net_qty :: i64
  dv_exchange_net_qty :: i64
  dv_diff :: i64

definition extract_exchange_positions :: "position_row list \<Rightarrow> (string, i64) umap" where
  "extract_exchange_positions rows = fold (\<lambda>r. AList.update (pr_symbol r) (pr_net_qty_e8 r)) rows []"

definition extract_exchange_position_rows :: "position_row list \<Rightarrow> (string, exchange_position_row) umap" where
  "extract_exchange_position_rows rows =
     fold (\<lambda>r. AList.update (pr_symbol r)
       \<lparr> er_net_qty_e8 = pr_net_qty_e8 r,
         er_avg_entry_price = d_of_int (sint (pr_avg_entry_e8 r)) div Fin 100000000 \<rparr>) rows []"

definition extract_exchange_currency_balances :: "(string \<times> i64) list \<Rightarrow> (string, i64) umap" where
  "extract_exchange_currency_balances rows = fold (\<lambda>(ccy, equity). AList.update ccy equity) rows []"

definition abs_i64 :: "i64 \<Rightarrow> i64" where
  "abs_i64 d = (if d <s 0 then - d else d)"

definition reconcile_one ::
  "position_tracker \<Rightarrow> (string, i64) umap \<Rightarrow> exchange_id \<Rightarrow> i64 \<Rightarrow> u64 \<times> string \<Rightarrow> divergence list" where
  "reconcile_one tracker by_symbol ex threshold m =
     (let (iid, sym') = m;
          our_qty = tp_net iid ex tracker;
          it = map_of by_symbol sym';
          exchange_qty = (case it of None \<Rightarrow> 0 | Some q \<Rightarrow> q);
          diff = our_qty - exchange_qty
      in if abs_i64 diff \<le>s threshold then []
         else [\<lparr> dv_instrument_id = iid, dv_exchange_id = ex,
                 dv_symbol = (if it = None then [] else sym'),
                 dv_our_net_qty = our_qty, dv_exchange_net_qty = exchange_qty, dv_diff = diff \<rparr>])"

definition reconcile ::
  "position_tracker \<Rightarrow> (string, i64) umap \<Rightarrow> exchange_id \<Rightarrow> (u64, string) umap \<Rightarrow> i64 \<Rightarrow> divergence list" where
  "reconcile tracker by_symbol ex id_to_symbol threshold =
     concat (map (reconcile_one tracker by_symbol ex threshold) id_to_symbol)"

definition reconcile_snapshot ::
  "position_tracker \<Rightarrow> exchange_id \<times> position_row list \<Rightarrow> (u64, string) umap \<Rightarrow> i64 \<Rightarrow> divergence list" where
  "reconcile_snapshot tracker snap id_to_symbol threshold =
     (let by_symbol = extract_exchange_positions (snd snap)
      in reconcile tracker by_symbol (fst snap) id_to_symbol threshold)"

subsection \<open>Positions are sums of fills\<close>

record fill =
  fl_instrument :: u64
  fl_exchange :: exchange_id
  fl_side :: order_side
  fl_qty :: u64
  fl_price :: i64

definition tp_apply :: "fill \<Rightarrow> position_tracker \<Rightarrow> position_tracker" where
  "tp_apply f = tp_on_fill (fl_instrument f) (fl_exchange f) (fl_side f) (fl_qty f) (fl_price f)"

definition fl_signed :: "fill \<Rightarrow> i64" where
  "fl_signed f = (if fl_side f = BUY then fl_qty f else - fl_qty f)"

definition fills_of :: "u64 \<Rightarrow> exchange_id \<Rightarrow> fill list \<Rightarrow> fill list" where
  "fills_of iid ex fs = filter (\<lambda>f. fl_instrument f = iid \<and> fl_exchange f = ex) fs"

definition net_of :: "u64 \<Rightarrow> exchange_id \<Rightarrow> fill list \<Rightarrow> i64" where
  "net_of iid ex fs = sum_list (map fl_signed (fills_of iid ex fs))"

lemma net_of_Cons:
  "net_of iid ex (f # fs) = (if fl_instrument f = iid \<and> fl_exchange f = ex then fl_signed f else 0) + net_of iid ex fs"
  by (simp add: net_of_def fills_of_def)

lemma net_of_append [simp]: "net_of iid ex (fs @ gs) = net_of iid ex fs + net_of iid ex gs"
  by (simp add: net_of_def fills_of_def)

lemma tp_buy_net: "tp_net_qty (tp_buy p q fq pos) = tp_net_qty pos + fq"
  by (simp add: tp_buy_def Let_def)

lemma tp_sell_net: "tp_net_qty (tp_sell p q fq pos) = tp_net_qty pos - fq"
  by (simp add: tp_sell_def Let_def)

lemma tp_key_parts:
  "take_bit 8 (tp_key i x) = of_nat (exchange_value x)"
  "drop_bit 8 (tp_key i x) = take_bit 56 i"
proof -
  have e: "(of_nat (exchange_value x) :: u64) = take_bit 8 (of_nat (exchange_value x))"
    by (cases x) simp_all
  show "take_bit 8 (tp_key i x) = of_nat (exchange_value x)"
    unfolding tp_key_def by (subst (1 2) e, rule bit_word_eqI) (auto simp: bit_simps)
  show "drop_bit 8 (tp_key i x) = take_bit 56 i"
    unfolding tp_key_def by (subst e, rule bit_word_eqI) (auto simp: bit_simps)
qed

lemma tp_key_inj:
  assumes "iid < 2 ^ 56" "iid' < 2 ^ 56"
  shows "tp_key iid ex = tp_key iid' ex' \<longleftrightarrow> iid = iid' \<and> ex = ex'"
proof
  assume eq: "tp_key iid ex = tp_key iid' ex'"
  have bound: "exchange_value x < 2 ^ LENGTH(64)" for x using exchange_value_le [of x] by simp
  have "(of_nat (exchange_value ex) :: u64) = of_nat (exchange_value ex')"
    using tp_key_parts(1) [of iid ex] tp_key_parts(1) [of iid' ex'] eq by simp
  then have ev: "exchange_value ex = exchange_value ex'" by (rule of_nat_inj_bound [OF bound bound])
  have self: "take_bit 56 j = j" if "j < 2 ^ 56" for j :: u64
    by (rule word_uint_eqI) (use that in \<open>simp add: unsigned_take_bit_eq take_bit_int_eq_self word_less_def\<close>)
  have "iid = iid'"
    using tp_key_parts(2) [of iid ex] tp_key_parts(2) [of iid' ex'] eq assms by (simp add: self)
  then show "iid = iid' \<and> ex = ex'" using ev by simp
qed simp

lemma tp_net_apply:
  assumes "fl_instrument f < 2 ^ 56" "iid < 2 ^ 56"
  shows "tp_net iid ex (tp_apply f t) =
     tp_net iid ex t + (if fl_instrument f = iid \<and> fl_exchange f = ex then fl_signed f else 0)"
proof -
  let ?k = "tp_key (fl_instrument f) (fl_exchange f)"
  obtain p where p: "tp_apply f t = AList.update ?k p t"
    and net: "tp_net_qty p = tp_net_qty (pos_or_empty ?k t) + fl_signed f"
    by (cases "fl_side f = BUY")
      (simp_all add: tp_apply_def tp_on_fill_def fl_signed_def tp_buy_net tp_sell_net Let_def)
  have empty: "tp_net_qty (pos_or_empty ?k t) = tp_net (fl_instrument f) (fl_exchange f) t"
    by (simp add: pos_or_empty_def tp_net_def tp_empty_def split: option.split)
  show ?thesis
  proof (cases "fl_instrument f = iid \<and> fl_exchange f = ex")
    case True
    then have "tp_net iid ex (tp_apply f t) = tp_net_qty p" by (auto simp: tp_net_def p)
    then show ?thesis using True net empty by auto
  next
    case False
    then have "tp_key iid ex \<noteq> ?k" using tp_key_inj [OF assms, of "fl_exchange f" ex] by auto
    then have "tp_net iid ex (tp_apply f t) = tp_net iid ex t"
      unfolding p tp_net_def by (simp add: update_conv')
    moreover have "(if fl_instrument f = iid \<and> fl_exchange f = ex then fl_signed f else 0) = 0"
      using False by auto
    ultimately show ?thesis by simp
  qed
qed

lemma tp_net_run:
  "list_all (\<lambda>f. fl_instrument f < 2 ^ 56) fs \<Longrightarrow> iid < 2 ^ 56 \<Longrightarrow>
   tp_net iid ex (fold tp_apply fs t) = tp_net iid ex t + net_of iid ex fs"
proof (induction fs arbitrary: t)
  case Nil
  then show ?case by (simp add: net_of_def fills_of_def)
next
  case (Cons f fs)
  then show ?case using tp_net_apply [of f iid ex t] by (simp add: net_of_Cons ac_simps)
qed

lemma tp_net_from_empty:
  "list_all (\<lambda>f. fl_instrument f < 2 ^ 56) fs \<Longrightarrow> iid < 2 ^ 56 \<Longrightarrow>
   tp_net iid ex (fold tp_apply fs []) = net_of iid ex fs"
  using tp_net_run [of fs iid ex "[]"] by (simp add: tp_net_def)

lemma reconcile_one_diff:
  "reconcile_one t m ex th (iid, sym') \<noteq> [] \<longleftrightarrow>
     \<not> abs_i64 (tp_net iid ex t - (case map_of m sym' of None \<Rightarrow> 0 | Some q \<Rightarrow> q)) \<le>s th"
  by (simp add: reconcile_one_def Let_def)

definition reported :: "(string, i64) umap \<Rightarrow> string \<Rightarrow> i64" where
  "reported by_symbol s = (case map_of by_symbol s of None \<Rightarrow> 0 | Some q \<Rightarrow> q)"

text \<open>
  C21: a missed fill is found. Start flat and let the strategy see every
  fill except one, \<open>f\<close>, while the exchange reports the sum of all fills for the instrument's symbol.
  The comparison then lists the instrument with exactly the negated signed quantity of \<open>f\<close> as its
  difference if the size of \<open>f\<close> exceeds the threshold, and it does not list the instrument if it
  does not.
\<close>

theorem reconcile_finds_missed_fill:
  assumes "list_all (\<lambda>f. fl_instrument f < 2 ^ 56) (as @ f # bs)"
    and "distinct (map fst ids)" "map_of ids (fl_instrument f) = Some s" "fl_exchange f = ex"
    and "reported by_symbol s = net_of (fl_instrument f) ex (as @ f # bs)"
  shows "map dv_diff (filter (\<lambda>d. dv_instrument_id d = fl_instrument f)
           (reconcile (fold tp_apply (as @ bs) []) by_symbol ex ids threshold)) =
         (if abs_i64 (- fl_signed f) \<le>s threshold then [] else [- fl_signed f])"
proof -
  let ?i = "fl_instrument f"
  define t where "t = fold tp_apply (as @ bs) []"
  have net: "tp_net ?i ex t = net_of ?i ex (as @ bs)"
    unfolding t_def by (rule tp_net_from_empty) (use assms(1) in auto)
  have diff: "tp_net ?i ex t - reported by_symbol s = - fl_signed f"
    unfolding net assms(5) using assms(4) by (simp add: net_of_Cons)
  have ids: "dv_instrument_id d = fst m" if "d \<in> set (reconcile_one t by_symbol ex threshold m)" for d m
    using that by (auto simp: reconcile_one_def Let_def split: prod.splits if_splits)
  have other: "filter (\<lambda>d. dv_instrument_id d = ?i) (reconcile_one t by_symbol ex threshold m) =
      (if fst m = ?i then reconcile_one t by_symbol ex threshold m else [])" for m
    using ids [of _ m] by (auto simp: filter_id_conv filter_empty_conv)
  have one: "concat (map (\<lambda>m. if fst m = ?i then g m else []) ms) = (case map_of ms ?i of Some x \<Rightarrow> g (?i, x) | None \<Rightarrow> [])"
    if "distinct (map fst ms)" for ms :: "(u64, string) umap" and g :: "u64 \<times> string \<Rightarrow> divergence list"
    using that
  proof (induction ms)
    case (Cons m ms)
    have "concat (map (\<lambda>m. if fst m = ?i then g m else []) ms) = []" if "?i \<notin> fst ` set ms"
      using that by (induction ms) auto
    then show ?case using Cons by (cases m) (auto simp: map_of_eq_None_iff split: option.splits)
  qed simp
  have "filter (\<lambda>d. dv_instrument_id d = ?i) (reconcile t by_symbol ex ids threshold) =
      concat (map (\<lambda>m. if fst m = ?i then reconcile_one t by_symbol ex threshold m else []) ids)"
    by (simp add: reconcile_def filter_concat comp_def other)
  also have "\<dots> = reconcile_one t by_symbol ex threshold (?i, s)"
    using one [OF assms(2)] assms(3) by simp
  finally show ?thesis
    using diff unfolding t_def [symmetric] by (simp add: reconcile_one_def Let_def reported_def)
qed

definition fill_a :: fill where
  "fill_a = \<lparr> fl_instrument = 7, fl_exchange = EX_OKX, fl_side = BUY, fl_qty = 300, fl_price = 100 \<rparr>"

definition fill_b :: fill where
  "fill_b = \<lparr> fl_instrument = 7, fl_exchange = EX_OKX, fl_side = SELL, fl_qty = 500, fl_price = 100 \<rparr>"

theorem reconcile_finds_missed_fill_witness:
  "map dv_diff (filter (\<lambda>d. dv_instrument_id d = 7)
     (reconcile (fold tp_apply [fill_a] []) [(''BTC'', -200)] EX_OKX [(7, ''BTC''), (8, ''ETH'')] 100)) = [500]"
  using reconcile_finds_missed_fill [of "[fill_a]" fill_b "[]" "[(7, ''BTC''), (8, ''ETH'')]" "''BTC''" EX_OKX
      "[(''BTC'', -200)]" 100]
  by (simp add: fill_a_def fill_b_def reported_def net_of_def fills_of_def fl_signed_def abs_i64_def
      word_sless_alt word_sle_eq)

end
