(* ===== verification/Graceful_Unwinder.thy ===== *)
theory Graceful_Unwinder
  imports Order_Manager Strategy_Position
begin

text \<open>
  The state machine that flattens the positions of a strategy when it shuts down
  (\<open>bpt-strategy/src/unwind/graceful_unwinder.cpp\<close>). It reads the position tracker and sends through
  the order manager, both shared with the strategy, so its operations take the tracker and return the
  order manager. The clock is an argument, and \<open>env k\<close> is what the publication does with the send
  for the record at position \<open>k\<close>. \<open>None\<close> is an undefined conversion or an exception.
\<close>

subsection \<open>State\<close>

definition kTag :: u8 where "kTag = 9"

record uw_config =
  uc_passive_timeout_s :: double
  uc_step_interval_s :: double
  uc_cross_bps :: double
  uc_max_retries :: u32

definition uw_config_default :: uw_config where
  "uw_config_default = \<lparr> uc_passive_timeout_s = Fin 45, uc_step_interval_s = Fin 8,
     uc_cross_bps = Fin 20, uc_max_retries = 3 \<rparr>"

record uw_instrument =
  ui_instrument_id :: u64
  ui_exchange_id :: exchange_id
  ui_tick_size :: double
  ui_lot_size :: double
  ui_symbol :: string
  ui_price_ref :: double

datatype uw_phase = kPassive | kIoc | kDone

record uw_record =
  ur_instrument_id :: u64
  ur_exchange_id :: exchange_id
  ur_tick_size :: double
  ur_lot_size :: double
  ur_symbol :: string
  ur_phase :: uw_phase
  ur_start_ns :: u64
  ur_last_step_ns :: u64
  ur_unwind_price :: double
  ur_h_unwind :: handle
  ur_retries_left :: u32
  ur_attempt :: u32

record unwinder =
  uw_cfg :: uw_config
  uw_records :: "uw_record list"

subsection \<open>Sending\<close>

definition net_of_position :: "position_tracker \<Rightarrow> u64 \<Rightarrow> exchange_id \<Rightarrow> double" where
  "net_of_position pos iid ex = d_of_int (sint (tp_net iid ex pos)) div Fin 100000000"

definition net_and_abs :: "position_tracker \<Rightarrow> uw_record \<Rightarrow> double \<times> double" where
  "net_and_abs pos r =
     (let net = net_of_position pos (ur_instrument_id r) (ur_exchange_id r) in (net, \<bar>net\<bar>))"

definition min_lot :: "double \<Rightarrow> double" where
  "min_lot lot = (if lot > 0 then lot else dlit (1 / 100000000))"

definition tick_or_default :: "double \<Rightarrow> double" where
  "tick_or_default t = (if t > 0 then t else dlit (1 / 100000000))"

definition side_of :: "double \<Rightarrow> order_side" where
  "side_of net = (if net > 0 then SELL else BUY)"

definition unwind_request :: "uw_record \<Rightarrow> order_side \<Rightarrow> time_in_force \<Rightarrow> double \<Rightarrow> double \<Rightarrow> new_order_req" where
  "unwind_request r side tif price qty =
     \<lparr> rn_instrument_id = ur_instrument_id r, rn_exchange_id = ur_exchange_id r, rn_side = side,
       rn_type = OT_LIMIT, rn_tif = tif, rn_price = price, rn_qty = qty, rn_post_only = False \<rparr>"

definition send_passive ::
  "inst_cache \<Rightarrow> send_env \<Rightarrow> order_side \<Rightarrow> double \<Rightarrow> uw_record \<Rightarrow> order_manager \<Rightarrow> (uw_record \<times> order_manager) option" where
  "send_passive cache env side qty r om =
     (if ur_unwind_price r \<le> 0 then Some (r, om)
      else
        let t = tick_or_default (ur_tick_size r);
            price = std_round (ur_unwind_price r div t) * t
        in do {
          (h, om) \<leftarrow> om_send_new_order cache env (unwind_request r side GTC price qty) kTag om;
          Some (r\<lparr>ur_h_unwind := h\<rparr>, om)
        })"

definition send_ioc ::
  "inst_cache \<Rightarrow> send_env \<Rightarrow> order_side \<Rightarrow> double \<Rightarrow> double \<Rightarrow> uw_record \<Rightarrow> order_manager \<Rightarrow> (uw_record \<times> order_manager) option" where
  "send_ioc cache env side qty cross_bps r om =
     (let factor = (if side = BUY then Fin 1 + cross_bps div Fin 10000 else Fin 1 - cross_bps div Fin 10000);
          price = ur_unwind_price r * factor
      in if price \<le> 0 then Some (r, om)
         else do {
           (h, om) \<leftarrow> om_send_new_order cache env (unwind_request r side IOC price qty) kTag om;
           Some (r\<lparr>ur_h_unwind := h\<rparr>, om)
         })"

definition advance_ioc ::
  "uw_config \<Rightarrow> inst_cache \<Rightarrow> send_env \<Rightarrow> position_tracker \<Rightarrow> uw_record \<Rightarrow> order_manager \<Rightarrow> (uw_record \<times> order_manager) option" where
  "advance_ioc cfg cache env pos r om =
     (let (net_qty, abs_qty) = net_and_abs pos r in
      if abs_qty < min_lot (ur_lot_size r) then Some (r\<lparr>ur_phase := kDone\<rparr>, om)
      else if ur_retries_left r = 0 then Some (r\<lparr>ur_phase := kDone\<rparr>, om)
      else
        let r = r\<lparr>ur_retries_left := ur_retries_left r - 1, ur_attempt := ur_attempt r + 1\<rparr>;
            cross = uc_cross_bps cfg + d_of_int (uint (ur_attempt r)) * Fin 10
        in send_ioc cache env (side_of net_qty) abs_qty cross r om)"

subsection \<open>Operations\<close>

definition arm_record :: "u64 \<Rightarrow> u32 \<Rightarrow> uw_instrument \<Rightarrow> uw_phase \<Rightarrow> double \<Rightarrow> uw_record" where
  "arm_record t retries inst phase price =
     \<lparr> ur_instrument_id = ui_instrument_id inst, ur_exchange_id = ui_exchange_id inst,
       ur_tick_size = ui_tick_size inst, ur_lot_size = ui_lot_size inst, ur_symbol = ui_symbol inst,
       ur_phase = phase, ur_start_ns = t, ur_last_step_ns = t, ur_unwind_price = price,
       ur_h_unwind = None, ur_retries_left = retries, ur_attempt = 0 \<rparr>"

fun arm_all ::
  "uw_config \<Rightarrow> inst_cache \<Rightarrow> position_tracker \<Rightarrow> u64 \<Rightarrow> (nat \<Rightarrow> send_env) \<Rightarrow> nat \<Rightarrow> uw_instrument list \<Rightarrow>
   order_manager \<Rightarrow> (uw_record list \<times> order_manager) option" where
  "arm_all cfg cache pos t env k [] om = Some ([], om)"
| "arm_all cfg cache pos t env k (inst # insts) om =
     (let net_qty = net_of_position pos (ui_instrument_id inst) (ui_exchange_id inst); abs_qty = \<bar>net_qty\<bar> in
      if abs_qty < min_lot (ui_lot_size inst) then arm_all cfg cache pos t env (Suc k) insts om
      else do {
        (r, om) \<leftarrow> (if ui_price_ref inst \<le> 0 then Some (arm_record t (uc_max_retries cfg) inst kIoc (Fin 0), om)
                  else send_passive cache (env k) (side_of net_qty) abs_qty
                         (arm_record t (uc_max_retries cfg) inst kPassive (ui_price_ref inst)) om);
        (rs, om) \<leftarrow> arm_all cfg cache pos t env (Suc k) insts om;
        Some (r # rs, om)
      })"

definition uw_arm ::
  "inst_cache \<Rightarrow> position_tracker \<Rightarrow> u64 \<Rightarrow> (nat \<Rightarrow> send_env) \<Rightarrow> uw_instrument list \<Rightarrow> unwinder \<Rightarrow> order_manager \<Rightarrow>
   (unwinder \<times> order_manager) option" where
  "uw_arm cache pos t env insts u om = do {
     (rs, om) \<leftarrow> arm_all (uw_cfg u) cache pos t env 0 insts om;
     Some (u\<lparr>uw_records := rs\<rparr>, om)
   }"

definition tick_record ::
  "uw_config \<Rightarrow> u64 \<Rightarrow> u64 \<Rightarrow> inst_cache \<Rightarrow> send_env \<Rightarrow> position_tracker \<Rightarrow> u64 \<Rightarrow> uw_record \<Rightarrow> order_manager \<Rightarrow>
   (uw_record \<times> order_manager) option" where
  "tick_record cfg step_ns timeout_ns cache env pos t r om =
     (if ur_phase r \<noteq> kPassive then Some (r, om)
      else
        let (net_qty, abs_qty) = net_and_abs pos r in
        if abs_qty < min_lot (ur_lot_size r) then Some (r\<lparr>ur_phase := kDone\<rparr>, om)
        else
          let side = side_of net_qty in
          if timeout_ns \<le> t - ur_start_ns r then
            let r = r\<lparr>ur_phase := kIoc\<rparr> in
            if h_live (ur_h_unwind r) om then Some (r, om_send_cancel env (ur_h_unwind r) om)
            else advance_ioc cfg cache env pos r om
          else if step_ns \<le> t - ur_last_step_ns r then
            let tk = tick_or_default (ur_tick_size r);
                r = r\<lparr>ur_unwind_price := ur_unwind_price r + (if side = BUY then tk else - tk),
                      ur_last_step_ns := t\<rparr>
            in if h_live (ur_h_unwind r) om then Some (r, om_send_cancel env (ur_h_unwind r) om)
               else send_passive cache env side abs_qty r om
          else Some (r, om))"

fun tick_all ::
  "(nat \<Rightarrow> uw_record \<Rightarrow> order_manager \<Rightarrow> (uw_record \<times> order_manager) option) \<Rightarrow> nat \<Rightarrow> uw_record list \<Rightarrow> order_manager \<Rightarrow>
   (uw_record list \<times> order_manager) option" where
  "tick_all f k [] om = Some ([], om)"
| "tick_all f k (r # rs) om = do {
     (r, om) \<leftarrow> f k r om;
     (rs, om) \<leftarrow> tick_all f (Suc k) rs om;
     Some (r # rs, om)
   }"

definition seconds_to_ns :: "double \<Rightarrow> u64 option" where
  "seconds_to_ns s = map_option of_int (d_to_int 0 (2 ^ 64) (s * Fin 1000000000))"

definition uw_tick ::
  "inst_cache \<Rightarrow> position_tracker \<Rightarrow> u64 \<Rightarrow> (nat \<Rightarrow> send_env) \<Rightarrow> unwinder \<Rightarrow> order_manager \<Rightarrow> (unwinder \<times> order_manager) option" where
  "uw_tick cache pos t env u om = do {
     step_ns \<leftarrow> seconds_to_ns (uc_step_interval_s (uw_cfg u));
     timeout_ns \<leftarrow> seconds_to_ns (uc_passive_timeout_s (uw_cfg u));
     (rs, om) \<leftarrow> tick_all (\<lambda>k. tick_record (uw_cfg u) step_ns timeout_ns cache (env k) pos t) 0 (uw_records u) om;
     Some (u\<lparr>uw_records := rs\<rparr>, om)
   }"

definition report_record ::
  "uw_config \<Rightarrow> inst_cache \<Rightarrow> send_env \<Rightarrow> position_tracker \<Rightarrow> uw_record \<Rightarrow> order_manager \<Rightarrow> (uw_record \<times> order_manager) option" where
  "report_record cfg cache env pos r om =
     (let r = r\<lparr>ur_h_unwind := None\<rparr>;
          (net_qty, abs_qty) = net_and_abs pos r
      in if abs_qty < min_lot (ur_lot_size r) then Some (r\<lparr>ur_phase := kDone\<rparr>, om)
         else if ur_phase r = kPassive then send_passive cache env (side_of net_qty) abs_qty r om
         else if ur_phase r = kIoc then advance_ioc cfg cache env pos r om
         else Some (r, om))"

definition waits_for :: "u64 \<Rightarrow> u64 \<Rightarrow> order_manager \<Rightarrow> uw_record \<Rightarrow> bool" where
  "waits_for iid oid om r \<longleftrightarrow> ur_instrument_id r = iid \<and> h_valid (ur_h_unwind r) \<and> h_order_id (ur_h_unwind r) om = oid"

fun report_all ::
  "(uw_record \<Rightarrow> bool) \<Rightarrow> (uw_record \<Rightarrow> order_manager \<Rightarrow> (uw_record \<times> order_manager) option) \<Rightarrow> uw_record list \<Rightarrow>
   order_manager \<Rightarrow> (uw_record list \<times> order_manager) option" where
  "report_all sel f [] om = Some ([], om)"
| "report_all sel f (r # rs) om =
     (if sel r then do { (r, om) \<leftarrow> f r om; Some (r # rs, om) }
      else do { (rs, om) \<leftarrow> report_all sel f rs om; Some (r # rs, om) })"

definition uw_on_exec_report ::
  "inst_cache \<Rightarrow> position_tracker \<Rightarrow> send_env \<Rightarrow> exec_report \<Rightarrow> unwinder \<Rightarrow> order_manager \<Rightarrow> (unwinder \<times> order_manager) option" where
  "uw_on_exec_report cache pos env rpt u om =
     (if \<not> (xr_status rpt = ES_FILLED \<or> xr_status rpt = ES_CANCELLED \<or> xr_status rpt = ES_REJECTED) then Some (u, om)
      else do {
        (rs, om) \<leftarrow> report_all (waits_for (xr_instrument_id rpt) (xr_order_id rpt) om)
                    (report_record (uw_cfg u) cache env pos) (uw_records u) om;
        Some (u\<lparr>uw_records := rs\<rparr>, om)
      })"

definition uw_pending :: "unwinder \<Rightarrow> bool" where
  "uw_pending u \<longleftrightarrow> list_ex (\<lambda>r. ur_phase r \<noteq> kDone) (uw_records u)"

definition drain_budget_s :: "unwinder \<Rightarrow> double" where
  "drain_budget_s u =
     uc_passive_timeout_s (uw_cfg u) + d_of_int (uint (uc_max_retries (uw_cfg u))) * Fin 5 + Fin 15"

subsection \<open>Runs\<close>

text \<open>
  What the shutdown loop of the strategy does: it arms the unwinder, ticks, and hands reports first to
  the order manager and then to the unwinder. The positions at each call are whatever the tracker
  then holds.
\<close>

datatype uw_event =
    Ue_Arm inst_cache position_tracker u64 "nat \<Rightarrow> send_env" "uw_instrument list"
  | Ue_Tick inst_cache position_tracker u64 "nat \<Rightarrow> send_env"
  | Ue_Report inst_cache position_tracker send_env exec_report
  | Ue_Om_Report u64 exec_report

fun uw_step :: "uw_event \<Rightarrow> unwinder \<times> order_manager \<Rightarrow> (unwinder \<times> order_manager) option" where
  "uw_step (Ue_Arm cache pos t env insts) (u, om) = uw_arm cache pos t env insts u om"
| "uw_step (Ue_Tick cache pos t env) (u, om) = uw_tick cache pos t env u om"
| "uw_step (Ue_Report cache pos env rpt) (u, om) = uw_on_exec_report cache pos env rpt u om"
| "uw_step (Ue_Om_Report now rpt) (u, om) = Some (u, om_on_exec_report now rpt om)"

fun uw_run :: "uw_event list \<Rightarrow> unwinder \<times> order_manager \<Rightarrow> (unwinder \<times> order_manager) option" where
  "uw_run [] s = Some s"
| "uw_run (e # es) s = (case uw_step e s of None \<Rightarrow> None | Some s \<Rightarrow> uw_run es s)"

fun ev_positions :: "uw_event \<Rightarrow> position_tracker" where
  "ev_positions (Ue_Arm cache pos t env insts) = pos"
| "ev_positions (Ue_Tick cache pos t env) = pos"
| "ev_positions (Ue_Report cache pos env rpt) = pos"
| "ev_positions (Ue_Om_Report now rpt) = []"

fun is_arm :: "uw_event \<Rightarrow> bool" where
  "is_arm (Ue_Arm cache pos t env insts) = True"
| "is_arm _ = False"

subsection \<open>Every order closes a position\<close>

definition sent :: "order_manager \<Rightarrow> gw_request list" where
  "sent om = gw_sent (om_gw om)"

definition emits :: "(gw_request \<Rightarrow> bool) \<Rightarrow> order_manager \<Rightarrow> order_manager \<Rightarrow> bool" where
  "emits P om om' \<longleftrightarrow> (\<exists>ms. sent om' = sent om @ ms \<and> list_all P ms)"

fun closing :: "position_tracker \<Rightarrow> gw_request \<Rightarrow> bool" where
  "closing pos (Gw_New r) \<longleftrightarrow> on_order_type r = OT_LIMIT \<and>
     (on_side r = SELL \<and> 0 <s tp_net (on_instrument_id r) (on_exchange_id r) pos \<or>
      on_side r = BUY \<and> tp_net (on_instrument_id r) (on_exchange_id r) pos <s 0)"
| "closing pos (Gw_Cancel r) \<longleftrightarrow> True"
| "closing pos _ \<longleftrightarrow> False"

lemma emits_refl [simp, intro]: "emits P om om"
  by (simp add: emits_def)

lemma emits_trans: "emits P a b \<Longrightarrow> emits P b c \<Longrightarrow> emits P a c"
  by (auto simp: emits_def)

lemma emits_cancel: "\<forall>r. P (Gw_Cancel r) \<Longrightarrow> emits P om (om_send_cancel env h om)"
  by (auto simp: emits_def sent_def om_send_cancel_def set_cancel_pending_def gw_send_cancel_def gw_publish_def
      Let_def split: option.split)

lemma unwind_order_sent:
  assumes "om_send_new_order cache env (unwind_request r side tif price qty) tag om = Some (h, om')"
  shows "sent om' = sent om \<or>
    (\<exists>x. sent om' = sent om @ [Gw_New x] \<and> on_instrument_id x = ur_instrument_id r \<and>
         on_exchange_id x = ur_exchange_id r \<and> on_side x = side \<and> on_tif x = tif \<and> on_order_type x = OT_LIMIT)"
  using send_new_order_cases [OF assms]
  by (auto simp: sent_def refused_def placed_def gw_publish_def unwind_request_def)

lemma div_e8_nonneg: "Fin 0 \<le> x \<Longrightarrow> Fin 0 \<le> x div Fin 100000000"
  by (cases x) (simp_all add: d_div_Fin to_double_nonneg divide_double_def d_inf_def)

lemma div_e8_nonpos: "x \<le> Fin 0 \<Longrightarrow> x div Fin 100000000 \<le> Fin 0"
  by (cases x) (simp_all add: d_div_Fin to_double_nonpos divide_double_def d_inf_def)

lemma div_e8_not_NaN: "x \<noteq> NaN \<Longrightarrow> x div Fin 100000000 \<noteq> NaN"
  by (cases x) (simp_all add: d_div_Fin divide_double_def d_inf_def)

lemma net_sign:
  assumes "n = net_of_position pos iid ex"
  shows "Fin 0 < n \<Longrightarrow> 0 <s tp_net iid ex pos" "n < Fin 0 \<Longrightarrow> tp_net iid ex pos <s 0" "n \<noteq> NaN"
proof -
  let ?z = "sint (tp_net iid ex pos)"
  have zero: "d_of_int 0 = Fin 0" by (simp add: d_of_int_def)
  have "0 < ?z" if "Fin 0 < n"
  proof (rule ccontr)
    assume "\<not> 0 < ?z"
    then have "n \<le> Fin 0"
      using d_of_int_mono [of ?z 0] by (simp add: zero assms net_of_position_def div_e8_nonpos)
    from d_less_le_trans [OF that this] show False by simp
  qed
  then show "Fin 0 < n \<Longrightarrow> 0 <s tp_net iid ex pos" by (simp add: word_sless_alt)
  have "?z < 0" if "n < Fin 0"
  proof (rule ccontr)
    assume "\<not> ?z < 0"
    then have "Fin 0 \<le> n"
      using d_of_int_mono [of 0 ?z] by (simp add: zero assms net_of_position_def div_e8_nonneg)
    from d_less_le_trans [OF that this] show False by simp
  qed
  then show "n < Fin 0 \<Longrightarrow> tp_net iid ex pos <s 0" by (simp add: word_sless_alt)
  show "n \<noteq> NaN" by (simp add: assms net_of_position_def div_e8_not_NaN)
qed

lemma min_lot_pos: "Fin 0 < min_lot lot"
proof -
  have "Fin 0 < dlit (1 / 100000000)" by code_simp
  then show ?thesis by (simp add: min_lot_def)
qed

lemma unwind_side_closes:
  assumes n: "n = net_of_position pos iid ex" and open_pos: "\<not> \<bar>n\<bar> < min_lot lot"
  shows "side_of n = SELL \<and> 0 <s tp_net iid ex pos \<or> side_of n = BUY \<and> tp_net iid ex pos <s 0"
proof -
  have "n \<noteq> Fin 0" using open_pos min_lot_pos [of lot] by auto
  then have "Fin 0 < n \<or> n < Fin 0" using d_linear [of n "Fin 0"] net_sign(3) [OF n] by auto
  then show ?thesis
    using net_sign(1,2) [OF n] d_less_asym [of n "Fin 0"] by (auto simp: side_of_def)
qed

subsection \<open>The retries bound the immediate orders\<close>

fun is_ioc :: "gw_request \<Rightarrow> bool" where
  "is_ioc (Gw_New r) \<longleftrightarrow> on_tif r = IOC"
| "is_ioc _ \<longleftrightarrow> False"

definition iocs :: "order_manager \<Rightarrow> nat" where
  "iocs om = length (filter is_ioc (sent om))"

definition budget :: "uw_record list \<Rightarrow> nat" where
  "budget rs = (\<Sum>r\<leftarrow>rs. unat (ur_retries_left r))"

lemma budget_simps [simp]: "budget [] = 0" "budget (r # rs) = unat (ur_retries_left r) + budget rs"
  by (simp_all add: budget_def)

text \<open>
  What a call may do to a record and to the order manager: all it sends closes the position, and every
  immediate order is paid for with a retry, up to a credit \<open>n\<close>.
\<close>

definition acts :: "position_tracker \<Rightarrow> nat \<Rightarrow> uw_record \<Rightarrow> order_manager \<Rightarrow> (uw_record \<times> order_manager) option \<Rightarrow> bool" where
  "acts pos n r om res \<longleftrightarrow> (case res of
     Some (r', om') \<Rightarrow> emits (closing pos) om om' \<and>
       iocs om' + unat (ur_retries_left r') \<le> iocs om + unat (ur_retries_left r) + n
   | None \<Rightarrow> True)"

definition acts_all ::
  "position_tracker \<Rightarrow> nat \<Rightarrow> order_manager \<Rightarrow> (uw_record list \<times> order_manager) option \<Rightarrow> bool" where
  "acts_all pos n om res \<longleftrightarrow> (case res of
     Some (rs', om') \<Rightarrow> emits (closing pos) om om' \<and> iocs om' + budget rs' \<le> iocs om + n
   | None \<Rightarrow> True)"

lemma acts_cong: "ur_retries_left r' = ur_retries_left r \<Longrightarrow> acts pos n r om x \<longleftrightarrow> acts pos n r' om x"
  by (cases x) (auto simp: acts_def)

abbreviation open_side :: "position_tracker \<Rightarrow> uw_record \<Rightarrow> order_side \<Rightarrow> bool" where
  "open_side pos r side \<equiv>
     side = SELL \<and> 0 <s tp_net (ur_instrument_id r) (ur_exchange_id r) pos \<or>
     side = BUY \<and> tp_net (ur_instrument_id r) (ur_exchange_id r) pos <s 0"

lemma unwind_order_acts:
  assumes "om_send_new_order cache env (unwind_request r side tif price qty) tag om = Some (h, om')"
    and "open_side pos r side"
  shows "emits (closing pos) om om' \<and> iocs om' \<le> iocs om + (if tif = IOC then 1 else 0)"
  using unwind_order_sent [OF assms(1)] assms(2) by (auto simp: emits_def iocs_def)

lemma cancel_iocs [simp]: "iocs (om_send_cancel env h om) = iocs om"
  by (auto simp: iocs_def sent_def om_send_cancel_def set_cancel_pending_def gw_send_cancel_def gw_publish_def
      Let_def split: option.split)

lemma send_passive_acts: "open_side pos r side \<Longrightarrow> acts pos 0 r om (send_passive cache env side qty r om)"
  using unwind_order_acts [of cache env r side GTC _ qty kTag om _ _ pos]
  by (auto simp: send_passive_def acts_def Let_def split: option.split Option.bind_split)

lemma send_ioc_acts: "open_side pos r side \<Longrightarrow> acts pos 1 r om (send_ioc cache env side qty cross r om)"
  using unwind_order_acts [of cache env r side IOC _ qty kTag om _ _ pos]
  by (fastforce simp: send_ioc_def acts_def Let_def split: option.split Option.bind_split)

lemma open_side_net:
  "net_and_abs pos r = (n, a) \<Longrightarrow> \<not> a < min_lot lot \<Longrightarrow> open_side pos r (side_of n)"
  using unwind_side_closes [OF refl] by (auto simp: net_and_abs_def Let_def)

lemma advance_ioc_acts: "acts pos 0 r om (advance_ioc cfg cache env pos r om)"
proof -
  obtain n a where na: "net_and_abs pos r = (n, a)" by fastforce
  show ?thesis
  proof (cases "a < min_lot (ur_lot_size r) \<or> ur_retries_left r = 0")
    case True
    then show ?thesis by (auto simp: advance_ioc_def na acts_def)
  next
    case False
    define r' where "r' = r\<lparr>ur_retries_left := ur_retries_left r - 1, ur_attempt := ur_attempt r + 1\<rparr>"
    define cross where "cross = uc_cross_bps cfg + d_of_int (uint (ur_attempt r')) * Fin 10"
    have "open_side pos r' (side_of n)" using open_side_net [OF na, of "ur_lot_size r"] False by (simp add: r'_def)
    then have "acts pos 1 r' om (send_ioc cache env (side_of n) a cross r' om)" by (rule send_ioc_acts)
    moreover have "unat (ur_retries_left r') + 1 = unat (ur_retries_left r)"
      using False by (simp add: r'_def unat_minus_one) (metis One_nat_def Suc_pred unat_gt_0)
    moreover have "advance_ioc cfg cache env pos r om = send_ioc cache env (side_of n) a cross r' om"
      using False by (simp add: advance_ioc_def na r'_def cross_def Let_def)
    ultimately show ?thesis by (auto simp: acts_def split: option.splits)
  qed
qed

lemma tick_record_acts: "acts pos 0 r om (tick_record cfg step timeout cache env pos t r om)"
proof -
  obtain n a where na: "net_and_abs pos r = (n, a)" by fastforce
  show ?thesis
  proof (cases "ur_phase r \<noteq> kPassive \<or> a < min_lot (ur_lot_size r)")
    case True
    then show ?thesis by (auto simp: tick_record_def na acts_def)
  next
    case False
    have act: "acts pos 0 r om (Some (r', om_send_cancel env h om))" if "ur_retries_left r' = ur_retries_left r" for r' h
      using that emits_cancel [of "closing pos" om env h] by (simp add: acts_def)
    have ioc: "acts pos 0 r om (advance_ioc cfg cache env pos r' om)" if "ur_retries_left r' = ur_retries_left r" for r'
      using advance_ioc_acts [of pos r' om cfg cache env] acts_cong [OF that] by simp
    have pas: "acts pos 0 r om (send_passive cache env s a r' om)"
      if "ur_retries_left r' = ur_retries_left r" "ur_instrument_id r' = ur_instrument_id r"
        "ur_exchange_id r' = ur_exchange_id r" "side_of n = s" for r' s
      using that(2-) send_passive_acts [where pos = pos and r = r' and side = "side_of n" and om = om and cache = cache and env = env and qty = a]
        open_side_net [OF na, of "ur_lot_size r"] False acts_cong [OF that(1)] by simp
    show ?thesis
      using False by (auto simp: tick_record_def na Let_def acts_def [of _ _ _ _ "Some (r, om)"] intro!: act ioc pas)
  qed
qed

lemma report_record_acts: "acts pos 0 r om (report_record cfg cache env pos r om)"
proof -
  define r' where "r' = r\<lparr>ur_h_unwind := None\<rparr>"
  have same: "acts pos 0 r om x \<longleftrightarrow> acts pos 0 r' om x" for x
    by (rule acts_cong) (simp add: r'_def)
  obtain n a where na: "net_and_abs pos r' = (n, a)" by fastforce
  have pas: "acts pos 0 r' om (send_passive cache env (side_of n) a r' om)" if "\<not> a < min_lot (ur_lot_size r')"
    using send_passive_acts open_side_net [OF na that] by blast
  show ?thesis
    unfolding same using pas
    by (auto simp: report_record_def r'_def [symmetric] na Let_def acts_def [of _ _ _ _ "Some _"] intro: advance_ioc_acts)
qed

lemma acts_all_Cons:
  assumes head: "\<And>r om1. head = Some (r, om1) \<Longrightarrow>
      emits (closing pos) om om1 \<and> iocs om1 + unat (ur_retries_left r) \<le> iocs om + a"
    and tail: "\<And>om1. acts_all pos b om1 (f om1)"
  shows "acts_all pos (a + b) om (do { (r, om) \<leftarrow> head; (rs, om) \<leftarrow> f om; Some (r # rs, om) })"
proof -
  have "emits (closing pos) om om2 \<and> iocs om2 + (unat (ur_retries_left r) + budget rs) \<le> iocs om + (a + b)"
    if "head = Some (r, om1)" "f om1 = Some (rs, om2)" for r om1 rs om2
    using head [OF that(1)] tail [of om1] that(2) emits_trans [of "closing pos" om om1 om2]
    by (simp add: acts_all_def)
  then show ?thesis by (auto simp: acts_all_def split: option.split Option.bind_split)
qed

lemma arm_all_acts:
  "acts_all pos (length insts * unat (uc_max_retries cfg)) om (arm_all cfg cache pos t env k insts om)"
proof (induction insts arbitrary: k om)
  case Nil
  show ?case by (simp add: acts_all_def)
next
  case (Cons inst insts)
  let ?m = "unat (uc_max_retries cfg)"
  define net where "net = net_of_position pos (ui_instrument_id inst) (ui_exchange_id inst)"
  define r0 where "r0 p x = arm_record t (uc_max_retries cfg) inst p x" for p x
  show ?case
  proof (cases "\<bar>net\<bar> < min_lot (ui_lot_size inst)")
    case True
    then have "arm_all cfg cache pos t env k (inst # insts) om = arm_all cfg cache pos t env (Suc k) insts om"
      by (simp add: net_def [symmetric])
    then show ?thesis
      using Cons.IH [of om "Suc k"] by (fastforce simp: acts_all_def split: option.splits)
  next
    case False
    have "open_side pos (r0 kPassive (ui_price_ref inst)) (side_of net)"
      using unwind_side_closes [OF net_def False] by (simp add: r0_def arm_record_def)
    then have pas: "acts pos 0 (r0 kPassive (ui_price_ref inst)) om
        (send_passive cache (env k) (side_of net) \<bar>net\<bar> (r0 kPassive (ui_price_ref inst)) om)"
      by (rule send_passive_acts)
    define head where "head = (if ui_price_ref inst \<le> 0 then Some (r0 kIoc (Fin 0), om)
        else send_passive cache (env k) (side_of net) \<bar>net\<bar> (r0 kPassive (ui_price_ref inst)) om)"
    have head: "emits (closing pos) om om1 \<and> iocs om1 + unat (ur_retries_left r) \<le> iocs om + ?m"
      if "head = Some (r, om1)" for r om1
      using that pas by (auto simp: head_def acts_def r0_def arm_record_def split: if_splits)
    have eq: "arm_all cfg cache pos t env k (inst # insts) om =
        do { (r, om) \<leftarrow> head; (rs, om) \<leftarrow> arm_all cfg cache pos t env (Suc k) insts om; Some (r # rs, om) }"
      using False by (simp add: head_def r0_def net_def [symmetric] Let_def)
    show ?thesis
      unfolding eq using acts_all_Cons [where om = om, OF head Cons.IH [where k = "Suc k"]] by (simp add: ac_simps)
  qed
qed

lemma tick_all_acts:
  assumes "\<And>k r om. acts pos 0 r om (f k r om)"
  shows "acts_all pos (budget rs) om (tick_all f k rs om)"
proof (induction rs arbitrary: k om)
  case Nil
  show ?case by (simp add: acts_all_def)
next
  case (Cons r rs)
  have "emits (closing pos) om om1 \<and> iocs om1 + unat (ur_retries_left r') \<le> iocs om + unat (ur_retries_left r)"
    if "f k r om = Some (r', om1)" for r' om1
    using assms [of r om k] that by (simp add: acts_def)
  from acts_all_Cons [where om = om, OF this Cons.IH [where k = "Suc k"]] show ?case by simp
qed

lemma report_all_acts:
  assumes "\<And>r om. acts pos 0 r om (f r om)"
  shows "acts_all pos (budget rs) om (report_all sel f rs om)"
proof (induction rs)
  case Nil
  show ?case by (simp add: acts_all_def)
next
  case (Cons r rs)
  show ?case
  proof (cases "sel r")
    case True
    then show ?thesis
      using assms [of r om] by (auto simp: acts_def acts_all_def split: option.splits Option.bind_splits)
  next
    case False
    then show ?thesis
      using Cons.IH by (auto simp: acts_all_def split: option.splits Option.bind_splits)
  qed
qed

text \<open>What every call to the unwinder or to the order manager does to the requests sent.\<close>

fun armed :: "u32 \<Rightarrow> uw_event \<Rightarrow> nat" where
  "armed retries (Ue_Arm cache pos t env insts) = length insts * unat retries"
| "armed retries _ = 0"

lemma uw_step_acts:
  assumes "uw_step e (u, om) = Some (u', om')"
  shows "emits (closing (ev_positions e)) om om' \<and> uw_cfg u' = uw_cfg u \<and>
    iocs om' + budget (uw_records u') \<le>
      iocs om + budget (uw_records u) + armed (uc_max_retries (uw_cfg u)) e"
proof (cases e)
  case (Ue_Arm cache pos t env insts)
  then show ?thesis
    using assms arm_all_acts [of pos insts "uw_cfg u" om cache t env 0]
    by (auto simp: uw_arm_def acts_all_def split: Option.bind_splits)
next
  case (Ue_Tick cache pos t env)
  have "acts_all pos (budget (uw_records u)) om (tick_all (\<lambda>k. tick_record (uw_cfg u) s d cache (env k) pos t) 0 (uw_records u) om)"
    for s d by (intro tick_all_acts tick_record_acts)
  note all = this
  obtain s d rs where run: "tick_all (\<lambda>k. tick_record (uw_cfg u) s d cache (env k) pos t) 0 (uw_records u) om = Some (rs, om')"
    and u': "u' = u\<lparr>uw_records := rs\<rparr>"
    using assms Ue_Tick by (auto simp: uw_tick_def split: Option.bind_splits)
  show ?thesis using all [of s d] Ue_Tick unfolding run by (simp add: u' acts_all_def)
next
  case (Ue_Report cache pos env rpt)
  have "acts_all pos (budget (uw_records u)) om (report_all sel (report_record (uw_cfg u) cache env pos) (uw_records u) om)"
    for sel by (intro report_all_acts report_record_acts)
  note all = this
  show ?thesis
  proof (cases "xr_status rpt = ES_FILLED \<or> xr_status rpt = ES_CANCELLED \<or> xr_status rpt = ES_REJECTED")
    case True
    then obtain rs where run: "report_all (waits_for (xr_instrument_id rpt) (xr_order_id rpt) om)
        (report_record (uw_cfg u) cache env pos) (uw_records u) om = Some (rs, om')" and u': "u' = u\<lparr>uw_records := rs\<rparr>"
      using assms Ue_Report by (auto simp: uw_on_exec_report_def split: Option.bind_splits)
    show ?thesis using all [of "waits_for (xr_instrument_id rpt) (xr_order_id rpt) om"] Ue_Report
      unfolding run by (simp add: u' acts_all_def)
  next
    case False
    then show ?thesis using assms Ue_Report by (auto simp: uw_on_exec_report_def)
  qed
next
  case (Ue_Om_Report now rpt)
  have "sent (om_on_exec_report now rpt om) = sent om"
    by (simp add: sent_def om_on_exec_report_def Let_def split: option.split)
  then show ?thesis using assms Ue_Om_Report by (auto simp: emits_def iocs_def)
qed

lemma uw_run_bounded:
  "uw_run es (u, om) = Some (u', om') \<Longrightarrow>
   iocs om' + budget (uw_records u') \<le>
     iocs om + budget (uw_records u) + (\<Sum>e\<leftarrow>es. armed (uc_max_retries (uw_cfg u)) e)"
proof (induction es arbitrary: u om)
  case (Cons e es)
  then obtain u1 om1 where step: "uw_step e (u, om) = Some (u1, om1)" "uw_run es (u1, om1) = Some (u', om')"
    by (auto split: option.splits)
  show ?case using uw_step_acts [OF step(1)] Cons.IH [OF step(2)] by simp
qed simp

text \<open>
  C37: the unwinder only closes positions. Whatever it is told and whatever the positions
  are, all a call sends are cancels and limit orders, and each order is on the side that reduces the position
  the tracker holds at that moment for its instrument and exchange: a sell for a long one, a buy for a
  short one, and none for a flat one.
\<close>

theorem uw_orders_close:
  assumes "uw_step e (u, om) = Some (u', om')"
  shows "\<exists>ms. sent om' = sent om @ ms \<and> list_all (closing (ev_positions e)) ms"
  using uw_step_acts [OF assms] by (simp add: emits_def)

text \<open>
  The retries bound the orders that cross the spread. In any run the unwinder sends at
  most one immediate order for each retry that its records had left at the start and for each retry of the
  instruments armed in the run.
\<close>

theorem uw_iocs_bounded:
  assumes "uw_run es (u, om) = Some (u', om')"
  shows "length (filter is_ioc (sent om')) \<le> length (filter is_ioc (sent om)) + budget (uw_records u) +
           (\<Sum>e\<leftarrow>es. armed (uc_max_retries (uw_cfg u)) e)"
  using uw_run_bounded [OF assms] by (simp add: iocs_def)

subsection \<open>A position without a price\<close>

definition stuck :: "uw_record \<Rightarrow> bool" where
  "stuck r \<longleftrightarrow> ur_phase r = kIoc \<and> ur_h_unwind r = None"

lemma stuck_tick_all:
  assumes "\<And>k r om. stuck r \<Longrightarrow> f k r om = Some (r, om)"
    and "tick_all f k rs om = Some (rs', om')" "r \<in> set rs" "stuck r"
  shows "r \<in> set rs'"
  using assms(2,3)
proof (induction rs arbitrary: k om rs')
  case (Cons x rs)
  then obtain x1 om1 rs1 where "f k x om = Some (x1, om1)" "tick_all f (Suc k) rs om1 = Some (rs1, om')" "rs' = x1 # rs1"
    by (auto split: Option.bind_splits)
  then show ?case using Cons.IH [of "Suc k" om1 rs1] Cons.prems(2) assms(1) [OF assms(4), of k om] by auto
qed simp

lemma stuck_report_all:
  assumes "report_all sel f rs om = Some (rs', om')" "r \<in> set rs" "\<not> sel r"
  shows "r \<in> set rs'"
  using assms
proof (induction rs arbitrary: rs')
  case (Cons x rs)
  then show ?case by (auto split: Option.bind_splits if_splits)
qed simp

lemma stuck_step:
  assumes "uw_step e (u, om) = Some (u', om')" "\<not> is_arm e" "r \<in> set (uw_records u)" "stuck r"
  shows "r \<in> set (uw_records u')"
proof (cases e)
  case (Ue_Tick cache pos t env)
  have skip: "tick_record (uw_cfg u) s d cache (env k) pos t r om = Some (r, om)" if "stuck r" for s d k r om
    using that by (simp add: tick_record_def stuck_def)
  show ?thesis
    using assms Ue_Tick stuck_tick_all [where f = "\<lambda>k. tick_record (uw_cfg u) s d cache (env k) pos t" for s d, OF skip]
    by (auto simp: uw_tick_def split: Option.bind_splits)
next
  case (Ue_Report cache pos env rpt)
  have "\<not> waits_for (xr_instrument_id rpt) (xr_order_id rpt) om r"
    using assms(4) by (simp add: waits_for_def stuck_def h_valid_def)
  then show ?thesis
    using assms Ue_Report stuck_report_all
    by (fastforce simp: uw_on_exec_report_def split: Option.bind_splits if_splits)
qed (use assms in auto)

lemma stuck_run:
  "uw_run es (u, om) = Some (u', om') \<Longrightarrow> \<not> list_ex is_arm es \<Longrightarrow> r \<in> set (uw_records u) \<Longrightarrow> stuck r \<Longrightarrow>
   r \<in> set (uw_records u')"
proof (induction es arbitrary: u om)
  case (Cons e es)
  then obtain u1 om1 where step: "uw_step e (u, om) = Some (u1, om1)" "uw_run es (u1, om1) = Some (u', om')"
    by (auto split: option.splits)
  then show ?case using stuck_step [OF step(1)] Cons by auto
qed simp

lemma arm_all_stuck:
  assumes "arm_all cfg cache pos t env k insts om = Some (rs, om')" "inst \<in> set insts"
    and "ui_price_ref inst \<le> 0" "\<not> \<bar>net_of_position pos (ui_instrument_id inst) (ui_exchange_id inst)\<bar> < min_lot (ui_lot_size inst)"
  shows "list_ex stuck rs"
  using assms(1,2)
proof (induction insts arbitrary: k om rs)
  case (Cons x insts)
  show ?case
  proof (cases "x = inst")
    case True
    then show ?thesis
      using Cons.prems(1) assms(3,4) by (auto simp: Let_def stuck_def arm_record_def split: Option.bind_splits)
  next
    case False
    then show ?thesis
      using Cons by (auto simp: Let_def split: Option.bind_splits if_splits)
  qed
qed simp

text \<open>
  A position without a reference price is never unwound. If an instrument with an
  open position is armed without one, its record waits in the immediate phase for the report of an order
  that was never sent: the unwinder stays pending through any run of ticks and reports, even when the
  position has long been closed.
\<close>

theorem uw_no_price_never_done:
  assumes "uw_run (Ue_Arm cache pos t env insts # es) (u, om) = Some (u', om')" "\<not> list_ex is_arm es"
    and "inst \<in> set insts" "ui_price_ref inst \<le> 0"
    and "\<not> \<bar>net_of_position pos (ui_instrument_id inst) (ui_exchange_id inst)\<bar> < min_lot (ui_lot_size inst)"
  shows "uw_pending u'"
proof -
  obtain u1 om1 where arm: "uw_arm cache pos t env insts u om = Some (u1, om1)" and run: "uw_run es (u1, om1) = Some (u', om')"
    using assms(1) by (auto split: option.splits)
  then obtain r where r: "r \<in> set (uw_records u1)" "stuck r"
    using arm_all_stuck [OF _ assms(3-5)] by (fastforce simp: uw_arm_def list_ex_iff split: Option.bind_splits)
  have "r \<in> set (uw_records u')" by (rule stuck_run [OF run assms(2) r])
  then show ?thesis using r(2) unfolding uw_pending_def list_ex_iff stuck_def by (intro bexI [of _ r]) simp_all
qed

subsection \<open>Concrete runs\<close>

definition half_cache :: inst_cache where
  "half_cache = ic_seed [tenth_inst\<lparr>tick_size := Fin (1 / 2)\<rparr>] ic_init"

definition long_three :: position_tracker where
  "long_three = tp_seed 7 EX_OKX 300000000 (Fin 100) []"

definition armed_inst :: "double \<Rightarrow> uw_instrument" where
  "armed_inst price = \<lparr> ui_instrument_id = 7, ui_exchange_id = EX_OKX, ui_tick_size = Fin (1 / 2), ui_lot_size = Fin 1,
     ui_symbol = ''BTC'', ui_price_ref = price \<rparr>"

definition waiting_unwinder :: unwinder where
  "waiting_unwinder = \<lparr> uw_cfg = uw_config_default,
     uw_records = [arm_record 1000 3 (armed_inst (Fin 100)) kPassive (Fin 100)] \<rparr>"

definition timeout_tick :: uw_event where
  "timeout_tick = Ue_Tick half_cache long_three 45000001000 (\<lambda>_. sent_now)"

definition new_orders :: "gw_request list \<Rightarrow> (order_side \<times> nat) list" where
  "new_orders rs = concat (map (\<lambda>r. case r of Gw_New n \<Rightarrow> [(on_side n, unat (on_quantity n))] | _ \<Rightarrow> []) rs)"

lemma half_get: "ic_get 7 half_cache = Some (tenth_inst\<lparr>tick_size := Fin (1 / 2)\<rparr>)"
  by (simp add: ic_get_def half_cache_def ic_seed_def insert_all_def emplace_def tenth_inst_def)

lemma seconds: "seconds_to_ns (Fin 8) = Some 8000000000" "seconds_to_ns (Fin 45) = Some 45000000000"
  by code_simp+

lemma long_net: "net_of_position long_three 7 EX_OKX = Fin 3"
  by code_simp

lemma lot_one: "min_lot (Fin 1) = Fin 1"
  by (simp add: min_lot_def)

lemma ioc_price:
  "Fin 100 * (Fin 1 - (Fin 20 + d_of_int 1 * Fin 10) div Fin 10000) = Fin (7015763794513101 / 70368744177664)"
  by code_simp

lemma ioc_normalised:
  "normalise_and_validate half_cache 7 SELL OT_LIMIT (Fin (7015763794513101 / 70368744177664)) (Fin 3) =
     Some (Fin (199 / 2), Fin 3, ''BTC'')"
  by code_simp

lemma ioc_e8: "price_e8 (Fin (199 / 2)) = Some 9950000000" "qty_e8 (Fin 3) = Some 300000000"
  by code_simp+

lemma positive_e8: "\<not> (9950000000::i64) \<le>s 0" "\<not> (9900000000::i64) \<le>s 0" "\<not> (10000000000::i64) \<le>s 0"
  by code_simp+

lemmas run_simps = uw_tick_def uw_config_default_def seconds arm_record_def armed_inst_def tick_record_def
  net_and_abs_def long_net lot_one h_live_def om_state_def side_of_def unwind_request_def om_send_new_order_def
  gw_send_new_order_def gw_publish_def sent_now_def om_init_def sent_def new_orders_def Let_def positive_e8

lemma timeout_step:
  "\<exists>u om. uw_step timeout_tick (waiting_unwinder, om_init 1) = Some (u, om) \<and>
     new_orders (sent om) = [(SELL, 300000000)] \<and> list_all is_ioc (sent om)"
  by (simp add: timeout_tick_def waiting_unwinder_def advance_ioc_def send_ioc_def ioc_price ioc_normalised ioc_e8 run_simps)

theorem uw_orders_close_witness:
  "case uw_step timeout_tick (waiting_unwinder, om_init 1) of
     Some (u, om) \<Rightarrow> list_all (closing long_three) (sent om) \<and> new_orders (sent om) = [(SELL, 300000000)]
   | None \<Rightarrow> False"
proof -
  obtain u om where run: "uw_step timeout_tick (waiting_unwinder, om_init 1) = Some (u, om)"
    "new_orders (sent om) = [(SELL, 300000000)]"
    using timeout_step by blast
  have "sent (om_init 1) = []" by (simp add: sent_def om_init_def)
  then show ?thesis using uw_orders_close [OF run(1)] run by (auto simp: timeout_tick_def)
qed

theorem uw_iocs_bounded_witness:
  "case uw_run [timeout_tick] (waiting_unwinder, om_init 1) of
     Some (u, om) \<Rightarrow> length (filter is_ioc (sent om)) \<le> 3 \<and> new_orders (sent om) = [(SELL, 300000000)]
   | None \<Rightarrow> False"
proof -
  obtain u om where run: "uw_run [timeout_tick] (waiting_unwinder, om_init 1) = Some (u, om)"
    "new_orders (sent om) = [(SELL, 300000000)]"
    using timeout_step by auto
  have "sent (om_init 1) = []" by (simp add: sent_def om_init_def)
  then show ?thesis
    using uw_iocs_bounded [OF run(1)] run
    by (simp add: timeout_tick_def waiting_unwinder_def uw_config_default_def arm_record_def)
qed

theorem uw_no_price_never_done_witness:
  "case uw_run [Ue_Arm half_cache long_three 1000 (\<lambda>_. sent_now) [armed_inst (Fin 0)], Ue_Tick half_cache [] 2000 (\<lambda>_. sent_now)]
          (\<lparr> uw_cfg = uw_config_default, uw_records = [] \<rparr>, om_init 1) of
     Some (u, om) \<Rightarrow> uw_pending u
   | None \<Rightarrow> False"
proof -
  obtain u om where run: "uw_run [Ue_Arm half_cache long_three 1000 (\<lambda>_. sent_now) [armed_inst (Fin 0)],
      Ue_Tick half_cache [] 2000 (\<lambda>_. sent_now)] (\<lparr> uw_cfg = uw_config_default, uw_records = [] \<rparr>, om_init 1) = Some (u, om)"
    by (simp add: uw_arm_def run_simps)
  have "uw_pending u"
    by (rule uw_no_price_never_done [OF run, of "armed_inst (Fin 0)"]) (simp_all add: armed_inst_def long_net lot_one)
  then show ?thesis using run by simp
qed

text \<open>
  Two full-size orders can be open at once. If the report of a cancel takes longer than one
  step, the second step finds an order that is not live any more and posts another one for the whole
  position while the first can still fill. Here a position of three lots has been offered twice.
\<close>

theorem uw_overlap:
  "map_option (\<lambda>(u, om). new_orders (sent om))
     (uw_run [Ue_Arm half_cache long_three 1000 (\<lambda>_. sent_now) [armed_inst (Fin 100)],
              Ue_Tick half_cache long_three 8000001000 (\<lambda>_. sent_now),
              Ue_Tick half_cache long_three 16000001000 (\<lambda>_. sent_now)]
        (\<lparr> uw_cfg = uw_config_default, uw_records = [] \<rparr>, om_init 1)) =
   Some [(SELL, 300000000), (SELL, 300000000)]"
proof -
  have div2: "Fin x div Fin (1 / 2) = to_double (2 * x)" for x by (simp add: d_div_Fin ac_simps)
  have rounded: "dlit 200 = Fin 200" "dlit 198 = Fin 198" "dlit 100 = Fin 100" "dlit 99 = Fin 99" "dlit (199 / 2) = Fin (199 / 2)"
    "round_half_away 200 = 200" "round_half_away 198 = 198"
    by code_simp+
  have norm: "normalise_and_validate half_cache 7 SELL OT_LIMIT (Fin 100) (Fin 3) = Some (Fin 100, Fin 3, ''BTC'')"
    "normalise_and_validate half_cache 7 SELL OT_LIMIT (Fin 99) (Fin 3) = Some (Fin 99, Fin 3, ''BTC'')"
    by code_simp+
  have e8: "price_e8 (Fin 100) = Some 10000000000" "price_e8 (Fin 99) = Some 9900000000"
    by code_simp+
  show ?thesis
    by (simp add: uw_arm_def send_passive_def tick_or_default_def div2 rounded norm e8 ioc_e8 oo_live_def
        om_send_cancel_def set_cancel_pending_def gw_send_cancel_def run_simps)
qed

end
