(* ===== verification/Canon_File.thy ===== *)
theory Canon_File
  imports Sbe_Memory
begin

text \<open>
  The files of recorded market data (\<open>bpt-canon\<close>): their layout (\<open>canon_format.h\<close>), the buffered
  writer (\<open>canon_writer.cpp\<close>) and the reader (\<open>canon_reader.h\<close>). A file is the list of its bytes.
  The file system is a parameter: \<open>io k\<close> says how many bytes the \<open>k\<close>-th \<open>fwrite\<close> takes, \<open>None\<close>
  being all of them. The theorems: what was written is read back whatever the size of the buffer,
  and what a short write does to the file.
\<close>

type_synonym bytes = "u8 list"

subsection \<open>Layout\<close>

definition kMagic :: bytes where "kMagic = [66, 80, 84, 67]"
definition kSchemaVersion :: u16 where "kSchemaVersion = 1"
definition kSbeTemplateFamily :: u16 where "kSbeTemplateFamily = 1"

record canon_header =
  cf_magic :: bytes
  cf_schema_version :: u16
  cf_sbe_template_id :: u16
  cf_venue_id :: u8
  cf_flags :: u8
  cf_date_utc :: u32
  cf_producer_kind :: bytes
  cf_producer_sha :: bytes
  cf_reserved :: bytes

definition header_bytes :: "canon_header \<Rightarrow> bytes" where
  "header_bytes h =
     cf_magic h @ le_bytes 2 (unat (cf_schema_version h)) @ le_bytes 2 (unat (cf_sbe_template_id h)) @
     [cf_venue_id h, cf_flags h] @ le_bytes 4 (unat (cf_date_utc h)) @
     cf_producer_kind h @ cf_producer_sha h @ cf_reserved h"

definition header_of_bytes :: "bytes \<Rightarrow> canon_header" where
  "header_of_bytes b =
     \<lparr> cf_magic = take 4 b, cf_schema_version = of_nat (le_value (take 2 (drop 4 b))),
       cf_sbe_template_id = of_nat (le_value (take 2 (drop 6 b))), cf_venue_id = b ! 8, cf_flags = b ! 9,
       cf_date_utc = of_nat (le_value (take 4 (drop 10 b))), cf_producer_kind = take 16 (drop 14 b),
       cf_producer_sha = take 40 (drop 30 b), cf_reserved = take 26 (drop 70 b) \<rparr>"

record canon_record =
  rec_ts_ns :: u64
  rec_type :: u8
  rec_sbe :: bytes

definition rec_header_bytes :: "u64 \<Rightarrow> u8 \<Rightarrow> nat \<Rightarrow> bytes" where
  "rec_header_bytes ts ty len = le_bytes 8 (unat ts) @ [ty] @ le_bytes 2 len"

definition rec_bytes :: "canon_record \<Rightarrow> bytes" where
  "rec_bytes r = rec_header_bytes (rec_ts_ns r) (rec_type r) (length (rec_sbe r)) @ rec_sbe r"

subsection \<open>Writer\<close>

record canon_config =
  cc_producer_kind :: bytes
  cc_producer_sha :: bytes
  cc_venue_id :: u8
  cc_date_utc :: u32
  cc_buffer_bytes :: nat

record canon_writer =
  cw_cfg :: canon_config
  cw_open :: bool
  cw_disk :: bytes
  cw_writes :: nat
  cw_buffer :: bytes
  cw_events_written :: u64
  cw_bytes_written :: u64

type_synonym file_io = "nat \<Rightarrow> nat option"

definition cw_make :: "canon_config \<Rightarrow> canon_writer" where
  "cw_make cfg =
     \<lparr> cw_cfg = (if cc_buffer_bytes cfg = 0 then cfg\<lparr>cc_buffer_bytes := 2 ^ 20\<rparr> else cfg), cw_open = False,
       cw_disk = [], cw_writes = 0, cw_buffer = [], cw_events_written = 0, cw_bytes_written = 0 \<rparr>"

definition fwrite :: "file_io \<Rightarrow> bytes \<Rightarrow> canon_writer \<Rightarrow> bool \<times> canon_writer" where
  "fwrite io bs w =
     (let taken = (case io (cw_writes w) of None \<Rightarrow> bs | Some n \<Rightarrow> take n bs)
      in (length taken = length bs, w\<lparr>cw_disk := cw_disk w @ taken, cw_writes := cw_writes w + 1\<rparr>))"

definition pad_field :: "nat \<Rightarrow> bytes \<Rightarrow> bytes" where
  "pad_field n s = take n s @ replicate (n - length s) 0"

definition make_header :: "canon_config \<Rightarrow> canon_header" where
  "make_header cfg =
     \<lparr> cf_magic = kMagic, cf_schema_version = kSchemaVersion, cf_sbe_template_id = kSbeTemplateFamily,
       cf_venue_id = cc_venue_id cfg, cf_flags = 0, cf_date_utc = cc_date_utc cfg,
       cf_producer_kind = pad_field 16 (cc_producer_kind cfg),
       cf_producer_sha = pad_field 40 (cc_producer_sha cfg), cf_reserved = replicate 26 0 \<rparr>"

definition write_file_header :: "file_io \<Rightarrow> canon_writer \<Rightarrow> bool \<times> canon_writer" where
  "write_file_header io w =
     (let (ok, w) = fwrite io (header_bytes (make_header (cw_cfg w))) w in
      if \<not> ok then (False, w\<lparr>cw_open := False\<rparr>)
      else (True, w\<lparr>cw_bytes_written := cw_bytes_written w + 96\<rparr>))"

text \<open>\<open>dirs\<close> and \<open>fopen\<close> say whether creating the directories and opening the file succeed.\<close>

definition cw_open_file :: "bool \<Rightarrow> bool \<Rightarrow> file_io \<Rightarrow> canon_writer \<Rightarrow> bool \<times> canon_writer" where
  "cw_open_file dirs fopen io w =
     (if cw_open w then (True, w)
      else if \<not> dirs then (False, w)
      else if \<not> fopen then (False, w)
      else write_file_header io (w\<lparr>cw_open := True, cw_disk := []\<rparr>))"

definition flush_buffer_to_fp :: "file_io \<Rightarrow> canon_writer \<Rightarrow> bool \<times> canon_writer" where
  "flush_buffer_to_fp io w =
     (if cw_buffer w = [] then (True, w)
      else let (ok, w) = fwrite io (cw_buffer w) w in
        if \<not> ok then (False, w) else (True, w\<lparr>cw_buffer := []\<rparr>))"

definition count_event :: "nat \<Rightarrow> canon_writer \<Rightarrow> canon_writer" where
  "count_event tot w =
     w\<lparr>cw_events_written := cw_events_written w + 1, cw_bytes_written := cw_bytes_written w + of_nat tot\<rparr>"

definition write_direct :: "file_io \<Rightarrow> bytes \<Rightarrow> bytes \<Rightarrow> canon_writer \<Rightarrow> bool \<times> canon_writer" where
  "write_direct io rh sbe w =
     (let (ok, w) = fwrite io rh w in
      if \<not> ok then (False, w)
      else
        let (ok, w) = (if sbe \<noteq> [] then fwrite io sbe w else (True, w)) in
        if \<not> ok then (False, w)
        else (True, count_event (length rh + length sbe) w))"

definition write_event :: "file_io \<Rightarrow> u64 \<Rightarrow> u8 \<Rightarrow> bytes \<Rightarrow> canon_writer \<Rightarrow> bool \<times> canon_writer" where
  "write_event io ts ty sbe w =
     (if \<not> cw_open w then (False, w)
      else if 65535 < length sbe then (False, w)
      else
        let rh = rec_header_bytes ts ty (length sbe);
            tot = length rh + length sbe;
            cap = cc_buffer_bytes (cw_cfg w);
            full = cap < length (cw_buffer w) + tot;
            (ok, w) = (if full then flush_buffer_to_fp io w else (True, w))
        in if \<not> ok then (False, w)
           else if full \<and> cap < tot then write_direct io rh sbe w
           else (True, count_event tot (w\<lparr>cw_buffer := cw_buffer w @ rh @ sbe\<rparr>)))"

definition cw_flush :: "file_io \<Rightarrow> canon_writer \<Rightarrow> canon_writer" where
  "cw_flush io w = (if \<not> cw_open w then w else snd (flush_buffer_to_fp io w))"

definition cw_close :: "file_io \<Rightarrow> canon_writer \<Rightarrow> canon_writer" where
  "cw_close io w =
     (if \<not> cw_open w then w else (snd (flush_buffer_to_fp io w))\<lparr>cw_open := False\<rparr>)"

subsection \<open>Reader\<close>

text \<open>
  \<open>fread\<close> of \<open>n\<close> bytes: the bytes and the rest of the file, or \<open>None\<close> at its end. A reader is the
  bytes it has not read; a read that fails has used them up.
\<close>

definition fread :: "nat \<Rightarrow> bytes \<Rightarrow> (bytes \<times> bytes) option" where
  "fread n b = (if length b < n then None else Some (take n b, drop n b))"

definition read_and_validate_header :: "bytes \<Rightarrow> (canon_header \<times> bytes) option" where
  "read_and_validate_header b = do {
     (hb, b) \<leftarrow> fread 96 b;
     let h = header_of_bytes hb;
     if cf_magic h \<noteq> kMagic then None
     else if kSchemaVersion < cf_schema_version h then None
     else if cf_sbe_template_id h \<noteq> kSbeTemplateFamily then None
     else Some (h, b)
   }"

definition rd_parse :: "bytes \<Rightarrow> (canon_record \<times> bytes) option" where
  "rd_parse b = do {
     (rh, b) \<leftarrow> fread 11 b;
     (sbe, b) \<leftarrow> fread (le_value (drop 9 rh)) b;
     Some (\<lparr> rec_ts_ns = of_nat (le_value (take 8 rh)), rec_type = rh ! 8, rec_sbe = sbe \<rparr>, b)
   }"

definition rd_next :: "bytes \<Rightarrow> canon_record option \<times> bytes" where
  "rd_next b = (case rd_parse b of Some (r, b') \<Rightarrow> (Some r, b') | None \<Rightarrow> (None, []))"

lemma rd_parse_shorter: "rd_parse b = Some (r, b') \<Longrightarrow> length b' < length b"
  by (auto simp: rd_parse_def fread_def split: if_splits)

function rd_all :: "bytes \<Rightarrow> canon_record list" where
  "rd_all b = (case rd_parse b of None \<Rightarrow> [] | Some (r, b') \<Rightarrow> r # rd_all b')"
  by auto
termination by (relation "measure length") (auto dest: rd_parse_shorter)

declare rd_all.simps [simp del]

subsection \<open>Round trip\<close>

lemma fread_append [simp]: "length a = n \<Longrightarrow> fread n (a @ b) = Some (a, b)"
  by (simp add: fread_def)

lemma length_rec_header [simp]: "length (rec_header_bytes ts ty n) = 11"
  by (simp add: rec_header_bytes_def)

lemma rd_parse_rec:
  assumes "length (rec_sbe r) \<le> 65535"
  shows "rd_parse (rec_bytes r @ b) = Some (r, b)"
proof -
  let ?rh = "rec_header_bytes (rec_ts_ns r) (rec_type r) (length (rec_sbe r))"
  have "le_value (take 8 ?rh) = unat (rec_ts_ns r)"
    using unsigned_less [of "rec_ts_ns r", where 'a = nat]
    by (simp add: rec_header_bytes_def le_value_bytes)
  moreover have "?rh ! 8 = rec_type r" by (simp add: rec_header_bytes_def nth_append)
  moreover have "le_value (drop 9 ?rh) = length (rec_sbe r)"
    using assms by (simp add: rec_header_bytes_def le_value_bytes)
  ultimately show ?thesis by (simp add: rd_parse_def rec_bytes_def)
qed

lemma rd_all_recs:
  "list_all (\<lambda>r. length (rec_sbe r) \<le> 65535) rs \<Longrightarrow> rd_all (concat (map rec_bytes rs)) = rs"
proof (induction rs)
  case Nil
  show ?case by (simp add: rd_all.simps rd_parse_def fread_def)
next
  case (Cons r rs)
  then show ?case by (subst rd_all.simps) (simp add: rd_parse_rec)
qed

lemma length_pad_field [simp]: "length (pad_field n s) = n"
  by (simp add: pad_field_def)

lemma header_read_back:
  "header_of_bytes (header_bytes (make_header cfg)) = make_header cfg"
  using unsigned_less [of "cc_date_utc cfg", where 'a = nat]
  by (simp add: header_of_bytes_def header_bytes_def make_header_def kMagic_def le_value_bytes nth_append
      kSchemaVersion_def kSbeTemplateFamily_def)

lemma length_header [simp]: "length (header_bytes (make_header cfg)) = 96"
  by (simp add: header_bytes_def make_header_def kMagic_def)

lemma header_validates:
  "read_and_validate_header (header_bytes (make_header cfg) @ b) = Some (make_header cfg, b)"
  by (simp add: read_and_validate_header_def header_read_back)
    (simp add: make_header_def)

subsection \<open>The buffered writer appends records\<close>

text \<open>What the file will hold: the bytes on disk and those still in the buffer.\<close>

definition cw_image :: "canon_writer \<Rightarrow> bytes" where
  "cw_image w = cw_disk w @ cw_buffer w"

lemma fwrite_ok:
  assumes "fwrite io bs w = (True, w')"
  shows "w' = w\<lparr>cw_disk := cw_disk w @ bs, cw_writes := cw_writes w + 1\<rparr>"
proof (cases "io (cw_writes w)")
  case None
  then show ?thesis using assms by (auto simp: fwrite_def)
next
  case (Some n)
  then have "take n bs = bs" using assms by (auto simp: fwrite_def min_def split: if_splits)
  then show ?thesis using assms Some by (auto simp: fwrite_def)
qed

lemma flush_ok:
  assumes "flush_buffer_to_fp io w = (True, w')"
  shows "cw_image w' = cw_image w \<and> cw_buffer w' = [] \<and> cw_open w' = cw_open w \<and> cw_cfg w' = cw_cfg w"
  using assms fwrite_ok [of io "cw_buffer w" w]
  by (auto simp: flush_buffer_to_fp_def cw_image_def split: if_splits prod.splits)

lemma write_direct_ok:
  assumes "write_direct io rh sbe w = (True, w')" "cw_buffer w = []"
  shows "cw_image w' = cw_image w @ rh @ sbe \<and> cw_open w' = cw_open w \<and> cw_cfg w' = cw_cfg w"
  using assms
  by (auto simp: write_direct_def cw_image_def count_event_def dest!: fwrite_ok split: if_splits prod.splits)

lemma write_event_ok:
  assumes "write_event io ts ty sbe w = (True, w')"
  shows "cw_image w' = cw_image w @ rec_bytes \<lparr> rec_ts_ns = ts, rec_type = ty, rec_sbe = sbe \<rparr> \<and>
    cw_open w' = cw_open w \<and> cw_cfg w' = cw_cfg w \<and> length sbe \<le> 65535"
proof -
  define rh where "rh = rec_header_bytes ts ty (length sbe)"
  define full where "full = (cc_buffer_bytes (cw_cfg w) < length (cw_buffer w) + (length rh + length sbe))"
  obtain ok w1 where f: "(if full then flush_buffer_to_fp io w else (True, w)) = (ok, w1)" by fastforce
  have small: "length sbe \<le> 65535" and ok using assms f
    by (auto simp: write_event_def full_def rh_def Let_def split: if_splits prod.splits)
  have f1: "cw_image w1 = cw_image w \<and> cw_open w1 = cw_open w \<and> cw_cfg w1 = cw_cfg w \<and> (full \<longrightarrow> cw_buffer w1 = [])"
    using f \<open>ok\<close> flush_ok [of io w w1] by (auto split: if_splits)
  have "(if full \<and> cc_buffer_bytes (cw_cfg w) < length rh + length sbe then write_direct io rh sbe w1
      else (True, count_event (length rh + length sbe) (w1\<lparr>cw_buffer := cw_buffer w1 @ rh @ sbe\<rparr>))) = (True, w')"
    using assms f \<open>ok\<close> small unfolding write_event_def full_def [symmetric] rh_def [symmetric]
    by (auto simp: full_def [symmetric] rh_def [symmetric] Let_def split: if_splits prod.splits)
  then show ?thesis
    using f1 small write_direct_ok [of io rh sbe w1 w']
    by (auto simp: rec_bytes_def rh_def cw_image_def count_event_def split: if_splits)
qed

lemma write_event_returns:
  assumes "\<And>k. io k = None" "cw_open w"
  shows "fst (write_event io ts ty sbe w) \<longleftrightarrow> length sbe \<le> 65535"
proof -
  have fw: "fwrite io bs v = (True, v\<lparr>cw_disk := cw_disk v @ bs, cw_writes := cw_writes v + 1\<rparr>)" for bs v
    by (simp add: fwrite_def assms(1))
  show ?thesis
    using assms(2) by (simp add: write_event_def flush_buffer_to_fp_def write_direct_def fw Let_def)
qed

lemma write_event_refused: "65535 < length sbe \<Longrightarrow> write_event io ts ty sbe w = (False, w)"
  by (simp add: write_event_def)

fun write_all :: "file_io \<Rightarrow> canon_record list \<Rightarrow> canon_writer \<Rightarrow> canon_writer" where
  "write_all io [] w = w"
| "write_all io (r # rs) w = write_all io rs (snd (write_event io (rec_ts_ns r) (rec_type r) (rec_sbe r) w))"

definition fits :: "canon_record \<Rightarrow> bool" where
  "fits r \<longleftrightarrow> length (rec_sbe r) \<le> 65535"

lemma write_all_image:
  assumes "\<And>k. io k = None" "cw_open w"
  shows "cw_image (write_all io rs w) = cw_image w @ concat (map rec_bytes (filter fits rs)) \<and> cw_open (write_all io rs w)"
  using assms(2)
proof (induction rs arbitrary: w)
  case (Cons r rs)
  let ?res = "write_event io (rec_ts_ns r) (rec_type r) (rec_sbe r) w"
  show ?case
  proof (cases "fits r")
    case True
    then have "?res = (True, snd ?res)"
      using write_event_returns [OF assms(1) Cons.prems, where ts = "rec_ts_ns r" and ty = "rec_type r" and sbe = "rec_sbe r"]
      by (simp add: fits_def prod_eq_iff)
    from write_event_ok [OF this] show ?thesis using True Cons by (simp add: rec_bytes_def)
  next
    case False
    then show ?thesis using Cons by (simp add: fits_def write_event_refused)
  qed
qed simp

text \<open>A whole file: opened, written, closed.\<close>

definition write_file :: "canon_config \<Rightarrow> file_io \<Rightarrow> canon_record list \<Rightarrow> bytes" where
  "write_file cfg io rs = cw_disk (cw_close io (write_all io rs (snd (cw_open_file True True io (cw_make cfg)))))"

lemma canon_file_read_back:
  assumes "\<forall>k. io k = None"
  shows "map_option (\<lambda>(h, b). (h, rd_all b)) (read_and_validate_header (write_file cfg io rs)) =
         Some (make_header (cw_cfg (cw_make cfg)), filter fits rs)"
proof -
  let ?w0 = "snd (cw_open_file True True io (cw_make cfg))"
  have w0: "cw_open ?w0 \<and> cw_image ?w0 = header_bytes (make_header (cw_cfg (cw_make cfg)))"
    using assms by (simp add: cw_open_file_def write_file_header_def fwrite_def cw_make_def cw_image_def Let_def)
  define v where "v = write_all io rs ?w0"
  have w: "cw_open v" "cw_image v = header_bytes (make_header (cw_cfg (cw_make cfg))) @ concat (map rec_bytes (filter fits rs))"
    using write_all_image [where io = io and w = ?w0 and rs = rs] w0 assms by (auto simp: v_def)
  have "cw_disk (cw_close io v) = cw_image v"
    using w(1) assms by (simp add: cw_close_def flush_buffer_to_fp_def fwrite_def cw_image_def Let_def)
  moreover have "list_all (\<lambda>r. length (rec_sbe r) \<le> 65535) (filter fits rs)" by (simp add: list_all_iff fits_def)
  ultimately show ?thesis using w(2) by (simp add: write_file_def v_def [symmetric] header_validates rd_all_recs)
qed

text \<open>
  C39: recordings are read back as they were written. If the file system takes what it is
  given, then for any configuration, in particular any size of the buffer, and any events, the reader accepts
  the file, sees the header of the configuration, and reads exactly the events whose payload fits the length
  field, in order; the others were refused.
\<close>

theorem canon_round_trip:
  assumes "\<forall>k. io k = None"
  shows "map_option (\<lambda>(h, b). (h, rd_all b)) (read_and_validate_header (write_file cfg io rs)) =
         Some (make_header (cw_cfg (cw_make cfg)), filter fits rs)"
  using assms by (rule canon_file_read_back)

definition small_config :: canon_config where
  "small_config = \<lparr> cc_producer_kind = [109], cc_producer_sha = [], cc_venue_id = 2, cc_date_utc = 20260520,
     cc_buffer_bytes = 13 \<rparr>"

definition two_records :: "canon_record list" where
  "two_records = [\<lparr> rec_ts_ns = 5, rec_type = 1, rec_sbe = [7] \<rparr>, \<lparr> rec_ts_ns = 4, rec_type = 0, rec_sbe = [1, 2, 3, 4] \<rparr>]"

theorem canon_round_trip_witness:
  "map_option (\<lambda>(h, b). rd_all b) (read_and_validate_header (write_file small_config (\<lambda>_. None) two_records)) =
   Some two_records"
proof -
  have "filter fits two_records = two_records" by (simp add: two_records_def fits_def)
  then show ?thesis
    using canon_round_trip [of "\<lambda>_. None" small_config two_records] by (auto simp: map_option_case split: option.splits)
qed

text \<open>
  A short write corrupts the file for good. If the file system takes only a part of
  the buffer in one flush and all of it in the next, the part is in the file twice, and the records behind it
  start at the wrong byte.
\<close>

theorem canon_short_write:
  assumes "cw_open w" "io (cw_writes w) = Some n" "n < length (cw_buffer w)" "io (cw_writes w + 1) = None"
  shows "cw_disk (cw_close io (cw_flush io w)) = cw_disk w @ take n (cw_buffer w) @ cw_buffer w"
proof -
  have "cw_buffer w \<noteq> []" using assms(3) by auto
  then show ?thesis using assms by (simp add: cw_close_def cw_flush_def flush_buffer_to_fp_def fwrite_def Let_def)
qed

theorem canon_short_write_witness:
  "cw_disk (cw_close (\<lambda>k. if k = 1 then Some 3 else None) (cw_flush (\<lambda>k. if k = 1 then Some 3 else None)
     ((cw_make small_config)\<lparr>cw_open := True, cw_writes := 1, cw_buffer := [1, 2, 3, 4, 5]\<rparr>))) = [1, 2, 3, 1, 2, 3, 4, 5]"
  using canon_short_write [of "(cw_make small_config)\<lparr>cw_open := True, cw_writes := 1, cw_buffer := [1, 2, 3, 4, 5]\<rparr>"
      "\<lambda>k. if k = 1 then Some 3 else None" 3]
  by (simp add: cw_make_def)

end
