(* ===== verification/Canon_Merge.thy ===== *)
theory Canon_Merge
  imports Canon_File "HOL-Library.Multiset"
begin

text \<open>
  The merge of recordings (\<open>bpt-canon/src/merge_main.cpp\<close>): one reader and one head record per
  input, the smallest head is written and its reader advanced, ties go to the first input. The theorems
  relate its output to the library's stable sort.
\<close>

subsection \<open>The program\<close>

record input =
  in_head :: "canon_record option"
  in_reader :: bytes

definition open_input :: "bytes \<Rightarrow> (canon_header \<times> input) option" where
  "open_input file = (case read_and_validate_header file of
     None \<Rightarrow> None
   | Some (h, b) \<Rightarrow> let (r, b) = rd_next b in Some (h, \<lparr> in_head = r, in_reader = b \<rparr>))"

text \<open>All inputs must be readable and of one venue; otherwise the program ends with an error.\<close>

fun open_all :: "u8 option \<Rightarrow> bytes list \<Rightarrow> (canon_header option \<times> input list) option" where
  "open_all vid [] = Some (None, [])"
| "open_all vid (file # files) = do {
     (h, i) \<leftarrow> open_input file;
     if (case vid of Some v \<Rightarrow> cf_venue_id h \<noteq> v | None \<Rightarrow> False) then None
     else do {
       (first_header, inputs) \<leftarrow> open_all (Some (case vid of Some v \<Rightarrow> v | None \<Rightarrow> cf_venue_id h)) files;
       Some (Some h, i # inputs)
     }
   }"

fun pick :: "input list \<Rightarrow> nat \<Rightarrow> (nat \<times> u64) option \<Rightarrow> (nat \<times> u64) option" where
  "pick [] i best = best"
| "pick (x # xs) i best =
     (case in_head x of
        None \<Rightarrow> pick xs (Suc i) best
      | Some r \<Rightarrow>
          (case best of
             Some (k, best_ts) \<Rightarrow> if rec_ts_ns r < best_ts then pick xs (Suc i) (Some (i, rec_ts_ns r)) else pick xs (Suc i) best
           | None \<Rightarrow> pick xs (Suc i) (Some (i, rec_ts_ns r))))"

definition advance :: "input \<Rightarrow> input" where
  "advance x = (let (r, b) = rd_next (in_reader x) in \<lparr> in_head = r, in_reader = b \<rparr>)"

text \<open>What an input still has to give; the loop ends because each round takes one record away.\<close>

definition pending :: "input \<Rightarrow> canon_record list" where
  "pending x = (case in_head x of Some r \<Rightarrow> r # rd_all (in_reader x) | None \<Rightarrow> [])"

definition pending_all :: "input list \<Rightarrow> nat" where
  "pending_all xs = (\<Sum>x\<leftarrow>xs. length (pending x))"

lemma pending_advance: "in_head x = Some r \<Longrightarrow> pending x = r # pending (advance x)"
  by (simp add: pending_def advance_def rd_next_def rd_all.simps [of "in_reader x"] split: option.split)

subsection \<open>The pick\<close>

text \<open>The input at position \<open>n\<close> is the first one with the smallest time stamp \<open>t\<close>.\<close>

definition first_min :: "input list \<Rightarrow> nat \<Rightarrow> u64 \<Rightarrow> bool" where
  "first_min xs n t \<longleftrightarrow> (\<exists>ys x zs r. xs = ys @ x # zs \<and> length ys = n \<and> in_head x = Some r \<and> rec_ts_ns r = t \<and>
     (\<forall>y \<in> set ys. \<forall>r. in_head y = Some r \<longrightarrow> t < rec_ts_ns r) \<and>
     (\<forall>z \<in> set zs. \<forall>r. in_head z = Some r \<longrightarrow> t \<le> rec_ts_ns r))"

lemma first_min_0:
  "in_head x = Some r \<Longrightarrow> (\<forall>z \<in> set xs. \<forall>r'. in_head z = Some r' \<longrightarrow> rec_ts_ns r \<le> rec_ts_ns r') \<Longrightarrow>
   first_min (x # xs) 0 (rec_ts_ns r)"
  unfolding first_min_def by (rule exI [of _ "[]"]) auto

lemma first_min_Suc:
  assumes "first_min xs n t" "\<forall>r. in_head x = Some r \<longrightarrow> t < rec_ts_ns r"
  shows "first_min (x # xs) (Suc n) t"
proof -
  obtain ys y zs r where "xs = ys @ y # zs" "length ys = n" "in_head y = Some r" "rec_ts_ns r = t"
    "\<forall>y \<in> set ys. \<forall>r. in_head y = Some r \<longrightarrow> t < rec_ts_ns r" "\<forall>z \<in> set zs. \<forall>r. in_head z = Some r \<longrightarrow> t \<le> rec_ts_ns r"
    using assms(1) unfolding first_min_def by blast
  then show ?thesis
    unfolding first_min_def using assms(2)
    by (intro exI [of _ "x # ys"] exI [of _ y] exI [of _ zs] exI [of _ r]) auto
qed

lemma pick_Some:
  "pick xs i (Some (b, u)) = Some (k, t) \<Longrightarrow>
   k = b \<and> t = u \<and> (\<forall>x \<in> set xs. \<forall>r. in_head x = Some r \<longrightarrow> u \<le> rec_ts_ns r) \<or>
   (\<exists>n. k = i + n \<and> t < u \<and> first_min xs n t)"
proof (induction xs arbitrary: i b u)
  case (Cons x xs)
  show ?case
  proof (cases "in_head x")
    case None
    then show ?thesis using Cons.IH [of "Suc i" b u] Cons.prems first_min_Suc [of xs _ t x] by force
  next
    case (Some r)
    show ?thesis
    proof (cases "rec_ts_ns r < u")
      case True
      then have "pick xs (Suc i) (Some (i, rec_ts_ns r)) = Some (k, t)" using Cons.prems Some by simp
      from Cons.IH [OF this] show ?thesis
      proof (elim disjE exE conjE)
        assume "k = i" "t = rec_ts_ns r" "\<forall>x \<in> set xs. \<forall>r'. in_head x = Some r' \<longrightarrow> rec_ts_ns r \<le> rec_ts_ns r'"
        then have "first_min (x # xs) 0 t" using first_min_0 [OF Some] by simp
        then show ?thesis using \<open>k = i\<close> \<open>t = rec_ts_ns r\<close> True by (intro disjI2 exI [of _ 0]) simp
      next
        fix n assume n: "k = Suc i + n" "t < rec_ts_ns r" "first_min xs n t"
        then have "first_min (x # xs) (Suc n) t" using first_min_Suc [OF n(3), of x] Some by simp
        then show ?thesis using n True by (intro disjI2 exI [of _ "Suc n"]) simp
      qed
    next
      case False
      then have "pick xs (Suc i) (Some (b, u)) = Some (k, t)" using Cons.prems Some by simp
      from Cons.IH [OF this] show ?thesis
      proof (elim disjE exE conjE)
        assume "k = b" "t = u" "\<forall>x \<in> set xs. \<forall>r'. in_head x = Some r' \<longrightarrow> u \<le> rec_ts_ns r'"
        then show ?thesis using False Some by simp
      next
        fix n assume n: "k = Suc i + n" "t < u" "first_min xs n t"
        then have "first_min (x # xs) (Suc n) t" using first_min_Suc [OF n(3), of x] Some False by simp
        then show ?thesis using n by (intro disjI2 exI [of _ "Suc n"]) simp
      qed
    qed
  qed
qed simp

lemma pick_None: "pick xs i None = Some (k, t) \<Longrightarrow> \<exists>n. k = i + n \<and> first_min xs n t"
proof (induction xs arbitrary: i)
  case (Cons x xs)
  show ?case
  proof (cases "in_head x")
    case None
    then obtain n where "k = Suc i + n" "first_min xs n t" using Cons.IH [of "Suc i"] Cons.prems by auto
    then show ?thesis using first_min_Suc [of xs n t x] None by (intro exI [of _ "Suc n"]) simp
  next
    case (Some r)
    then have "pick xs (Suc i) (Some (i, rec_ts_ns r)) = Some (k, t)" using Cons.prems by simp
    from pick_Some [OF this] show ?thesis
    proof (elim disjE exE conjE)
      assume "k = i" "t = rec_ts_ns r" "\<forall>x \<in> set xs. \<forall>r'. in_head x = Some r' \<longrightarrow> rec_ts_ns r \<le> rec_ts_ns r'"
      then show ?thesis using first_min_0 [OF Some] by (intro exI [of _ 0]) simp
    next
      fix n assume n: "k = Suc i + n" "t < rec_ts_ns r" "first_min xs n t"
      then show ?thesis using first_min_Suc [OF n(3), of x] Some by (intro exI [of _ "Suc n"]) simp
    qed
  qed
qed simp

lemma pick_total: "pick xs i (Some b) \<noteq> None"
  by (induction xs arbitrary: i b) (auto split: option.split)

lemma pick_nothing: "pick xs i None = None \<longleftrightarrow> (\<forall>x \<in> set xs. in_head x = None)"
  by (induction xs arbitrary: i) (auto simp: pick_total split: option.split)

lemma pick_reduces:
  assumes "pick xs 0 None = Some (k, t)"
  shows "pending_all (xs[k := advance (xs ! k)]) < pending_all xs"
proof -
  obtain ys x zs r where x: "xs = ys @ x # zs" "length ys = k" "in_head x = Some r"
    using pick_None [OF assms] by (auto simp: first_min_def)
  then show ?thesis using pending_advance [OF x(3)] by (auto simp: pending_all_def)
qed

subsection \<open>The loop\<close>

text \<open>The records in the order they are handed to the writer.\<close>

function merge_loop :: "input list \<Rightarrow> canon_record list" where
  "merge_loop xs =
     (case pick xs 0 None of
        None \<Rightarrow> []
      | Some (k, t) \<Rightarrow>
          (case in_head (xs ! k) of Some r \<Rightarrow> [r] | None \<Rightarrow> []) @ merge_loop (xs[k := advance (xs ! k)]))"
  by auto
termination by (relation "measure pending_all") (auto dest: pick_reduces)

declare merge_loop.simps [simp del]

definition merge_config :: "bytes \<Rightarrow> bytes \<Rightarrow> canon_header \<Rightarrow> canon_config" where
  "merge_config producer_kind producer_sha h =
     \<lparr> cc_producer_kind = producer_kind, cc_producer_sha = producer_sha, cc_venue_id = cf_venue_id h,
       cc_date_utc = cf_date_utc h, cc_buffer_bytes = 2 ^ 22 \<rparr>"

text \<open>The exit code 1 is \<open>None\<close>; the directory of the output is taken to exist.\<close>

definition merge_main :: "bytes \<Rightarrow> bytes \<Rightarrow> file_io \<Rightarrow> bytes list \<Rightarrow> bytes option" where
  "merge_main producer_kind producer_sha io files = do {
     (first_header, inputs) \<leftarrow> open_all None files;
     h \<leftarrow> first_header;
     let cfg = merge_config producer_kind producer_sha h;
     let (ok, w) = cw_open_file True True io (cw_make cfg);
     if \<not> ok then None
     else Some (cw_disk (cw_close io (cw_flush io (write_all io (merge_loop inputs) w))))
   }"

subsection \<open>The merge is a stable sort\<close>

definition in_order :: "canon_record list \<Rightarrow> bool" where
  "in_order rs \<longleftrightarrow> sorted (map rec_ts_ns rs)"

lemma merge_loop_step:
  assumes "pick xs 0 None = Some (k, t)"
  shows "\<exists>ys x zs r. xs = ys @ x # zs \<and> in_head x = Some r \<and> merge_loop xs = r # merge_loop (ys @ advance x # zs) \<and>
    (\<forall>y \<in> set ys. \<forall>r'. in_head y = Some r' \<longrightarrow> rec_ts_ns r < rec_ts_ns r') \<and>
    (\<forall>z \<in> set zs. \<forall>r'. in_head z = Some r' \<longrightarrow> rec_ts_ns r \<le> rec_ts_ns r')"
proof -
  obtain ys x zs r where x: "xs = ys @ x # zs" "length ys = k" "in_head x = Some r" "rec_ts_ns r = t"
    "\<forall>y \<in> set ys. \<forall>r. in_head y = Some r \<longrightarrow> t < rec_ts_ns r" "\<forall>z \<in> set zs. \<forall>r. in_head z = Some r \<longrightarrow> t \<le> rec_ts_ns r"
    using pick_None [OF assms] by (auto simp: first_min_def)
  have "merge_loop xs = r # merge_loop (ys @ advance x # zs)"
    using x(3) assms unfolding x(1) x(2) [symmetric] by (subst merge_loop.simps) simp
  then show ?thesis using x by blast
qed

lemma merge_loop_nothing:
  assumes "pick xs 0 None = None"
  shows "merge_loop xs = []" "\<forall>x \<in> set xs. pending x = []"
  using assms by (simp add: merge_loop.simps, simp add: pick_nothing pending_def)

text \<open>An induction rule for the loop: nothing left, or the first smallest record is written.\<close>

lemma merge_loop_induct [case_names Done Write]:
  assumes stop: "\<And>xs. merge_loop xs = [] \<Longrightarrow> \<forall>x \<in> set xs. pending x = [] \<Longrightarrow> P xs"
    and step: "\<And>ys x zs r. in_head x = Some r \<Longrightarrow> merge_loop (ys @ x # zs) = r # merge_loop (ys @ advance x # zs) \<Longrightarrow>
      \<forall>y \<in> set ys. \<forall>r'. in_head y = Some r' \<longrightarrow> rec_ts_ns r < rec_ts_ns r' \<Longrightarrow>
      \<forall>z \<in> set zs. \<forall>r'. in_head z = Some r' \<longrightarrow> rec_ts_ns r \<le> rec_ts_ns r' \<Longrightarrow>
      P (ys @ advance x # zs) \<Longrightarrow> P (ys @ x # zs)"
  shows "P xs"
proof (induction "pending_all xs" arbitrary: xs rule: less_induct)
  case less
  show ?case
  proof (cases "pick xs 0 None")
    case None
    then show ?thesis using stop merge_loop_nothing by blast
  next
    case (Some kt)
    obtain k t where "kt = (k, t)" by (cases kt)
    then obtain ys x zs r where x: "xs = ys @ x # zs" "in_head x = Some r" "merge_loop xs = r # merge_loop (ys @ advance x # zs)"
      "\<forall>y \<in> set ys. \<forall>r'. in_head y = Some r' \<longrightarrow> rec_ts_ns r < rec_ts_ns r'"
      "\<forall>z \<in> set zs. \<forall>r'. in_head z = Some r' \<longrightarrow> rec_ts_ns r \<le> rec_ts_ns r'"
      using merge_loop_step Some by blast
    have "pending_all (ys @ advance x # zs) < pending_all xs"
      using pending_advance [OF x(2)] by (simp add: x(1) pending_all_def)
    then show ?thesis using step [OF x(2) _ x(4,5)] less x(1,3) by simp
  qed
qed

lemma merge_loop_mset: "mset (merge_loop xs) = mset (concat (map pending xs))"
  by (induction xs rule: merge_loop_induct) (auto simp: pending_advance concat_eq_Nil_conv)

lemma head_bounds:
  assumes "in_order (pending y)" "\<forall>r'. in_head y = Some r' \<longrightarrow> t \<le> rec_ts_ns r'"
  shows "\<forall>q \<in> set (pending y). t \<le> rec_ts_ns q"
  using assms by (auto simp: pending_def in_order_def split: option.splits intro: order_trans)

lemma head_bounds_less:
  assumes "in_order (pending y)" "\<forall>r'. in_head y = Some r' \<longrightarrow> t < rec_ts_ns r'"
  shows "\<forall>q \<in> set (pending y). t < rec_ts_ns q"
  using assms by (auto simp: pending_def in_order_def split: option.splits intro: less_le_trans)

lemma merge_loop_sorted: "(\<forall>x \<in> set xs. in_order (pending x)) \<Longrightarrow> in_order (merge_loop xs)"
proof (induction xs rule: merge_loop_induct)
  case (Done xs)
  then show ?case by (simp add: in_order_def)
next
  case (Write ys x zs r)
  note px = pending_advance [OF Write(1)]
  have tail: "in_order (pending (advance x))" "\<forall>q \<in> set (pending (advance x)). rec_ts_ns r \<le> rec_ts_ns q"
    using Write.prems px by (auto simp: in_order_def)
  have "\<forall>q \<in> set (pending y). rec_ts_ns r \<le> rec_ts_ns q" if "y \<in> set ys \<union> set zs" for y
  proof (rule head_bounds)
    show "in_order (pending y)" using Write.prems that by auto
    show "\<forall>r'. in_head y = Some r' \<longrightarrow> rec_ts_ns r \<le> rec_ts_ns r'"
      using Write(3,4) that by (auto intro: less_imp_le)
  qed
  then have "\<forall>q \<in> set (concat (map pending (ys @ advance x # zs))). rec_ts_ns r \<le> rec_ts_ns q"
    using tail(2) by auto
  moreover have "set (merge_loop (ys @ advance x # zs)) = set (concat (map pending (ys @ advance x # zs)))"
    by (metis merge_loop_mset set_mset_mset)
  moreover have "in_order (merge_loop (ys @ advance x # zs))" using Write tail by auto
  ultimately show ?case unfolding Write(2) by (simp add: in_order_def)
qed

lemma merge_loop_stable:
  "(\<forall>x \<in> set xs. in_order (pending x)) \<Longrightarrow>
   filter (\<lambda>r. rec_ts_ns r = t) (merge_loop xs) = filter (\<lambda>r. rec_ts_ns r = t) (concat (map pending xs))"
proof (induction xs rule: merge_loop_induct)
  case (Done xs)
  then show ?case by (simp add: concat_eq_Nil_conv)
next
  case (Write ys x zs r)
  note px = pending_advance [OF Write(1)]
  have "in_order (pending (advance x))" using Write.prems px by (auto simp: in_order_def)
  then have IH: "filter (\<lambda>r. rec_ts_ns r = t) (merge_loop (ys @ advance x # zs)) =
      filter (\<lambda>r. rec_ts_ns r = t) (concat (map pending (ys @ advance x # zs)))"
    using Write by auto
  show ?case
  proof (cases "rec_ts_ns r = t")
    case True
    have "\<forall>q \<in> set (pending y). t < rec_ts_ns q" if "y \<in> set ys" for y
    proof (rule head_bounds_less)
      show "in_order (pending y)" using Write.prems that by auto
      show "\<forall>r'. in_head y = Some r' \<longrightarrow> t < rec_ts_ns r'" using Write(3) that True by blast
    qed
    then have "filter (\<lambda>r. rec_ts_ns r = t) (concat (map pending ys)) = []"
      by (simp add: filter_empty_conv) (metis less_irrefl)
    then show ?thesis unfolding Write(2) using IH True px by simp
  next
    case False
    then show ?thesis unfolding Write(2) using IH px by simp
  qed
qed

lemma merge_loop_is_sort:
  assumes "\<forall>x \<in> set xs. in_order (pending x)"
  shows "merge_loop xs = sort_key rec_ts_ns (concat (map pending xs))"
proof (rule properties_for_sort_key [symmetric])
  show "filter (\<lambda>r'. rec_ts_ns r = rec_ts_ns r') (merge_loop xs) =
      filter (\<lambda>r'. rec_ts_ns r = rec_ts_ns r') (concat (map pending xs))" for r
    using merge_loop_stable [OF assms, of "rec_ts_ns r"] by (simp add: eq_commute)
qed (use merge_loop_mset merge_loop_sorted [OF assms] in \<open>auto simp: in_order_def\<close>)

text \<open>The records of a file as its reader sees them.\<close>

definition file_records :: "bytes \<Rightarrow> canon_record list" where
  "file_records file = (case read_and_validate_header file of Some (h, b) \<Rightarrow> rd_all b | None \<Rightarrow> [])"

lemma open_input_pending: "open_input file = Some (h, i) \<Longrightarrow> pending i = file_records file"
  by (auto simp: open_input_def file_records_def pending_def rd_next_def rd_all.simps [of "snd _"] Let_def
      split: option.splits prod.splits) (simp_all add: rd_all.simps)

lemma open_all_pending: "open_all v files = Some (h, is') \<Longrightarrow> map pending is' = map file_records files"
proof (induction files arbitrary: v h is')
  case (Cons f files)
  then show ?case by (auto simp: open_input_pending split: Option.bind_splits if_splits)
qed simp

lemma le_value_less: "le_value bs < 256 ^ length bs"
proof (induction bs)
  case (Cons b bs)
  then show ?case using unsigned_less [of b, where 'a = nat] by simp
qed simp

lemma rd_parse_fits: "rd_parse b = Some (r, b') \<Longrightarrow> fits r"
  using le_value_less [of "drop 9 (take 11 b)"]
  by (auto simp: rd_parse_def fread_def fits_def split: if_splits)

lemma rd_all_fits: "\<forall>r \<in> set (rd_all b). fits r"
proof (induction b rule: rd_all.induct)
  case (1 b)
  show ?case
  proof (cases "rd_parse b")
    case None
    then show ?thesis by (simp add: rd_all.simps)
  next
    case (Some rb)
    obtain r b' where rb: "rb = (r, b')" by (cases rb)
    then show ?thesis using Some rd_parse_fits [of b r b'] 1 [OF Some, of r b'] by (subst rd_all.simps) simp
  qed
qed

lemma merge_writes_file:
  assumes "\<forall>k. io k = None"
  shows "cw_disk (cw_close io (cw_flush io (write_all io rs (snd (cw_open_file True True io (cw_make cfg)))))) =
         write_file cfg io rs \<and> fst (cw_open_file True True io (cw_make cfg))"
  using assms by (auto simp: write_file_def cw_close_def cw_flush_def flush_buffer_to_fp_def fwrite_def
      cw_open_file_def write_file_header_def cw_make_def Let_def)

text \<open>
  Merging is stable sorting. If every input is in order of time and the file system
  takes what it is given, then the merged file is readable, has the venue and date of the first input, and its
  records are exactly what the library's stable sort by time makes of the records of all inputs, first input first.
\<close>

theorem canon_merge_sorts:
  assumes "merge_main kind sha io files = Some out" "\<forall>k. io k = None" "list_all (in_order \<circ> file_records) files"
  shows "file_records out = sort_key rec_ts_ns (concat (map file_records files)) \<and>
         (\<exists>h. map_option fst (read_and_validate_header (hd files)) = Some h \<and>
              map_option (\<lambda>(g, b). (cf_venue_id g, cf_date_utc g)) (read_and_validate_header out) =
              Some (cf_venue_id h, cf_date_utc h))"
proof -
  obtain h inputs where opened: "open_all None files = Some (Some h, inputs)"
    and out: "out = write_file (merge_config kind sha h) io (merge_loop inputs)"
    using assms(1) merge_writes_file [OF assms(2)]
    by (auto simp: merge_main_def split: Option.bind_splits prod.splits if_splits) (metis sndI)
  note pend = open_all_pending [OF opened]
  have order: "\<forall>x \<in> set inputs. in_order (pending x)"
    using assms(3) pend by (metis (no_types, lifting) comp_apply image_eqI in_set_conv_nth length_map list_all_length nth_map)
  have sorted: "merge_loop inputs = sort_key rec_ts_ns (concat (map file_records files))"
    unfolding merge_loop_is_sort [OF order] pend ..
  have "\<forall>r \<in> set (merge_loop inputs). fits r"
    unfolding sorted by (auto simp: file_records_def rd_all_fits split: option.splits)
  then have fit: "filter fits (merge_loop inputs) = merge_loop inputs" by (simp add: filter_id_conv)
  note fit = fit [unfolded sorted]
  note rt = canon_file_read_back [OF assms(2), of "merge_config kind sha h" "merge_loop inputs", folded out, unfolded sorted fit]
  have "file_records out = sort_key rec_ts_ns (concat (map file_records files))"
    using rt by (auto simp: file_records_def split: option.splits)
  moreover have "map_option (\<lambda>(g, b). (cf_venue_id g, cf_date_utc g)) (read_and_validate_header out) =
      Some (cf_venue_id h, cf_date_utc h)"
    using rt by (auto simp: cw_make_def make_header_def merge_config_def)
  moreover have "map_option fst (read_and_validate_header (hd files)) = Some h"
    using opened by (cases files) (auto simp: open_input_def split: Option.bind_splits option.splits if_splits prod.splits)
  ultimately show ?thesis by blast
qed

definition rec_at :: "u64 \<Rightarrow> u8 \<Rightarrow> canon_record" where
  "rec_at t x = \<lparr> rec_ts_ns = t, rec_type = 1, rec_sbe = [x] \<rparr>"

definition perfect :: file_io where
  "perfect = (\<lambda>_. None)"

lemma opened: "\<exists>i. open_input (write_file small_config perfect rs) = Some (make_header small_config, i)"
  using canon_file_read_back [of perfect small_config rs]
  by (auto simp: open_input_def perfect_def cw_make_def small_config_def split: option.splits prod.splits)

lemma records_of_file: "file_records (write_file small_config perfect rs) = filter fits rs"
  using canon_file_read_back [of perfect small_config rs] by (auto simp: file_records_def perfect_def split: option.splits)

theorem canon_merge_sorts_witness:
  "case merge_main [109] [] perfect [write_file small_config perfect [rec_at 5 1], write_file small_config perfect [rec_at 3 2, rec_at 5 3]] of
     Some out \<Rightarrow> file_records out = [rec_at 3 2, rec_at 5 1, rec_at 5 3]
   | None \<Rightarrow> False"
proof -
  let ?files = "[write_file small_config perfect [rec_at 5 1], write_file small_config perfect [rec_at 3 2, rec_at 5 3]]"
  obtain i j where "open_input (write_file small_config perfect [rec_at 5 1]) = Some (make_header small_config, i)"
    "open_input (write_file small_config perfect [rec_at 3 2, rec_at 5 3]) = Some (make_header small_config, j)"
    using opened by blast
  then obtain out where out: "merge_main [109] [] perfect ?files = Some out"
    using merge_writes_file [of perfect] by (simp add: merge_main_def make_header_def perfect_def split_beta)
  have recs: "map file_records ?files = [[rec_at 5 1], [rec_at 3 2, rec_at 5 3]]"
    by (simp add: records_of_file fits_def rec_at_def)
  have "list_all (in_order \<circ> file_records) ?files"
    by (simp add: records_of_file fits_def in_order_def rec_at_def)
  then have "file_records out = sort_key rec_ts_ns (concat (map file_records ?files))"
    using canon_merge_sorts [OF out] by (simp add: perfect_def)
  also have "\<dots> = [rec_at 3 2, rec_at 5 1, rec_at 5 3]"
    unfolding recs by (simp add: rec_at_def)
  finally show ?thesis using out by simp
qed

end
