(* ===== verification/Json_Text.thy ===== *)
theory Json_Text
  imports Prelude Binary64 "HOL-Library.Monad_Syntax" "HOL-Library.Char_ord"
begin

text \<open>
  What the venue adapters use of two libraries. JSON values are those of Boost.JSON, whose parser is a
  parameter of the adapters: its accessors, where an exception is \<open>None\<close>. Of the standard library,
  \<open>std::stod\<close> and \<open>snprintf\<close> with \<open>%.8f\<close> are modelled on the exact rationals: a decimal text is read to
  the nearest double, and a double is written to the nearest eight-place decimal.
\<close>

subsection \<open>JSON\<close>

datatype json = J_Null | J_Bool bool | J_Int i64 | J_Uint u64 | J_Double double | J_String string
  | J_Array "json list" | J_Object "(string \<times> json) list"

type_synonym json_object = "(string \<times> json) list"

fun as_object :: "json \<Rightarrow> json_object option" where
  "as_object (J_Object ob) = Some ob"
| "as_object _ = None"

fun as_array :: "json \<Rightarrow> json list option" where
  "as_array (J_Array a) = Some a"
| "as_array _ = None"

fun as_string :: "json \<Rightarrow> string option" where
  "as_string (J_String s) = Some s"
| "as_string _ = None"

fun as_int64 :: "json \<Rightarrow> i64 option" where
  "as_int64 (J_Int n) = Some n"
| "as_int64 _ = None"

text \<open>\<open>to_number<uint64_t>\<close> throws when the value is negative, too large or not integral.\<close>

fun to_uint64 :: "json \<Rightarrow> u64 option" where
  "to_uint64 (J_Int n) = (if sint n < 0 then None else Some n)"
| "to_uint64 (J_Uint n) = Some n"
| "to_uint64 (J_Double (Fin x)) = (if 0 \<le> x \<and> x < 2 ^ 64 \<and> x = of_int (floor x) then Some (word_of_int (floor x)) else None)"
| "to_uint64 _ = None"

definition contains :: "json_object \<Rightarrow> string \<Rightarrow> bool" where
  "contains ob key \<longleftrightarrow> map_of ob key \<noteq> None"

abbreviation get_at :: "json_object \<Rightarrow> string \<Rightarrow> json option" where
  "get_at ob key \<equiv> map_of ob key"

subsection \<open>Reading a number\<close>

definition is_digit :: "char \<Rightarrow> bool" where
  "is_digit c \<longleftrightarrow> 48 \<le> (of_char c :: nat) \<and> (of_char c :: nat) \<le> 57"

definition is_space :: "char \<Rightarrow> bool" where
  "is_space c \<longleftrightarrow> c = CHR '' '' \<or> 9 \<le> (of_char c :: nat) \<and> (of_char c :: nat) \<le> 13"

definition digit_value :: "char \<Rightarrow> nat" where
  "digit_value c = of_char c - 48"

definition dec_value :: "string \<Rightarrow> nat" where
  "dec_value = foldl (\<lambda>n c. 10 * n + digit_value c) 0"

definition scale10 :: "int \<Rightarrow> rat" where
  "scale10 e = (if 0 \<le> e then 10 ^ nat e else 1 / 10 ^ nat (- e))"

fun split_sign :: "string \<Rightarrow> rat \<times> string" where
  "split_sign (c # s) = (if c = CHR ''-'' then (- 1, s) else if c = CHR ''+'' then (1, s) else (1, c # s))"
| "split_sign [] = (1, [])"

text \<open>An exponent counts only when a digit follows.\<close>

fun read_exponent :: "string \<Rightarrow> int" where
  "read_exponent (c # s) =
     (if c = CHR ''e'' \<or> c = CHR ''E'' then
        let (sg, s) = split_sign s in (if sg < 0 then - int (dec_value (takeWhile is_digit s)) else int (dec_value (takeWhile is_digit s)))
      else 0)"
| "read_exponent [] = 0"

text \<open>The digits before and after the point, and what follows.\<close>

definition read_mantissa :: "string \<Rightarrow> string \<times> string \<times> string" where
  "read_mantissa s =
     (let whole = takeWhile is_digit s; s = dropWhile is_digit s
      in case s of
           [] \<Rightarrow> (whole, [], [])
         | c # r \<Rightarrow> if c = CHR ''.'' then (whole, takeWhile is_digit r, dropWhile is_digit r) else (whole, [], s))"

definition read_decimal :: "string \<Rightarrow> rat option" where
  "read_decimal s =
     (let (sg, s) = split_sign (dropWhile is_space s);
          (whole, fraction, s) = read_mantissa s
      in if whole = [] \<and> fraction = [] then None
         else Some (sg * of_nat (dec_value (whole @ fraction)) * scale10 (read_exponent s - int (length fraction))))"

text \<open>
  \<open>std::stod\<close> on decimal texts: no number and out of range are exceptions. The texts \<open>inf\<close> and \<open>nan\<close> and
  hexadecimal floats, which \<open>strtod\<close> also takes and no venue sends, are read as decimal texts here.
\<close>

definition stod :: "string \<Rightarrow> double option" where
  "stod s = do {
     x \<leftarrow> read_decimal s;
     let d = to_double x;
     if d = PInf \<or> d = NInf then None
     else if \<bar>x\<bar> < pow2 (- 1022) \<and> d \<noteq> Fin x then None
     else Some d
   }"

subsection \<open>Writing a number\<close>

definition digit_char :: "nat \<Rightarrow> char" where
  "digit_char n = char_of (n + 48)"

fun show_nat :: "nat \<Rightarrow> string" where
  "show_nat n = (if n < 10 then [digit_char n] else show_nat (n div 10) @ [digit_char (n mod 10)])"

declare show_nat.simps [simp del]

fun show_fixed :: "nat \<Rightarrow> nat \<Rightarrow> string" where
  "show_fixed 0 n = []"
| "show_fixed (Suc k) n = show_fixed k (n div 10) @ [digit_char (n mod 10)]"

text \<open>\<open>%.8f\<close>: the nearest eight-place decimal, ties to even; \<open>snprintf\<close> keeps 63 characters of it.\<close>

fun printf_8f :: "double \<Rightarrow> string" where
  "printf_8f (Fin x) =
     (let n = nat (round_half_even (\<bar>x\<bar> * 10 ^ 8))
      in (if x < 0 then ''-'' else []) @ show_nat (n div 10 ^ 8) @ ''.'' @ show_fixed 8 (n mod 10 ^ 8))"
| "printf_8f PInf = ''inf''"
| "printf_8f NInf = ''-inf''"
| "printf_8f NaN = ''nan''"

definition snprintf_8f :: "nat \<Rightarrow> double \<Rightarrow> string" where
  "snprintf_8f size_of_buf d = take (size_of_buf - 1) (printf_8f d)"

subsection \<open>Digits read back\<close>

lemma of_char_digit_char: "n < 10 \<Longrightarrow> (of_char (digit_char n) :: nat) = n + 48"
  by (simp add: digit_char_def)

lemma is_digit_char [simp]: "n < 10 \<Longrightarrow> is_digit (digit_char n)"
  by (simp add: is_digit_def of_char_digit_char)

lemma digit_value_char [simp]: "n < 10 \<Longrightarrow> digit_value (digit_char n) = n"
  by (simp add: digit_value_def of_char_digit_char)

lemma dec_value_snoc [simp]: "dec_value (s @ [c]) = 10 * dec_value s + digit_value c"
  by (simp add: dec_value_def)

lemma dec_value_Nil [simp]: "dec_value [] = 0"
  by (simp add: dec_value_def)

lemma show_nat_digits: "(\<forall>c \<in> set (show_nat n). is_digit c) \<and> show_nat n \<noteq> [] \<and> dec_value (show_nat n) = n"
proof (induction n rule: show_nat.induct)
  case (1 n)
  show ?case
  proof (cases "n < 10")
    case True
    then show ?thesis using dec_value_snoc [of "[]" "digit_char n"] by (simp add: show_nat.simps)
  next
    case False
    then show ?thesis using 1 by (subst (1 2 3) show_nat.simps) auto
  qed
qed

lemma show_fixed_digits:
  "(\<forall>c \<in> set (show_fixed k n). is_digit c) \<and> length (show_fixed k n) = k \<and>
   dec_value (s @ show_fixed k n) = dec_value s * 10 ^ k + n mod 10 ^ k"
proof (induction k arbitrary: n)
  case (Suc k)
  have "10 * (n div 10 mod 10 ^ k) + n mod 10 = n mod (10 * 10 ^ k)"
    by (metis mod_mult2_eq mult.commute)
  then show ?case using Suc [of "n div 10"] dec_value_snoc [of "s @ show_fixed k (n div 10)" "digit_char (n mod 10)"]
    by (auto simp: algebra_simps)
qed simp

end
