(* ===== verification/Venue_Text.thy ===== *)
theory Venue_Text
  imports Json_Text Order_Adapter
begin

text \<open>
  What the adapters of the venues share: scaling decimal texts to fixed point, printing with
  \<open>std::to_string\<close>, the outcome of a request, and the lemmas on printing a double and reading it back.
  The theorem says which fixed-point numbers survive \<open>std::to_string\<close>.
\<close>

definition e8 :: double where "e8 = dlit (10 ^ 8)"

text \<open>\<open>static_cast\<close> of a scaled double cuts it off towards zero.\<close>

definition scaled_i64 :: "json_object \<Rightarrow> string \<Rightarrow> i64 option" where
  "scaled_i64 ob key = do {
     v \<leftarrow> get_at ob key; s \<leftarrow> as_string v; d \<leftarrow> stod s;
     n \<leftarrow> d_to_int (- (2 ^ 63)) (2 ^ 63) (d * e8);
     Some (word_of_int n)
   }"

definition scaled_u64 :: "json_object \<Rightarrow> string \<Rightarrow> u64 option" where
  "scaled_u64 ob key = do {
     v \<leftarrow> get_at ob key; s \<leftarrow> as_string v; d \<leftarrow> stod s;
     n \<leftarrow> d_to_int 0 (2 ^ 64) (d * e8);
     Some (word_of_int n)
   }"

text \<open>\<open>std::stoull\<close>: no digits and out of range are exceptions; a minus sign wraps.\<close>

definition stoull :: "string \<Rightarrow> u64 option" where
  "stoull s =
     (let (sg, s) = split_sign (dropWhile is_space s); ds = takeWhile is_digit s
      in if ds = [] \<or> 2 ^ 64 \<le> dec_value ds then None
         else Some (if sg < 0 then - of_nat (dec_value ds) else of_nat (dec_value ds)))"

text \<open>\<open>std::to_string\<close> of an integer and of a double: the nearest six-place decimal, ties to even.\<close>

definition to_string_u64 :: "u64 \<Rightarrow> string" where
  "to_string_u64 n = show_nat (unat n)"

fun to_string_double :: "double \<Rightarrow> string" where
  "to_string_double (Fin x) =
     (let n = nat (round_half_even (\<bar>x\<bar> * 10 ^ 6))
      in (if x < 0 then ''-'' else []) @ show_nat (n div 10 ^ 6) @ ''.'' @ show_fixed 6 (n mod 10 ^ 6))"
| "to_string_double PInf = ''inf''"
| "to_string_double NInf = ''-inf''"
| "to_string_double NaN = ''nan''"

text \<open>A signed request: it throws, or answers with a text that is JSON or not.\<close>

datatype post_result = Post_Throws | Post_Response "json option"

text \<open>Fields of a JSON object, where a missing or differently typed one is an exception.\<close>

definition field_string :: "json_object \<Rightarrow> string \<Rightarrow> string option" where
  "field_string ob key = Option.bind (get_at ob key) as_string"

definition field_int64 :: "json_object \<Rightarrow> string \<Rightarrow> i64 option" where
  "field_int64 ob key = Option.bind (get_at ob key) as_int64"

definition left_of :: "u64 \<Rightarrow> u64 \<Rightarrow> u64" where
  "left_of total_qty filled_qty = (if filled_qty < total_qty then total_qty - filled_qty else 0)"

text \<open>The event an adapter makes itself when a request fails.\<close>

definition rejection :: "exchange_id \<Rightarrow> new_order_request \<Rightarrow> u64 \<Rightarrow> exec_event" where
  "rejection ex req ts =
     blank_exec_event\<lparr> ev_order_id := nr_order_id req, ev_exchange_id := ex, ev_instrument_id := nr_instrument_id req,
       ev_local_ts_ns := ts, ev_exchange_ts_ns := ts, ev_side := nr_side req, ev_order_type := nr_order_type req,
       ev_status := ES_REJECTED, ev_reject_reason := RR_EXCHANGE_ERROR \<rparr>"

subsection \<open>JSON\<close>

lemma as_object_Some: "as_object v = Some ob \<longleftrightarrow> v = J_Object ob"
  by (cases v) auto

lemma as_string_Some: "as_string v = Some s \<longleftrightarrow> v = J_String s"
  by (cases v) auto

subsection \<open>Printing and reading\<close>

lemma digit_not_point: "is_digit c \<Longrightarrow> c \<noteq> CHR ''.'' \<and> c \<noteq> CHR ''-'' \<and> c \<noteq> CHR ''+'' \<and> c \<noteq> CHR ''e'' \<and> \<not> is_space c"
  by (auto simp: is_digit_def is_space_def)

lemma digits_takeWhile:
  assumes "\<forall>c \<in> set ds. is_digit c" "s = [] \<or> \<not> is_digit (hd s)"
  shows "takeWhile is_digit (ds @ s) = ds \<and> dropWhile is_digit (ds @ s) = s"
  using assms by (cases s) (auto simp: takeWhile_append dropWhile_append)

lemma read_mantissa_point:
  assumes "\<forall>c \<in> set w. is_digit c" "\<forall>c \<in> set f. is_digit c"
  shows "read_mantissa (w @ CHR ''.'' # f) = (w, f, [])"
  using digits_takeWhile [OF assms(1), of "CHR ''.'' # f"] digits_takeWhile [OF assms(2), of "[]"]
  by (simp add: read_mantissa_def is_digit_def)

lemma read_mantissa_whole:
  assumes "\<forall>c \<in> set w. is_digit c"
  shows "read_mantissa w = (w, [], [])"
proof -
  have "takeWhile is_digit w = w" "dropWhile is_digit w = []" using digits_takeWhile [OF assms, of "[]"] by auto
  then show ?thesis unfolding read_mantissa_def by (simp only: Let_def list.case)
qed

lemma split_sign_digit: "s \<noteq> [] \<Longrightarrow> is_digit (hd s) \<Longrightarrow> split_sign (dropWhile is_space s) = (1, s)"
  using digit_not_point [of "hd s"] by (cases s) auto

lemma show_nat_length: "n < 10 ^ k \<Longrightarrow> length (show_nat n) \<le> max 1 k"
proof (induction n arbitrary: k rule: show_nat.induct)
  case (1 n)
  show ?case
  proof (cases "n < 10")
    case True
    then show ?thesis by (simp add: show_nat.simps)
  next
    case False
    then obtain j where k: "k = Suc j" using 1(2) by (cases k) auto
    then have "n div 10 < 10 ^ j" using 1(2) by (simp add: less_mult_imp_div_less mult.commute)
    moreover have "j \<noteq> 0" using k 1(2) False by (cases j) auto
    ultimately show ?thesis using 1(1) [OF False, of j] False k by (subst show_nat.simps) simp
  qed
qed

lemma read_sign:
  assumes "w \<noteq> []" "\<forall>c \<in> set w. is_digit c"
  shows "split_sign (dropWhile is_space ((if neg then ''-'' else []) @ w @ r)) = ((if neg then - 1 else 1), w @ r)"
proof -
  have "\<not> is_space CHR ''-''" by (simp add: is_space_def)
  then show ?thesis using split_sign_digit [of "w @ r"] assms by (cases w) auto
qed

lemma stoull_to_string: "stoull (to_string_u64 n) = Some n"
proof -
  have d: "\<forall>c \<in> set (show_nat (unat n)). is_digit c" "show_nat (unat n) \<noteq> []" "dec_value (show_nat (unat n)) = unat n"
    using show_nat_digits by auto
  have "split_sign (dropWhile is_space (show_nat (unat n))) = (1, show_nat (unat n))"
    using d(1,2) by (intro split_sign_digit) auto
  moreover have "takeWhile is_digit (show_nat (unat n)) = show_nat (unat n)" using d(1) by (simp only: takeWhile_eq_all_conv)
  moreover have "\<not> 2 ^ 64 \<le> unat n" using unsigned_less [of n, where 'a = nat] by simp
  ultimately show ?thesis using d(2,3) unfolding stoull_def to_string_u64_def Let_def by (simp only: split_conv) simp
qed

subsection \<open>Rounding\<close>

lemma round_half_even_error: "\<bar>of_int (round_half_even x) - x\<bar> \<le> 1 / 2"
  using floor_correct [of x] unfolding round_half_even_def Let_def abs_le_iff
  by (simp split: if_split) linarith

lemma round64_error:
  assumes "pow2 (- 1022) \<le> \<bar>x\<bar>"
  shows "\<bar>round64 x - x\<bar> \<le> \<bar>x\<bar> * pow2 (- 53)"
proof -
  have "0 < \<bar>x\<bar>" using assms pow2_pos [of "- 1022"] by (rule order_less_le_trans [rotated])
  then have "x \<noteq> 0" by simp
  have u: "ulp_exp x = ilog2 \<bar>x\<bar> - 52" using assms ilog2_ge_iff [of "\<bar>x\<bar>" "- 1022"] \<open>x \<noteq> 0\<close> by (simp add: ulp_exp_def)
  have "\<bar>of_int (round_half_even (x / pow2 (ulp_exp x))) - x / pow2 (ulp_exp x)\<bar> * pow2 (ulp_exp x) \<le> 1 / 2 * pow2 (ulp_exp x)"
    using round_half_even_error by (intro mult_right_mono) simp_all
  also have "\<dots> = pow2 (ilog2 \<bar>x\<bar>) * pow2 (- 53)"
  proof -
    have "pow2 (ilog2 \<bar>x\<bar> - 52) = pow2 (ilog2 \<bar>x\<bar> - 53) * pow2 1" by (simp flip: pow2_add)
    moreover have "pow2 (ilog2 \<bar>x\<bar>) * pow2 (- 53) = pow2 (ilog2 \<bar>x\<bar> - 53)" by (simp flip: pow2_add)
    ultimately show ?thesis unfolding u by (simp add: pow2_def [of 1])
  qed
  also have "\<dots> \<le> \<bar>x\<bar> * pow2 (- 53)" using ilog2_bounds [of "\<bar>x\<bar>"] \<open>x \<noteq> 0\<close> by (intro mult_right_mono) auto
  finally have "\<bar>(of_int (round_half_even (x / pow2 (ulp_exp x))) - x / pow2 (ulp_exp x)) * pow2 (ulp_exp x)\<bar> \<le> \<bar>x\<bar> * pow2 (- 53)"
    by (simp add: abs_mult)
  then show ?thesis using \<open>x \<noteq> 0\<close> by (simp add: round64_def left_diff_distrib)
qed

lemma round_half_even_near: "\<bar>x - of_int z\<bar> < 1 / 2 \<Longrightarrow> round_half_even x = z"
  using round_half_even_error [of x] by linarith

text \<open>A count of hundred-millionths below \<open>2 ^ 52\<close> survives the division by \<open>1e8\<close> and the printing.\<close>

lemma e8_error:
  assumes "\<bar>q\<bar> < 2 ^ 52"
  shows "\<bar>round64 (of_int q / 10 ^ 8) * 10 ^ 8 - of_int q\<bar> < 1 / 2"
proof (cases "q = 0")
  case False
  let ?x = "of_int q / 10 ^ 8 :: rat"
  have "pow2 (- 1022) \<le> pow2 (- 27)" by (rule pow2_mono) simp
  also have "pow2 (- 27) \<le> 1 / 10 ^ 8" by (simp add: pow2_def)
  also have "\<dots> \<le> \<bar>?x\<bar>"
  proof -
    have "1 \<le> \<bar>of_int q :: rat\<bar>" using False by linarith
    then show ?thesis by (simp add: divide_right_mono)
  qed
  finally have "\<bar>round64 ?x - ?x\<bar> \<le> \<bar>?x\<bar> * pow2 (- 53)" by (rule round64_error)
  then have bound: "\<bar>round64 ?x - ?x\<bar> * 10 ^ 8 \<le> \<bar>of_int q\<bar> * pow2 (- 53)" by (simp add: field_simps)
  have "\<bar>of_int q\<bar> * pow2 (- 53) < 2 ^ 52 * pow2 (- 53)"
  proof (rule mult_strict_right_mono)
    have "(of_int \<bar>q\<bar> :: rat) < of_int (2 ^ 52)" using assms by (simp only: of_int_less_iff)
    then show "\<bar>of_int q :: rat\<bar> < 2 ^ 52" by simp
  qed simp
  also have "2 ^ 52 * pow2 (- 53) = 1 / 2" by (simp add: pow2_def)
  finally have half: "\<bar>round64 ?x - ?x\<bar> * 10 ^ 8 < 1 / 2" using bound by linarith
  have "round64 ?x * 10 ^ 8 - of_int q = (round64 ?x - ?x) * 10 ^ 8" by (simp add: left_diff_distrib)
  moreover have "\<bar>(round64 ?x - ?x) * 10 ^ 8\<bar> = \<bar>round64 ?x - ?x\<bar> * 10 ^ 8" by (simp only: abs_mult) simp
  ultimately show ?thesis using half by metis
qed simp

lemma places8_e8: "\<bar>q\<bar> < 2 ^ 52 \<Longrightarrow> round_half_even (round64 (of_int q / 10 ^ 8) * 10 ^ 8) = q"
  using e8_error by (rule round_half_even_near)

lemma e8_sign: "\<bar>q\<bar> < 2 ^ 52 \<Longrightarrow> round64 (of_int q / 10 ^ 8) < 0 \<longleftrightarrow> q < 0"
  using places8_e8 [of q] round64_nonneg [of "of_int q / 10 ^ 8"]
    round_half_even_mono [of 0 "round64 (of_int q / 10 ^ 8) * 10 ^ 8"] round_half_even_of_int [of 0]
  by (cases "q < 0") (auto simp: not_le [symmetric])

lemma e8_abs: "\<bar>q\<bar> < 2 ^ 52 \<Longrightarrow> \<bar>round64 (of_int q / 10 ^ 8)\<bar> = round64 (of_int \<bar>q\<bar> / 10 ^ 8)"
  using e8_sign [of q] round64_minus [of "of_int q / 10 ^ 8"] by (cases "q < 0") simp_all

lemma e8_Fin: "e8 = Fin (10 ^ 8)"
  by code_simp

lemma to_double_small:
  assumes "\<bar>x\<bar> \<le> of_int (2 ^ 53)"
  shows "to_double x = Fin (round64 x)"
proof -
  have "round64 (of_int (2 ^ 53)) = of_int (2 ^ 53)" "round64 (of_int (- (2 ^ 53))) = of_int (- (2 ^ 53))"
    by (intro round64_representable representable_of_int; simp)+
  moreover have "of_int (- (2 ^ 53)) \<le> x" "x \<le> of_int (2 ^ 53)" using assms by auto
  ultimately have "of_int (- (2 ^ 53)) \<le> round64 x" "round64 x \<le> of_int (2 ^ 53)" using round64_mono by metis+
  moreover have "of_int (2 ^ 53) < pow2 1024" using Binary64.pow2_less [of 53 1024] by (simp add: pow2_nat)
  ultimately show ?thesis by (auto simp: to_double_alt)
qed

lemma small_quotient:
  assumes "\<bar>q\<bar> < 2 ^ 52"
  shows "d_of_int q div e8 = Fin (round64 (of_int q / 10 ^ 8))"
proof -
  have q: "(of_int \<bar>q\<bar> :: rat) < of_int (2 ^ 52)" using assms by (simp only: of_int_less_iff)
  then have "\<bar>of_int q / 10 ^ 8 :: rat\<bar> \<le> of_int (2 ^ 53)" by simp
  moreover have "d_of_int q = Fin (of_int q)" using assms by (intro d_of_int_exact) auto
  ultimately show ?thesis by (simp add: e8_Fin d_div_Fin to_double_small)
qed

lemma stod_exact:
  assumes "\<bar>q\<bar> < 2 ^ 52" and v: "read_decimal s = Some (of_int q / 10 ^ 8)"
  shows "stod s = Some (d_of_int q div e8)"
proof -
  let ?x = "of_int q / 10 ^ 8 :: rat"
  have "(of_int \<bar>q\<bar> :: rat) < of_int (2 ^ 52)" using assms(1) by (simp only: of_int_less_iff)
  then have d: "to_double ?x = d_of_int q div e8" unfolding small_quotient [OF assms(1)] by (intro to_double_small) simp
  have "Fin ?x = to_double ?x" if "\<bar>?x\<bar> < pow2 (- 1022)"
  proof -
    have "pow2 (- 1022) \<le> pow2 (- 27)" by (rule pow2_mono) simp
    also have "pow2 (- 27) \<le> 1 / 10 ^ 8" by (simp add: pow2_def)
    finally have "\<bar>of_int q :: rat\<bar> < 1" using that by (simp add: field_simps)
    then have "q = 0" by linarith
    then show ?thesis by simp
  qed
  then have "\<not> (\<bar>?x\<bar> < pow2 (- 1022) \<and> to_double ?x \<noteq> Fin ?x)" by metis
  moreover have "stod s =
      (if to_double ?x = PInf \<or> to_double ?x = NInf then None
       else if \<bar>?x\<bar> < pow2 (- 1022) \<and> to_double ?x \<noteq> Fin ?x then None else Some (to_double ?x))"
    unfolding stod_def v by (simp only: Option.bind.bind_lunit Let_def)
  ultimately show ?thesis using small_quotient [OF assms(1)] unfolding d by simp
qed

lemma scaled_fields:
  assumes "get_at ob key = Some (J_String s)" "stod s = Some d"
  shows "d_to_int 0 (2 ^ 64) (d * e8) = Some n \<Longrightarrow> scaled_u64 ob key = Some (word_of_int n)"
    and "d_to_int (- (2 ^ 63)) (2 ^ 63) (d * e8) = Some n \<Longrightarrow> scaled_i64 ob key = Some (word_of_int n)"
  using assms by (simp_all add: scaled_u64_def scaled_i64_def)

text \<open>Some values for examples; the first is cut off.\<close>

lemma scaled_texts:
  "d_to_int 0 (2 ^ 64) (d_of_int 29000000 div e8 * e8) = Some 28999999"
  "d_to_int 0 (2 ^ 64) (d_of_int 200000000 div e8 * e8) = Some 200000000"
  "d_to_int (- (2 ^ 63)) (2 ^ 63) (d_of_int 100000000 div e8 * e8) = Some 100000000"
  "d_to_int (- (2 ^ 63)) (2 ^ 63) (d_of_int 0 div e8 * e8) = Some 0"
  by code_simp+

text \<open>The text of \<open>std::to_string\<close> is read back as the six-place decimal it shows.\<close>

definition places6 :: "rat \<Rightarrow> nat" where
  "places6 x = nat (round_half_even (\<bar>x\<bar> * 10 ^ 6))"

lemma to_string_value:
  "read_decimal (to_string_double (Fin x)) = Some ((if x < 0 then - 1 else 1) * (of_nat (places6 x) / 10 ^ 6))"
proof -
  define w where "w = show_nat (places6 x div 10 ^ 6)"
  define f where "f = show_fixed 6 (places6 x mod 10 ^ 6)"
  have w: "w \<noteq> []" "\<forall>c \<in> set w. is_digit c" "dec_value w = places6 x div 10 ^ 6"
    using show_nat_digits by (auto simp: w_def)
  have f: "\<forall>c \<in> set f. is_digit c" "length f = 6" "dec_value (w @ f) = dec_value w * 10 ^ 6 + places6 x mod 10 ^ 6"
    using show_fixed_digits [where k = 6 and n = "places6 x mod 10 ^ 6" and s = w] by (auto simp: f_def)
  have n: "dec_value (w @ f) = places6 x" unfolding f(3) w(3) by (simp add: div_mult_mod_eq)
  have "to_string_double (Fin x) = (if x < 0 then ''-'' else []) @ w @ CHR ''.'' # f"
    unfolding to_string_double.simps places6_def [symmetric] Let_def w_def [symmetric] f_def [symmetric] by simp
  then show ?thesis
    unfolding read_decimal_def by (simp only: read_sign [OF w(1,2)] read_mantissa_point [OF w(2) f(1)] prod.case Let_def)
      (use n w(1) f(2) in \<open>simp add: scale10_def\<close>)
qed

lemma hundredth: "0 \<le> x \<Longrightarrow> x < 1 / 2 \<Longrightarrow> x / 100 < (1 / 2 :: rat)"
  by simp

lemma to_string_exact_iff:
  assumes "\<bar>q\<bar> < 2 ^ 52"
  shows "read_decimal (to_string_double (d_of_int q div e8)) = Some (of_int q / 10 ^ 8) \<longleftrightarrow> 100 dvd q"
proof -
  let ?x = "of_int q / 10 ^ 8 :: rat" and ?n = "places6 (round64 (of_int q / 10 ^ 8))"
  let ?s = "if q < 0 then - 1 else (1::int)"
  have v: "read_decimal (to_string_double (d_of_int q div e8)) = Some (of_int ?s * (of_nat ?n / 10 ^ 6))"
    unfolding small_quotient [OF assms] to_string_value e8_sign [OF assms] by simp
  show ?thesis
  proof
    assume "read_decimal (to_string_double (d_of_int q div e8)) = Some ?x"
    then have "of_int ?s * (of_nat ?n / 10 ^ 6) = ?x" unfolding v by simp
    then have "(of_int q :: rat) = of_int (?s * int ?n * 100)" by (simp add: field_simps split: if_splits)
    then have "q = ?s * int ?n * 100" by (simp only: of_int_eq_iff)
    then show "100 dvd q" using dvd_triv_right [of 100 "?s * int ?n"] by metis
  next
    assume "100 dvd q"
    then obtain m where m: "q = 100 * m" by blast
    define A where "A = round64 (of_int \<bar>q\<bar> / 10 ^ 8)"
    have "\<bar>A * 10 ^ 8 - of_int \<bar>q\<bar>\<bar> < 1 / 2" using e8_error [of "\<bar>q\<bar>"] assms by (simp add: A_def)
    moreover have "(of_int \<bar>q\<bar> :: rat) = 100 * of_int \<bar>m\<bar>" by (simp add: m abs_mult)
    then have "A * 10 ^ 6 - of_int \<bar>m\<bar> = (A * 10 ^ 8 - of_int \<bar>q\<bar>) / 100" by simp
    then have "\<bar>A * 10 ^ 6 - of_int \<bar>m\<bar>\<bar> = \<bar>A * 10 ^ 8 - of_int \<bar>q\<bar>\<bar> / 100" by (simp only: abs_divide)
    ultimately have "\<bar>A * 10 ^ 6 - of_int \<bar>m\<bar>\<bar> < 1 / 2" using hundredth by (metis abs_ge_zero)
    then have "round_half_even (A * 10 ^ 6) = \<bar>m\<bar>" by (rule round_half_even_near)
    then have "?n = nat \<bar>m\<bar>" unfolding places6_def e8_abs [OF assms] A_def [symmetric] by simp
    then show "read_decimal (to_string_double (d_of_int q div e8)) = Some ?x" unfolding v using m by (simp split: if_split)
  qed
qed

text \<open>
  Which fixed-point numbers reach Binance and OKX unchanged. For a count \<open>q\<close> of hundred-millionths below
  \<open>2 ^ 52\<close> in size, the text that \<open>std::to_string\<close> makes of \<open>q / 1e8\<close> has that decimal value exactly when \<open>q\<close> is a
  multiple of 100: prices and quantities with a seventh or eighth decimal are altered on the way.
\<close>

theorem to_string_exact:
  assumes "\<bar>q\<bar> < 2 ^ 52"
  shows "read_decimal (to_string_double (d_of_int q div e8)) = Some (of_int q / 10 ^ 8) \<longleftrightarrow> 100 dvd q"
  using assms by (rule to_string_exact_iff)

theorem to_string_exact_witness:
  "read_decimal (to_string_double (d_of_int 1234 div e8)) \<noteq> Some (1234 / 10 ^ 8)"
  using to_string_exact [of 1234] by simp

text \<open>A multiple of 100 in examples.\<close>

definition text6 :: "int \<Rightarrow> string" where
  "text6 q = to_string_double (d_of_int q div e8)"

lemma stod_text6: "\<bar>q\<bar> < 2 ^ 52 \<Longrightarrow> 100 dvd q \<Longrightarrow> stod (text6 q) = Some (d_of_int q div e8)"
  using stod_exact [of q "text6 q"] to_string_exact_iff [of q] by (simp add: text6_def)

end
