(* ===== verification/Hyperliquid_Encoder.thy ===== *)
theory Hyperliquid_Encoder
  imports Venue_Text
begin

text \<open>
  The requests the Hyperliquid adapter builds
  (\<open>src/bpt-order-gateway/src/adapter/hyperliquid/hyperliquid_action_encoder.cpp\<close>): the asset tables
  read from the venue, the text of a number and the JSON of an action. \<open>std::log10\<close> and \<open>std::pow\<close>,
  whose results C++ does not fix, are parameters. The theorem: a quantity reaches the venue as the decimal
  it is.
\<close>

subsection \<open>Numbers\<close>

definition find_last_not_of :: "char \<Rightarrow> string \<Rightarrow> nat option" where
  "find_last_not_of c s = (let t = dropWhile (\<lambda>d. d = c) (rev s) in if t = [] then None else Some (length t - 1))"

definition find_first :: "char \<Rightarrow> string \<Rightarrow> nat option" where
  "find_first c s = (if c \<in> set s then Some (length (takeWhile (\<lambda>d. d \<noteq> c) s)) else None)"

definition strip_zeros :: "string \<Rightarrow> string" where
  "strip_zeros s =
     (case find_first CHR ''.'' s of
        None \<Rightarrow> s
      | Some dot \<Rightarrow>
          (case find_last_not_of CHR ''0'' s of
             None \<Rightarrow> s
           | Some l \<Rightarrow> if l = dot then take dot s else take (l + 1) s))"

definition float_to_wire :: "double \<Rightarrow> string" where
  "float_to_wire v = (let s = strip_zeros (snprintf_8f 64 v) in if s = ''-0'' then ''0'' else s)"

subsection \<open>Assets\<close>

record asset_meta =
  am_asset_idx :: int
  am_sz_decimals :: int
  am_max_px_decimals :: int

type_synonym asset_table = "(string, asset_meta) umap"

definition emplace :: "'k \<Rightarrow> 'v \<Rightarrow> ('k, 'v) umap \<Rightarrow> ('k, 'v) umap" where
  "emplace k v m = (if map_of m k = None then AList.update k v m else m)"

text \<open>\<open>static_cast<int>\<close> of an \<open>int64_t\<close> keeps the low 32 bits.\<close>

definition to_int32 :: "int \<Rightarrow> int" where
  "to_int32 n = sint (word_of_int n :: 32 word)"

fun universe_entry :: "nat \<Rightarrow> json \<Rightarrow> asset_table \<Rightarrow> asset_table" where
  "universe_entry i (J_Object ob) out =
     (case (get_at ob ''name'', get_at ob ''szDecimals'') of
        (Some (J_String name), Some (J_Int sz)) \<Rightarrow>
          (let sz_dec = to_int32 (sint sz)
           in emplace name \<lparr> am_asset_idx = int i, am_sz_decimals = sz_dec, am_max_px_decimals = to_int32 (6 - sz_dec) \<rparr> out)
      | _ \<Rightarrow> out)"
| "universe_entry i _ out = out"

fun universe_entries :: "nat \<Rightarrow> json list \<Rightarrow> asset_table \<Rightarrow> asset_table" where
  "universe_entries i [] out = out"
| "universe_entries i (v # vs) out = universe_entries (Suc i) vs (universe_entry i v out)"

definition parse_universe_meta :: "json option \<Rightarrow> asset_table option" where
  "parse_universe_meta parsed = do {
     v \<leftarrow> parsed;
     ob \<leftarrow> as_object v;
     u \<leftarrow> get_at ob ''universe'';
     arr \<leftarrow> as_array u;
     Some (universe_entries 0 arr [])
   }"

fun token_entry :: "json \<Rightarrow> (i64, int) umap \<Rightarrow> (i64, int) umap" where
  "token_entry (J_Object ob) out =
     (case (get_at ob ''index'', get_at ob ''szDecimals'') of
        (Some (J_Int idx), Some (J_Int sz)) \<Rightarrow> emplace idx (to_int32 (sint sz)) out
      | _ \<Rightarrow> out)"
| "token_entry _ out = out"

fun spot_entry :: "(i64, int) umap \<Rightarrow> json \<Rightarrow> asset_table \<Rightarrow> asset_table" where
  "spot_entry token_sz_decimals (J_Object ob) out =
     (case (get_at ob ''name'', get_at ob ''index'', get_at ob ''tokens'') of
        (Some (J_String name), Some (J_Int index), Some (J_Array (J_Int base_idx # _))) \<Rightarrow>
          (case map_of token_sz_decimals base_idx of
             None \<Rightarrow> out
           | Some sz_dec \<Rightarrow>
               emplace name \<lparr> am_asset_idx = to_int32 (10000 + to_int32 (sint index)), am_sz_decimals = sz_dec,
                              am_max_px_decimals = to_int32 (8 - sz_dec) \<rparr> out)
      | _ \<Rightarrow> out)"
| "spot_entry token_sz_decimals _ out = out"

definition parse_spot_universe_meta :: "json option \<Rightarrow> asset_table option" where
  "parse_spot_universe_meta parsed = do {
     v \<leftarrow> parsed;
     ob \<leftarrow> as_object v;
     tokens \<leftarrow> Option.bind (get_at ob ''tokens'') as_array;
     universe \<leftarrow> Option.bind (get_at ob ''universe'') as_array;
     let token_sz_decimals = fold token_entry tokens [];
     Some (fold (spot_entry token_sz_decimals) universe [])
   }"

subsection \<open>Actions\<close>

record math =
  std_log10 :: "double \<Rightarrow> double"
  std_pow10 :: "int \<Rightarrow> double"

text \<open>How many decimals a price may have; \<open>None\<close> is the undefined conversion of the logarithm.\<close>

definition price_decimals :: "math \<Rightarrow> double \<Rightarrow> asset_meta \<Rightarrow> int option" where
  "price_decimals mt price meta = do {
     n \<leftarrow> d_to_int (- (2 ^ 31)) (2 ^ 31) (std_floor (std_log10 mt price));
     let int_digits = n + 1;
     let sigfig_decimals = max 0 (5 - int_digits);
     Some (min sigfig_decimals (am_max_px_decimals meta))
   }"

definition round_price_for_asset :: "math \<Rightarrow> double \<Rightarrow> asset_meta \<Rightarrow> double option" where
  "round_price_for_asset mt price meta =
     (if price \<le> Fin 0 then Some price
      else do {
        decimals \<leftarrow> price_decimals mt price meta;
        let scale = std_pow10 mt decimals;
        Some (std_round (price * scale) div scale)
      })"

datatype hl_tif = Tif_Gtc | Tif_Alo | Tif_Ioc

fun tif_to_string :: "hl_tif \<Rightarrow> string" where
  "tif_to_string Tif_Alo = ''Alo''"
| "tif_to_string Tif_Ioc = ''Ioc''"
| "tif_to_string Tif_Gtc = ''Gtc''"

definition json_int :: "int \<Rightarrow> json" where
  "json_int n = J_Int (word_of_int n)"

definition build_order_object :: "math \<Rightarrow> asset_meta \<Rightarrow> bool \<Rightarrow> double \<Rightarrow> double \<Rightarrow> hl_tif \<Rightarrow> json option" where
  "build_order_object mt meta is_buy price_natural size_natural tif = do {
     px \<leftarrow> round_price_for_asset mt price_natural meta;
     Some (J_Object
       [(''a'', json_int (am_asset_idx meta)), (''b'', J_Bool is_buy), (''p'', J_String (float_to_wire px)),
        (''s'', J_String (float_to_wire size_natural)), (''r'', J_Bool False),
        (''t'', J_Object [(''limit'', J_Object [(''tif'', J_String (tif_to_string tif))])])])
   }"

definition build_order_action :: "math \<Rightarrow> asset_meta \<Rightarrow> bool \<Rightarrow> double \<Rightarrow> double \<Rightarrow> hl_tif \<Rightarrow> json option" where
  "build_order_action mt meta is_buy price_natural size_natural tif = do {
     ob \<leftarrow> build_order_object mt meta is_buy price_natural size_natural tif;
     Some (J_Object [(''type'', J_String ''order''), (''orders'', J_Array [ob]), (''grouping'', J_String ''na'')])
   }"

definition build_cancel_action :: "asset_meta \<Rightarrow> u64 \<Rightarrow> json" where
  "build_cancel_action meta exch_oid =
     J_Object [(''type'', J_String ''cancel''),
       (''cancels'', J_Array [J_Object [(''a'', json_int (am_asset_idx meta)), (''o'', J_Uint exch_oid)]])]"

definition build_modify_action :: "math \<Rightarrow> asset_meta \<Rightarrow> u64 \<Rightarrow> double \<Rightarrow> double \<Rightarrow> json option" where
  "build_modify_action mt meta client_or_exch_oid price_natural size_natural = do {
     ord_inner \<leftarrow> build_order_object mt meta True price_natural size_natural Tif_Gtc;
     Some (J_Object [(''type'', J_String ''modify''),
       (''modifies'', J_Array [J_Object [(''oid'', J_Uint client_or_exch_oid), (''order'', ord_inner)]])])
   }"

definition build_schedule_cancel_action :: "i64 \<Rightarrow> json" where
  "build_schedule_cancel_action time_ms =
     J_Object ((''type'', J_String ''scheduleCancel'') # (if 0 < sint time_ms then [(''time'', J_Int time_ms)] else []))"

subsection \<open>A number without its zeros reads back\<close>

lemma dec_value_zeros: "dec_value (s @ replicate j CHR ''0'') = dec_value s * 10 ^ j"
proof (induction j)
  case (Suc j)
  have "s @ replicate (Suc j) CHR ''0'' = (s @ replicate j CHR ''0'') @ [CHR ''0'']"
    by (metis append.assoc replicate_Suc replicate_append_same)
  then show ?case using Suc dec_value_snoc [of "s @ replicate j CHR ''0''" "CHR ''0''"] by (simp add: digit_value_def)
qed simp

text \<open>A fraction without its trailing zeros.\<close>

definition trim :: "string \<Rightarrow> string" where
  "trim f = rev (dropWhile (\<lambda>c. c = CHR ''0'') (rev f))"

lemma trim_zeros: "\<exists>j. f = trim f @ replicate j CHR ''0''"
proof -
  have "rev f = takeWhile (\<lambda>c. c = CHR ''0'') (rev f) @ dropWhile (\<lambda>c. c = CHR ''0'') (rev f)" by simp
  moreover have "takeWhile (\<lambda>c. c = CHR ''0'') (rev f) = replicate (length (takeWhile (\<lambda>c. c = CHR ''0'') (rev f))) CHR ''0''"
    by (rule replicate_length_same [symmetric]) (auto dest: set_takeWhileD)
  ultimately show ?thesis unfolding trim_def by (metis rev_append rev_replicate rev_rev_ident)
qed

lemma strip_zeros_text:
  assumes "CHR ''.'' \<notin> set p"
  shows "strip_zeros (p @ CHR ''.'' # f) = (if trim f = [] then p else p @ CHR ''.'' # trim f)"
proof -
  have "takeWhile (\<lambda>d. d \<noteq> CHR ''.'') (p @ CHR ''.'' # f) = p"
    using assms by (subst takeWhile_append2) auto
  then have first: "find_first CHR ''.'' (p @ CHR ''.'' # f) = Some (length p)" by (simp add: find_first_def)
  have drop: "dropWhile (\<lambda>d. d = CHR ''0'') (rev (p @ CHR ''.'' # f)) = rev (trim f) @ CHR ''.'' # rev p"
  proof (cases "\<forall>c \<in> set f. c = CHR ''0''")
    case True
    then have "dropWhile (\<lambda>d. d = CHR ''0'') (rev f) = []" by (simp add: dropWhile_eq_Nil_conv)
    then show ?thesis using True by (simp add: trim_def dropWhile_append)
  next
    case False
    then show ?thesis by (auto simp: trim_def dropWhile_append)
  qed
  have "find_last_not_of CHR ''0'' (p @ CHR ''.'' # f) = Some (length p + length (trim f))"
    unfolding find_last_not_of_def drop by simp
  moreover obtain j where j: "f = trim f @ replicate j CHR ''0''" using trim_zeros by blast
  have "take (length p + length (trim f) + 1) (p @ CHR ''.'' # f) = p @ CHR ''.'' # trim f"
    by (subst j) simp
  ultimately show ?thesis using first by (simp add: strip_zeros_def)
qed

text \<open>What the venue reads from the text: the double, rounded to eight places.\<close>

definition places8 :: "rat \<Rightarrow> nat" where
  "places8 x = nat (round_half_even (\<bar>x\<bar> * 10 ^ 8))"

lemma read_stripped:
  assumes w: "w \<noteq> []" "\<forall>c \<in> set w. is_digit c" and f: "\<forall>c \<in> set f. is_digit c"
  shows "read_decimal ((if neg then ''-'' else []) @ w @ (if trim f = [] then [] else CHR ''.'' # trim f)) =
         Some ((if neg then - 1 else 1) * (of_nat (dec_value (w @ f)) / 10 ^ length f))"
proof -
  obtain j where j: "f = trim f @ replicate j CHR ''0''" using trim_zeros by blast
  have tf: "\<forall>c \<in> set (trim f). is_digit c" using f j by (metis Un_iff set_append)
  have "dec_value (w @ f) = dec_value (w @ trim f) * 10 ^ j"
    using dec_value_zeros [of "w @ trim f" j] by (subst j) simp
  moreover have "length f = length (trim f) + j" by (subst j) simp
  ultimately have v: "of_nat (dec_value (w @ f)) / 10 ^ length f = (of_nat (dec_value (w @ trim f)) / 10 ^ length (trim f) :: rat)"
    by (simp add: power_add)
  have m: "read_mantissa (w @ (if trim f = [] then [] else CHR ''.'' # trim f)) = (w, trim f, [])"
    using read_mantissa_point [OF w(2) tf] read_mantissa_whole [OF w(2)] by simp
  show ?thesis
    unfolding read_decimal_def read_sign [OF w] v using w(1) by (simp add: m scale10_def)
qed

lemma wire_value:
  assumes "places8 x < 10 ^ 50"
  shows "read_decimal (float_to_wire (Fin x)) = Some ((if x < 0 then - 1 else 1) * (of_nat (places8 x) / 10 ^ 8))"
proof -
  define w where "w = show_nat (places8 x div 10 ^ 8)"
  define f where "f = show_fixed 8 (places8 x mod 10 ^ 8)"
  have w: "w \<noteq> []" "\<forall>c \<in> set w. is_digit c" "dec_value w = places8 x div 10 ^ 8"
    using show_nat_digits by (auto simp: w_def)
  have f: "\<forall>c \<in> set f. is_digit c" "length f = 8" "dec_value (w @ f) = dec_value w * 10 ^ 8 + places8 x mod 10 ^ 8"
    using show_fixed_digits [where k = 8 and n = "places8 x mod 10 ^ 8" and s = w] by (auto simp: f_def)
  have n: "dec_value (w @ f) = places8 x" unfolding f(3) w(3) by (simp add: div_mult_mod_eq)
  have "length w \<le> 42" using show_nat_length [of "places8 x div 10 ^ 8" 42] assms
    by (simp add: w_def less_mult_imp_div_less)
  have pr: "snprintf_8f 64 (Fin x) = ((if x < 0 then ''-'' else []) @ w) @ CHR ''.'' # f"
  proof -
    have "printf_8f (Fin x) = ((if x < 0 then ''-'' else []) @ w) @ CHR ''.'' # f"
      unfolding printf_8f.simps places8_def [symmetric] Let_def w_def [symmetric] f_def [symmetric] by simp
    moreover have "length (((if x < 0 then ''-'' else []) @ w) @ CHR ''.'' # f) \<le> 63"
      using f(2) \<open>length w \<le> 42\<close> by auto
    ultimately show ?thesis by (simp only: snprintf_8f_def) simp
  qed
  have "CHR ''.'' \<notin> set ((if x < 0 then ''-'' else []) @ w)"
    using w(2) digit_not_point by auto
  from strip_zeros_text [OF this, of f, folded pr]
  have st: "strip_zeros (snprintf_8f 64 (Fin x)) = (if x < 0 then ''-'' else []) @ w @ (if trim f = [] then [] else CHR ''.'' # trim f)"
    by simp
  note rd = read_stripped [OF w(1,2) f(1), of "x < 0", folded st, unfolded n f(2)]
  show ?thesis
  proof (cases "strip_zeros (snprintf_8f 64 (Fin x)) = ''-0''")
    case True
    have "read_decimal ''-0'' = Some 0" "read_decimal ''0'' = Some 0" by code_simp+
    then show ?thesis using rd True by (simp add: float_to_wire_def)
  next
    case False
    then show ?thesis using rd by (simp add: float_to_wire_def Let_def)
  qed
qed

lemma number_exact:
  assumes "\<bar>q\<bar> < 2 ^ 52"
  shows "read_decimal (float_to_wire (d_of_int q div e8)) = Some (of_int q / 10 ^ 8) \<and>
         stod (float_to_wire (d_of_int q div e8)) = Some (d_of_int q div e8)"
proof -
  let ?x = "of_int q / 10 ^ 8 :: rat"
  have "round_half_even (\<bar>round64 ?x\<bar> * 10 ^ 8) = \<bar>q\<bar>"
    using places8_e8 [of "\<bar>q\<bar>"] assms unfolding e8_abs [OF assms] by simp
  then have n: "places8 (round64 ?x) = nat \<bar>q\<bar>" by (simp add: places8_def)
  note sign = e8_sign [OF assms]
  have "places8 (round64 ?x) < 10 ^ 50" using assms unfolding n by auto
  from wire_value [OF this] have v: "read_decimal (float_to_wire (d_of_int q div e8)) = Some ?x"
    unfolding small_quotient [OF assms] n sign by simp
  show ?thesis using v stod_exact [OF assms v] by simp
qed

text \<open>
  C26: a fixed-point number reaches Hyperliquid as the decimal it is. For any count \<open>q\<close> of
  hundred-millionths below \<open>2 ^ 52\<close> in size, dividing by \<open>1e8\<close> in double precision, printing and stripping zeros
  yields a text whose decimal value is exactly \<open>q / 10 ^ 8\<close>, and reading that text back gives the double it was
  printed from.
\<close>

theorem hl_number_exact:
  assumes "\<bar>q\<bar> < 2 ^ 52"
  shows "read_decimal (float_to_wire (d_of_int q div e8)) = Some (of_int q / 10 ^ 8) \<and>
         stod (float_to_wire (d_of_int q div e8)) = Some (d_of_int q div e8)"
  using assms by (rule number_exact)

theorem hl_number_exact_witness:
  "read_decimal (float_to_wire (d_of_int 29000000 div e8)) = Some (29 / 100)"
  using hl_number_exact [of 29000000] by simp

text \<open>
  A price is a decimal with at most the allowed places: the rounding to \<open>d\<close> places survives the printing.
\<close>

lemma hl_price_places:
  assumes price: "\<not> price \<le> Fin 0" and d: "price_decimals mt price meta = Some d" "0 \<le> d" "d \<le> 8"
    and pow: "std_pow10 mt d = Fin (10 ^ nat d)"
    and k: "std_round (price * Fin (10 ^ nat d)) = Fin (of_int k)" "\<bar>k * 10 ^ nat (8 - d)\<bar> < 2 ^ 52"
  shows "\<exists>px. round_price_for_asset mt price meta = Some px \<and> read_decimal (float_to_wire px) = Some (of_int k / 10 ^ nat d)"
    and "d \<le> am_max_px_decimals meta"
proof -
  let ?q = "k * 10 ^ nat (8 - d)"
  have e: "(10::rat) ^ 8 = 10 ^ nat d * 10 ^ nat (8 - d)" using d by (simp flip: power_add nat_add_distrib)
  have q: "of_int ?q / 10 ^ 8 = (of_int k / 10 ^ nat d :: rat)" by (subst e) simp
  have "\<bar>of_int ?q :: rat\<bar> < of_int (2 ^ 52)" using k(2) by (simp only: of_int_less_iff of_int_abs [symmetric])
  then have "\<bar>of_int ?q / 10 ^ 8 :: rat\<bar> \<le> of_int (2 ^ 53)" by (simp add: abs_divide)
  then have "Fin (of_int k) div Fin (10 ^ nat d) = d_of_int ?q div e8"
    unfolding small_quotient [OF k(2)] by (simp only: q) (simp add: d_div_Fin to_double_small)
  moreover have "round_price_for_asset mt price meta = Some (Fin (of_int k) div Fin (10 ^ nat d))"
    using price d(1) pow k(1) by (simp add: round_price_for_asset_def)
  ultimately show "\<exists>px. round_price_for_asset mt price meta = Some px \<and> read_decimal (float_to_wire px) = Some (of_int k / 10 ^ nat d)"
    using number_exact [OF k(2)] unfolding q by metis
  show "d \<le> am_max_px_decimals meta" using d(1) by (auto simp: price_decimals_def split: Option.bind_splits)
qed

end
