(* ===== verification/Hyperliquid_Exec.thy ===== *)
theory Hyperliquid_Exec
  imports Hyperliquid_Encoder "HOL-Library.Sublist"
begin

text \<open>
  What Hyperliquid reports, as execution events: the decoder of the fill stream
  (\<open>hyperliquid_exec_decoder.cpp\<close>) and the emitter for the responses to orders and cancels
  (\<open>hyperliquid_exec_emitter.cpp\<close>). The theorems: the fills of an order add up and end with one
  \<open>FILLED\<close>; the two places where the code falls short of that.
\<close>

subsection \<open>Fills\<close>

record pending_order =
  po_client_order_id :: u64
  po_original_qty_e8 :: u64
  po_cumulative_filled_e8 :: u64

type_synonym exec_decoder = "(u64, pending_order) umap"

definition register_order :: "u64 \<Rightarrow> u64 \<Rightarrow> u64 \<Rightarrow> exec_decoder \<Rightarrow> exec_decoder" where
  "register_order exch_oid client_order_id original_qty_e8 dec =
     (if exch_oid = 0 then dec
      else AList.update exch_oid
        \<lparr> po_client_order_id = client_order_id, po_original_qty_e8 = original_qty_e8, po_cumulative_filled_e8 = 0 \<rparr> dec)"

definition read_slice :: "json_object \<Rightarrow> (order_side \<times> i64 \<times> u64) option" where
  "read_slice fill = do {
     side_str \<leftarrow> Option.bind (get_at fill ''side'') as_string;
     px \<leftarrow> scaled_i64 fill ''px'';
     sz \<leftarrow> scaled_u64 fill ''sz'';
     Some (if side_str = ''B'' then BUY else SELL, px, sz)
   }"

definition read_fee_time :: "u64 \<Rightarrow> json_object \<Rightarrow> (i64 \<times> u64) option" where
  "read_fee_time recv_ns fill = do {
     fee \<leftarrow> scaled_i64 fill ''fee'';
     ts \<leftarrow> (case get_at fill ''time'' of
             Some v \<Rightarrow> map_option (\<lambda>t. t * 1000000) (as_int64 v)
           | None \<Rightarrow> Some recv_ns);
     Some (fee, ts)
   }"

datatype fill_outcome = Fill_Skipped | Fill_Event exec_event | Fill_Throws

definition slice_event :: "u64 \<Rightarrow> pending_order \<Rightarrow> order_side \<times> i64 \<times> u64 \<Rightarrow> i64 \<times> u64 \<Rightarrow> u64 \<Rightarrow> exec_event" where
  "slice_event oid po part fee_time recv_ns =
     (let (side, px, sz) = part; (fee, ts) = fee_time;
          fully_filled = po_original_qty_e8 po \<le> po_cumulative_filled_e8 po
      in blank_exec_event
           \<lparr> ev_exchange_id := EX_HYPERLIQUID, ev_local_ts_ns := recv_ns, ev_exchange_order_id := oid,
             ev_order_id := po_client_order_id po, ev_instrument_id := 0, ev_side := side, ev_order_type := OT_LIMIT,
             ev_price := px, ev_filled_qty := sz,
             ev_remaining_qty := (if fully_filled then 0 else po_original_qty_e8 po - po_cumulative_filled_e8 po),
             ev_fee := fee, ev_fee_currency := ''USDT'', ev_reject_reason := RR_OK,
             ev_status := (if fully_filled then ES_FILLED else ES_PARTIAL), ev_exchange_ts_ns := ts \<rparr>)"

text \<open>One fill. The quantity is counted before the fee is read, so a fee that does not parse loses the event only.\<close>

definition handle_fill :: "u64 \<Rightarrow> json \<Rightarrow> exec_decoder \<Rightarrow> fill_outcome \<times> exec_decoder" where
  "handle_fill recv_ns v dec =
     (case do { fill \<leftarrow> as_object v; n \<leftarrow> get_at fill ''oid''; oid \<leftarrow> as_int64 n; Some (fill, oid) } of
        None \<Rightarrow> (Fill_Throws, dec)
      | Some (fill, oid) \<Rightarrow>
          (case map_of dec oid of
             None \<Rightarrow> (Fill_Skipped, dec)
           | Some po \<Rightarrow>
               (case read_slice fill of
                  None \<Rightarrow> (Fill_Throws, dec)
                | Some part \<Rightarrow>
                    let po = po\<lparr>po_cumulative_filled_e8 := po_cumulative_filled_e8 po + snd (snd part)\<rparr>;
                        dec = AList.update oid po dec
                    in (case read_fee_time recv_ns fill of
                          None \<Rightarrow> (Fill_Throws, dec)
                        | Some fee_time \<Rightarrow>
                            (Fill_Event (slice_event oid po part fee_time recv_ns),
                             if po_original_qty_e8 po \<le> po_cumulative_filled_e8 po then AList.delete oid dec else dec)))))"

text \<open>A fill that throws ends the frame, the fills behind it are lost; the flag says so.\<close>

fun handle_fills :: "u64 \<Rightarrow> json list \<Rightarrow> exec_decoder \<Rightarrow> exec_event list \<times> bool \<times> exec_decoder" where
  "handle_fills recv_ns [] dec = ([], False, dec)"
| "handle_fills recv_ns (v # vs) dec =
     (case handle_fill recv_ns v dec of
        (Fill_Throws, dec) \<Rightarrow> ([], True, dec)
      | (Fill_Skipped, dec) \<Rightarrow> handle_fills recv_ns vs dec
      | (Fill_Event e, dec) \<Rightarrow> (let (es, threw, dec) = handle_fills recv_ns vs dec in (e # es, threw, dec)))"

subsection \<open>Responses\<close>

record order_context =
  oc_client_order_id :: u64
  oc_instrument_id :: u64
  oc_side :: order_side
  oc_order_type :: order_type
  oc_price_e8 :: i64
  oc_quantity_e8 :: u64

definition make_skeleton :: "order_context \<Rightarrow> u64 \<Rightarrow> exec_event" where
  "make_skeleton ctx now_ns =
     blank_exec_event
       \<lparr> ev_order_id := oc_client_order_id ctx, ev_exchange_id := EX_HYPERLIQUID, ev_instrument_id := oc_instrument_id ctx,
         ev_side := oc_side ctx, ev_order_type := oc_order_type ctx, ev_price := oc_price_e8 ctx, ev_fee := 0,
         ev_fee_currency := ''USDT'', ev_exchange_ts_ns := now_ns, ev_local_ts_ns := now_ns \<rparr>"

text \<open>What a call does: its result, the identifier given to \<open>on_acked\<close>, the events offered to the queue.\<close>

record emission =
  em_result :: bool
  em_acked :: "u64 option"
  em_events :: "exec_event list"

definition nothing :: emission where
  "nothing = \<lparr> em_result = False, em_acked = None, em_events = [] \<rparr>"

definition emit_rejected :: "order_context \<Rightarrow> u64 \<Rightarrow> exec_event" where
  "emit_rejected ctx now_ns =
     (make_skeleton ctx now_ns)\<lparr> ev_status := ES_REJECTED, ev_reject_reason := RR_EXCHANGE_ERROR, ev_remaining_qty := oc_quantity_e8 ctx \<rparr>"

definition emit_recovered_ack :: "order_context \<Rightarrow> u64 \<Rightarrow> u64 \<Rightarrow> exec_event" where
  "emit_recovered_ack ctx exch_oid now_ns =
     (make_skeleton ctx now_ns)\<lparr> ev_status := ES_ACKED, ev_reject_reason := RR_NULL, ev_exchange_order_id := exch_oid,
       ev_filled_qty := 0, ev_remaining_qty := oc_quantity_e8 ctx \<rparr>"

definition emit_recovered_fill :: "order_context \<Rightarrow> u64 \<Rightarrow> i64 \<Rightarrow> i64 \<Rightarrow> u64 \<Rightarrow> u64 \<Rightarrow> u64 \<Rightarrow> exec_event" where
  "emit_recovered_fill ctx exch_oid fill_price_e8 fill_fee_e8 fill_qty_e8 fill_time_ns now_ns =
     (let full = oc_quantity_e8 ctx \<le> fill_qty_e8
      in (make_skeleton ctx now_ns)\<lparr> ev_price := fill_price_e8, ev_exchange_order_id := exch_oid, ev_filled_qty := fill_qty_e8,
           ev_status := (if full then ES_FILLED else ES_PARTIAL),
           ev_remaining_qty := (if full then 0 else oc_quantity_e8 ctx - fill_qty_e8), ev_fee := fill_fee_e8,
           ev_exchange_ts_ns := (if fill_time_ns \<noteq> 0 then fill_time_ns else now_ns), ev_reject_reason := RR_OK \<rparr>)"

definition rejected :: "order_context \<Rightarrow> u64 \<Rightarrow> emission" where
  "rejected ctx now_ns = \<lparr> em_result = True, em_acked = None, em_events = [emit_rejected ctx now_ns] \<rparr>"

definition status_oid :: "json_object \<Rightarrow> string \<Rightarrow> u64 option" where
  "status_oid s0 key = do {
     ob \<leftarrow> Option.bind (get_at s0 key) as_object;
     if contains ob ''oid'' then Option.bind (get_at ob ''oid'') to_uint64 else Some 0
   }"

definition acked_oid :: "u64 \<Rightarrow> u64 option" where
  "acked_oid exch_oid = (if exch_oid \<noteq> 0 then Some exch_oid else None)"

definition first_status :: "order_context \<Rightarrow> u64 \<Rightarrow> json_object \<Rightarrow> emission option" where
  "first_status ctx now_ns s0 =
     (if contains s0 ''resting'' then do {
        exch_oid \<leftarrow> status_oid s0 ''resting'';
        Some \<lparr> em_result = True, em_acked = acked_oid exch_oid, em_events = [emit_recovered_ack ctx exch_oid now_ns] \<rparr>
      }
      else if contains s0 ''filled'' then do {
        exch_oid \<leftarrow> status_oid s0 ''filled'';
        Some \<lparr> em_result = True, em_acked = acked_oid exch_oid, em_events = [] \<rparr>
      }
      else if contains s0 ''error'' then do {
        _ \<leftarrow> Option.bind (get_at s0 ''error'') as_string;
        Some (rejected ctx now_ns)
      }
      else Some nothing)"

definition response_status :: "json_object \<Rightarrow> string option" where
  "response_status rj = (if contains rj ''status'' then Option.bind (get_at rj ''status'') as_string else Some [])"

text \<open>The body of the \<open>try\<close>; \<open>None\<close> is an exception.\<close>

definition order_response :: "order_context \<Rightarrow> u64 \<Rightarrow> json \<Rightarrow> emission option" where
  "order_response ctx now_ns v = do {
     rj \<leftarrow> as_object v;
     status \<leftarrow> response_status rj;
     if status \<noteq> ''ok'' then Some (rejected ctx now_ns)
     else if \<not> contains rj ''response'' then Some nothing
     else do {
       response \<leftarrow> Option.bind (get_at rj ''response'') as_object;
       if \<not> contains response ''data'' then Some nothing
       else do {
         data \<leftarrow> Option.bind (get_at response ''data'') as_object;
         case get_at data ''statuses'' of
           Some (J_Array (s0v # _)) \<Rightarrow> Option.bind (as_object s0v) (first_status ctx now_ns)
         | _ \<Rightarrow> Some nothing
       }
     }
   }"

text \<open>\<open>parsed\<close> is \<open>None\<close> when the text is not JSON.\<close>

definition emit_order_response :: "json option \<Rightarrow> order_context \<Rightarrow> u64 \<Rightarrow> emission" where
  "emit_order_response parsed ctx now_ns =
     (case Option.bind parsed (order_response ctx now_ns) of Some e \<Rightarrow> e | None \<Rightarrow> rejected ctx now_ns)"

text \<open>The error text of the first status of a cancel response.\<close>

definition cancel_error :: "json_object \<Rightarrow> string option" where
  "cancel_error rj =
     (case get_at rj ''response'' of
        Some (J_Object response) \<Rightarrow>
          (case get_at response ''data'' of
             Some (J_Object data) \<Rightarrow>
               (case get_at data ''statuses'' of
                  Some (J_Array (J_Object s0 # _)) \<Rightarrow> Option.bind (get_at s0 ''error'') as_string
                | _ \<Rightarrow> None)
           | _ \<Rightarrow> None)
      | _ \<Rightarrow> None)"

definition cancelled_event :: "u64 \<Rightarrow> u64 \<Rightarrow> exec_event" where
  "cancelled_event client_order_id now_ns =
     blank_exec_event\<lparr> ev_order_id := client_order_id, ev_exchange_id := EX_HYPERLIQUID, ev_status := ES_CANCELLED,
       ev_reject_reason := RR_NULL, ev_fee_currency := ''USDT'', ev_exchange_ts_ns := now_ns, ev_local_ts_ns := now_ns \<rparr>"

definition emit_cancel_response :: "json option \<Rightarrow> u64 \<Rightarrow> u64 \<Rightarrow> bool \<times> exec_event list" where
  "emit_cancel_response parsed client_order_id now_ns =
     (case do { v \<leftarrow> parsed; rj \<leftarrow> as_object v; status \<leftarrow> response_status rj; Some (rj, status) } of
        None \<Rightarrow> (False, [])
      | Some (rj, status) \<Rightarrow>
          if status \<noteq> ''ok'' then (False, [])
          else if (case cancel_error rj of Some err \<Rightarrow> sublist ''filled'' err | None \<Rightarrow> False) then (True, [])
          else (True, [cancelled_event client_order_id now_ns]))"

subsection \<open>The fills of an order add up\<close>

text \<open>The frames of a stream one after the other.\<close>

fun decode_frames :: "(u64 \<times> json list) list \<Rightarrow> exec_decoder \<Rightarrow> exec_event list \<times> bool \<times> exec_decoder" where
  "decode_frames [] dec = ([], False, dec)"
| "decode_frames ((recv_ns, vs) # fs) dec =
     (let (es, threw, dec) = handle_fills recv_ns vs dec; (es', threw', dec) = decode_frames fs dec
      in (es @ es', threw \<or> threw', dec))"

text \<open>What the events of one order must be, from one state of its entry to another.\<close>

fun tracks :: "pending_order option \<Rightarrow> exec_event list \<Rightarrow> pending_order option \<Rightarrow> bool" where
  "tracks s [] r \<longleftrightarrow> s = r"
| "tracks None (e # es) r \<longleftrightarrow> False"
| "tracks (Some po) (e # es) r \<longleftrightarrow>
     (let got = po_cumulative_filled_e8 po + ev_filled_qty e
      in ev_order_id e = po_client_order_id po \<and>
         (if po_original_qty_e8 po \<le> got then ev_status e = ES_FILLED \<and> ev_remaining_qty e = 0 \<and> tracks None es r
          else ev_status e = ES_PARTIAL \<and> ev_remaining_qty e = po_original_qty_e8 po - got \<and>
               tracks (Some (po\<lparr>po_cumulative_filled_e8 := got\<rparr>)) es r))"

lemma tracks_append: "tracks s es t \<Longrightarrow> tracks t fs r \<Longrightarrow> tracks s (es @ fs) r"
  by (induction s es t rule: tracks.induct) (auto simp: Let_def split: if_splits)

definition of_oid :: "u64 \<Rightarrow> exec_event list \<Rightarrow> exec_event list" where
  "of_oid oid = filter (\<lambda>e. ev_exchange_order_id e = oid)"

lemma of_oid_simps [simp]: "of_oid oid [] = []" "of_oid oid (es @ fs) = of_oid oid es @ of_oid oid fs"
  "of_oid oid (e # es) = (if ev_exchange_order_id e = oid then e # of_oid oid es else of_oid oid es)"
  by (simp_all add: of_oid_def)

lemma slice_event_simps [simp]:
  "ev_exchange_order_id (slice_event o1 po part ft recv) = o1" "ev_order_id (slice_event o1 po part ft recv) = po_client_order_id po"
  "ev_filled_qty (slice_event o1 po part ft recv) = snd (snd part)"
  "ev_status (slice_event o1 po part ft recv) = (if po_original_qty_e8 po \<le> po_cumulative_filled_e8 po then ES_FILLED else ES_PARTIAL)"
  "ev_remaining_qty (slice_event o1 po part ft recv) =
     (if po_original_qty_e8 po \<le> po_cumulative_filled_e8 po then 0 else po_original_qty_e8 po - po_cumulative_filled_e8 po)"
  by (simp_all add: slice_event_def Let_def split_beta)

lemma handle_fill_event:
  assumes "handle_fill recv v dec = (Fill_Event e, dec')"
  shows "tracks (map_of dec oid) (of_oid oid [e]) (map_of dec' oid)"
  using assms by (auto simp: handle_fill_def Let_def split: option.splits if_splits)

lemma handle_fill_skipped: "handle_fill recv v dec = (Fill_Skipped, dec') \<Longrightarrow> dec' = dec"
  by (auto simp: handle_fill_def Let_def split: option.splits)

lemma handle_fills_tracks:
  "handle_fills recv vs dec = (es, False, dec') \<Longrightarrow> tracks (map_of dec oid) (of_oid oid es) (map_of dec' oid)"
proof (induction vs arbitrary: dec es)
  case (Cons v vs)
  obtain f d where f: "handle_fill recv v dec = (f, d)" by fastforce
  show ?case
  proof (cases f)
    case (Fill_Event e)
    obtain es1 t d1 where r: "handle_fills recv vs d = (es1, t, d1)" by (cases "handle_fills recv vs d")
    then have "es = e # es1" "\<not> t" "d1 = dec'" using Cons.prems f Fill_Event by auto
    then show ?thesis
      using tracks_append [OF handle_fill_event [where oid = oid] Cons.IH] f Fill_Event r by fastforce
  next
    case Fill_Skipped
    then show ?thesis using Cons f handle_fill_skipped [of recv v dec d] by simp
  next
    case Fill_Throws
    then show ?thesis using Cons.prems f by simp
  qed
qed simp

lemma decode_frames_tracks:
  "decode_frames fs dec = (es, False, dec') \<Longrightarrow> tracks (map_of dec oid) (of_oid oid es) (map_of dec' oid)"
proof (induction fs arbitrary: dec es)
  case (Cons f fs)
  obtain recv vs where f: "f = (recv, vs)" by (cases f)
  obtain es1 t1 d1 where h: "handle_fills recv vs dec = (es1, t1, d1)" by (cases "handle_fills recv vs dec")
  obtain es2 t2 d2 where r: "decode_frames fs d1 = (es2, t2, d2)" by (cases "decode_frames fs d1")
  have "es = es1 @ es2" "\<not> t1" "\<not> t2" "d2 = dec'" using Cons.prems f h r by auto
  then show ?case using tracks_append [OF handle_fills_tracks [where oid = oid] Cons.IH] h r by fastforce
qed simp

text \<open>The quantity the first \<open>i + 1\<close> events report.\<close>

definition got :: "exec_event list \<Rightarrow> nat \<Rightarrow> nat" where
  "got es i = (\<Sum>e\<leftarrow>take (Suc i) es. unat (ev_filled_qty e))"

lemma tracks_account:
  assumes "tracks (Some po) es r" "i < length es" "\<forall>e \<in> set es. unat (po_original_qty_e8 po) + unat (ev_filled_qty e) < 2 ^ 64"
    and "po_cumulative_filled_e8 po \<le> po_original_qty_e8 po"
  shows "ev_order_id (es ! i) = po_client_order_id po \<and>
    (if unat (po_cumulative_filled_e8 po) + got es i < unat (po_original_qty_e8 po)
     then ev_status (es ! i) = ES_PARTIAL \<and>
       unat (ev_remaining_qty (es ! i)) + unat (po_cumulative_filled_e8 po) + got es i = unat (po_original_qty_e8 po)
     else ev_status (es ! i) = ES_FILLED \<and> ev_remaining_qty (es ! i) = 0 \<and> Suc i = length es)"
  using assms
proof (induction es arbitrary: po i)
  case (Cons e es)
  let ?c = "po_cumulative_filled_e8 po" and ?o = "po_original_qty_e8 po"
  have le: "unat ?c \<le> unat ?o" using Cons.prems(4) by (simp add: word_le_nat_alt)
  then have add: "unat (?c + ev_filled_qty e) = unat ?c + unat (ev_filled_qty e)"
    using Cons.prems(3) by (intro unat_add_lem [THEN iffD1]) simp
  show ?case
  proof (cases "?o \<le> ?c + ev_filled_qty e")
    case True
    then have "tracks None es r" using Cons.prems(1) by (simp add: Let_def)
    then have "es = []" by (cases es) auto
    then show ?thesis using Cons.prems True add by (auto simp: got_def word_le_nat_alt Let_def)
  next
    case False
    let ?po = "po\<lparr>po_cumulative_filled_e8 := ?c + ev_filled_qty e\<rparr>"
    have t: "tracks (Some ?po) es r" using Cons.prems(1) False by (simp add: Let_def)
    show ?thesis
    proof (cases i)
      case 0
      have "unat (?o - (?c + ev_filled_qty e)) = unat ?o - unat (?c + ev_filled_qty e)"
        using False by (intro unat_sub) simp
      then show ?thesis using Cons.prems(1) False 0 add by (auto simp: got_def Let_def word_le_nat_alt)
    next
      case (Suc j)
      have "?c + ev_filled_qty e \<le> ?o" using False by simp
      note IH = Cons.IH [OF t, of j, simplified, OF _ _ this]
      have g: "got (e # es) (Suc j) = unat (ev_filled_qty e) + got es j" by (simp add: got_def)
      have "j < length es" using Suc Cons.prems(2) by simp
      then show ?thesis unfolding Suc nth_Cons_Suc g using IH Cons.prems(3) add by (auto simp: add.assoc split: if_splits)
    qed
  qed
qed simp

text \<open>
  C25: the fills of an order add up. For any frames after an order was registered in which no fill
  throws, as long as no reported quantity overflows: the events of the order all carry its client id; while they sum to less
  than the quantity ordered they are \<open>PARTIAL\<close> and the remaining quantity is what is missing; the first that reaches
  it is \<open>FILLED\<close> with nothing remaining, and is the last.
\<close>

theorem hl_fills_add_up:
  assumes "oid \<noteq> 0" "decode_frames fs (register_order oid client orig dec) = (es, False, dec')" "evs = of_oid oid es"
    and "i < length evs" "list_all (\<lambda>e. unat orig + unat (ev_filled_qty e) < 2 ^ 64) evs"
  shows "ev_order_id (evs ! i) = client \<and>
    (if got evs i < unat orig
     then ev_status (evs ! i) = ES_PARTIAL \<and> unat (ev_remaining_qty (evs ! i)) = unat orig - got evs i
     else ev_status (evs ! i) = ES_FILLED \<and> ev_remaining_qty (evs ! i) = 0 \<and> i = length evs - 1)"
proof -
  let ?po = "\<lparr> po_client_order_id = client, po_original_qty_e8 = orig, po_cumulative_filled_e8 = 0 \<rparr>"
  have "map_of (register_order oid client orig dec) oid = Some ?po" using assms(1) by (simp add: register_order_def)
  then have "tracks (Some ?po) evs (map_of dec' oid)"
    using decode_frames_tracks [OF assms(2), of oid] assms(3) by simp
  from tracks_account [OF this assms(4)] show ?thesis using assms(5) by (auto simp: list_all_iff)
qed

definition text8 :: "int \<Rightarrow> string" where
  "text8 q = float_to_wire (d_of_int q div e8)"

text \<open>The JSON of a fill, as Hyperliquid sends it.\<close>

definition fill_json :: "u64 \<Rightarrow> string \<Rightarrow> json" where
  "fill_json oid sz = J_Object [(''coin'', J_String ''BTC''), (''oid'', J_Int oid), (''side'', J_String ''B''),
     (''px'', J_String (text8 100000000)), (''sz'', J_String sz), (''fee'', J_String (text8 0))]"

lemma stod_text8: "\<bar>q\<bar> < 2 ^ 52 \<Longrightarrow> stod (text8 q) = Some (d_of_int q div e8)"
  by (simp add: text8_def number_exact)

text \<open>What the decoder makes of one such fill of a registered order.\<close>

lemma handle_fill_json:
  assumes "\<bar>q\<bar> < 2 ^ 52" "d_to_int 0 (2 ^ 64) (d_of_int q div e8 * e8) = Some n" "map_of dec oid = Some po"
    and "po' = po\<lparr>po_cumulative_filled_e8 := po_cumulative_filled_e8 po + word_of_int n\<rparr>"
  shows "handle_fill recv (fill_json oid (text8 q)) dec =
    (Fill_Event (slice_event oid po' (BUY, 100000000, word_of_int n) (0, recv) recv),
     if po_original_qty_e8 po' \<le> po_cumulative_filled_e8 po' then AList.delete oid (AList.update oid po' dec)
     else AList.update oid po' dec)"
proof -
  let ?ob = "[(''coin'', J_String ''BTC''), (''oid'', J_Int oid), (''side'', J_String ''B''),
     (''px'', J_String (text8 100000000)), (''sz'', J_String (text8 q)), (''fee'', J_String (text8 0))]"
  have "scaled_i64 ?ob ''px'' = Some 100000000" "scaled_i64 ?ob ''fee'' = Some 0" "scaled_u64 ?ob ''sz'' = Some (word_of_int n)"
    using scaled_fields(2) [of ?ob "''px''" "text8 100000000" _ 100000000] scaled_fields(2) [of ?ob "''fee''" "text8 0" _ 0]
      scaled_fields(1) [of ?ob "''sz''" "text8 q" _ n] assms(1,2) scaled_texts by (simp_all add: stod_text8)
  then have "read_slice ?ob = Some (BUY, 100000000, word_of_int n)" "read_fee_time recv ?ob = Some (0, recv)"
    by (simp_all add: read_slice_def read_fee_time_def)
  then show ?thesis using assms(3,4) by (simp add: handle_fill_def fill_json_def Let_def)
qed

theorem hl_fills_add_up_witness:
  "case decode_frames [(7, [fill_json 5 (text8 200000000)])] (register_order 5 77 200000000 []) of
     (es, threw, dec) \<Rightarrow> map ev_status es = [ES_FILLED] \<and> got es 0 = 200000000"
proof -
  let ?dec = "register_order 5 77 200000000 []"
  let ?run = "decode_frames [(7, [fill_json 5 (text8 200000000)])] ?dec"
  define e where "e = fst ?run ! 0"
  have reg: "map_of ?dec 5 = Some \<lparr> po_client_order_id = 77, po_original_qty_e8 = 200000000, po_cumulative_filled_e8 = 0 \<rparr>"
    by (simp add: register_order_def)
  note h = handle_fill_json [OF _ scaled_texts(2) reg refl, where recv = 7]
  obtain d where run: "?run = ([e], False, d)" "ev_filled_qty e = 200000000" "ev_exchange_order_id e = 5"
    using h by (simp add: e_def Let_def)
  have "of_oid 5 [e] = [e]" using run by simp
  then show ?thesis using hl_fills_add_up [of 5 "[(7, [fill_json 5 (text8 200000000)])]" 77 200000000 "[]" "[e]" d "[e]" 0] run
    by (simp add: got_def)
qed

text \<open>
  A complete fill can leave an order open for ever. An order for 0.29 goes out as that
  decimal exactly. When the venue reports all of it as one fill with that very size, the decoder scales the double by \<open>1e8\<close>
  and cuts it off, gets 28999999, reports \<open>PARTIAL\<close> with 1 remaining and keeps the order; no further fill will come.
\<close>

theorem hl_full_fill_stays_partial:
  "read_decimal (text8 29000000) = Some (29 / 100) \<and>
   (case decode_frames [(recv, [fill_json 5 (text8 29000000)])] (register_order 5 77 29000000 []) of
      (es, threw, dec) \<Rightarrow> map ev_status es = [ES_PARTIAL] \<and> map ev_filled_qty es = [28999999] \<and>
        map ev_remaining_qty es = [1] \<and> \<not> threw \<and> map_of dec 5 \<noteq> None)"
proof -
  let ?dec = "register_order 5 77 29000000 []"
  have reg: "map_of ?dec 5 = Some \<lparr> po_client_order_id = 77, po_original_qty_e8 = 29000000, po_cumulative_filled_e8 = 0 \<rparr>"
    by (simp add: register_order_def)
  note h = handle_fill_json [OF _ scaled_texts(1) reg refl, where recv = recv]
  have "read_decimal (text8 29000000) = Some (29 / 100)"
    using number_exact [of 29000000] by (simp add: text8_def)
  then show ?thesis using h by (simp add: Let_def)
qed

end
