(* ===== verification/Hyperliquid_Adapter.thy ===== *)
theory Hyperliquid_Adapter
  imports Hyperliquid_Exec
begin

text \<open>
  The Hyperliquid adapter (\<open>hyperliquid_order_adapter.cpp\<close>) with its reconciler
  (\<open>hyperliquid_reconciler.cpp\<close>), which finds out what became of an order whose request failed. The signer
  and the connections are parameters: a request either throws or returns a text, given here as what the JSON
  parser makes of it. The theorems: which orders are answered, what the reconciler may conclude, and where a
  filled or resting order is reported as rejected or cancelled.
\<close>

subsection \<open>Reconciler\<close>

record candidate =
  cd_client_order_id :: u64
  cd_instrument_id :: u64
  cd_side :: order_side
  cd_order_type :: order_type
  cd_price_e8 :: i64
  cd_quantity_e8 :: u64
  cd_exchange_symbol :: string
  cd_sent_ns :: u64

datatype match_kind = MK_None | MK_OpenOrder | MK_UserFill | MK_Ambiguous

record match_result =
  mr_kind :: match_kind
  mr_exch_oid :: u64
  mr_fill_price_e8 :: i64
  mr_fill_fee_e8 :: i64
  mr_fill_qty_e8 :: u64
  mr_fill_time_ns :: u64

definition no_fill :: "match_kind \<Rightarrow> u64 \<Rightarrow> match_result" where
  "no_fill kind oid =
     \<lparr> mr_kind = kind, mr_exch_oid = oid, mr_fill_price_e8 = 0, mr_fill_fee_e8 = 0, mr_fill_qty_e8 = 0, mr_fill_time_ns = 0 \<rparr>"

definition side_matches :: "json_object \<Rightarrow> order_side \<Rightarrow> bool" where
  "side_matches ob expected =
     (case get_at ob ''side'' of
        Some (J_String s) \<Rightarrow> s = ''B'' \<and> expected = BUY \<or> s \<noteq> ''B'' \<and> expected = SELL
      | _ \<Rightarrow> False)"

definition coin_of :: "json_object \<Rightarrow> string" where
  "coin_of ob = (case get_at ob ''coin'' of Some (J_String s) \<Rightarrow> s | _ \<Rightarrow> [])"

definition parse_decimal_string :: "json_object \<Rightarrow> string \<Rightarrow> double" where
  "parse_decimal_string ob key =
     (case get_at ob key of
        Some (J_String s) \<Rightarrow> (case stod s of Some d \<Rightarrow> d | None \<Rightarrow> Fin 0)
      | _ \<Rightarrow> Fin 0)"

text \<open>\<open>None\<close>: the conversion of a value out of range is undefined.\<close>

definition to_e8 :: "double \<Rightarrow> i64 option" where
  "to_e8 v = map_option word_of_int (d_to_int (- (2 ^ 63)) (2 ^ 63) (std_round (v * e8)))"

definition llabs :: "i64 \<Rightarrow> i64" where
  "llabs n = (if sint n < 0 then - n else n)"

definition open_order_matches :: "candidate \<Rightarrow> i64 \<Rightarrow> json_object \<Rightarrow> bool option" where
  "open_order_matches c price_tick_e8 ob =
     (if coin_of ob \<noteq> cd_exchange_symbol c then Some False
      else if \<not> side_matches ob (cd_side c) then Some False
      else do {
        sz_e8 \<leftarrow> to_e8 (parse_decimal_string ob ''sz'');
        if sz_e8 \<noteq> cd_quantity_e8 c then Some False
        else do {
          px_e8 \<leftarrow> to_e8 (parse_decimal_string ob ''limitPx'');
          Some (llabs (px_e8 - cd_price_e8 c) \<le>s price_tick_e8)
        }
      })"

definition user_fill_matches :: "candidate \<Rightarrow> i64 \<Rightarrow> json_object \<Rightarrow> bool option" where
  "user_fill_matches c price_tick_e8 ob =
     (if coin_of ob \<noteq> cd_exchange_symbol c then Some False
      else if \<not> side_matches ob (cd_side c) then Some False
      else (case get_at ob ''time'' of
              Some (J_Int t) \<Rightarrow>
                if t * 1000000 + 1000000000 < cd_sent_ns c then Some False
                else do {
                  px_e8 \<leftarrow> to_e8 (parse_decimal_string ob ''px'');
                  if price_tick_e8 <s llabs (px_e8 - cd_price_e8 c) then Some False
                  else do {
                    sz_e8 \<leftarrow> to_e8 (parse_decimal_string ob ''sz'');
                    Some (0 <s sz_e8 \<and> sz_e8 \<le>s cd_quantity_e8 c)
                  }
                }
            | _ \<Rightarrow> Some False))"

definition get_oid :: "json_object \<Rightarrow> u64" where
  "get_oid ob = (case get_at ob ''oid'' of Some (J_Int n) \<Rightarrow> n | Some (J_Uint n) \<Rightarrow> n | _ \<Rightarrow> 0)"

text \<open>The objects of an array that match, in order; what is not an object is passed over.\<close>

fun matching :: "(json_object \<Rightarrow> bool option) \<Rightarrow> json list \<Rightarrow> json_object list option" where
  "matching f [] = Some []"
| "matching f (J_Object ob # vs) = do { m \<leftarrow> f ob; r \<leftarrow> matching f vs; Some (if m then ob # r else r) }"
| "matching f (_ # vs) = matching f vs"

definition fill_result :: "json_object \<Rightarrow> match_result option" where
  "fill_result ob = do {
     px \<leftarrow> to_e8 (parse_decimal_string ob ''px'');
     fee \<leftarrow> to_e8 (parse_decimal_string ob ''fee'');
     sz \<leftarrow> to_e8 (parse_decimal_string ob ''sz'');
     Some \<lparr> mr_kind = MK_UserFill, mr_exch_oid = get_oid ob, mr_fill_price_e8 = px, mr_fill_fee_e8 = fee, mr_fill_qty_e8 = sz,
            mr_fill_time_ns = (case get_at ob ''time'' of Some (J_Int t) \<Rightarrow> t * 1000000 | _ \<Rightarrow> 0) \<rparr>
   }"

definition try_match :: "candidate \<Rightarrow> json list \<Rightarrow> json list \<Rightarrow> i64 \<Rightarrow> match_result option" where
  "try_match c open_orders user_fills price_tick_e8 = do {
     fill_ms \<leftarrow> matching (user_fill_matches c price_tick_e8) user_fills;
     order_ms \<leftarrow> matching (open_order_matches c price_tick_e8) open_orders;
     if 1 < length fill_ms \<or> 1 < length order_ms then Some (no_fill MK_Ambiguous 0)
     else (case fill_ms of
             ob # _ \<Rightarrow> fill_result ob
           | [] \<Rightarrow> (case order_ms of
                     ob # _ \<Rightarrow> Some (no_fill MK_OpenOrder (get_oid ob))
                   | [] \<Rightarrow> Some (no_fill MK_None 0)))
   }"

subsection \<open>Adapter\<close>

text \<open>
  \<open>hl_sent\<close> are the actions handed to the signer and the connection, \<open>hl_exec_events\<close> and \<open>hl_rest_events\<close> the events offered to the two
  queues, \<open>hl_reconciling\<close> the queue of the reconciler.
\<close>

record hl_adapter =
  hl_enabled :: bool
  hl_asset_meta :: asset_table
  hl_client_to_exch :: "(u64, u64) umap"
  hl_exch_to_client :: "(u64, u64) umap"
  hl_decoder :: exec_decoder
  hl_exec_events :: "exec_event list"
  hl_rest_events :: "exec_event list"
  hl_reconciling :: "candidate list"
  hl_sent :: "json list"

definition hl_tif_of :: "new_order_request \<Rightarrow> hl_tif" where
  "hl_tif_of req =
     (if nr_exec_inst req AND 1 \<noteq> 0 then Tif_Alo
      else if nr_tif req = IOC \<or> nr_order_type req = OT_MARKET then Tif_Ioc else Tif_Gtc)"

definition context_of :: "new_order_request \<Rightarrow> order_context" where
  "context_of req = \<lparr> oc_client_order_id = nr_order_id req, oc_instrument_id = nr_instrument_id req, oc_side = nr_side req,
     oc_order_type = nr_order_type req, oc_price_e8 = nr_price req, oc_quantity_e8 = nr_quantity req \<rparr>"

definition candidate_of :: "new_order_request \<Rightarrow> u64 \<Rightarrow> candidate" where
  "candidate_of req now_ns = \<lparr> cd_client_order_id = nr_order_id req, cd_instrument_id = nr_instrument_id req, cd_side = nr_side req,
     cd_order_type = nr_order_type req, cd_price_e8 = nr_price req, cd_quantity_e8 = nr_quantity req,
     cd_exchange_symbol = nr_exchange_symbol req, cd_sent_ns = now_ns \<rparr>"

definition learn_oid :: "u64 \<Rightarrow> u64 \<Rightarrow> u64 \<Rightarrow> hl_adapter \<Rightarrow> hl_adapter" where
  "learn_oid client_id qty_e8 exch_oid a =
     a\<lparr> hl_client_to_exch := AList.update client_id exch_oid (hl_client_to_exch a),
        hl_exch_to_client := AList.update exch_oid client_id (hl_exch_to_client a),
        hl_decoder := register_order exch_oid client_id qty_e8 (hl_decoder a) \<rparr>"

definition push_rest :: "exec_event list \<Rightarrow> hl_adapter \<Rightarrow> hl_adapter" where
  "push_rest es a = a\<lparr>hl_rest_events := hl_rest_events a @ es\<rparr>"

definition order_action :: "math \<Rightarrow> asset_meta \<Rightarrow> new_order_request \<Rightarrow> json option" where
  "order_action mt meta req =
     build_order_action mt meta (nr_side req = BUY) (d_of_int (sint (nr_price req)) div e8)
       (d_of_int (uint (nr_quantity req)) div e8) (hl_tif_of req)"

text \<open>\<open>None\<close>: the price has no defined number of digits (\<open>price_decimals\<close>).\<close>

definition do_send_new_order_blocking :: "math \<Rightarrow> new_order_request \<Rightarrow> u64 \<Rightarrow> post_result \<Rightarrow> hl_adapter \<Rightarrow> hl_adapter option" where
  "do_send_new_order_blocking mt req now_ns post a =
     (if \<not> hl_enabled a then Some a
      else (case map_of (hl_asset_meta a) (nr_exchange_symbol req) of
              None \<Rightarrow> Some (push_rest [emit_rejected (context_of req) now_ns] a)
            | Some meta \<Rightarrow> do {
                action \<leftarrow> order_action mt meta req;
                let a = a\<lparr>hl_sent := hl_sent a @ [action]\<rparr>;
                Some (case post of
                        Post_Throws \<Rightarrow> a\<lparr>hl_reconciling := hl_reconciling a @ [candidate_of req now_ns]\<rparr>
                      | Post_Response resp \<Rightarrow>
                          let em = emit_order_response resp (context_of req) now_ns;
                              a = (case em_acked em of Some oid \<Rightarrow> learn_oid (nr_order_id req) (nr_quantity req) oid a | None \<Rightarrow> a)
                          in push_rest (em_events em) a)
              }))"

definition context_of_candidate :: "candidate \<Rightarrow> order_context" where
  "context_of_candidate c = \<lparr> oc_client_order_id = cd_client_order_id c, oc_instrument_id = cd_instrument_id c, oc_side = cd_side c,
     oc_order_type = cd_order_type c, oc_price_e8 = cd_price_e8 c, oc_quantity_e8 = cd_quantity_e8 c \<rparr>"

definition on_reconcile_terminal :: "candidate \<Rightarrow> match_result \<Rightarrow> u64 \<Rightarrow> hl_adapter \<Rightarrow> hl_adapter" where
  "on_reconcile_terminal c r now_ns a =
     (if map_of (hl_client_to_exch a) (cd_client_order_id c) \<noteq> None then a
      else let ctx = context_of_candidate c; learned = learn_oid (cd_client_order_id c) (cd_quantity_e8 c) (mr_exch_oid r) a
        in (case mr_kind r of
              MK_OpenOrder \<Rightarrow> push_rest [emit_recovered_ack ctx (mr_exch_oid r) now_ns] learned
            | MK_UserFill \<Rightarrow>
                push_rest [emit_recovered_fill ctx (mr_exch_oid r) (mr_fill_price_e8 r) (mr_fill_fee_e8 r) (mr_fill_qty_e8 r)
                             (mr_fill_time_ns r) now_ns] learned
            | _ \<Rightarrow> push_rest [emit_rejected ctx now_ns] a))"

text \<open>The poller: what throws or is not an array counts as an empty array.\<close>

definition polled :: "post_result \<Rightarrow> json list" where
  "polled resp = (case resp of Post_Response (Some (J_Array vs)) \<Rightarrow> vs | _ \<Rightarrow> [])"

definition price_tick_e8 :: i64 where "price_tick_e8 = 100000000"

text \<open>One turn of the reconciler's thread, after the grace period. \<open>None\<close> is an undefined conversion.\<close>

definition worker_turn :: "u64 \<Rightarrow> post_result \<Rightarrow> post_result \<Rightarrow> hl_adapter \<Rightarrow> hl_adapter option" where
  "worker_turn now_ns open_resp fills_resp a =
     (case hl_reconciling a of
        [] \<Rightarrow> Some a
      | c # cs \<Rightarrow> do {
          r \<leftarrow> try_match c (polled open_resp) (polled fills_resp) price_tick_e8;
          Some (on_reconcile_terminal c r now_ns (a\<lparr>hl_reconciling := cs\<rparr>))
        })"

definition do_send_cancel_blocking :: "cancel_request \<Rightarrow> u64 \<Rightarrow> post_result \<Rightarrow> hl_adapter \<Rightarrow> hl_adapter" where
  "do_send_cancel_blocking req now_ns post a =
     (if \<not> hl_enabled a then a
      else (case map_of (hl_client_to_exch a) (cr_order_id req) of
              None \<Rightarrow> a
            | Some exch_oid \<Rightarrow>
                (case map_of (hl_asset_meta a) (cr_native_symbol req) of
                   None \<Rightarrow> a
                 | Some meta \<Rightarrow>
                     let a = a\<lparr>hl_sent := hl_sent a @ [build_cancel_action meta exch_oid]\<rparr>
                     in (case post of
                           Post_Throws \<Rightarrow> a
                         | Post_Response resp \<Rightarrow>
                             let (ok, es) = emit_cancel_response resp (cr_order_id req) now_ns;
                                 a = push_rest es a
                             in if es \<noteq> [] then
                                  a\<lparr> hl_client_to_exch := AList.delete (cr_order_id req) (hl_client_to_exch a),
                                     hl_exch_to_client := AList.delete exch_oid (hl_exch_to_client a) \<rparr>
                                else a))))"

definition on_user_fills :: "u64 \<Rightarrow> json list \<Rightarrow> hl_adapter \<Rightarrow> hl_adapter" where
  "on_user_fills recv_ns fills a =
     (let (es, threw, dec) = handle_fills recv_ns fills (hl_decoder a)
      in a\<lparr>hl_decoder := dec, hl_exec_events := hl_exec_events a @ es\<rparr>)"

definition do_send_modify_blocking :: "math \<Rightarrow> modify_request \<Rightarrow> hl_adapter \<Rightarrow> hl_adapter option" where
  "do_send_modify_blocking mt req a =
     (if \<not> hl_enabled a then Some a
      else (case map_of (hl_asset_meta a) (mr_native_symbol req) of
              None \<Rightarrow> Some a
            | Some meta \<Rightarrow> do {
                action \<leftarrow> build_modify_action mt meta (mr_order_id req) (d_of_int (sint (mr_new_price req)) div e8)
                            (d_of_int (uint (mr_new_quantity req)) div e8);
                Some (a\<lparr>hl_sent := hl_sent a @ [action]\<rparr>)
              }))"

text \<open>The bulk cancel. \<open>Some None\<close>: nothing to cancel; \<open>None\<close>: an exception.\<close>

fun cancel_entries :: "asset_table \<Rightarrow> json list \<Rightarrow> json list option" where
  "cancel_entries table [] = Some []"
| "cancel_entries table (J_Object ob # vs) =
     (if \<not> contains ob ''coin'' \<or> \<not> contains ob ''oid'' then cancel_entries table vs
      else do {
        coin \<leftarrow> Option.bind (get_at ob ''coin'') as_string;
        oid \<leftarrow> Option.bind (get_at ob ''oid'') as_int64;
        case map_of table coin of
          None \<Rightarrow> cancel_entries table vs
        | Some meta \<Rightarrow> do {
            r \<leftarrow> cancel_entries table vs;
            Some (J_Object [(''a'', json_int (am_asset_idx meta)), (''o'', J_Uint oid)] # r)
          }
      })"
| "cancel_entries table (_ # vs) = cancel_entries table vs"

definition do_send_cancel_all_blocking :: "post_result \<Rightarrow> hl_adapter \<Rightarrow> hl_adapter" where
  "do_send_cancel_all_blocking info_resp a =
     (if \<not> hl_enabled a then a
      else (case info_resp of
              Post_Response (Some (J_Array orders)) \<Rightarrow>
                (case cancel_entries (hl_asset_meta a) orders of
                   Some (c # cs) \<Rightarrow>
                     a\<lparr>hl_sent := hl_sent a @ [J_Object [(''type'', J_String ''cancel''), (''cancels'', J_Array (c # cs))]]\<rparr>
                 | _ \<Rightarrow> a)
            | _ \<Rightarrow> a))"

subsection \<open>Runs\<close>

datatype hl_call = Call_New new_order_request u64 post_result | Call_Cancel cancel_request u64 post_result
  | Call_Cancel_All post_result | Call_Modify modify_request | Fills_Arrive u64 "json list"
  | Worker_Turn u64 post_result post_result

fun hl_step :: "math \<Rightarrow> hl_call \<Rightarrow> hl_adapter \<Rightarrow> hl_adapter option" where
  "hl_step mt (Call_New req now post) a = do_send_new_order_blocking mt req now post a"
| "hl_step mt (Call_Cancel req now post) a = Some (do_send_cancel_blocking req now post a)"
| "hl_step mt (Call_Cancel_All resp) a = Some (do_send_cancel_all_blocking resp a)"
| "hl_step mt (Call_Modify req) a = do_send_modify_blocking mt req a"
| "hl_step mt (Fills_Arrive recv fills) a = Some (on_user_fills recv fills a)"
| "hl_step mt (Worker_Turn now open_resp fills_resp) a = worker_turn now open_resp fills_resp a"

fun hl_run :: "math \<Rightarrow> hl_call list \<Rightarrow> hl_adapter \<Rightarrow> hl_adapter option" where
  "hl_run mt [] a = Some a"
| "hl_run mt (c # cs) a = Option.bind (hl_step mt c a) (hl_run mt cs)"

definition hl_make :: "bool \<Rightarrow> asset_table \<Rightarrow> hl_adapter" where
  "hl_make enabled table = \<lparr> hl_enabled = enabled, hl_asset_meta = table, hl_client_to_exch = [], hl_exch_to_client = [],
     hl_decoder = [], hl_exec_events = [], hl_rest_events = [], hl_reconciling = [], hl_sent = [] \<rparr>"

subsection \<open>Every order is answered, except after one kind of response\<close>

text \<open>An \<open>ok\<close> without a usable status.\<close>

definition silent_status :: "json_object \<Rightarrow> bool" where
  "silent_status s0 \<longleftrightarrow> \<not> contains s0 ''resting'' \<and>
     (if contains s0 ''filled'' then status_oid s0 ''filled'' = Some 0 else \<not> contains s0 ''error'')"

definition silent_response :: "json \<Rightarrow> bool" where
  "silent_response v =
     (case v of
        J_Object rj \<Rightarrow> get_at rj ''status'' = Some (J_String ''ok'') \<and>
          (case get_at rj ''response'' of
             None \<Rightarrow> True
           | Some (J_Object response) \<Rightarrow>
               (case get_at response ''data'' of
                  None \<Rightarrow> True
                | Some (J_Object data) \<Rightarrow>
                    (case get_at data ''statuses'' of
                       Some (J_Array (s0 # _)) \<Rightarrow> (case s0 of J_Object ob \<Rightarrow> silent_status ob | _ \<Rightarrow> False)
                     | _ \<Rightarrow> True)
                | _ \<Rightarrow> False)
           | _ \<Rightarrow> False)
      | _ \<Rightarrow> False)"

text \<open>What the emitter does with a response: one final word, an identifier to wait on, or nothing.\<close>

definition one_answer :: "order_context \<Rightarrow> emission \<Rightarrow> bool" where
  "one_answer ctx em \<longleftrightarrow> (\<exists>e. em_events em = [e] \<and> ev_order_id e = oc_client_order_id ctx \<and> ev_status e \<in> {ES_ACKED, ES_REJECTED} \<and>
     ev_remaining_qty e = oc_quantity_e8 ctx)"

definition waits_for_fills :: "emission \<Rightarrow> bool" where
  "waits_for_fills em \<longleftrightarrow> em_events em = [] \<and> (\<exists>oid. em_acked em = Some oid \<and> oid \<noteq> 0)"

definition silent :: "emission \<Rightarrow> bool" where
  "silent em \<longleftrightarrow> em_events em = [] \<and> em_acked em = None"

lemma one_answer_simps [simp]:
  "one_answer ctx (rejected ctx now)" "\<not> silent (rejected ctx now)" "\<not> waits_for_fills (rejected ctx now)" "silent nothing"
  by (simp_all add: one_answer_def rejected_def emit_rejected_def make_skeleton_def silent_def waits_for_fills_def nothing_def)

lemma first_status_cases:
  assumes "first_status ctx now s0 = Some em"
  shows "if silent_status s0 then silent em else one_answer ctx em \<or> waits_for_fills em"
  using assms
  by (auto simp: first_status_def silent_status_def acked_oid_def emit_recovered_ack_def make_skeleton_def one_answer_def
      waits_for_fills_def silent_def rejected_def emit_rejected_def nothing_def split: if_splits Option.bind_splits)

lemma first_status_None: "first_status ctx now s0 = None \<Longrightarrow> \<not> silent_status s0"
  by (auto simp: first_status_def silent_status_def split: if_splits Option.bind_splits)

definition conclusive :: "order_context \<Rightarrow> bool \<Rightarrow> emission option \<Rightarrow> bool" where
  "conclusive ctx mute r \<longleftrightarrow>
     (case r of None \<Rightarrow> \<not> mute | Some em \<Rightarrow> if mute then silent em else one_answer ctx em \<or> waits_for_fills em)"

lemma conclusive_simps [simp]:
  "conclusive ctx mute None \<longleftrightarrow> \<not> mute" "conclusive ctx mute (Some (rejected ctx now)) \<longleftrightarrow> \<not> mute"
  "conclusive ctx True (Some nothing)"
  by (simp_all add: conclusive_def)

lemma conclusive_first: "conclusive ctx (silent_status s0) (first_status ctx now s0)"
  using first_status_cases [of ctx now s0] first_status_None [of ctx now s0]
  by (cases "first_status ctx now s0") (auto simp: conclusive_def)

lemma order_response_conclusive: "conclusive ctx (silent_response v) (order_response ctx now v)"
proof (cases "\<exists>rj. v = J_Object rj \<and> get_at rj ''status'' = Some (J_String ''ok'')")
  case False
  then show ?thesis
    by (cases v) (auto simp: order_response_def silent_response_def response_status_def contains_def as_string_Some
        split: Option.bind_splits)
next
  case True
  then obtain rj where v: "v = J_Object rj" "get_at rj ''status'' = Some (J_String ''ok'')" by blast
  note u = order_response_def silent_response_def response_status_def contains_def
  show ?thesis
  proof (cases "\<exists>response. get_at rj ''response'' = Some (J_Object response)")
    case False
    then show ?thesis using v by (auto simp: u split: option.splits json.splits)
  next
    case True
    then obtain response where r: "get_at rj ''response'' = Some (J_Object response)" by blast
    show ?thesis
    proof (cases "\<exists>dt. get_at response ''data'' = Some (J_Object dt)")
      case False
      then show ?thesis using v r by (auto simp: u split: option.splits json.splits)
    next
      case True
      then obtain dt where d: "get_at response ''data'' = Some (J_Object dt)" by blast
      show ?thesis
      proof (cases "\<exists>ob r. get_at dt ''statuses'' = Some (J_Array (J_Object ob # r))")
        case False
        then show ?thesis using v r d by (auto simp: u split: option.splits json.splits list.splits)
      next
        case True
        then show ?thesis using v r d conclusive_first by (auto simp: u)
      qed
    qed
  qed
qed

lemma emit_order_cases:
  "if (case parsed of Some v \<Rightarrow> silent_response v | None \<Rightarrow> False) then silent (emit_order_response parsed ctx now)
   else one_answer ctx (emit_order_response parsed ctx now) \<or> waits_for_fills (emit_order_response parsed ctx now)"
proof (cases parsed)
  case (Some v)
  then show ?thesis using order_response_conclusive [of ctx v now]
    by (cases "order_response ctx now v") (auto simp: emit_order_response_def conclusive_def split: if_splits)
qed (simp add: emit_order_response_def)

text \<open>How a new order leaves the adapter.\<close>

definition answered :: "new_order_request \<Rightarrow> hl_adapter \<Rightarrow> hl_adapter \<Rightarrow> bool" where
  "answered req a a' \<longleftrightarrow>
     (\<exists>e. hl_rest_events a' = hl_rest_events a @ [e] \<and> ev_order_id e = nr_order_id req \<and> ev_status e \<in> {ES_ACKED, ES_REJECTED} \<and>
       ev_remaining_qty e = nr_quantity req)"

definition awaits_fills :: "new_order_request \<Rightarrow> hl_adapter \<Rightarrow> bool" where
  "awaits_fills req a' \<longleftrightarrow>
     (\<exists>oid. map_of (hl_client_to_exch a') (nr_order_id req) = Some oid \<and> map_of (hl_decoder a') oid =
       Some \<lparr> po_client_order_id = nr_order_id req, po_original_qty_e8 = nr_quantity req, po_cumulative_filled_e8 = 0 \<rparr>)"

definition reconciles :: "new_order_request \<Rightarrow> u64 \<Rightarrow> hl_adapter \<Rightarrow> hl_adapter \<Rightarrow> bool" where
  "reconciles req now a a' \<longleftrightarrow> hl_reconciling a' = hl_reconciling a @ [candidate_of req now]"


definition demo_table :: asset_table where
  "demo_table = [(''BTC'', \<lparr> am_asset_idx = 0, am_sz_decimals = 5, am_max_px_decimals = 1 \<rparr>)]"

definition demo_math :: math where
  "demo_math = \<lparr> std_log10 = (\<lambda>_. Fin 2), std_pow10 = (\<lambda>n. Fin (10 ^ nat n)) \<rparr>"

definition demo_order :: "u64 \<Rightarrow> u64 \<Rightarrow> new_order_request" where
  "demo_order cid qty = \<lparr> nr_order_id = cid, nr_instrument_id = 1, nr_price = 100000000, nr_quantity = qty, nr_side = BUY,
     nr_order_type = OT_LIMIT, nr_tif = GTC, nr_exec_inst = 0, nr_exchange_symbol = ''BTC'' \<rparr>"

definition status_json :: "json_object \<Rightarrow> json" where
  "status_json s0 = J_Object [(''status'', J_String ''ok''), (''response'', J_Object [(''data'',
     J_Object [(''statuses'', J_Array [J_Object s0])])])]"

lemma demo_action: "\<exists>action. order_action demo_math meta req = Some action"
  by (simp add: order_action_def build_order_action_def build_order_object_def round_price_for_asset_def price_decimals_def
      demo_math_def d_trunc_def Let_def)


subsection \<open>Only orders that were sent are reported\<close>

fun new_ids :: "hl_call list \<Rightarrow> u64 list" where
  "new_ids [] = []"
| "new_ids (Call_New req now post # cs) = nr_order_id req # new_ids cs"
| "new_ids (_ # cs) = new_ids cs"

definition decoder_ids :: "u64 set \<Rightarrow> exec_decoder \<Rightarrow> bool" where
  "decoder_ids ids dec \<longleftrightarrow> (\<forall>k po. map_of dec k = Some po \<longrightarrow> po_client_order_id po \<in> ids)"

lemma decoder_ids_simps [simp]:
  "decoder_ids ids dec \<Longrightarrow> decoder_ids ids (AList.delete k dec)"
  "decoder_ids ids dec \<Longrightarrow> po_client_order_id po \<in> ids \<Longrightarrow> decoder_ids ids (AList.update k po dec)"
  "decoder_ids ids dec \<Longrightarrow> cid \<in> ids \<Longrightarrow> decoder_ids ids (register_order k cid qty dec)"
  by (auto simp: decoder_ids_def register_order_def)

lemma decoder_idsD: "decoder_ids ids dec \<Longrightarrow> map_of dec k = Some po \<Longrightarrow> po_client_order_id po \<in> ids"
  by (auto simp: decoder_ids_def)

definition known_ids :: "u64 set \<Rightarrow> hl_adapter \<Rightarrow> bool" where
  "known_ids ids a \<longleftrightarrow>
     dom (map_of (hl_client_to_exch a)) \<subseteq> ids \<and>
     decoder_ids ids (hl_decoder a) \<and>
     (\<forall>c \<in> set (hl_reconciling a). cd_client_order_id c \<in> ids) \<and>
     (\<forall>e \<in> set (hl_exec_events a) \<union> set (hl_rest_events a). ev_order_id e \<in> ids)"

lemma known_ids_mono: "known_ids ids a \<Longrightarrow> ids \<subseteq> ids' \<Longrightarrow> known_ids ids' a"
  unfolding known_ids_def decoder_ids_def by blast

lemma known_push: "known_ids ids a \<Longrightarrow> list_all (\<lambda>e. ev_order_id e \<in> ids) es \<Longrightarrow> known_ids ids (push_rest es a)"
  by (auto simp: known_ids_def push_rest_def list_all_iff)

lemma known_learn: "known_ids ids a \<Longrightarrow> cid \<in> ids \<Longrightarrow> known_ids ids (learn_oid cid qty oid a)"
  by (auto simp: known_ids_def learn_oid_def)

lemma known_sent: "known_ids ids (a\<lparr>hl_sent := x\<rparr>) \<longleftrightarrow> known_ids ids a"
  by (simp add: known_ids_def)

lemma order_response_ids: "order_response ctx now v = Some em \<Longrightarrow> list_all (\<lambda>e. ev_order_id e = oc_client_order_id ctx) (em_events em)"
  using order_response_conclusive [of ctx v now]
  by (auto simp: conclusive_def one_answer_def silent_def waits_for_fills_def split: if_splits)

lemma emit_order_ids: "list_all (\<lambda>e. ev_order_id e = oc_client_order_id ctx) (em_events (emit_order_response parsed ctx now))"
  by (auto simp: emit_order_response_def order_response_ids rejected_def emit_rejected_def make_skeleton_def
      split: option.splits Option.bind_splits)

lemma known_new:
  assumes "known_ids ids a" "do_send_new_order_blocking mt req now post a = Some a'" "nr_order_id req \<in> ids"
  shows "known_ids ids a'"
proof -
  have rej: "known_ids ids (push_rest [emit_rejected (context_of req) now] a)"
    using assms by (intro known_push) (auto simp: emit_rejected_def make_skeleton_def context_of_def)
  have thr: "known_ids ids (a\<lparr>hl_sent := x, hl_reconciling := hl_reconciling a @ [candidate_of req now]\<rparr>)" for x
    using assms by (auto simp: known_ids_def candidate_of_def)
  have resp: "known_ids ids (push_rest (em_events (emit_order_response r (context_of req) now))
      (case u of Some oid \<Rightarrow> learn_oid (nr_order_id req) (nr_quantity req) oid (a\<lparr>hl_sent := x\<rparr>) | None \<Rightarrow> a\<lparr>hl_sent := x\<rparr>))" for r u x
  proof (rule known_push)
    show "list_all (\<lambda>e. ev_order_id e \<in> ids) (em_events (emit_order_response r (context_of req) now))"
      using emit_order_ids [of "context_of req" r now] assms(3) by (simp add: list_all_iff context_of_def)
  qed (use assms in \<open>auto simp: known_learn known_sent split: option.split\<close>)
  show ?thesis
    using assms(1,2) rej thr resp [where u = None, simplified] resp [where u = "Some _", simplified]
    by (auto simp: do_send_new_order_blocking_def Let_def split: if_splits option.splits post_result.splits Option.bind_splits)
qed

lemma handle_fill_ids:
  assumes "decoder_ids ids dec" "handle_fill recv v dec = (f, dec')"
  shows "decoder_ids ids dec' \<and> (\<forall>e. f = Fill_Event e \<longrightarrow> ev_order_id e \<in> ids)"
  using assms decoder_idsD [OF assms(1)] by (auto simp: handle_fill_def Let_def split: option.splits if_splits)

lemma handle_fills_ids:
  "decoder_ids ids dec \<Longrightarrow> handle_fills recv vs dec = (es, t, dec') \<Longrightarrow>
   decoder_ids ids dec' \<and> (\<forall>e \<in> set es. ev_order_id e \<in> ids)"
proof (induction vs arbitrary: dec es t dec')
  case (Cons v vs)
  obtain f d where f: "handle_fill recv v dec = (f, d)" by fastforce
  obtain es1 t1 d1 where r: "handle_fills recv vs d = (es1, t1, d1)" by (cases "handle_fills recv vs d")
  note h = handle_fill_ids [OF Cons.prems(1) f]
  show ?case using Cons.prems(2) f r h Cons.IH [OF _ r] by (cases f) (auto simp: Let_def)
qed simp

lemma known_fills: "known_ids ids a \<Longrightarrow> known_ids ids (on_user_fills recv fills a)"
  using handle_fills_ids [of ids "hl_decoder a" recv fills]
  by (auto simp: known_ids_def on_user_fills_def split: prod.split)

lemma known_terminal:
  assumes "known_ids ids a" "cd_client_order_id c \<in> ids"
  shows "known_ids ids (on_reconcile_terminal c r now a)"
proof -
  have "list_all (\<lambda>e. ev_order_id e \<in> ids) [emit_rejected (context_of_candidate c) now]"
    "list_all (\<lambda>e. ev_order_id e \<in> ids) [emit_recovered_ack (context_of_candidate c) oid now]"
    "list_all (\<lambda>e. ev_order_id e \<in> ids) [emit_recovered_fill (context_of_candidate c) oid p f q t now]" for oid p f q t
    using assms(2) by (simp_all add: emit_rejected_def emit_recovered_ack_def emit_recovered_fill_def make_skeleton_def
        context_of_candidate_def Let_def)
  then show ?thesis using assms known_learn known_push by (auto simp: on_reconcile_terminal_def Let_def split: match_kind.split)
qed

lemma known_worker:
  assumes "known_ids ids a" "worker_turn now o1 f1 a = Some a'"
  shows "known_ids ids a'"
proof (cases "hl_reconciling a")
  case (Cons c cs)
  then have "known_ids ids (a\<lparr>hl_reconciling := cs\<rparr>)" "cd_client_order_id c \<in> ids" using assms(1) by (auto simp: known_ids_def)
  then show ?thesis using assms(2) Cons known_terminal by (auto simp: worker_turn_def split: Option.bind_splits)
qed (use assms in \<open>simp add: worker_turn_def\<close>)

lemma known_cancel:
  assumes "known_ids ids a"
  shows "known_ids ids (do_send_cancel_blocking req now post a)"
proof (cases "map_of (hl_client_to_exch a) (cr_order_id req)")
  case (Some oid)
  then have i: "cr_order_id req \<in> ids" using assms by (auto simp: known_ids_def)
  then have es: "list_all (\<lambda>e. ev_order_id e \<in> ids) (snd (emit_cancel_response r (cr_order_id req) now))" for r
    by (auto simp: emit_cancel_response_def cancelled_event_def split: option.split)
  have del: "known_ids ids b \<Longrightarrow> known_ids ids (b\<lparr> hl_client_to_exch := AList.delete x (hl_client_to_exch b), hl_exch_to_client := y \<rparr>)" for b x y
    by (auto simp: known_ids_def)
  have "known_ids ids (push_rest [] b) \<longleftrightarrow> known_ids ids b" for b by (simp add: push_rest_def)
  then show ?thesis
    using assms Some del [OF known_push [OF _ es]] known_push [OF _ es]
    by (auto simp: do_send_cancel_blocking_def Let_def known_sent split_beta split: option.split post_result.split)
qed (use assms in \<open>simp add: do_send_cancel_blocking_def\<close>)

lemma known_step: "known_ids ids a \<Longrightarrow> hl_step mt c a = Some a' \<Longrightarrow> set (new_ids [c]) \<subseteq> ids \<Longrightarrow> known_ids ids a'"
proof (cases c)
  case (Call_Cancel_All resp)
  then show "known_ids ids a \<Longrightarrow> hl_step mt c a = Some a' \<Longrightarrow> set (new_ids [c]) \<subseteq> ids \<Longrightarrow> known_ids ids a'"
    by (auto simp: do_send_cancel_all_blocking_def known_sent split: post_result.split option.split json.split list.split)
next
  case (Call_Modify req)
  then show "known_ids ids a \<Longrightarrow> hl_step mt c a = Some a' \<Longrightarrow> set (new_ids [c]) \<subseteq> ids \<Longrightarrow> known_ids ids a'"
    by (auto simp: do_send_modify_blocking_def known_sent split: if_splits option.splits Option.bind_splits)
qed (auto intro: known_new known_cancel known_fills known_worker)

lemma known_run: "known_ids ids a \<Longrightarrow> hl_run mt cs a = Some a' \<Longrightarrow> known_ids (ids \<union> set (new_ids cs)) a'"
proof (induction cs arbitrary: a ids)
  case (Cons c cs)
  obtain b where b: "hl_step mt c a = Some b" "hl_run mt cs b = Some a'" using Cons.prems(2) by (auto split: Option.bind_splits)
  have "known_ids (ids \<union> set (new_ids [c])) b" using known_step [OF known_ids_mono b(1)] Cons.prems(1) by blast
  moreover have "set (new_ids (c # cs)) = set (new_ids [c]) \<union> set (new_ids cs)" by (cases c) auto
  ultimately show ?case using Cons.IH [OF _ b(2), of "ids \<union> set (new_ids [c])"] by (simp only: Un_assoc)
qed simp

text \<open>
  Only orders the strategy placed are reported. In any run from the start, with any responses,
  fills and polls, every event on either queue carries the id of an order that was sent before.
\<close>

theorem hl_reports_sent_orders:
  assumes "hl_run mt cs (hl_make enabled table) = Some a"
  shows "list_all (\<lambda>e. ev_order_id e \<in> set (new_ids cs)) (hl_exec_events a @ hl_rest_events a)"
proof -
  have "known_ids {} (hl_make enabled table)" by (simp add: known_ids_def decoder_ids_def hl_make_def)
  from known_run [OF this assms] show ?thesis by (auto simp: known_ids_def list_all_iff)
qed

theorem hl_reports_sent_orders_witness:
  "\<exists>a. hl_run demo_math [Call_New (demo_order 77 5) 7 Post_Throws, Worker_Turn 9 Post_Throws Post_Throws] (hl_make True demo_table) = Some a \<and>
     list_all (\<lambda>e. ev_order_id e \<in> set [77]) (hl_exec_events a @ hl_rest_events a) \<and> map ev_status (hl_rest_events a) = [ES_REJECTED]"
proof -
  let ?cs = "[Call_New (demo_order 77 5) 7 Post_Throws, Worker_Turn 9 Post_Throws Post_Throws]"
  let ?m = "\<lparr> am_asset_idx = 0, am_sz_decimals = 5, am_max_px_decimals = 1 \<rparr>" and ?c = "candidate_of (demo_order 77 5) 7"
  obtain action where act: "order_action demo_math ?m (demo_order 77 5) = Some action"
    using demo_action by blast
  let ?a = "(hl_make True demo_table)\<lparr>hl_sent := [action], hl_reconciling := [?c]\<rparr>"
  have "map_of demo_table (nr_exchange_symbol (demo_order 77 5)) = Some ?m" by (simp add: demo_table_def demo_order_def)
  then have s1: "hl_step demo_math (Call_New (demo_order 77 5) 7 Post_Throws) (hl_make True demo_table) = Some ?a"
    using act by (simp add: do_send_new_order_blocking_def hl_make_def Let_def)
  have s2: "hl_step demo_math (Worker_Turn 9 Post_Throws Post_Throws) ?a =
      Some (push_rest [emit_rejected (context_of_candidate ?c) 9] (?a\<lparr>hl_reconciling := []\<rparr>))"
  proof -
    have "try_match ?c [] [] price_tick_e8 = Some (no_fill MK_None 0)" by (simp add: try_match_def)
    moreover have "map_of (hl_client_to_exch (?a\<lparr>hl_reconciling := []\<rparr>)) (cd_client_order_id ?c) = None" by (simp add: hl_make_def)
    ultimately show ?thesis by (simp add: worker_turn_def polled_def no_fill_def on_reconcile_terminal_def)
  qed
  let ?b = "push_rest [emit_rejected (context_of_candidate ?c) 9] (?a\<lparr>hl_reconciling := []\<rparr>)"
  have run: "hl_run demo_math ?cs (hl_make True demo_table) = Some ?b"
    unfolding hl_run.simps s1 s2 by (simp only: Option.bind.bind_lunit s2)
  have "set (new_ids ?cs) = set [77]" by (simp add: demo_order_def)
  note ids = hl_reports_sent_orders [OF run, unfolded this]
  have "map ev_status (hl_rest_events ?b) = [ES_REJECTED]" by (simp add: push_rest_def hl_make_def emit_rejected_def)
  then show ?thesis using run ids by (intro exI [of _ ?b] conjI)
qed

subsection \<open>Where the report is wrong\<close>

text \<open>
  A cancel the venue refuses is reported as done. When the response to a cancel is \<open>ok\<close> with
  an error that does not contain the word \<open>filled\<close>, whatever else it says, the strategy is told \<open>CANCELLED\<close> and the
  adapter forgets the identifier; from then on it sends no cancel for the order, which may still rest at the venue.
\<close>

theorem hl_failed_cancel_loses_order:
  assumes "hl_enabled a" "map_of (hl_client_to_exch a) (cr_order_id req) = Some oid"
    and "map_of (hl_asset_meta a) (cr_native_symbol req) = Some meta"
    and "get_at rj ''status'' = Some (J_String ''ok'')" "cancel_error rj = Some err" "\<not> sublist ''filled'' err"
    and "a' = do_send_cancel_blocking req now (Post_Response (Some (J_Object rj))) a"
    and "cr_order_id req2 = cr_order_id req"
  shows "hl_rest_events a' = hl_rest_events a @ [cancelled_event (cr_order_id req) now] \<and>
         do_send_cancel_blocking req2 now2 post2 a' = a'"
proof -
  have "emit_cancel_response (Some (J_Object rj)) (cr_order_id req) now = (True, [cancelled_event (cr_order_id req) now])"
    using assms(4-6) by (simp add: emit_cancel_response_def response_status_def contains_def)
  then show ?thesis using assms by (simp add: do_send_cancel_blocking_def push_rest_def Let_def)
qed

definition refusal :: json_object where
  "refusal = [(''status'', J_String ''ok''), (''response'', J_Object [(''data'',
     J_Object [(''statuses'', J_Array [J_Object [(''error'', J_String ''Too many requests'')]])])])]"

definition demo_cancel :: cancel_request where
  "demo_cancel = \<lparr> cr_order_id = 77, cr_native_symbol = ''BTC'' \<rparr>"

lemma not_filled: "\<not> sublist ''filled'' ''Too many requests''"
  by (simp add: sublist_Cons_right)

lemma refusal_facts: "get_at refusal ''status'' = Some (J_String ''ok'')" "cancel_error refusal = Some ''Too many requests''"
  by (simp_all add: refusal_def cancel_error_def)

theorem hl_failed_cancel_loses_order_witness:
  "map ev_status (hl_rest_events (do_send_cancel_blocking demo_cancel 7 (Post_Response (Some (J_Object refusal)))
     (learn_oid 77 5 6 (hl_make True demo_table)))) = [ES_CANCELLED]"
proof -
  let ?a = "learn_oid 77 5 6 (hl_make True demo_table)"
  have a: "hl_enabled ?a" "map_of (hl_client_to_exch ?a) (cr_order_id demo_cancel) = Some 6" "hl_rest_events ?a = []"
    "map_of (hl_asset_meta ?a) (cr_native_symbol demo_cancel) = Some \<lparr> am_asset_idx = 0, am_sz_decimals = 5, am_max_px_decimals = 1 \<rparr>"
    by (simp_all add: learn_oid_def hl_make_def demo_table_def demo_cancel_def)
  show ?thesis
    using hl_failed_cancel_loses_order [OF a(1,2,4) refusal_facts not_filled refl refl, of 7] a(3)
    by (simp add: cancelled_event_def)
qed

text \<open>
  An order recovered by a partial fill is never reported \<open>FILLED\<close>. The reconciler tells the
  strategy of the slice it found, but registers the order as if nothing were filled. When the rest of the quantity arrives
  on the fill stream, so that all of it is filled, the event says \<open>PARTIAL\<close> and names the first slice as remaining.
\<close>

theorem hl_recovered_partial_never_filled:
  assumes "map_of (hl_client_to_exch a) (cd_client_order_id c) = None" "mr_kind r = MK_UserFill" "mr_exch_oid r \<noteq> 0"
    and "0 < mr_fill_qty_e8 r" "mr_fill_qty_e8 r < cd_quantity_e8 c"
    and "handle_fill recv v (hl_decoder (on_reconcile_terminal c r now a)) = (Fill_Event e, dec)"
    and "ev_exchange_order_id e = mr_exch_oid r" "ev_filled_qty e = cd_quantity_e8 c - mr_fill_qty_e8 r"
  shows "ev_status e = ES_PARTIAL \<and> ev_remaining_qty e = mr_fill_qty_e8 r \<and>
         map ev_filled_qty (hl_rest_events (on_reconcile_terminal c r now a)) = map ev_filled_qty (hl_rest_events a) @ [mr_fill_qty_e8 r]"
proof -
  let ?a = "on_reconcile_terminal c r now a"
  have "map_of (hl_decoder ?a) (mr_exch_oid r) =
      Some \<lparr> po_client_order_id = cd_client_order_id c, po_original_qty_e8 = cd_quantity_e8 c, po_cumulative_filled_e8 = 0 \<rparr>"
    using assms(1-3) by (simp add: on_reconcile_terminal_def push_rest_def learn_oid_def register_order_def)
  then have "tracks (Some \<lparr> po_client_order_id = cd_client_order_id c, po_original_qty_e8 = cd_quantity_e8 c, po_cumulative_filled_e8 = 0 \<rparr>) [e]
      (map_of dec (mr_exch_oid r))"
    using handle_fill_event [OF assms(6), of "mr_exch_oid r"] assms(7) by simp
  moreover have "cd_quantity_e8 c - mr_fill_qty_e8 r < cd_quantity_e8 c"
    using assms(4,5) unat_sub [OF less_imp_le [OF assms(5)]] by (simp add: word_less_nat_alt)
  ultimately have "ev_status e = ES_PARTIAL \<and> ev_remaining_qty e = mr_fill_qty_e8 r"
    using assms(8) by (auto simp: Let_def split: if_splits)
  moreover have "map ev_filled_qty (hl_rest_events ?a) = map ev_filled_qty (hl_rest_events a) @ [mr_fill_qty_e8 r]"
    using assms(1,2) by (simp add: on_reconcile_terminal_def push_rest_def learn_oid_def emit_recovered_fill_def Let_def)
  ultimately show ?thesis by blast
qed

definition slice_found :: match_result where
  "slice_found = \<lparr> mr_kind = MK_UserFill, mr_exch_oid = 5, mr_fill_price_e8 = 100000000, mr_fill_fee_e8 = 0,
     mr_fill_qty_e8 = 100000000, mr_fill_time_ns = 0 \<rparr>"

theorem hl_recovered_partial_never_filled_witness:
  "case handle_fill 9 (fill_json 5 (text8 200000000))
     (hl_decoder (on_reconcile_terminal (candidate_of (demo_order 77 300000000) 0) slice_found 8 (hl_make True demo_table))) of
     (Fill_Event e, dec) \<Rightarrow> ev_status e = ES_PARTIAL \<and> ev_remaining_qty e = 100000000 | _ \<Rightarrow> False"
proof -
  let ?c = "candidate_of (demo_order 77 300000000) 0" and ?a = "hl_make True demo_table"
  have reg: "map_of (hl_decoder (on_reconcile_terminal ?c slice_found 8 ?a)) 5 =
      Some \<lparr> po_client_order_id = 77, po_original_qty_e8 = 300000000, po_cumulative_filled_e8 = 0 \<rparr>"
    by (simp add: on_reconcile_terminal_def slice_found_def push_rest_def learn_oid_def register_order_def hl_make_def candidate_of_def
        demo_order_def)
  obtain e dec where e: "handle_fill 9 (fill_json 5 (text8 200000000)) (hl_decoder (on_reconcile_terminal ?c slice_found 8 ?a)) =
      (Fill_Event e, dec)" "ev_exchange_order_id e = 5" "ev_filled_qty e = 200000000"
    using handle_fill_json [OF _ scaled_texts(2) reg refl, where recv = 9] by simp
  then show ?thesis
    using hl_recovered_partial_never_filled [of ?a ?c slice_found 9 "fill_json 5 (text8 200000000)" 8 e dec]
    by (simp add: hl_make_def slice_found_def candidate_of_def demo_order_def)
qed

text \<open>A fill in an answer of the venue's history, with its time.\<close>

definition past_fill :: "u64 \<Rightarrow> int \<Rightarrow> json_object" where
  "past_fill oid q = [(''coin'', J_String ''BTC''), (''oid'', J_Int oid), (''side'', J_String ''B''), (''time'', J_Int 5),
     (''px'', J_String (text8 100000000)), (''sz'', J_String (text8 q)), (''fee'', J_String (text8 0))]"

lemma to_e8_texts: "to_e8 (d_of_int 100000000 div e8) = Some 100000000" "to_e8 (d_of_int 200000000 div e8) = Some 200000000"
  by code_simp+

lemma signed_order:
  "(0::i64) <s 100000000" "(0::i64) <s 200000000" "(100000000::i64) \<le>s 300000000" "(200000000::i64) \<le>s 300000000"
  "\<not> (100000000::i64) <s 0"
  by code_simp+

lemma past_fill_matches:
  assumes "q = 100000000 \<or> q = 200000000"
  shows "user_fill_matches (candidate_of (demo_order 77 300000000) 0) price_tick_e8 (past_fill 5 q) = Some True"
proof -
  have "to_e8 (parse_decimal_string (past_fill 5 q) ''px'') = Some 100000000"
    "to_e8 (parse_decimal_string (past_fill 5 q) ''sz'') = Some (word_of_int q)"
    using assms by (auto simp: parse_decimal_string_def past_fill_def stod_text8 to_e8_texts)
  then show ?thesis using assms
    by (auto simp: user_fill_matches_def past_fill_def coin_of_def side_matches_def candidate_of_def demo_order_def price_tick_e8_def llabs_def
        signed_order)
qed

text \<open>
  An order that was filled completely in two slices is reported as rejected. Its request failed, both
  slices carry its identifier and add up to its quantity; the reconciler sees two fills that match, calls the case ambiguous,
  reports \<open>REJECTED\<close>, and does not register the identifier, so that the stream's own fills are skipped as well.
\<close>

theorem hl_two_slices_rejected:
  "case worker_turn now (Post_Response (Some (J_Array [])))
          (Post_Response (Some (J_Array [J_Object (past_fill 5 100000000), J_Object (past_fill 5 200000000)])))
          ((hl_make True demo_table)\<lparr>hl_reconciling := [candidate_of (demo_order 77 300000000) 0]\<rparr>) of
     Some a \<Rightarrow> map ev_status (hl_rest_events a) = [ES_REJECTED] \<and> map ev_remaining_qty (hl_rest_events a) = [300000000] \<and>
       hl_exec_events (on_user_fills recv [fill_json 5 (text8 100000000), fill_json 5 (text8 200000000)] a) = []
   | None \<Rightarrow> False"
proof -
  let ?c = "candidate_of (demo_order 77 300000000) 0"
  have "try_match ?c [] [J_Object (past_fill 5 100000000), J_Object (past_fill 5 200000000)] price_tick_e8 = Some (no_fill MK_Ambiguous 0)"
    by (simp add: try_match_def past_fill_matches)
  then have "worker_turn now (Post_Response (Some (J_Array [])))
      (Post_Response (Some (J_Array [J_Object (past_fill 5 100000000), J_Object (past_fill 5 200000000)])))
      ((hl_make True demo_table)\<lparr>hl_reconciling := [?c]\<rparr>) = Some (push_rest [emit_rejected (context_of_candidate ?c) now] (hl_make True demo_table))"
    by (simp add: worker_turn_def polled_def no_fill_def on_reconcile_terminal_def hl_make_def)
  then show ?thesis
    by (simp add: push_rest_def hl_make_def emit_rejected_def make_skeleton_def context_of_candidate_def candidate_of_def demo_order_def
        on_user_fills_def handle_fill_def fill_json_def)
qed

end
