(* ===== verification/Binance_Adapter.thy ===== *)
theory Binance_Adapter
  imports Venue_Text
begin

text \<open>
  The Binance adapter (\<open>src/bpt-order-gateway/src/adapter/binance/\<close>): the parameters of its REST requests
  (\<open>binance_action_encoder.cpp\<close>), the decoder of reports and responses (\<open>binance_exec_decoder.cpp\<close>) and the order
  path (\<open>binance_order_adapter.cpp\<close>). The signature and the connections are parameters. The theorems: which
  orders are answered, and what the strategy is not told or is told twice.
\<close>

subsection \<open>Requests\<close>

record order_spec =
  sp_symbol :: string
  sp_side :: order_side
  sp_order_type :: order_type
  sp_tif :: time_in_force
  sp_price_e8 :: i64
  sp_quantity_e8 :: u64
  sp_cloid :: string
  sp_exec_inst :: u8

definition side_str :: "order_side \<Rightarrow> string" where
  "side_str s = (if s = BUY then ''BUY'' else ''SELL'')"

definition type_str :: "order_type \<Rightarrow> u8 \<Rightarrow> string" where
  "type_str t exec_inst =
     (if t = OT_MARKET then ''MARKET'' else if exec_inst AND 1 \<noteq> 0 then ''LIMIT_MAKER'' else ''LIMIT'')"

definition tif_str :: "time_in_force \<Rightarrow> string" where
  "tif_str tif = (if tif = IOC then ''IOC'' else if tif = FOK then ''FOK'' else ''GTC'')"

definition quantity_text :: "u64 \<Rightarrow> string" where
  "quantity_text quantity_e8 = to_string_double (d_of_int (uint quantity_e8) div e8)"

definition price_text :: "i64 \<Rightarrow> string" where
  "price_text price_e8 = to_string_double (d_of_int (sint price_e8) div e8)"

definition build_new_order_params :: "order_spec \<Rightarrow> string" where
  "build_new_order_params spec =
     ''symbol='' @ sp_symbol spec @ ''&side='' @ side_str (sp_side spec) @
     ''&type='' @ type_str (sp_order_type spec) (sp_exec_inst spec) @
     ''&quantity='' @ quantity_text (sp_quantity_e8 spec) @ ''&newClientOrderId='' @ sp_cloid spec @
     (if sp_order_type spec \<noteq> OT_MARKET
      then ''&timeInForce='' @ tif_str (sp_tif spec) @ ''&price='' @ price_text (sp_price_e8 spec) else [])"

definition build_cancel_params :: "string \<Rightarrow> string \<Rightarrow> string" where
  "build_cancel_params symb cloid = ''symbol='' @ symb @ ''&origClientOrderId='' @ cloid"

definition build_modify_replace_params :: "string \<Rightarrow> string \<Rightarrow> i64 \<Rightarrow> u64 \<Rightarrow> string" where
  "build_modify_replace_params symb new_cloid new_price_e8 new_quantity_e8 =
     ''symbol='' @ symb @ ''&side=BUY&type=LIMIT&timeInForce=GTC'' @ ''&quantity='' @ quantity_text new_quantity_e8 @
     ''&price='' @ price_text new_price_e8 @ ''&newClientOrderId='' @ new_cloid"

subsection \<open>Reports\<close>

type_synonym cloid_map = "(string, u64) umap"

definition known_order :: "cloid_map \<Rightarrow> string \<Rightarrow> u64" where
  "known_order ids cloid = (case map_of ids cloid of Some i \<Rightarrow> i | None \<Rightarrow> 0)"

definition report_status :: "string \<Rightarrow> u64 \<Rightarrow> (exec_status \<times> reject_reason) option" where
  "report_status exec_type remaining_qty =
     (if exec_type = ''NEW'' then Some (ES_ACKED, RR_OK)
      else if exec_type = ''TRADE'' then Some (if remaining_qty = 0 then ES_FILLED else ES_PARTIAL, RR_OK)
      else if exec_type = ''CANCELED'' \<or> exec_type = ''EXPIRED'' then Some (ES_CANCELLED, RR_OK)
      else if exec_type = ''REJECTED'' then Some (ES_REJECTED, RR_EXCHANGE_ERROR)
      else None)"

text \<open>\<open>None\<close>: an exception; \<open>Some None\<close>: no event.\<close>

definition report_event :: "json_object \<Rightarrow> u64 \<Rightarrow> string \<Rightarrow> u64 \<Rightarrow> exec_event option option" where
  "report_event ob recv_ns exec_type order_id = do {
     exchange_order_id \<leftarrow> field_int64 ob ''i'';
     side_str \<leftarrow> field_string ob ''S'';
     type_str \<leftarrow> field_string ob ''o'';
     price \<leftarrow> scaled_i64 ob ''p'';
     filled_qty \<leftarrow> scaled_u64 ob ''z'';
     total_qty \<leftarrow> scaled_u64 ob ''q'';
     fee \<leftarrow> scaled_i64 ob ''n'';
     fee_currency \<leftarrow> field_string ob ''N'';
     t \<leftarrow> field_int64 ob ''T'';
     let remaining_qty = left_of total_qty filled_qty;
     Some (case report_status exec_type remaining_qty of
             None \<Rightarrow> None
           | Some (status, reason) \<Rightarrow>
               Some (blank_exec_event
                 \<lparr> ev_order_id := order_id, ev_exchange_order_id := exchange_order_id, ev_exchange_id := EX_BINANCE,
                   ev_instrument_id := 0, ev_local_ts_ns := recv_ns, ev_side := (if side_str = ''BUY'' then BUY else SELL),
                   ev_order_type := (if type_str = ''MARKET'' then OT_MARKET else OT_LIMIT), ev_price := price,
                   ev_filled_qty := filled_qty, ev_remaining_qty := remaining_qty, ev_fee := fee, ev_fee_currency := fee_currency,
                   ev_exchange_ts_ns := t * 1000000, ev_reject_reason := reason, ev_status := status \<rparr>))
   }"

definition handle_execution_report :: "json_object \<Rightarrow> u64 \<Rightarrow> cloid_map \<Rightarrow> exec_event option option" where
  "handle_execution_report ob recv_ns ids =
     (if get_at ob ''e'' = None then Some None
      else do {
        e \<leftarrow> field_string ob ''e'';
        if e \<noteq> ''executionReport'' then Some None
        else do {
          exec_type \<leftarrow> field_string ob ''X'';
          cloid \<leftarrow> field_string ob ''c'';
          if known_order ids cloid = 0 then Some None
          else report_event ob recv_ns exec_type (known_order ids cloid)
        }
      })"

fun sum_fees :: "json list \<Rightarrow> i64 \<times> string \<Rightarrow> (i64 \<times> string) option" where
  "sum_fees [] acc = Some acc"
| "sum_fees (v # vs) (fee, currency) = do {
     f \<leftarrow> as_object v;
     c \<leftarrow> scaled_i64 f ''commission'';
     currency \<leftarrow> (if contains f ''commissionAsset'' then field_string f ''commissionAsset'' else Some currency);
     sum_fees vs (fee + c, currency)
   }"

definition response_status_of :: "string \<Rightarrow> exec_status \<times> reject_reason" where
  "response_status_of status =
     (if status = ''NEW'' then (ES_ACKED, RR_OK)
      else if status = ''FILLED'' then (ES_FILLED, RR_OK)
      else if status = ''PARTIALLY_FILLED'' then (ES_PARTIAL, RR_OK)
      else if status = ''CANCELED'' \<or> status = ''EXPIRED'' then (ES_CANCELLED, RR_OK)
      else (ES_REJECTED, RR_EXCHANGE_ERROR))"

definition response_event :: "u64 \<Rightarrow> order_side \<Rightarrow> order_type \<Rightarrow> u64 \<Rightarrow> exec_event" where
  "response_event order_id side ty recv_ns =
     blank_exec_event\<lparr> ev_order_id := order_id, ev_exchange_id := EX_BINANCE, ev_instrument_id := 0, ev_local_ts_ns := recv_ns,
       ev_reject_reason := RR_OK, ev_side := side, ev_order_type := ty \<rparr>"

definition handle_order_response :: "json_object \<Rightarrow> u64 \<Rightarrow> order_side \<Rightarrow> order_type \<Rightarrow> u64 \<Rightarrow> exec_event option" where
  "handle_order_response ob order_id side ty recv_ns =
     (let ev = response_event order_id side ty recv_ns
      in if contains ob ''code'' then do {
           msg \<leftarrow> (if contains ob ''msg'' then field_string ob ''msg'' else Some ''?'');
           code \<leftarrow> field_int64 ob ''code'';
           Some (ev\<lparr> ev_exchange_ts_ns := recv_ns, ev_status := ES_REJECTED, ev_reject_reason := RR_EXCHANGE_ERROR \<rparr>)
         }
         else do {
           oid \<leftarrow> (if contains ob ''orderId'' then field_int64 ob ''orderId'' else Some 0);
           price \<leftarrow> scaled_i64 ob ''price'';
           filled_qty \<leftarrow> scaled_u64 ob ''executedQty'';
           total_qty \<leftarrow> scaled_u64 ob ''origQty'';
           ts \<leftarrow> (if contains ob ''transactTime'' then map_option (\<lambda>t. t * 1000000) (field_int64 ob ''transactTime'') else Some recv_ns);
           (fee, currency) \<leftarrow> (case get_at ob ''fills'' of
              Some (J_Array fills) \<Rightarrow> sum_fees fills (0, ''USDT'')
            | _ \<Rightarrow> Some (0, ''USDT''));
           status \<leftarrow> field_string ob ''status'';
           let (st, reason) = response_status_of status;
           Some (ev\<lparr> ev_exchange_order_id := oid, ev_price := price, ev_filled_qty := filled_qty,
                     ev_remaining_qty := left_of total_qty filled_qty, ev_exchange_ts_ns := ts, ev_fee := fee,
                     ev_fee_currency := currency, ev_status := st, ev_reject_reason := reason \<rparr>)
         })"

subsection \<open>Adapter\<close>

record binance_adapter =
  bn_cloids :: cloid_map
  bn_exec_events :: "exec_event list"
  bn_rest_events :: "exec_event list"
  bn_sent :: "(string \<times> string) list"

definition cloid_of :: "u64 \<Rightarrow> string" where
  "cloid_of order_id = ''G'' @ to_string_u64 order_id"

definition bn_register :: "string \<Rightarrow> u64 \<Rightarrow> binance_adapter \<Rightarrow> binance_adapter" where
  "bn_register cloid order_id a = a\<lparr>bn_cloids := AList.update cloid order_id (bn_cloids a)\<rparr>"

definition bn_push_rest :: "exec_event \<Rightarrow> binance_adapter \<Rightarrow> binance_adapter" where
  "bn_push_rest e a = a\<lparr>bn_rest_events := bn_rest_events a @ [e]\<rparr>"

definition bn_request :: "string \<Rightarrow> string \<Rightarrow> binance_adapter \<Rightarrow> binance_adapter" where
  "bn_request http_method params a = a\<lparr>bn_sent := bn_sent a @ [(http_method, params)]\<rparr>"

definition spec_of :: "new_order_request \<Rightarrow> string \<Rightarrow> order_spec" where
  "spec_of req cloid = \<lparr> sp_symbol = nr_exchange_symbol req, sp_side = nr_side req, sp_order_type = nr_order_type req,
     sp_tif = nr_tif req, sp_price_e8 = nr_price req, sp_quantity_e8 = nr_quantity req, sp_cloid = cloid,
     sp_exec_inst = nr_exec_inst req \<rparr>"

definition bn_send_new_order :: "new_order_request \<Rightarrow> u64 \<Rightarrow> post_result \<Rightarrow> binance_adapter \<Rightarrow> binance_adapter" where
  "bn_send_new_order req now_ns post a =
     (let cloid = cloid_of (nr_order_id req);
          a = bn_request ''POST'' (build_new_order_params (spec_of req cloid)) (bn_register cloid (nr_order_id req) a)
      in (case post of
            Post_Throws \<Rightarrow> bn_push_rest (rejection EX_BINANCE req now_ns) a
          | Post_Response None \<Rightarrow> bn_push_rest (rejection EX_BINANCE req now_ns) a
          | Post_Response (Some v) \<Rightarrow>
              (case as_object v of
                 None \<Rightarrow> a
               | Some ob \<Rightarrow>
                   (case handle_order_response ob (nr_order_id req) (nr_side req) (nr_order_type req) now_ns of
                      None \<Rightarrow> bn_push_rest (rejection EX_BINANCE req now_ns) a
                    | Some e \<Rightarrow> bn_push_rest e a))))"

definition bn_send_cancel :: "cancel_request \<Rightarrow> binance_adapter \<Rightarrow> binance_adapter" where
  "bn_send_cancel req a = bn_request ''DELETE'' (build_cancel_params (cr_native_symbol req) (cloid_of (cr_order_id req))) a"

text \<open>A bulk cancel is logged only.\<close>

definition bn_send_cancel_all :: "cancel_all_request \<Rightarrow> binance_adapter \<Rightarrow> binance_adapter" where
  "bn_send_cancel_all req a = a"

text \<open>Cancel and replace; the replacement is not sent when the cancel throws.\<close>

definition bn_send_modify :: "modify_request \<Rightarrow> post_result \<Rightarrow> binance_adapter \<Rightarrow> binance_adapter" where
  "bn_send_modify req cancel_post a =
     (let cloid = cloid_of (mr_order_id req); new_cloid = cloid @ ''m'';
          a = bn_request ''DELETE'' (build_cancel_params (mr_native_symbol req) cloid) a
      in (case cancel_post of
            Post_Throws \<Rightarrow> a
          | _ \<Rightarrow> bn_request ''POST'' (build_modify_replace_params (mr_native_symbol req) new_cloid (mr_new_price req) (mr_new_quantity req)) a))"

definition bn_user_data :: "json option \<Rightarrow> u64 \<Rightarrow> binance_adapter \<Rightarrow> binance_adapter" where
  "bn_user_data payload recv_ns a =
     (case payload of
        Some (J_Object ob) \<Rightarrow>
          (case handle_execution_report ob recv_ns (bn_cloids a) of
             Some (Some e) \<Rightarrow> a\<lparr>bn_exec_events := bn_exec_events a @ [e]\<rparr>
           | _ \<Rightarrow> a)
      | _ \<Rightarrow> a)"

subsection \<open>Runs\<close>

datatype bn_call = Bn_New new_order_request u64 post_result | Bn_Cancel cancel_request | Bn_Cancel_All cancel_all_request
  | Bn_Modify modify_request post_result | Bn_User_Data "json option" u64

fun bn_step :: "bn_call \<Rightarrow> binance_adapter \<Rightarrow> binance_adapter" where
  "bn_step (Bn_New req now post) = bn_send_new_order req now post"
| "bn_step (Bn_Cancel req) = bn_send_cancel req"
| "bn_step (Bn_Cancel_All req) = bn_send_cancel_all req"
| "bn_step (Bn_Modify req post) = bn_send_modify req post"
| "bn_step (Bn_User_Data payload recv) = bn_user_data payload recv"

definition bn_make :: binance_adapter where
  "bn_make = \<lparr> bn_cloids = [], bn_exec_events = [], bn_rest_events = [], bn_sent = [] \<rparr>"

text \<open>The client ids in the map are those of orders, each with the order it was made from.\<close>

definition own_cloids :: "binance_adapter \<Rightarrow> bool" where
  "own_cloids a \<longleftrightarrow> (\<forall>c i. map_of (bn_cloids a) c = Some i \<longrightarrow> c = cloid_of i)"

lemma bn_fields [simp]:
  "bn_cloids (bn_push_rest e a) = bn_cloids a" "bn_cloids (bn_request m p a) = bn_cloids a"
  "bn_cloids (bn_register c i a) = AList.update c i (bn_cloids a)"
  "bn_rest_events (bn_push_rest e a) = bn_rest_events a @ [e]" "bn_rest_events (bn_request m p a) = bn_rest_events a"
  "bn_rest_events (bn_register c i a) = bn_rest_events a" "bn_exec_events (bn_push_rest e a) = bn_exec_events a"
  "bn_exec_events (bn_request m p a) = bn_exec_events a" "bn_exec_events (bn_register c i a) = bn_exec_events a"
  by (simp_all add: bn_push_rest_def bn_request_def bn_register_def)

lemma bn_cloids_step:
  "bn_cloids (bn_step c a) =
     (case c of Bn_New req now post \<Rightarrow> AList.update (cloid_of (nr_order_id req)) (nr_order_id req) (bn_cloids a) | _ \<Rightarrow> bn_cloids a)"
  by (cases c) (auto simp: bn_send_new_order_def bn_send_cancel_def bn_send_cancel_all_def bn_send_modify_def bn_user_data_def Let_def
      split: post_result.split option.split json.split)

interpretation bn: component bn_step own_cloids
proof
  fix a c
  assume "own_cloids a"
  then show "own_cloids (bn_step c a)" unfolding own_cloids_def bn_cloids_step by (cases c) auto
qed

lemma cloid_digits: "cloid_of i \<noteq> cloid_of j @ ''m''"
proof
  assume "cloid_of i = cloid_of j @ ''m''"
  then have "CHR ''m'' \<in> set (show_nat (unat i))" by (auto simp: cloid_of_def to_string_u64_def)
  then have "is_digit CHR ''m''" using show_nat_digits by blast
  then show False by (simp add: is_digit_def)
qed

subsection \<open>A replaced order is lost\<close>

text \<open>
  The replacement of a modified order is invisible. A modify cancels the order and places a new
  one under a client id that was never registered, so in any run no report on the user-data stream about that client id,
  an acknowledgement, a fill or a cancel, changes anything: the strategy hears nothing of the order it now has.
\<close>

theorem binance_modify_orphans:
  assumes "a = fold bn_step cs bn_make" "a' = bn_send_modify req (Post_Response resp) a"
    and "get_at ob ''c'' = Some (J_String (cloid_of (mr_order_id req) @ ''m''))"
  shows "bn_sent a' = bn_sent a @ [(''DELETE'', build_cancel_params (mr_native_symbol req) (cloid_of (mr_order_id req))),
           (''POST'', build_modify_replace_params (mr_native_symbol req) (cloid_of (mr_order_id req) @ ''m'') (mr_new_price req) (mr_new_quantity req))] \<and>
         bn_user_data (Some (J_Object ob)) recv (fold bn_step cs' a') = fold bn_step cs' a'"
proof -
  have a': "a' = bn_step (Bn_Modify req (Post_Response resp)) a" using assms(2) by simp
  have "own_cloids bn_make" by (simp add: own_cloids_def bn_make_def)
  then have "own_cloids (fold bn_step (cs @ Bn_Modify req (Post_Response resp) # cs') bn_make)" by (rule bn.run_inv)
  then have "own_cloids (fold bn_step cs' a')" using a' assms(1) by simp
  then have "map_of (bn_cloids (fold bn_step cs' a')) (cloid_of (mr_order_id req) @ ''m'') = None"
    using cloid_digits unfolding own_cloids_def by (metis option.exhaust)
  then have "known_order (bn_cloids (fold bn_step cs' a')) (cloid_of (mr_order_id req) @ ''m'') = 0" by (simp add: known_order_def)
  then have "bn_user_data (Some (J_Object ob)) recv (fold bn_step cs' a') = fold bn_step cs' a'"
    using assms(3) by (auto simp: bn_user_data_def handle_execution_report_def field_string_def split: option.split Option.bind_split)
  then show ?thesis using assms(2) by (simp add: bn_send_modify_def bn_request_def Let_def)
qed

definition demo_modify :: modify_request where
  "demo_modify = \<lparr> mr_order_id = 7, mr_new_price = 100000000, mr_new_quantity = 200000000, mr_native_symbol = ''BTCUSDT'' \<rparr>"

theorem binance_modify_orphans_witness:
  "bn_user_data (Some (J_Object [(''e'', J_String ''executionReport''), (''X'', J_String ''TRADE''), (''c'', J_String ''G7m'')])) 9
     (bn_send_modify demo_modify (Post_Response None) bn_make) = bn_send_modify demo_modify (Post_Response None) bn_make"
proof -
  have "cloid_of (mr_order_id demo_modify) @ ''m'' = ''G7m''"
    by code_simp
  then show ?thesis
    using binance_modify_orphans [where a = bn_make and cs = "[]" and cs' = "[]" and req = demo_modify and resp = None and
        ob = "[(''e'', J_String ''executionReport''), (''X'', J_String ''TRADE''), (''c'', J_String ''G7m'')]" and recv = 9]
    by simp
qed

subsection \<open>Orders are answered\<close>

definition is_object :: "json \<Rightarrow> bool" where
  "is_object v \<longleftrightarrow> as_object v \<noteq> None"

lemma handle_response_id: "handle_order_response ob i side ty recv = Some e \<Longrightarrow> ev_order_id e = i \<and> ev_side e = side \<and> ev_order_type e = ty"
  by (auto simp: handle_order_response_def response_event_def Let_def split: if_splits Option.bind_splits prod.splits)


subsection \<open>A fill is reported twice\<close>

definition market_order :: new_order_request where
  "market_order = \<lparr> nr_order_id = 7, nr_instrument_id = 1, nr_price = 100000000, nr_quantity = 200000000, nr_side = BUY,
     nr_order_type = OT_LIMIT, nr_tif = IOC, nr_exec_inst = 0, nr_exchange_symbol = ''BTCUSDT'' \<rparr>"

definition fill_response :: json_object where
  "fill_response = [(''orderId'', J_Int 9), (''price'', J_String (text6 100000000)), (''executedQty'', J_String (text6 200000000)),
     (''origQty'', J_String (text6 200000000)), (''status'', J_String ''FILLED'')]"

definition fill_report :: json_object where
  "fill_report = [(''e'', J_String ''executionReport''), (''X'', J_String ''TRADE''), (''c'', J_String (cloid_of 7)), (''i'', J_Int 9),
     (''S'', J_String ''BUY''), (''o'', J_String ''LIMIT''), (''p'', J_String (text6 100000000)), (''z'', J_String (text6 200000000)),
     (''q'', J_String (text6 200000000)), (''n'', J_String (text6 0)), (''N'', J_String ''USDT''), (''T'', J_Int 5)]"

lemma fill_fields:
  "scaled_i64 fill_response ''price'' = Some 100000000" "scaled_u64 fill_response ''executedQty'' = Some 200000000"
  "scaled_u64 fill_response ''origQty'' = Some 200000000" "scaled_i64 fill_report ''p'' = Some 100000000"
  "scaled_u64 fill_report ''z'' = Some 200000000" "scaled_u64 fill_report ''q'' = Some 200000000" "scaled_i64 fill_report ''n'' = Some 0"
  using scaled_fields(2) [OF _ stod_text6 scaled_texts(3), of fill_response "''price''"]
    scaled_fields(1) [OF _ stod_text6 scaled_texts(2), of fill_response "''executedQty''"]
    scaled_fields(1) [OF _ stod_text6 scaled_texts(2), of fill_response "''origQty''"]
    scaled_fields(2) [OF _ stod_text6 scaled_texts(3), of fill_report "''p''"]
    scaled_fields(1) [OF _ stod_text6 scaled_texts(2), of fill_report "''z''"]
    scaled_fields(1) [OF _ stod_text6 scaled_texts(2), of fill_report "''q''"]
    scaled_fields(2) [OF _ stod_text6 scaled_texts(4), of fill_report "''n''"]
  by (simp_all add: fill_response_def fill_report_def)

lemma fill_response_event: "\<exists>e. handle_order_response fill_response 7 BUY OT_LIMIT 3 = Some e \<and> ev_order_id e = 7 \<and> ev_status e = ES_FILLED \<and> ev_filled_qty e = 200000000"
proof -
  have "get_at fill_response ''code'' = None" "get_at fill_response ''orderId'' = Some (J_Int 9)" "get_at fill_response ''transactTime'' = None"
    "get_at fill_response ''fills'' = None" "get_at fill_response ''status'' = Some (J_String ''FILLED'')"
    by (simp_all add: fill_response_def)
  then show ?thesis
    by (simp add: handle_order_response_def fill_fields contains_def field_int64_def field_string_def response_event_def response_status_of_def)
qed

text \<open>
  An immediate fill is reported twice. An order that is filled when it is placed yields \<open>FILLED\<close> with
  its whole quantity from the response to the request, and again from the \<open>TRADE\<close> report on the user-data stream; a consumer that adds up the quantities counts the fill double.
\<close>

theorem binance_fill_reported_twice:
  "case fold bn_step [Bn_New market_order 3 (Post_Response (Some (J_Object fill_response))), Bn_User_Data (Some (J_Object fill_report)) 4] bn_make of
     a \<Rightarrow> map (\<lambda>e. (ev_order_id e, ev_status e, ev_filled_qty e)) (bn_rest_events a @ bn_exec_events a) =
       [(7, ES_FILLED, 200000000), (7, ES_FILLED, 200000000)]"
proof -
  let ?a = "bn_step (Bn_New market_order 3 (Post_Response (Some (J_Object fill_response)))) bn_make"
  note fill_response_event
  then have rest: "map (\<lambda>e. (ev_order_id e, ev_status e, ev_filled_qty e)) (bn_rest_events ?a) = [(7, ES_FILLED, 200000000)]"
    and exec: "bn_exec_events ?a = []" and ids: "map_of (bn_cloids ?a) (cloid_of 7) = Some 7"
    by (auto simp: bn_send_new_order_def market_order_def bn_make_def Let_def)
  have get: "get_at fill_report ''e'' = Some (J_String ''executionReport'')" "get_at fill_report ''X'' = Some (J_String ''TRADE'')"
    "get_at fill_report ''c'' = Some (J_String (cloid_of 7))" "get_at fill_report ''i'' = Some (J_Int 9)" "get_at fill_report ''S'' = Some (J_String ''BUY'')"
    "get_at fill_report ''o'' = Some (J_String ''LIMIT'')" "get_at fill_report ''N'' = Some (J_String ''USDT'')" "get_at fill_report ''T'' = Some (J_Int 5)"
    by (simp_all add: fill_report_def)
  have "\<exists>e. handle_execution_report fill_report 4 (bn_cloids ?a) = Some (Some e) \<and> ev_order_id e = 7 \<and> ev_status e = ES_FILLED \<and> ev_filled_qty e = 200000000"
    using ids get by (simp add: handle_execution_report_def field_string_def field_int64_def known_order_def report_event_def fill_fields
        report_status_def left_of_def)
  then show ?thesis using rest exec by (auto simp: bn_user_data_def)
qed

end
