(* ===== verification/Okx_Adapter.thy ===== *)
theory Okx_Adapter
  imports Venue_Text "HOL-Library.Sublist"
begin

text \<open>
  The OKX adapter (\<open>src/bpt-order-gateway/src/adapter/okx/\<close>): the messages it sends
  (\<open>okx_action_encoder.cpp\<close>), the instruments it loads (\<open>okx_instruments_service.cpp\<close>), the decoder of
  acknowledgements and of the orders channel (\<open>okx_exec_decoder.cpp\<close>) and the order path
  (\<open>okx_order_adapter.cpp\<close>). The theorems: what the suppression of duplicates achieves and where a reconnect
  undoes it, and what the remaining quantity is worth.
\<close>

subsection \<open>Messages\<close>

record okx_spec =
  ok_inst_id :: string
  ok_side :: order_side
  ok_order_type :: order_type
  ok_tif :: time_in_force
  ok_price_e8 :: i64
  ok_quantity_e8 :: u64
  ok_cloid :: string
  ok_exec_inst :: u8

type_synonym inst_id_codes = "(string, i64) umap"
type_synonym contract_sizes = "(string, double) umap"

definition okx_side_str :: "order_side \<Rightarrow> string" where
  "okx_side_str s = (if s = BUY then ''buy'' else ''sell'')"

definition ord_type_str :: "order_type \<Rightarrow> u8 \<Rightarrow> string" where
  "ord_type_str t exec_inst =
     (if t = OT_MARKET then ''market'' else if exec_inst AND 1 \<noteq> 0 then ''post_only'' else ''limit'')"

definition contract_size :: "contract_sizes \<Rightarrow> string \<Rightarrow> double" where
  "contract_size sizes inst_id = (case map_of sizes inst_id of Some c \<Rightarrow> c | None \<Rightarrow> Fin 1)"

definition size_to_contracts :: "u64 \<Rightarrow> string \<Rightarrow> contract_sizes \<Rightarrow> string" where
  "size_to_contracts quantity_e8 inst_id sizes =
     (let qty_base = d_of_int (uint quantity_e8) div e8 in to_string_double (qty_base div contract_size sizes inst_id))"

definition td_mode_for :: "string \<Rightarrow> string" where
  "td_mode_for inst_id = (if sublist ''-SWAP'' inst_id \<or> sublist ''-FUTURES'' inst_id then ''cross'' else ''cash'')"

definition price_to_string :: "i64 \<Rightarrow> string" where
  "price_to_string price_e8 = to_string_double (d_of_int (sint price_e8) div e8)"

definition okx_order_arg :: "okx_spec \<Rightarrow> inst_id_codes \<Rightarrow> contract_sizes \<Rightarrow> json_object" where
  "okx_order_arg spec codes sizes =
     [(''instId'', J_String (ok_inst_id spec))] @
     (case map_of codes (ok_inst_id spec) of Some c \<Rightarrow> [(''instIdCode'', J_Int c)] | None \<Rightarrow> []) @
     [(''tdMode'', J_String (td_mode_for (ok_inst_id spec))), (''side'', J_String (okx_side_str (ok_side spec))),
      (''ordType'', J_String (ord_type_str (ok_order_type spec) (ok_exec_inst spec))),
      (''sz'', J_String (size_to_contracts (ok_quantity_e8 spec) (ok_inst_id spec) sizes)),
      (''clOrdId'', J_String (ok_cloid spec))] @
     (if ok_order_type spec \<noteq> OT_MARKET then [(''px'', J_String (price_to_string (ok_price_e8 spec)))] else [])"

definition okx_build_order_action :: "okx_spec \<Rightarrow> u64 \<Rightarrow> inst_id_codes \<Rightarrow> contract_sizes \<Rightarrow> json" where
  "okx_build_order_action spec req_id codes sizes =
     J_Object [(''id'', J_String (''r'' @ to_string_u64 req_id)), (''op'', J_String ''order''),
       (''args'', J_Array [J_Object (okx_order_arg spec codes sizes)])]"

definition okx_build_cancel_action :: "string \<Rightarrow> string \<Rightarrow> u64 \<Rightarrow> json" where
  "okx_build_cancel_action inst_id cloid req_id =
     J_Object [(''id'', J_String (''c'' @ to_string_u64 req_id)), (''op'', J_String ''cancel-order''),
       (''args'', J_Array [J_Object [(''instId'', J_String inst_id), (''clOrdId'', J_String cloid)]])]"

definition okx_build_modify_action :: "string \<Rightarrow> string \<Rightarrow> i64 \<Rightarrow> u64 \<Rightarrow> contract_sizes \<Rightarrow> json" where
  "okx_build_modify_action inst_id cloid new_price_e8 new_quantity_e8 sizes =
     J_Object [(''op'', J_String ''amend-order''),
       (''args'', J_Array [J_Object [(''instId'', J_String inst_id), (''clOrdId'', J_String cloid),
          (''newPx'', J_String (price_to_string new_price_e8)), (''newSz'', J_String (size_to_contracts new_quantity_e8 inst_id sizes))]])]"

subsection \<open>Instruments\<close>

definition instrument_code :: "json \<Rightarrow> i64 option" where
  "instrument_code v =
     (case v of J_Int n \<Rightarrow> Some n
      | _ \<Rightarrow> do {
          s \<leftarrow> as_string v;
          let (sg, t) = split_sign (dropWhile is_space s);
          let ds = takeWhile is_digit t;
          let n = (if sg < 0 then - int (dec_value ds) else int (dec_value ds));
          if ds = [] \<or> n < - (2 ^ 63) \<or> 2 ^ 63 \<le> n then None else Some (word_of_int n)
        })"

definition contract_value :: "bool \<Rightarrow> json_object \<Rightarrow> double option" where
  "contract_value is_contract_type d =
     (if is_contract_type then
        (case get_at d ''ctVal'' of Some (J_String sv) \<Rightarrow> if sv = [] then Some (Fin 1) else stod sv | _ \<Rightarrow> Some (Fin 1))
      else Some (Fin 1))"

text \<open>The items of one type; an exception keeps what was stored before it, the code of the item included.\<close>

fun instrument_items :: "bool \<Rightarrow> json list \<Rightarrow> inst_id_codes \<times> contract_sizes \<Rightarrow> inst_id_codes \<times> contract_sizes" where
  "instrument_items ct [] st = st"
| "instrument_items ct (v # vs) (codes, sizes) =
     (case as_object v of
        None \<Rightarrow> (codes, sizes)
      | Some d \<Rightarrow>
          (case (get_at d ''instId'', get_at d ''instIdCode'') of
             (Some id_v, Some code_v) \<Rightarrow>
               (case (as_string id_v, instrument_code code_v) of
                  (Some inst_id, Some code) \<Rightarrow>
                    (case contract_value ct d of
                       None \<Rightarrow> (AList.update inst_id code codes, sizes)
                     | Some ctval \<Rightarrow> instrument_items ct vs (AList.update inst_id code codes, AList.update inst_id ctval sizes))
                | _ \<Rightarrow> (codes, sizes))
           | _ \<Rightarrow> instrument_items ct vs (codes, sizes)))"

definition inst_types :: "string list" where "inst_types = [''SPOT'', ''SWAP'', ''FUTURES'', ''MARGIN'']"

definition fetch_one :: "string \<Rightarrow> post_result \<Rightarrow> inst_id_codes \<times> contract_sizes \<Rightarrow> inst_id_codes \<times> contract_sizes" where
  "fetch_one inst_type resp st =
     (case resp of
        Post_Response (Some (J_Object rt)) \<Rightarrow>
          (case get_at rt ''data'' of
             Some (J_Array items) \<Rightarrow> instrument_items (inst_type \<in> {''SWAP'', ''FUTURES'', ''OPTION''}) items st
           | _ \<Rightarrow> st)
      | _ \<Rightarrow> st)"

definition okx_fetch :: "(string \<Rightarrow> post_result) \<Rightarrow> inst_id_codes \<times> contract_sizes" where
  "okx_fetch get = fold (\<lambda>t. fetch_one t (get t)) inst_types ([], [])"

subsection \<open>Decoder\<close>

record okx_decoder =
  od_cloids :: "(string, u64) umap"
  od_acked :: "u64 list"
  od_cancelled :: "u64 list"
  od_contract_sizes :: contract_sizes

definition od_register_order :: "string \<Rightarrow> u64 \<Rightarrow> okx_decoder \<Rightarrow> okx_decoder" where
  "od_register_order cloid order_id dec = dec\<lparr>od_cloids := AList.update cloid order_id (od_cloids dec)\<rparr>"

definition od_reset :: "okx_decoder \<Rightarrow> okx_decoder" where
  "od_reset dec = dec\<lparr>od_acked := [], od_cancelled := []\<rparr>"

definition od_order_id :: "okx_decoder \<Rightarrow> string \<Rightarrow> u64" where
  "od_order_id dec cloid = (case map_of (od_cloids dec) cloid of Some i \<Rightarrow> i | None \<Rightarrow> 0)"

definition optional_string :: "json_object \<Rightarrow> string \<Rightarrow> string option" where
  "optional_string d key = (if contains d key then field_string d key else Some [])"

text \<open>\<open>None\<close>: an exception; \<open>Some None\<close>: no event.\<close>

definition handle_order_ack :: "json_object \<Rightarrow> u64 \<Rightarrow> okx_decoder \<Rightarrow> exec_event option option" where
  "handle_order_ack d recv_ns dec = do {
     cloid \<leftarrow> optional_string d ''clOrdId'';
     let order_id = od_order_id dec cloid;
     if order_id = 0 then Some None
     else do {
       s_code \<leftarrow> optional_string d ''sCode'';
       s_msg \<leftarrow> optional_string d ''sMsg'';
       if s_code = ''0'' then do {
         oid_str \<leftarrow> optional_string d ''ordId'';
         exch_oid \<leftarrow> (if oid_str = [] then Some 0 else stoull oid_str);
         Some None
       }
       else Some (Some (blank_exec_event
         \<lparr> ev_order_id := order_id, ev_exchange_id := EX_OKX, ev_instrument_id := 0, ev_local_ts_ns := recv_ns,
           ev_exchange_ts_ns := recv_ns, ev_side := BUY, ev_status := ES_REJECTED, ev_reject_reason := RR_EXCHANGE_ERROR \<rparr>))
     }
   }"

text \<open>A number of contracts as a base quantity, rounded.\<close>

definition contracts_e8 :: "json_object \<Rightarrow> string \<Rightarrow> double \<Rightarrow> u64 option" where
  "contracts_e8 d key ctval = do {
     s \<leftarrow> field_string d key; n \<leftarrow> stod s;
     q \<leftarrow> d_to_int 0 (2 ^ 64) (std_round (n * ctval * e8));
     Some (word_of_int q)
   }"

definition state_status :: "string \<Rightarrow> exec_status \<times> reject_reason" where
  "state_status state =
     (if state = ''live'' then (ES_ACKED, RR_OK)
      else if state = ''partially_filled'' then (ES_PARTIAL, RR_OK)
      else if state = ''filled'' then (ES_FILLED, RR_OK)
      else if state = ''canceled'' then (ES_CANCELLED, RR_OK)
      else (ES_REJECTED, RR_EXCHANGE_ERROR))"

definition channel_event :: "json_object \<Rightarrow> u64 \<Rightarrow> u64 \<Rightarrow> contract_sizes \<Rightarrow> exec_event option" where
  "channel_event d recv_ns order_id sizes = do {
     exchange_order_id \<leftarrow> Option.bind (field_string d ''ordId'') stoull;
     side_str \<leftarrow> field_string d ''side'';
     ord_type \<leftarrow> field_string d ''ordType'';
     price \<leftarrow> scaled_i64 d ''px'';
     inst_id_str \<leftarrow> field_string d ''instId'';
     let ctval = contract_size sizes inst_id_str;
     filled_qty \<leftarrow> contracts_e8 d ''fillSz'' ctval;
     total_qty \<leftarrow> contracts_e8 d ''sz'' ctval;
     fee \<leftarrow> scaled_i64 d ''fee'';
     fee_currency \<leftarrow> field_string d ''feeCcy'';
     ts \<leftarrow> (if contains d ''uTime'' then map_option (\<lambda>t. t * 1000000) (Option.bind (field_string d ''uTime'') stoull) else Some recv_ns);
     state \<leftarrow> field_string d ''state'';
     let (status, reason) = state_status state;
     Some (blank_exec_event
       \<lparr> ev_order_id := order_id, ev_exchange_order_id := exchange_order_id, ev_exchange_id := EX_OKX, ev_instrument_id := 0,
         ev_local_ts_ns := recv_ns, ev_reject_reason := reason, ev_side := (if side_str = ''buy'' then BUY else SELL),
         ev_order_type := (if ord_type = ''market'' then OT_MARKET else OT_LIMIT), ev_price := price, ev_filled_qty := filled_qty,
         ev_remaining_qty := left_of total_qty filled_qty, ev_fee := fee, ev_fee_currency := fee_currency,
         ev_exchange_ts_ns := ts, ev_status := status \<rparr>)
   }"

text \<open>The sets of orders already acknowledged and cancelled: whether an event passes, and the sets after it.\<close>

definition suppress :: "exec_event \<Rightarrow> okx_decoder \<Rightarrow> bool \<times> okx_decoder" where
  "suppress e dec =
     (let i = ev_order_id e
      in if ev_status e = ES_ACKED then
           (if i \<in> set (od_acked dec) then (False, dec) else (True, dec\<lparr>od_acked := i # od_acked dec\<rparr>))
         else if ev_status e = ES_CANCELLED then
           (if i \<in> set (od_cancelled dec) then (False, dec)
            else (True, dec\<lparr>od_cancelled := i # od_cancelled dec, od_acked := removeAll i (od_acked dec)\<rparr>))
         else (True, dec\<lparr>od_acked := removeAll i (od_acked dec)\<rparr>))"

text \<open>\<open>None\<close>: an exception.\<close>

definition handle_orders_channel_item :: "json_object \<Rightarrow> u64 \<Rightarrow> okx_decoder \<Rightarrow> (exec_event option \<times> okx_decoder) option" where
  "handle_orders_channel_item d recv_ns dec = do {
     cloid \<leftarrow> field_string d ''clOrdId'';
     let order_id = od_order_id dec cloid;
     if order_id = 0 then Some (None, dec)
     else do {
       e \<leftarrow> channel_event d recv_ns order_id (od_contract_sizes dec);
       let (pass, dec) = suppress e dec;
       Some (if pass then Some e else None, dec)
     }
   }"

text \<open>The items of one push; an exception ends it.\<close>

fun channel_items :: "json list \<Rightarrow> u64 \<Rightarrow> okx_decoder \<Rightarrow> exec_event list \<times> okx_decoder" where
  "channel_items [] recv_ns dec = ([], dec)"
| "channel_items (v # vs) recv_ns dec =
     (case Option.bind (as_object v) (\<lambda>d. handle_orders_channel_item d recv_ns dec) of
        None \<Rightarrow> ([], dec)
      | Some (e, dec) \<Rightarrow>
          (let (es, dec) = channel_items vs recv_ns dec in ((case e of Some e \<Rightarrow> e # es | None \<Rightarrow> es), dec)))"

fun ack_items :: "json list \<Rightarrow> u64 \<Rightarrow> okx_decoder \<Rightarrow> exec_event list" where
  "ack_items [] recv_ns dec = []"
| "ack_items (v # vs) recv_ns dec =
     (case Option.bind (as_object v) (\<lambda>d. handle_order_ack d recv_ns dec) of
        None \<Rightarrow> []
      | Some e \<Rightarrow> (case e of Some e \<Rightarrow> e # ack_items vs recv_ns dec | None \<Rightarrow> ack_items vs recv_ns dec))"

subsection \<open>Adapter\<close>

record okx_adapter =
  okx_prefix :: string
  okx_logged_in :: bool
  okx_codes :: inst_id_codes
  okx_sizes :: contract_sizes
  okx_decoder :: okx_decoder
  okx_ws_req_id :: u64
  okx_exec_events :: "exec_event list"
  okx_rest_events :: "exec_event list"
  okx_sent :: "json list"

definition okx_emit :: "exec_event list \<Rightarrow> okx_adapter \<Rightarrow> okx_adapter" where
  "okx_emit es a = a\<lparr>okx_exec_events := okx_exec_events a @ es\<rparr>"

definition subscribe_orders :: json where
  "subscribe_orders = J_Object [(''op'', J_String ''subscribe''),
     (''args'', J_Array [J_Object [(''channel'', J_String ''orders''), (''instType'', J_String ''ANY'')]])]"

definition on_event :: "json_object \<Rightarrow> okx_adapter \<Rightarrow> okx_adapter" where
  "on_event ob a =
     (case field_string ob ''event'' of
        Some event \<Rightarrow> if event = ''login'' then a\<lparr>okx_logged_in := True, okx_sent := okx_sent a @ [subscribe_orders]\<rparr> else a
      | None \<Rightarrow> a)"

definition orders_push :: "json list \<Rightarrow> u64 \<Rightarrow> okx_adapter \<Rightarrow> okx_adapter" where
  "orders_push items recv_ns a =
     (let (es, dec) = channel_items items recv_ns (okx_decoder a) in okx_emit es (a\<lparr>okx_decoder := dec\<rparr>))"

definition on_channel :: "json_object \<Rightarrow> u64 \<Rightarrow> okx_adapter \<Rightarrow> okx_adapter" where
  "on_channel ob recv_ns a =
     (case do {
        arg \<leftarrow> get_at ob ''arg''; data \<leftarrow> get_at ob ''data''; items \<leftarrow> as_array data;
        r \<leftarrow> as_object arg; channel \<leftarrow> field_string r ''channel'';
        Some (channel, items)
      } of
        Some (channel, items) \<Rightarrow> if items \<noteq> [] \<and> channel = ''orders'' then orders_push items recv_ns a else a
      | None \<Rightarrow> a)"

definition on_op :: "json_object \<Rightarrow> u64 \<Rightarrow> okx_adapter \<Rightarrow> okx_adapter" where
  "on_op ob recv_ns a =
     (case do { op \<leftarrow> field_string ob ''op''; data \<leftarrow> get_at ob ''data''; items \<leftarrow> as_array data; Some (op, items) } of
        Some (op, items) \<Rightarrow> if op = ''order'' then okx_emit (ack_items items recv_ns (okx_decoder a)) a else a
      | None \<Rightarrow> a)"

text \<open>A frame of the stream; where the code throws, the frame ends with what was done before.\<close>

definition okx_handle_message :: "json option \<Rightarrow> u64 \<Rightarrow> okx_adapter \<Rightarrow> okx_adapter" where
  "okx_handle_message payload recv_ns a =
     (case Option.bind payload as_object of
        Some ob \<Rightarrow>
          if contains ob ''event'' then on_event ob a
          else if contains ob ''op'' then on_op ob recv_ns a
          else on_channel ob recv_ns a
      | None \<Rightarrow> a)"

text \<open>A new session: the connection itself is a parameter.\<close>

definition okx_connect :: "okx_adapter \<Rightarrow> okx_adapter" where
  "okx_connect a = a\<lparr>okx_logged_in := False, okx_decoder := od_reset (okx_decoder a)\<rparr>"

definition okx_cloid :: "okx_adapter \<Rightarrow> u64 \<Rightarrow> string" where
  "okx_cloid a order_id = okx_prefix a @ ''G'' @ to_string_u64 order_id"

definition okx_spec_of :: "new_order_request \<Rightarrow> string \<Rightarrow> okx_spec" where
  "okx_spec_of req cloid = \<lparr> ok_inst_id = nr_exchange_symbol req, ok_side = nr_side req, ok_order_type = nr_order_type req,
     ok_tif = nr_tif req, ok_price_e8 = nr_price req, ok_quantity_e8 = nr_quantity req, ok_cloid = cloid, ok_exec_inst = nr_exec_inst req \<rparr>"

text \<open>\<open>sent\<close>: whether the socket took the frame; a send that throws counts as not taken.\<close>

definition okx_send_new_order :: "new_order_request \<Rightarrow> u64 \<Rightarrow> bool \<Rightarrow> okx_adapter \<Rightarrow> okx_adapter" where
  "okx_send_new_order req now_ns sent a =
     (let cloid = okx_cloid a (nr_order_id req);
          frame = okx_build_order_action (okx_spec_of req cloid) (okx_ws_req_id a) (okx_codes a) (okx_sizes a);
          a = a\<lparr>okx_decoder := od_register_order cloid (nr_order_id req) (okx_decoder a), okx_ws_req_id := okx_ws_req_id a + 1\<rparr>
      in if sent then a\<lparr>okx_sent := okx_sent a @ [frame]\<rparr>
         else a\<lparr>okx_rest_events := okx_rest_events a @ [rejection EX_OKX req now_ns]\<rparr>)"

definition okx_send_cancel :: "cancel_request \<Rightarrow> bool \<Rightarrow> okx_adapter \<Rightarrow> okx_adapter" where
  "okx_send_cancel req sent a =
     (let frame = okx_build_cancel_action (cr_native_symbol req) (okx_cloid a (cr_order_id req)) (okx_ws_req_id a);
          a = a\<lparr>okx_ws_req_id := okx_ws_req_id a + 1\<rparr>
      in if sent then a\<lparr>okx_sent := okx_sent a @ [frame]\<rparr> else a)"

definition okx_send_cancel_all :: "cancel_all_request \<Rightarrow> okx_adapter \<Rightarrow> okx_adapter" where
  "okx_send_cancel_all req a = a"

definition okx_send_modify :: "modify_request \<Rightarrow> bool \<Rightarrow> okx_adapter \<Rightarrow> okx_adapter" where
  "okx_send_modify req sent a =
     (let frame = okx_build_modify_action (mr_native_symbol req) (okx_cloid a (mr_order_id req)) (mr_new_price req) (mr_new_quantity req)
                    (okx_sizes a)
      in if sent then a\<lparr>okx_sent := okx_sent a @ [frame]\<rparr> else a)"

subsection \<open>Runs\<close>

datatype okx_call = Okx_Message "json option" u64 | Okx_Connect | Okx_New new_order_request u64 bool | Okx_Cancel cancel_request bool
  | Okx_Cancel_All cancel_all_request | Okx_Modify modify_request bool

fun okx_step :: "okx_call \<Rightarrow> okx_adapter \<Rightarrow> okx_adapter" where
  "okx_step (Okx_Message payload recv) = okx_handle_message payload recv"
| "okx_step Okx_Connect = okx_connect"
| "okx_step (Okx_New req now sent) = okx_send_new_order req now sent"
| "okx_step (Okx_Cancel req sent) = okx_send_cancel req sent"
| "okx_step (Okx_Cancel_All req) = okx_send_cancel_all req"
| "okx_step (Okx_Modify req sent) = okx_send_modify req sent"

text \<open>Without TLS (a simulation) nothing is fetched, which is the case where every request throws.\<close>

definition okx_make :: "string \<Rightarrow> (string \<Rightarrow> post_result) \<Rightarrow> okx_adapter" where
  "okx_make session get =
     (let (codes, sizes) = okx_fetch get
      in \<lparr> okx_prefix = session, okx_logged_in = False, okx_codes = codes, okx_sizes = sizes,
           okx_decoder = \<lparr> od_cloids = [], od_acked = [], od_cancelled = [], od_contract_sizes = sizes \<rparr>, okx_ws_req_id = 1,
           okx_exec_events = [], okx_rest_events = [], okx_sent = [] \<rparr>)"

subsection \<open>Duplicates within a session\<close>

definition events_of :: "u64 \<Rightarrow> exec_event list \<Rightarrow> exec_event list" where
  "events_of i = filter (\<lambda>e. ev_order_id e = i)"

definition cancels :: "exec_event list \<Rightarrow> u64 list" where
  "cancels es = map ev_order_id (filter (\<lambda>e. ev_status e = ES_CANCELLED) es)"

definition no_double_ack :: "exec_event list \<Rightarrow> bool" where
  "no_double_ack = successively (\<lambda>e f. ev_status e \<noteq> ES_ACKED \<or> ev_status f \<noteq> ES_ACKED)"

text \<open>The events so far and the sets of the decoder agree.\<close>

definition agree :: "exec_event list \<Rightarrow> okx_decoder \<Rightarrow> bool" where
  "agree es dec \<longleftrightarrow>
     distinct (cancels es) \<and> set (cancels es) \<subseteq> set (od_cancelled dec) \<and>
     (\<forall>i. no_double_ack (events_of i es) \<and>
        (events_of i es \<noteq> [] \<longrightarrow> ev_status (last (events_of i es)) = ES_ACKED \<longrightarrow> i \<in> set (od_acked dec)))"

lemma events_of_snoc: "events_of i (es @ [e]) = (if ev_order_id e = i then events_of i es @ [e] else events_of i es)"
  by (simp add: events_of_def)

lemma cancels_snoc: "cancels (es @ [e]) = (if ev_status e = ES_CANCELLED then cancels es @ [ev_order_id e] else cancels es)"
  by (simp add: cancels_def)

lemma no_double_ack_snoc:
  "no_double_ack (es @ [e]) \<longleftrightarrow> no_double_ack es \<and> (es = [] \<or> ev_status (last es) \<noteq> ES_ACKED \<or> ev_status e \<noteq> ES_ACKED)"
  by (auto simp: no_double_ack_def successively_append_iff)

lemma channel_event_order_id: "channel_event d recv i sizes = Some e \<Longrightarrow> ev_order_id e = i"
  by (auto simp: channel_event_def Let_def bind_eq_Some_conv split_def)

lemma agree_suppress:
  assumes "agree es dec" "suppress e dec = (pass, dec')"
  shows "agree (if pass then es @ [e] else es) dec'"
proof (cases "ev_status e")
  case ES_ACKED
  then show ?thesis using assms
    by (auto simp: agree_def suppress_def Let_def events_of_snoc cancels_snoc no_double_ack_snoc split: if_splits)
next
  case ES_CANCELLED
  then show ?thesis using assms
    by (auto simp: agree_def suppress_def Let_def events_of_snoc cancels_snoc no_double_ack_snoc split: if_splits)
qed (use assms in \<open>auto simp: agree_def suppress_def Let_def events_of_snoc cancels_snoc no_double_ack_snoc\<close>)

lemma agree_rejected: "agree es dec \<Longrightarrow> ev_status e = ES_REJECTED \<Longrightarrow> agree (es @ [e]) dec"
  by (auto simp: agree_def events_of_snoc cancels_snoc no_double_ack_snoc)

lemma agree_register: "agree es (od_register_order c i dec) \<longleftrightarrow> agree es dec"
  by (simp add: agree_def od_register_order_def)

lemma channel_item_cases:
  assumes "handle_orders_channel_item d recv dec = Some (e, dec')"
  obtains "e = None" "dec' = dec" | f pass where "suppress f dec = (pass, dec')" "e = (if pass then Some f else None)"
    "channel_event d recv (ev_order_id f) (od_contract_sizes dec) = Some f"
    "od_order_id dec (the (field_string d ''clOrdId'')) = ev_order_id f" "ev_order_id f \<noteq> 0"
proof -
  from assms obtain cloid where c: "field_string d ''clOrdId'' = Some cloid"
    by (cases "field_string d ''clOrdId''") (simp_all add: handle_orders_channel_item_def)
  show thesis
  proof (cases "od_order_id dec cloid = 0")
    case True
    then show thesis using assms c by (intro that(1)) (simp_all add: handle_orders_channel_item_def)
  next
    case False
    then obtain f where f: "channel_event d recv (od_order_id dec cloid) (od_contract_sizes dec) = Some f"
      using assms c by (cases "channel_event d recv (od_order_id dec cloid) (od_contract_sizes dec)")
        (simp_all add: handle_orders_channel_item_def)
    obtain pass dec1 where p: "suppress f dec = (pass, dec1)" by (cases "suppress f dec")
    show thesis
      using assms c False f p channel_event_order_id [OF f]
      by (intro that(2) [of f pass]) (simp_all add: handle_orders_channel_item_def)
  qed
qed

lemma agree_item:
  assumes "agree es dec" "handle_orders_channel_item d recv dec = Some (e, dec')"
  shows "agree (case e of Some e \<Rightarrow> es @ [e] | None \<Rightarrow> es) dec'"
  using assms(2)
proof (cases rule: channel_item_cases)
  case (2 f pass)
  then show ?thesis using agree_suppress [OF assms(1) 2(1)] by (cases pass) simp_all
qed (use assms(1) in simp)

lemma agree_items: "agree es dec \<Longrightarrow> channel_items vs recv dec = (fs, dec') \<Longrightarrow> agree (es @ fs) dec'"
proof (induction vs arbitrary: es fs dec dec')
  case (Cons v vs)
  show ?case
  proof (cases "Option.bind (as_object v) (\<lambda>d. handle_orders_channel_item d recv dec)")
    case (Some r)
    obtain e d1 where r: "r = (e, d1)" by (cases r)
    obtain d where d: "handle_orders_channel_item d recv dec = Some (e, d1)" using Some r by (auto split: Option.bind_splits)
    obtain gs d2 where rest: "channel_items vs recv d1 = (gs, d2)" by (cases "channel_items vs recv d1")
    have "fs = (case e of Some e \<Rightarrow> e # gs | None \<Rightarrow> gs)" "dec' = d2" using Cons.prems(2) Some r rest by simp_all
    then show ?thesis using Cons.IH [OF agree_item [OF Cons.prems(1) d] rest] by (cases e) simp_all
  qed (use Cons in simp)
qed simp

lemma order_ack_rejected: "handle_order_ack d recv dec = Some (Some e) \<Longrightarrow> ev_status e = ES_REJECTED"
  by (auto simp: handle_order_ack_def Let_def bind_eq_Some_conv simp del: Option.bind_eq_None_conv split: if_split_asm)

lemma ack_items_rejected: "\<forall>e \<in> set (ack_items vs recv dec). ev_status e = ES_REJECTED"
proof (induction vs)
  case (Cons v vs)
  show ?case
  proof (cases "Option.bind (as_object v) (\<lambda>d. handle_order_ack d recv dec)")
    case (Some r)
    then show ?thesis using Cons order_ack_rejected by (cases r) (auto simp: bind_eq_Some_conv)
  qed simp
qed simp

lemma agree_all_rejected: "agree es dec \<Longrightarrow> \<forall>e \<in> set fs. ev_status e = ES_REJECTED \<Longrightarrow> agree (es @ fs) dec"
proof (induction fs arbitrary: es)
  case (Cons f fs)
  then have "agree (es @ [f]) dec" by (intro agree_rejected) auto
  from Cons.IH [OF this] Cons.prems(2) show ?case by simp
qed simp

definition session_ok :: "okx_adapter \<Rightarrow> bool" where
  "session_ok a \<longleftrightarrow> agree (okx_exec_events a) (okx_decoder a)"

lemma session_step: "session_ok a \<Longrightarrow> c \<noteq> Okx_Connect \<Longrightarrow> session_ok (okx_step c a)"
proof (cases c)
  case (Okx_Message payload recv)
  assume ok: "session_ok a"
  have op: "session_ok (on_op ob recv a)" for ob
    using ok agree_all_rejected ack_items_rejected
    by (simp add: session_ok_def okx_emit_def on_op_def del: ack_items.simps split: option.split prod.split)
  have push: "session_ok (orders_push vs recv a)" for vs
    using ok agree_items by (auto simp: session_ok_def okx_emit_def orders_push_def split: prod.split)
  have event: "session_ok (on_event ob a)" for ob using ok by (simp add: session_ok_def on_event_def split: option.split)
  have chan: "session_ok (on_channel ob recv a)" for ob using ok push by (simp add: on_channel_def split: option.split prod.split)
  show ?thesis using ok op event chan by (simp add: Okx_Message okx_handle_message_def split: option.split)
qed (auto simp: session_ok_def okx_send_new_order_def okx_send_cancel_def okx_send_cancel_all_def okx_send_modify_def Let_def agree_register)

subsection \<open>Examples\<close>

definition okx_item :: "string \<Rightarrow> int \<Rightarrow> json_object" where
  "okx_item state filled =
     [(''clOrdId'', J_String (''aG'' @ to_string_u64 7)), (''ordId'', J_String (to_string_u64 9)), (''side'', J_String ''buy''), (''ordType'', J_String ''limit''),
      (''px'', J_String (text6 100000000)), (''instId'', J_String ''BTC-USDT''), (''fillSz'', J_String (text6 filled)),
      (''sz'', J_String (text6 300000000)), (''fee'', J_String (text6 0)), (''feeCcy'', J_String ''USDT''), (''state'', J_String state)]"

lemma okx_item_get:
  "get_at (okx_item st q) ''clOrdId'' = Some (J_String (''aG'' @ to_string_u64 7))" "get_at (okx_item st q) ''ordId'' = Some (J_String (to_string_u64 9))"
  "get_at (okx_item st q) ''side'' = Some (J_String ''buy'')" "get_at (okx_item st q) ''ordType'' = Some (J_String ''limit'')"
  "get_at (okx_item st q) ''px'' = Some (J_String (text6 100000000))" "get_at (okx_item st q) ''instId'' = Some (J_String ''BTC-USDT'')"
  "get_at (okx_item st q) ''fillSz'' = Some (J_String (text6 q))" "get_at (okx_item st q) ''sz'' = Some (J_String (text6 300000000))"
  "get_at (okx_item st q) ''fee'' = Some (J_String (text6 0))" "get_at (okx_item st q) ''feeCcy'' = Some (J_String ''USDT'')"
  "get_at (okx_item st q) ''state'' = Some (J_String st)" "get_at (okx_item st q) ''uTime'' = None"
  by (simp_all add: okx_item_def)

lemma contracts_text6:
  assumes "get_at ob key = Some (J_String (text6 q))" "\<bar>q\<bar> < 2 ^ 52" "100 dvd q"
    "d_to_int 0 (2 ^ 64) (std_round (d_of_int q div e8 * Fin 1 * e8)) = Some n"
  shows "contracts_e8 ob key (Fin 1) = Some (word_of_int n)"
  using assms by (simp add: contracts_e8_def field_string_def stod_text6)

lemma contracts_values:
  "d_to_int 0 (2 ^ 64) (std_round (d_of_int 0 div e8 * Fin 1 * e8)) = Some 0"
  "d_to_int 0 (2 ^ 64) (std_round (d_of_int 100000000 div e8 * Fin 1 * e8)) = Some 100000000"
  "d_to_int 0 (2 ^ 64) (std_round (d_of_int 300000000 div e8 * Fin 1 * e8)) = Some 300000000"
  by code_simp+

lemma okx_item_event:
  assumes "q \<in> {0, 100000000}"
  shows "\<exists>e. channel_event (okx_item st q) recv i [] = Some e \<and> ev_order_id e = i \<and> ev_status e = fst (state_status st) \<and>
    ev_filled_qty e = word_of_int q \<and> ev_remaining_qty e = 300000000 - word_of_int q"
proof -
  have px: "scaled_i64 (okx_item st q) ''px'' = Some 100000000"
    using scaled_fields(2) [OF okx_item_get(5) stod_text6 scaled_texts(3)] by simp
  have fee: "scaled_i64 (okx_item st q) ''fee'' = Some 0"
    using scaled_fields(2) [OF okx_item_get(9) stod_text6 scaled_texts(4)] by simp
  have sz: "contracts_e8 (okx_item st q) ''sz'' (Fin 1) = Some 300000000"
    using contracts_text6 [OF okx_item_get(8) _ _ contracts_values(3)] by simp
  have fillq: "contracts_e8 (okx_item st q) ''fillSz'' (Fin 1) = Some (word_of_int q)"
  proof (rule contracts_text6 [OF okx_item_get(7)])
    show "d_to_int 0 (2 ^ 64) (std_round (d_of_int q div e8 * Fin 1 * e8)) = Some q"
      using assms contracts_values(1,2) by (metis insert_iff empty_iff)
    show "\<bar>q\<bar> < 2 ^ 52" "100 dvd q" using assms by auto
  qed
  have oid: "stoull (to_string_u64 9) = Some 9" by (rule stoull_to_string)
  have "left_of 300000000 (word_of_int q) = 300000000 - word_of_int q" using assms by (auto simp: left_of_def)
  then show ?thesis
    using px fee sz fillq oid
    by (simp add: channel_event_def field_string_def okx_item_get contract_size_def contains_def split_def Let_def)
qed

definition okx_push :: "string \<Rightarrow> int \<Rightarrow> json" where
  "okx_push state filled = J_Object [(''arg'', J_Object [(''channel'', J_String ''orders'')]), (''data'', J_Array [J_Object (okx_item state filled)])]"

definition okx_order :: new_order_request where
  "okx_order = \<lparr> nr_order_id = 7, nr_instrument_id = 1, nr_price = 100000000, nr_quantity = 300000000, nr_side = BUY,
     nr_order_type = OT_LIMIT, nr_tif = IOC, nr_exec_inst = 0, nr_exchange_symbol = ''BTC-USDT'' \<rparr>"

definition okx_start :: okx_adapter where
  "okx_start = okx_step (Okx_New okx_order 1 True) (okx_make ''a'' (\<lambda>_. Post_Throws))"

lemma okx_start_state:
  "map_of (od_cloids (okx_decoder okx_start)) (''aG'' @ to_string_u64 7) = Some 7" "od_contract_sizes (okx_decoder okx_start) = []"
  "od_acked (okx_decoder okx_start) = []" "od_cancelled (okx_decoder okx_start) = []" "okx_exec_events okx_start = []"
  by (simp_all add: okx_start_def okx_make_def okx_fetch_def inst_types_def fetch_one_def okx_send_new_order_def od_register_order_def
      okx_order_def okx_cloid_def Let_def)

lemma okx_push_step: "okx_step (Okx_Message (Some (okx_push st q)) recv) a = orders_push [J_Object (okx_item st q)] recv a"
  by (simp add: okx_push_def okx_handle_message_def on_channel_def contains_def field_string_def del: channel_items.simps)

lemma okx_item_handled:
  assumes "map_of (od_cloids dec) (''aG'' @ to_string_u64 7) = Some 7" "od_contract_sizes dec = []" "q \<in> {0, 100000000}"
  obtains e where "ev_order_id e = 7" "ev_status e = fst (state_status st)" "ev_filled_qty e = word_of_int q"
    "ev_remaining_qty e = 300000000 - word_of_int q"
    "handle_orders_channel_item (okx_item st q) recv dec =
      (case suppress e dec of (pass, dec) \<Rightarrow> Some (if pass then Some e else None, dec))"
proof -
  obtain e where e: "channel_event (okx_item st q) recv 7 [] = Some e" "ev_order_id e = 7" "ev_status e = fst (state_status st)"
    "ev_filled_qty e = word_of_int q" "ev_remaining_qty e = 300000000 - word_of_int q"
    using okx_item_event [OF assms(3), of st recv 7] by blast
  have "field_string (okx_item st q) ''clOrdId'' = Some (''aG'' @ to_string_u64 7)" by (simp only: field_string_def okx_item_get) simp
  then have "handle_orders_channel_item (okx_item st q) recv dec =
    (case suppress e dec of (pass, dec) \<Rightarrow> Some (if pass then Some e else None, dec))"
    using assms(1,2) e(1) by (simp add: handle_orders_channel_item_def od_order_id_def)
  with e(2-5) show thesis by (rule that)
qed

lemma okx_push_effect:
  assumes "map_of (od_cloids (okx_decoder a)) (''aG'' @ to_string_u64 7) = Some 7" "od_contract_sizes (okx_decoder a) = []" "q \<in> {0, 100000000}"
  obtains e where "ev_order_id e = 7" "ev_status e = fst (state_status st)" "ev_filled_qty e = word_of_int q"
    "ev_remaining_qty e = 300000000 - word_of_int q"
    "okx_step (Okx_Message (Some (okx_push st q)) recv) a =
       (case suppress e (okx_decoder a) of (pass, dec) \<Rightarrow> okx_emit (if pass then [e] else []) (a\<lparr>okx_decoder := dec\<rparr>))"
proof -
  obtain e where e: "ev_order_id e = 7" "ev_status e = fst (state_status st)" "ev_filled_qty e = word_of_int q"
    "ev_remaining_qty e = 300000000 - word_of_int q" "handle_orders_channel_item (okx_item st q) recv (okx_decoder a) =
      (case suppress e (okx_decoder a) of (pass, dec) \<Rightarrow> Some (if pass then Some e else None, dec))"
    using assms by (rule okx_item_handled)
  then have "okx_step (Okx_Message (Some (okx_push st q)) recv) a =
    (case suppress e (okx_decoder a) of (pass, dec) \<Rightarrow> okx_emit (if pass then [e] else []) (a\<lparr>okx_decoder := dec\<rparr>))"
    unfolding okx_push_step by (cases "suppress e (okx_decoder a)") (simp add: orders_push_def)
  with e(1-4) show thesis by (rule that)
qed

definition reported :: "okx_adapter \<Rightarrow> (exec_status \<times> u64 \<times> u64) list" where
  "reported a = map (\<lambda>e. (ev_status e, ev_filled_qty e, ev_remaining_qty e)) (okx_exec_events a)"

lemma okx_fill_step:
  assumes "map_of (od_cloids (okx_decoder a)) (''aG'' @ to_string_u64 7) = Some 7" "od_contract_sizes (okx_decoder a) = []" "q \<in> {0, 100000000}"
    "fst (state_status st) = ES_PARTIAL \<or> fst (state_status st) = ES_FILLED"
  shows "reported (okx_step (Okx_Message (Some (okx_push st q)) recv) a) =
      reported a @ [(fst (state_status st), word_of_int q, 300000000 - word_of_int q)]"
    and "od_cloids (okx_decoder (okx_step (Okx_Message (Some (okx_push st q)) recv) a)) = od_cloids (okx_decoder a)"
    and "od_contract_sizes (okx_decoder (okx_step (Okx_Message (Some (okx_push st q)) recv) a)) = []"
proof -
  obtain e where e: "ev_order_id e = 7" "ev_status e = fst (state_status st)" "ev_filled_qty e = word_of_int q"
    "ev_remaining_qty e = 300000000 - word_of_int q"
    "okx_step (Okx_Message (Some (okx_push st q)) recv) a =
       (case suppress e (okx_decoder a) of (pass, dec) \<Rightarrow> okx_emit (if pass then [e] else []) (a\<lparr>okx_decoder := dec\<rparr>))"
    using assms(1-3) by (rule okx_push_effect)
  have "suppress e (okx_decoder a) = (True, (okx_decoder a)\<lparr>od_acked := removeAll 7 (od_acked (okx_decoder a))\<rparr>)"
    using assms(4) e(1,2) by (auto simp: suppress_def)
  then show "reported (okx_step (Okx_Message (Some (okx_push st q)) recv) a) =
      reported a @ [(fst (state_status st), word_of_int q, 300000000 - word_of_int q)]"
    "od_cloids (okx_decoder (okx_step (Okx_Message (Some (okx_push st q)) recv) a)) = od_cloids (okx_decoder a)"
    "od_contract_sizes (okx_decoder (okx_step (Okx_Message (Some (okx_push st q)) recv) a)) = []"
    using assms(2) e(2-4) unfolding e(5) by (simp_all add: okx_emit_def reported_def)
qed

text \<open>
  The quantity that an OKX report leaves open forgets the fills before it. The code subtracts the
  latest slice alone from the size of the order: of an order over three contracts that fills one at a time, every report says that two
  are left, and the report that says \<open>FILLED\<close> says so as well.
\<close>

theorem okx_remaining_ignores_history:
  "reported (fold okx_step
     [Okx_Message (Some (okx_push ''partially_filled'' 100000000)) 2, Okx_Message (Some (okx_push ''partially_filled'' 100000000)) 3,
      Okx_Message (Some (okx_push ''filled'' 100000000)) 4] okx_start) =
   [(ES_PARTIAL, 100000000, 200000000), (ES_PARTIAL, 100000000, 200000000), (ES_FILLED, 100000000, 200000000)]"
proof -
  have st: "fst (state_status ''partially_filled'') = ES_PARTIAL" "fst (state_status ''filled'') = ES_FILLED" by (simp_all add: state_status_def)
  let ?p = "\<lambda>n. okx_step (Okx_Message (Some (okx_push ''partially_filled'' 100000000)) n)"
  have part: "reported (?p n a) = reported a @ [(ES_PARTIAL, 100000000, 200000000)] \<and> od_cloids (okx_decoder (?p n a)) = od_cloids (okx_decoder a) \<and>
      od_contract_sizes (okx_decoder (?p n a)) = []"
    if "map_of (od_cloids (okx_decoder a)) (''aG'' @ to_string_u64 7) = Some 7" "od_contract_sizes (okx_decoder a) = []" for n a
    using okx_fill_step [OF that, of 100000000 "''partially_filled''" n] st(1) by (simp del: okx_step.simps)
  note f = part [OF okx_start_state(1,2), of 2]
  have ids: "map_of (od_cloids (okx_decoder (?p 2 okx_start))) (''aG'' @ to_string_u64 7) = Some 7" using f okx_start_state(1) by (simp only:)
  note g = part [OF ids, of 3]
  have ids2: "map_of (od_cloids (okx_decoder (?p 3 (?p 2 okx_start)))) (''aG'' @ to_string_u64 7) = Some 7" using f g ids by (simp only:)
  have "reported (okx_step (Okx_Message (Some (okx_push ''filled'' 100000000)) 4) (?p 3 (?p 2 okx_start))) =
      reported (?p 3 (?p 2 okx_start)) @ [(ES_FILLED, 100000000, 200000000)]"
    using okx_fill_step(1) [OF ids2, of 100000000 "''filled''" 4] f g st(2) by (simp del: okx_step.simps)
  moreover have "reported okx_start = []" by (simp add: reported_def okx_start_state)
  ultimately show ?thesis using f g by (simp del: okx_step.simps)
qed



text \<open>
  The suppression does not survive a reconnect, which is when it is needed. An item that has passed as
  \<open>ACKED\<close> or \<open>CANCELLED\<close> is suppressed when it comes again, but a new session forgets both sets, and the
  same item, replayed by the snapshot of the channel, passes again.
\<close>

theorem okx_reset_replays:
  assumes "handle_orders_channel_item d recv dec = Some (Some e, dec')" "ev_status e = ES_ACKED \<or> ev_status e = ES_CANCELLED"
  shows "handle_orders_channel_item d recv dec' = Some (None, dec') \<and>
    (\<exists>dec''. handle_orders_channel_item d recv (od_reset dec') = Some (Some e, dec''))"
  using assms(1)
proof (cases rule: channel_item_cases)
  case (2 f pass)
  then have f: "f = e" "pass" by (auto split: if_splits)
  note p = 2(1,3,4,5) [unfolded f]
  obtain cloid where c: "field_string d ''clOrdId'' = Some cloid"
    using assms(1) by (cases "field_string d ''clOrdId''") (simp_all add: handle_orders_channel_item_def)
  have keeps: "od_cloids dec' = od_cloids dec" "od_contract_sizes dec' = od_contract_sizes dec" "fst (suppress e dec') = False" "snd (suppress e dec') = dec'"
    using p(1) assms(2) f by (auto simp: suppress_def Let_def split: if_splits)
  have i: "od_order_id dec' cloid = ev_order_id e" "od_order_id (od_reset dec') cloid = ev_order_id e"
    "od_contract_sizes (od_reset dec') = od_contract_sizes dec"
    using p(3) c keeps by (simp_all add: od_order_id_def od_reset_def)
  have "handle_orders_channel_item d recv dec' = Some (None, dec')"
    using p(2,4) c i keeps by (simp add: handle_orders_channel_item_def split_def)
  moreover have "fst (suppress e (od_reset dec'))" using assms(2) by (auto simp: suppress_def od_reset_def)
  then have "\<exists>dec''. handle_orders_channel_item d recv (od_reset dec') = Some (Some e, dec'')"
    using p(2,4) c i by (simp add: handle_orders_channel_item_def split_def)
  ultimately show ?thesis by blast
qed simp

theorem okx_reset_replays_witness:
  "\<exists>e dec'. handle_orders_channel_item (okx_item ''live'' 0) 2 (okx_decoder okx_start) = Some (Some e, dec') \<and>
    handle_orders_channel_item (okx_item ''live'' 0) 2 dec' = Some (None, dec') \<and>
    (\<exists>dec''. handle_orders_channel_item (okx_item ''live'' 0) 2 (od_reset dec') = Some (Some e, dec''))"
proof -
  obtain e where e: "ev_order_id e = 7" "ev_status e = fst (state_status ''live'')"
    "handle_orders_channel_item (okx_item ''live'' 0) 2 (okx_decoder okx_start) =
      (case suppress e (okx_decoder okx_start) of (pass, dec) \<Rightarrow> Some (if pass then Some e else None, dec))"
    using okx_item_handled [OF okx_start_state(1,2), of 0 "''live''" 2] by auto
  then have acked: "ev_status e = ES_ACKED" by (simp add: state_status_def)
  then obtain dec' where d: "handle_orders_channel_item (okx_item ''live'' 0) 2 (okx_decoder okx_start) = Some (Some e, dec')"
    using e(3) by (simp add: suppress_def okx_start_state)
  show ?thesis using d okx_reset_replays [OF d disjI1 [OF acked]] by blast
qed

end
