(* ===== verification/Deribit_Adapter.thy ===== *)
theory Deribit_Adapter
  imports Venue_Text "HOL-Library.Multiset"
begin

text \<open>
  The Deribit adapter (\<open>src/bpt-order-gateway/src/adapter/deribit/\<close>): the requests
  (\<open>deribit_action_encoder.cpp\<close>), the decoder of the order channel and of the responses
  (\<open>deribit_exec_decoder.cpp\<close>), and the adapter (\<open>deribit_order_adapter.cpp\<close>) on its socket
  (\<open>RunLoop\<close> of \<open>run_loop.h\<close>): the steps of its two threads interleave, the one that sends orders and the one that runs
  the session. The theorems: no request is written twice, and the orders that get no answer or two.
  \<open>std::hash\<close> is an argument; a frame is the JSON it prints.
\<close>

subsection \<open>Requests\<close>

record deribit_spec =
  dr_instrument_name :: string
  dr_side :: order_side
  dr_order_type :: order_type
  dr_tif :: time_in_force
  dr_price_e8 :: i64
  dr_quantity_e8 :: u64
  dr_label :: string

definition db_type_str :: "order_type \<Rightarrow> string" where
  "db_type_str t = (if t = OT_MARKET then ''market'' else ''limit'')"

fun db_tif_str :: "time_in_force \<Rightarrow> string" where
  "db_tif_str IOC = ''immediate_or_cancel''"
| "db_tif_str FOK = ''fill_or_kill''"
| "db_tif_str _ = ''good_til_cancelled''"

definition serialise_rpc :: "string \<Rightarrow> json_object \<Rightarrow> u64 \<Rightarrow> json_object" where
  "serialise_rpc rpc_method params req_id =
     [(''jsonrpc'', J_String ''2.0''), (''id'', J_Uint req_id), (''method'', J_String rpc_method), (''params'', J_Object params)]"

definition build_auth_msg :: "string \<Rightarrow> string \<Rightarrow> u64 \<Rightarrow> json_object" where
  "build_auth_msg client_id client_secret = serialise_rpc ''public/auth''
     [(''grant_type'', J_String ''client_credentials''), (''client_id'', J_String client_id), (''client_secret'', J_String client_secret)]"

definition tick_for_option_price :: "double \<Rightarrow> double" where
  "tick_for_option_price price = (if price < dlit (5 / 1000) then dlit (1 / 10000) else dlit (5 / 10000))"

definition is_option :: "string \<Rightarrow> bool" where
  "is_option name = (if length name < 2 then False
     else last name \<in> {CHR ''C'', CHR ''P''} \<and> name ! (length name - 2) = CHR ''-'')"

definition natural_price :: "deribit_spec \<Rightarrow> double" where
  "natural_price spec =
     (let price = d_of_int (sint (dr_price_e8 spec)) div e8
      in if dr_order_type spec \<noteq> OT_MARKET \<and> is_option (dr_instrument_name spec)
         then let tick = tick_for_option_price price in std_round (price div tick) * tick else price)"

definition db_amount :: "u64 \<Rightarrow> double" where
  "db_amount quantity_e8 = d_of_int (uint quantity_e8) div e8"

definition build_new_order_msg :: "deribit_spec \<Rightarrow> u64 \<Rightarrow> json_object" where
  "build_new_order_msg spec = serialise_rpc (if dr_side spec = BUY then ''private/buy'' else ''private/sell'')
     ([(''instrument_name'', J_String (dr_instrument_name spec)), (''amount'', J_Double (db_amount (dr_quantity_e8 spec))),
       (''type'', J_String (db_type_str (dr_order_type spec))), (''label'', J_String (dr_label spec))] @
      (if dr_order_type spec \<noteq> OT_MARKET
       then [(''price'', J_Double (natural_price spec)), (''time_in_force'', J_String (db_tif_str (dr_tif spec)))] else []))"

definition build_cancel_msg :: "string \<Rightarrow> u64 \<Rightarrow> json_object" where
  "build_cancel_msg exch_oid = serialise_rpc ''private/cancel'' [(''order_id'', J_String exch_oid)]"

definition build_edit_msg :: "string \<Rightarrow> i64 \<Rightarrow> u64 \<Rightarrow> u64 \<Rightarrow> json_object" where
  "build_edit_msg exch_oid new_price_e8 new_quantity_e8 = serialise_rpc ''private/edit''
     [(''order_id'', J_String exch_oid), (''amount'', J_Double (db_amount new_quantity_e8)),
      (''price'', J_Double (d_of_int (sint new_price_e8) div e8))]"

definition build_test_response :: "u64 \<Rightarrow> json_object" where
  "build_test_response = serialise_rpc ''public/test'' []"

text \<open>The parameters are the object that the text in the code reads as.\<close>

definition build_simple_rpc :: "string \<Rightarrow> json_object \<Rightarrow> u64 \<Rightarrow> json_object" where
  "build_simple_rpc = serialise_rpc"

subsection \<open>Decoder\<close>

record deribit_decoder =
  dd_labels :: "(string, u64) umap"
  dd_by_exch_oid :: "(string, u64) umap"
  dd_exch_oids :: "(u64, string) umap"
  dd_acked :: "u64 list"
  dd_cancelled :: "u64 list"

definition infer_fee_currency :: "string \<Rightarrow> string" where
  "infer_fee_currency name = (if take 3 name = ''BTC'' then ''BTC'' else if take 3 name = ''ETH'' then ''ETH'' else ''USDT'')"

definition dd_register_order :: "string \<Rightarrow> u64 \<Rightarrow> deribit_decoder \<Rightarrow> deribit_decoder" where
  "dd_register_order label order_id dec = dec\<lparr>dd_labels := AList.update label order_id (dd_labels dec)\<rparr>"

definition get_exchange_order_id :: "u64 \<Rightarrow> deribit_decoder \<Rightarrow> string" where
  "get_exchange_order_id order_id dec = (case map_of (dd_exch_oids dec) order_id of Some s \<Rightarrow> s | None \<Rightarrow> [])"

definition dd_reset :: "deribit_decoder \<Rightarrow> deribit_decoder" where
  "dd_reset dec = dec\<lparr>dd_acked := [], dd_cancelled := []\<rparr>"

definition dd_order_id :: "deribit_decoder \<Rightarrow> string \<Rightarrow> u64" where
  "dd_order_id dec label = (case map_of (dd_labels dec) label of Some i \<Rightarrow> i | None \<Rightarrow> 0)"

text \<open>Fields that may be missing or of another type.\<close>

definition string_at :: "json_object \<Rightarrow> string \<Rightarrow> string" where
  "string_at d key = (case get_at d key of Some (J_String s) \<Rightarrow> s | _ \<Rightarrow> [])"

fun number_of :: "json \<Rightarrow> double option" where
  "number_of (J_Int n) = Some (d_of_int (sint n))"
| "number_of (J_Uint n) = Some (d_of_int (uint n))"
| "number_of (J_Double x) = Some x"
| "number_of _ = None"

definition number_at :: "json_object \<Rightarrow> string \<Rightarrow> double option" where
  "number_at d key = Option.bind (get_at d key) number_of"

definition cut_i64 :: "double option \<Rightarrow> i64 option" where
  "cut_i64 x = (case x of None \<Rightarrow> Some 0 | Some v \<Rightarrow> map_option word_of_int (d_to_int (- (2 ^ 63)) (2 ^ 63) (v * e8)))"

definition cut_u64 :: "double option \<Rightarrow> u64 option" where
  "cut_u64 x = (case x of None \<Rightarrow> Some 0 | Some v \<Rightarrow> map_option word_of_int (d_to_int 0 (2 ^ 64) (v * e8)))"

definition exchange_order_id_of :: "(string \<Rightarrow> u64) \<Rightarrow> string \<Rightarrow> u64" where
  "exchange_order_id_of hash exch_oid =
     (if exch_oid = [] then 0 else case stoull exch_oid of Some n \<Rightarrow> n | None \<Rightarrow> hash exch_oid)"

definition learn_exch_oid :: "string \<Rightarrow> u64 \<Rightarrow> deribit_decoder \<Rightarrow> deribit_decoder" where
  "learn_exch_oid exch_oid order_id dec =
     (if exch_oid = [] then dec
      else dec\<lparr>dd_by_exch_oid := AList.update exch_oid order_id (dd_by_exch_oid dec),
               dd_exch_oids := AList.update order_id exch_oid (dd_exch_oids dec)\<rparr>)"

definition order_state_status :: "string \<Rightarrow> bool \<Rightarrow> exec_status \<times> reject_reason" where
  "order_state_status state some_filled =
     (if state = ''open'' then (if some_filled then ES_PARTIAL else ES_ACKED, RR_OK)
      else if state = ''filled'' then (ES_FILLED, RR_OK)
      else if state = ''cancelled'' then (ES_CANCELLED, RR_OK)
      else if state = ''rejected'' then (ES_REJECTED, RR_EXCHANGE_ERROR)
      else if state = ''untriggered'' \<or> state = ''triggered'' then (ES_ACKED, RR_OK)
      else (ES_REJECTED, RR_EXCHANGE_ERROR))"

definition side_at :: "json_object \<Rightarrow> order_side" where
  "side_at d = (case get_at d ''direction'' of Some (J_String s) \<Rightarrow> if s = ''buy'' then BUY else SELL | _ \<Rightarrow> BUY)"

definition order_type_at :: "json_object \<Rightarrow> order_type" where
  "order_type_at d = (case get_at d ''order_type'' of Some (J_String s) \<Rightarrow> if s = ''market'' then OT_MARKET else OT_LIMIT | _ \<Rightarrow> OT_MARKET)"

definition price_at :: "json_object \<Rightarrow> double option" where
  "price_at d = (case number_at d ''price'' of Some x \<Rightarrow> Some x | None \<Rightarrow> number_at d ''average_price'')"

text \<open>\<open>None\<close>: an exception, or a conversion out of range.\<close>

definition update_time_ns :: "json_object \<Rightarrow> u64 \<Rightarrow> u64 option" where
  "update_time_ns d recv_ns =
     (if number_at d ''last_update_timestamp'' = None then Some recv_ns
      else map_option (\<lambda>t. t * 1000000) (Option.bind (get_at d ''last_update_timestamp'') to_uint64))"

definition subscription_event :: "(string \<Rightarrow> u64) \<Rightarrow> json_object \<Rightarrow> u64 \<Rightarrow> u64 \<Rightarrow> exec_event option" where
  "subscription_event hash d recv_ns order_id = do {
     price \<leftarrow> cut_i64 (price_at d);
     filled_qty \<leftarrow> cut_u64 (number_at d ''filled_amount'');
     total_qty \<leftarrow> cut_u64 (number_at d ''amount'');
     fee \<leftarrow> cut_i64 (number_at d ''commission'');
     ts \<leftarrow> update_time_ns d recv_ns;
     let (status, reason) = order_state_status (string_at d ''order_state'')
           (case number_at d ''filled_amount'' of Some x \<Rightarrow> 0 < x | None \<Rightarrow> False);
     Some (blank_exec_event
       \<lparr> ev_order_id := order_id, ev_exchange_order_id := exchange_order_id_of hash (string_at d ''order_id''), ev_exchange_id := EX_DERIBIT,
         ev_instrument_id := 0, ev_status := status, ev_side := side_at d, ev_order_type := order_type_at d, ev_price := price,
         ev_filled_qty := filled_qty, ev_remaining_qty := left_of total_qty filled_qty, ev_reject_reason := reason, ev_fee := fee,
         ev_fee_currency := infer_fee_currency (string_at d ''instrument_name''), ev_exchange_ts_ns := ts, ev_local_ts_ns := recv_ns \<rparr>)
   }"

definition dd_suppress :: "exec_event \<Rightarrow> deribit_decoder \<Rightarrow> bool \<times> deribit_decoder" where
  "dd_suppress e dec =
     (let i = ev_order_id e
      in if ev_status e = ES_ACKED then
           (if i \<in> set (dd_acked dec) then (False, dec) else (True, dec\<lparr>dd_acked := i # dd_acked dec\<rparr>))
         else if ev_status e = ES_CANCELLED then
           (if i \<in> set (dd_cancelled dec) then (False, dec)
            else (True, dec\<lparr>dd_acked := removeAll i (dd_acked dec), dd_cancelled := i # dd_cancelled dec\<rparr>))
         else (True, dec\<lparr>dd_acked := removeAll i (dd_acked dec)\<rparr>))"

text \<open>The events of a call, whether it returned, and the decoder after it.\<close>

definition handle_subscription_event :: "(string \<Rightarrow> u64) \<Rightarrow> json_object \<Rightarrow> u64 \<Rightarrow> deribit_decoder \<Rightarrow> exec_event list \<times> bool \<times> deribit_decoder" where
  "handle_subscription_event hash d recv_ns dec =
     (let order_id = dd_order_id dec (string_at d ''label'')
      in if order_id = 0 then ([], True, dec)
         else
           (let dec = learn_exch_oid (string_at d ''order_id'') order_id dec
            in case subscription_event hash d recv_ns order_id of
                 None \<Rightarrow> ([], False, dec)
               | Some e \<Rightarrow> (let (pass, dec) = dd_suppress e dec in (if pass then [e] else [], True, dec))))"

definition deribit_response_event :: "(string \<Rightarrow> u64) \<Rightarrow> json_object \<Rightarrow> u64 \<Rightarrow> u64 \<Rightarrow> exec_event option" where
  "deribit_response_event hash d recv_ns order_id = do {
     price \<leftarrow> cut_i64 (number_at d ''average_price'');
     filled_qty \<leftarrow> cut_u64 (number_at d ''filled_amount'');
     ts \<leftarrow> (case number_at d ''last_update_timestamp'' of
              None \<Rightarrow> Some recv_ns
            | Some t \<Rightarrow> map_option (\<lambda>n. word_of_int n * 1000000) (d_to_int 0 (2 ^ 64) t));
     let state = string_at d ''order_state'';
     remaining \<leftarrow> (if state \<noteq> ''cancelled'' then Some 0
                   else case number_at d ''amount'' of
                     None \<Rightarrow> Some 0
                   | Some amount \<Rightarrow> cut_u64 (Some (amount - db_amount filled_qty)));
     let (status, reason) = order_state_status state False;
     Some (blank_exec_event
       \<lparr> ev_order_id := order_id, ev_exchange_order_id := exchange_order_id_of hash (string_at d ''order_id''), ev_exchange_id := EX_DERIBIT,
         ev_status := status, ev_side := side_at d, ev_order_type := OT_LIMIT, ev_price := price, ev_filled_qty := filled_qty,
         ev_remaining_qty := remaining, ev_reject_reason := reason, ev_exchange_ts_ns := ts, ev_local_ts_ns := recv_ns \<rparr>)
   }"

definition deribit_order_response :: "(string \<Rightarrow> u64) \<Rightarrow> json_object \<Rightarrow> u64 \<Rightarrow> deribit_decoder \<Rightarrow> exec_event list \<times> bool \<times> deribit_decoder" where
  "deribit_order_response hash d recv_ns dec =
     (let order_id = dd_order_id dec (string_at d ''label'')
      in if order_id = 0 then ([], True, dec)
         else
           (let dec = learn_exch_oid (string_at d ''order_id'') order_id dec
            in if string_at d ''order_state'' \<notin> {''filled'', ''cancelled'', ''rejected''} then ([], True, dec)
               else case deribit_response_event hash d recv_ns order_id of
                      None \<Rightarrow> ([], False, dec)
                    | Some e \<Rightarrow> ([e], True, dec)))"

subsection \<open>Adapter\<close>

text \<open>
  \<open>db_running\<close> is the flag of \<open>RunLoop\<close>; a frame that \<open>send\<close> takes is posted, and written later by the session's thread or
  lost when the write fails. \<open>db_closing\<close> says that a handler has thrown, \<open>db_executor\<close> is what the sending thread holds between reading \<open>logged_in_\<close> and acting on it,
  \<open>db_draining\<close> says that the session's thread is about to drain the pending frames.
\<close>

datatype send_result = Sent | Not_Running | Send_Throws

record deribit_adapter =
  db_client_id :: string
  db_client_secret :: string
  db_logged_in :: bool
  db_prefix :: string
  db_next_id :: u64
  db_pending :: "json_object list"
  db_waiters :: "u64 list"
  db_answers :: "(u64 \<times> json) list"
  db_decoder :: deribit_decoder
  db_exec_events :: "exec_event list"
  db_rest_events :: "exec_event list"
  db_running :: bool
  db_posted :: "json_object list"
  db_written :: "json_object list"
  db_executor :: "(new_order_request \<times> json_object \<times> bool) option"
  db_draining :: bool
  db_closing :: bool

definition db_make :: "string \<Rightarrow> string \<Rightarrow> string \<Rightarrow> deribit_adapter" where
  "db_make client_id client_secret session =
     \<lparr> db_client_id = client_id, db_client_secret = client_secret, db_logged_in = False, db_prefix = session, db_next_id = 1,
       db_pending = [], db_waiters = [], db_answers = [],
       db_decoder = \<lparr> dd_labels = [], dd_by_exch_oid = [], dd_exch_oids = [], dd_acked = [], dd_cancelled = [] \<rparr>,
       db_exec_events = [], db_rest_events = [], db_running = False, db_posted = [], db_written = [], db_executor = None,
       db_draining = False, db_closing = False \<rparr>"

text \<open>A frame with the next request id, posted when the send takes it.\<close>

definition db_post :: "send_result \<Rightarrow> (u64 \<Rightarrow> json_object) \<Rightarrow> deribit_adapter \<Rightarrow> deribit_adapter" where
  "db_post r frame a =
     a\<lparr>db_next_id := db_next_id a + 1, db_posted := db_posted a @ (if r = Sent then [frame (db_next_id a)] else [])\<rparr>"

definition db_reject :: "new_order_request \<Rightarrow> u64 \<Rightarrow> deribit_adapter \<Rightarrow> deribit_adapter" where
  "db_reject req now_ns a = a\<lparr>db_rest_events := db_rest_events a @ [rejection EX_DERIBIT req now_ns]\<rparr>"

definition db_label :: "deribit_adapter \<Rightarrow> u64 \<Rightarrow> string" where
  "db_label a order_id = db_prefix a @ ''G'' @ to_string_u64 order_id"

definition db_spec_of :: "new_order_request \<Rightarrow> string \<Rightarrow> deribit_spec" where
  "db_spec_of req label = \<lparr> dr_instrument_name = nr_exchange_symbol req, dr_side = nr_side req, dr_order_type = nr_order_type req,
     dr_tif = nr_tif req, dr_price_e8 = nr_price req, dr_quantity_e8 = nr_quantity req, dr_label = label \<rparr>"

text \<open>A new order, up to the reading of \<open>logged_in_\<close> and from there on.\<close>

definition db_begin_order :: "new_order_request \<Rightarrow> deribit_adapter \<Rightarrow> deribit_adapter" where
  "db_begin_order req a =
     (let label = db_label a (nr_order_id req); frame = build_new_order_msg (db_spec_of req label) (db_next_id a)
      in a\<lparr>db_next_id := db_next_id a + 1, db_decoder := dd_register_order label (nr_order_id req) (db_decoder a),
           db_executor := Some (req, frame, db_logged_in a)\<rparr>)"

definition db_finish_order :: "send_result \<Rightarrow> u64 \<Rightarrow> deribit_adapter \<Rightarrow> deribit_adapter" where
  "db_finish_order r now_ns a =
     (case db_executor a of
        None \<Rightarrow> a
      | Some (req, frame, logged_in) \<Rightarrow>
          (let a = a\<lparr>db_executor := None\<rparr>
           in if \<not> logged_in then a\<lparr>db_pending := db_pending a @ [frame]\<rparr>
              else if r = Sent then a\<lparr>db_posted := db_posted a @ [frame]\<rparr>
              else db_reject req now_ns a))"

definition db_send_new_order :: "new_order_request \<Rightarrow> send_result \<Rightarrow> u64 \<Rightarrow> deribit_adapter \<Rightarrow> deribit_adapter" where
  "db_send_new_order req r now_ns a = db_finish_order r now_ns (db_begin_order req a)"

definition db_send_cancel :: "cancel_request \<Rightarrow> send_result \<Rightarrow> deribit_adapter \<Rightarrow> deribit_adapter" where
  "db_send_cancel req r a =
     (let exch_oid = get_exchange_order_id (cr_order_id req) (db_decoder a)
      in if exch_oid = [] then a else db_post r (build_cancel_msg exch_oid) a)"

definition db_send_cancel_all :: "cancel_all_request \<Rightarrow> deribit_adapter \<Rightarrow> deribit_adapter" where
  "db_send_cancel_all req a = a"

definition db_send_modify :: "modify_request \<Rightarrow> send_result \<Rightarrow> deribit_adapter \<Rightarrow> deribit_adapter" where
  "db_send_modify req r a =
     (let exch_oid = get_exchange_order_id (mr_order_id req) (db_decoder a)
      in if exch_oid = [] then a else db_post r (build_edit_msg exch_oid (mr_new_price req) (mr_new_quantity req)) a)"

subsection \<open>Frames of the session\<close>

text \<open>A request of the account snapshot: it is registered before it is sent, and withdrawn when it cannot be or takes too long.\<close>

definition db_send_and_wait :: "string \<Rightarrow> json_object \<Rightarrow> send_result \<Rightarrow> deribit_adapter \<Rightarrow> deribit_adapter" where
  "db_send_and_wait rpc_method params r a =
     (let i = db_next_id a; a = db_post r (build_simple_rpc rpc_method params) a
      in if r = Not_Running then a else a\<lparr>db_waiters := i # db_waiters a\<rparr>)"

definition db_time_out :: "u64 \<Rightarrow> deribit_adapter \<Rightarrow> deribit_adapter" where
  "db_time_out i a = a\<lparr>db_waiters := removeAll i (db_waiters a)\<rparr>"

text \<open>Whether the handler of a frame returns, and the state it leaves: an exception ends the session.\<close>

definition db_decoded :: "exec_event list \<times> bool \<times> deribit_decoder \<Rightarrow> deribit_adapter \<Rightarrow> bool \<times> deribit_adapter" where
  "db_decoded r a = (let (es, returned, dec) = r in (returned, a\<lparr>db_decoder := dec, db_exec_events := db_exec_events a @ es\<rparr>))"

definition db_heartbeat :: "json_object \<Rightarrow> deribit_adapter \<Rightarrow> bool \<times> deribit_adapter" where
  "db_heartbeat ob a =
     (case Option.bind (get_at ob ''params'') as_object of
        None \<Rightarrow> (True, a)
      | Some params \<Rightarrow>
          (case get_at params ''type'' of
             None \<Rightarrow> (True, a)
           | Some (J_String s) \<Rightarrow> (True, if s = ''test_request'' then db_post Sent build_test_response a else a)
           | Some _ \<Rightarrow> (False, a)))"

definition db_subscription :: "(string \<Rightarrow> u64) \<Rightarrow> json_object \<Rightarrow> u64 \<Rightarrow> deribit_adapter \<Rightarrow> bool \<times> deribit_adapter" where
  "db_subscription hash ob recv_ns a =
     (case Option.bind (get_at ob ''params'') as_object of
        None \<Rightarrow> (True, a)
      | Some params \<Rightarrow>
          (case get_at params ''channel'' of
             None \<Rightarrow> (True, a)
           | Some (J_String s) \<Rightarrow>
               (case Option.bind (get_at params ''data'') as_object of
                  None \<Rightarrow> (True, a)
                | Some d \<Rightarrow>
                    if s = ''user.orders.any.raw'' then db_decoded (handle_subscription_event hash d recv_ns (db_decoder a)) a
                    else (True, a))
           | Some _ \<Rightarrow> (False, a)))"

fun to_int64 :: "json \<Rightarrow> i64 option" where
  "to_int64 (J_Int n) = Some n"
| "to_int64 (J_Uint n) = (if uint n < 2 ^ 63 then Some (ucast n) else None)"
| "to_int64 (J_Double (Fin x)) = (if - (2 ^ 63) \<le> x \<and> x < 2 ^ 63 \<and> x = of_int (floor x) then Some (word_of_int (floor x)) else None)"
| "to_int64 _ = None"

text \<open>An error response is read for the log alone.\<close>

definition error_readable :: "json \<Rightarrow> bool" where
  "error_readable v =
     (case as_object v of
        None \<Rightarrow> False
      | Some err \<Rightarrow> (case get_at err ''code'' of None \<Rightarrow> True | Some c \<Rightarrow> to_int64 c \<noteq> None) \<and>
                    (case get_at err ''message'' of None \<Rightarrow> True | Some m \<Rightarrow> as_string m \<noteq> None))"

definition db_login :: "deribit_adapter \<Rightarrow> deribit_adapter" where
  "db_login a =
     (db_post Sent (build_simple_rpc ''private/subscribe'' [(''channels'', J_Array [J_String ''user.orders.any.raw''])])
       (db_post Sent (build_simple_rpc ''public/set_heartbeat'' [(''interval'', J_Int 10)])
         (db_post Sent (build_simple_rpc ''private/enable_cancel_on_disconnect'' []) (a\<lparr>db_logged_in := True\<rparr>))))
      \<lparr>db_draining := True\<rparr>"

definition db_response :: "(string \<Rightarrow> u64) \<Rightarrow> json_object \<Rightarrow> u64 \<Rightarrow> deribit_adapter \<Rightarrow> bool \<times> deribit_adapter" where
  "db_response hash ob recv_ns a =
     (case get_at ob ''error'' of
        Some v \<Rightarrow> (error_readable v, a)
      | None \<Rightarrow>
          (case Option.bind (get_at ob ''result'') as_object of
             None \<Rightarrow> (True, a)
           | Some res \<Rightarrow>
               if contains res ''access_token'' then (True, db_login a)
               else (case get_at res ''order'' of
                       None \<Rightarrow> (True, a)
                     | Some (J_Object order) \<Rightarrow> db_decoded (deribit_order_response hash order recv_ns (db_decoder a)) a
                     | Some _ \<Rightarrow> (False, a))))"

definition db_handle_message :: "(string \<Rightarrow> u64) \<Rightarrow> json option \<Rightarrow> u64 \<Rightarrow> deribit_adapter \<Rightarrow> bool \<times> deribit_adapter" where
  "db_handle_message hash payload recv_ns a =
     (case payload of
        None \<Rightarrow> (False, a)
      | Some (J_Object ob) \<Rightarrow>
          (case get_at ob ''method'' of
             Some m \<Rightarrow>
               (case as_string m of
                  None \<Rightarrow> (False, a)
                | Some s \<Rightarrow>
                    if s = ''heartbeat'' then db_heartbeat ob a
                    else if s = ''subscription'' then db_subscription hash ob recv_ns a
                    else (True, a))
           | None \<Rightarrow>
               (case get_at ob ''id'' of
                  None \<Rightarrow> (True, a)
                | Some i \<Rightarrow>
                    (case to_uint64 i of
                       None \<Rightarrow> (False, a)
                     | Some rpc_id \<Rightarrow>
                         if rpc_id \<in> set (db_waiters a)
                         then (True, a\<lparr>db_waiters := removeAll rpc_id (db_waiters a), db_answers := db_answers a @ [(rpc_id, J_Object ob)]\<rparr>)
                         else db_response hash ob recv_ns a)))
      | Some _ \<Rightarrow> (True, a))"

text \<open>The frames sent from the pending ones, and those left: a frame whose send throws is dropped.\<close>

fun drain_pending :: "(json_object \<Rightarrow> send_result) \<Rightarrow> json_object list \<Rightarrow> json_object list \<times> json_object list" where
  "drain_pending send [] = ([], [])"
| "drain_pending send (f # fs) =
     (case send f of
        Sent \<Rightarrow> (let (sent, left) = drain_pending send fs in (f # sent, left))
      | Not_Running \<Rightarrow> ([], f # fs)
      | Send_Throws \<Rightarrow> ([], fs))"

definition db_drain :: "(json_object \<Rightarrow> send_result) \<Rightarrow> deribit_adapter \<Rightarrow> deribit_adapter" where
  "db_drain send a =
     (let (sent, left) = drain_pending send (db_pending a)
      in a\<lparr>db_pending := left, db_posted := db_posted a @ sent, db_draining := False\<rparr>)"

text \<open>
  A session begins: the connection itself is a parameter. It ends: the frames posted before are written or lost by then, and one
  posted in between waits in the queue for the next session.
\<close>

definition db_connect :: "bool \<Rightarrow> deribit_adapter \<Rightarrow> deribit_adapter" where
  "db_connect up a =
     (let a = a\<lparr>db_logged_in := False, db_decoder := dd_reset (db_decoder a)\<rparr>
      in if up then db_post Sent (build_auth_msg (db_client_id a) (db_client_secret a)) (a\<lparr>db_running := True\<rparr>) else a)"

definition db_end_session :: "deribit_adapter \<Rightarrow> deribit_adapter" where
  "db_end_session a = a\<lparr>db_running := False, db_closing := False\<rparr>"

definition db_write :: "bool \<Rightarrow> deribit_adapter \<Rightarrow> deribit_adapter" where
  "db_write written a =
     (case db_posted a of
        [] \<Rightarrow> a
      | f # fs \<Rightarrow> a\<lparr>db_posted := fs, db_written := db_written a @ (if written then [f] else [])\<rparr>)"

subsection \<open>Interleavings\<close>

datatype db_call = Db_Begin new_order_request | Db_Finish send_result u64 | Db_Cancel cancel_request send_result
  | Db_Cancel_All cancel_all_request | Db_Modify modify_request send_result | Db_Request string json_object send_result | Db_Time_Out u64
  | Db_Message "json option" u64 | Db_Drain "json_object \<Rightarrow> send_result" | Db_Connect bool | Db_Write bool | Db_End

text \<open>\<open>send\<close> refuses exactly when no session runs.\<close>

definition send_gives :: "send_result \<Rightarrow> deribit_adapter \<Rightarrow> bool" where
  "send_gives r a \<longleftrightarrow> (r = Not_Running) = (\<not> db_running a)"

fun db_enabled :: "db_call \<Rightarrow> deribit_adapter \<Rightarrow> bool" where
  "db_enabled (Db_Begin req) a \<longleftrightarrow> db_executor a = None"
| "db_enabled (Db_Finish r now) a \<longleftrightarrow> db_executor a \<noteq> None \<and> send_gives r a"
| "db_enabled (Db_Cancel req r) a \<longleftrightarrow> db_executor a = None \<and> send_gives r a"
| "db_enabled (Db_Cancel_All req) a \<longleftrightarrow> db_executor a = None"
| "db_enabled (Db_Modify req r) a \<longleftrightarrow> db_executor a = None \<and> send_gives r a"
| "db_enabled (Db_Request m ps r) a \<longleftrightarrow> db_logged_in a \<and> send_gives r a"
| "db_enabled (Db_Time_Out i) a \<longleftrightarrow> True"
| "db_enabled (Db_Message payload recv) a \<longleftrightarrow> db_running a \<and> \<not> db_draining a \<and> \<not> db_closing a"
| "db_enabled (Db_Drain send) a \<longleftrightarrow> db_draining a"
| "db_enabled (Db_Connect up) a \<longleftrightarrow> \<not> db_running a"
| "db_enabled (Db_Write written) a \<longleftrightarrow> db_running a \<and> \<not> db_draining a"
| "db_enabled Db_End a \<longleftrightarrow> db_running a \<and> \<not> db_draining a"

fun db_step :: "(string \<Rightarrow> u64) \<Rightarrow> db_call \<Rightarrow> deribit_adapter \<Rightarrow> deribit_adapter" where
  "db_step hash (Db_Begin req) = db_begin_order req"
| "db_step hash (Db_Finish r now) = db_finish_order r now"
| "db_step hash (Db_Cancel req r) = db_send_cancel req r"
| "db_step hash (Db_Cancel_All req) = db_send_cancel_all req"
| "db_step hash (Db_Modify req r) = db_send_modify req r"
| "db_step hash (Db_Request m ps r) = db_send_and_wait m ps r"
| "db_step hash (Db_Time_Out i) = db_time_out i"
| "db_step hash (Db_Message payload recv) = (\<lambda>a. let (returned, a) = db_handle_message hash payload recv a in a\<lparr>db_closing := \<not> returned\<rparr>)"
| "db_step hash (Db_Drain send) = db_drain send"
| "db_step hash (Db_Connect up) = db_connect up"
| "db_step hash (Db_Write written) = db_write written"
| "db_step hash Db_End = db_end_session"

text \<open>The states reached from one by a list of steps, latest last.\<close>

inductive db_reaches :: "(string \<Rightarrow> u64) \<Rightarrow> deribit_adapter \<Rightarrow> db_call list \<Rightarrow> deribit_adapter \<Rightarrow> bool" for hash a where
  none: "db_reaches hash a [] a"
| step: "db_reaches hash a cs b \<Longrightarrow> db_enabled c b \<Longrightarrow> db_reaches hash a (cs @ [c]) (db_step hash c b)"

subsection \<open>Frames\<close>

definition frame_id :: "json_object \<Rightarrow> u64" where
  "frame_id f = (case get_at f ''id'' of Some (J_Uint i) \<Rightarrow> i | _ \<Rightarrow> 0)"

definition held_ids :: "deribit_adapter \<Rightarrow> u64 list" where
  "held_ids a = map frame_id (db_pending a) @ (case db_executor a of None \<Rightarrow> [] | Some (req, f, flag) \<Rightarrow> [frame_id f]) @ map frame_id (db_posted a)"

definition all_ids :: "deribit_adapter \<Rightarrow> u64 list" where
  "all_ids a = held_ids a @ map frame_id (db_written a)"

text \<open>Every frame anywhere has its own id, below the next one.\<close>

definition framed :: "deribit_adapter \<Rightarrow> bool" where
  "framed a \<longleftrightarrow> distinct (all_ids a) \<and> (\<forall>i \<in> set (all_ids a). unat i < unat (db_next_id a))"

lemma frame_id_rpc [simp]:
  "frame_id (serialise_rpc m ps i) = i" "frame_id (build_auth_msg c s i) = i" "frame_id (build_new_order_msg spec i) = i"
  "frame_id (build_cancel_msg x i) = i" "frame_id (build_edit_msg x p q i) = i" "frame_id (build_test_response i) = i"
  "frame_id (build_simple_rpc m ps i) = i"
  by (simp_all add: frame_id_def serialise_rpc_def build_auth_msg_def build_new_order_msg_def build_cancel_msg_def build_edit_msg_def
      build_test_response_def build_simple_rpc_def)

lemma distinct_part: "mset xs \<subseteq># mset ys \<Longrightarrow> distinct ys \<Longrightarrow> distinct xs"
proof -
  assume sub: "mset xs \<subseteq># mset ys" and ys: "distinct ys"
  have "count (mset xs) x = (if x \<in> set xs then 1 else 0)" for x
  proof -
    have "count (mset xs) x \<le> count (mset ys) x" using sub by (rule mset_subset_eq_count)
    also have "\<dots> \<le> 1" using ys by (simp add: distinct_count_atmost_1)
    finally have le: "count (mset xs) x \<le> 1" .
    have pos: "0 < count (mset xs) x \<longleftrightarrow> x \<in> set xs" by simp
    have "count (mset xs) x = 1" if "x \<in> set xs" using le pos that by linarith
    moreover have "count (mset xs) x = 0" if "x \<notin> set xs" using pos that by linarith
    ultimately show ?thesis by simp
  qed
  then show "distinct xs" by (simp add: distinct_count_atmost_1)
qed

text \<open>What a step changes of the frames: none, one new, or frames moved and dropped.\<close>

lemma framed_same:
  "framed a \<Longrightarrow> all_ids b = all_ids a \<Longrightarrow> db_next_id b = db_next_id a \<Longrightarrow> framed b"
  by (simp add: framed_def)

lemma framed_moved:
  assumes "framed a" "mset (all_ids b) \<subseteq># mset (all_ids a)" "unat (db_next_id a) \<le> unat (db_next_id b)"
  shows "framed b"
proof -
  have "distinct (all_ids b)" using assms(1,2) distinct_part by (auto simp: framed_def)
  moreover have "set (all_ids b) \<subseteq> set (all_ids a)" using assms(2) by (metis set_mset_mono set_mset_mset)
  ultimately show ?thesis using assms(1,3) by (force simp: framed_def)
qed

lemma framed_new:
  assumes "framed a" "mset (all_ids b) \<subseteq># add_mset (db_next_id a) (mset (all_ids a))"
    and "db_next_id b = db_next_id a + 1" "unat (db_next_id a) + 1 < 2 ^ 64"
  shows "framed b"
proof -
  have n: "unat (db_next_id b) = unat (db_next_id a) + 1" using assms(3,4) unat_inc [of "db_next_id a"] by simp
  have "distinct (db_next_id a # all_ids a)" using assms(1) by (auto simp: framed_def)
  then have "distinct (all_ids b)" using assms(2) distinct_part [of "all_ids b" "db_next_id a # all_ids a"] by simp
  moreover have "set (all_ids b) \<subseteq> insert (db_next_id a) (set (all_ids a))"
    using assms(2) by (metis set_mset_mono set_mset_mset set_mset_add_mset_insert)
  ultimately show ?thesis using assms(1) n by (force simp: framed_def)
qed

lemma framed_post:
  assumes "framed a" "unat (db_next_id a) + 1 < 2 ^ 64" "\<And>i. frame_id (f i) = i"
  shows "framed (db_post r f a)"
  using assms by (intro framed_new [OF assms(1)]) (auto simp: db_post_def all_ids_def held_ids_def)

lemma post_next_id [simp]: "db_next_id (db_post r f a) = db_next_id a + 1"
  by (simp add: db_post_def)

lemma drain_mset: "drain_pending send fs = (sent, left) \<Longrightarrow> mset sent + mset left \<subseteq># mset fs"
proof (induction fs arbitrary: sent left)
  case (Cons f fs)
  then show ?case
    by (cases "send f"; cases "drain_pending send fs") (auto simp: subset_mset.order_trans [OF _ mset_subset_eq_add_right])
qed simp

lemma framed_posts:
  assumes "framed a" "unat (db_next_id a) + 3 < 2 ^ 64" "\<And>i. frame_id (f i) = i" "\<And>i. frame_id (g i) = i" "\<And>i. frame_id (h i) = i"
  shows "framed (db_post r h (db_post r g (db_post r f a))) \<and> unat (db_next_id a + 1 + 1 + 1) = unat (db_next_id a) + 3"
proof -
  have n: "unat (db_next_id a + 1) = unat (db_next_id a) + 1" using assms(2) by (intro unat_inc) simp
  have n2: "unat (db_next_id a + 1 + 1) = unat (db_next_id a) + 2" using assms(2) n unat_inc [of "db_next_id a + 1"] by simp
  have n3: "unat (db_next_id a + 1 + 1 + 1) = unat (db_next_id a) + 3" using assms(2) n2 unat_inc [of "db_next_id a + 1 + 1"] by simp
  have 1: "framed (db_post r f a)" using assms(1-3) by (intro framed_post) simp_all
  then have 2: "framed (db_post r g (db_post r f a))" using assms(2,4) n by (intro framed_post [OF 1]) simp_all
  then show ?thesis using assms(2,5) n2 n3 by (intro conjI framed_post [OF 2]) simp_all
qed

text \<open>What a frame of the session does to the frames.\<close>

lemma message_cases:
  assumes "db_handle_message hash payload recv a = (returned, b)"
  obtains (same) "all_ids b = all_ids a" "db_next_id b = db_next_id a" "db_pending b = db_pending a" "db_draining b = db_draining a"
  | (test) "b = db_post Sent build_test_response a"
  | (login) "b = db_login a" "\<exists>ob. payload = Some (J_Object ob) \<and> get_at ob ''method'' = None \<and>
      (\<exists>res. Option.bind (get_at ob ''result'') as_object = Some res \<and> contains res ''access_token'')"
proof -
  note thesis_rules = same test login
  show thesis
  proof (cases payload)
    case (Some root)
    show thesis
    proof (cases root)
      case (J_Object ob)
      note p = assms [unfolded db_handle_message_def Some J_Object]
      show thesis
      proof (cases "get_at ob ''method''")
        case (Some m)
        then show thesis using p thesis_rules(1,2)
          by (auto simp: db_heartbeat_def db_subscription_def db_decoded_def all_ids_def held_ids_def split_def Let_def
              split: option.splits json.splits if_splits)
      next
        case None
        then show thesis using p thesis_rules(1,3)
          by (auto simp: db_response_def db_decoded_def all_ids_def held_ids_def split_def Let_def \<open>payload = Some root\<close> J_Object
              split: option.splits json.splits if_splits)
      qed
    qed (use assms Some thesis_rules(1) in \<open>auto simp: db_handle_message_def\<close>)
  qed (use assms thesis_rules(1) in \<open>auto simp: db_handle_message_def\<close>)
qed

lemma unat_next_le: "unat (i + 1) \<le> unat i + 1" for i :: u64
  by (cases "unat i + 1 < 2 ^ 64") (simp_all add: unat_inc unat_word_ariths)

lemma framed_step:
  assumes "framed a" "unat (db_next_id a) + 3 < 2 ^ 64"
  shows "framed (db_step hash c a) \<and> unat (db_next_id (db_step hash c a)) \<le> unat (db_next_id a) + 3"
proof -
  have small: "unat (db_next_id a) + 1 < 2 ^ 64" using assms(2) by simp
  note next_id = unat_inc [of "db_next_id a"] small
  note post = framed_post [OF assms(1) small]
  show ?thesis
  proof (cases c)
    case (Db_Begin req)
    have "framed (db_begin_order req a)" if "db_executor a = None"
      using assms(1) small that
      by (intro framed_new [OF assms(1) _ _ small]) (auto simp: db_begin_order_def all_ids_def held_ids_def Let_def)
    moreover have "framed (db_begin_order req a)"
      using small by (intro framed_new [OF assms(1) _ _ small])
        (auto simp: db_begin_order_def all_ids_def held_ids_def Let_def split: option.split)
    ultimately show ?thesis using Db_Begin next_id by (simp add: db_begin_order_def Let_def)
  next
    case (Db_Finish r now)
    have "framed (db_finish_order r now a) \<and> db_next_id (db_finish_order r now a) = db_next_id a"
    proof (cases "db_executor a")
      case (Some x)
      obtain req f flag where x: "x = (req, f, flag)" by (cases x)
      show ?thesis using Some x
        by (intro conjI framed_moved [OF assms(1)]) (auto simp: db_finish_order_def db_reject_def all_ids_def held_ids_def Let_def)
    qed (use assms(1) in \<open>simp add: db_finish_order_def\<close>)
    then show ?thesis using Db_Finish by simp
  next
    case (Db_Message payload recv)
    obtain returned b where b: "db_handle_message hash payload recv a = (returned, b)" by (cases "db_handle_message hash payload recv a")
    have "framed b \<and> unat (db_next_id b) \<le> unat (db_next_id a) + 3"
      using b
    proof (cases rule: message_cases)
      case same
      then show ?thesis using assms(1) framed_same by simp
    next
      case test
      then show ?thesis using post next_id by simp
    next
      case login
      have "framed (a\<lparr>db_logged_in := True\<rparr>)" using assms(1) by (rule framed_same) (simp_all add: all_ids_def held_ids_def)
      from framed_posts [OF this, where r = Sent and f = "build_simple_rpc ''private/enable_cancel_on_disconnect'' []"
          and g = "build_simple_rpc ''public/set_heartbeat'' [(''interval'', J_Int 10)]"
          and h = "build_simple_rpc ''private/subscribe'' [(''channels'', J_Array [J_String ''user.orders.any.raw''])]"]
      have "framed (db_login a) \<and> unat (db_next_id (db_login a)) = unat (db_next_id a) + 3"
        using assms(2) unfolding db_login_def by (auto elim: framed_same simp: all_ids_def held_ids_def)
      then show ?thesis using login(1) by simp
    qed
    moreover have "framed (b\<lparr>db_closing := \<not> returned\<rparr>)" if "framed b" using that by (rule framed_same) (simp_all add: all_ids_def held_ids_def)
    ultimately show ?thesis using Db_Message b by simp
  next
    case (Db_Drain send)
    obtain sent left where d: "drain_pending send (db_pending a) = (sent, left)" by (cases "drain_pending send (db_pending a)")
    have "image_mset frame_id (mset sent + mset left) \<subseteq># image_mset frame_id (mset (db_pending a))"
      using drain_mset [OF d] by (rule image_mset_subseteq_mono)
    then have "framed (db_drain send a)" using d
      by (intro framed_moved [OF assms(1)]) (auto simp: db_drain_def all_ids_def held_ids_def ac_simps)
    then show ?thesis using Db_Drain d by (simp add: db_drain_def)
  next
    case (Db_Connect up)
    have f: "framed (a\<lparr>db_logged_in := False, db_decoder := dd_reset (db_decoder a), db_running := u\<rparr>)" for u
      using assms(1) by (rule framed_same) (simp_all add: all_ids_def held_ids_def)
    have f0: "framed (a\<lparr>db_logged_in := False, db_decoder := dd_reset (db_decoder a)\<rparr>)"
      using assms(1) by (rule framed_same) (simp_all add: all_ids_def held_ids_def)
    then show ?thesis using Db_Connect next_id framed_post [OF f] by (simp add: db_connect_def Let_def)
  next
    case (Db_Write written)
    have "framed (db_write written a)"
      by (intro framed_moved [OF assms(1)]) (auto simp: db_write_def all_ids_def held_ids_def split: list.split)
    then show ?thesis using Db_Write by (simp add: db_write_def split: list.split)
  next
    case (Db_Request m ps r)
    have "framed (db_post r (build_simple_rpc m ps) a\<lparr>db_waiters := ws\<rparr>)" for ws
      using post [of "build_simple_rpc m ps" r] by (rule framed_same) (simp_all add: all_ids_def held_ids_def)
    then show ?thesis using Db_Request post next_id by (simp add: db_send_and_wait_def Let_def)
  next
    case (Db_Time_Out i)
    have "framed (db_time_out i a)" using assms(1) by (rule framed_same) (simp_all add: db_time_out_def all_ids_def held_ids_def)
    then show ?thesis using Db_Time_Out by (simp add: db_time_out_def)
  next
    case Db_End
    have "framed (db_end_session a)" using assms(1) by (rule framed_same) (simp_all add: db_end_session_def all_ids_def held_ids_def)
    then show ?thesis using Db_End by (simp add: db_end_session_def)
  qed (use assms(1) post next_id in \<open>simp_all add: db_send_cancel_def db_send_cancel_all_def db_send_modify_def Let_def\<close>)
qed

lemma framed_make: "framed (db_make cid secret session)"
  by (simp add: framed_def all_ids_def held_ids_def db_make_def)

lemma framed_reached:
  assumes "db_reaches hash a cs b" "framed a" "unat (db_next_id a) + 3 * length cs < 2 ^ 64"
  shows "framed b \<and> unat (db_next_id b) \<le> unat (db_next_id a) + 3 * length cs"
  using assms
proof (induction rule: db_reaches.induct)
  case (step cs b c)
  then have b: "framed b" "unat (db_next_id b) \<le> unat (db_next_id a) + 3 * length cs" by simp_all
  then show ?case using framed_step [OF b(1), of hash c] step.prems by simp
qed simp

text \<open>
  C22: nothing is sent twice. In any interleaving of the two threads, over any number of sessions, failed sends and
  exceptions, the frames written to the socket have distinct request ids and none of them is still pending, posted or held by the
  sending thread: no order is placed twice, and none is replayed after a reconnect.
\<close>

theorem deribit_frame_once:
  assumes "db_reaches hash (db_make cid secret session) cs b" "3 * length cs + 1 < 2 ^ 64"
  shows "distinct (map frame_id (db_written b)) \<and> frame_id ` set (db_written b) \<inter> set (held_ids b) = {}"
proof -
  have "unat (db_next_id (db_make cid secret session)) + 3 * length cs < 2 ^ 64" using assms(2) by (simp add: db_make_def)
  then have "framed b" using framed_reached [OF assms(1) framed_make] by simp
  then show ?thesis by (auto simp: framed_def all_ids_def)
qed

subsection \<open>Orders that wait\<close>

text \<open>The reply to the login.\<close>

fun logs_in :: "db_call \<Rightarrow> bool" where
  "logs_in (Db_Message (Some (J_Object ob)) recv) \<longleftrightarrow>
     (case Option.bind (get_at ob ''result'') as_object of Some res \<Rightarrow> contains res ''access_token'' | None \<Rightarrow> False)"
| "logs_in _ \<longleftrightarrow> False"

lemma reaches_Cons:
  "db_reaches hash a (c # cs) b \<longleftrightarrow> db_enabled c a \<and> db_reaches hash (db_step hash c a) cs b"
proof
  have "ds = c # cs \<Longrightarrow> db_enabled c a \<and> db_reaches hash (db_step hash c a) cs b" if "db_reaches hash a ds b" for ds
    using that
  proof (induction arbitrary: cs rule: db_reaches.induct)
    case (step ds b d)
    show ?case
    proof (cases ds)
      case Nil
      then have "b = a" using step(1) by (auto elim: db_reaches.cases)
      then show ?thesis using Nil step(2,4) by (auto intro: db_reaches.none)
    next
      case (Cons e es)
      then have "e = c" "cs = es @ [d]" using step(4) by simp_all
      then show ?thesis using Cons step(3) [of es] db_reaches.step [OF _ step(2)] by simp
    qed
  qed simp
  then show "db_reaches hash a (c # cs) b \<Longrightarrow> db_enabled c a \<and> db_reaches hash (db_step hash c a) cs b" by simp
next
  have "db_reaches hash (db_step hash c a) cs b \<Longrightarrow> db_enabled c a \<Longrightarrow> db_reaches hash a (c # cs) b"
  proof (induction rule: db_reaches.induct)
    case none
    then show ?case using db_reaches.step [OF db_reaches.none] by fastforce
  next
    case (step cs b d)
    then show ?case using db_reaches.step [of hash a "c # cs"] by simp
  qed
  then show "db_enabled c a \<and> db_reaches hash (db_step hash c a) cs b \<Longrightarrow> db_reaches hash a (c # cs) b" by simp
qed

lemma pending_kept_step:
  assumes "\<not> db_draining a" "db_enabled c a" "\<not> logs_in c"
  shows "(\<exists>more. db_pending (db_step hash c a) = db_pending a @ more) \<and> \<not> db_draining (db_step hash c a)"
proof (cases c)
  case (Db_Message payload recv)
  obtain returned b where b: "db_handle_message hash payload recv a = (returned, b)" by (cases "db_handle_message hash payload recv a")
  then show ?thesis
  proof (cases rule: message_cases)
    case login
    then show ?thesis using assms(3) Db_Message by auto
  qed (use Db_Message b assms(1) in \<open>simp_all add: db_post_def\<close>)
qed (use assms in \<open>auto simp: db_begin_order_def db_finish_order_def db_reject_def db_send_cancel_def db_send_cancel_all_def db_send_modify_def
    db_send_and_wait_def db_time_out_def db_connect_def db_write_def db_end_session_def db_post_def Let_def split: option.split list.split\<close>)

lemma pending_kept:
  assumes "db_reaches hash a cs b" "\<not> db_draining a" "list_all (\<lambda>c. \<not> logs_in c) cs"
  shows "(\<exists>more. db_pending b = db_pending a @ more) \<and> \<not> db_draining b"
  using assms
proof (induction rule: db_reaches.induct)
  case (step cs b c)
  then show ?case using pending_kept_step [of b c hash] by fastforce
qed simp

text \<open>
  An order can miss the login it waits for. When the sending thread has seen that the session is not logged in, and
  the reply to the login is handled and the pending frames are drained before it queues the frame, the frame stays pending while the adapter is logged in:
  whatever happens next, it is not sent before another login.
\<close>

theorem deribit_order_stranded:
  assumes "db_reaches hash a [Db_Begin req, Db_Message payload recv, Db_Drain send, Db_Finish r now] b" "\<not> db_logged_in a" "\<not> db_draining a"
    and "db_reaches hash b cs c" "list_all (\<lambda>c. \<not> logs_in c) cs"
  shows "db_logged_in b \<and> build_new_order_msg (db_spec_of req (db_label a (nr_order_id req))) (db_next_id a) \<in> set (db_pending c)"
proof -
  let ?f = "build_new_order_msg (db_spec_of req (db_label a (nr_order_id req))) (db_next_id a)"
  let ?a = "db_begin_order req a"
  obtain returned l where l: "db_handle_message hash payload recv ?a = (returned, l)" by (cases "db_handle_message hash payload recv ?a")
  have "db_draining l" using assms(1) l by (simp add: reaches_Cons)
  moreover have "\<not> db_draining ?a" using assms(3) by (simp add: db_begin_order_def Let_def)
  ultimately have l': "l = db_login ?a" by (cases rule: message_cases [OF l]) (simp_all add: db_post_def)
  have "db_reaches hash (db_finish_order r now (db_drain send (l\<lparr>db_closing := \<not> returned\<rparr>))) [] b" using assms(1) l by (simp add: reaches_Cons)
  then have "b = db_finish_order r now (db_drain send (l\<lparr>db_closing := \<not> returned\<rparr>))" by (auto elim: db_reaches.cases)
  then have b: "db_logged_in b" "?f \<in> set (db_pending b)" "\<not> db_draining b"
    using assms(2) unfolding l' by (simp_all add: db_login_def db_drain_def db_finish_order_def db_begin_order_def db_post_def Let_def split_def)
  then show ?thesis using pending_kept [OF assms(4) b(3) assms(5)] by auto
qed

text \<open>
  C23: an order that Deribit refuses is never answered. The error response to its request is logged and nothing
  else: no event is made, so the strategy keeps a pending order and the gateway its slot, and since the order has no
  exchange id a cancel of it sends nothing.
\<close>

theorem deribit_refusal_unanswered:
  assumes "db_logged_in a" "db_next_id a \<notin> set (db_waiters a)" "map_of (dd_exch_oids (db_decoder a)) (nr_order_id req) = None"
    and "get_at ob ''method'' = None" "get_at ob ''id'' = Some (J_Uint (db_next_id a))" "get_at ob ''error'' = Some err"
    and "b = db_send_new_order req Sent now a" "c = snd (db_handle_message hash (Some (J_Object ob)) recv b)"
  shows "db_exec_events c = db_exec_events a \<and> db_rest_events c = db_rest_events a \<and>
    db_send_cancel \<lparr>cr_order_id = nr_order_id req, cr_native_symbol = native\<rparr> r c = c"
proof -
  have b: "db_waiters b = db_waiters a" "db_exec_events b = db_exec_events a" "db_rest_events b = db_rest_events a"
    "dd_exch_oids (db_decoder b) = dd_exch_oids (db_decoder a)"
    using assms(1,7) by (simp_all add: db_send_new_order_def db_begin_order_def db_finish_order_def dd_register_order_def Let_def)
  have "c = b" using assms(2,4,5,6,8) b(1) by (simp add: db_handle_message_def db_response_def)
  then show ?thesis using b assms(3) by (simp add: db_send_cancel_def get_exchange_order_id_def)
qed

text \<open>The response to an order, and a push of the order channel.\<close>

definition order_reply :: "u64 \<Rightarrow> json_object \<Rightarrow> json" where
  "order_reply i d = J_Object [(''jsonrpc'', J_String ''2.0''), (''id'', J_Uint i), (''result'', J_Object [(''order'', J_Object d)])]"

definition order_push :: "json_object \<Rightarrow> json" where
  "order_push d = J_Object [(''jsonrpc'', J_String ''2.0''), (''method'', J_String ''subscription''),
     (''params'', J_Object [(''channel'', J_String ''user.orders.any.raw''), (''data'', J_Object d)])]"

text \<open>
  An order filled at once is reported filled twice, by the response to its request and by the order channel,
  in whichever order they come: the suppression of duplicates covers acknowledgements and cancels of the channel only.
\<close>

theorem deribit_fill_reported_twice:
  assumes "i \<notin> set (db_waiters a)" "dd_order_id (db_decoder a) (string_at d ''label'') = oid" "oid \<noteq> 0"
    and "string_at d ''order_state'' = ''filled''" "deribit_response_event hash d recv oid = Some e" "subscription_event hash d recv' oid = Some e'"
  shows "ev_status e = ES_FILLED \<and> ev_status e' = ES_FILLED \<and> ev_order_id e = oid \<and> ev_order_id e' = oid \<and>
    db_exec_events (snd (db_handle_message hash (Some (order_push d)) recv' (snd (db_handle_message hash (Some (order_reply i d)) recv a)))) =
      db_exec_events a @ [e, e'] \<and>
    db_exec_events (snd (db_handle_message hash (Some (order_reply i d)) recv (snd (db_handle_message hash (Some (order_push d)) recv' a)))) =
      db_exec_events a @ [e', e]"
proof -
  have e: "ev_status e = ES_FILLED" "ev_order_id e = oid" using assms(4,5)
    by (auto simp: deribit_response_event_def order_state_status_def bind_eq_Some_conv Let_def)
  have e': "ev_status e' = ES_FILLED" "ev_order_id e' = oid" using assms(4,6)
    by (auto simp: subscription_event_def order_state_status_def bind_eq_Some_conv Let_def)
  have labels: "dd_order_id (learn_exch_oid x j dec) = dd_order_id dec" for x j dec
    by (simp add: learn_exch_oid_def dd_order_id_def fun_eq_iff)
  have reply: "deribit_order_response hash d recv dec = ([e], True, learn_exch_oid (string_at d ''order_id'') oid dec)"
    if "dd_order_id dec (string_at d ''label'') = oid" for dec
    using that assms(3-5) by (simp add: deribit_order_response_def Let_def)
  have push: "\<exists>dec'. handle_subscription_event hash d recv' dec = ([e'], True, dec') \<and> dd_order_id dec' = dd_order_id dec"
    if "dd_order_id dec (string_at d ''label'') = oid" for dec
    using that assms(3,6) e'(1) labels
    by (auto simp: handle_subscription_event_def dd_suppress_def Let_def dd_order_id_def fun_eq_iff)
  obtain dec' where dec': "handle_subscription_event hash d recv' (db_decoder a) = ([e'], True, dec')" "dd_order_id dec' = dd_order_id (db_decoder a)"
    using push assms(2) by blast
  obtain dec'' where dec'': "handle_subscription_event hash d recv' (learn_exch_oid (string_at d ''order_id'') oid (db_decoder a)) = ([e'], True, dec'')"
    using push [of "learn_exch_oid (string_at d ''order_id'') oid (db_decoder a)"] assms(2) labels by auto
  show ?thesis using e e' assms(1,2) reply dec' dec'' labels
    by (simp add: db_handle_message_def order_push_def order_reply_def db_response_def db_subscription_def db_decoded_def contains_def)
qed

subsection \<open>Amounts\<close>

text \<open>
  An amount comes back as it was sent, or one unit less. A quantity below \<open>2 ^ 51\<close> is sent as the nearest double of the
  amount, and the decoder scales the double and cuts it off: the product can fall short of the quantity, never by more than one.
\<close>

theorem deribit_amount_cut:
  assumes "uint q < 2 ^ 51"
  shows "cut_u64 (number_of (J_Double (db_amount q))) \<in> {Some q, Some (q - 1)}"
proof (cases "q = 0")
  case True
  have "d_to_int 0 (2 ^ 64) (db_amount 0 * e8) = Some 0" by code_simp
  then show ?thesis using True by (simp add: cut_u64_def)
next
  case False
  define z where "z = round64 (of_int (uint q) / 10 ^ 8) * 10 ^ 8"
  have "uint q \<noteq> 0" using False by (metis uint_0_iff)
  moreover have "0 \<le> uint q" by simp
  ultimately have q1: "1 \<le> uint q" by linarith
  have "(of_int (uint q) :: rat) < of_int (2 ^ 51)" using assms by (simp only: of_int_less_iff)
  moreover have "(1 :: rat) \<le> of_int (uint q)" using q1 by (simp only: of_int_1_le_iff)
  ultimately have q: "(of_int (uint q) :: rat) < of_int (2 ^ 51)" "(1 :: rat) \<le> of_int (uint q)" by this+
  have near: "\<bar>z - of_int (uint q)\<bar> < 1 / 2" unfolding z_def using assms by (intro e8_error) simp
  then have z: "1 / 2 < z" "z < of_int (2 ^ 51) + 1" using q by linarith+
  have "pow2 (- 1022) \<le> pow2 (- 1)" by (rule pow2_mono) simp
  then have "pow2 (- 1022) \<le> \<bar>z\<bar>" using z(1) by (simp add: pow2_def)
  then have "\<bar>round64 z - z\<bar> \<le> \<bar>z\<bar> * pow2 (- 53)" by (rule round64_error)
  also have "\<dots> \<le> 2 ^ 52 * pow2 (- 53)" using z by (intro mult_right_mono) simp_all
  also have "\<dots> = 1 / 2" by (simp add: pow2_def)
  finally have y: "\<bar>round64 z - of_int (uint q)\<bar> < 1" using near by linarith
  have amount: "db_amount q * e8 = Fin (round64 z)"
    using assms z small_quotient [of "uint q"] to_double_small [of z] by (simp add: db_amount_def e8_Fin z_def)
  have pos: "0 \<le> round64 z" using z(1) by (intro round64_nonneg) simp
  have fl: "floor (round64 z) = uint q \<or> floor (round64 z) = uint q - 1" using y by linarith
  have "round64 z < of_int (2 ^ 51) + 1" using y q(1) by linarith
  then have "round64 z < 2 ^ 64" by simp
  then have "d_to_int 0 (2 ^ 64) (db_amount q * e8) = Some (floor (round64 z))"
    using fl pos q1 assms unfolding amount by (auto simp: d_trunc_def Let_def)
  then show ?thesis using fl by (auto simp: cut_u64_def)
qed

text \<open>
  The drain after a login loses nothing silently. The frames sent are a prefix of the pending ones in their order, and
  what is neither sent nor kept is at most the one frame whose send threw.
\<close>

theorem deribit_drain_exact:
  "\<exists>sent dropped. db_pending a = sent @ dropped @ db_pending (db_drain send a) \<and> db_posted (db_drain send a) = db_posted a @ sent \<and>
    length dropped \<le> 1 \<and> list_all (\<lambda>f. send f = Send_Throws) dropped \<and> list_all (\<lambda>f. send f = Sent) sent"
proof -
  have "\<exists>sent dropped left. drain_pending send fs = (sent, left) \<and> fs = sent @ dropped @ left \<and> length dropped \<le> 1 \<and>
      list_all (\<lambda>f. send f = Send_Throws) dropped \<and> list_all (\<lambda>f. send f = Sent) sent" for fs
  proof (induction fs)
    case (Cons f fs)
    then obtain sent dropped left where h: "drain_pending send fs = (sent, left)" "fs = sent @ dropped @ left" "length dropped \<le> 1"
      "list_all (\<lambda>f. send f = Send_Throws) dropped" "list_all (\<lambda>f. send f = Sent) sent" by blast
    show ?case
    proof (cases "send f")
      case Sent
      then show ?thesis using h by (intro exI [of _ "f # sent"] exI [of _ dropped] exI [of _ left]) simp
    next
      case Not_Running
      then show ?thesis by (intro exI [of _ "[]"] exI [of _ "[]"] exI [of _ "f # fs"]) simp
    next
      case Send_Throws
      then show ?thesis by (intro exI [of _ "[]"] exI [of _ "[f]"] exI [of _ fs]) simp
    qed
  qed simp
  then obtain sent dropped left where "drain_pending send (db_pending a) = (sent, left)" "db_pending a = sent @ dropped @ left"
    "length dropped \<le> 1" "list_all (\<lambda>f. send f = Send_Throws) dropped" "list_all (\<lambda>f. send f = Sent) sent" by blast
  then show ?thesis by (intro exI [of _ sent] exI [of _ dropped]) (simp add: db_drain_def)
qed

subsection \<open>Examples\<close>

fun db_follow :: "(string \<Rightarrow> u64) \<Rightarrow> db_call list \<Rightarrow> deribit_adapter \<Rightarrow> deribit_adapter option" where
  "db_follow hash [] a = Some a"
| "db_follow hash (c # cs) a = (if db_enabled c a then db_follow hash cs (db_step hash c a) else None)"

lemma follow_reaches: "db_follow hash cs a = Some b \<Longrightarrow> db_reaches hash a cs b"
  by (induction cs arbitrary: a) (auto simp: reaches_Cons intro: db_reaches.none split: if_splits)

definition perp_order :: new_order_request where
  "perp_order = \<lparr> nr_order_id = 7, nr_instrument_id = 1, nr_price = 100000000, nr_quantity = 230000000, nr_side = BUY,
     nr_order_type = OT_LIMIT, nr_tif = IOC, nr_exec_inst = 0, nr_exchange_symbol = ''BTC-PERPETUAL'' \<rparr>"

definition login_reply :: "db_call" where
  "login_reply = Db_Message (Some (J_Object [(''id'', J_Uint 1), (''result'', J_Object [(''access_token'', J_String ''t'')])])) 3"

definition two_orders :: "db_call list" where
  "two_orders = [Db_Begin perp_order, Db_Finish Not_Running 2, Db_Connect True, Db_Write True, login_reply, Db_Drain (\<lambda>f. Sent),
     Db_Begin (perp_order\<lparr>nr_order_id := 8\<rparr>), Db_Finish Sent 4] @ replicate 5 (Db_Write True)"

theorem deribit_frame_once_witness:
  "\<exists>b. db_reaches (\<lambda>s. 0) (db_make ''c'' ''s'' ''0'') two_orders b \<and> map frame_id (db_written b) = [2, 3, 4, 5, 1, 6] \<and>
    frame_id ` set (db_written b) \<inter> set (held_ids b) = {}"
proof -
  have "map_option (\<lambda>b. map frame_id (db_written b)) (db_follow (\<lambda>s. 0) two_orders (db_make ''c'' ''s'' ''0'')) = Some [2, 3, 4, 5, 1, 6]"
    by code_simp
  then obtain b where b: "db_follow (\<lambda>s. 0) two_orders (db_make ''c'' ''s'' ''0'') = Some b" "map frame_id (db_written b) = [2, 3, 4, 5, 1, 6]"
    by (auto simp: map_option_eq_Some)
  have "3 * length two_orders + 1 < 2 ^ 64" by (simp add: two_orders_def)
  from deribit_frame_once [OF follow_reaches [OF b(1)] this] b show ?thesis by (intro exI [of _ b] conjI follow_reaches) simp_all
qed

definition session_up :: deribit_adapter where
  "session_up = (db_make ''c'' ''s'' ''0'')\<lparr>db_running := True, db_next_id := 2\<rparr>"

theorem deribit_order_stranded_witness:
  "\<exists>b. db_reaches (\<lambda>s. 0) session_up [Db_Begin perp_order, login_reply, Db_Drain (\<lambda>f. Sent), Db_Finish Sent 4] b \<and> db_logged_in b \<and>
    build_new_order_msg (db_spec_of perp_order (db_label session_up 7)) 2 \<in> set (db_pending b)"
proof -
  let ?cs = "[Db_Begin perp_order, login_reply, Db_Drain (\<lambda>f. Sent), Db_Finish Sent 4]"
  have "map_option db_logged_in (db_follow (\<lambda>s. 0) ?cs session_up) = Some True" by code_simp
  then obtain b where "db_follow (\<lambda>s. 0) ?cs session_up = Some b" by (auto simp: map_option_eq_Some)
  then have b: "db_reaches (\<lambda>s. 0) session_up ?cs b" by (rule follow_reaches)
  have "db_logged_in b \<and> build_new_order_msg (db_spec_of perp_order (db_label session_up (nr_order_id perp_order))) (db_next_id session_up)
      \<in> set (db_pending b)"
    using b unfolding login_reply_def
    by (rule deribit_order_stranded [OF _ _ _ db_reaches.none]) (simp_all add: session_up_def db_make_def)
  with b show ?thesis by (intro exI [of _ b]) (simp add: perp_order_def session_up_def)
qed

theorem deribit_refusal_unanswered_witness:
  "db_exec_events (snd (db_handle_message (\<lambda>s. 0) (Some (J_Object [(''id'', J_Uint 2), (''error'', J_Object [(''code'', J_Int 10009)])])) 9
    (db_send_new_order perp_order Sent 4 (session_up\<lparr>db_logged_in := True\<rparr>)))) = []"
  using deribit_refusal_unanswered [of "session_up\<lparr>db_logged_in := True\<rparr>" perp_order
      "[(''id'', J_Uint 2), (''error'', J_Object [(''code'', J_Int 10009)])]" "J_Object [(''code'', J_Int 10009)]" _ 4 _ "\<lambda>s. 0" 9, OF _ _ _ _ _ _ refl refl]
  by (simp add: session_up_def db_make_def)

definition filled_order :: json_object where
  "filled_order = [(''label'', J_String ''0G7''), (''direction'', J_String ''buy''), (''order_type'', J_String ''limit''),
     (''average_price'', J_Double (Fin 1)), (''filled_amount'', J_Double (Fin 2)), (''amount'', J_Double (Fin 2)), (''order_state'', J_String ''filled'')]"

definition order_known :: deribit_adapter where
  "order_known = session_up\<lparr>db_logged_in := True, db_decoder := dd_register_order ''0G7'' 7 (db_decoder session_up)\<rparr>"

theorem deribit_fill_reported_twice_witness:
  "map (\<lambda>e. (ev_order_id e, ev_status e, ev_filled_qty e)) (db_exec_events (snd (db_handle_message (\<lambda>s. 0) (Some (order_push filled_order)) 9
    (snd (db_handle_message (\<lambda>s. 0) (Some (order_reply 3 filled_order)) 8 order_known))))) = replicate 2 (7, ES_FILLED, 200000000)"
proof -
  have "map_option ev_filled_qty (deribit_response_event (\<lambda>s. 0) filled_order 8 7) = Some 200000000"
    "map_option ev_filled_qty (subscription_event (\<lambda>s. 0) filled_order 9 7) = Some 200000000" by code_simp+
  then obtain e e' where e: "deribit_response_event (\<lambda>s. 0) filled_order 8 7 = Some e" "ev_filled_qty e = 200000000"
    and e': "subscription_event (\<lambda>s. 0) filled_order 9 7 = Some e'" "ev_filled_qty e' = 200000000"
    by (auto simp: map_option_eq_Some)
  have d: "dd_order_id (db_decoder order_known) (string_at filled_order ''label'') = 7" "string_at filled_order ''order_state'' = ''filled''"
    and a: "3 \<notin> set (db_waiters order_known)" "db_exec_events order_known = []" by code_simp+
  from deribit_fill_reported_twice [OF a(1) d(1) _ d(2) e(1) e'(1)]
  have "db_exec_events (snd (db_handle_message (\<lambda>s. 0) (Some (order_push filled_order)) 9
      (snd (db_handle_message (\<lambda>s. 0) (Some (order_reply 3 filled_order)) 8 order_known)))) = [e, e']"
    and "ev_order_id e = 7 \<and> ev_status e = ES_FILLED \<and> ev_order_id e' = 7 \<and> ev_status e' = ES_FILLED" using a(2) by auto
  then show ?thesis using e(2) e'(2) by (simp add: numeral_2_eq_2)
qed

theorem deribit_amount_cut_witness:
  "cut_u64 (number_of (J_Double (db_amount 230000000))) = Some 229999999"
proof -
  have "cut_u64 (number_of (J_Double (db_amount 230000000))) \<noteq> Some 230000000" by code_simp
  then show ?thesis using deribit_amount_cut [of 230000000] by simp
qed

end
