(* ===== verification/Fill_Accounting.thy ===== *)
theory Fill_Accounting
  imports Order_Processor Order_Manager Strategy_Position Binance_Adapter Okx_Adapter Hyperliquid_Adapter
    Deribit_Adapter
begin

text \<open>
  What becomes of a fill between a venue and the books of the program: the adapters (\<open>Binance_Adapter\<close>,
  \<open>Okx_Adapter\<close>, \<open>Deribit_Adapter\<close>, \<open>Hyperliquid_Exec\<close>) make the events, the poll loop (\<open>Order_Processor\<close>) hands them to the
  risk gate with its \<open>Pnl_Tracker\<close> and publishes them, and the strategy books the reports in its order records
  (\<open>Order_Manager\<close>) and its positions (\<open>Strategy_Position\<close>). The theorems compose these parts.
\<close>

subsection \<open>Fills without an instrument\<close>

definition is_fill :: "exec_event \<Rightarrow> bool" where
  "is_fill e \<longleftrightarrow> ev_status e = ES_FILLED \<or> ev_status e = ES_PARTIAL"

definition unnamed :: "exec_event \<Rightarrow> bool" where
  "unnamed e \<longleftrightarrow> (is_fill e \<longrightarrow> ev_instrument_id e = 0)"

text \<open>A part that reports events, where every step adds unnamed fills only.\<close>

locale unnamed_source =
  fixes step :: "'c \<Rightarrow> 's \<Rightarrow> 's"
    and events :: "'s \<Rightarrow> exec_event list"
  assumes step_unnamed: "list_all unnamed (events s) \<Longrightarrow> list_all unnamed (events (step c s))"
begin

lemma run_unnamed: "list_all unnamed (events s) \<Longrightarrow> list_all unnamed (events (fold step cs s))"
  by (induction cs arbitrary: s) (simp_all add: step_unnamed)

end

lemma rejection_unnamed: "unnamed (rejection ex req ts)"
  by (simp add: unnamed_def is_fill_def rejection_def)

definition bn_events :: "binance_adapter \<Rightarrow> exec_event list" where
  "bn_events a = bn_exec_events a @ bn_rest_events a"

lemma report_unnamed: "handle_execution_report ob recv ids = Some (Some e) \<Longrightarrow> ev_instrument_id e = 0"
  by (auto simp: handle_execution_report_def report_event_def Let_def bind_eq_Some_conv split: if_splits option.splits)

lemma response_unnamed: "handle_order_response ob i side ty recv = Some e \<Longrightarrow> ev_instrument_id e = 0"
  by (auto simp: handle_order_response_def response_event_def Let_def bind_eq_Some_conv split_def split: if_splits)


interpretation bn_fills: unnamed_source bn_step bn_events
proof
  fix a c assume ok: "list_all unnamed (bn_events a)"
  show "list_all unnamed (bn_events (bn_step c a))"
  proof (cases c)
    case (Bn_New req now post)
    have "list_all unnamed (bn_events (bn_push_rest e (bn_request m ps (bn_register k i a))))" if "unnamed e" for e m ps k i
      using ok that by (simp add: bn_events_def)
    moreover have "list_all unnamed (bn_events (bn_request m ps (bn_register k i a)))" for m ps k i
      using ok by (simp add: bn_events_def)
    ultimately show ?thesis using Bn_New rejection_unnamed response_unnamed
      by (auto simp: bn_send_new_order_def Let_def unnamed_def split: post_result.split option.split)
  next
    case (Bn_User_Data payload recv)
    then show ?thesis using ok report_unnamed
      by (auto simp: bn_user_data_def bn_events_def unnamed_def split: option.split json.split)
  qed (use ok in \<open>auto simp: bn_events_def bn_send_cancel_def bn_send_cancel_all_def bn_send_modify_def Let_def split: post_result.split\<close>)
qed

definition okx_events :: "okx_adapter \<Rightarrow> exec_event list" where
  "okx_events a = okx_exec_events a @ okx_rest_events a"

lemma channel_event_unnamed: "channel_event d recv i sizes = Some e \<Longrightarrow> ev_instrument_id e = 0"
  by (auto simp: channel_event_def Let_def bind_eq_Some_conv split_def)

lemma channel_items_unnamed: "list_all unnamed (fst (channel_items vs recv dec))"
proof (induction vs arbitrary: dec)
  case (Cons v vs)
  show ?case
  proof (cases "Option.bind (as_object v) (\<lambda>d. handle_orders_channel_item d recv dec)")
    case (Some r)
    obtain e dec1 where r: "r = (e, dec1)" by (cases r)
    obtain d where d: "handle_orders_channel_item d recv dec = Some (e, dec1)" using Some r by (auto simp: bind_eq_Some_conv)
    have "case e of None \<Rightarrow> True | Some e \<Rightarrow> unnamed e" using d
    proof (cases rule: channel_item_cases)
      case (2 f pass)
      then show ?thesis using channel_event_unnamed [OF 2(3)] by (simp add: unnamed_def)
    qed simp
    then show ?thesis using Some r Cons by (cases e) (simp_all add: split_def Let_def)
  qed simp
qed simp

lemma ack_items_unnamed: "list_all unnamed (ack_items vs recv dec)"
  using ack_items_rejected [of vs recv dec] by (simp add: list_all_iff unnamed_def is_fill_def)

interpretation okx_fills: unnamed_source okx_step okx_events
proof
  fix a c assume ok: "list_all unnamed (okx_events a)"
  show "list_all unnamed (okx_events (okx_step c a))"
  proof (cases c)
    case (Okx_Message payload recv)
    have "list_all unnamed (okx_events (orders_push vs recv a))" for vs
      using ok channel_items_unnamed [of vs recv "okx_decoder a"]
      by (simp add: orders_push_def okx_emit_def okx_events_def split_def Let_def)
    then have chan: "list_all unnamed (okx_events (on_channel ob recv a))" for ob
      using ok by (simp add: on_channel_def split: option.split prod.split)
    have op: "list_all unnamed (okx_events (on_op ob recv a))" for ob
      using ok ack_items_unnamed by (simp add: on_op_def okx_emit_def okx_events_def del: ack_items.simps split: option.split prod.split)
    have "list_all unnamed (okx_events (on_event ob a))" for ob
      using ok by (simp add: on_event_def okx_events_def split: option.split)
    then show ?thesis using ok op chan by (simp add: Okx_Message okx_handle_message_def split: option.split)
  qed (use ok rejection_unnamed in \<open>auto simp: okx_events_def okx_connect_def okx_send_new_order_def okx_send_cancel_def
      okx_send_cancel_all_def okx_send_modify_def Let_def\<close>)
qed

definition db_events :: "deribit_adapter \<Rightarrow> exec_event list" where
  "db_events a = db_exec_events a @ db_rest_events a"

lemma deribit_events_unnamed:
  "subscription_event hash d recv i = Some e \<Longrightarrow> ev_instrument_id e = 0"
  "deribit_response_event hash d recv i = Some e \<Longrightarrow> ev_instrument_id e = 0"
  by (auto simp: subscription_event_def deribit_response_event_def blank_exec_event_def Let_def bind_eq_Some_conv split_def)

lemma deribit_decoded_unnamed:
  "list_all unnamed (fst (handle_subscription_event hash d recv dec))"
  "list_all unnamed (fst (deribit_order_response hash d recv dec))"
  using deribit_events_unnamed
  by (auto simp: handle_subscription_event_def deribit_order_response_def unnamed_def Let_def split_def split: option.split)

interpretation db_fills: unnamed_source "db_step hash" db_events for hash
proof
  fix a c assume ok: "list_all unnamed (db_events a)"
  have post: "db_exec_events (db_post r f b) = db_exec_events b" "db_rest_events (db_post r f b) = db_rest_events b" for r f b
    by (simp_all add: db_post_def)
  show "list_all unnamed (db_events (db_step hash c a))"
  proof (cases c)
    case (Db_Message payload recv)
    have decoded: "list_all unnamed (db_events (snd (db_decoded r a)))" if "list_all unnamed (fst r)" for r
      using that ok by (simp add: db_decoded_def db_events_def split_def Let_def)
    note dec = decoded [OF deribit_decoded_unnamed(1)] decoded [OF deribit_decoded_unnamed(2)]
    have "db_events (snd (db_heartbeat ob a)) = db_events a" for ob
      by (simp add: db_heartbeat_def db_events_def post split: option.split json.split)
    then have hb: "list_all unnamed (db_events (snd (db_heartbeat ob a)))" for ob using ok by simp
    have sub: "list_all unnamed (db_events (snd (db_subscription hash ob recv a)))" for ob
      using ok dec(1) by (simp add: db_subscription_def split: option.split json.split)
    have "db_events (db_login a) = db_events a" by (simp add: db_login_def db_events_def post)
    then have resp: "list_all unnamed (db_events (snd (db_response hash ob recv a)))" for ob
      using ok dec(2) by (simp add: db_response_def split: option.split json.split)
    have "db_events (a\<lparr>db_waiters := w, db_answers := x\<rparr>) = db_events a" for w x by (simp add: db_events_def)
    then have "list_all unnamed (db_events (snd (db_handle_message hash payload recv a)))"
      using ok hb sub resp by (simp add: db_handle_message_def split: option.split json.split)
    then show ?thesis using Db_Message by (simp add: split_def Let_def db_events_def)
  qed (use ok post rejection_unnamed in \<open>auto simp: db_events_def db_begin_order_def db_finish_order_def db_reject_def db_send_cancel_def
      db_send_cancel_all_def db_send_modify_def db_send_and_wait_def db_time_out_def db_drain_def db_connect_def db_write_def
      db_end_session_def Let_def split_def split: option.split list.split\<close>)
qed

lemma handle_fills_unnamed: "list_all unnamed (fst (handle_fills recv vs dec))"
proof (induction vs arbitrary: dec)
  case (Cons v vs)
  have "unnamed e" if "handle_fill recv v dec = (Fill_Event e, dec')" for e dec'
    using that by (auto simp: handle_fill_def slice_event_def unnamed_def Let_def split: option.splits prod.splits)
  then show ?case using Cons by (cases "handle_fill recv v dec"; cases "fst (handle_fill recv v dec)") (auto simp: split_def Let_def)
qed simp

subsection \<open>The position cap\<close>

lemma zero_key:
  assumes "i AND 0x00ffffffffffffff \<noteq> 0"
  shows "make_key e i \<noteq> make_key e' 0"
proof
  assume "make_key e i = make_key e' 0"
  then have "take_bit 56 i = 0" using make_key_parts(2) by (metis take_bit_of_0)
  moreover have "i AND 0x00ffffffffffffff = take_bit 56 i" by (simp add: take_bit_eq_mask mask_eq_exp_minus_1)
  ultimately show False using assms by simp
qed

lemma gate_event_net:
  assumes "unnamed e" "\<And>ex. k \<noteq> make_key ex 0"
  shows "pt_net (rg_pnl (rg_on_exec_event e g)) k = pt_net (rg_pnl g) k"
    and "rg_max_position_usd (rg_on_exec_event e g) = rg_max_position_usd g"
proof -
  have roll: "pt_net (pt_roll_day n t) k = pt_net t k" for n t by (simp add: pt_net_def)
  have fill: "pt_net (pt_on_fill ex 0 sd pr q ts t) k = pt_net t k" for ex sd pr q ts t
    using pt_net_step [of "\<lparr>fc_exchange = ex, fc_instrument = 0, fc_side = sd, fc_price_e8 = pr, fc_qty_e8 = q, fc_ts_ns = ts\<rparr>" t k] assms(2)
    by (simp add: pt_step_def fc_key_def)
  have daily: "pt_net (rg_pnl (rg_check_daily_loss n h)) k = pt_net (rg_pnl h) k \<and>
      rg_max_position_usd (rg_check_daily_loss n h) = rg_max_position_usd h" for n h
    by (simp add: rg_check_daily_loss_def pt_daily_realized_pnl_usd_def Let_def roll)
  have "pt_net (rg_pnl (rg_book_fill e h)) k = pt_net (rg_pnl h) k \<and> rg_max_position_usd (rg_book_fill e h) = rg_max_position_usd h" for h
    using assms(1) daily fill by (auto simp: rg_book_fill_def unnamed_def is_fill_def)
  then show "pt_net (rg_pnl (rg_on_exec_event e g)) k = pt_net (rg_pnl g) k"
    "rg_max_position_usd (rg_on_exec_event e g) = rg_max_position_usd g"
    by (simp_all add: rg_on_exec_event_def rg_record_outcome_def rg_release_slot_def Let_def)
qed

lemma op_event_gate: "op_risk_gate (op_on_exec_event e now p) = rg_on_exec_event e (op_risk_gate p)"
  by (simp add: op_on_exec_event_def observe_ack_def publish_def Let_def split: option.split)

lemma events_net:
  assumes "list_all unnamed (map fst es)" "\<And>ex. k \<noteq> make_key ex 0"
  shows "pt_net (rg_pnl (op_risk_gate (fold (\<lambda>(e, now). op_on_exec_event e now) es p))) k = pt_net (rg_pnl (op_risk_gate p)) k \<and>
    rg_max_position_usd (op_risk_gate (fold (\<lambda>(e, now). op_on_exec_event e now) es p)) = rg_max_position_usd (op_risk_gate p)"
  using assms(1)
proof (induction es arbitrary: p)
  case (Cons x es)
  then show ?case using gate_event_net [of "fst x" k] assms(2) by (cases x) (simp add: op_event_gate)
qed simp

text \<open>
  C7: the position cap does not see the fills. Whatever Binance, OKX, Deribit and the fill stream of Hyperliquid report in any
  runs of their adapters, in whatever order the poll loop handles it, the verdict of the cap on an order for an instrument is the verdict
  before all these events: the adapters leave the instrument id 0, so the fills are booked under an instrument that no order names.
\<close>

theorem cap_blind_to_fills:
  assumes "a = fold bn_step cs bn_make" "b = fold okx_step ds (okx_make session get)" "c = fold (db_step hash) ts (db_make cid secret session)"
    and "\<forall>(e, now) \<in> set es. e \<in> set (bn_events a) \<union> set (okx_events b) \<union> set (db_events c) \<union> (\<Union>(recv, vs, dec) \<in> set fs. set (fst (handle_fills recv vs dec)))"
    and "no_instrument_id order AND 0x00ffffffffffffff \<noteq> 0"
  shows "rg_over_position_cap order (op_risk_gate (fold (\<lambda>(e, now). op_on_exec_event e now) es p)) =
    rg_over_position_cap order (op_risk_gate p)"
proof -
  have "list_all unnamed (bn_events a)" unfolding assms(1) by (rule bn_fills.run_unnamed) (simp add: bn_events_def bn_make_def)
  moreover have "list_all unnamed (okx_events b)" unfolding assms(2)
    by (rule okx_fills.run_unnamed) (simp add: okx_events_def okx_make_def split_def Let_def)
  moreover have "list_all unnamed (db_events c)" unfolding assms(3) by (rule db_fills.run_unnamed) (simp add: db_events_def db_make_def)
  ultimately have "list_all unnamed (map fst es)"
    using assms(4) handle_fills_unnamed by (fastforce simp: list_all_iff)
  then have "pt_net (rg_pnl (op_risk_gate (fold (\<lambda>(e, now). op_on_exec_event e now) es p))) (make_key (no_exchange_id order) (no_instrument_id order)) =
      pt_net (rg_pnl (op_risk_gate p)) (make_key (no_exchange_id order) (no_instrument_id order))"
    "rg_max_position_usd (op_risk_gate (fold (\<lambda>(e, now). op_on_exec_event e now) es p)) = rg_max_position_usd (op_risk_gate p)"
    using events_net zero_key [OF assms(5)] by metis+
  then show ?thesis by (simp add: rg_over_position_cap_def rg_projected_usd_def pt_net_def pt_net_qty_e8_def)
qed

subsection \<open>The slots\<close>

definition slots :: "exchange_id \<Rightarrow> order_processor \<Rightarrow> u32" where
  "slots ex p = rc_open_orders (rg_checker (op_risk_gate p)) ! venue_idx ex"

definition tracked :: "order_processor \<Rightarrow> u64 set" where
  "tracked p = dom (sm_abs (op_state_mgr p))"

text \<open>A final event gives back a slot of its venue and ends the order.\<close>

lemma final_event_slot:
  assumes "op_inv p" "is_terminal (ev_status e)" "0 < slots (ev_exchange_id e) p"
  shows "slots (ev_exchange_id e) (op_on_exec_event e now p) = slots (ev_exchange_id e) p - 1"
    and "tracked (op_on_exec_event e now p) = tracked p - {ev_order_id e}"
proof -
  have same: "rc_open_orders (rg_checker (rg_book_fill e (rg_record_outcome e g))) = rc_open_orders (rg_checker g)" for g
    by (simp add: rg_book_fill_def rg_record_outcome_def rg_check_daily_loss_def rc_set_trading_enabled_def split_def Let_def)
  have "venue_idx (ev_exchange_id e) < length (rc_open_orders (rg_checker (op_risk_gate p)))"
    using assms(1) by (simp add: op_inv_def rg_inv_def rc_inv_def)
  then show "slots (ev_exchange_id e) (op_on_exec_event e now p) = slots (ev_exchange_id e) p - 1"
    using assms(2,3) same unfolding slots_def op_event_gate
    by (simp add: rg_on_exec_event_def rg_release_slot_def rc_on_order_closed_def Let_def)
  have inv: "sm_inv (op_state_mgr p)" using assms(1) by (simp add: op_inv_def)
  have "op_state_mgr (op_on_exec_event e now p) = sm_remove (ev_order_id e)
      (snd (sm_update (ev_order_id e) (exec_status_to_lifecycle (ev_status e)) (ev_exchange_order_id e) (ev_filled_qty e) (ev_remaining_qty e)
        now (op_state_mgr p)))"
    using assms(2) by (auto simp: op_on_exec_event_def observe_ack_def publish_def is_terminal_def Let_def split: option.split)
  then show "tracked (op_on_exec_event e now p) = tracked p - {ev_order_id e}"
    unfolding tracked_def using sm_update_spec(1) [OF inv] by (auto simp: sm_remove_spec(2) sm_abs_update split: if_splits)
qed

text \<open>
  C8: an order that is reported final twice, as Deribit does with an order filled at once and Binance with its
  fill response, gives back two slots. The gateway does not ask whether it still knows the order: the counter of its venue falls by two and the
  table of orders by one at most, so from then on one order more than the limit is let through.
\<close>

theorem duplicate_final_leaks_slot:
  assumes "p = fold op_step cs (op_init (fresh_gate a b c d f g h) adapters)"
    and "is_terminal (ev_status e)" "is_terminal (ev_status e')" "ev_order_id e' = ev_order_id e" "ev_exchange_id e' = ev_exchange_id e"
    and "2 \<le> slots (ev_exchange_id e) p" "q = op_on_exec_event e' now' (op_on_exec_event e now p)"
  shows "slots (ev_exchange_id e) q = slots (ev_exchange_id e) p - 2 \<and> tracked q = tracked p - {ev_order_id e}"
proof -
  let ?p = "op_on_exec_event e now p"
  have inv: "op_inv p" unfolding assms(1) by (rule op_reached_inv)
  then have inv': "op_inv ?p" using op_inv_step [of p "OP_Exec e now"] by simp
  have "(1 :: u32) < 2" by simp
  then have two: "1 < slots (ev_exchange_id e) p" using assms(6) by (rule order_less_le_trans)
  then have pos: "0 < slots (ev_exchange_id e) p" by (rule order_le_less_trans [rotated]) simp
  note first = final_event_slot [OF inv assms(2) pos, of now]
  have "0 < slots (ev_exchange_id e') ?p" using two first(1) assms(5) by (simp add: word_gt_0)
  note second = final_event_slot [OF inv' assms(3) this, of now']
  show ?thesis using first second assms(4,5,7) by auto
qed

subsection \<open>Two readings of the filled quantity\<close>

lemma e8_same: "Order_Manager.e8 = Venue_Text.e8"
  by (simp add: Order_Manager.e8_def e8_Fin)

lemma quotient_less:
  assumes "0 \<le> q" "q < 2 ^ 52" "0 \<le> r" "r < 2 ^ 52"
  shows "d_of_int q div Venue_Text.e8 < d_of_int r div Venue_Text.e8 \<longleftrightarrow> q < r"
proof -
  have "(of_int q / 10 ^ 8 :: rat) \<le> of_int r / 10 ^ 8" if "q \<le> r" for q r :: int using that by (simp add: divide_right_mono)
  then have mono: "round64 (of_int q / 10 ^ 8) \<le> round64 (of_int r / 10 ^ 8)" if "q \<le> r" for q r :: int using that round64_mono by blast
  have "round64 (of_int q / 10 ^ 8) < round64 (of_int r / 10 ^ 8) \<longleftrightarrow> q < r"
    using mono [of q r] mono [of r q] places8_e8 [of q] places8_e8 [of r] assms by (metis abs_of_nonneg order_le_less not_le)
  then show ?thesis using assms by (simp add: small_quotient)
qed

text \<open>The order record keeps the largest quantity reported.\<close>

lemma apply_fill_max:
  assumes "0 \<le> m" "m < 2 ^ 52" "uint (xr_filled_qty r) < 2 ^ 52" "oo_filled_qty s = d_of_int m div Venue_Text.e8"
  shows "oo_filled_qty (apply_fill r s) = d_of_int (max m (uint (xr_filled_qty r))) div Venue_Text.e8"
  using assms quotient_less [OF assms(1,2) _ assms(3)] by (simp add: apply_fill_def e8_same Let_def max_def)

lemma om_report_filled:
  assumes "map_of (om_lookup om) (xr_order_id r) = Some i" "i < length (om_store om)"
  shows "oo_filled_qty (om_store (om_on_exec_report now r om) ! i) = oo_filled_qty (apply_fill r (om_store om ! i))"
    and "om_lookup (om_on_exec_report now r om) = om_lookup om"
    and "length (om_store (om_on_exec_report now r om)) = length (om_store om)"
  using assms by (simp_all add: om_on_exec_report_def Let_def apply_fill_def)

lemma om_filled_run:
  assumes "map_of (om_lookup om) oid = Some i" "i < length (om_store om)" "list_all (\<lambda>(r, now). xr_order_id r = oid \<and> uint (xr_filled_qty r) < 2 ^ 52) rs"
    and "0 \<le> m" "m < 2 ^ 52" "oo_filled_qty (om_store om ! i) = d_of_int m div Venue_Text.e8"
  shows "oo_filled_qty (om_store (fold (\<lambda>(r, now). om_on_exec_report now r) rs om) ! i) =
    d_of_int (fold (\<lambda>(r, now). max (uint (xr_filled_qty r))) rs m) div Venue_Text.e8"
  using assms
proof (induction rs arbitrary: om m)
  case (Cons x rs)
  obtain r now where x: "x = (r, now)" by (cases x)
  let ?om = "om_on_exec_report now r om"
  have r: "xr_order_id r = oid" "uint (xr_filled_qty r) < 2 ^ 52" using Cons.prems(3) x by simp_all
  note s = om_report_filled [of om r i now, unfolded r(1), OF Cons.prems(1,2)]
  have "oo_filled_qty (om_store ?om ! i) = d_of_int (max m (uint (xr_filled_qty r))) div Venue_Text.e8"
    using s(1) apply_fill_max [OF Cons.prems(4,5) r(2) Cons.prems(6)] by simp
  then show ?case
    using Cons.IH [of ?om "max m (uint (xr_filled_qty r))"] Cons.prems s r x by (simp add: max.commute)
qed simp

text \<open>The tracker adds them up.\<close>

definition booked :: "u64 \<Rightarrow> exchange_id \<Rightarrow> exec_report list \<Rightarrow> i64" where
  "booked iid ex rs = tp_net iid ex (fold (\<lambda>r. tp_on_fill iid ex (xr_side r) (xr_filled_qty r) (xr_price r)) rs [])"

lemma booked_sum:
  assumes "iid < 2 ^ 56" "list_all (\<lambda>r. xr_side r = BUY) rs"
  shows "booked iid ex rs = sum_list (map xr_filled_qty rs)"
proof -
  let ?f = "\<lambda>r. \<lparr> fl_instrument = iid, fl_exchange = ex, fl_side = xr_side r, fl_qty = xr_filled_qty r, fl_price = xr_price r \<rparr>"
  have "booked iid ex rs = tp_net iid ex (fold tp_apply (map ?f rs) [])"
    by (simp add: booked_def fold_map tp_apply_def comp_def)
  also have "\<dots> = net_of iid ex (map ?f rs)" using assms(1) by (intro tp_net_from_empty) (simp_all add: list_all_iff)
  also have "\<dots> = sum_list (map xr_filled_qty rs)"
    using assms(2) by (induction rs) (simp_all add: net_of_def fills_of_def fl_signed_def)
  finally show ?thesis .
qed

lemma fold_max_less_sum:
  fixes m :: int
  assumes "list_all (\<lambda>q. 0 < q) qs" "0 \<le> m" "2 \<le> length qs \<or> (qs \<noteq> [] \<and> 0 < m)"
  shows "fold max qs m < m + sum_list qs"
  using assms
proof (induction qs arbitrary: m)
  case (Cons q qs)
  show ?case
  proof (cases qs)
    case (Cons q' qs')
    have "0 < max q m" using Cons.prems(1) by auto
    then have "fold max qs (max q m) < max q m + sum_list qs" using Cons.prems(1) by (intro Cons.IH) (auto simp: \<open>qs = q' # qs'\<close>)
    moreover have "max q m \<le> m + q" using Cons.prems(1,2) by auto
    ultimately have "fold max qs (max q m) < m + q + sum_list qs" by linarith
    then show ?thesis by simp
  qed (use Cons.prems in auto)
qed simp

lemma uint_sum_list: "sum_list (map uint ws) < 2 ^ 64 \<Longrightarrow> uint (sum_list (ws :: u64 list)) = sum_list (map uint ws)"
proof (induction ws)
  case (Cons w ws)
  have nonneg: "0 \<le> sum_list (map uint ws)" "0 \<le> uint w" by (auto intro: sum_list_nonneg)
  then have "sum_list (map uint ws) < 2 ^ 64" using Cons.prems by (simp only: list.map sum_list.Cons)
  then have "uint (sum_list ws) = sum_list (map uint ws)" by (rule Cons.IH)
  then show ?case using Cons.prems nonneg by (simp add: uint_word_ariths mod_pos_pos_trivial)
qed simp


definition two_slices :: "(exec_report \<times> u64) list" where
  "two_slices = [(demo_report\<lparr>xr_order_id := 77, xr_side := BUY, xr_status := ES_PARTIAL, xr_filled_qty := 100000000\<rparr>, 3),
     (demo_report\<lparr>xr_order_id := 77, xr_side := BUY, xr_status := ES_FILLED, xr_filled_qty := 100000000\<rparr>, 4)]"


definition capped_gateway :: order_processor where
  "capped_gateway = op_init (fresh_gate (dlit 1000) (dlit 1000) 3 10 (dlit 250) 0 rrb_default_config) []"

definition capped_order :: new_order_event where
  "capped_order = (rg_demo_order 1)\<lparr>no_exchange_id := EX_BINANCE\<rparr>"

text \<open>A fill of two units and an order for two more at 100 pass a cap of 250.\<close>

theorem cap_blind_to_fills_witness:
  "\<exists>e. e \<in> set (bn_events (fold bn_step [Bn_New market_order 3 (Post_Response (Some (J_Object fill_response)))] bn_make)) \<and>
    ev_status e = ES_FILLED \<and> ev_filled_qty e = 200000000 \<and>
    \<not> rg_over_position_cap capped_order (op_risk_gate (op_on_exec_event e 5 capped_gateway))"
proof -
  let ?cs = "[Bn_New market_order 3 (Post_Response (Some (J_Object fill_response)))]"
  obtain e where e: "handle_order_response fill_response 7 BUY OT_LIMIT 3 = Some e" "ev_status e = ES_FILLED" "ev_filled_qty e = 200000000"
    using fill_response_event by blast
  then have mem: "e \<in> set (bn_events (fold bn_step ?cs bn_make))"
    by (simp add: bn_send_new_order_def market_order_def bn_events_def Let_def)
  have "\<not> rg_over_position_cap capped_order (op_risk_gate capped_gateway)" by code_simp
  moreover have "no_instrument_id capped_order AND 0x00ffffffffffffff \<noteq> 0" by (simp add: capped_order_def rg_demo_order_def)
  ultimately have "\<not> rg_over_position_cap capped_order (op_risk_gate (op_on_exec_event e 5 capped_gateway))"
    using cap_blind_to_fills [OF refl refl refl, where cs = ?cs and es = "[(e, 5)]" and ds = "[]" and ts = "[]" and fs = "[]" and order = capped_order and p = capped_gateway] mem
    by simp
  then show ?thesis using mem e by blast
qed

text \<open>A limit of two: after a duplicate fill one order is open and the counter says none.\<close>

definition leaky_gateway :: order_processor where
  "leaky_gateway = fold op_step [OP_New (rg_demo_order 1) 4 9, OP_New (rg_demo_order 2) 4 9] (demo_gateway 2 [demo_adapter])"

theorem duplicate_final_leaks_slot_witness:
  "slots EX_OKX (op_on_exec_event (demo_event 1 ES_FILLED 0) 8 (op_on_exec_event (demo_event 1 ES_FILLED 0) 7 leaky_gateway)) = 0 \<and>
    gateway_summary (fold op_step [OP_Exec (demo_event 1 ES_FILLED 0) 7, OP_Exec (demo_event 1 ES_FILLED 0) 8]
      leaky_gateway) = \<lparr>sum_limit = 2, sum_open_counter = 0, sum_tracked = [2], sum_requests = 2\<rparr>"
proof -
  have e: "ev_status (demo_event 1 ES_FILLED 0) = ES_FILLED" "ev_exchange_id (demo_event 1 ES_FILLED 0) = EX_OKX"
    by (simp_all add: demo_event_def)
  have n: "slots EX_OKX leaky_gateway = 2" by code_simp
  have "leaky_gateway = fold op_step [OP_New (rg_demo_order 1) 4 9, OP_New (rg_demo_order 2) 4 9]
      (op_init (fresh_gate (dlit 1000) (dlit 1000) 2 10 0 0 rrb_default_config) [demo_adapter])"
    by (simp only: leaky_gateway_def demo_gateway_def)
  from duplicate_final_leaks_slot [OF this, of "demo_event 1 ES_FILLED 0" "demo_event 1 ES_FILLED 0" _ 8 7, OF _ _ refl refl _ refl]
  have "slots EX_OKX (op_on_exec_event (demo_event 1 ES_FILLED 0) 8 (op_on_exec_event (demo_event 1 ES_FILLED 0) 7 leaky_gateway)) = 0"
    using e n by (simp add: is_terminal_def)
  moreover have "gateway_summary (fold op_step [OP_Exec (demo_event 1 ES_FILLED 0) 7, OP_Exec (demo_event 1 ES_FILLED 0) 8]
      leaky_gateway) = \<lparr>sum_limit = 2, sum_open_counter = 0, sum_tracked = [2], sum_requests = 2\<rparr>" by code_simp
  ultimately show ?thesis by (rule conjI)
qed

end
