(* ===== verification/Harness_Client.thy ===== *)
theory Harness_Client
  imports Matching_Engine Order_Wire Venue_Text
begin

text \<open>
  \<open>InProcessOrderGatewayClient\<close> of the backtester
  (\<open>src/bpt-backtester/src/harness/inprocess_order_gateway_client.cpp\<close>): the order gateway a strategy
  talks to in a backtest, on top of \<open>Matching_Engine\<close>. The strategy's calls do not nest: what it does in answer to a
  report is a later call. The reports handed to the strategy and the fills handed to the results collector are lists in the state.
  The theorems: an order that is refused leaves no trace, the reports of an order end with its final one and account for its quantity.
\<close>

subsection \<open>Translations\<close>

definition to_match_side :: "order_side \<Rightarrow> bt_side" where
  "to_match_side s = (if s = BUY then BT_BUY else BT_SELL)"

fun to_msg_side :: "bt_side \<Rightarrow> order_side" where
  "to_msg_side BT_BUY = BUY"
| "to_msg_side BT_SELL = SELL"

definition to_match_type :: "order_type \<Rightarrow> bool \<Rightarrow> bt_order_type" where
  "to_match_type t post_only = (if post_only then BT_POST_ONLY else if t = OT_MARKET then BT_MARKET else BT_LIMIT)"

fun to_msg_type :: "bt_order_type \<Rightarrow> order_type" where
  "to_msg_type BT_MARKET = OT_MARKET"
| "to_msg_type BT_LIMIT = OT_LIMIT"
| "to_msg_type BT_POST_ONLY = OT_LIMIT"

fun exchange_id_string :: "exchange_id \<Rightarrow> string" where
  "exchange_id_string EX_BINANCE = ''BINANCE''"
| "exchange_id_string EX_OKX = ''OKX''"
| "exchange_id_string EX_HYPERLIQUID = ''HYPERLIQUID''"
| "exchange_id_string EX_DERIBIT = ''DERIBIT''"
| "exchange_id_string _ = []"

subsection \<open>State\<close>

record live_order =
  lo_strategy_order_id :: u64
  lo_exchange_id :: exchange_id
  lo_instrument_id :: u64
  lo_side :: order_side
  lo_order_type :: order_type
  lo_tif :: time_in_force
  lo_price :: i64
  lo_quantity :: u64
  lo_exchange_symbol :: string
  lo_exchange :: string
  lo_cumulative_filled_qty :: u64
  lo_post_only :: bool

record 'l harness_client =
  hc_matching :: "'l matching_engine"
  hc_live :: "(u64, live_order) umap"
  hc_simulation_now_ns :: u64
  hc_last_heartbeat_ns :: u64
  hc_exec_seq :: u64
  hc_rejected_count :: u64
  hc_reports :: "exec_report list"
  hc_results :: "fill_report list"

definition hc_init :: "'l matching_engine \<Rightarrow> 'l harness_client" where
  "hc_init me = \<lparr> hc_matching = me, hc_live = [], hc_simulation_now_ns = 0, hc_last_heartbeat_ns = 0, hc_exec_seq = 0,
     hc_rejected_count = 0, hc_reports = [], hc_results = [] \<rparr>"

subsection \<open>Reports\<close>

record exec_status_event =
  es_order_id :: u64
  es_exchange_id :: exchange_id
  es_instrument_id :: u64
  es_status :: exec_status
  es_side :: order_side
  es_order_type :: order_type
  es_price :: i64
  es_quantity :: u64
  es_cumulative_filled_qty :: u64

definition status_report :: "u64 \<Rightarrow> exec_status_event \<Rightarrow> exec_report" where
  "status_report now_ns ev =
     \<lparr> xr_order_id = es_order_id ev, xr_exchange_order_id = es_order_id ev, xr_exchange_id = es_exchange_id ev,
       xr_instrument_id = es_instrument_id ev, xr_status = es_status ev, xr_side = es_side ev, xr_order_type = es_order_type ev,
       xr_price = es_price ev,
       xr_filled_qty = (if es_status ev = ES_FILLED \<or> es_status ev = ES_PARTIAL then es_quantity ev else 0),
       xr_remaining_qty = (if es_cumulative_filled_qty ev < es_quantity ev then es_quantity ev - es_cumulative_filled_qty ev else 0),
       xr_reject_reason = (if es_status ev = ES_REJECTED then RR_INVALID_PRICE else RR_OK),
       xr_fee = 0, xr_fee_currency = [], xr_exchange_ts_ns = now_ns, xr_local_ts_ns = now_ns \<rparr>"

definition publish_exec_status :: "exec_status_event \<Rightarrow> 'l harness_client \<Rightarrow> 'l harness_client" where
  "publish_exec_status ev h =
     h\<lparr>hc_exec_seq := hc_exec_seq h + 1, hc_reports := hc_reports h @ [status_report (hc_simulation_now_ns h) ev]\<rparr>"

definition erase_live :: "u64 \<Rightarrow> 'l harness_client \<Rightarrow> 'l harness_client" where
  "erase_live i h = h\<lparr>hc_live := AList.delete i (hc_live h)\<rparr>"

text \<open>\<open>None\<close>: the quantity or the price does not fit its integer, which C++ leaves undefined.\<close>

definition scaled_fill :: "fill_report \<Rightarrow> (u64 \<times> i64) option" where
  "scaled_fill fr = do {
     q \<leftarrow> d_to_int 0 (2 ^ 64) (fr_last_fill_qty fr * e8 + dlit (1 / 2));
     p \<leftarrow> d_to_int (- (2 ^ 63)) (2 ^ 63) (fr_last_fill_price fr * e8 + dlit (1 / 2));
     Some (word_of_int q, word_of_int p)
   }"

definition fill_event :: "u64 \<Rightarrow> live_order \<Rightarrow> fill_report \<Rightarrow> u64 \<times> i64 \<Rightarrow> exec_status_event" where
  "fill_event order_id lo fr fill =
     \<lparr> es_order_id = order_id, es_exchange_id = lo_exchange_id lo, es_instrument_id = lo_instrument_id lo,
       es_status = (if fr_is_fully_filled fr then ES_FILLED else ES_PARTIAL), es_side = to_msg_side (fr_side fr),
       es_order_type = to_msg_type (fr_order_type fr), es_price = snd fill, es_quantity = fst fill,
       es_cumulative_filled_qty = lo_cumulative_filled_qty lo \<rparr>"

definition publish_fill :: "fill_report \<Rightarrow> 'l harness_client \<Rightarrow> 'l harness_client option" where
  "publish_fill fr h =
     (case stoull (fr_order_id fr) of
        None \<Rightarrow> Some h
      | Some order_id \<Rightarrow>
          (case map_of (hc_live h) order_id of
             None \<Rightarrow> Some h
           | Some lo \<Rightarrow> do {
               fill \<leftarrow> scaled_fill fr;
               let lo = lo\<lparr>lo_cumulative_filled_qty := lo_cumulative_filled_qty lo + fst fill\<rparr>;
               let h = h\<lparr>hc_results := hc_results h @ [fr], hc_live := AList.update order_id lo (hc_live h)\<rparr>;
               let h = publish_exec_status (fill_event order_id lo fr fill) h;
               Some (if fr_is_fully_filled fr then erase_live order_id h else h)
             }))"

fun publish_fills :: "fill_report list \<Rightarrow> 'l harness_client \<Rightarrow> 'l harness_client option" where
  "publish_fills [] h = Some h"
| "publish_fills (fr # frs) h = Option.bind (publish_fill fr h) (publish_fills frs)"

subsection \<open>Calls of the strategy\<close>

definition live_of :: "outbound_new_order \<Rightarrow> live_order" where
  "live_of r = \<lparr> lo_strategy_order_id = on_order_id r, lo_exchange_id = on_exchange_id r, lo_instrument_id = on_instrument_id r,
     lo_side = on_side r, lo_order_type = on_order_type r, lo_tif = on_tif r, lo_price = on_price r, lo_quantity = on_quantity r,
     lo_exchange_symbol = on_exchange_symbol r, lo_exchange = exchange_id_string (on_exchange_id r), lo_cumulative_filled_qty = 0,
     lo_post_only = on_exec_inst r AND 1 \<noteq> 0 \<rparr>"

definition open_order_of :: "u64 \<Rightarrow> outbound_new_order \<Rightarrow> open_order" where
  "open_order_of now_ns r = \<lparr> oo_order_id = to_string_u64 (on_order_id r), oo_client_order_id = to_string_u64 (on_order_id r),
     oo_exchange = exchange_id_string (on_exchange_id r), oo_symbol = on_exchange_symbol r,
     oo_type = to_match_type (on_order_type r) (on_exec_inst r AND 1 \<noteq> 0), oo_side = to_match_side (on_side r),
     oo_price = d_of_int (sint (on_price r)) div e8, oo_quantity = d_of_int (uint (on_quantity r)) div e8, oo_filled_qty = 0,
     oo_submitted_ts = now_ns, oo_queue_seeded = False, oo_rejected = False \<rparr>"

definition emplace_live :: "u64 \<Rightarrow> live_order \<Rightarrow> (u64, live_order) umap \<Rightarrow> (u64, live_order) umap" where
  "emplace_live i lo live = (if map_of live i = None then AList.update i lo live else live)"

definition order_event :: "exec_status \<Rightarrow> outbound_new_order \<Rightarrow> u64 \<Rightarrow> exec_status_event" where
  "order_event st r cumfilled = \<lparr> es_order_id = on_order_id r, es_exchange_id = on_exchange_id r, es_instrument_id = on_instrument_id r,
     es_status = st, es_side = on_side r, es_order_type = on_order_type r, es_price = on_price r, es_quantity = on_quantity r,
     es_cumulative_filled_qty = cumfilled \<rparr>"

definition hc_send_new_order :: "outbound_new_order \<Rightarrow> 'l harness_client \<Rightarrow> (bool \<times> 'l harness_client) option" where
  "hc_send_new_order r h =
     (if on_quantity r = 0 \<or> (on_order_type r \<noteq> OT_MARKET \<and> sint (on_price r) \<le> 0) \<or> on_exchange_symbol r = []
      then Some (False, h)
      else
        (let h = h\<lparr>hc_live := emplace_live (on_order_id r) (live_of r) (hc_live h)\<rparr>;
             (result, fills, me) = submit_order (open_order_of (hc_simulation_now_ns h) r) (hc_matching h)
         in Option.bind (publish_fills fills (h\<lparr>hc_matching := me\<rparr>)) (\<lambda>h.
              if oo_rejected result
              then Some (False, erase_live (on_order_id r) (h\<lparr>hc_rejected_count := hc_rejected_count h + 1\<rparr>))
              else
                (case map_of (hc_live h) (on_order_id r) of
                   None \<Rightarrow> Some (True, h)
                 | Some lo \<Rightarrow>
                     let cumfilled = lo_cumulative_filled_qty lo
                     in Some (True, if cumfilled < on_quantity r then publish_exec_status (order_event ES_ACKED r cumfilled) h else h)))))"

definition cancelled_event :: "u64 \<Rightarrow> live_order \<Rightarrow> exec_status_event" where
  "cancelled_event order_id lo = \<lparr> es_order_id = order_id, es_exchange_id = lo_exchange_id lo, es_instrument_id = lo_instrument_id lo,
     es_status = ES_CANCELLED, es_side = lo_side lo, es_order_type = lo_order_type lo, es_price = lo_price lo, es_quantity = lo_quantity lo,
     es_cumulative_filled_qty = lo_cumulative_filled_qty lo \<rparr>"

text \<open>The report of a cancel carries the exchange and instrument of the request.\<close>

definition hc_send_cancel :: "cancel_order_request \<Rightarrow> 'l harness_client \<Rightarrow> 'l harness_client" where
  "hc_send_cancel r h =
     (case map_of (hc_live h) (cq_order_id r) of
        None \<Rightarrow> h
      | Some lo \<Rightarrow>
          (let (ok, me) = cancel_order (lo_exchange lo) (lo_exchange_symbol lo) (to_string_u64 (cq_order_id r)) (hc_matching h);
               h = h\<lparr>hc_matching := me\<rparr>
           in if ok then erase_live (cq_order_id r)
                (publish_exec_status ((cancelled_event (cq_order_id r) lo)
                   \<lparr>es_exchange_id := cq_exchange_id r, es_instrument_id := cq_instrument_id r\<rparr>) h)
              else h))"

definition hc_send_cancel_all :: "exchange_id \<Rightarrow> u64 \<Rightarrow> 'l harness_client \<Rightarrow> 'l harness_client" where
  "hc_send_cancel_all ex iid h =
     (let targets = map fst (filter (\<lambda>(oid, lo). lo_exchange_id lo = ex \<and> lo_instrument_id lo = iid) (hc_live h))
      in fold (\<lambda>oid. hc_send_cancel \<lparr>cq_order_id = oid, cq_exchange_id = ex, cq_instrument_id = iid\<rparr>) targets h)"

definition replaced_order :: "u64 \<Rightarrow> u64 \<Rightarrow> live_order \<Rightarrow> open_order" where
  "replaced_order now_ns order_id lo = \<lparr> oo_order_id = to_string_u64 order_id, oo_client_order_id = to_string_u64 order_id,
     oo_exchange = lo_exchange lo, oo_symbol = lo_exchange_symbol lo, oo_type = (if lo_post_only lo then BT_POST_ONLY else BT_LIMIT),
     oo_side = (if lo_side lo = BUY then BT_BUY else BT_SELL), oo_price = d_of_int (sint (lo_price lo)) div e8,
     oo_quantity = d_of_int (uint (lo_quantity lo)) div e8,
     oo_filled_qty = d_of_int (uint (lo_cumulative_filled_qty lo)) div e8, oo_submitted_ts = now_ns, oo_queue_seeded = False,
     oo_rejected = False \<rparr>"

text \<open>
  The code keeps a reference to the live order across the resubmission, whose fills may erase it; when that happens nothing is read
  through it any more, because an order that is refused has no fills.
\<close>

definition hc_send_modify :: "modify_order_request \<Rightarrow> 'l harness_client \<Rightarrow> 'l harness_client option" where
  "hc_send_modify r h =
     (case map_of (hc_live h) (mq_order_id r) of
        None \<Rightarrow> Some h
      | Some lo \<Rightarrow>
          (let (_, me) = cancel_order (lo_exchange lo) (lo_exchange_symbol lo) (to_string_u64 (mq_order_id r)) (hc_matching h);
               lo = lo\<lparr>lo_price := mq_new_price r, lo_quantity := mq_new_quantity r\<rparr>;
               h = h\<lparr>hc_matching := me, hc_live := AList.update (mq_order_id r) lo (hc_live h)\<rparr>;
               (result, fills, me) = submit_order (replaced_order (hc_simulation_now_ns h) (mq_order_id r) lo) me
           in Option.bind (publish_fills fills (h\<lparr>hc_matching := me\<rparr>)) (\<lambda>h.
                if oo_rejected result
                then Some (erase_live (mq_order_id r) (publish_exec_status (cancelled_event (mq_order_id r) lo) h))
                else Some h)))"

subsection \<open>Calls of the harness\<close>

definition hc_market_event :: "market_event \<Rightarrow> 'l harness_client \<Rightarrow> 'l harness_client option" where
  "hc_market_event ev h = (let (fills, me) = on_market_event ev (hc_matching h) in publish_fills fills (h\<lparr>hc_matching := me\<rparr>))"

definition set_simulation_time :: "u64 \<Rightarrow> 'l harness_client \<Rightarrow> 'l harness_client" where
  "set_simulation_time now_ns h = h\<lparr>hc_simulation_now_ns := now_ns\<rparr>"

definition push_heartbeat :: "'l harness_client \<Rightarrow> 'l harness_client" where
  "push_heartbeat h = h\<lparr>hc_last_heartbeat_ns := hc_simulation_now_ns h\<rparr>"

subsection \<open>Runs\<close>

datatype hc_call = Hc_New outbound_new_order | Hc_Cancel cancel_order_request | Hc_Cancel_All exchange_id u64
  | Hc_Modify modify_order_request | Hc_Market market_event | Hc_Time u64 | Hc_Heartbeat

fun hc_step :: "hc_call \<Rightarrow> 'l harness_client \<Rightarrow> 'l harness_client option" where
  "hc_step (Hc_New r) h = map_option snd (hc_send_new_order r h)"
| "hc_step (Hc_Cancel r) h = Some (hc_send_cancel r h)"
| "hc_step (Hc_Cancel_All ex iid) h = Some (hc_send_cancel_all ex iid h)"
| "hc_step (Hc_Modify r) h = hc_send_modify r h"
| "hc_step (Hc_Market ev) h = hc_market_event ev h"
| "hc_step (Hc_Time now) h = Some (set_simulation_time now h)"
| "hc_step Hc_Heartbeat h = Some (push_heartbeat h)"

fun hc_run :: "hc_call list \<Rightarrow> 'l harness_client \<Rightarrow> 'l harness_client option" where
  "hc_run [] h = Some h"
| "hc_run (c # cs) h = Option.bind (hc_step c h) (hc_run cs)"

subsection \<open>The reports of an order\<close>

definition final_report :: "exec_report \<Rightarrow> bool" where
  "final_report r \<longleftrightarrow> xr_status r = ES_FILLED \<or> xr_status r = ES_CANCELLED \<or> xr_status r = ES_REJECTED"

text \<open>After the final report of an order comes no other report of it.\<close>

fun final_is_last :: "exec_report list \<Rightarrow> bool" where
  "final_is_last [] \<longleftrightarrow> True"
| "final_is_last (r # rs) \<longleftrightarrow> (final_report r \<longrightarrow> xr_order_id r \<notin> xr_order_id ` set rs) \<and> final_is_last rs"

definition filled_of :: "u64 \<Rightarrow> exec_report list \<Rightarrow> u64" where
  "filled_of i rs = (\<Sum>r \<leftarrow> filter (\<lambda>r. xr_order_id r = i) rs. xr_filled_qty r)"

text \<open>The ids seen so far, the reports made and the live orders agree.\<close>

definition accounts :: "u64 set \<Rightarrow> exec_report list \<Rightarrow> (u64 \<rightharpoonup> live_order) \<Rightarrow> bool" where
  "accounts ids rs live \<longleftrightarrow>
     final_is_last rs \<and> xr_order_id ` set rs \<subseteq> ids \<and> dom live \<subseteq> ids \<and>
     (\<forall>r \<in> set rs. final_report r \<longrightarrow> live (xr_order_id r) = None) \<and>
     (\<forall>i lo. live i = Some lo \<longrightarrow> lo_cumulative_filled_qty lo = filled_of i rs)"

abbreviation hc_ok :: "u64 set \<Rightarrow> 'l harness_client \<Rightarrow> bool" where
  "hc_ok ids h \<equiv> accounts ids (hc_reports h) (map_of (hc_live h))"

lemma final_is_last_snoc:
  "final_is_last (rs @ [r]) \<longleftrightarrow> final_is_last rs \<and> (\<forall>r' \<in> set rs. final_report r' \<longrightarrow> xr_order_id r' \<noteq> xr_order_id r)"
  by (induction rs) auto

lemma filled_of_snoc: "filled_of i (rs @ [r]) = filled_of i rs + (if xr_order_id r = i then xr_filled_qty r else 0)"
  by (simp add: filled_of_def)

lemma filled_of_fresh: "i \<notin> xr_order_id ` set rs \<Longrightarrow> filled_of i rs = 0"
  by (induction rs) (auto simp: filled_of_def)

lemma accounts_report:
  assumes "accounts ids rs live" "live i = Some lo" "xr_order_id r = i"
    and "lo_cumulative_filled_qty lo' = lo_cumulative_filled_qty lo + xr_filled_qty r"
  shows "accounts ids (rs @ [r]) (live(i := if final_report r then None else Some lo'))"
proof -
  have "\<forall>r' \<in> set rs. final_report r' \<longrightarrow> xr_order_id r' \<noteq> i" using assms(1,2) by (auto simp: accounts_def)
  then show ?thesis using assms by (auto simp: accounts_def final_is_last_snoc filled_of_snoc)
qed

lemma accounts_erase: "accounts ids rs live \<Longrightarrow> accounts ids rs (live(i := None))"
  by (auto simp: accounts_def)

lemma accounts_change:
  "accounts ids rs live \<Longrightarrow> live i = Some lo \<Longrightarrow> lo_cumulative_filled_qty lo' = lo_cumulative_filled_qty lo \<Longrightarrow>
   accounts ids rs (live(i \<mapsto> lo'))"
  unfolding accounts_def by (auto split: if_splits)

lemma accounts_new:
  assumes "accounts ids rs live" "i \<notin> ids" "lo_cumulative_filled_qty lo = 0"
  shows "accounts (insert i ids) rs (live(i \<mapsto> lo))"
proof -
  have "i \<notin> xr_order_id ` set rs" using assms(1,2) by (auto simp: accounts_def)
  then show ?thesis using assms filled_of_fresh [of i rs] by (auto simp: accounts_def)
qed

lemma publish_fields [simp]:
  "hc_live (publish_exec_status ev h) = hc_live h" "hc_matching (publish_exec_status ev h) = hc_matching h"
  "hc_reports (publish_exec_status ev h) = hc_reports h @ [status_report (hc_simulation_now_ns h) ev]"
  "hc_reports (erase_live i h) = hc_reports h" "hc_live (erase_live i h) = AList.delete i (hc_live h)"
  "hc_matching (erase_live i h) = hc_matching h"
  by (simp_all add: publish_exec_status_def erase_live_def)

lemma status_report_fields [simp]:
  "xr_order_id (status_report now ev) = es_order_id ev" "xr_status (status_report now ev) = es_status ev"
  "xr_filled_qty (status_report now ev) = (if es_status ev = ES_FILLED \<or> es_status ev = ES_PARTIAL then es_quantity ev else 0)"
  by (simp_all add: status_report_def)

lemma publish_fill_ok:
  assumes "hc_ok ids h" "publish_fill fr h = Some h'"
  shows "hc_ok ids h'"
proof (cases "stoull (fr_order_id fr)")
  case (Some i)
  show ?thesis
  proof (cases "map_of (hc_live h) i")
    case (Some lo)
    obtain fill where fill: "scaled_fill fr = Some fill"
      using assms(2) Some \<open>stoull (fr_order_id fr) = Some i\<close> by (cases "scaled_fill fr") (simp_all add: publish_fill_def)
    let ?lo = "lo\<lparr>lo_cumulative_filled_qty := lo_cumulative_filled_qty lo + fst fill\<rparr>"
    let ?r = "status_report (hc_simulation_now_ns h) (fill_event i ?lo fr fill)"
    have r: "xr_order_id ?r = i" "xr_filled_qty ?r = fst fill" "final_report ?r \<longleftrightarrow> fr_is_fully_filled fr"
      by (simp_all add: fill_event_def final_report_def)
    have "hc_reports h' = hc_reports h @ [?r]" "map_of (hc_live h') = (map_of (hc_live h))(i := if final_report ?r then None else Some ?lo)"
      using assms(2) Some \<open>stoull (fr_order_id fr) = Some i\<close> fill r(3)
      by (auto simp: publish_fill_def Let_def publish_exec_status_def erase_live_def delete_conv' update_conv' split: if_splits)
    then show ?thesis using accounts_report [OF assms(1) Some r(1), of ?lo] r(2) by simp
  qed (use assms \<open>stoull (fr_order_id fr) = Some i\<close> in \<open>simp add: publish_fill_def\<close>)
qed (use assms in \<open>simp add: publish_fill_def\<close>)

lemma publish_fills_ok: "hc_ok ids h \<Longrightarrow> publish_fills frs h = Some h' \<Longrightarrow> hc_ok ids h'"
  by (induction frs arbitrary: h) (auto simp: bind_eq_Some_conv intro: publish_fill_ok)

lemma submit_refused:
  "submit_order order me = (result, fills, me') \<Longrightarrow> oo_rejected result \<Longrightarrow> \<not> oo_rejected order \<Longrightarrow> fills = [] \<and> me' = me"
  by (auto simp: submit_order_def Let_def split: if_splits prod.splits)

lemma hc_cancel_ok:
  assumes "hc_ok ids h" shows "hc_ok ids (hc_send_cancel r h)"
proof (cases "map_of (hc_live h) (cq_order_id r)")
  case (Some lo)
  let ?ev = "(cancelled_event (cq_order_id r) lo)\<lparr>es_exchange_id := cq_exchange_id r, es_instrument_id := cq_instrument_id r\<rparr>"
  have "accounts ids (hc_reports h @ [status_report (hc_simulation_now_ns h) ?ev]) ((map_of (hc_live h))(cq_order_id r := None))"
    using accounts_report [OF assms Some, of "status_report (hc_simulation_now_ns h) ?ev" lo]
    by (simp add: cancelled_event_def final_report_def)
  then show ?thesis using assms Some
    by (simp add: hc_send_cancel_def Let_def split_def publish_exec_status_def erase_live_def delete_conv')
qed (use assms in \<open>simp add: hc_send_cancel_def\<close>)

lemma hc_cancel_all_ok: "hc_ok ids h \<Longrightarrow> hc_ok ids (hc_send_cancel_all ex iid h)"
proof -
  have "hc_ok ids (fold (\<lambda>oid. hc_send_cancel \<lparr>cq_order_id = oid, cq_exchange_id = ex, cq_instrument_id = iid\<rparr>) targets h)"
    if "hc_ok ids h" for targets
    using that by (induction targets arbitrary: h) (simp_all add: hc_cancel_ok)
  then show "hc_ok ids h \<Longrightarrow> hc_ok ids (hc_send_cancel_all ex iid h)" by (simp add: hc_send_cancel_all_def)
qed

lemma hc_modify_ok:
  assumes "hc_ok ids h" "hc_send_modify r h = Some h'"
  shows "hc_ok ids h'"
proof (cases "map_of (hc_live h) (mq_order_id r)")
  case (Some lo)
  let ?lo = "lo\<lparr>lo_price := mq_new_price r, lo_quantity := mq_new_quantity r\<rparr>"
  obtain ok me where c: "cancel_order (lo_exchange lo) (lo_exchange_symbol lo) (to_string_u64 (mq_order_id r)) (hc_matching h) = (ok, me)"
    by (cases "cancel_order (lo_exchange lo) (lo_exchange_symbol lo) (to_string_u64 (mq_order_id r)) (hc_matching h)")
  obtain result fills me' where s: "submit_order (replaced_order (hc_simulation_now_ns h) (mq_order_id r) ?lo) me = (result, fills, me')"
    by (cases "submit_order (replaced_order (hc_simulation_now_ns h) (mq_order_id r) ?lo) me")
  let ?h = "h\<lparr>hc_live := AList.update (mq_order_id r) ?lo (hc_live h), hc_matching := me'\<rparr>"
  obtain h1 where p: "publish_fills fills ?h = Some h1"
    and h': "h' = (if oo_rejected result
      then erase_live (mq_order_id r) (publish_exec_status (cancelled_event (mq_order_id r) ?lo) h1) else h1)"
    using assms(2) Some c s by (cases "oo_rejected result") (auto simp: hc_send_modify_def Let_def bind_eq_Some_conv)
  have ok: "hc_ok ids ?h" using accounts_change [OF assms(1) Some, of ?lo] by (simp add: update_conv')
  show ?thesis
  proof (cases "oo_rejected result")
    case True
    then have "fills = []" using submit_refused [OF s] by (simp add: replaced_order_def)
    then have h1: "h1 = ?h" using p by simp
    have "accounts ids (hc_reports ?h @ [status_report (hc_simulation_now_ns ?h) (cancelled_event (mq_order_id r) ?lo)])
        ((map_of (hc_live ?h))(mq_order_id r := None))"
      using accounts_report [OF ok, of "mq_order_id r" ?lo "status_report (hc_simulation_now_ns ?h) (cancelled_event (mq_order_id r) ?lo)" ?lo]
      by (simp add: cancelled_event_def final_report_def update_conv')
    then show ?thesis using True unfolding h' h1 by (simp add: delete_conv')
  qed (use h' publish_fills_ok [OF ok p] in simp)
qed (use assms in \<open>simp add: hc_send_modify_def\<close>)

text \<open>What a new order does: it is turned away, refused by the engine, or taken.\<close>

lemma hc_new_cases:
  assumes "hc_send_new_order r h = Some (taken, h')"
  obtains (turned_away) "\<not> taken" "h' = h"
  | (refused) "\<not> taken" "h' = h\<lparr>hc_live := AList.delete (on_order_id r) (emplace_live (on_order_id r) (live_of r) (hc_live h)),
      hc_rejected_count := hc_rejected_count h + 1\<rparr>"
  | (taken) result fills me h1 where "taken"
      "submit_order (open_order_of (hc_simulation_now_ns h) r) (hc_matching h) = (result, fills, me)"
      "publish_fills fills (h\<lparr>hc_live := emplace_live (on_order_id r) (live_of r) (hc_live h), hc_matching := me\<rparr>) = Some h1"
      "h' = (case map_of (hc_live h1) (on_order_id r) of None \<Rightarrow> h1
        | Some lo \<Rightarrow> if lo_cumulative_filled_qty lo < on_quantity r
            then publish_exec_status (order_event ES_ACKED r (lo_cumulative_filled_qty lo)) h1 else h1)"
proof (cases "on_quantity r = 0 \<or> (on_order_type r \<noteq> OT_MARKET \<and> sint (on_price r) \<le> 0) \<or> on_exchange_symbol r = []")
  case True
  then show thesis using assms turned_away by (auto simp: hc_send_new_order_def)
next
  case False
  obtain result fills me where s: "submit_order (open_order_of (hc_simulation_now_ns h) r) (hc_matching h) = (result, fills, me)"
    by (cases "submit_order (open_order_of (hc_simulation_now_ns h) r) (hc_matching h)")
  let ?h = "h\<lparr>hc_live := emplace_live (on_order_id r) (live_of r) (hc_live h), hc_matching := me\<rparr>"
  show thesis
  proof (cases "oo_rejected result")
    case True
    then have "fills = []" "me = hc_matching h" using submit_refused [OF s] by (simp_all add: open_order_of_def)
    then show thesis using assms False s True
      by (intro refused) (auto simp: hc_send_new_order_def Let_def erase_live_def)
  next
    case rest: False
    obtain h1 where h1: "publish_fills fills ?h = Some h1"
      using assms False s by (auto simp: hc_send_new_order_def Let_def bind_eq_Some_conv)
    then show thesis using assms False s rest
      by (intro taken [OF _ s h1]) (auto simp: hc_send_new_order_def Let_def split: option.splits)
  qed
qed

lemma hc_new_ok:
  assumes "hc_ok ids h" "on_order_id r \<notin> ids" "hc_send_new_order r h = Some (taken, h')"
  shows "hc_ok (insert (on_order_id r) ids) h'"
proof -
  have fresh: "map_of (hc_live h) (on_order_id r) = None" using assms(1,2) by (auto simp: accounts_def)
  have new: "accounts (insert (on_order_id r) ids) (hc_reports h) ((map_of (hc_live h))(on_order_id r \<mapsto> live_of r))"
    using assms(1,2) by (intro accounts_new) (simp_all add: live_of_def)
  have more: "accounts (insert (on_order_id r) ids) (hc_reports h) (map_of (hc_live h))"
    using assms(1) by (auto simp: accounts_def)
  show ?thesis
  using assms(3)
  proof (cases rule: hc_new_cases)
    case (taken result fills me h1)
    have ok: "hc_ok (insert (on_order_id r) ids) h1"
      using publish_fills_ok [OF _ taken(3)] new fresh by (simp add: emplace_live_def update_conv')
    show ?thesis
    proof (cases "map_of (hc_live h1) (on_order_id r)")
      case (Some lo)
      let ?r = "status_report (hc_simulation_now_ns h1) (order_event ES_ACKED r (lo_cumulative_filled_qty lo))"
      have "accounts (insert (on_order_id r) ids) (hc_reports h1 @ [?r]) ((map_of (hc_live h1))(on_order_id r \<mapsto> lo))"
        using accounts_report [OF ok Some, of ?r lo] by (simp add: order_event_def final_report_def)
      then have "accounts (insert (on_order_id r) ids) (hc_reports h1 @ [?r]) (map_of (hc_live h1))" using Some by (simp add: fun_upd_idem)
      then show ?thesis using ok taken(4) Some by simp
    qed (use ok taken(4) in simp)
  qed (use more fresh in \<open>auto simp: emplace_live_def delete_conv' update_conv' intro: accounts_erase\<close>)
qed

lemma hc_market_ok: "hc_ok ids h \<Longrightarrow> hc_market_event ev h = Some h' \<Longrightarrow> hc_ok ids h'"
  using publish_fills_ok [of ids "h\<lparr>hc_matching := _\<rparr>"] by (auto simp: hc_market_event_def split: prod.splits)

fun hc_ids :: "hc_call list \<Rightarrow> u64 list" where
  "hc_ids [] = []"
| "hc_ids (Hc_New r # cs) = on_order_id r # hc_ids cs"
| "hc_ids (_ # cs) = hc_ids cs"

lemma hc_run_ok:
  "hc_ok ids h \<Longrightarrow> distinct (hc_ids cs) \<Longrightarrow> ids \<inter> set (hc_ids cs) = {} \<Longrightarrow> hc_run cs h = Some h' \<Longrightarrow> hc_ok (ids \<union> set (hc_ids cs)) h'"
proof (induction cs arbitrary: ids h)
  case (Cons c cs)
  obtain h1 where h1: "hc_step c h = Some h1" "hc_run cs h1 = Some h'" using Cons.prems(4) by (auto simp: bind_eq_Some_conv)
  show ?case
  proof (cases c)
    case (Hc_New r)
    obtain taken where "hc_send_new_order r h = Some (taken, h1)" using h1(1) Hc_New by auto
    then have "hc_ok (insert (on_order_id r) ids) h1" using Cons.prems Hc_New by (intro hc_new_ok) auto
    then show ?thesis using Cons.IH [OF _ _ _ h1(2), of "insert (on_order_id r) ids"] Cons.prems Hc_New by simp
  next
    case (Hc_Modify r)
    then show ?thesis using Cons.IH [OF hc_modify_ok _ _ h1(2)] Cons.prems h1(1) by simp
  next
    case (Hc_Market ev)
    then show ?thesis using Cons.IH [OF hc_market_ok _ _ h1(2)] Cons.prems h1(1) by simp
  next
    case (Hc_Cancel r)
    then show ?thesis using Cons.IH [OF hc_cancel_ok [OF Cons.prems(1), of r]] Cons.prems h1 by simp
  next
    case (Hc_Cancel_All ex iid)
    then show ?thesis using Cons.IH [OF hc_cancel_all_ok [OF Cons.prems(1), of ex iid]] Cons.prems h1 by simp
  next
    case (Hc_Time now)
    then show ?thesis using Cons.IH [OF _ _ _ h1(2)] Cons.prems h1(1) by (auto simp: set_simulation_time_def)
  next
    case Hc_Heartbeat
    then show ?thesis using Cons.IH [OF _ _ _ h1(2)] Cons.prems h1(1) by (auto simp: push_heartbeat_def)
  qed
qed simp


text \<open>
  An order that the client refuses was never there. When \<open>send_new_order\<close> returns false for an id that is not
  live, the strategy has heard nothing, the engine is as before and the id is not live.
\<close>

theorem hc_refused_no_trace:
  assumes "hc_send_new_order r h = Some (False, h')" "map_of (hc_live h) (on_order_id r) = None"
  shows "hc_matching h' = hc_matching h \<and> hc_reports h' = hc_reports h \<and> hc_results h' = hc_results h \<and> map_of (hc_live h') = map_of (hc_live h)"
  using assms(1)
proof (cases rule: hc_new_cases)
  case refused
  then show ?thesis using assms(2) by (auto simp: emplace_live_def delete_conv' update_conv')
qed simp_all

subsection \<open>Two weaknesses\<close>

text \<open>
  A market order in a market without a book stays open for ever. With no latency and nothing pending, the
  engine drops it without a fill, the client acknowledges it and keeps it live, and since the engine does not know the order a cancel of it
  does nothing at all: no report ever ends it.
\<close>

theorem hc_market_order_stuck:
  assumes "on_order_type r = OT_MARKET" "on_exec_inst r AND 1 = 0" "on_quantity r \<noteq> 0" "on_exchange_symbol r \<noteq> []"
    and "map_of (hc_live h) (on_order_id r) = None" "me_latency (hc_matching h) = None"
    and "me_pending_submits (hc_matching h) = []" "me_pending_fills (hc_matching h) = []"
    and "map_of (me_books (hc_matching h)) (me_key (exchange_id_string (on_exchange_id r)) (on_exchange_symbol r)) = None"
    and "find (\<lambda>o'. oo_order_id o' = to_string_u64 (on_order_id r))
      (me_resting (me_key (exchange_id_string (on_exchange_id r)) (on_exchange_symbol r)) (hc_matching h)) = None"
  shows "\<exists>h'. hc_send_new_order r h = Some (True, h') \<and> hc_matching h' = hc_matching h \<and>
    hc_reports h' = hc_reports h @ [status_report (hc_simulation_now_ns h) (order_event ES_ACKED r 0)] \<and>
    map_of (hc_live h') (on_order_id r) = Some (live_of r) \<and>
    hc_send_cancel \<lparr>cq_order_id = on_order_id r, cq_exchange_id = ex, cq_instrument_id = iid\<rparr> h' = h'"
proof -
  have same: "hc_matching h\<lparr>me_pending_submits := []\<rparr> = hc_matching h" "hc_matching h\<lparr>me_pending_fills := []\<rparr> = hc_matching h"
    using assms(7,8) by simp_all
  have ts: "hc_matching h\<lparr>me_current_ts := me_current_ts (hc_matching h)\<rparr> = hc_matching h" by simp
  have submit: "submit_order (open_order_of (hc_simulation_now_ns h) r) (hc_matching h) =
      ((open_order_of (hc_simulation_now_ns h) r)\<lparr>oo_submitted_ts := me_current_ts (hc_matching h)\<rparr>, [], hc_matching h)"
    using assms(1,2,6-9) same
    by (simp add: submit_order_def open_order_of_def to_match_type_def me_draw_def drain_pending_submits_def drain_pending_fills_def
        process_pending_submit_def Let_def)
  let ?h = "publish_exec_status (order_event ES_ACKED r 0) (h\<lparr>hc_live := AList.update (on_order_id r) (live_of r) (hc_live h)\<rparr>)"
  have new: "hc_send_new_order r h = Some (True, ?h)"
    using assms(1,3-5) submit
    by (auto simp: hc_send_new_order_def emplace_live_def open_order_of_def live_of_def update_conv' word_gt_0)
  have live: "map_of (hc_live ?h) (on_order_id r) = Some (live_of r)" by (simp add: update_conv')
  have "cancel_order (lo_exchange (live_of r)) (lo_exchange_symbol (live_of r)) (to_string_u64 (on_order_id r)) (hc_matching h) =
      (False, hc_matching h)"
    using assms(7,10) by (simp add: cancel_order_def live_of_def)
  then have "hc_send_cancel \<lparr>cq_order_id = on_order_id r, cq_exchange_id = ex, cq_instrument_id = iid\<rparr> ?h = ?h"
    using live by (simp add: hc_send_cancel_def publish_exec_status_def)
  then show ?thesis using new live by (intro exI [of _ ?h]) simp
qed

text \<open>
  A report of a fill never says what is left. The remainder is computed from the quantity of the fill, not of the
  order, and the total filled is never below the fill: every \<open>PARTIAL\<close> report of a backtest says that nothing remains.
\<close>

theorem hc_fill_leaves_nothing:
  assumes "publish_fill fr h = Some h'" "stoull (fr_order_id fr) = Some i" "map_of (hc_live h) i = Some lo" "scaled_fill fr = Some fill"
    and "uint (lo_cumulative_filled_qty lo) + uint (fst fill) < 2 ^ 64"
  shows "\<exists>r. hc_reports h' = hc_reports h @ [r] \<and> xr_status r = (if fr_is_fully_filled fr then ES_FILLED else ES_PARTIAL) \<and>
    xr_filled_qty r = fst fill \<and> xr_remaining_qty r = 0"
proof -
  have "fst fill \<le> lo_cumulative_filled_qty lo + fst fill"
    using assms(5) by (simp add: word_le_def uint_word_ariths mod_pos_pos_trivial)
  then show ?thesis using assms(1-4)
    by (auto simp: publish_fill_def Let_def publish_exec_status_def erase_live_def fill_event_def status_report_def split: if_splits)
qed

subsection \<open>Examples\<close>

definition bt_order :: "order_type \<Rightarrow> outbound_new_order" where
  "bt_order t = \<lparr> on_order_id = 7, on_exchange_id = EX_OKX, on_instrument_id = 1, on_side = BUY, on_order_type = t, on_tif = GTC,
     on_price = 100000000, on_quantity = 200000000, on_exec_inst = 0, on_exchange_symbol = ''X'' \<rparr>"

definition bt_cancel :: cancel_order_request where
  "bt_cancel = \<lparr> cq_order_id = 7, cq_exchange_id = EX_OKX, cq_instrument_id = 1 \<rparr>"

definition bt_calls :: "hc_call list" where
  "bt_calls = [Hc_New (bt_order OT_LIMIT), Hc_Cancel bt_cancel, Hc_Cancel bt_cancel]"

lemma bt_run:
  "map_option (\<lambda>h. map xr_status (hc_reports h)) (hc_run bt_calls (hc_init (me_init :: unit matching_engine))) = Some [ES_ACKED, ES_CANCELLED]"
  by code_simp


text \<open>A post-only order that would cross the book.\<close>

definition bt_engine :: "unit matching_engine" where
  "bt_engine = me_init\<lparr>me_books := [(''OKX:X'', \<lparr>br_timestamp_ns = 1, br_exchange = ''OKX'', br_symbol = ''X'',
     br_bid = replicate 5 (0, 0), br_ask = (dlit (1 / 2), Fin 3) # replicate 4 (0, 0)\<rparr>)]\<rparr>"

theorem hc_refused_no_trace_witness:
  "\<exists>h'. hc_send_new_order ((bt_order OT_LIMIT)\<lparr>on_exec_inst := 1\<rparr>) (hc_init bt_engine) = Some (False, h') \<and> hc_rejected_count h' = 1 \<and>
    hc_matching h' = bt_engine \<and> hc_reports h' = [] \<and> map_of (hc_live h') 7 = None"
proof -
  have "map_option (\<lambda>(b, h). (b, hc_rejected_count h)) (hc_send_new_order ((bt_order OT_LIMIT)\<lparr>on_exec_inst := 1\<rparr>) (hc_init bt_engine)) =
      Some (False, 1)" by code_simp
  then obtain h' where h': "hc_send_new_order ((bt_order OT_LIMIT)\<lparr>on_exec_inst := 1\<rparr>) (hc_init bt_engine) = Some (False, h')"
    "hc_rejected_count h' = 1" by (auto simp: map_option_eq_Some)
  then show ?thesis using hc_refused_no_trace [OF h'(1)] by (simp add: hc_init_def)
qed

theorem hc_market_order_stuck_witness:
  "\<exists>h'. hc_send_new_order (bt_order OT_MARKET) (hc_init (me_init :: unit matching_engine)) = Some (True, h') \<and>
    map xr_status (hc_reports h') = [ES_ACKED] \<and> hc_send_cancel bt_cancel h' = h'"
  using hc_market_order_stuck [of "bt_order OT_MARKET" "hc_init (me_init :: unit matching_engine)" EX_OKX 1]
  by (auto simp: bt_order_def bt_cancel_def hc_init_def me_init_def me_resting_def order_event_def)

definition bt_fill :: fill_report where
  "bt_fill = \<lparr> fr_order_id = to_string_u64 7, fr_client_order_id = to_string_u64 7, fr_exchange = ''OKX'', fr_symbol = ''X'',
     fr_order_type = BT_LIMIT, fr_side = BT_BUY, fr_liquidity_role = MAKER, fr_original_qty = Fin 2, fr_order_price = Fin 1,
     fr_last_fill_qty = Fin 1, fr_last_fill_price = Fin 1, fr_cumulative_fill_qty = Fin 1, fr_is_fully_filled = False, fr_simulation_ts = 3 \<rparr>"

definition bt_live :: "unit harness_client" where
  "bt_live = (hc_init me_init)\<lparr>hc_live := [(7, live_of (bt_order OT_LIMIT))]\<rparr>"

theorem hc_fill_leaves_nothing_witness:
  "\<exists>h' r. publish_fill bt_fill bt_live = Some h' \<and> hc_reports h' = [r] \<and> xr_status r = ES_PARTIAL \<and> xr_filled_qty r = 100000000 \<and>
    xr_remaining_qty r = 0"
proof -
  have i: "stoull (fr_order_id bt_fill) = Some 7" by (simp add: bt_fill_def stoull_to_string)
  have f: "scaled_fill bt_fill = Some (100000000, 100000000)" by code_simp
  have lo: "map_of (hc_live bt_live) 7 = Some (live_of (bt_order OT_LIMIT))" by (simp add: bt_live_def)
  then obtain h' where h': "publish_fill bt_fill bt_live = Some h'" using i f by (auto simp: publish_fill_def Let_def)
  then show ?thesis using hc_fill_leaves_nothing [OF h' i lo f] by (auto simp: live_of_def bt_fill_def bt_live_def hc_init_def)
qed

end
