(* ===== verification/Vol_Features.thy ===== *)
theory Vol_Features
  imports Prelude Binary64
begin

text \<open>
  The market features that gate the quotes of a strategy: \<open>VolatilityGate\<close> (\<open>src/bpt-features/include/features/vol_gate.h\<close>),
  \<open>RealizedVolEstimator\<close> (\<open>realized_vol.cpp\<close>) and \<open>RegimeClassifier\<close> (\<open>regime_classifier.h\<close>). \<open>std::log\<close> and
  \<open>std::sqrt\<close> are arguments, since the language does not fix their results. \<open>None\<close> is an index out of a window of no samples. The theorems: a halt lasts its
  whole duration, the windows stay within their bounds, and what a choppy market is followed by.
\<close>

subsection \<open>Volatility gate\<close>

record vol_gate_config =
  max_bps_per_window :: double
  window_ns :: u64
  halt_duration_ns :: u64

record vol_gate =
  vg_cfg :: vol_gate_config
  vg_history :: "(u64 \<times> double) list"
  vg_halt_end_ns :: u64
  vg_trips :: u64
  vg_last_trip_bps :: double

definition vg_make :: "vol_gate_config \<Rightarrow> vol_gate" where
  "vg_make cfg = \<lparr> vg_cfg = cfg, vg_history = [], vg_halt_end_ns = 0, vg_trips = 0, vg_last_trip_bps = 0 \<rparr>"

definition set_max_bps_per_window :: "double \<Rightarrow> vol_gate \<Rightarrow> vol_gate" where
  "set_max_bps_per_window max_bps g = g\<lparr>vg_cfg := (vg_cfg g)\<lparr>max_bps_per_window := max_bps\<rparr>\<rparr>"

definition bps_move :: "double \<Rightarrow> double \<Rightarrow> double" where
  "bps_move mid px = (let bps = (px - mid) div mid * dlit (10 ^ 4) in if bps < 0 then - bps else bps)"

definition max_move :: "double \<Rightarrow> (u64 \<times> double) list \<Rightarrow> double" where
  "max_move mid history = fold (\<lambda>(ts, px) m. if bps_move mid px > m then bps_move mid px else m) history 0"

definition vg_evict :: "u64 \<Rightarrow> vol_gate \<Rightarrow> vol_gate" where
  "vg_evict now_ns g = g\<lparr>vg_history := dropWhile (\<lambda>(ts, px). now_ns - ts > window_ns (vg_cfg g)) (vg_history g)\<rparr>"

definition vg_update_and_check :: "double \<Rightarrow> u64 \<Rightarrow> vol_gate \<Rightarrow> bool \<times> vol_gate" where
  "vg_update_and_check mid now_ns g =
     (if max_bps_per_window (vg_cfg g) \<le> 0 \<or> mid \<le> 0 then (False, g)
      else
        (let g = vg_evict now_ns g;
             max_bps = max_move mid (vg_history g);
             g = g\<lparr>vg_history := vg_history g @ [(now_ns, mid)]\<rparr>;
             g = (if max_bps > max_bps_per_window (vg_cfg g)
                  then g\<lparr>vg_halt_end_ns := now_ns + halt_duration_ns (vg_cfg g), vg_trips := vg_trips g + 1, vg_last_trip_bps := max_bps\<rparr>
                  else g)
         in (now_ns < vg_halt_end_ns g, g)))"

definition vg_is_halted :: "u64 \<Rightarrow> vol_gate \<Rightarrow> bool" where
  "vg_is_halted now_ns g \<longleftrightarrow> max_bps_per_window (vg_cfg g) > 0 \<and> now_ns < vg_halt_end_ns g"

subsection \<open>Realised volatility\<close>

record vol_estimator =
  rv_window_size :: nat
  rv_min_samples :: nat
  rv_sample_interval_ns :: u64
  rv_annualization :: double
  rv_returns :: "double list"
  rv_head :: nat
  rv_count :: nat
  rv_sum :: double
  rv_sum_sq :: double
  rv_last_price :: double
  rv_last_sample_ns :: u64

definition rv_make :: "(double \<Rightarrow> double) \<Rightarrow> nat \<Rightarrow> u64 \<Rightarrow> vol_estimator" where
  "rv_make sqrt_fn window interval_ns =
     (let sample_interval_s = d_of_int (uint interval_ns) div dlit (10 ^ 9)
      in \<lparr> rv_window_size = window, rv_min_samples = window div 2, rv_sample_interval_ns = interval_ns,
           rv_annualization = sqrt_fn (dlit 31557600 div sample_interval_s), rv_returns = replicate window 0, rv_head = 0, rv_count = 0,
           rv_sum = 0, rv_sum_sq = 0, rv_last_price = 0, rv_last_sample_ns = 0 \<rparr>)"

definition rv_ready :: "vol_estimator \<Rightarrow> bool" where
  "rv_ready v \<longleftrightarrow> rv_min_samples v \<le> rv_count v"

definition rv_push :: "double \<Rightarrow> vol_estimator \<Rightarrow> vol_estimator option" where
  "rv_push r v =
     (if rv_window_size v = 0 then None
      else
        (let old = rv_returns v ! rv_head v;
             v = (if rv_count v = rv_window_size v then v\<lparr>rv_sum := rv_sum v - old, rv_sum_sq := rv_sum_sq v - old * old\<rparr>
                  else v\<lparr>rv_count := rv_count v + 1\<rparr>)
         in Some (v\<lparr>rv_returns := (rv_returns v)[rv_head v := r], rv_head := (rv_head v + 1) mod rv_window_size v,
                    rv_sum := rv_sum v + r, rv_sum_sq := rv_sum_sq v + r * r\<rparr>)))"

definition rv_update :: "(double \<Rightarrow> double) \<Rightarrow> double \<Rightarrow> u64 \<Rightarrow> vol_estimator \<Rightarrow> vol_estimator option" where
  "rv_update log_fn mid ts v =
     (if mid \<le> 0 then Some v
      else if rv_last_price v \<le> 0 then Some (v\<lparr>rv_last_price := mid, rv_last_sample_ns := ts\<rparr>)
      else if ts - rv_last_sample_ns v < rv_sample_interval_ns v then Some v
      else rv_push (log_fn (mid div rv_last_price v)) (v\<lparr>rv_last_price := mid, rv_last_sample_ns := ts\<rparr>))"

definition realized_vol :: "(double \<Rightarrow> double) \<Rightarrow> vol_estimator \<Rightarrow> double" where
  "realized_vol sqrt_fn v =
     (if rv_count v < 2 then 0
      else
        (let n = d_of_int (int (rv_count v));
             mean = rv_sum v div n;
             variance = rv_sum_sq v div n - mean * mean
         in sqrt_fn (if variance < 0 then 0 else variance) * rv_annualization v))"

definition rv_reset :: "vol_estimator \<Rightarrow> vol_estimator" where
  "rv_reset v = v\<lparr>rv_returns := replicate (length (rv_returns v)) 0, rv_head := 0, rv_count := 0, rv_sum := 0, rv_sum_sq := 0,
     rv_last_price := 0, rv_last_sample_ns := 0\<rparr>"

subsection \<open>Regimes\<close>

datatype regime = QUIET | TRENDING | CHOPPY

record regime_config =
  rgf_window_size :: nat
  rgf_sample_interval_ns :: u64
  rgf_quiet_vol_bps_per_min :: double
  rgf_trend_threshold_z :: double
  rgf_chop_cooldown_ns :: u64

record regime_classifier =
  rgc_cfg :: regime_config
  rgc_returns :: "double list"
  rgc_head :: nat
  rgc_count :: nat
  rgc_sum :: double
  rgc_sum_sq :: double
  rgc_last_price :: double
  rgc_last_sample_ns :: u64
  rgc_last_chop_ns :: u64

definition reg_make :: "regime_config \<Rightarrow> regime_classifier" where
  "reg_make cfg = \<lparr> rgc_cfg = cfg, rgc_returns = replicate (rgf_window_size cfg) 0, rgc_head = 0, rgc_count = 0, rgc_sum = 0, rgc_sum_sq = 0,
     rgc_last_price = 0, rgc_last_sample_ns = 0, rgc_last_chop_ns = 0 \<rparr>"

definition reg_ready :: "regime_classifier \<Rightarrow> bool" where
  "reg_ready c \<longleftrightarrow> rgf_window_size (rgc_cfg c) div 2 \<le> rgc_count c"

definition reg_push :: "double \<Rightarrow> regime_classifier \<Rightarrow> regime_classifier option" where
  "reg_push r c =
     (let w = rgf_window_size (rgc_cfg c)
      in if w = 0 then None
         else
           (let old = rgc_returns c ! rgc_head c;
                s = rgc_sum c - old; sq = rgc_sum_sq c - old * old
            in Some (c\<lparr>rgc_returns := (rgc_returns c)[rgc_head c := r], rgc_head := (rgc_head c + 1) mod w,
                       rgc_count := (if rgc_count c < w then rgc_count c + 1 else rgc_count c), rgc_sum := s + r, rgc_sum_sq := sq + r * r\<rparr>)))"

definition reg_update :: "(double \<Rightarrow> double) \<Rightarrow> double \<Rightarrow> u64 \<Rightarrow> regime_classifier \<Rightarrow> regime_classifier option" where
  "reg_update log_fn mid ts c =
     (if mid \<le> 0 then Some c
      else if rgc_last_sample_ns c \<noteq> 0 \<and> ts - rgc_last_sample_ns c < rgf_sample_interval_ns (rgc_cfg c) then Some c
      else map_option (\<lambda>c. c\<lparr>rgc_last_price := mid, rgc_last_sample_ns := ts\<rparr>)
        (if rgc_last_price c > 0 then reg_push (log_fn (mid div rgc_last_price c)) c else Some c))"

definition reg_variance :: "regime_classifier \<Rightarrow> double" where
  "reg_variance c =
     (let n = d_of_int (int (rgc_count c)); mean = rgc_sum c div n in (rgc_sum_sq c - n * mean * mean) div (n - Fin 1))"

definition realized_vol_bps_per_min :: "(double \<Rightarrow> double) \<Rightarrow> regime_classifier \<Rightarrow> double" where
  "realized_vol_bps_per_min sqrt_fn c =
     (if rgc_count c < 2 then 0
      else
        (let var = reg_variance c
         in if var \<le> 0 then 0
            else
              (let samples_per_minute = dlit (60 * 10 ^ 9) div d_of_int (uint (rgf_sample_interval_ns (rgc_cfg c)))
               in sqrt_fn var * sqrt_fn samples_per_minute * dlit (10 ^ 4))))"

definition trend_zscore :: "(double \<Rightarrow> double) \<Rightarrow> regime_classifier \<Rightarrow> double" where
  "trend_zscore sqrt_fn c =
     (if rgc_count c < 2 then 0
      else
        (let var = reg_variance c
         in if var \<le> 0 then (if \<bar>rgc_sum c\<bar> > 0 then dlit (10 ^ 6) else 0)
            else \<bar>rgc_sum c\<bar> div (sqrt_fn var * sqrt_fn (d_of_int (int (rgc_count c))))))"

definition reg_classify :: "(double \<Rightarrow> double) \<Rightarrow> u64 \<Rightarrow> regime_classifier \<Rightarrow> regime \<times> regime_classifier" where
  "reg_classify sqrt_fn now_ns c =
     (if \<not> reg_ready c then (QUIET, c)
      else if realized_vol_bps_per_min sqrt_fn c < rgf_quiet_vol_bps_per_min (rgc_cfg c) then (QUIET, c)
      else if \<not> rgf_trend_threshold_z (rgc_cfg c) \<le> trend_zscore sqrt_fn c then (CHOPPY, c\<lparr>rgc_last_chop_ns := now_ns\<rparr>)
      else if rgc_last_chop_ns c \<noteq> 0 \<and> now_ns - rgc_last_chop_ns c < rgf_chop_cooldown_ns (rgc_cfg c) then (CHOPPY, c)
      else (TRENDING, c))"

definition reg_reset :: "regime_classifier \<Rightarrow> regime_classifier" where
  "reg_reset c = c\<lparr>rgc_returns := replicate (length (rgc_returns c)) 0, rgc_head := 0, rgc_count := 0, rgc_sum := 0, rgc_sum_sq := 0,
     rgc_last_price := 0, rgc_last_sample_ns := 0, rgc_last_chop_ns := 0\<rparr>"

subsection \<open>Halts\<close>

definition vg_run :: "(u64 \<times> double) list \<Rightarrow> vol_gate \<Rightarrow> vol_gate" where
  "vg_run = fold (\<lambda>(now_ns, mid) g. snd (vg_update_and_check mid now_ns g))"

lemma vg_update_fields:
  "vg_cfg (snd (vg_update_and_check mid now g)) = vg_cfg g"
  "vg_halt_end_ns (snd (vg_update_and_check mid now g)) \<in> {vg_halt_end_ns g, now + halt_duration_ns (vg_cfg g)}"
  "vg_trips (snd (vg_update_and_check mid now g)) \<noteq> vg_trips g \<Longrightarrow>
     vg_halt_end_ns (snd (vg_update_and_check mid now g)) = now + halt_duration_ns (vg_cfg g) \<and> max_bps_per_window (vg_cfg g) > 0"
  by (auto simp: vg_update_and_check_def vg_evict_def Let_def)
    (cases "max_bps_per_window (vg_cfg g)"; simp)

lemma vg_run_halt_end:
  assumes "v \<le> vg_halt_end_ns g" "list_all (\<lambda>(now, mid). v \<le> now + halt_duration_ns (vg_cfg g)) ts"
  shows "v \<le> vg_halt_end_ns (vg_run ts g) \<and> vg_cfg (vg_run ts g) = vg_cfg g"
  using assms
proof (induction ts arbitrary: g)
  case (Cons t ts)
  obtain now mid where t: "t = (now, mid)" by (cases t)
  let ?g = "snd (vg_update_and_check mid now g)"
  have "v \<le> vg_halt_end_ns ?g" using vg_update_fields(2) [of mid now g] Cons.prems t by auto
  then show ?case using Cons.IH [of ?g] Cons.prems(2) t vg_update_fields(1) [of mid now g] by (simp add: vg_run_def)
qed (simp add: vg_run_def)

text \<open>
  C38: a halt lasts. Once the gate has tripped it is halted at every time before the end of the halt, whatever
  prices come in the meantime, as long as the clock does not run backwards behind the trip and does not wrap.
\<close>

theorem vol_gate_halt_lasts:
  assumes "g1 = snd (vg_update_and_check mid t0 g)" "vg_trips g1 \<noteq> vg_trips g"
    and "list_all (\<lambda>(now, mid). t0 \<le> now \<and> uint now + uint (halt_duration_ns (vg_cfg g)) < 2 ^ 64) ts"
    and "uint t0 + uint (halt_duration_ns (vg_cfg g)) < 2 ^ 64" "uint n < uint t0 + uint (halt_duration_ns (vg_cfg g))"
  shows "vg_is_halted n (vg_run ts g1)"
proof -
  let ?v = "t0 + halt_duration_ns (vg_cfg g)"
  have end1: "vg_halt_end_ns g1 = ?v" "max_bps_per_window (vg_cfg g) > 0" using vg_update_fields(3) assms(1,2) by auto
  have plus: "uint (t + halt_duration_ns (vg_cfg g)) = uint t + uint (halt_duration_ns (vg_cfg g))"
    if "uint t + uint (halt_duration_ns (vg_cfg g)) < 2 ^ 64" for t
    using that by (simp add: uint_word_ariths mod_pos_pos_trivial)
  have "list_all (\<lambda>(now, mid). ?v \<le> now + halt_duration_ns (vg_cfg g1)) ts"
    using assms(1,3,4) plus vg_update_fields(1) [of mid t0 g] by (auto simp: list_all_iff word_le_def split_beta)
  from vg_run_halt_end [OF _ this] have "?v \<le> vg_halt_end_ns (vg_run ts g1)" "vg_cfg (vg_run ts g1) = vg_cfg g"
    using end1(1) assms(1) vg_update_fields(1) [of mid t0 g] by auto
  moreover have "n < ?v" using assms(4,5) plus by (simp add: word_less_def)
  ultimately show ?thesis using end1(2) by (simp add: vg_is_halted_def)
qed

subsection \<open>Windows\<close>

definition rv_ok :: "vol_estimator \<Rightarrow> bool" where
  "rv_ok v \<longleftrightarrow> 0 < rv_window_size v \<and> length (rv_returns v) = rv_window_size v \<and> rv_head v < rv_window_size v \<and>
     rv_count v \<le> rv_window_size v"

definition reg_ok :: "regime_classifier \<Rightarrow> bool" where
  "reg_ok c \<longleftrightarrow> 0 < rgf_window_size (rgc_cfg c) \<and> length (rgc_returns c) = rgf_window_size (rgc_cfg c) \<and>
     rgc_head c < rgf_window_size (rgc_cfg c) \<and> rgc_count c \<le> rgf_window_size (rgc_cfg c)"

lemma rv_make_ok: "0 < w \<Longrightarrow> rv_ok (rv_make sqrt_fn w i)"
  by (simp add: rv_ok_def rv_make_def Let_def)

lemma reg_make_ok: "0 < rgf_window_size cfg \<Longrightarrow> reg_ok (reg_make cfg)"
  by (simp add: reg_ok_def reg_make_def)

lemma rv_update_ok: "rv_ok v \<Longrightarrow> \<exists>v'. rv_update log_fn mid ts v = Some v' \<and> rv_ok v'"
  by (auto simp: rv_update_def rv_push_def rv_ok_def Let_def)

lemma reg_update_ok: "reg_ok c \<Longrightarrow> \<exists>c'. reg_update log_fn mid ts c = Some c' \<and> reg_ok c' \<and> rgc_cfg c' = rgc_cfg c \<and> rgc_last_chop_ns c' = rgc_last_chop_ns c"
  by (auto simp: reg_update_def reg_push_def reg_ok_def Let_def)

text \<open>Prices and classifications in their order; the regimes found.\<close>

datatype regime_call = Reg_Update double u64 | Reg_Classify u64

fun reg_run :: "(double \<Rightarrow> double) \<Rightarrow> (double \<Rightarrow> double) \<Rightarrow> regime_call list \<Rightarrow> regime_classifier \<Rightarrow> (regime list \<times> regime_classifier) option" where
  "reg_run log_fn sqrt_fn [] c = Some ([], c)"
| "reg_run log_fn sqrt_fn (Reg_Update mid ts # cs) c = Option.bind (reg_update log_fn mid ts c) (reg_run log_fn sqrt_fn cs)"
| "reg_run log_fn sqrt_fn (Reg_Classify now_ns # cs) c =
     (let (r, c) = reg_classify sqrt_fn now_ns c in map_option (\<lambda>(rs, c). (r # rs, c)) (reg_run log_fn sqrt_fn cs c))"

fun classify_times :: "regime_call list \<Rightarrow> u64 list" where
  "classify_times [] = []"
| "classify_times (Reg_Update mid ts # cs) = classify_times cs"
| "classify_times (Reg_Classify now_ns # cs) = now_ns # classify_times cs"

lemma reg_update_keeps: "reg_update log_fn mid ts c = Some c' \<Longrightarrow> rgc_cfg c' = rgc_cfg c \<and> rgc_last_chop_ns c' = rgc_last_chop_ns c"
  by (auto simp: reg_update_def reg_push_def Let_def split: if_splits)

lemma minus_mono_word: "(t :: u64) \<le> l \<Longrightarrow> l \<le> n \<Longrightarrow> n - l \<le> n - t"
  by (simp add: word_le_nat_alt unat_sub_if')

text \<open>
  A choppy market is not traded as a trend too early. After the classifier has found the market choppy at time
  \<open>t\<close>, no sequence of prices makes it say trending at a time before the end of the cooldown, provided the clock does not run
  backwards and \<open>t\<close> is not 0, which stands for never.
\<close>

theorem regime_after_chop:
  assumes "rgc_last_chop_ns c = t" "t \<noteq> 0" "sorted (t # classify_times cs)"
    and "list_all (\<lambda>n. n - t < rgf_chop_cooldown_ns (rgc_cfg c)) (classify_times cs)" "reg_run log_fn sqrt_fn cs c = Some (rs, c')"
  shows "TRENDING \<notin> set rs"
proof -
  have "TRENDING \<notin> set rs"
    if "t \<le> rgc_last_chop_ns c" "sorted (rgc_last_chop_ns c # classify_times cs)"
      "list_all (\<lambda>n. n - t < rgf_chop_cooldown_ns (rgc_cfg c)) (classify_times cs)" "reg_run log_fn sqrt_fn cs c = Some (rs, c')" for c rs cs
    using that
  proof (induction cs arbitrary: c rs)
    case (Cons call cs)
    show ?case
    proof (cases call)
      case (Reg_Update mid ts)
      then obtain c1 where c1: "reg_update log_fn mid ts c = Some c1" "reg_run log_fn sqrt_fn cs c1 = Some (rs, c')"
        using Cons.prems(4) by (auto simp: bind_eq_Some_conv)
      then show ?thesis using Cons.IH [OF _ _ _ c1(2)] Cons.prems(1-3) reg_update_keeps [OF c1(1)] Reg_Update by simp
    next
      case (Reg_Classify n)
      obtain r c1 where k: "reg_classify sqrt_fn n c = (r, c1)" by (cases "reg_classify sqrt_fn n c")
      then obtain rs1 where rs: "rs = r # rs1" "reg_run log_fn sqrt_fn cs c1 = Some (rs1, c')"
        using Cons.prems(4) Reg_Classify by auto
      have n: "rgc_last_chop_ns c \<le> n" "n - t < rgf_chop_cooldown_ns (rgc_cfg c)" using Cons.prems(2,3) Reg_Classify by auto
      have "n - rgc_last_chop_ns c \<le> n - t" using Cons.prems(1) n(1) by (rule minus_mono_word)
      then have "n - rgc_last_chop_ns c < rgf_chop_cooldown_ns (rgc_cfg c)" using n(2) by (rule order_le_less_trans)
      moreover have "rgc_last_chop_ns c \<noteq> 0" using Cons.prems(1) assms(2) by auto
      ultimately have r: "r \<noteq> TRENDING" and c1: "rgc_last_chop_ns c1 \<in> {rgc_last_chop_ns c, n}" "rgc_cfg c1 = rgc_cfg c"
        using k by (auto simp: reg_classify_def split: if_splits)
      have "sorted (rgc_last_chop_ns c1 # classify_times cs)" "t \<le> rgc_last_chop_ns c1"
        using Cons.prems(1,2) n(1) c1(1) Reg_Classify by auto
      then show ?thesis using Cons.IH [OF _ _ _ rs(2)] Cons.prems(3) r c1(2) rs(1) Reg_Classify by auto
    qed
  qed simp
  from this [of c cs rs] show ?thesis using assms by simp
qed

subsection \<open>Examples\<close>

definition spike_gate :: vol_gate where
  "spike_gate = vg_make \<lparr> max_bps_per_window = Fin 10, window_ns = 1000, halt_duration_ns = 500 \<rparr>"

theorem vol_gate_halt_lasts_witness:
  "vg_trips (snd (vg_update_and_check (Fin 101) 20 (vg_run [(10, Fin 100)] spike_gate))) = 1 \<and>
    vg_is_halted 519 (vg_run [(30, Fin 100), (600, Fin 100)] (snd (vg_update_and_check (Fin 101) 20 (vg_run [(10, Fin 100)] spike_gate))))"
proof -
  let ?g = "vg_run [(10, Fin 100)] spike_gate"
  have t: "vg_trips ?g = 0" "vg_trips (snd (vg_update_and_check (Fin 101) 20 ?g)) = 1" "halt_duration_ns (vg_cfg ?g) = 500" by code_simp+
  then show ?thesis using vol_gate_halt_lasts [OF refl, of "Fin 101" 20 ?g "[(30, Fin 100), (600, Fin 100)]" 519] by simp
qed

definition choppy_market :: regime_classifier where
  "choppy_market = (reg_make \<lparr> rgf_window_size = 2, rgf_sample_interval_ns = 1, rgf_quiet_vol_bps_per_min = 0, rgf_trend_threshold_z = 0,
     rgf_chop_cooldown_ns = 100 \<rparr>)\<lparr>rgc_last_chop_ns := 5\<rparr>"

theorem regime_after_chop_witness:
  "map_option fst (reg_run (\<lambda>x. x) (\<lambda>x. x) [Reg_Update (Fin 1) 6, Reg_Update (Fin 2) 7, Reg_Classify 50, Reg_Classify 104] choppy_market) =
    Some [CHOPPY, CHOPPY]"
proof -
  let ?cs = "[Reg_Update (Fin 1) 6, Reg_Update (Fin 2) 7, Reg_Classify 50, Reg_Classify 104]"
  have run: "map_option fst (reg_run (\<lambda>x. x) (\<lambda>x. x) ?cs choppy_market) = Some [CHOPPY, CHOPPY]" by code_simp
  then obtain rs c' where "reg_run (\<lambda>x. x) (\<lambda>x. x) ?cs choppy_market = Some (rs, c')" by (auto simp: map_option_eq_Some)
  from regime_after_chop [OF _ _ _ _ this, of 5] have "TRENDING \<notin> set rs" by (simp add: choppy_market_def reg_make_def)
  with run show ?thesis by simp
qed

end
