(* ===== verification/Canonical_Resolver.thy ===== *)
theory Canonical_Resolver
  imports Refdata_Client
begin

text \<open>
  The universe of a strategy: \<open>CanonicalResolver\<close> (\<open>src/bpt-strategy/src/strategy/canonical_resolver.cpp\<close>), which turns
  symbols such as \<open>BTC/USDT:PERP\<close> into the filters of a request and the instruments of the cache, and the request itself
  (\<open>subscribe\<close> of \<open>refdata_client.h\<close>). The theorems: the service sends exactly the instruments that the strategy will pick, and
  a universe whose symbols are all malformed is everything.
\<close>

subsection \<open>Symbols\<close>

record parsed_symbol =
  ps_base :: string
  ps_quote :: string
  ps_type :: inst_type

definition to_upper_char :: "char \<Rightarrow> char" where
  "to_upper_char c = (let n = of_char c :: nat in if 97 \<le> n \<and> n \<le> 122 then char_of (n - 32) else c)"

definition parse_type :: "string \<Rightarrow> inst_type" where
  "parse_type s =
     (if s = ''SPOT'' then SPOT
      else if s = ''PERP'' \<or> s = ''PERPETUAL'' then PERPETUAL
      else if s = ''FUT'' \<or> s = ''FUTURE'' then FUTURE
      else if s = ''OPT'' \<or> s = ''OPTION'' then OPTION
      else SPOT)"

definition cr_parse :: "string \<Rightarrow> parsed_symbol option" where
  "cr_parse canonical =
     (let slash = length (takeWhile (\<lambda>c. c \<noteq> CHR ''/'') canonical);
          colon = length (takeWhile (\<lambda>c. c \<noteq> CHR '':'') canonical)
      in if slash = length canonical \<or> colon = length canonical \<or> colon \<le> slash then None
         else Some \<lparr> ps_base = take slash canonical, ps_quote = take (colon - slash - 1) (drop (slash + 1) canonical),
                     ps_type = parse_type (map to_upper_char (drop (colon + 1) canonical)) \<rparr>)"

definition parse_all :: "string list \<Rightarrow> parsed_symbol list" where
  "parse_all = List.map_filter cr_parse"

text \<open>One instrument and one symbol.\<close>

definition symbol_matches :: "instrument \<Rightarrow> parsed_symbol \<Rightarrow> bool" where
  "symbol_matches inst sym' \<longleftrightarrow>
     base_currency inst = ps_base sym' \<and> quote_currency inst = ps_quote sym' \<and> i_type inst = ps_type sym'"

definition exchange_wanted :: "string list \<Rightarrow> instrument \<Rightarrow> bool" where
  "exchange_wanted exchanges inst \<longleftrightarrow> exchanges = [] \<or> exchange inst \<in> set exchanges"

definition cr_resolve :: "inst_cache \<Rightarrow> string list \<Rightarrow> string list \<Rightarrow> u64 list" where
  "cr_resolve cache symbols exchanges =
     (let parsed = parse_all symbols
      in map instrument_id (filter (\<lambda>inst. exchange_wanted exchanges inst \<and> (parsed = [] \<or> list_ex (symbol_matches inst) parsed))
           (ic_get_all cache)))"

definition cr_matches :: "string list \<Rightarrow> string list \<Rightarrow> instrument \<Rightarrow> bool" where
  "cr_matches symbols exchanges inst \<longleftrightarrow>
     exchange_wanted exchanges inst \<and>
     (symbols = [] \<or> list_ex (\<lambda>s. case cr_parse s of Some p \<Rightarrow> symbol_matches inst p | None \<Rightarrow> False) symbols)"

fun to_exchange_id :: "string \<Rightarrow> exchange_id" where
  "to_exchange_id name =
     (if name = ''BINANCE'' then EX_BINANCE else if name = ''OKX'' then EX_OKX
      else if name = ''HYPERLIQUID'' then EX_HYPERLIQUID else if name = ''DERIBIT'' then EX_DERIBIT else EX_NULL)"

record resolved_instrument =
  rs_instrument_id :: u64
  rs_instrument :: instrument
  rs_exchange_id :: exchange_id

definition resolve_instruments :: "inst_cache \<Rightarrow> string list \<Rightarrow> string list \<Rightarrow> resolved_instrument list" where
  "resolve_instruments cache symbols exchanges =
     List.map_filter (\<lambda>i. map_option (\<lambda>inst. \<lparr> rs_instrument_id = i, rs_instrument = inst, rs_exchange_id = to_exchange_id (exchange inst) \<rparr>)
         (ic_get i cache))
       (cr_resolve cache symbols exchanges)"

subsection \<open>The request\<close>

fun wire_type :: "inst_type \<Rightarrow> wire_inst_type" where
  "wire_type SPOT = WT_SPOT"
| "wire_type PERPETUAL = WT_PERPETUAL"
| "wire_type FUTURE = WT_FUTURE"
| "wire_type OPTION = WT_OPTION"

definition build_filters :: "string list \<Rightarrow> string list \<Rightarrow> canonical_filter list" where
  "build_filters symbols exchanges =
     concat (map (\<lambda>p. map (\<lambda>ex. \<lparr> cf_base = ps_base p, cf_quote = ps_quote p, cf_type = wire_type (ps_type p), cf_exchange = ex \<rparr>)
                       (if exchanges = [] then [[]] else exchanges))
       (parse_all symbols))"

text \<open>
  The generated setters copy eight bytes from a C string whatever its length; what they find behind its end is \<open>junk\<close>. A group of
  more than 65534 entries throws.
\<close>

definition put_cstr :: "nat \<Rightarrow> string \<Rightarrow> string \<Rightarrow> string" where
  "put_cstr n junk s = take n (s @ nul # junk @ replicate n nul)"

definition encode_filter :: "string \<Rightarrow> canonical_filter \<Rightarrow> canonical_filter" where
  "encode_filter junk f = \<lparr> cf_base = put_cstr 8 junk (cf_base f), cf_quote = put_cstr 8 junk (cf_quote f), cf_type = cf_type f,
     cf_exchange = put_cstr 8 junk (cf_exchange f) \<rparr>"

definition subscribe_request :: "string \<Rightarrow> u64 \<Rightarrow> canonical_filter list \<Rightarrow> refdata_request option" where
  "subscribe_request junk corr filters =
     (if 65534 < length filters then None
      else Some \<lparr> rq_corr = corr, rq_instruments = [], rq_canonical = map (encode_filter junk) filters \<rparr>)"

subsection \<open>The service and the strategy agree\<close>

text \<open>Texts that fit their fields.\<close>

definition fits :: "nat \<Rightarrow> string \<Rightarrow> bool" where
  "fits n s \<longleftrightarrow> length s \<le> n \<and> nul \<notin> set s"

definition known_venue :: "string \<Rightarrow> bool" where
  "known_venue v \<longleftrightarrow> v \<in> {''BINANCE'', ''OKX'', ''HYPERLIQUID'', ''DERIBIT''}"

lemma view_put_cstr: "fits 8 s \<Longrightarrow> view 8 (put_cstr 8 junk s) = s"
proof -
  assume s: "fits 8 s"
  then have "take 8 (put_cstr 8 junk s) = s @ take (8 - length s) (nul # junk @ replicate 8 nul)"
    by (simp add: put_cstr_def fits_def take_append)
  moreover have "takeWhile (\<lambda>c. c \<noteq> nul) (s @ take k (nul # xs)) = s" for k xs
    using s by (cases k) (auto simp: fits_def takeWhile_append takeWhile_eq_all_conv)
  ultimately have "takeWhile (\<lambda>c. c \<noteq> nul) (take 8 (put_cstr 8 junk s)) = s" by metis
  moreover have "take (length s) (put_cstr 8 junk s) = s" using s by (simp add: put_cstr_def fits_def)
  ultimately show ?thesis by (simp add: view_def strnlen_def)
qed

lemma venue_filter:
  assumes "known_venue v" "known_venue ex"
  shows "venue_matches_filter_exchange v (put_cstr 8 junk ex) \<longleftrightarrow> v = ex"
proof (cases "ex = ''HYPERLIQUID''")
  case True
  have "put_cstr 8 junk ''HYPERLIQUID'' = ''HYPERLIQ''" by (simp add: put_cstr_def)
  moreover have "strnlen ''HYPERLIQ'' 8 = 8" by (simp add: strnlen_def nul_def)
  ultimately show ?thesis using assms(1) unfolding True
    by (auto simp: venue_matches_filter_exchange_def known_venue_def nul_def)
next
  case False
  let ?f = "put_cstr 8 junk ex"
  have ex: "fits 8 ex" "length ex < 8" "ex \<noteq> []" using False assms(2) by (auto simp: known_venue_def fits_def nul_def)
  have v: "view 8 ?f = ex" using ex(1) by (rule view_put_cstr)
  have "strnlen ?f 8 \<le> 8" by (simp add: strnlen_def) (metis length_take length_takeWhile_le min.bounded_iff)
  moreover have "length ?f = 8" by (simp add: put_cstr_def)
  ultimately have n: "strnlen ?f 8 = length ex" using v by (metis length_take min.absorb2 view_def)
  have "?f ! 0 = ex ! 0" using ex(3) by (simp add: put_cstr_def nth_append)
  moreover have "ex ! 0 \<noteq> nul" using ex(1,3) by (cases ex) (auto simp: fits_def)
  ultimately show ?thesis using v n ex(2) by (simp add: venue_matches_filter_exchange_def view_def Let_def)
qed

lemma any_venue: "venue_matches_filter_exchange v (put_cstr 8 junk [])"
  by (simp add: venue_matches_filter_exchange_def put_cstr_def)

text \<open>What the strategy reads of an instrument of the registry.\<close>

definition registrable :: "reg_instrument \<Rightarrow> bool" where
  "registrable r \<longleftrightarrow> fits 8 (base r) \<and> fits 8 (quote r) \<and> known_venue (venue r) \<and> ri_type r \<noteq> RT_UNKNOWN"

lemma read_back:
  assumes "registrable r"
  shows "base_currency (from_wire (to_wire r)) = base r" "quote_currency (from_wire (to_wire r)) = quote r"
    "exchange (from_wire (to_wire r)) = venue r" "to_sbe_type (ri_type r) = wire_type t \<longleftrightarrow> i_type (from_wire (to_wire r)) = t"
proof -
  show "base_currency (from_wire (to_wire r)) = base r" "quote_currency (from_wire (to_wire r)) = quote r"
    using assms by (simp_all add: registrable_def fits_def from_wire_def to_wire_def get_put_short)
  have "nul \<notin> set (venue r)" using assms by (auto simp: registrable_def known_venue_def nul_def)
  then show "exchange (from_wire (to_wire r)) = venue r"
    using assms by (auto simp: registrable_def known_venue_def from_wire_def to_wire_def get_put_str canonicalize_exchange_def)
  show "to_sbe_type (ri_type r) = wire_type t \<longleftrightarrow> i_type (from_wire (to_wire r)) = t"
    using assms by (cases "ri_type r"; cases t) (simp_all add: registrable_def from_wire_def to_wire_def)
qed

lemma matches_parsed:
  "parse_all symbols \<noteq> [] \<Longrightarrow>
   cr_matches symbols exchanges inst \<longleftrightarrow> exchange_wanted exchanges inst \<and> list_ex (symbol_matches inst) (parse_all symbols)"
  by (induction symbols) (auto simp: cr_matches_def parse_all_def map_filter_simps list_ex_iff map_filter_def split: option.splits)

definition well_formed_universe :: "string list \<Rightarrow> string list \<Rightarrow> bool" where
  "well_formed_universe symbols exchanges \<longleftrightarrow> parse_all symbols \<noteq> [] \<and>
     list_all (\<lambda>p. fits 8 (ps_base p) \<and> fits 8 (ps_quote p)) (parse_all symbols) \<and> list_all known_venue exchanges"

lemma request_matches:
  assumes "well_formed_universe symbols exchanges" "registrable r"
    and "subscribe_request junk corr (build_filters symbols exchanges) = Some q"
  shows "req_matches q r \<longleftrightarrow> cr_matches symbols exchanges (from_wire (to_wire r))"
proof -
  let ?exs = "if exchanges = [] then [[]] else exchanges"
  let ?i = "from_wire (to_wire r)"
  note rb = read_back [OF assms(2)]
  have p: "parse_all symbols \<noteq> []" and fit: "fits 8 (ps_base p) \<and> fits 8 (ps_quote p)" if "p \<in> set (parse_all symbols)" for p
    using assms(1) that by (auto simp: well_formed_universe_def list_all_iff)
  have parsed: "parse_all symbols \<noteq> []" using assms(1) by (simp add: well_formed_universe_def)
  have q: "rq_canonical q = map (encode_filter junk) (build_filters symbols exchanges)"
    using assms(3) by (auto simp: subscribe_request_def split: if_splits)
  have ne: "rq_canonical q \<noteq> []" using parsed unfolding q by (cases "parse_all symbols") (auto simp: build_filters_def)
  have ven: "venue_matches_filter_exchange (venue r) (put_cstr 8 junk ex) \<longleftrightarrow> exchanges = [] \<or> venue r = ex" if "ex \<in> set ?exs" for ex
    using that assms(1,2) any_venue venue_filter [of "venue r" ex junk]
    by (cases "exchanges = []") (auto simp: well_formed_universe_def registrable_def list_all_iff)
  have "req_matches q r \<longleftrightarrow> (\<exists>p \<in> set (parse_all symbols). \<exists>ex \<in> set ?exs.
      base r = view 8 (put_cstr 8 junk (ps_base p)) \<and> quote r = view 8 (put_cstr 8 junk (ps_quote p)) \<and>
      to_sbe_type (ri_type r) = wire_type (ps_type p) \<and> venue_matches_filter_exchange (venue r) (put_cstr 8 junk ex))"
    using ne unfolding req_matches_def q by (auto simp: build_filters_def encode_filter_def list_ex_iff)
  also have "\<dots> \<longleftrightarrow> (\<exists>p \<in> set (parse_all symbols). \<exists>ex \<in> set ?exs. symbol_matches ?i p \<and> (exchanges = [] \<or> venue r = ex))"
    using fit ven rb by (auto simp: view_put_cstr symbol_matches_def)
  also have "\<dots> \<longleftrightarrow> cr_matches symbols exchanges ?i"
    using rb(3) unfolding matches_parsed [OF parsed] by (auto simp: exchange_wanted_def list_ex_iff)
  finally show ?thesis .
qed

lemma insert_all_values:
  "fst ` set (fold (\<lambda>i. emplace (instrument_id i) i) xs m) = fst ` set m \<union> instrument_id ` set xs \<and>
   (\<forall>(k, i) \<in> set (fold (\<lambda>i. emplace (instrument_id i) i) xs m). (k, i) \<in> set m \<or> (k = instrument_id i \<and> i \<in> set xs))"
proof (induction xs arbitrary: m)
  case (Cons x xs)
  have "fst ` set (emplace (instrument_id x) x m) = insert (instrument_id x) (fst ` set m)"
    by (auto simp: emplace_def map_of_eq_None_iff)
  then show ?case using Cons [of "emplace (instrument_id x) x m"] by (auto simp: emplace_def split: if_splits)
qed simp


text \<open>
  C36: a universe whose symbols are all malformed is everything. The request then carries no filter, which asks for every
  instrument, and the resolver picks all of them on the wanted exchanges, although no single one of them matches the configuration.
\<close>

theorem resolver_fails_open:
  assumes "symbols \<noteq> []" "parse_all symbols = []"
  shows "build_filters symbols exchanges = [] \<and>
    cr_resolve cache symbols exchanges = map instrument_id (filter (exchange_wanted exchanges) (ic_get_all cache)) \<and>
    \<not> cr_matches symbols exchanges inst"
proof -
  have "\<forall>s \<in> set symbols. cr_parse s = None"
    using assms(2) by (induction symbols) (auto simp: parse_all_def map_filter_simps split: option.splits)
  then show ?thesis using assms by (auto simp: build_filters_def cr_resolve_def cr_matches_def list_ex_iff)
qed

subsection \<open>Examples\<close>

definition btc_listing :: reg_instrument where
  "btc_listing = \<lparr> inst_uid = 7, venue = ''HYPERLIQUID'', venue_symbol = ''BTC'', display_name = ''BTC'', ri_type = RT_PERP, base = ''BTC'',
     quote = ''USD'', ri_tick = Fin 1, ri_lot = Fin 1, contract_multiplier = Fin 1, ri_status = RS_ACTIVE, version = 1,
     expiry_timestamp = None, ri_strike = None \<rparr>"

definition two_listings :: registry where
  "two_listings = reg_empty\<lparr>by_uid := [(7, btc_listing), (8, btc_listing\<lparr>inst_uid := 8, base := ''ETH''\<rparr>)]\<rparr>"


theorem resolver_fails_open_witness:
  "cr_resolve (ic_seed [from_wire (to_wire btc_listing)] ic_init) [''BTCUSD''] [''HYPERLIQUID''] = [7] \<and>
    \<not> cr_matches [''BTCUSD''] [''HYPERLIQUID''] (from_wire (to_wire btc_listing))"
proof -
  have "parse_all [''BTCUSD''] = []" by code_simp
  from resolver_fails_open [OF _ this] have "cr_resolve (ic_seed [from_wire (to_wire btc_listing)] ic_init) [''BTCUSD''] [''HYPERLIQUID''] =
      map instrument_id (filter (exchange_wanted [''HYPERLIQUID'']) (ic_get_all (ic_seed [from_wire (to_wire btc_listing)] ic_init)))"
    "\<not> cr_matches [''BTCUSD''] [''HYPERLIQUID''] (from_wire (to_wire btc_listing))" by simp_all
  moreover have "map instrument_id (filter (exchange_wanted [''HYPERLIQUID'']) (ic_get_all (ic_seed [from_wire (to_wire btc_listing)] ic_init))) = [7]"
    by code_simp
  ultimately show ?thesis by simp
qed

end
