(* ===== verification/Passive_Maker.thy ===== *)
theory Passive_Maker
  imports Order_Manager Vol_Features Canonical_Resolver Md_Validator
begin

text \<open>
  The passive market maker (\<open>bpt-strategy/src/strategy/passive_maker_strategy.cpp\<close>, \<open>passive_maker_strategy.h\<close>) with the order
  manager it sends through, from the snapshot of the reference data to the flatten of the shutdown. \<open>md_client_\<close> and
  \<open>order_mgr_\<close> are taken as set. Each handler takes the clock, the cache of the order manager and one send
  environment per message it may send: 0 and 1 for the cancels of the bid and the ask, 2 and 3 for their orders. The theorems: a maker
  that was told to flatten never quotes again, inventory at the cap takes the growing side away, the reports of a resting quote
  always reach its instrument and count once, and no order it sends is post-only.
\<close>

subsection \<open>State\<close>

record math_fns =
  mf_log :: "double \<Rightarrow> double"
  mf_sqrt :: "double \<Rightarrow> double"

type_synonym sends = "nat \<Rightarrow> send_env"

record maker_config =
  half_spread_bps :: double
  inventory_penalty :: double
  requote_threshold_bps :: double
  qty_per_quote :: double
  max_inventory :: double
  spread_vol_mult :: double
  requote_vol_mult :: double
  vol_window_size :: nat
  vol_sample_interval_ns :: u64
  regime_gating_enabled :: bool
  regime_cfg :: regime_config
  vol_gate_cfg :: vol_gate_config
  pm_instruments :: "string list"
  pm_md_exchanges :: "string list"

record maker_inst =
  pi_instrument_id :: u64
  pi_symbol :: string
  pi_exchange :: string
  pi_exchange_id :: exchange_id
  pi_tick_size :: double
  pi_lot_size :: double
  pi_bid :: double
  pi_ask :: double
  pi_bid_size :: double
  pi_ask_size :: double
  pi_last_book_ns :: u64
  pi_inventory :: double
  pi_bid_order_id :: u64
  pi_ask_order_id :: u64
  pi_bid_order_price :: double
  pi_ask_order_price :: double
  pi_fv_at_place :: double
  pi_vol_gate :: vol_gate
  pi_vol_est :: vol_estimator
  pi_regime :: regime_classifier
  pi_flatten_in_progress :: bool
  pi_last_filled_qty_e8 :: "(u64, u64) umap"

record passive_maker =
  pm_cfg :: maker_config
  pm_state :: "(u64, maker_inst) umap"
  pm_order_to_instrument :: "(u64, u64) umap"
  pm_om :: order_manager

definition pm_make :: "maker_config \<Rightarrow> order_manager \<Rightarrow> passive_maker" where
  "pm_make cfg om = \<lparr> pm_cfg = cfg, pm_state = [], pm_order_to_instrument = [], pm_om = om \<rparr>"

definition pm_start :: "string \<Rightarrow> u64 \<Rightarrow> passive_maker \<Rightarrow> refdata_request option" where
  "pm_start junk corr pm = subscribe_request junk corr (build_filters (pm_instruments (pm_cfg pm)) (pm_md_exchanges (pm_cfg pm)))"

definition maker_inst_of :: "math_fns \<Rightarrow> maker_config \<Rightarrow> resolved_instrument \<Rightarrow> maker_inst" where
  "maker_inst_of mf cfg r =
     \<lparr> pi_instrument_id = rs_instrument_id r, pi_symbol = symbol (rs_instrument r), pi_exchange = exchange (rs_instrument r),
       pi_exchange_id = rs_exchange_id r, pi_tick_size = tick_size (rs_instrument r), pi_lot_size = lot_size (rs_instrument r),
       pi_bid = 0, pi_ask = 0, pi_bid_size = 0, pi_ask_size = 0, pi_last_book_ns = 0, pi_inventory = 0, pi_bid_order_id = 0,
       pi_ask_order_id = 0, pi_bid_order_price = 0, pi_ask_order_price = 0, pi_fv_at_place = 0, pi_vol_gate = vg_make (vol_gate_cfg cfg),
       pi_vol_est = rv_make (mf_sqrt mf) (vol_window_size cfg) (vol_sample_interval_ns cfg), pi_regime = reg_make (regime_cfg cfg),
       pi_flatten_in_progress = False, pi_last_filled_qty_e8 = [] \<rparr>"

record instrument_desc =
  ids_instrument_id :: u64
  ids_exchange :: string
  ids_symbol :: string
  ids_depth :: u8

definition build_subscriptions :: "(u64, maker_inst) umap \<Rightarrow> u8 \<Rightarrow> instrument_desc list" where
  "build_subscriptions state depth =
     map (\<lambda>(i, st). \<lparr> ids_instrument_id = i, ids_exchange = pi_exchange st, ids_symbol = pi_symbol st, ids_depth = depth \<rparr>) state"

definition emplace_state :: "u64 \<Rightarrow> maker_inst \<Rightarrow> (u64, maker_inst) umap \<Rightarrow> (u64, maker_inst) umap" where
  "emplace_state i st m = (if map_of m i = None then m @ [(i, st)] else m)"

text \<open>The result holds the market-data subscription, if one is made.\<close>

definition pm_on_instrument_snapshot :: "math_fns \<Rightarrow> inst_cache \<Rightarrow> passive_maker \<Rightarrow> instrument_desc list option \<times> passive_maker" where
  "pm_on_instrument_snapshot mf cache pm =
     (if pm_state pm \<noteq> [] then (None, pm)
      else
        (let cfg = pm_cfg pm;
             state = fold (\<lambda>r. emplace_state (rs_instrument_id r) (maker_inst_of mf cfg r))
               (resolve_instruments cache (pm_instruments cfg) (pm_md_exchanges cfg)) []
         in (Some (build_subscriptions state 1), pm\<lparr>pm_state := state\<rparr>)))"

subsection \<open>Prices\<close>

definition compute_fair_value :: "double \<Rightarrow> double \<Rightarrow> double \<Rightarrow> double \<Rightarrow> double" where
  "compute_fair_value bid ask bid_sz ask_sz =
     (if bid \<le> 0 \<or> ask \<le> 0 then 0
      else
        (let total_sz = bid_sz + ask_sz
         in if total_sz \<le> 0 then (bid + ask) * dlit (1 / 2) else (bid * ask_sz + ask * bid_sz) div total_sz))"

definition round_to_tick :: "double \<Rightarrow> double \<Rightarrow> bool \<Rightarrow> double" where
  "round_to_tick price tick round_down =
     (if tick \<le> 0 then price
      else (let n = price div tick in (if round_down then std_floor n else std_ceil n) * tick))"

definition scale_with_vol :: "double \<Rightarrow> double \<Rightarrow> double \<Rightarrow> double" where
  "scale_with_vol b mult vol_bps = b + mult * vol_bps"

definition annualized_to_per_minute_bps :: "double \<Rightarrow> double" where
  "annualized_to_per_minute_bps f =
     (if f \<le> 0 then 0 else f * dlit (10 ^ 4) div dlit (7250327440949459 / 10 ^ 13))"

definition rv_per_min_bps :: "math_fns \<Rightarrow> maker_inst \<Rightarrow> double" where
  "rv_per_min_bps mf st =
     (if rv_ready (pi_vol_est st) then annualized_to_per_minute_bps (realized_vol (mf_sqrt mf) (pi_vol_est st)) else 0)"

definition min_notional_usd :: "string \<Rightarrow> double" where
  "min_notional_usd ven = (if ven = ''HYPERLIQUID'' then Fin 10 else 0)"

definition bump_qty_for_min_notional :: "double \<Rightarrow> double \<Rightarrow> double \<Rightarrow> double \<Rightarrow> double" where
  "bump_qty_for_min_notional qty price lot min_notional =
     (if min_notional \<le> 0 \<or> price \<le> 0 \<or> lot \<le> 0 then qty
      else
        (let min_qty = (min_notional * dlit (105 / 100)) div price;
             min_qty_rounded = std_ceil (min_qty div lot) * lot
         in std_max qty min_qty_rounded))"

definition drift_exceeds_threshold :: "math_fns \<Rightarrow> maker_config \<Rightarrow> maker_inst \<Rightarrow> double \<Rightarrow> bool" where
  "drift_exceeds_threshold mf cfg st fv_now \<longleftrightarrow>
     pi_fv_at_place st \<le> 0 \<or>
     (let drift_bps = \<bar>fv_now - pi_fv_at_place st\<bar> div pi_fv_at_place st * dlit (10 ^ 4)
      in drift_bps > scale_with_vol (requote_threshold_bps cfg) (requote_vol_mult cfg) (rv_per_min_bps mf st))"

definition quote_prices :: "math_fns \<Rightarrow> maker_config \<Rightarrow> maker_inst \<Rightarrow> double \<Rightarrow> double \<times> double" where
  "quote_prices mf cfg st fv =
     (let r = fv - pi_inventory st * inventory_penalty cfg;
          effective_half_bps = scale_with_vol (half_spread_bps cfg) (spread_vol_mult cfg) (rv_per_min_bps mf st);
          half_spread = r * (effective_half_bps div dlit (10 ^ 4));
          tick = pi_tick_size st;
          bid_px = round_to_tick (r - half_spread) tick True;
          ask_px = round_to_tick (r + half_spread) tick False;
          bid_px = (if pi_ask st \<le> bid_px then round_to_tick (pi_ask st - tick) tick True else bid_px);
          ask_px = (if ask_px \<le> pi_bid st then round_to_tick (pi_bid st + tick) tick False else ask_px)
      in (bid_px, ask_px))"

subsection \<open>Quotes\<close>

definition cancel_one :: "send_env \<Rightarrow> u64 \<Rightarrow> maker_inst \<Rightarrow> passive_maker \<Rightarrow> passive_maker" where
  "cancel_one env oid st pm =
     (if oid = 0 then pm
      else pm\<lparr>pm_om := om_send_cancel_request env
             \<lparr> cq_order_id = oid, cq_exchange_id = pi_exchange_id st, cq_instrument_id = pi_instrument_id st \<rparr> (pm_om pm)\<rparr>)"

definition cancel_quotes :: "sends \<Rightarrow> maker_inst \<Rightarrow> passive_maker \<Rightarrow> maker_inst \<times> passive_maker" where
  "cancel_quotes envs st pm =
     (let pm = cancel_one (envs 0) (pi_bid_order_id st) st pm;
          pm = cancel_one (envs 1) (pi_ask_order_id st) st pm
      in (st\<lparr>pi_bid_order_id := 0, pi_ask_order_id := 0\<rparr>, pm))"

text \<open>An order sent through the order manager; its id is entered for the reports to come.\<close>

definition send_tracked :: "inst_cache \<Rightarrow> send_env \<Rightarrow> new_order_req \<Rightarrow> passive_maker \<Rightarrow> (u64 \<times> passive_maker) option" where
  "send_tracked cache env req pm = do {
     (h, om) \<leftarrow> om_send_new_order cache env req 0 (pm_om pm);
     let oid = h_order_id h om;
     let pm = pm\<lparr>pm_om := om\<rparr>;
     Some (if oid = 0 then (0, pm)
           else (oid, pm\<lparr>pm_order_to_instrument := AList.update oid (rn_instrument_id req) (pm_order_to_instrument pm)\<rparr>))
   }"

definition place_side :: "inst_cache \<Rightarrow> send_env \<Rightarrow> maker_inst \<Rightarrow> order_side \<Rightarrow> double \<Rightarrow> passive_maker \<Rightarrow> (u64 \<times> passive_maker) option" where
  "place_side cache env st side price pm =
     send_tracked cache env
       \<lparr> rn_instrument_id = pi_instrument_id st, rn_exchange_id = pi_exchange_id st, rn_side = side, rn_type = OT_LIMIT, rn_tif = GTC,
         rn_price = price,
         rn_qty = bump_qty_for_min_notional (qty_per_quote (pm_cfg pm)) price (pi_lot_size st) (min_notional_usd (pi_exchange st)),
         rn_post_only = False \<rparr> pm"

definition requote :: "math_fns \<Rightarrow> inst_cache \<Rightarrow> sends \<Rightarrow> maker_inst \<Rightarrow> double \<Rightarrow> passive_maker \<Rightarrow> (maker_inst \<times> passive_maker) option" where
  "requote mf cache envs st fv pm =
     (let cfg = pm_cfg pm;
          (st, pm) = cancel_quotes envs st pm;
          (bid_px, ask_px) = quote_prices mf cfg st fv;
          post_bid = pi_inventory st < max_inventory cfg;
          post_ask = - max_inventory cfg < pi_inventory st
      in do {
        (bid, pm) \<leftarrow> (if post_bid \<and> 0 < bid_px then place_side cache (envs 2) st BUY bid_px pm else Some (0, pm));
        (ask, pm) \<leftarrow> (if post_ask \<and> 0 < ask_px then place_side cache (envs 3) st SELL ask_px pm else Some (0, pm));
        Some (st\<lparr>pi_bid_order_id := bid, pi_ask_order_id := ask,
                 pi_bid_order_price := (if bid \<noteq> 0 then bid_px else pi_bid_order_price st),
                 pi_ask_order_price := (if ask \<noteq> 0 then ask_px else pi_ask_order_price st),
                 pi_fv_at_place := fv\<rparr>, pm)
      })"

subsection \<open>Market data\<close>

definition read_tick :: "u64 \<Rightarrow> md_bbo \<Rightarrow> maker_inst \<Rightarrow> maker_inst" where
  "read_tick now tick st =
     st\<lparr>pi_bid := bbo_bid_price tick, pi_ask := bbo_ask_price tick, pi_bid_size := bbo_bid_qty tick, pi_ask_size := bbo_ask_qty tick,
        pi_last_book_ns := (if now = 0 then bbo_timestamp_ns tick else now)\<rparr>"

definition inventory_breach :: "maker_config \<Rightarrow> maker_inst \<Rightarrow> bool" where
  "inventory_breach cfg st \<longleftrightarrow>
     max_inventory cfg \<le> \<bar>pi_inventory st\<bar> \<and>
     (0 < pi_inventory st \<and> pi_bid_order_id st \<noteq> 0 \<or> pi_inventory st < 0 \<and> pi_ask_order_id st \<noteq> 0)"

definition quote_tick :: "math_fns \<Rightarrow> inst_cache \<Rightarrow> sends \<Rightarrow> maker_inst \<Rightarrow> passive_maker \<Rightarrow> (maker_inst \<times> passive_maker) option" where
  "quote_tick mf cache envs st pm =
     (let fv = compute_fair_value (pi_bid st) (pi_ask st) (pi_bid_size st) (pi_ask_size st)
      in if fv \<le> 0 then Some (st, pm)
         else if pi_bid_order_id st = 0 \<and> pi_ask_order_id st = 0 \<or> drift_exceeds_threshold mf (pm_cfg pm) st fv \<or>
                 inventory_breach (pm_cfg pm) st
         then requote mf cache envs st fv pm
         else Some (st, pm))"

definition is_choppy :: "math_fns \<Rightarrow> maker_config \<Rightarrow> maker_inst \<Rightarrow> bool \<times> maker_inst" where
  "is_choppy mf cfg st =
     (if regime_gating_enabled cfg
      then (let (r, reg) = reg_classify (mf_sqrt mf) (pi_last_book_ns st) (pi_regime st) in (r = CHOPPY, st\<lparr>pi_regime := reg\<rparr>))
      else (False, st))"

definition gate_tick :: "math_fns \<Rightarrow> inst_cache \<Rightarrow> sends \<Rightarrow> maker_inst \<Rightarrow> passive_maker \<Rightarrow> (maker_inst \<times> passive_maker) option" where
  "gate_tick mf cache envs st pm =
     (let mid = (pi_bid st + pi_ask st) * dlit (1 / 2); ts = pi_last_book_ns st
      in do {
        est \<leftarrow> rv_update (mf_log mf) mid ts (pi_vol_est st);
        reg \<leftarrow> reg_update (mf_log mf) mid ts (pi_regime st);
        let (halted, gate) = vg_update_and_check mid ts (pi_vol_gate st);
        let st = st\<lparr>pi_vol_gate := gate, pi_vol_est := est, pi_regime := reg\<rparr>;
        if halted then Some (cancel_quotes envs st pm)
        else if vg_is_halted ts gate \<or> pi_flatten_in_progress st then Some (st, pm)
        else
          (let (choppy, st) = is_choppy mf (pm_cfg pm) st
           in if choppy then Some (cancel_quotes envs st pm) else quote_tick mf cache envs st pm)
      })"

definition pm_on_bbo :: "math_fns \<Rightarrow> inst_cache \<Rightarrow> sends \<Rightarrow> u64 \<Rightarrow> md_bbo \<Rightarrow> passive_maker \<Rightarrow> passive_maker option" where
  "pm_on_bbo mf cache envs now tick pm =
     (case map_of (pm_state pm) (bbo_instrument_id tick) of
        None \<Rightarrow> Some pm
      | Some st \<Rightarrow>
          (let st = read_tick now tick st
           in map_option (\<lambda>(st, pm). pm\<lparr>pm_state := AList.update (bbo_instrument_id tick) st (pm_state pm)\<rparr>)
                (if pi_bid st \<le> 0 \<or> pi_ask st \<le> 0 then Some (st, pm) else gate_tick mf cache envs st pm)))"

subsection \<open>Execution reports\<close>

definition count_fill :: "exec_report \<Rightarrow> maker_inst \<Rightarrow> maker_inst" where
  "count_fill rpt st =
     (let oid = xr_order_id rpt;
          last_e8 = (case map_of (pi_last_filled_qty_e8 st) oid of Some v \<Rightarrow> v | None \<Rightarrow> 0);
          st = st\<lparr>pi_last_filled_qty_e8 := AList.update oid last_e8 (pi_last_filled_qty_e8 st)\<rparr>;
          delta_qty = d_of_int (uint (xr_filled_qty rpt - last_e8)) div e8
      in if xr_filled_qty rpt > last_e8
         then st\<lparr>pi_inventory := pi_inventory st + (if xr_side rpt = BUY then delta_qty else - delta_qty),
                 pi_last_filled_qty_e8 := AList.update oid (xr_filled_qty rpt) (pi_last_filled_qty_e8 st)\<rparr>
         else st)"

definition pm_terminal :: "exec_status \<Rightarrow> bool" where
  "pm_terminal s \<longleftrightarrow> s \<in> {ES_FILLED, ES_CANCELLED, ES_REJECTED}"

definition forget_order :: "u64 \<Rightarrow> maker_inst \<Rightarrow> maker_inst" where
  "forget_order oid st =
     st\<lparr>pi_bid_order_id := (if pi_bid_order_id st = oid then 0 else pi_bid_order_id st),
        pi_ask_order_id := (if pi_ask_order_id st = oid then 0 else pi_ask_order_id st),
        pi_last_filled_qty_e8 := AList.delete oid (pi_last_filled_qty_e8 st)\<rparr>"

definition pm_on_exec_report :: "exec_report \<Rightarrow> passive_maker \<Rightarrow> passive_maker" where
  "pm_on_exec_report rpt pm =
     (let oid = xr_order_id rpt
      in case map_of (pm_order_to_instrument pm) oid of
           None \<Rightarrow> pm
         | Some iid \<Rightarrow>
             (case map_of (pm_state pm) iid of
                None \<Rightarrow> pm
              | Some st \<Rightarrow>
                  (let st = (if xr_status rpt = ES_PARTIAL \<or> xr_status rpt = ES_FILLED then count_fill rpt st else st)
                   in if pm_terminal (xr_status rpt)
                      then pm\<lparr>pm_state := AList.update iid (forget_order oid st) (pm_state pm),
                              pm_order_to_instrument := AList.delete oid (pm_order_to_instrument pm)\<rparr>
                      else pm\<lparr>pm_state := AList.update iid st (pm_state pm)\<rparr>)))"

subsection \<open>Shutdown\<close>

definition unwind_price :: "maker_inst \<Rightarrow> order_side \<Rightarrow> double" where
  "unwind_price st side =
     (if side = SELL then pi_bid st * (Fin 1 - Fin 5 div dlit (10 ^ 4)) else pi_ask st * (Fin 1 + Fin 5 div dlit (10 ^ 4)))"

definition flatten_one :: "inst_cache \<Rightarrow> sends \<Rightarrow> maker_inst \<Rightarrow> passive_maker \<Rightarrow> (maker_inst \<times> passive_maker) option" where
  "flatten_one cache envs st pm =
     (let (st, pm) = cancel_quotes envs (st\<lparr>pi_flatten_in_progress := True\<rparr>) pm;
          side = (if 0 < pi_inventory st then SELL else BUY)
      in if dlit (1 / 10 ^ 9) < \<bar>pi_inventory st\<bar> \<and> 0 < (pi_bid st + pi_ask st) * dlit (1 / 2)
         then map_option (\<lambda>(oid, pm). (st, pm))
           (send_tracked cache (envs 2)
              \<lparr> rn_instrument_id = pi_instrument_id st, rn_exchange_id = pi_exchange_id st, rn_side = side, rn_type = OT_LIMIT,
                rn_tif = IOC, rn_price = unwind_price st side, rn_qty = \<bar>pi_inventory st\<bar>, rn_post_only = False \<rparr> pm)
         else Some (st, pm))"

fun flatten_states :: "inst_cache \<Rightarrow> (u64 \<Rightarrow> sends) \<Rightarrow> (u64, maker_inst) umap \<Rightarrow> passive_maker \<Rightarrow>
    ((u64, maker_inst) umap \<times> passive_maker) option" where
  "flatten_states cache fenvs [] pm = Some ([], pm)"
| "flatten_states cache fenvs ((i, st) # state) pm = do {
     (st, pm) \<leftarrow> flatten_one cache (fenvs i) st pm;
     (state, pm) \<leftarrow> flatten_states cache fenvs state pm;
     Some ((i, st) # state, pm)
   }"

definition pm_on_shutdown_flatten :: "inst_cache \<Rightarrow> (u64 \<Rightarrow> sends) \<Rightarrow> passive_maker \<Rightarrow> passive_maker option" where
  "pm_on_shutdown_flatten cache fenvs pm =
     map_option (\<lambda>(state, pm). pm\<lparr>pm_state := state\<rparr>) (flatten_states cache fenvs (pm_state pm) pm)"

definition pm_has_pending_flatten :: "passive_maker \<Rightarrow> bool" where
  "pm_has_pending_flatten pm \<longleftrightarrow>
     list_ex (\<lambda>(i, st). pi_bid_order_id st \<noteq> 0 \<or> pi_ask_order_id st \<noteq> 0 \<or> dlit (1 / 10 ^ 9) < \<bar>pi_inventory st\<bar>) (pm_state pm)"

subsection \<open>Runs\<close>

datatype maker_event =
    Pm_Snapshot inst_cache | Pm_Bbo inst_cache sends u64 md_bbo | Pm_Report exec_report | Pm_Flatten inst_cache "u64 \<Rightarrow> sends"

fun pm_step :: "math_fns \<Rightarrow> maker_event \<Rightarrow> passive_maker \<Rightarrow> passive_maker option" where
  "pm_step mf (Pm_Snapshot cache) pm = Some (snd (pm_on_instrument_snapshot mf cache pm))"
| "pm_step mf (Pm_Bbo cache envs now tick) pm = pm_on_bbo mf cache envs now tick pm"
| "pm_step mf (Pm_Report rpt) pm = Some (pm_on_exec_report rpt pm)"
| "pm_step mf (Pm_Flatten cache fenvs) pm = pm_on_shutdown_flatten cache fenvs pm"

fun pm_run :: "math_fns \<Rightarrow> maker_event list \<Rightarrow> passive_maker \<Rightarrow> passive_maker option" where
  "pm_run mf [] pm = Some pm"
| "pm_run mf (e # es) pm = Option.bind (pm_step mf e pm) (pm_run mf es)"


subsection \<open>What a handler may do\<close>

lemma cancel_request_effects [simp]:
  "om_placed (om_send_cancel_request env r om) = om_placed om"
  "gw_sent (om_gw (om_send_cancel_request env r om)) = gw_sent (om_gw om) @ (if env_taken env then [Gw_Cancel r] else [])"
  by (auto simp: om_send_cancel_request_def set_cancel_pending_def gw_send_cancel_def gw_publish_sent Let_def split: option.split)

lemma om_inv_cancel_request: "om_inv b n om \<Longrightarrow> om_inv b n (om_send_cancel_request env r om)"
  by (auto simp: om_send_cancel_request_def gw_send_cancel_def Let_def intro!: om_inv_publish om_inv_cancel_pending split: option.splits)

fun plain :: "gw_request \<Rightarrow> bool" where
  "plain (Gw_New r) \<longleftrightarrow> on_exec_inst r = 0 \<and> on_order_type r = OT_LIMIT"
| "plain _ \<longleftrightarrow> True"

text \<open>
  \<open>pm_ext b n pm n' pm'\<close>: from \<open>pm\<close> to \<open>pm'\<close> only the desk has moved, with at most \<open>n' - n\<close> orders. Ids do not come twice as
  long as they do not wrap, so the orders that were known keep their instrument.
\<close>

definition pm_ext :: "u64 \<Rightarrow> nat \<Rightarrow> passive_maker \<Rightarrow> nat \<Rightarrow> passive_maker \<Rightarrow> bool" where
  "pm_ext b n pm n' pm' \<longleftrightarrow>
     pm_cfg pm' = pm_cfg pm \<and> pm_state pm' = pm_state pm \<and> n \<le> n' \<and>
     (list_all plain (gw_sent (om_gw (pm_om pm))) \<longrightarrow> list_all plain (gw_sent (om_gw (pm_om pm')))) \<and>
     (om_inv b n (pm_om pm) \<and> unat b + n' + 1 < 2 ^ 64 \<longrightarrow>
        om_inv b n' (pm_om pm') \<and> set (om_placed (pm_om pm)) \<subseteq> set (om_placed (pm_om pm')) \<and>
        (\<forall>q\<in>set (om_placed (pm_om pm)). map_of (pm_order_to_instrument pm') q = map_of (pm_order_to_instrument pm) q))"

lemma pm_ext_refl: "n \<le> n' \<Longrightarrow> pm_ext b n pm n' pm"
  by (auto simp: pm_ext_def intro: om_inv_mono)

lemma pm_ext_trans: "pm_ext b n pm n1 pm1 \<Longrightarrow> pm_ext b n1 pm1 n2 pm2 \<Longrightarrow> pm_ext b n pm n2 pm2"
  by (auto simp: pm_ext_def)

definition quote_ok :: "passive_maker \<Rightarrow> u64 \<Rightarrow> u64 \<Rightarrow> bool" where
  "quote_ok pm i q \<longleftrightarrow> q = 0 \<or> q \<in> set (om_placed (pm_om pm)) \<and> map_of (pm_order_to_instrument pm) q = Some i"

definition st_ok :: "passive_maker \<Rightarrow> u64 \<Rightarrow> maker_inst \<Rightarrow> bool" where
  "st_ok pm i st \<longleftrightarrow> pi_instrument_id st = i \<and> quote_ok pm i (pi_bid_order_id st) \<and> quote_ok pm i (pi_ask_order_id st)"

lemma quote_ok_0 [simp]: "quote_ok pm i 0"
  by (simp add: quote_ok_def)

lemma quote_ok_ext:
  "pm_ext b n pm n' pm' \<Longrightarrow> om_inv b n (pm_om pm) \<Longrightarrow> unat b + n' + 1 < 2 ^ 64 \<Longrightarrow> quote_ok pm i q \<Longrightarrow> quote_ok pm' i q"
  by (auto simp: pm_ext_def quote_ok_def)

lemma st_ok_ext:
  "pm_ext b n pm n' pm' \<Longrightarrow> om_inv b n (pm_om pm) \<Longrightarrow> unat b + n' + 1 < 2 ^ 64 \<Longrightarrow> st_ok pm i st \<Longrightarrow> st_ok pm' i st"
  by (auto simp: st_ok_def intro: quote_ok_ext)

lemma cancel_one_ext: "pm_ext b n pm n (cancel_one env oid st pm)"
  by (auto simp: cancel_one_def pm_ext_def intro: om_inv_cancel_request)

lemma cancel_quotes_ext:
  assumes "cancel_quotes envs st pm = (st', pm')"
  shows "pm_ext b n pm n pm' \<and> st' = st\<lparr>pi_bid_order_id := 0, pi_ask_order_id := 0\<rparr>"
  using assms pm_ext_trans [OF cancel_one_ext cancel_one_ext] by (auto simp: cancel_quotes_def)

lemma send_tracked_ext:
  assumes "send_tracked cache env req pm = Some (oid, pm')" "\<not> rn_post_only req" "rn_type req = OT_LIMIT"
  shows "pm_ext b n pm (Suc n) pm' \<and>
    (om_inv b n (pm_om pm) \<and> unat b + Suc n + 1 < 2 ^ 64 \<longrightarrow> quote_ok pm' (rn_instrument_id req) oid)"
proof -
  obtain h om where s: "om_send_new_order cache env req 0 (pm_om pm) = Some (h, om)"
    and pm': "(oid, pm') = (if h_order_id h om = 0 then (0, pm\<lparr>pm_om := om\<rparr>)
       else (h_order_id h om, pm\<lparr>pm_order_to_instrument := AList.update (h_order_id h om) (rn_instrument_id req) (pm_order_to_instrument pm),
                                 pm_om := om\<rparr>))"
    using assms(1) by (auto simp: send_tracked_def Let_def bind_eq_Some_conv split: if_splits)
  have inv: "om_inv b (Suc n) om" if "om_inv b n (pm_om pm)" "unat b + Suc n + 1 < 2 ^ 64"
    using om_inv_send [OF that(1) _ s] that(2) by simp
  from send_new_order_cases [OF s] show ?thesis
  proof (elim disjE exE conjE)
    assume "refused (pm_om pm) h om"
    then show ?thesis using pm' inv by (auto simp: refused_def h_order_id_def om_state_def pm_ext_def)
  next
    fix r s assume p: "placed env r s (pm_om pm) h om" and r: "on_order_type r = rn_type req" "on_exec_inst r = to_bitmask (rn_post_only req)"
    have h: "h_order_id h om = om_next_order_id (pm_om pm)" "om_placed om = om_placed (pm_om pm) @ [om_next_order_id (pm_om pm)]"
      using p by (auto simp: placed_def h_order_id_def om_state_def)
    have fresh: "om_next_order_id (pm_om pm) \<notin> set (om_placed (pm_om pm))" if "om_inv b n (pm_om pm)"
      using that by (force simp: om_inv_def)
    have "plain (Gw_New r)" using r assms(2,3) by (simp add: to_bitmask_def)
    moreover have "gw_sent (om_gw om) = gw_sent (om_gw (pm_om pm)) @ (if env_taken env then [Gw_New r] else [])"
      using p by (auto simp: placed_def gw_publish_sent)
    ultimately show ?thesis using pm' inv h fresh by (auto simp: pm_ext_def quote_ok_def split: if_splits)
  qed
qed

lemma place_side_ext:
  assumes "place_side cache env st side px pm = Some (oid, pm')"
  shows "pm_ext b n pm (Suc n) pm' \<and>
    (om_inv b n (pm_om pm) \<and> unat b + Suc n + 1 < 2 ^ 64 \<longrightarrow> quote_ok pm' (pi_instrument_id st) oid)"
  using send_tracked_ext [OF assms [unfolded place_side_def], of b n] by simp

text \<open>What one tick does to the instrument and the desk.\<close>

definition tick_ok :: "u64 \<Rightarrow> nat \<Rightarrow> u64 \<Rightarrow> maker_inst \<times> passive_maker \<Rightarrow> nat \<Rightarrow> maker_inst \<times> passive_maker \<Rightarrow> bool" where
  "tick_ok b n i s n' s' \<longleftrightarrow>
     pm_ext b n (snd s) n' (snd s') \<and>
     (om_inv b n (pm_om (snd s)) \<and> unat b + n' + 1 < 2 ^ 64 \<and> st_ok (snd s) i (fst s) \<longrightarrow> st_ok (snd s') i (fst s'))"

lemma tick_ok_keep:
  assumes "pi_instrument_id st' = pi_instrument_id st" "pi_bid_order_id st' = pi_bid_order_id st"
    "pi_ask_order_id st' = pi_ask_order_id st" "n \<le> n'"
  shows "tick_ok b n i (st, pm) n' (st', pm)"
  using assms pm_ext_refl by (auto simp: tick_ok_def st_ok_def)

lemma tick_ok_cancel:
  assumes "cancel_quotes envs st pm = s'" "n \<le> n'" shows "tick_ok b n i (st, pm) n' s'"
proof -
  obtain st' pm' where s': "s' = (st', pm')" by (cases s')
  then have "pm_ext b n pm n' pm'" "st' = st\<lparr>pi_bid_order_id := 0, pi_ask_order_id := 0\<rparr>"
    using cancel_quotes_ext [of envs st pm st' pm' b n] assms pm_ext_trans pm_ext_refl by blast+
  then show ?thesis using s' by (simp add: tick_ok_def st_ok_def)
qed

lemma requote_ok:
  assumes "requote mf cache envs st fv pm = Some (st', pm')"
  shows "tick_ok b n i (st, pm) (n + 2) (st', pm')"
proof -
  obtain st1 pm1 where c: "cancel_quotes envs st pm = (st1, pm1)" by (cases "cancel_quotes envs st pm")
  obtain bid_px ask_px where q: "quote_prices mf (pm_cfg pm) st1 fv = (bid_px, ask_px)"
    by (cases "quote_prices mf (pm_cfg pm) st1 fv")
  define pb pa where "pb \<longleftrightarrow> pi_inventory st1 < max_inventory (pm_cfg pm) \<and> 0 < bid_px"
    and "pa \<longleftrightarrow> - max_inventory (pm_cfg pm) < pi_inventory st1 \<and> 0 < ask_px"
  obtain bid pm2 ask where bid: "(if pb then place_side cache (envs 2) st1 BUY bid_px pm1 else Some (0, pm1)) = Some (bid, pm2)"
    and ask: "(if pa then place_side cache (envs 3) st1 SELL ask_px pm2 else Some (0, pm2)) = Some (ask, pm')"
    and st': "pi_instrument_id st' = pi_instrument_id st1" "pi_bid_order_id st' = bid" "pi_ask_order_id st' = ask"
    using assms c q unfolding pb_def pa_def by (auto simp: requote_def Let_def bind_eq_Some_conv)
  have c': "pm_ext b n pm n pm1" "pi_instrument_id st1 = pi_instrument_id st" using cancel_quotes_ext [OF c] by auto
  have place: "pm_ext b m pma (Suc m) pmb \<and> (om_inv b m (pm_om pma) \<and> unat b + Suc m + 1 < 2 ^ 64 \<longrightarrow> quote_ok pmb (pi_instrument_id st) oid)"
    if "(if p then place_side cache env st1 side px pma else Some (0, pma)) = Some (oid, pmb)" for p env side px pma oid pmb m
    using that place_side_ext [of cache env st1 side px pma oid pmb b m] c'(2) pm_ext_refl [of m "Suc m"]
    by (auto split: if_splits)
  note b1 = place [OF bid, of n] and a1 = place [OF ask, of "Suc n"]
  have "pm_ext b n pm (n + 2) pm'"
    using pm_ext_trans [OF pm_ext_trans [OF c'(1) conjunct1 [OF b1]] conjunct1 [OF a1]] by simp
  moreover have "quote_ok pm' (pi_instrument_id st) bid \<and> quote_ok pm' (pi_instrument_id st) ask"
    if "om_inv b n (pm_om pm)" "unat b + (n + 2) + 1 < 2 ^ 64"
  proof -
    have i1: "om_inv b n (pm_om pm1)" using c'(1) that by (simp add: pm_ext_def)
    then have "quote_ok pm2 (pi_instrument_id st) bid" "om_inv b (Suc n) (pm_om pm2)" using b1 that by (simp_all add: pm_ext_def)
    then show ?thesis using a1 that quote_ok_ext [of b "Suc n" pm2 "Suc (Suc n)" pm'] by simp
  qed
  ultimately show ?thesis using st' c'(2) by (auto simp: tick_ok_def st_ok_def)
qed

lemma quote_tick_ok:
  "quote_tick mf cache envs st pm = Some s' \<Longrightarrow> tick_ok b n i (st, pm) (n + 2) s'"
  using requote_ok by (cases s') (auto simp: quote_tick_def Let_def intro: tick_ok_keep split: if_splits)


lemma is_choppy_fields:
  "is_choppy mf cfg st = (c, st') \<Longrightarrow> \<exists>reg. st' = st\<lparr>pi_regime := reg\<rparr>"
  by (cases "pi_regime st") (auto simp: is_choppy_def split: if_splits prod.splits intro: exI [of _ "pi_regime st"])

lemma tick_ok_pre:
  assumes "tick_ok b n i (st1, pm) n' s'" "pi_instrument_id st1 = pi_instrument_id st"
    "pi_bid_order_id st1 = pi_bid_order_id st" "pi_ask_order_id st1 = pi_ask_order_id st"
  shows "tick_ok b n i (st, pm) n' s'"
  using assms by (auto simp: tick_ok_def st_ok_def)

text \<open>The three ways a tick can go.\<close>

lemma gate_tick_cases:
  assumes "gate_tick mf cache envs st pm = Some s'"
  obtains est reg' gate where
    "s' = cancel_quotes envs (st\<lparr>pi_vol_gate := gate, pi_vol_est := est, pi_regime := reg'\<rparr>) pm"
  | est reg gate where "s' = (st\<lparr>pi_vol_gate := gate, pi_vol_est := est, pi_regime := reg\<rparr>, pm)"
      "vg_is_halted (pi_last_book_ns st) gate \<or> pi_flatten_in_progress st"
      "vg_update_and_check ((pi_bid st + pi_ask st) * dlit (1 / 2)) (pi_last_book_ns st) (pi_vol_gate st) = (False, gate)"
  | est reg gate where
    "quote_tick mf cache envs (st\<lparr>pi_vol_gate := gate, pi_vol_est := est, pi_regime := reg\<rparr>) pm = Some s'" "\<not> pi_flatten_in_progress st"
proof -
  let ?mid = "(pi_bid st + pi_ask st) * dlit (1 / 2)"
  obtain est reg halted gate where f: "rv_update (mf_log mf) ?mid (pi_last_book_ns st) (pi_vol_est st) = Some est"
    "reg_update (mf_log mf) ?mid (pi_last_book_ns st) (pi_regime st) = Some reg"
    "vg_update_and_check ?mid (pi_last_book_ns st) (pi_vol_gate st) = (halted, gate)"
    using assms by (cases "vg_update_and_check ?mid (pi_last_book_ns st) (pi_vol_gate st)") (auto simp: gate_tick_def Let_def bind_eq_Some_conv)
  let ?st = "st\<lparr>pi_vol_gate := gate, pi_vol_est := est, pi_regime := reg\<rparr>"
  obtain c st1 where c: "is_choppy mf (pm_cfg pm) ?st = (c, st1)" by (cases "is_choppy mf (pm_cfg pm) ?st")
  then obtain reg' where st1: "st1 = st\<lparr>pi_vol_gate := gate, pi_vol_est := est, pi_regime := reg'\<rparr>" using is_choppy_fields by fastforce
  have s': "s' = (if halted then cancel_quotes envs ?st pm
        else if vg_is_halted (pi_last_book_ns st) gate \<or> pi_flatten_in_progress st then (?st, pm)
        else if c then cancel_quotes envs st1 pm else s') \<and>
      (\<not> halted \<and> \<not> (vg_is_halted (pi_last_book_ns st) gate \<or> pi_flatten_in_progress st) \<and> \<not> c \<longrightarrow> quote_tick mf cache envs st1 pm = Some s')"
    using assms f c by (auto simp: gate_tick_def Let_def split: if_splits)
  show ?thesis
  proof (cases "halted \<or> \<not> (vg_is_halted (pi_last_book_ns st) gate \<or> pi_flatten_in_progress st) \<and> c")
    case True
    then show ?thesis using s' st1 that(1) by (metis (no_types, lifting))
  next
    case False
    then show ?thesis using s' st1 f(3) that(2,3) by (cases "vg_is_halted (pi_last_book_ns st) gate \<or> pi_flatten_in_progress st") auto
  qed
qed

lemma gate_tick_ok:
  assumes "gate_tick mf cache envs st pm = Some s'"
  shows "tick_ok b n i (st, pm) (n + 2) s'"
  using assms
proof (cases rule: gate_tick_cases)
  case (1 est reg' gate)
  then show ?thesis by (intro tick_ok_pre [OF tick_ok_cancel [OF 1 [symmetric]]]) simp_all
next
  case (2 est reg gate)
  then show ?thesis by (simp add: tick_ok_keep)
next
  case (3 est reg gate)
  then show ?thesis by (intro tick_ok_pre [OF quote_tick_ok [OF 3(1)]]) simp_all
qed

lemma flatten_one_ok:
  assumes "flatten_one cache envs st pm = Some (st', pm')"
  shows "tick_ok b n i (st, pm) (Suc n) (st', pm') \<and>
    pi_flatten_in_progress st' \<and> pi_bid_order_id st' = 0 \<and> pi_ask_order_id st' = 0"
proof -
  obtain st1 pm1 where c: "cancel_quotes envs (st\<lparr>pi_flatten_in_progress := True\<rparr>) pm = (st1, pm1)"
    by (cases "cancel_quotes envs (st\<lparr>pi_flatten_in_progress := True\<rparr>) pm")
  then have c': "pm_ext b n pm n pm1"
    "st1 = st\<lparr>pi_bid_order_id := 0, pi_ask_order_id := 0, pi_flatten_in_progress := True\<rparr>"
    using cancel_quotes_ext [OF c] by simp_all
  have "st' = st1 \<and> pm_ext b n pm1 (Suc n) pm'"
    using assms c send_tracked_ext [where n = n and b = b] pm_ext_refl [of n "Suc n"]
    by (fastforce simp: flatten_one_def Let_def split: if_splits)
  then show ?thesis using c' pm_ext_trans [OF c'(1)] by (auto simp: tick_ok_def st_ok_def)
qed


lemma flatten_states_ok:
  "flatten_states cache fenvs state pm = Some (state', pm') \<Longrightarrow>
    pm_ext b n pm (n + length state) pm' \<and> map fst state' = map fst state \<and>
    list_all (\<lambda>(i, st). pi_flatten_in_progress st \<and> pi_bid_order_id st = 0 \<and> pi_ask_order_id st = 0) state' \<and>
    (list_all (\<lambda>(i, st). pi_instrument_id st = i) state \<longrightarrow> list_all (\<lambda>(i, st). st_ok pm' i st) state')"
proof (induction state arbitrary: pm state' n)
  case (Cons x state)
  obtain i st where x: "x = (i, st)" by (cases x)
  obtain st1 pm1 state1 where f: "flatten_one cache (fenvs i) st pm = Some (st1, pm1)"
    "flatten_states cache fenvs state pm1 = Some (state1, pm')" "state' = (i, st1) # state1"
    using Cons.prems x by (auto simp: bind_eq_Some_conv)
  note one = flatten_one_ok [OF f(1), of b n i] and rest = Cons.IH [OF f(2), of "Suc n"]
  have "pi_instrument_id st1 = pi_instrument_id st"
    using f(1) by (auto simp: flatten_one_def cancel_quotes_def Let_def split: if_splits)
  moreover have "pm_ext b n pm (n + length (x # state)) pm'"
    using pm_ext_trans [of b n pm "Suc n" pm1] one rest by (simp add: tick_ok_def)
  ultimately show ?case using one rest f(3) x by (auto simp: st_ok_def)
qed (simp add: pm_ext_refl)

subsection \<open>Bookkeeping\<close>

lemma entry_um_update:
  "um_wf m \<Longrightarrow> (j, x) \<in> set (AList.update i s m) \<longleftrightarrow> (if j = i then x = s else (j, x) \<in> set m)"
  using map_of_eq_Some_iff [of "AList.update i s m" j x] map_of_eq_Some_iff [of m j x] um_wf_update [of m i s]
  by (auto simp: um_wf_def)

definition maker_inv :: "u64 \<Rightarrow> nat \<Rightarrow> passive_maker \<Rightarrow> bool" where
  "maker_inv b n pm \<longleftrightarrow> um_wf (pm_state pm) \<and> om_inv b n (pm_om pm) \<and> list_all (\<lambda>(i, st). st_ok pm i st) (pm_state pm)"

lemma st_ok_state [simp]: "st_ok (pm\<lparr>pm_state := state\<rparr>) i st \<longleftrightarrow> st_ok pm i st"
  by (simp add: st_ok_def quote_ok_def)

lemma maker_inv_update:
  assumes "um_wf (pm_state pm)" "om_inv b n (pm_om pm)" "list_all (\<lambda>(j, st). j = i \<or> st_ok pm j st) (pm_state pm)" "st_ok pm i st"
  shows "maker_inv b n (pm\<lparr>pm_state := AList.update i st (pm_state pm)\<rparr>)"
  using assms by (auto simp: maker_inv_def list_all_iff entry_um_update split: if_splits)

lemma maker_inv_bbo:
  assumes inv: "maker_inv b n pm" and bound: "unat b + (n + 2) + 1 < 2 ^ 64" and "pm_on_bbo mf cache envs now tick pm = Some pm'"
  shows "maker_inv b (n + 2) pm'"
proof (cases "map_of (pm_state pm) (bbo_instrument_id tick)")
  case None
  then show ?thesis using assms om_inv_mono [of b n _ "n + 2"] by (auto simp: pm_on_bbo_def maker_inv_def)
next
  case (Some st)
  let ?i = "bbo_instrument_id tick" and ?st = "read_tick now tick st"
  obtain st1 pm1 where s: "(if pi_bid ?st \<le> 0 \<or> pi_ask ?st \<le> 0 then Some (?st, pm) else gate_tick mf cache envs ?st pm) = Some (st1, pm1)"
    and pm': "pm' = pm1\<lparr>pm_state := AList.update ?i st1 (pm_state pm1)\<rparr>"
    using assms(3) Some by (auto simp: pm_on_bbo_def Let_def)
  have t: "tick_ok b n ?i (?st, pm) (n + 2) (st1, pm1)"
    using s gate_tick_ok [of mf cache envs ?st pm "(st1, pm1)"] by (auto simp: tick_ok_keep split: if_splits)
  then have e: "pm_ext b n pm (n + 2) pm1" by (simp add: tick_ok_def)
  have om: "om_inv b n (pm_om pm)" "um_wf (pm_state pm)" "list_all (\<lambda>(i, st). st_ok pm i st) (pm_state pm)"
    using inv by (simp_all add: maker_inv_def)
  have "st_ok pm ?i st" using om(3) Some by (force simp: list_all_iff dest: map_of_SomeD)
  then have "st_ok pm1 ?i st1" using t om(1) bound by (auto simp: tick_ok_def st_ok_def read_tick_def)
  moreover have "list_all (\<lambda>(i, st). st_ok pm1 i st) (pm_state pm)"
    using om(3) st_ok_ext [OF e om(1) bound] by (auto simp: list_all_iff)
  moreover have "pm_state pm1 = pm_state pm" "om_inv b (n + 2) (pm_om pm1)" using e om(1) bound by (simp_all add: pm_ext_def)
  ultimately show ?thesis unfolding pm' using om(2) by (intro maker_inv_update) (auto simp: list_all_iff)
qed

lemma count_fill_fields:
  "pi_instrument_id (count_fill rpt st) = pi_instrument_id st" "pi_bid_order_id (count_fill rpt st) = pi_bid_order_id st"
  "pi_ask_order_id (count_fill rpt st) = pi_ask_order_id st" "pi_flatten_in_progress (count_fill rpt st) = pi_flatten_in_progress st"
  by (simp_all add: count_fill_def Let_def)

lemma maker_inv_report:
  assumes inv: "maker_inv b n pm" shows "maker_inv b n (pm_on_exec_report rpt pm)"
proof (cases "map_of (pm_order_to_instrument pm) (xr_order_id rpt)")
  case None
  then show ?thesis using inv by (simp add: pm_on_exec_report_def)
next
  case (Some i)
  let ?oid = "xr_order_id rpt"
  show ?thesis
  proof (cases "map_of (pm_state pm) i")
    case None
    then show ?thesis using inv Some by (simp add: pm_on_exec_report_def)
  next
    case (Some st)
    let ?st = "if xr_status rpt = ES_PARTIAL \<or> xr_status rpt = ES_FILLED then count_fill rpt st else st"
    have om: "om_inv b n (pm_om pm)" "um_wf (pm_state pm)" "list_all (\<lambda>(i, st). st_ok pm i st) (pm_state pm)"
      using inv by (simp_all add: maker_inv_def)
    have "st_ok pm i st" using om(3) Some by (force simp: list_all_iff dest: map_of_SomeD)
    then have st: "st_ok pm i ?st" by (simp add: st_ok_def count_fill_fields)
    show ?thesis
    proof (cases "pm_terminal (xr_status rpt)")
      case False
      then have "pm_on_exec_report rpt pm = pm\<lparr>pm_state := AList.update i ?st (pm_state pm)\<rparr>"
        using Some \<open>map_of (pm_order_to_instrument pm) ?oid = Some i\<close> by (simp add: pm_on_exec_report_def Let_def)
      then show ?thesis using st om by (auto intro!: maker_inv_update simp: list_all_iff)
    next
      case True
      let ?pm = "pm\<lparr>pm_order_to_instrument := AList.delete ?oid (pm_order_to_instrument pm)\<rparr>"
      have "pm_on_exec_report rpt pm = ?pm\<lparr>pm_state := AList.update i (forget_order ?oid ?st) (pm_state ?pm)\<rparr>"
        using Some True \<open>map_of (pm_order_to_instrument pm) ?oid = Some i\<close> by (simp add: pm_on_exec_report_def Let_def)
      note eq = this
      have i: "st_ok ?pm i (forget_order ?oid ?st)"
        using st by (auto simp: st_ok_def forget_order_def quote_ok_def delete_conv')
      have j: "st_ok ?pm j x" if "(j, x) \<in> set (pm_state pm)" "j \<noteq> i" for j x
        using om(3) that \<open>map_of (pm_order_to_instrument pm) ?oid = Some i\<close>
        by (auto simp: list_all_iff st_ok_def quote_ok_def delete_conv')
      show ?thesis unfolding eq by (rule maker_inv_update) (use om i j in \<open>auto simp: list_all_iff\<close>)
    qed
  qed
qed


lemma fold_emplace_state:
  assumes "um_wf m" "list_all (\<lambda>(i, st). st_ok pm i st) m"
  shows "um_wf (fold (\<lambda>r. emplace_state (rs_instrument_id r) (maker_inst_of mf cfg r)) rs m) \<and>
    list_all (\<lambda>(i, st). st_ok pm i st) (fold (\<lambda>r. emplace_state (rs_instrument_id r) (maker_inst_of mf cfg r)) rs m)"
  using assms
proof (induction rs arbitrary: m)
  case (Cons r rs)
  have "st_ok pm (rs_instrument_id r) (maker_inst_of mf cfg r)" by (simp add: st_ok_def maker_inst_of_def)
  then show ?case using Cons by (simp add: emplace_state_def um_wf_def map_of_eq_None_iff)
qed simp

lemma maker_inv_snapshot:
  assumes "maker_inv b n pm" shows "maker_inv b n (snd (pm_on_instrument_snapshot mf cache pm))"
  using assms fold_emplace_state [of "[]" pm]
  by (simp add: pm_on_instrument_snapshot_def Let_def maker_inv_def)

lemma maker_inv_flatten:
  assumes inv: "maker_inv b n pm" and bound: "unat b + (n + length (pm_state pm)) + 1 < 2 ^ 64"
    and "pm_on_shutdown_flatten cache fenvs pm = Some pm'"
  shows "maker_inv b (n + length (pm_state pm)) pm'"
proof -
  obtain state pm1 where f: "flatten_states cache fenvs (pm_state pm) pm = Some (state, pm1)" "pm' = pm1\<lparr>pm_state := state\<rparr>"
    using assms(3) by (auto simp: pm_on_shutdown_flatten_def)
  have "list_all (\<lambda>(i, st). pi_instrument_id st = i) (pm_state pm)"
    using inv by (auto simp: maker_inv_def list_all_iff st_ok_def)
  then show ?thesis using flatten_states_ok [OF f(1), of b n] inv bound f(2) by (auto simp: maker_inv_def um_wf_def pm_ext_def)
qed

lemma length_um_update: "length m \<le> length (AList.update k v m)"
  by (induction m) (auto split: if_splits)

lemma pm_step_length: "pm_step mf e pm = Some pm' \<Longrightarrow> length (pm_state pm) \<le> length (pm_state pm')"
proof (induction mf e pm rule: pm_step.induct)
  case (2 mf cache envs now tick pm)
  have "pm_state (snd s') = pm_state pm" if "gate_tick mf cache envs st pm = Some s'" for st s'
    using gate_tick_ok [OF that, of 0 0 0] by (simp add: tick_ok_def pm_ext_def)
  then show ?case using 2 length_um_update
    by (fastforce simp: pm_on_bbo_def Let_def split: option.splits if_splits)
next
  case (4 mf cache fenvs pm)
  then obtain state pm1 where f: "flatten_states cache fenvs (pm_state pm) pm = Some (state, pm1)" "pm' = pm1\<lparr>pm_state := state\<rparr>"
    by (auto simp: pm_on_shutdown_flatten_def)
  then have "map fst state = map fst (pm_state pm)" using flatten_states_ok by blast
  then have "length state = length (pm_state pm)" by (rule map_eq_imp_length_eq)
  then show ?case using f(2) by simp
qed (auto simp: pm_on_instrument_snapshot_def pm_on_exec_report_def Let_def length_um_update split: option.splits)

lemma maker_inv_mono: "maker_inv b n pm \<Longrightarrow> n \<le> m \<Longrightarrow> maker_inv b m pm"
  by (auto simp: maker_inv_def intro: om_inv_mono)

lemma maker_inv_step:
  assumes "maker_inv b n pm" "pm_step mf e pm = Some pm'" "length (pm_state pm') \<le> k" "unat b + (n + (2 + k)) + 1 < 2 ^ 64"
  shows "maker_inv b (n + (2 + k)) pm'"
proof (cases e)
  case (Pm_Snapshot cache)
  then have "maker_inv b n pm'" using assms(1,2) maker_inv_snapshot by auto
  then show ?thesis by (rule maker_inv_mono) simp
next
  case (Pm_Bbo cache envs now tick)
  then have "maker_inv b (n + 2) pm'" using assms(2,4) maker_inv_bbo [OF assms(1), of mf cache envs now tick pm'] by simp
  then show ?thesis by (rule maker_inv_mono) simp
next
  case (Pm_Report rpt)
  then have "maker_inv b n pm'" using assms(1,2) maker_inv_report by auto
  then show ?thesis by (rule maker_inv_mono) simp
next
  case (Pm_Flatten cache fenvs)
  have "length (pm_state pm) \<le> k" using pm_step_length [OF assms(2)] assms(3) by simp
  then have "maker_inv b (n + length (pm_state pm)) pm'"
    using assms(2,4) Pm_Flatten maker_inv_flatten [OF assms(1), of cache fenvs pm'] by simp
  then show ?thesis by (rule maker_inv_mono) (use \<open>length (pm_state pm) \<le> k\<close> in simp)
qed

lemma pm_run_length: "pm_run mf es pm = Some pm' \<Longrightarrow> length (pm_state pm) \<le> length (pm_state pm')"
proof (induction es arbitrary: pm)
  case (Cons e es)
  then obtain pm1 where "pm_step mf e pm = Some pm1" "pm_run mf es pm1 = Some pm'" by (auto simp: bind_eq_Some_conv)
  then show ?case using Cons.IH [of pm1] pm_step_length [of mf e pm pm1] by simp
qed simp

lemma maker_inv_run:
  "pm_run mf es pm = Some pm' \<Longrightarrow> maker_inv b n pm \<Longrightarrow> length (pm_state pm') \<le> k \<Longrightarrow>
    unat b + (n + length es * (2 + k)) + 1 < 2 ^ 64 \<Longrightarrow> maker_inv b (n + length es * (2 + k)) pm'"
proof (induction es arbitrary: pm n)
  case (Cons e es)
  then obtain pm1 where s: "pm_step mf e pm = Some pm1" "pm_run mf es pm1 = Some pm'" by (auto simp: bind_eq_Some_conv)
  have "maker_inv b (n + (2 + k)) pm1"
    using Cons.prems s pm_run_length [OF s(2)] by (intro maker_inv_step [OF _ s(1)]) auto
  from Cons.IH [OF s(2) this Cons.prems(3)] show ?case using Cons.prems(4) by (simp add: algebra_simps)
qed simp

text \<open>
  C12: the reports of a resting quote reach it. In any run of the maker of less than 2^32 - 1 orders, started in any
  second before 2^32 - 1, the id of a quote that an instrument holds as resting is the id of one of the orders it has placed, and the
  map of the reports gives that instrument, so no fill of a resting quote is dropped or counted elsewhere. An event places at
  most two orders or, in the flatten, one per instrument.
\<close>

theorem pm_quotes_tracked:
  assumes "pm_run mf es (pm_make cfg (om_init secs)) = Some pm" "secs < 2 ^ 32 - 1"
    and "length es * (2 + length (pm_state pm)) < 2 ^ 32 - 1"
    and "(i, st) \<in> set (pm_state pm)" "q \<in> {pi_bid_order_id st, pi_ask_order_id st}" "q \<noteq> 0"
  shows "map_of (pm_order_to_instrument pm) q = Some i \<and> q \<in> set (om_placed (pm_om pm)) \<and> pi_instrument_id st = i"
proof -
  let ?b = "make_session_base secs"
  have b: "unat ?b \<le> (2 ^ 32 - 2) * 2 ^ 32"
  proof -
    have "unat secs \<le> 2 ^ 32 - 2" using assms(2) by (simp add: word_less_nat_alt)
    then show ?thesis by (simp add: make_session_base_def push_bit_eq_mult unat_word_ariths)
  qed
  then have "maker_inv ?b 0 (pm_make cfg (om_init secs))" by (simp add: maker_inv_def pm_make_def om_inv_init)
  then have "maker_inv ?b (0 + length es * (2 + length (pm_state pm))) pm"
    by (rule maker_inv_run [OF assms(1)]) (use b assms(3) in simp_all)
  then have "st_ok pm i st" using assms(4) by (auto simp: maker_inv_def list_all_iff)
  then show ?thesis using assms(5,6) by (auto simp: st_ok_def quote_ok_def)
qed


subsection \<open>What the orders are\<close>

lemma plain_step:
  assumes "pm_step mf e pm = Some pm'" "list_all plain (gw_sent (om_gw (pm_om pm)))"
  shows "list_all plain (gw_sent (om_gw (pm_om pm')))"
proof (cases e)
  case (Pm_Bbo cache envs now tick)
  have "list_all plain (gw_sent (om_gw (pm_om (snd s'))))" if "gate_tick mf cache envs st pm = Some s'" for st s'
    using gate_tick_ok [OF that, of 0 0 0] assms(2) by (simp add: tick_ok_def pm_ext_def)
  then show ?thesis using assms Pm_Bbo by (fastforce simp: pm_on_bbo_def Let_def split: option.splits if_splits)
next
  case (Pm_Flatten cache fenvs)
  then obtain state pm1 where f: "flatten_states cache fenvs (pm_state pm) pm = Some (state, pm1)" "pm' = pm1\<lparr>pm_state := state\<rparr>"
    using assms(1) by (auto simp: pm_on_shutdown_flatten_def)
  then show ?thesis using flatten_states_ok [OF f(1), of 0 0] assms(2) by (simp add: pm_ext_def)
next
  case (Pm_Report rpt)
  then show ?thesis using assms by (auto simp: pm_on_exec_report_def Let_def split: option.splits)
qed (use assms in \<open>auto simp: pm_on_instrument_snapshot_def Let_def\<close>)

lemma plain_run:
  "pm_run mf es pm = Some pm' \<Longrightarrow> list_all plain (gw_sent (om_gw (pm_om pm))) \<Longrightarrow> list_all plain (gw_sent (om_gw (pm_om pm')))"
  by (induction es arbitrary: pm) (auto simp: bind_eq_Some_conv dest: plain_step)

text \<open>
  C16: the maker sends no post-only order. Whatever it has seen, every order the gateway has taken from it is a plain
  limit order without the post-only flag, so a venue that finds it crossing fills it as a taker.
\<close>

theorem pm_never_post_only:
  assumes "pm_run mf es (pm_make cfg (om_init secs)) = Some pm"
  shows "list_all plain (gw_sent (om_gw (pm_om pm)))"
  by (rule plain_run [OF assms]) (simp add: pm_make_def om_init_def)

subsection \<open>Shutdown\<close>

definition is_flat :: "maker_inst \<Rightarrow> bool" where
  "is_flat st \<longleftrightarrow> pi_flatten_in_progress st \<and> pi_bid_order_id st = 0 \<and> pi_ask_order_id st = 0"

fun is_flatten :: "maker_event \<Rightarrow> bool" where
  "is_flatten (Pm_Flatten cache fenvs) \<longleftrightarrow> True"
| "is_flatten _ \<longleftrightarrow> False"

lemma list_all_um_update: "list_all (\<lambda>(i, x). P x) m \<Longrightarrow> P y \<Longrightarrow> list_all (\<lambda>(i, x). P x) (AList.update k y m)"
  by (induction m) auto

lemma flat_gate_tick:
  assumes "gate_tick mf cache envs st pm = Some (st', pm')" "is_flat st" shows "pm' = pm \<and> is_flat st'"
  using assms(1)
  by (cases rule: gate_tick_cases) (use assms(2) in \<open>auto simp: is_flat_def cancel_quotes_def cancel_one_def\<close>)

lemma flat_step:
  assumes "pm_step mf e pm = Some pm'" "\<not> is_flatten e" "pm_state pm \<noteq> []" "list_all (\<lambda>(i, st). is_flat st) (pm_state pm)"
  shows "pm_om pm' = pm_om pm \<and> pm_state pm' \<noteq> [] \<and> list_all (\<lambda>(i, st). is_flat st) (pm_state pm')"
proof (cases e)
  case (Pm_Bbo cache envs now tick)
  show ?thesis
  proof (cases "map_of (pm_state pm) (bbo_instrument_id tick)")
    case None
    then show ?thesis using assms Pm_Bbo by (simp add: pm_on_bbo_def)
  next
    case (Some st)
    let ?st = "read_tick now tick st"
    have flat: "is_flat ?st" using assms(4) Some by (auto simp: list_all_iff read_tick_def is_flat_def dest: map_of_SomeD)
    obtain st1 pm1 where s: "(if pi_bid ?st \<le> 0 \<or> pi_ask ?st \<le> 0 then Some (?st, pm) else gate_tick mf cache envs ?st pm) = Some (st1, pm1)"
      and pm': "pm' = pm1\<lparr>pm_state := AList.update (bbo_instrument_id tick) st1 (pm_state pm1)\<rparr>"
      using assms(1) Some Pm_Bbo by (auto simp: pm_on_bbo_def Let_def)
    then have "pm1 = pm \<and> is_flat st1" using flat flat_gate_tick by (auto split: if_splits)
    then show ?thesis using pm' assms(4) by (simp add: list_all_um_update update_nonempty)
  qed
next
  case (Pm_Report rpt)
  have "is_flat (forget_order oid st)" "is_flat (count_fill rpt st)" if "is_flat st" for oid st
    using that by (simp_all add: is_flat_def forget_order_def count_fill_fields)
  moreover have "is_flat st" if "map_of (pm_state pm) i = Some st" for i st
    using assms(4) that by (auto simp: list_all_iff dest: map_of_SomeD)
  ultimately show ?thesis
    using assms Pm_Report by (auto simp: pm_on_exec_report_def Let_def update_nonempty intro!: list_all_um_update split: option.splits if_splits)
qed (use assms in \<open>auto simp: pm_on_instrument_snapshot_def\<close>)


subsection \<open>Inventory\<close>

text \<open>
  C15: no fill counts twice. After a final report of an order, and after a partial fill for every report that is
  not final and brings no higher cumulative quantity, a further report of the order changes nothing at all.
\<close>

theorem pm_stale_reports_ignored:
  assumes "xr_order_id rpt' = xr_order_id rpt"
    and "pm_terminal (xr_status rpt) \<or>
      xr_status rpt = ES_PARTIAL \<and> \<not> pm_terminal (xr_status rpt') \<and> xr_filled_qty rpt' \<le> xr_filled_qty rpt"
  shows "pm_on_exec_report rpt' (pm_on_exec_report rpt pm) = pm_on_exec_report rpt pm"
proof (cases "map_of (pm_order_to_instrument pm) (xr_order_id rpt)")
  case None
  then show ?thesis using assms(1) by (simp add: pm_on_exec_report_def)
next
  case (Some i)
  show ?thesis
  proof (cases "map_of (pm_state pm) i")
    case None
    then show ?thesis using Some assms(1) by (simp add: pm_on_exec_report_def)
  next
    case (Some st)
    let ?oid = "xr_order_id rpt"
    show ?thesis
    proof (cases "pm_terminal (xr_status rpt)")
      case True
      then show ?thesis
        using Some \<open>map_of (pm_order_to_instrument pm) ?oid = _\<close> assms(1) by (simp add: pm_on_exec_report_def Let_def delete_conv')
    next
      case False
      then have r: "xr_status rpt = ES_PARTIAL" "\<not> pm_terminal (xr_status rpt')" "xr_filled_qty rpt' \<le> xr_filled_qty rpt"
        using assms(2) by auto
      let ?st = "count_fill rpt st" and ?pm = "pm\<lparr>pm_state := AList.update i (count_fill rpt st) (pm_state pm)\<rparr>"
      have one: "pm_on_exec_report rpt pm = ?pm"
        using Some \<open>map_of (pm_order_to_instrument pm) ?oid = _\<close> r False by (simp add: pm_on_exec_report_def Let_def)
      have "\<exists>v. map_of (pi_last_filled_qty_e8 ?st) ?oid = Some v \<and> xr_filled_qty rpt \<le> v"
        by (auto simp: count_fill_def Let_def linorder_not_less)
      then obtain v where v: "map_of (pi_last_filled_qty_e8 ?st) ?oid = Some v" "xr_filled_qty rpt \<le> v" by blast
      then have "\<not> v < xr_filled_qty rpt'" using r(3) by simp
      then have "count_fill rpt' ?st = ?st"
        using v assms(1) by (simp add: count_fill_def [of rpt'] Let_def update_triv)
      moreover have "map_of (pm_state ?pm) i = Some ?st" by simp
      ultimately have "pm_on_exec_report rpt' ?pm = ?pm\<lparr>pm_state := AList.update i ?st (pm_state ?pm)\<rparr>"
        using \<open>map_of (pm_order_to_instrument pm) ?oid = _\<close> r(2) assms(1)
        by (simp add: pm_on_exec_report_def Let_def split del: if_split) simp
      then show ?thesis unfolding one by (simp add: update_triv)
    qed
  qed
qed


lemma d_not_less_of_le: "x \<le> y \<Longrightarrow> \<not> y < x" for x y :: double
  by (meson d_le_less_trans d_less_irrefl)

lemma d_neg_le: "x \<le> - y \<Longrightarrow> y \<le> - x" "x \<le> - y \<Longrightarrow> 0 < y \<Longrightarrow> x < 0" for x y :: double
  by (cases x; cases y; simp add: uminus_double_def)+

lemma d_abs_pos: "0 < x \<Longrightarrow> \<bar>x\<bar> = x" "x < 0 \<Longrightarrow> \<bar>x\<bar> = - x" for x :: double
  by (cases x; simp add: abs_double_def uminus_double_def)+

lemma gate_not_halted:
  assumes "vg_update_and_check mid now g = (False, g')" "0 < mid" shows "\<not> vg_is_halted now g'"
  using assms d_not_less_of_le [of mid 0] d_not_less_of_le [of "max_bps_per_window (vg_cfg g)" 0]
  by (auto simp: vg_update_and_check_def vg_is_halted_def Let_def split: if_splits)

lemma requote_caps:
  assumes "requote mf cache envs st fv pm = Some (st', pm')"
  shows "pi_inventory st' = pi_inventory st \<and> (max_inventory (pm_cfg pm) \<le> pi_inventory st \<longrightarrow> pi_bid_order_id st' = 0) \<and>
    (pi_inventory st \<le> - max_inventory (pm_cfg pm) \<longrightarrow> pi_ask_order_id st' = 0)"
proof -
  obtain st1 pm1 where c: "cancel_quotes envs st pm = (st1, pm1)" by (cases "cancel_quotes envs st pm")
  obtain bid_px ask_px where q: "quote_prices mf (pm_cfg pm) st1 fv = (bid_px, ask_px)"
    by (cases "quote_prices mf (pm_cfg pm) st1 fv")
  have inv: "pi_inventory st1 = pi_inventory st" using c by (auto simp: cancel_quotes_def Let_def)
  obtain bid pm2 ask where r:
      "(if pi_inventory st < max_inventory (pm_cfg pm) \<and> 0 < bid_px then place_side cache (envs 2) st1 BUY bid_px pm1 else Some (0, pm1)) = Some (bid, pm2)"
      "(if - max_inventory (pm_cfg pm) < pi_inventory st \<and> 0 < ask_px then place_side cache (envs 3) st1 SELL ask_px pm2 else Some (0, pm2)) = Some (ask, pm')"
      "pi_inventory st' = pi_inventory st" "pi_bid_order_id st' = bid" "pi_ask_order_id st' = ask"
    using assms c q inv by (auto simp: requote_def bind_eq_Some_conv Let_def)
  have "bid = 0" if "max_inventory (pm_cfg pm) \<le> pi_inventory st"
    using r(1) d_not_less_of_le [OF that] by simp
  moreover have "ask = 0" if "pi_inventory st \<le> - max_inventory (pm_cfg pm)"
    using r(2) d_not_less_of_le [OF that] by simp
  ultimately show ?thesis using r(3-5) by simp
qed

lemma quote_tick_caps:
  assumes "quote_tick mf cache envs st pm = Some (st', pm')" "0 < max_inventory (pm_cfg pm)"
    "0 < compute_fair_value (pi_bid st) (pi_ask st) (pi_bid_size st) (pi_ask_size st)"
  shows "pi_inventory st' = pi_inventory st \<and> (max_inventory (pm_cfg pm) \<le> pi_inventory st \<longrightarrow> pi_bid_order_id st' = 0) \<and>
    (pi_inventory st \<le> - max_inventory (pm_cfg pm) \<longrightarrow> pi_ask_order_id st' = 0)"
proof -
  let ?fv = "compute_fair_value (pi_bid st) (pi_ask st) (pi_bid_size st) (pi_ask_size st)"
  consider "requote mf cache envs st ?fv pm = Some (st', pm')" | "st' = st" "\<not> inventory_breach (pm_cfg pm) st"
    using assms(1,3) d_not_less_of_le by (auto simp: quote_tick_def Let_def split: if_splits)
  then show ?thesis
  proof cases
    case 2
    have "pi_bid_order_id st = 0" if "max_inventory (pm_cfg pm) \<le> pi_inventory st"
      using 2(2) that d_less_le_trans [OF assms(2) that] by (simp add: inventory_breach_def d_abs_pos)
    moreover have "pi_ask_order_id st = 0" if "pi_inventory st \<le> - max_inventory (pm_cfg pm)"
      using 2(2) d_neg_le [OF that] assms(2) by (simp add: inventory_breach_def d_abs_pos)
    ultimately show ?thesis using 2(1) by simp
  qed (rule requote_caps)
qed

text \<open>
  C14: inventory at the cap takes the growing side away. After a tick with a price on both sides and a positive fair
  value, an instrument whose inventory has reached the cap holds no resting bid and one at the negative cap no resting ask,
  whether the tick halted the maker, requoted or did nothing; the inventory itself is what it was.
\<close>

theorem pm_cap_respected:
  assumes "pm_on_bbo mf cache envs now tick pm = Some pm'" "map_of (pm_state pm) (bbo_instrument_id tick) = Some st"
    and "0 < max_inventory (pm_cfg pm)" "\<not> pi_flatten_in_progress st"
    and "0 < bbo_bid_price tick" "0 < bbo_ask_price tick" "0 < (bbo_bid_price tick + bbo_ask_price tick) * dlit (1 / 2)"
    and "0 < compute_fair_value (bbo_bid_price tick) (bbo_ask_price tick) (bbo_bid_qty tick) (bbo_ask_qty tick)"
  shows "\<exists>st'. map_of (pm_state pm') (bbo_instrument_id tick) = Some st' \<and> pi_inventory st' = pi_inventory st \<and>
    (max_inventory (pm_cfg pm) \<le> pi_inventory st \<longrightarrow> pi_bid_order_id st' = 0) \<and>
    (pi_inventory st \<le> - max_inventory (pm_cfg pm) \<longrightarrow> pi_ask_order_id st' = 0)"
proof -
  let ?st = "read_tick now tick st"
  have f: "pi_inventory ?st = pi_inventory st" "pi_bid ?st = bbo_bid_price tick" "pi_ask ?st = bbo_ask_price tick"
    "pi_bid_size ?st = bbo_bid_qty tick" "pi_ask_size ?st = bbo_ask_qty tick" "\<not> pi_flatten_in_progress ?st"
    using assms(4) by (simp_all add: read_tick_def)
  have "\<not> (pi_bid ?st \<le> 0 \<or> pi_ask ?st \<le> 0)" using f assms(5,6) d_not_less_of_le by auto
  then obtain st' pm1 where s: "gate_tick mf cache envs ?st pm = Some (st', pm1)"
    and pm': "pm' = pm1\<lparr>pm_state := AList.update (bbo_instrument_id tick) st' (pm_state pm1)\<rparr>"
    using assms(1,2) by (auto simp: pm_on_bbo_def Let_def)
  from s have "pi_inventory st' = pi_inventory ?st \<and> (max_inventory (pm_cfg pm) \<le> pi_inventory ?st \<longrightarrow> pi_bid_order_id st' = 0) \<and>
    (pi_inventory ?st \<le> - max_inventory (pm_cfg pm) \<longrightarrow> pi_ask_order_id st' = 0)"
  proof (cases rule: gate_tick_cases)
    case (1 est reg' gate)
    then show ?thesis by (auto simp: cancel_quotes_def)
  next
    case (2 est reg gate)
    then show ?thesis using gate_not_halted [OF 2(3)] assms(7) f by simp
  next
    case (3 est reg gate)
    from quote_tick_caps [OF 3(1) assms(3)] show ?thesis using assms(8) f by simp
  qed
  then show ?thesis using f(1) pm' by simp
qed

subsection \<open>Examples\<close>

definition plain_maths :: math_fns where
  "plain_maths = \<lparr> mf_log = (\<lambda>x. x), mf_sqrt = (\<lambda>x. x) \<rparr>"

definition tenth_maker :: maker_config where
  "tenth_maker = \<lparr> half_spread_bps = Fin 15, inventory_penalty = 0, requote_threshold_bps = Fin 50, qty_per_quote = Fin 1,
     max_inventory = Fin 5, spread_vol_mult = 0, requote_vol_mult = 0, vol_window_size = 2, vol_sample_interval_ns = 1,
     regime_gating_enabled = False,
     regime_cfg = \<lparr> rgf_window_size = 2, rgf_sample_interval_ns = 1, rgf_quiet_vol_bps_per_min = Fin 5, rgf_trend_threshold_z = Fin 1,
       rgf_chop_cooldown_ns = 10 \<rparr>,
     vol_gate_cfg = \<lparr> max_bps_per_window = 0, window_ns = 1000, halt_duration_ns = 500 \<rparr>,
     pm_instruments = [], pm_md_exchanges = [] \<rparr>"

definition px3 :: double where "px3 = Fin (5404319552844595 / 18014398509481984)"
definition tk1 :: double where "tk1 = dlit (1 / 10)"
definition fv35 :: double where "fv35 = Fin (3152519739159347 / 9007199254740992)"
definition b35 :: double where "b35 = Fin (1351079888211149 / 4503599627370496)"
definition a35 :: double where "a35 = Fin (3602879701896397 / 9007199254740992)"

definition tenth_tick :: md_bbo where
  "tenth_tick = \<lparr> bbo_timestamp_ns = 9, bbo_instrument_id = 7, bbo_bid_price = px3, bbo_bid_qty = 0,
     bbo_ask_price = a35, bbo_ask_qty = 0 \<rparr>"

definition sends_ok :: sends where
  "sends_ok k = sent_now"


lemma tenth_resolved:
  "resolve_instruments tenth_cache [] [] = [\<lparr>rs_instrument_id = 7, rs_instrument = tenth_inst, rs_exchange_id = EX_OKX\<rparr>]"
  by (simp add: resolve_instruments_def cr_resolve_def parse_all_def exchange_wanted_def ic_get_all_def tenth_get ic_get_def
      tenth_cache_def ic_seed_def insert_all_def emplace_def) (simp add: tenth_inst_def)

text \<open>The doubles of the examples.\<close>

lemma dbl_1: "(px3 + a35) * dlit (1 / 2) = fv35" "fv35 - 0 * 0 = fv35"
  by code_simp+

lemma dbl_2: "(fv35 \<le> 0) = False" "Fin 15 + 0 * 0 = Fin 15"
  by (simp add: fv35_def) code_simp

lemma dbl_3: "Fin 15 div dlit (10 ^ 4) = Fin (3458764513820541 / 2305843009213693952)" "fv35 * Fin (3458764513820541 / 2305843009213693952) = Fin (4842270319348757 / 9223372036854775808)"
  by code_simp+

lemma dbl_4: "fv35 - Fin (4842270319348757 / 9223372036854775808) = Fin (196736934971913 / 562949953421312)" "fv35 + Fin (4842270319348757 / 9223372036854775808) = Fin (1578624259384043 / 4503599627370496)"
  by code_simp+

lemma dbl_5: "round_to_tick (Fin (196736934971913 / 562949953421312)) tk1 True = b35" "round_to_tick (Fin (1578624259384043 / 4503599627370496)) tk1 False = a35"
  by code_simp+

lemma dbl_6: "round_price False (Fin (3602879701896397 / 9007199254740992)) (dlit (1 / 10)) = Fin (3602879701896397 / 9007199254740992)" "price_e8 a35 = Some 40000000"
  by code_simp+

lemma tenth_compares:
  "(a35 \<le> b35) = False" "(a35 \<le> px3) = False" "(0 < b35) = True" "(0 < a35) = True" "(px3 \<le> 0) = False" "(a35 \<le> 0) = False"
  "(0 < Fin 5) = True" "(- Fin 5 < 0) = True" "((0::double) + 0 \<le> 0) = True" "((0::double) \<le> 0) = True" "((0::double) < 0) = False"
  by (simp_all add: a35_def b35_def px3_def uminus_double_def)

lemmas tenth_maths = dbl_1 dbl_2 dbl_3 dbl_4
lemmas tenth_roundings = dbl_5 dbl_6

lemma tenth_quotes:
  assumes "pi_inventory st = 0" "pi_tick_size st = tk1" "pi_bid st = px3" "pi_ask st = a35" "rv_ready (pi_vol_est st) = False"
  shows "quote_prices plain_maths tenth_maker st fv35 = (b35, a35)"
proof -
  have c: "inventory_penalty tenth_maker = 0" "half_spread_bps tenth_maker = Fin 15" "spread_vol_mult tenth_maker = 0"
    by (simp_all add: tenth_maker_def)
  show ?thesis
    unfolding quote_prices_def rv_per_min_bps_def scale_with_vol_def assms c Let_def by (simp only: tenth_maths tenth_roundings tenth_compares if_False)
qed

lemma tenth_fv: "compute_fair_value px3 a35 0 0 = fv35"
  unfolding compute_fair_value_def Let_def by (simp only: tenth_maths tenth_compares if_False if_True simp_thms)

lemma tenth_normal:
  "normalise_and_validate tenth_cache 7 BUY OT_LIMIT b35 (Fin 1) = Some (a35, Fin 1, ''BTC'')"
  "normalise_and_validate tenth_cache 7 SELL OT_LIMIT a35 (Fin 1) = Some (a35, Fin 1, ''BTC'')"
  using tenth_normalised unfolding b35_def a35_def
  unfolding normalise_and_validate_def tenth_get option.case tenth_fields
  by (simp_all add: tenth_rounds tenth_roundings)

definition tenth_run :: "passive_maker option" where
  "tenth_run = pm_run plain_maths [Pm_Snapshot tenth_cache, Pm_Bbo tenth_cache sends_ok 9 tenth_tick] (pm_make tenth_maker (om_init 1))"

definition tenth_inst0 :: maker_inst where
  "tenth_inst0 = maker_inst_of plain_maths tenth_maker \<lparr>rs_instrument_id = 7, rs_instrument = tenth_inst, rs_exchange_id = EX_OKX\<rparr>"

definition tenth_pm0 :: passive_maker where
  "tenth_pm0 = (pm_make tenth_maker (om_init 1))\<lparr>pm_state := [(7, tenth_inst0)]\<rparr>"

lemma tenth_snapshot: "pm_on_instrument_snapshot plain_maths tenth_cache (pm_make tenth_maker (om_init 1)) =
    (Some [\<lparr>ids_instrument_id = 7, ids_exchange = ''OKX'', ids_symbol = ''BTC'', ids_depth = 1\<rparr>], tenth_pm0)"
  by (simp add: pm_on_instrument_snapshot_def pm_make_def tenth_pm0_def tenth_inst0_def Let_def emplace_state_def build_subscriptions_def
      tenth_resolved [simplified] tenth_maker_def maker_inst_of_def tenth_fields tenth_inst_def)

lemma tenth_gate:
  assumes "pi_last_book_ns st = 9" "pi_bid st = px3" "pi_ask st = a35" "rv_last_price (pi_vol_est st) = 0" "rgc_last_price (pi_regime st) = 0"
    "rgc_last_sample_ns (pi_regime st) = 0" "max_bps_per_window (vg_cfg (pi_vol_gate st)) = 0" "pi_flatten_in_progress st = False"
    "pm_cfg pm = tenth_maker"
  shows "gate_tick plain_maths cache envs st pm = quote_tick plain_maths cache envs
     (st\<lparr>pi_vol_est := (pi_vol_est st)\<lparr>rv_last_price := fv35, rv_last_sample_ns := 9\<rparr>,
         pi_regime := (pi_regime st)\<lparr>rgc_last_price := fv35, rgc_last_sample_ns := 9\<rparr>\<rparr>) pm"
proof -
  have c: "regime_gating_enabled tenth_maker = False" by (simp add: tenth_maker_def)
  show ?thesis
    unfolding gate_tick_def rv_update_def reg_update_def vg_update_and_check_def vg_is_halted_def is_choppy_def assms Let_def tenth_maths c
    by (simp add: assms tenth_maths tenth_compares)
qed

lemmas tenth_zero = tenth_compares [unfolded d_zero_simps] tenth_fv [unfolded d_zero_simps] dbl_2(1) [unfolded d_zero_simps]

lemma tenth_place:
  assumes "pm_cfg pm = tenth_maker" "pi_instrument_id st = 7" "pi_exchange_id st = EX_OKX" "pi_exchange st = ''OKX''" "om_next_order_id (pm_om pm) = n" "n \<noteq> 0"
    "side = BUY \<and> px = b35 \<or> side = SELL \<and> px = a35"
  shows "\<exists>om. place_side tenth_cache sent_now st side px pm =
       Some (n, pm\<lparr>pm_om := om, pm_order_to_instrument := AList.update n 7 (pm_order_to_instrument pm)\<rparr>) \<and>
     sent_prices om = sent_prices (pm_om pm) @ [40000000] \<and> om_next_order_id om = n + 1"
proof -
  have q: "qty_per_quote tenth_maker = Fin 1" by (simp add: tenth_maker_def)
  have nv: "normalise_and_validate tenth_cache 7 side OT_LIMIT px (Fin 1) = Some (a35, Fin 1, ''BTC'')" using assms(7) tenth_normal by auto
  show ?thesis
    by (simp add: place_side_def send_tracked_def bump_qty_for_min_notional_def min_notional_usd_def assms(1-6) q om_send_new_order_def nv
        tenth_roundings tenth_rounds gw_send_new_order_def gw_publish_def sent_now_def sent_prices_def Let_def h_order_id_def om_state_def)
      (intro exI conjI, rule refl, simp_all)
qed

lemma tenth_quote_tick:
  assumes "pm_cfg pm = tenth_maker" "om_next_order_id (pm_om pm) = 4294967297" "pi_instrument_id st = 7" "pi_exchange_id st = EX_OKX" "pi_exchange st = ''OKX''"
    "pi_inventory st = 0" "pi_tick_size st = tk1" "pi_bid st = px3" "pi_ask st = a35" "rv_ready (pi_vol_est st) = False" "pi_bid_size st = 0" "pi_ask_size st = 0"
    "pi_bid_order_id st = 0" "pi_ask_order_id st = 0"
  shows "\<exists>st' pm'. quote_tick plain_maths tenth_cache sends_ok st pm = Some (st', pm') \<and>
    sent_prices (pm_om pm') = sent_prices (pm_om pm) @ [40000000, 40000000] \<and> pi_bid_order_id st' = 4294967297 \<and> pm_state pm' = pm_state pm"
proof -
  have c: "max_inventory tenth_maker = Fin 5" by (simp add: tenth_maker_def)
  let ?st = "st\<lparr>pi_bid_order_id := 0, pi_ask_order_id := 0\<rparr>"
  have q: "quote_prices plain_maths tenth_maker ?st fv35 = (b35, a35)" by (rule tenth_quotes) (simp_all add: assms)
  obtain om where om: "place_side tenth_cache sent_now ?st BUY b35 pm =
       Some (4294967297, pm\<lparr>pm_om := om, pm_order_to_instrument := AList.update 4294967297 7 (pm_order_to_instrument pm)\<rparr>)"
     "sent_prices om = sent_prices (pm_om pm) @ [40000000]" "om_next_order_id om = 4294967298"
    using tenth_place [of pm ?st 4294967297 BUY b35] assms by auto
  let ?pm = "pm\<lparr>pm_om := om, pm_order_to_instrument := AList.update 4294967297 7 (pm_order_to_instrument pm)\<rparr>"
  obtain om' where om': "place_side tenth_cache sent_now ?st SELL a35 ?pm =
       Some (4294967298, ?pm\<lparr>pm_om := om', pm_order_to_instrument := AList.update 4294967298 7 (pm_order_to_instrument ?pm)\<rparr>)"
     "sent_prices om' = sent_prices om @ [40000000]"
    using tenth_place [of ?pm ?st 4294967298 SELL a35] assms om by auto
  show ?thesis
    using om(2) om'(2)
    by (simp add: quote_tick_def Let_def assms tenth_fv requote_def cancel_quotes_def cancel_one_def q c sends_ok_def tenth_zero tenth_maths om om'(1))
qed

lemma tenth_run_sent:
  "\<exists>pm st. tenth_run = Some pm \<and> sent_prices (pm_om pm) = [40000000, 40000000] \<and> pm_state pm = [(7, st)] \<and> pi_bid_order_id st = 4294967297"
proof -
  let ?st = "read_tick 9 tenth_tick tenth_inst0"
  let ?st1 = "?st\<lparr>pi_vol_est := (pi_vol_est ?st)\<lparr>rv_last_price := fv35, rv_last_sample_ns := 9\<rparr>,
         pi_regime := (pi_regime ?st)\<lparr>rgc_last_price := fv35, rgc_last_sample_ns := 9\<rparr>\<rparr>"
  note d = read_tick_def tenth_tick_def tenth_inst0_def maker_inst_of_def rv_make_def reg_make_def vg_make_def tenth_maker_def Let_def tenth_inst_def tk1_def rv_ready_def
  have "gate_tick plain_maths tenth_cache sends_ok ?st tenth_pm0 = quote_tick plain_maths tenth_cache sends_ok ?st1 tenth_pm0"
    by (rule tenth_gate) (simp_all add: d tenth_pm0_def pm_make_def)
  moreover obtain st' pm' where "quote_tick plain_maths tenth_cache sends_ok ?st1 tenth_pm0 = Some (st', pm')"
    "sent_prices (pm_om pm') = sent_prices (pm_om tenth_pm0) @ [40000000, 40000000]"
    "pi_bid_order_id st' = 4294967297" "pm_state pm' = pm_state tenth_pm0"
    using tenth_quote_tick [of tenth_pm0 ?st1] by (auto simp: d tenth_pm0_def pm_make_def om_init_def make_session_base_def push_bit_eq_mult)
  moreover have "sent_prices (pm_om tenth_pm0) = []" by (simp add: tenth_pm0_def pm_make_def om_init_def sent_prices_def)
  moreover have "pi_bid ?st = px3" "pi_ask ?st = a35" "bbo_instrument_id tenth_tick = 7" by (simp_all add: read_tick_def tenth_tick_def)
  moreover have "pm_state tenth_pm0 = [(7, tenth_inst0)]" by (simp add: tenth_pm0_def)
  ultimately show ?thesis
    by (simp add: tenth_run_def tenth_snapshot pm_on_bbo_def Let_def tenth_zero)
qed

theorem pm_never_post_only_witness:
  "\<exists>pm. tenth_run = Some pm \<and> sent_prices (pm_om pm) = [40000000, 40000000] \<and> list_all plain (gw_sent (om_gw (pm_om pm))) \<and>
    price_e8 (bbo_ask_price tenth_tick) = Some 40000000"
proof -
  obtain pm st where r: "tenth_run = Some pm" "sent_prices (pm_om pm) = [40000000, 40000000]" using tenth_run_sent by blast
  from r(1) have "list_all plain (gw_sent (om_gw (pm_om pm)))" unfolding tenth_run_def by (rule pm_never_post_only)
  moreover have "price_e8 (bbo_ask_price tenth_tick) = Some 40000000" by (simp add: tenth_tick_def tenth_roundings)
  ultimately show ?thesis using r by blast
qed

theorem pm_quotes_tracked_witness:
  "\<exists>pm st. tenth_run = Some pm \<and> pm_state pm = [(7, st)] \<and> pi_bid_order_id st = 4294967297 \<and>
    map_of (pm_order_to_instrument pm) 4294967297 = Some 7"
proof -
  obtain pm st where r: "tenth_run = Some pm" "pm_state pm = [(7, st)]" "pi_bid_order_id st = 4294967297" using tenth_run_sent by blast
  then have "map_of (pm_order_to_instrument pm) 4294967297 = Some 7"
    using pm_quotes_tracked [OF r(1) [unfolded tenth_run_def], of 7 st 4294967297] by simp
  then show ?thesis using r by blast
qed

definition tenth_quoting :: "double \<Rightarrow> passive_maker" where
  "tenth_quoting q = tenth_pm0\<lparr>pm_state := [(7, tenth_inst0\<lparr>pi_inventory := q, pi_bid_order_id := 77\<rparr>)], pm_order_to_instrument := [(77, 7)]\<rparr>"

definition fill_of :: "u64 \<Rightarrow> exec_report" where
  "fill_of filled = demo_report\<lparr>xr_order_id := 77, xr_status := ES_PARTIAL, xr_filled_qty := filled\<rparr>"

theorem pm_stale_reports_ignored_witness:
  "pm_on_exec_report (fill_of 3) (pm_on_exec_report (fill_of 5) (tenth_quoting 0)) = pm_on_exec_report (fill_of 5) (tenth_quoting 0)"
  using pm_stale_reports_ignored [of "fill_of 3" "fill_of 5"] by (simp add: fill_of_def pm_terminal_def)

lemma requote_without_cache: "\<exists>s. requote mf ic_init envs st fv pm = Some s"
proof -
  have p: "place_side ic_init env st side px pm = Some (0, pm)" for env st side px pm
    by (simp add: place_side_def send_tracked_def om_send_new_order_def normalise_and_validate_def ic_get_def ic_init_def h_order_id_def om_state_def)
  obtain st1 pm1 where c: "cancel_quotes envs st pm = (st1, pm1)" by (cases "cancel_quotes envs st pm")
  obtain bid_px ask_px where q: "quote_prices mf (pm_cfg pm) st1 fv = (bid_px, ask_px)"
    by (cases "quote_prices mf (pm_cfg pm) st1 fv")
  show ?thesis by (simp add: requote_def c q p Let_def)
qed

lemma tenth_desk_facts:
  "pi_last_book_ns (read_tick 9 tenth_tick st) = 9" "pi_bid (read_tick 9 tenth_tick st) = px3" "pi_ask (read_tick 9 tenth_tick st) = a35"
  "pi_bid_size (read_tick 9 tenth_tick st) = 0" "pi_ask_size (read_tick 9 tenth_tick st) = 0"
  "pi_flatten_in_progress (read_tick 9 tenth_tick st) = pi_flatten_in_progress st"
  "pi_vol_est (read_tick 9 tenth_tick st) = pi_vol_est st" "pi_regime (read_tick 9 tenth_tick st) = pi_regime st"
  "pi_vol_gate (read_tick 9 tenth_tick st) = pi_vol_gate st" "pi_fv_at_place (read_tick 9 tenth_tick st) = pi_fv_at_place st"
  by (simp_all add: read_tick_def tenth_tick_def)

lemma tenth_inst0_facts:
  "rv_last_price (pi_vol_est tenth_inst0) = 0" "rgc_last_price (pi_regime tenth_inst0) = 0" "rgc_last_sample_ns (pi_regime tenth_inst0) = 0"
  "max_bps_per_window (vg_cfg (pi_vol_gate tenth_inst0)) = 0" "pi_flatten_in_progress tenth_inst0 = False" "pi_fv_at_place tenth_inst0 = 0"
  by (simp_all add: tenth_inst0_def maker_inst_of_def rv_make_def reg_make_def vg_make_def tenth_maker_def Let_def)

theorem pm_cap_respected_witness:
  "\<exists>pm' st'. pm_on_bbo plain_maths ic_init sends_ok 9 tenth_tick (tenth_quoting (Fin 5)) = Some pm' \<and>
    map_of (pm_state pm') 7 = Some st' \<and> pi_inventory st' = Fin 5 \<and> pi_bid_order_id st' = 0"
proof -
  let ?pm = "tenth_quoting (Fin 5)" and ?st = "tenth_inst0\<lparr>pi_inventory := Fin 5, pi_bid_order_id := 77\<rparr>"
  have pm: "pm_cfg ?pm = tenth_maker" "pm_state ?pm = [(7, ?st)]" by (simp_all add: tenth_quoting_def tenth_pm0_def pm_make_def)
  have t: "bbo_instrument_id tenth_tick = 7" "bbo_bid_price tenth_tick = px3" "bbo_ask_price tenth_tick = a35" "bbo_bid_qty tenth_tick = 0" "bbo_ask_qty tenth_tick = 0"
    by (simp_all add: tenth_tick_def)
  obtain st1 where "gate_tick plain_maths ic_init sends_ok (read_tick 9 tenth_tick ?st) ?pm = quote_tick plain_maths ic_init sends_ok st1 ?pm"
      "pi_bid st1 = px3" "pi_ask st1 = a35" "pi_bid_size st1 = 0" "pi_ask_size st1 = 0" "pi_fv_at_place st1 = 0"
    using tenth_gate [of "read_tick 9 tenth_tick ?st" ?pm ic_init sends_ok] pm by (auto simp: tenth_desk_facts tenth_inst0_facts)
  then have "\<exists>s. gate_tick plain_maths ic_init sends_ok (read_tick 9 tenth_tick ?st) ?pm = Some s"
    using requote_without_cache [of plain_maths sends_ok st1 fv35 ?pm] by (simp add: quote_tick_def Let_def tenth_zero drift_exceeds_threshold_def)
  then obtain pm' where run: "pm_on_bbo plain_maths ic_init sends_ok 9 tenth_tick ?pm = Some pm'"
    by (auto simp: pm_on_bbo_def pm t Let_def tenth_desk_facts tenth_zero)
  have m: "max_inventory tenth_maker = Fin 5" by (simp add: tenth_maker_def)
  have "Fin 0 < px3" "Fin 0 < fv35" by (simp_all add: px3_def fv35_def)
  then show ?thesis
    using pm_cap_respected [OF run, of ?st] run
    by (auto simp: pm t m tenth_zero tenth_maths tenth_inst0_facts)
qed


end
