(* ===== verification/Spec2Isabelle.thy ===== *)
theory Spec2Isabelle
  imports Order_Processor Order_Book Queue_Tracker Subscription_Manager Matching_Engine Startup_Gate
    Refdata_Client Graceful_Unwinder Canon_Merge Hyperliquid_Adapter Binance_Adapter Okx_Adapter
    Fill_Accounting Harness_Client Passive_Maker
begin

text \<open>
  A verification of the core of bpt-core, a trading system of C++ services that talk over Aeron
  streams of SBE messages. This theory collects the parts.

  \<^bold>\<open>The program.\<close> A strategy process (\<open>bpt-strategy\<close>) reads instruments from the reference-data
  service (\<open>bpt-refdata\<close>) and books from the market-data gateway (\<open>bpt-md-gateway\<close>), and sends
  orders to the order gateway (\<open>bpt-order-gateway\<close>), which checks them, passes them to a thread per
  venue and reports back. The backtester (\<open>bpt-backtester\<close>) replaces the venues by a matching engine.

  \<^bold>\<open>Foundations.\<close> \<open>Prelude\<close> holds the collections of facts and the generic lemmas on lists, maps and
  words. \<open>Binary64\<close> is \<open>double\<close> of C++: rationals that fit the format, infinities and NaN, each
  operation rounded to nearest even, executable; signed zeros are one. \<open>Messages\<close> has the
  enumerations of the schema. \<open>Sbe_Memory\<close> is the byte level of the messages and \<open>Order_Accessors\<close>
  the generated getters and setters of the order messages, at their offsets.

  \<^bold>\<open>Order gateway.\<close> \<open>Rate_Breakers\<close> (\<open>reject_rate_breaker\<close>, \<open>disconnect_rate_breaker\<close>,
  \<open>validation_drop_breaker\<close>), \<open>Risk_Checker\<close>, \<open>Pnl_Tracker\<close> and \<open>Risk_Gate\<close> are \<open>src/risk\<close> and the
  checks around it; \<open>Order_Events\<close> the values between the parts; \<open>Order_State\<close> the table of open
  orders; \<open>Ring_Queue\<close> the queues between the threads, with the interleaved steps of the lock-free
  ring; \<open>Order_Adapter\<close> the venue-independent half of an adapter; \<open>Order_Processor\<close> the poll loop
  that ties them together. The theorems: every order is answered, nothing is sent after a halt,
  the table holds the open orders and counts them, the limits bound what is admitted, the ring is a
  bounded FIFO under every interleaving.

  \<^bold>\<open>Venues.\<close> Four venues are modelled behind the adapter base. \<open>Json_Text\<close> is JSON values and the
  reading and printing of decimals, \<open>Venue_Text\<close> what the adapters share: scaled fields, \<open>std::to_string\<close>,
  \<open>std::stoull\<close>. For Hyperliquid \<open>Hyperliquid_Encoder\<close> is the requests, \<open>Hyperliquid_Exec\<close> the decoder of
  fills and the emitter of events, \<open>Hyperliquid_Adapter\<close> the order path with its reconciler;
  \<open>Binance_Adapter\<close>, \<open>Okx_Adapter\<close> and \<open>Deribit_Adapter\<close> are each a venue from its requests to its reports, the last with the
  interleavings of its two threads. The theorems: a quantity arrives at Hyperliquid as the decimal it is, and at Binance and OKX exactly
  when it has six places; no request is written to Deribit twice;
  fills add up and end with one \<open>FILLED\<close>, each order is answered except after one kind of response, only orders
  that were sent are reported, duplicates are suppressed within a session; and the cases where an order is lost, replayed, reported
  twice, or reported as partial, rejected or cancelled when it is not.

  \<^bold>\<open>Order path of a strategy.\<close> \<open>Aeron_Publisher\<close> is the retry loop of \<open>Publisher\<close>; \<open>Order_Wire\<close> what the
  client writes and the gateway reads; \<open>Order_Manager\<close> the strategy's order records on that client;
  \<open>Strategy_Position\<close> its positions and their comparison with an account snapshot; \<open>Startup_Gate\<close> the
  order in which a strategy process comes up, and the watch on the reference data;
  \<open>Graceful_Unwinder\<close> how it flattens its positions on the way down. The theorems: frames are read as they were written, ids never collide, only valid orders are
  sent, the gate starts the strategy once and after everything it needs, the unwinder only closes
  positions and its retries bound its aggressive orders.

  \<^bold>\<open>Fills across the program.\<close> \<open>Fill_Accounting\<close> follows a fill from the adapters through the poll loop to the position
  cap of the gateway and to the books of the strategy. The theorems: the cap never sees the fills of the four venues, because they
  carry no instrument, and the two books of a strategy cannot both be right after two fills of an order,
  and an order reported final twice gives back two slots of the open-order limit.

  \<^bold>\<open>What a strategy trades and when.\<close> \<open>Canonical_Resolver\<close> is the universe of a strategy, from its configured symbols to the
  request and the instruments it picks; \<open>Vol_Features\<close> the volatility gate, the realised volatility and the regime classifier; \<open>Passive_Maker\<close> a
  whole strategy on top of them and of the order manager, from the snapshot of the instruments to the flatten of the shutdown. The
  theorems: the service sends what the strategy picks, except that a universe of malformed symbols is everything; a halt lasts its
  whole duration; a trend is not called too early after a chop; the maker keeps track of its quotes, counts a fill once, takes
  the growing side away at its cap and is silent after the flatten, but sends no order as post-only.

  \<^bold>\<open>Reference data.\<close> \<open>Refdata_Wire\<close> is an instrument in the service, on the wire and in the
  strategy; \<open>Instrument_Registry\<close> the registry; \<open>Refdata_Service\<close> what it publishes; \<open>Refdata_Client\<close>
  the caches that follow. The theorems say when the cache equals the registry and what a lost
  message does.

  \<^bold>\<open>Market data.\<close> \<open>Sorted_Ladder\<close> and \<open>Order_Book\<close> are the two books, related by a theorem;
  \<open>Queue_Tracker\<close> estimates queue positions; \<open>Md_Validator\<close>, \<open>Md_Publisher\<close>, \<open>Md_Adapter\<close> and
  \<open>Subscription_Manager\<close> are the way of a frame from a venue to the stream. The theorems: books
  are the maps their updates fold to, only sane numbered messages are published, venues are
  subscribed to the union of what the consumers asked for.

  \<^bold>\<open>Backtester.\<close> \<open>Matching_Book\<close> is one book of resting orders, \<open>Matching_Engine\<close> the engine with
  its latency scheduler, \<open>Harness_Client\<close> the order gateway that a strategy talks to in a backtest. The theorems: a cancel is final,
  limits are respected, what is due is released, the reports account for the orders, and the orders that never end.

  \<^bold>\<open>Recordings.\<close> \<open>Canon_File\<close> is the file format of \<open>bpt-canon\<close> with its buffered writer and its
  reader, \<open>Canon_Merge\<close> the program that merges recordings. The theorems: a recording is read back as
  written, merging is the library's stable sort, and a short write leaves bytes in the file twice.

  \<^bold>\<open>Conventions.\<close> A struct or class is a record, an enumeration a datatype, a fixed-width integer a
  word, so arithmetic wraps; where C++ leaves a signed overflow undefined the model wraps, and a
  conversion of a double out of range is \<open>None\<close>. A hash map is an association list without an order
  of its own. An exception is \<open>None\<close> or an error value. Each operation is one function from
  state to state; callbacks and messages sent are lists in the state. Objects under a mutex take one
  step per call. Loops are structural recursion, a fold, or a function with
  a measure that terminates it (reading and merging recordings); the retry loop of
  \<open>Aeron_Publisher\<close> is a partial function whose result is characterised completely; no fuel is used.
  Interfaces are locales: \<open>component\<close> and \<open>latched_component\<close> for the parts that keep an invariant or a
  latch, \<open>fifo_queue\<close>, \<open>ratio_breaker\<close> and \<open>ladder_order\<close>, each interpreted on the program's definitions.

  \<^bold>\<open>Parameters.\<close> Clocks, random numbers, what Aeron returns, the venue decoders and hooks and the
  contents of REST answers are arguments of the definitions that use them.

  \<^bold>\<open>Not modelled.\<close> The other strategies and the pricing, radar and other feature code compute in
  floating point over \<open>exp\<close>, \<open>log\<close> and \<open>erfc\<close>, whose results the language does not fix, from tuned
  constants, and promise nothing that can be stated; where a modelled part takes a logarithm or a square root, it is an argument. The account
  queries and the signatures and connections of the venues rest on TLS and HTTP libraries and on formats that are not in the repository. The services' shells are
  wiring, configuration, metrics and logging. Of the generated messages only those of the order
  path are modelled at the byte level; account snapshots and reference data are modelled as values.
  The manifest lists each part with its reason.
\<close>

end
